(* ===== verification/Demon_Prelude.thy ===== *)
theory Demon_Prelude
  imports Main "HOL-Library.Word"
begin

text \<open>
  Shared vocabulary of the development: the machine-integer types of the C sources, memory
  seen as a function from indices to cells (with the byte-copy and fill loops the kernel
  writes by hand), first-match scans over fixed-size tables, and the arithmetic of ring
  indices. Nothing here is specific to one kernel component.
\<close>

unbundle bit_operations_syntax

section \<open>Machine integers\<close>

type_synonym u8 = "8 word"
type_synonym u16 = "16 word"
type_synonym u32 = "32 word"
type_synonym u64 = "64 word"

text \<open>\<open>size_t\<close>, \<open>uintptr_t\<close> and \<open>uint64_t\<close> are all 64 bits wide on this target.\<close>

abbreviation (input) UINT64_MAX :: u64 where "UINT64_MAX \<equiv> - 1"
abbreviation (input) UINT32_MAX :: u32 where "UINT32_MAX \<equiv> - 1"

named_theorems word_nat "facts that move a word comparison to the natural numbers"

lemmas [word_nat] = word_less_nat_alt word_le_nat_alt unat_of_nat take_bit_nat_eq_self

lemma unat_add_small:
  fixes a b :: "'a::len word"
  assumes "unat a + unat b < 2 ^ LENGTH('a)"
  shows "unat (a + b) = unat a + unat b"
  using assms by (simp add: unat_add_lem)

lemma unat_inc_u32: "unat (x :: u32) < 4294967295 \<Longrightarrow> unat (x + 1) = Suc (unat x)"
  by (simp add: unat_add_small)

lemma unat_dec_u32: "(x :: u32) \<noteq> 0 \<Longrightarrow> unat (x - 1) = unat x - 1"
  by (simp add: unat_minus_one)

lemma unat_eq_nth_u32: "(x :: u32) \<noteq> 0 \<Longrightarrow> y \<noteq> 0 \<Longrightarrow> unat x - 1 = unat y - 1 \<longleftrightarrow> x = y"
  by (metis One_nat_def Suc_pred unat_gt_0 word_unat_eq_iff)

lemma unat_neq: "a \<noteq> b \<Longrightarrow> unat a \<noteq> unat b" for a b :: "'a::len word"
  by (simp add: word_unat_eq_iff)

lemma word_nat_of_unat: "of_nat (unat w) = w" for w :: "'a::len word"
  by simp

lemma unat_of_nat_u32: "m < 4294967296 \<Longrightarrow> unat (of_nat m :: u32) = m"
  by (simp add: unat_of_nat take_bit_nat_eq_self)

lemma unat_of_nat_u64: "m < 18446744073709551616 \<Longrightarrow> unat (of_nat m :: u64) = m"
  by (simp add: unat_of_nat take_bit_nat_eq_self)

lemma of_nat_inj_u32:
  "m < 4294967296 \<Longrightarrow> n < 4294967296 \<Longrightarrow> (of_nat m :: u32) = of_nat n \<longleftrightarrow> m = n"
  by (metis unat_of_nat_u32)

text \<open>Widening casts keep the value; masks are remainders modulo a power of two.\<close>

lemma unat_ucast_widen [simp]:
  "unat (ucast (x8 :: u8) :: u16) = unat x8"
  "unat (ucast (x8 :: u8) :: u32) = unat x8"
  "unat (ucast (x8 :: u8) :: u64) = unat x8"
  "unat (ucast (x16 :: u16) :: u32) = unat x16"
  "unat (ucast (x16 :: u16) :: u64) = unat x16"
  "unat (ucast (x32 :: u32) :: u64) = unat x32"
  by (auto simp: unsigned_ucast_eq intro!: take_bit_nat_eq_self less_le_trans [OF unsigned_less])

lemma unat_ucast_narrow32: "unat (x :: u64) < 4294967296 \<Longrightarrow> unat (ucast x :: u32) = unat x"
  by (simp add: unsigned_ucast_eq take_bit_nat_eq_self_iff)

lemma unat_and_mask: "unat (x AND mask n) = unat x mod 2 ^ n" for x :: "'a::len word"
  by (simp only: take_bit_eq_mask [symmetric] unsigned_take_bit_eq) (simp add: take_bit_eq_mod)

lemma unat_and_not_mask:
  fixes x :: "'a::len word"
  shows "unat (x AND NOT (mask n)) = unat x - unat x mod 2 ^ n"
proof -
  have "(x AND mask n) + (x AND NOT (mask n)) = (x AND mask n) OR (x AND NOT (mask n))"
    by (rule disjunctive_add_eq_or) (rule bit_word_eqI, auto simp: bit_simps)
  also have "\<dots> = x"
    by (rule bit_word_eqI) (auto simp: bit_simps)
  finally have "x AND NOT (mask n) = x - (x AND mask n)"
    by (simp add: algebra_simps)
  moreover have "x AND mask n \<le> x"
    by (simp add: word_le_nat_alt unat_and_mask)
  ultimately show ?thesis
    by (simp add: unat_sub unat_and_mask)
qed

section \<open>First match in a table\<close>

text \<open>
  The kernel's tables are scanned with \<open>for (i = 0; i < N; ++i) if (P(t[i])) ...\<close>, the body
  leaving the loop. \<open>first_index P xs\<close> is the index that loop stops at.
\<close>

fun first_index :: "('a \<Rightarrow> bool) \<Rightarrow> 'a list \<Rightarrow> nat option" where
  "first_index P [] = None"
| "first_index P (x # xs) = (if P x then Some 0 else map_option Suc (first_index P xs))"

lemma first_index_SomeD:
  "first_index P xs = Some i \<Longrightarrow> i < length xs \<and> P (xs ! i) \<and> (\<forall>j<i. \<not> P (xs ! j))"
proof (induction xs arbitrary: i)
  case (Cons x xs)
  then show ?case
    by (auto split: if_splits simp: nth_Cons' less_Suc_eq_0_disj)
qed simp

lemma first_index_NoneD: "first_index P xs = None \<Longrightarrow> \<forall>x \<in> set xs. \<not> P x"
  by (induction xs) (auto split: if_splits)

lemma first_index_None_iff: "first_index P xs = None \<longleftrightarrow> (\<forall>x \<in> set xs. \<not> P x)"
  by (induction xs) auto

lemma first_index_nth_None: "first_index P xs = None \<Longrightarrow> i < length xs \<Longrightarrow> \<not> P (xs ! i)"
  using first_index_NoneD nth_mem by blast

lemma first_index_unique:
  assumes "i < length xs" "P (xs ! i)" "\<And>j. j < length xs \<Longrightarrow> P (xs ! j) \<Longrightarrow> j = i"
  shows "first_index P xs = Some i"
proof (cases "first_index P xs")
  case None
  with assms(1,2) show ?thesis by (auto dest: first_index_nth_None)
next
  case (Some j)
  with first_index_SomeD [OF Some] assms(3) show ?thesis by blast
qed

text \<open>Reading a table after one entry was replaced.\<close>

lemma nth_update: "j < length xs \<Longrightarrow> xs[i := x] ! j = (if j = i then x else xs ! j)"
  by (cases "i < length xs") auto

section \<open>Counting\<close>

text \<open>\<open>count_if\<close> is the counting loop \<open>for (...) if (P) ++n\<close>.\<close>

definition count_if :: "('a \<Rightarrow> bool) \<Rightarrow> 'a list \<Rightarrow> nat" where
  "count_if P xs = length (filter P xs)"

lemma count_if_Nil [simp]: "count_if P [] = 0"
  by (simp add: count_if_def)

lemma count_if_Cons [simp]: "count_if P (x # xs) = (if P x then 1 else 0) + count_if P xs"
  by (simp add: count_if_def)

lemma count_if_append [simp]: "count_if P (xs @ ys) = count_if P xs + count_if P ys"
  by (simp add: count_if_def)

lemma count_if_le: "count_if P xs \<le> length xs"
  by (simp add: count_if_def)

lemma count_if_0_iff: "count_if P xs = 0 \<longleftrightarrow> (\<forall>x \<in> set xs. \<not> P x)"
  by (induction xs) auto

text \<open>Replacing one entry changes the count by at most that entry.\<close>

lemma count_if_update:
  "i < length xs \<Longrightarrow>
   count_if P (xs[i := y]) + (if P (xs ! i) then 1 else 0) = count_if P xs + (if P y then 1 else 0)"
proof (induction xs arbitrary: i)
  case (Cons x xs)
  show ?case
  proof (cases i)
    case (Suc j)
    with Cons.prems Cons.IH [of j] show ?thesis by (auto split: if_splits)
  qed simp
qed simp

lemma count_if_pos: "i < length xs \<Longrightarrow> P (xs ! i) \<Longrightarrow> 0 < count_if P xs"
  using count_if_0_iff nth_mem by (metis gr0I)

lemma count_if_cong: "(\<And>x. x \<in> set xs \<Longrightarrow> P x = Q x) \<Longrightarrow> count_if P xs = count_if Q xs"
  by (induction xs) auto

section \<open>Memory as a function of the index\<close>

text \<open>
  A block of memory is a function from indices to cells. \<open>mem_copy\<close> is the loop
  \<open>for (i = 0; i < n; ++i) m[off + i] = src[i]\<close> and \<open>mem_fill\<close> the loop that stores one
  value; both as the loops run, front to back.
\<close>

fun mem_copy :: "(nat \<Rightarrow> 'a) \<Rightarrow> nat \<Rightarrow> 'a list \<Rightarrow> (nat \<Rightarrow> 'a)" where
  "mem_copy m off [] = m"
| "mem_copy m off (x # xs) = mem_copy (m(off := x)) (Suc off) xs"

fun mem_fill :: "(nat \<Rightarrow> 'a) \<Rightarrow> nat \<Rightarrow> nat \<Rightarrow> 'a \<Rightarrow> (nat \<Rightarrow> 'a)" where
  "mem_fill m off 0 v = m"
| "mem_fill m off (Suc n) v = mem_fill (m(off := v)) (Suc off) n v"

definition mem_read :: "(nat \<Rightarrow> 'a) \<Rightarrow> nat \<Rightarrow> nat \<Rightarrow> 'a list" where
  "mem_read m off n = map m [off ..< off + n]"

lemma mem_copy_apply:
  "mem_copy m off xs i = (if off \<le> i \<and> i < off + length xs then xs ! (i - off) else m i)"
proof (induction xs arbitrary: m off)
  case (Cons x xs)
  show ?case
    by (cases "off = i") (auto simp: Cons.IH nth_Cons' Suc_le_eq)
next
  case Nil
  show ?case by auto
qed

lemma mem_fill_apply:
  "mem_fill m off n v i = (if off \<le> i \<and> i < off + n then v else m i)"
  by (induction n arbitrary: m off) auto

lemma length_mem_read [simp]: "length (mem_read m off n) = n"
  by (simp add: mem_read_def)

lemma nth_mem_read [simp]: "i < n \<Longrightarrow> mem_read m off n ! i = m (off + i)"
  by (simp add: mem_read_def)

lemma mem_read_cong:
  "(\<And>i. off \<le> i \<Longrightarrow> i < off + n \<Longrightarrow> m i = m' i) \<Longrightarrow> mem_read m off n = mem_read m' off n"
  by (simp add: mem_read_def)

text \<open>Reading back what was copied, and reading a disjoint range.\<close>

lemma mem_read_copy_same: "mem_read (mem_copy m off xs) off (length xs) = xs"
  by (rule nth_equalityI) (auto simp: mem_copy_apply)

lemma mem_read_copy_disjoint:
  "off' + n \<le> off \<or> off + length xs \<le> off' \<Longrightarrow>
   mem_read (mem_copy m off xs) off' n = mem_read m off' n"
  by (rule mem_read_cong) (auto simp: mem_copy_apply)

lemma mem_read_fill_disjoint:
  "off' + n \<le> off \<or> off + l \<le> off' \<Longrightarrow>
   mem_read (mem_fill m off l v) off' n = mem_read m off' n"
  by (rule mem_read_cong) (auto simp: mem_fill_apply)

section \<open>C strings\<close>

text \<open>
  A \<open>const char *\<close> argument is the list of its characters before the terminating zero
  byte; comparing two such strings to the end is list equality. A name passed with a
  length is the list of its bytes.
\<close>

type_synonym cstring = string

section \<open>Ring indices\<close>

lemma mod_Suc_ring: "(r + Suc c) mod n = Suc ((r + c) mod n) mod n"
  by (simp add: mod_Suc_eq)

lemma ring_index_inj:
  assumes "c < n" "d < n" "(r + c) mod n = (r + d) mod (n :: nat)"
  shows "c = d"
proof -
  have "n dvd c - d \<and> n dvd d - c"
    using assms(3) by (metis add_diff_cancel_left dvd_0_right mod_eq_dvd_iff_nat nat_le_linear
        add_le_cancel_left diff_is_0_eq)
  with assms(1,2) show ?thesis
    by (metis diff_is_0_eq dvd_imp_le le_antisym less_imp_diff_less not_gr0 not_le)
qed

end
