(* ===== verification/Phys_Memory.thy ===== *)
theory Phys_Memory
  imports Demon_Prelude
begin

text \<open>
  Byte-addressed memory of the machine. The kernel writes physical frames through their identity
  mapping; a memory is a function from 64-bit addresses to bytes, and address arithmetic wraps as it
  does in C. Words are little-endian. The copy and fill loops are given by recursion, and each has a
  lemma that says what it leaves at every address, stated with the wrapping difference
  \<open>x - a\<close>, so that no separate case for wrap-around is needed.
\<close>

type_synonym memory = "u64 \<Rightarrow> u8"

section \<open>Little-endian words\<close>

fun le_word :: "u8 list \<Rightarrow> 'a::len word" where
  "le_word [] = 0"
| "le_word (b # bs) = ucast b OR push_bit 8 (le_word bs)"

definition word_bytes :: "nat \<Rightarrow> 'a::len word \<Rightarrow> u8 list" where
  "word_bytes n w = map (\<lambda>i. ucast (drop_bit (8 * i) w)) [0..<n]"

lemma length_word_bytes [simp]: "length (word_bytes n w) = n"
  by (simp add: word_bytes_def)

lemma bit_le_word:
  "bit (le_word bs :: 'a::len word) n \<longleftrightarrow> n < LENGTH('a) \<and> n div 8 < length bs \<and> bit (bs ! (n div 8)) (n mod 8)"
proof (induction bs arbitrary: n)
  case (Cons b bs)
  show ?case
  proof (cases "n < 8")
    case True
    then show ?thesis by (auto simp: bit_simps)
  next
    case False
    then have "n div 8 = Suc ((n - 8) div 8)" "n mod 8 = (n - 8) mod 8"
      by (simp_all add: le_div_geq le_mod_geq)
    with False Cons.IH [of "n - 8"] show ?thesis
      by (auto simp: bit_simps dest: bit_imp_le_length)
  qed
qed simp

lemma le_word_word_bytes:
  fixes w :: "'a::len word"
  assumes "LENGTH('a) \<le> 8 * n"
  shows "le_word (word_bytes n w) = w"
proof (rule bit_word_eqI)
  fix k
  assume k: "k < LENGTH('a)"
  with assms have d: "k div 8 < n" by linarith
  have "8 * (k div 8) + k mod 8 = k" by simp
  with d k show "bit (le_word (word_bytes n w) :: 'a word) k = bit w k"
    by (simp add: bit_le_word word_bytes_def bit_simps)
qed

section \<open>Copy, fill and read\<close>

fun phys_copy :: "memory \<Rightarrow> u64 \<Rightarrow> u8 list \<Rightarrow> memory" where
  "phys_copy m a [] = m"
| "phys_copy m a (b # bs) = phys_copy (m(a := b)) (a + 1) bs"

definition phys_fill :: "memory \<Rightarrow> u64 \<Rightarrow> nat \<Rightarrow> u8 \<Rightarrow> memory" where
  "phys_fill m a n v = phys_copy m a (replicate n v)"

definition phys_read :: "memory \<Rightarrow> u64 \<Rightarrow> nat \<Rightarrow> u8 list" where
  "phys_read m a n = map (\<lambda>i. m (a + of_nat i)) [0..<n]"

lemma length_phys_read [simp]: "length (phys_read m a n) = n"
  by (simp add: phys_read_def)

lemma nth_phys_read [simp]: "i < n \<Longrightarrow> phys_read m a n ! i = m (a + of_nat i)"
  by (simp add: phys_read_def)

lemma unat_diff_Suc:
  fixes x a :: u64
  assumes "x \<noteq> a"
  shows "unat (x - a) = Suc (unat (x - (a + 1)))"
proof -
  have "x - a \<noteq> 0" using assms by simp
  then have "unat (x - a - 1) = unat (x - a) - 1" by (simp add: unat_minus_one)
  moreover have "0 < unat (x - a)" using \<open>x - a \<noteq> 0\<close> by (simp add: unat_gt_0)
  ultimately show ?thesis by (simp add: diff_diff_eq)
qed

lemma unat_minus_1: "unat (- 1 :: u64) = 2 ^ 64 - 1"
  by (simp add: unsigned_minus_1_eq_mask mask_eq_exp_minus_1)

lemma unat_uminus:
  fixes d :: u64
  assumes "d \<noteq> 0"
  shows "unat (- d) = 2 ^ 64 - unat d"
proof -
  have d: "0 < unat d" "unat d < 2 ^ 64" using assms unsigned_less [of d] by (simp_all add: unat_gt_0)
  have "unat (- 1 - d) = 2 ^ 64 - 1 - unat d"
    using unat_sub [of d "- 1"] by (simp add: unat_minus_1)
  with d have "unat ((- 1 - d) + 1) = 2 ^ 64 - unat d" by (subst unat_add_small) simp_all
  then show ?thesis by simp
qed

lemma phys_copy_apply:
  "length bs \<le> 2 ^ 64 \<Longrightarrow>
   phys_copy m a bs x = (if unat (x - a) < length bs then bs ! unat (x - a) else m x)"
proof (induction bs arbitrary: m a)
  case (Cons b bs)
  show ?case
  proof (cases "x = a")
    case True
    have "unat (a - (a + 1)) = 2 ^ 64 - 1" by (simp add: unat_minus_1)
    with True Cons show ?thesis by simp
  next
    case False
    with Cons unat_diff_Suc [OF False] show ?thesis by simp
  qed
qed simp

lemma phys_fill_apply:
  "n \<le> 2 ^ 64 \<Longrightarrow> phys_fill m a n v x = (if unat (x - a) < n then v else m x)"
  by (simp add: phys_fill_def phys_copy_apply)

lemma phys_read_cong: "(\<And>i. i < n \<Longrightarrow> m (a + of_nat i) = m' (a + of_nat i)) \<Longrightarrow> phys_read m a n = phys_read m' a n"
  by (simp add: phys_read_def)

lemma phys_read_copy_same:
  assumes "length bs \<le> 2 ^ 64"
  shows "phys_read (phys_copy m a bs) a (length bs) = bs"
proof (rule nth_equalityI)
  fix i
  assume "i < length (phys_read (phys_copy m a bs) a (length bs))"
  then have "i < length bs" by simp
  moreover from this assms have "unat (of_nat i :: u64) = i" by (intro unat_of_nat_u64) simp
  ultimately show "phys_read (phys_copy m a bs) a (length bs) ! i = bs ! i"
    using assms by (simp add: phys_copy_apply)
qed simp

section \<open>64-bit words in memory\<close>

definition read64 :: "memory \<Rightarrow> u64 \<Rightarrow> u64" where
  "read64 m a = le_word (phys_read m a 8)"

definition write64 :: "memory \<Rightarrow> u64 \<Rightarrow> u64 \<Rightarrow> memory" where
  "write64 m a v = phys_copy m a (word_bytes 8 v)"

lemma write64_apply: "write64 m a v x = (if unat (x - a) < 8 then word_bytes 8 v ! unat (x - a) else m x)"
  by (simp add: write64_def phys_copy_apply)

lemma read64_write64_same [simp]: "read64 (write64 m a v) a = v"
proof -
  have "phys_read (write64 m a v) a 8 = word_bytes 8 v"
    using phys_read_copy_same [of "word_bytes 8 v" m a] by (simp add: write64_def)
  then show ?thesis by (simp add: read64_def le_word_word_bytes)
qed

lemma read64_cong: "(\<And>i. i < 8 \<Longrightarrow> m (a + of_nat i) = m' (a + of_nat i)) \<Longrightarrow> read64 m a = read64 m' a"
  unfolding read64_def by (rule arg_cong [OF phys_read_cong])

text \<open>Two words do not overlap when neither starts inside the other.\<close>

definition word_apart :: "u64 \<Rightarrow> u64 \<Rightarrow> bool" where
  "word_apart a b \<longleftrightarrow> 8 \<le> unat (a - b) \<and> 8 \<le> unat (b - a)"

lemma unat_plus_small:
  fixes d :: u64
  assumes "i < 8" "8 \<le> unat (- d)"
  shows "unat (d + of_nat i) = unat d + i"
proof -
  have i: "unat (of_nat i :: u64) = i" using assms(1) by (simp add: unat_of_nat_u64)
  have "unat d + i < 2 ^ 64"
  proof (cases "d = 0")
    case False
    have "unat (- d) = 2 ^ 64 - unat d" using False by (rule unat_uminus)
    with assms show ?thesis by linarith
  qed (use assms in simp)
  then show ?thesis using i by (simp add: unat_add_small)
qed

lemma read64_write64_apart:
  assumes "word_apart a b"
  shows "read64 (write64 m a v) b = read64 m b"
proof (rule read64_cong)
  fix i :: nat
  assume i: "i < 8"
  have e: "b + of_nat i - a = (b - a) + of_nat i" by simp
  have "unat ((b - a) + of_nat i) = unat (b - a) + i"
    using assms i by (intro unat_plus_small) (simp_all add: word_apart_def)
  then show "write64 m a v (b + of_nat i) = m (b + of_nat i)"
    unfolding write64_apply e using assms by (simp add: word_apart_def)
qed

end
