(* ===== verification/Elf64.thy ===== *)
theory Elf64
  imports Phys_Memory
begin

text \<open>
  The ELF loader of \<open>src/src/elf64.c\<close>: validation of an executable image and the two loaders, one into a
  contiguous region and one into a list of 4 KiB frames. An image is the list of its bytes (\<open>None\<close>
  for a null pointer) and \<open>elf_size\<close> its length; the headers are read from the image little-endian
  at the offsets of the packed structs. The main facts: what the layout check guarantees about every
  loadable segment, that neither loader writes outside its target or reads outside the image, and that the
  page-wise loader builds the same virtual image as the contiguous one.
\<close>

section \<open>Headers\<close>

record elf64_header =
  eh_ident :: "u8 list"
  eh_type :: u16
  eh_machine :: u16
  eh_version :: u32
  eh_entry :: u64
  eh_program_offset :: u64
  eh_section_offset :: u64
  eh_flags :: u32
  eh_header_size :: u16
  eh_program_entry_size :: u16
  eh_program_count :: u16
  eh_section_entry_size :: u16
  eh_section_count :: u16
  eh_section_names :: u16

record elf64_program_header =
  ph_type :: u32
  ph_flags :: u32
  ph_offset :: u64
  ph_virtual_address :: u64
  ph_physical_address :: u64
  ph_file_size :: u64
  ph_memory_size :: u64
  ph_alignment :: u64

record elf64_layout =
  el_virtual_base :: u64
  el_virtual_end :: u64
  el_entry_point :: u64

record elf64_target =
  et_virtual_base :: u64
  et_memory :: u64
  et_memory_size :: u64

definition bytes_at :: "u8 list \<Rightarrow> nat \<Rightarrow> nat \<Rightarrow> u8 list" where
  "bytes_at img off n = take n (drop off img)"

definition elf64_read_header :: "u8 list \<Rightarrow> elf64_header" where
  "elf64_read_header img =
     \<lparr>eh_ident = bytes_at img 0 16, eh_type = le_word (bytes_at img 16 2), eh_machine = le_word (bytes_at img 18 2),
      eh_version = le_word (bytes_at img 20 4), eh_entry = le_word (bytes_at img 24 8),
      eh_program_offset = le_word (bytes_at img 32 8), eh_section_offset = le_word (bytes_at img 40 8),
      eh_flags = le_word (bytes_at img 48 4), eh_header_size = le_word (bytes_at img 52 2),
      eh_program_entry_size = le_word (bytes_at img 54 2), eh_program_count = le_word (bytes_at img 56 2),
      eh_section_entry_size = le_word (bytes_at img 58 2), eh_section_count = le_word (bytes_at img 60 2),
      eh_section_names = le_word (bytes_at img 62 2)\<rparr>"

definition elf64_read_program :: "u8 list \<Rightarrow> nat \<Rightarrow> elf64_program_header" where
  "elf64_read_program img off =
     \<lparr>ph_type = le_word (bytes_at img off 4), ph_flags = le_word (bytes_at img (off + 4) 4),
      ph_offset = le_word (bytes_at img (off + 8) 8), ph_virtual_address = le_word (bytes_at img (off + 16) 8),
      ph_physical_address = le_word (bytes_at img (off + 24) 8), ph_file_size = le_word (bytes_at img (off + 32) 8),
      ph_memory_size = le_word (bytes_at img (off + 40) 8), ph_alignment = le_word (bytes_at img (off + 48) 8)\<rparr>"

definition elf64_programs :: "u8 list \<Rightarrow> elf64_program_header list" where
  "elf64_programs img =
     (let header = elf64_read_header img in
      map (\<lambda>index. elf64_read_program img (unat (eh_program_offset header) + index * 56))
        [0..<unat (eh_program_count header)])"

section \<open>Validation\<close>

definition range_fits :: "u64 \<Rightarrow> u64 \<Rightarrow> u64 \<Rightarrow> bool" where
  "range_fits offset len img_size \<longleftrightarrow> offset \<le> img_size \<and> len \<le> img_size - offset"

definition elf_size :: "u8 list \<Rightarrow> u64" where
  "elf_size img = of_nat (length img)"

text \<open>The test on the header fields that both entry points make.\<close>

definition elf64_header_ok :: "elf64_header \<Rightarrow> bool" where
  "elf64_header_ok h \<longleftrightarrow>
     eh_ident h ! 0 = 0x7F \<and> eh_ident h ! 1 = 0x45 \<and> eh_ident h ! 2 = 0x4C \<and> eh_ident h ! 3 = 0x46 \<and>
     eh_ident h ! 4 = 2 \<and> eh_ident h ! 5 = 1 \<and> eh_ident h ! 6 = 1 \<and> eh_type h = 2 \<and>
     eh_machine h = 62 \<and> eh_version h = 1 \<and> eh_header_size h = 64 \<and>
     eh_program_entry_size h = 56 \<and> eh_program_count h \<noteq> 0"

definition elf64_table_fits :: "elf64_header \<Rightarrow> u64 \<Rightarrow> bool" where
  "elf64_table_fits h img_size \<longleftrightarrow> range_fits (eh_program_offset h) (ucast (eh_program_count h) * 56) img_size"

definition entry_in_segment :: "u64 \<Rightarrow> elf64_program_header \<Rightarrow> bool" where
  "entry_in_segment entry p \<longleftrightarrow> ph_flags p AND 1 \<noteq> 0 \<and> ph_virtual_address p \<le> entry \<and>
     entry < ph_virtual_address p + ph_memory_size p"

text \<open>The loop of \<open>elf64_executable_layout\<close> over the program headers.\<close>

fun layout_scan :: "u64 \<Rightarrow> u64 \<Rightarrow> elf64_program_header list \<Rightarrow> u64 \<times> u64 \<times> bool \<Rightarrow> (u64 \<times> u64 \<times> bool) option" where
  "layout_scan img_size entry [] acc = Some acc"
| "layout_scan img_size entry (p # ps) (base, vend, exec) =
     (if ph_type p \<noteq> 1 then layout_scan img_size entry ps (base, vend, exec)
      else if ph_file_size p > ph_memory_size p \<or> \<not> range_fits (ph_offset p) (ph_file_size p) img_size \<or>
              ph_virtual_address p > UINT64_MAX - ph_memory_size p then None
      else let segment_end = ph_virtual_address p + ph_memory_size p in
        layout_scan img_size entry ps
          (if ph_virtual_address p < base then ph_virtual_address p else base,
           if segment_end > vend then segment_end else vend,
           exec \<or> entry_in_segment entry p))"

definition elf64_executable_layout :: "u8 list option \<Rightarrow> elf64_layout option" where
  "elf64_executable_layout img_ptr =
     (case img_ptr of
        None \<Rightarrow> None
      | Some img \<Rightarrow>
          (let img_size = elf_size img; header = elf64_read_header img in
           if img_size < 64 then None
           else if \<not> elf64_header_ok header then None
           else if \<not> elf64_table_fits header img_size then None
           else case layout_scan img_size (eh_entry header) (elf64_programs img) (UINT64_MAX, 0, False) of
             None \<Rightarrow> None
           | Some (base, vend, exec) \<Rightarrow>
               (if base = UINT64_MAX \<or> vend \<le> base \<or> \<not> exec then None
                else Some \<lparr>el_virtual_base = base, el_virtual_end = vend, el_entry_point = eh_entry header\<rparr>)))"

section \<open>Loading\<close>

text \<open>
  The segment loop of \<open>elf64_load_executable\<close>; it stops in the middle, leaving what it has written, when a
  segment does not fit. The result carries the flags \<open>loaded\<close> and \<open>executable_entry\<close>.
\<close>

fun load_segments ::
  "u8 list \<Rightarrow> u64 \<Rightarrow> elf64_target \<Rightarrow> elf64_program_header list \<Rightarrow> bool \<times> bool \<Rightarrow> memory \<Rightarrow> (bool \<times> bool) option \<times> memory" where
  "load_segments img entry target [] (loaded, exec) m = (Some (loaded, exec), m)"
| "load_segments img entry target (p # ps) (loaded, exec) m =
     (if ph_type p \<noteq> 1 then load_segments img entry target ps (loaded, exec) m
      else if ph_file_size p > ph_memory_size p \<or> \<not> range_fits (ph_offset p) (ph_file_size p) (elf_size img) \<or>
              ph_virtual_address p < et_virtual_base target then (None, m)
      else let destination = ph_virtual_address p - et_virtual_base target in
        if \<not> range_fits destination (ph_memory_size p) (et_memory_size target) then (None, m)
        else load_segments img entry target ps (True, exec \<or> entry_in_segment entry p)
               (phys_copy m (et_memory target + destination)
                  (bytes_at img (unat (ph_offset p)) (unat (ph_file_size p)))))"

definition elf64_load_executable :: "u8 list option \<Rightarrow> elf64_target \<Rightarrow> memory \<Rightarrow> u64 option \<times> memory" where
  "elf64_load_executable img_ptr target m =
     (case img_ptr of
        None \<Rightarrow> (None, m)
      | Some img \<Rightarrow>
          (if et_memory target = 0 \<or> elf_size img < 64 then (None, m)
           else case elf64_executable_layout img_ptr of
             None \<Rightarrow> (None, m)
           | Some layout \<Rightarrow>
               (let header = elf64_read_header img in
                if el_virtual_base layout < et_virtual_base target \<or>
                   el_virtual_end layout > et_virtual_base target + et_memory_size target then (None, m)
                else if \<not> elf64_header_ok header then (None, m)
                else if \<not> elf64_table_fits header (elf_size img) then (None, m)
                else case load_segments img (eh_entry header) target (elf64_programs img) (False, False)
                            (phys_fill m (et_memory target) (unat (et_memory_size target)) 0) of
                  (None, m') \<Rightarrow> (None, m')
                | (Some (loaded, exec), m') \<Rightarrow>
                    (if \<not> loaded \<or> \<not> exec \<or> eh_entry header < et_virtual_base target \<or>
                        eh_entry header \<ge> et_virtual_base target + et_memory_size target then (None, m')
                     else (Some (eh_entry header), m')))))"

text \<open>The loop that checks and clears the frames; it stops at the first bad frame.\<close>

fun clear_frames :: "u64 list \<Rightarrow> memory \<Rightarrow> bool \<times> memory" where
  "clear_frames [] m = (True, m)"
| "clear_frames (f # fs) m =
     (if f = 0 \<or> f AND 4095 \<noteq> 0 then (False, m) else clear_frames fs (phys_fill m f 4096 0))"

text \<open>The byte loop of \<open>elf64_load_executable_pages\<close> from virtual offset \<open>offset\<close> on.\<close>

fun copy_paged :: "u64 list \<Rightarrow> u64 \<Rightarrow> u8 list \<Rightarrow> memory \<Rightarrow> memory" where
  "copy_paged frames offset [] m = m"
| "copy_paged frames offset (b # bs) m =
     copy_paged frames (offset + 1) bs (m((frames ! unat (offset div 4096)) + offset mod 4096 := b))"

fun load_segments_paged :: "u8 list \<Rightarrow> u64 \<Rightarrow> u64 list \<Rightarrow> elf64_program_header list \<Rightarrow> memory \<Rightarrow> memory" where
  "load_segments_paged img virtual_base frames [] m = m"
| "load_segments_paged img virtual_base frames (p # ps) m =
     load_segments_paged img virtual_base frames ps
       (if ph_type p \<noteq> 1 then m
        else copy_paged frames (ph_virtual_address p - virtual_base)
               (bytes_at img (unat (ph_offset p)) (unat (ph_file_size p))) m)"

text \<open>The array \<open>frames\<close> with \<open>page_count\<close> entries is the list of those entries.\<close>

definition elf64_load_executable_pages :: "u8 list option \<Rightarrow> u64 \<Rightarrow> u64 list \<Rightarrow> memory \<Rightarrow> u64 option \<times> memory" where
  "elf64_load_executable_pages img_ptr virtual_base frames m =
     (let page_count = of_nat (length frames) :: u64; capacity = page_count * 4096 in
      case img_ptr of
        None \<Rightarrow> (None, m)
      | Some img \<Rightarrow>
          (if page_count = 0 \<or> page_count > UINT64_MAX div 4096 then (None, m)
           else if virtual_base > UINT64_MAX - capacity then (None, m)
           else case elf64_executable_layout img_ptr of
             None \<Rightarrow> (None, m)
           | Some layout \<Rightarrow>
               (if el_virtual_base layout < virtual_base \<or> el_virtual_end layout > virtual_base + capacity then (None, m)
                else case clear_frames frames m of
                  (False, m') \<Rightarrow> (None, m')
                | (True, m') \<Rightarrow>
                    (Some (el_entry_point layout),
                     load_segments_paged img virtual_base frames (elf64_programs img) m'))))"

section \<open>The image a file describes\<close>

text \<open>
  The specification both loaders meet: starting from a blank image, each loadable segment is laid over the
  image at its virtual address, in file order. An image is a function from the offset to a byte.
\<close>

definition seg_offset :: "u64 \<Rightarrow> elf64_program_header \<Rightarrow> nat" where
  "seg_offset base p = unat (ph_virtual_address p) - unat base"

fun overlay :: "u8 list \<Rightarrow> u64 \<Rightarrow> elf64_program_header list \<Rightarrow> (nat \<Rightarrow> u8) \<Rightarrow> (nat \<Rightarrow> u8)" where
  "overlay img base [] f = f"
| "overlay img base (p # ps) f =
     overlay img base ps
       (\<lambda>v. if ph_type p = 1 \<and> seg_offset base p \<le> v \<and> v < seg_offset base p + unat (ph_file_size p)
            then img ! (unat (ph_offset p) + (v - seg_offset base p)) else f v)"

lemma overlay_cong: "f v = g v \<Longrightarrow> overlay img base ps f v = overlay img base ps g v"
proof (induction ps arbitrary: f g)
  case (Cons p ps)
  show ?case unfolding overlay.simps by (rule Cons.IH) (use Cons.prems in simp)
qed simp

definition elf64_image :: "u8 list \<Rightarrow> u64 \<Rightarrow> nat \<Rightarrow> u8" where
  "elf64_image img base = overlay img base (elf64_programs img) (\<lambda>_. 0)"

definition segment_fits :: "u8 list \<Rightarrow> u64 \<Rightarrow> nat \<Rightarrow> elf64_program_header \<Rightarrow> bool" where
  "segment_fits img base cap p \<longleftrightarrow> (ph_type p = 1 \<longrightarrow>
     ph_file_size p \<le> ph_memory_size p \<and> unat (ph_offset p) + unat (ph_file_size p) \<le> length img \<and>
     base \<le> ph_virtual_address p \<and>
     unat (ph_virtual_address p) + unat (ph_memory_size p) \<le> unat base + cap)"

section \<open>The interface of a target\<close>

text \<open>
  Both loaders store a segment's bytes at an offset of the virtual image. What they rely on is that the
  bytes are found again at that offset and nowhere else.
\<close>

fun store_segments ::
  "(nat \<Rightarrow> u8 list \<Rightarrow> memory \<Rightarrow> memory) \<Rightarrow> u8 list \<Rightarrow> u64 \<Rightarrow> elf64_program_header list \<Rightarrow> memory \<Rightarrow> memory" where
  "store_segments st img base [] m = m"
| "store_segments st img base (p # ps) m =
     store_segments st img base ps
       (if ph_type p \<noteq> 1 then m
        else st (seg_offset base p) (bytes_at img (unat (ph_offset p)) (unat (ph_file_size p))) m)"

locale image_target =
  fixes ok :: "'c \<Rightarrow> bool"
    and cap :: "'c \<Rightarrow> nat"
    and st :: "'c \<Rightarrow> nat \<Rightarrow> u8 list \<Rightarrow> memory \<Rightarrow> memory"
    and fetch :: "'c \<Rightarrow> memory \<Rightarrow> nat \<Rightarrow> u8"
    and inside :: "'c \<Rightarrow> u64 \<Rightarrow> bool"
  assumes fetch_store: "ok c \<Longrightarrow> off + length bs \<le> cap c \<Longrightarrow> v < cap c \<Longrightarrow>
      fetch c (st c off bs m) v = (if off \<le> v \<and> v < off + length bs then bs ! (v - off) else fetch c m v)"
    and store_frame: "ok c \<Longrightarrow> off + length bs \<le> cap c \<Longrightarrow> \<not> inside c x \<Longrightarrow> st c off bs m x = m x"
begin

lemma segment_store_bound:
  assumes "segment_fits img base (cap c) p" "ph_type p = 1"
  shows "length (bytes_at img (unat (ph_offset p)) (unat (ph_file_size p))) = unat (ph_file_size p)"
    "seg_offset base p + unat (ph_file_size p) \<le> cap c"
  using assms by (auto simp: segment_fits_def bytes_at_def seg_offset_def word_le_nat_alt)

lemma fetch_store_segments:
  assumes "ok c" "\<forall>p \<in> set ps. segment_fits img base (cap c) p" "v < cap c"
  shows "fetch c (store_segments (st c) img base ps m) v = overlay img base ps (fetch c m) v"
  using assms
proof (induction ps arbitrary: m)
  case (Cons p ps)
  let ?bs = "bytes_at img (unat (ph_offset p)) (unat (ph_file_size p))"
  let ?m = "if ph_type p \<noteq> 1 then m else st c (seg_offset base p) ?bs m"
  have fits: "segment_fits img base (cap c) p" using Cons.prems by simp
  have "fetch c ?m v = (if ph_type p = 1 \<and> seg_offset base p \<le> v \<and> v < seg_offset base p + unat (ph_file_size p)
      then img ! (unat (ph_offset p) + (v - seg_offset base p)) else fetch c m v)"
  proof (cases "ph_type p = 1")
    case True
    note b = segment_store_bound [OF fits True]
    have "?bs ! (v - seg_offset base p) = img ! (unat (ph_offset p) + (v - seg_offset base p))"
      if "v < seg_offset base p + unat (ph_file_size p)" "seg_offset base p \<le> v"
      using that fits True by (simp add: bytes_at_def segment_fits_def)
    with True b fetch_store [OF Cons.prems(1), of "seg_offset base p" ?bs v m] Cons.prems(3) show ?thesis by simp
  qed simp
  then have "overlay img base ps (fetch c ?m) v = overlay img base (p # ps) (fetch c m) v"
    by (simp only: overlay.simps) (rule overlay_cong, simp)
  moreover have "fetch c (store_segments (st c) img base ps ?m) v = overlay img base ps (fetch c ?m) v"
    by (rule Cons.IH) (use Cons.prems in auto)
  ultimately show ?case by simp
qed simp

lemma store_segments_frame:
  assumes "ok c" "\<forall>p \<in> set ps. segment_fits img base (cap c) p" "\<not> inside c x"
  shows "store_segments (st c) img base ps m x = m x"
  using assms
proof (induction ps arbitrary: m)
  case (Cons p ps)
  let ?bs = "bytes_at img (unat (ph_offset p)) (unat (ph_file_size p))"
  let ?m = "if ph_type p \<noteq> 1 then m else st c (seg_offset base p) ?bs m"
  have "store_segments (st c) img base ps ?m x = ?m x"
    by (rule Cons.IH) (use Cons.prems in auto)
  moreover have "?m x = m x"
  proof (cases "ph_type p = 1")
    case True
    have "segment_fits img base (cap c) p" using Cons.prems by simp
    from segment_store_bound [OF this True] True Cons.prems(3) show ?thesis
      using store_frame [OF Cons.prems(1), of "seg_offset base p" ?bs x m] by simp
  qed simp
  ultimately show ?case by simp
qed simp

end

section \<open>A contiguous region and a list of frames are targets\<close>

definition flat_store :: "u64 \<times> u64 \<Rightarrow> nat \<Rightarrow> u8 list \<Rightarrow> memory \<Rightarrow> memory" where
  "flat_store c off bs m = phys_copy m (fst c + of_nat off) bs"

definition flat_fetch :: "u64 \<times> u64 \<Rightarrow> memory \<Rightarrow> nat \<Rightarrow> u8" where
  "flat_fetch c m v = m (fst c + of_nat v)"

lemma unat_of_nat_diff:
  assumes "off < 2 ^ 64" "v < 2 ^ 64"
  shows "unat (a + of_nat v - (a + of_nat off) :: u64) = (if off \<le> v then v - off else 2 ^ 64 - (off - v))"
proof -
  have u: "unat (of_nat off :: u64) = off" "unat (of_nat v :: u64) = v"
    using assms by (auto intro: unat_of_nat_u64)
  have e: "a + of_nat v - (a + of_nat off) = (of_nat v - of_nat off :: u64)" by simp
  show ?thesis
  proof (cases "off \<le> v")
    case True
    then have "unat (of_nat v - of_nat off :: u64) = v - off"
      using u by (simp add: unat_sub word_le_nat_alt)
    with True e show ?thesis by simp
  next
    case False
    then have "unat (of_nat off - of_nat v :: u64) = off - v"
      using u by (simp add: unat_sub word_le_nat_alt)
    moreover from this False have "(of_nat off - of_nat v :: u64) \<noteq> 0" by (metis diff_is_0_eq' nat_le_linear unat_0 zero_diff zero_less_diff not_le order_less_irrefl)
    ultimately have "unat (- (of_nat off - of_nat v) :: u64) = 2 ^ 64 - (off - v)"
      using unat_uminus by metis
    with False e show ?thesis by (simp only: minus_diff_eq if_False)
  qed
qed

interpretation flat: image_target "\<lambda>_. True" "\<lambda>c. unat (snd c)" flat_store flat_fetch
    "\<lambda>c x. unat (x - fst c) < unat (snd c)"
proof (unfold_locales, goal_cases)
  case (1 c off bs v m)
  have b: "unat (snd c) < 2 ^ 64" using unsigned_less [of "snd c"] by simp
  with 1 have l: "length bs \<le> 2 ^ 64" "off \<le> 2 ^ 64 - 1" "v < 2 ^ 64" by auto
  show ?case
    unfolding flat_store_def flat_fetch_def phys_copy_apply [OF l(1)]
    using unat_of_nat_diff [of off v "fst c"] l 1 b by auto
next
  case (2 c off bs x m)
  have b: "unat (snd c) < 2 ^ 64" using unsigned_less [of "snd c"] by simp
  with 2 have l: "length bs \<le> 2 ^ 64" "off < 2 ^ 64" by auto
  let ?v = "unat (x - fst c)"
  have x: "x = fst c + of_nat ?v" by simp
  have "?v < 2 ^ 64" using unsigned_less [of "x - fst c"] by simp
  with l(2) have "unat (x - (fst c + of_nat off)) = (if off \<le> ?v then ?v - off else 2 ^ 64 - (off - ?v))"
    using unat_of_nat_diff [of off ?v "fst c"] x by metis
  with 2 show ?case
    unfolding flat_store_def phys_copy_apply [OF l(1)] by auto
qed

definition frames_ok :: "u64 list \<Rightarrow> bool" where
  "frames_ok frames \<longleftrightarrow> distinct frames \<and> (\<forall>f \<in> set frames. f \<noteq> 0 \<and> f AND 4095 = 0) \<and> length frames < 2 ^ 52"

definition page_addr :: "u64 list \<Rightarrow> nat \<Rightarrow> u64" where
  "page_addr frames v = frames ! (v div 4096) + of_nat (v mod 4096)"

definition paged_store :: "u64 list \<Rightarrow> nat \<Rightarrow> u8 list \<Rightarrow> memory \<Rightarrow> memory" where
  "paged_store frames off bs m = copy_paged frames (of_nat off) bs m"

definition paged_fetch :: "u64 list \<Rightarrow> memory \<Rightarrow> nat \<Rightarrow> u8" where
  "paged_fetch frames m v = m (page_addr frames v)"

definition in_frames :: "u64 list \<Rightarrow> u64 \<Rightarrow> bool" where
  "in_frames frames x \<longleftrightarrow> (\<exists>f \<in> set frames. unat (x - f) < 4096)"

lemma unat_page_aligned:
  assumes "(f :: u64) AND 4095 = 0"
  shows "unat f mod 4096 = 0" "unat f \<le> 2 ^ 64 - 4096"
proof -
  have "(4095 :: u64) = mask 12" by (simp add: mask_eq_exp_minus_1)
  with assms have "unat (f AND mask 12) = 0" by simp
  then show m: "unat f mod 4096 = 0" by (simp add: unat_and_mask)
  have "unat f < 2 ^ 64" using unsigned_less [of f] by simp
  moreover obtain k where "unat f = 4096 * k" using m by (auto elim: dvdE simp: mod_eq_0_iff_dvd)
  ultimately show "unat f \<le> 2 ^ 64 - 4096" by simp
qed

lemma unat_page_plus:
  assumes "(f :: u64) AND 4095 = 0" "r < 4096"
  shows "unat (f + of_nat r) = unat f + r"
proof -
  have "unat (of_nat r :: u64) = r" using assms(2) by (simp add: unat_of_nat_u64)
  with unat_page_aligned [OF assms(1)] assms(2) show ?thesis by (simp add: unat_add_small)
qed

lemma page_addr_inj:
  assumes ok: "frames_ok frames" and "v < 4096 * length frames" "w < 4096 * length frames"
    and e: "page_addr frames v = page_addr frames w"
  shows "v = w"
proof -
  have d: "v div 4096 < length frames" "w div 4096 < length frames" using assms(2,3) by (auto simp: less_mult_imp_div_less mult.commute)
  then have al: "frames ! (v div 4096) AND 4095 = 0" "frames ! (w div 4096) AND 4095 = 0"
    using ok by (auto simp: frames_ok_def)
  have "unat (page_addr frames v) = unat (page_addr frames w)" using e by simp
  then have s: "unat (frames ! (v div 4096)) + v mod 4096 = unat (frames ! (w div 4096)) + w mod 4096"
    by (simp add: page_addr_def unat_page_plus [OF al(1)] unat_page_plus [OF al(2)])
  note m = unat_page_aligned(1) [OF al(1)] unat_page_aligned(1) [OF al(2)]
  have r: "v mod 4096 = w mod 4096"
    using arg_cong [OF s, of "\<lambda>n. n mod 4096"] m by (simp add: mod_add_eq [symmetric])
  with s have "frames ! (v div 4096) = frames ! (w div 4096)" by (simp add: word_unat_eq_iff)
  then have "v div 4096 = w div 4096" using ok d by (simp add: frames_ok_def nth_eq_iff_index_eq)
  with r show ?thesis by (metis div_mult_mod_eq)
qed

lemma page_addr_in_frames:
  assumes "frames_ok frames" "v < 4096 * length frames"
  shows "in_frames frames (page_addr frames v)"
proof -
  have "v div 4096 < length frames" using assms(2) by (simp add: less_mult_imp_div_less mult.commute)
  moreover have "unat (of_nat (v mod 4096) :: u64) < 4096" by (subst unat_of_nat_u64) (simp_all add: less_trans [OF mod_less_divisor])
  ultimately show ?thesis
    unfolding in_frames_def page_addr_def by (intro bexI [of _ "frames ! (v div 4096)"]) simp_all
qed

lemma copy_paged_step:
  assumes "off < 2 ^ 64"
  shows "frames ! unat ((of_nat off :: u64) div 4096) + of_nat off mod 4096 = page_addr frames off"
proof -
  have u: "unat (of_nat off :: u64) = off" using assms by (intro unat_of_nat_u64) simp
  have "(of_nat off mod 4096 :: u64) = of_nat (off mod 4096)"
    using u by (simp add: word_unat_eq_iff unat_mod unat_of_nat_u64)
  moreover have "unat ((of_nat off :: u64) div 4096) = off div 4096" using u by (simp add: unat_div)
  ultimately show ?thesis by (simp add: page_addr_def)
qed

lemma copy_paged_other:
  assumes "off + length bs < 2 ^ 64" "\<And>i. i < length bs \<Longrightarrow> x \<noteq> page_addr frames (off + i)"
  shows "copy_paged frames (of_nat off) bs m x = m x"
  using assms
proof (induction bs arbitrary: off m)
  case (Cons b bs)
  have x: "x \<noteq> page_addr frames off" using Cons.prems(2) [of 0] by simp
  have "copy_paged frames (of_nat (Suc off)) bs (m(page_addr frames off := b)) x = (m(page_addr frames off := b)) x"
    using Cons.prems(1) Cons.prems(2) [of "Suc _"] by (intro Cons.IH) auto
  with x show ?case
    using copy_paged_step [of off frames] Cons.prems(1) by (simp add: add.commute)
qed simp

lemma copy_paged_hit:
  assumes "frames_ok frames" "off + length bs \<le> 4096 * length frames" "i < length bs"
  shows "copy_paged frames (of_nat off) bs m (page_addr frames (off + i)) = bs ! i"
  using assms(2,3)
proof (induction bs arbitrary: off m i)
  case (Cons b bs)
  have lim: "4096 * length frames < 2 ^ 64" using assms(1) by (simp add: frames_ok_def)
  have st: "copy_paged frames (of_nat off) (b # bs) m = copy_paged frames (of_nat (Suc off)) bs (m(page_addr frames off := b))"
    using copy_paged_step [of off frames] Cons.prems(1) lim by (simp add: add.commute)
  show ?case
  proof (cases i)
    case 0
    have "copy_paged frames (of_nat (Suc off)) bs (m(page_addr frames off := b)) (page_addr frames off) =
        (m(page_addr frames off := b)) (page_addr frames off)"
    proof (rule copy_paged_other)
      fix j
      assume "j < length bs"
      then show "page_addr frames off \<noteq> page_addr frames (Suc off + j)"
        using page_addr_inj [OF assms(1), of off "Suc off + j"] Cons.prems by auto
    qed (use Cons.prems lim in simp)
    with st 0 show ?thesis by simp
  next
    case (Suc j)
    have "copy_paged frames (of_nat (Suc off)) bs (m(page_addr frames off := b)) (page_addr frames (Suc off + j)) = bs ! j"
      by (rule Cons.IH) (use Cons.prems Suc in auto)
    with st Suc show ?thesis by simp
  qed
qed simp

interpretation paged: image_target frames_ok "\<lambda>frames. 4096 * length frames" paged_store paged_fetch in_frames
proof (unfold_locales, goal_cases)
  case (1 frames off bs v m)
  have lim: "4096 * length frames < 2 ^ 64" using 1(1) by (simp add: frames_ok_def)
  show ?case
  proof (cases "off \<le> v \<and> v < off + length bs")
    case True
    then have "v - off < length bs" "off + (v - off) = v" by auto
    with True copy_paged_hit [OF 1(1,2), of "v - off" m] show ?thesis
      by (simp add: paged_fetch_def paged_store_def)
  next
    case False
    have "copy_paged frames (of_nat off) bs m (page_addr frames v) = m (page_addr frames v)"
    proof (rule copy_paged_other)
      fix i
      assume "i < length bs"
      then show "page_addr frames v \<noteq> page_addr frames (off + i)"
        using page_addr_inj [OF 1(1,3), of "off + i"] 1 False by auto
    qed (use 1 lim in simp)
    with False show ?thesis by (auto simp: paged_fetch_def paged_store_def)
  qed
next
  case (2 frames off bs x m)
  have lim: "4096 * length frames < 2 ^ 64" using 2(1) by (simp add: frames_ok_def)
  show ?case
    unfolding paged_store_def
    by (rule copy_paged_other) (use 2 lim page_addr_in_frames [OF 2(1)] in auto)
qed

section \<open>What validation establishes\<close>

lemma layout_scan_SomeD:
  assumes "layout_scan sz entry ps (b, e, x) = Some (b', e', x')"
  shows "b' \<le> b \<and> e \<le> e' \<and>
    (\<forall>p \<in> set ps. ph_type p = 1 \<longrightarrow> ph_file_size p \<le> ph_memory_size p \<and>
       range_fits (ph_offset p) (ph_file_size p) sz \<and> ph_virtual_address p \<le> UINT64_MAX - ph_memory_size p \<and>
       b' \<le> ph_virtual_address p \<and> ph_virtual_address p + ph_memory_size p \<le> e') \<and>
    (x' \<longleftrightarrow> x \<or> (\<exists>p \<in> set ps. ph_type p = 1 \<and> entry_in_segment entry p))"
  using assms
proof (induction ps arbitrary: b e x)
  case (Cons p ps)
  show ?case
  proof (cases "ph_type p = 1")
    case False
    with Cons show ?thesis by simp
  next
    case True
    let ?b = "if ph_virtual_address p < b then ph_virtual_address p else b"
    let ?e = "if ph_virtual_address p + ph_memory_size p > e then ph_virtual_address p + ph_memory_size p else e"
    have g: "ph_file_size p \<le> ph_memory_size p" "range_fits (ph_offset p) (ph_file_size p) sz"
      "ph_virtual_address p \<le> UINT64_MAX - ph_memory_size p"
      "layout_scan sz entry ps (?b, ?e, x \<or> entry_in_segment entry p) = Some (b', e', x')"
      using Cons.prems True by (auto simp: Let_def not_less split: if_splits)
    have le: "?b \<le> b" "?b \<le> ph_virtual_address p" "e \<le> ?e" "ph_virtual_address p + ph_memory_size p \<le> ?e"
      by (auto simp: not_less)
    note ih = Cons.IH [OF g(4)]
    from ih le have "b' \<le> b" "b' \<le> ph_virtual_address p" "e \<le> e'" "ph_virtual_address p + ph_memory_size p \<le> e'"
      by (meson order.trans)+
    with ih g True show ?thesis by auto
  qed
qed simp

lemma unat_elf_size: "length img < 2 ^ 64 \<Longrightarrow> unat (elf_size img) = length img"
  by (simp add: elf_size_def unat_of_nat_u64)

lemma range_fits_unat: "range_fits a b c \<longleftrightarrow> unat a + unat b \<le> unat c"
  by (auto simp: range_fits_def word_le_nat_alt unat_sub)

lemma unat_no_overflow:
  fixes a b :: u64
  assumes "a \<le> UINT64_MAX - b"
  shows "unat (a + b) = unat a + unat b" "unat a + unat b < 2 ^ 64"
proof -
  have "unat (UINT64_MAX - b) = 2 ^ 64 - 1 - unat b"
    using unat_sub [of b UINT64_MAX] by (simp add: unat_minus_1)
  moreover have "unat b < 2 ^ 64" using unsigned_less [of b] by simp
  ultimately show "unat a + unat b < 2 ^ 64" using assms by (simp add: word_le_nat_alt)
  then show "unat (a + b) = unat a + unat b" by (simp add: unat_add_small)
qed

lemma layout_SomeD:
  assumes "elf64_executable_layout (Some img) = Some l"
  shows "elf64_header_ok (elf64_read_header img)" "elf64_table_fits (elf64_read_header img) (elf_size img)" "64 \<le> elf_size img"
    and "el_entry_point l = eh_entry (elf64_read_header img)" "el_virtual_base l < el_virtual_end l"
    and "\<exists>p \<in> set (elf64_programs img). ph_type p = 1 \<and> entry_in_segment (el_entry_point l) p"
    and "\<forall>p \<in> set (elf64_programs img). ph_type p = 1 \<longrightarrow> ph_file_size p \<le> ph_memory_size p \<and>
       range_fits (ph_offset p) (ph_file_size p) (elf_size img) \<and> ph_virtual_address p \<le> UINT64_MAX - ph_memory_size p \<and>
       el_virtual_base l \<le> ph_virtual_address p \<and> ph_virtual_address p + ph_memory_size p \<le> el_virtual_end l"
proof -
  let ?h = "elf64_read_header img"
  obtain b e where
    sc: "layout_scan (elf_size img) (eh_entry ?h) (elf64_programs img) (UINT64_MAX, 0, False) = Some (b, e, True)"
    and l: "l = \<lparr>el_virtual_base = b, el_virtual_end = e, el_entry_point = eh_entry ?h\<rparr>" "b < e"
    and h: "elf64_header_ok ?h" "elf64_table_fits ?h (elf_size img)" "64 \<le> elf_size img"
    using assms by (auto simp: elf64_executable_layout_def Let_def not_le not_less split: if_splits option.splits)
  note d = layout_scan_SomeD [OF sc]
  show "elf64_header_ok ?h" "elf64_table_fits ?h (elf_size img)" "64 \<le> elf_size img" by (fact h)+
  show "el_entry_point l = eh_entry ?h" "el_virtual_base l < el_virtual_end l" using l by simp_all
  show "\<exists>p \<in> set (elf64_programs img). ph_type p = 1 \<and> entry_in_segment (el_entry_point l) p"
    using d l by auto
  show "\<forall>p \<in> set (elf64_programs img). ph_type p = 1 \<longrightarrow> ph_file_size p \<le> ph_memory_size p \<and>
       range_fits (ph_offset p) (ph_file_size p) (elf_size img) \<and> ph_virtual_address p \<le> UINT64_MAX - ph_memory_size p \<and>
       el_virtual_base l \<le> ph_virtual_address p \<and> ph_virtual_address p + ph_memory_size p \<le> el_virtual_end l"
    using d l by auto
qed

lemma layout_segment_fits:
  assumes "elf64_executable_layout (Some img) = Some l" "length img < 2 ^ 64" "base \<le> el_virtual_base l"
    and "unat (el_virtual_end l) \<le> unat base + cap" "p \<in> set (elf64_programs img)"
  shows "segment_fits img base cap p"
proof -
  have "ph_type p = 1 \<Longrightarrow> unat (ph_virtual_address p) + unat (ph_memory_size p) \<le> unat base + cap"
    using layout_SomeD(7) [OF assms(1)] assms(4,5) unat_no_overflow [of "ph_virtual_address p" "ph_memory_size p"]
    by (fastforce simp: word_le_nat_alt)
  with layout_SomeD(7) [OF assms(1)] assms(2,3,5) show ?thesis
    by (auto simp: segment_fits_def range_fits_unat unat_elf_size intro: order.trans)
qed

section \<open>The loaders store the segments\<close>

lemma seg_offset_word:
  assumes "segment_fits img base cap p" "ph_type p = 1"
  shows "unat (ph_virtual_address p - base) = seg_offset base p" "ph_virtual_address p - base = of_nat (seg_offset base p)"
proof -
  show d: "unat (ph_virtual_address p - base) = seg_offset base p"
    using assms by (simp add: segment_fits_def seg_offset_def unat_sub)
  show "ph_virtual_address p - base = of_nat (seg_offset base p)" by (simp flip: d)
qed

lemma load_segments_eq:
  assumes "length img < 2 ^ 64" "\<forall>p \<in> set ps. segment_fits img (et_virtual_base target) (unat (et_memory_size target)) p"
  shows "load_segments img entry target ps (ld, ex) m =
     (Some (ld \<or> (\<exists>p \<in> set ps. ph_type p = 1), ex \<or> (\<exists>p \<in> set ps. ph_type p = 1 \<and> entry_in_segment entry p)),
      store_segments (flat_store (et_memory target, et_memory_size target)) img (et_virtual_base target) ps m)"
  using assms(2)
proof (induction ps arbitrary: ld ex m)
  case (Cons p ps)
  show ?case
  proof (cases "ph_type p = 1")
    case False
    with Cons show ?thesis by simp
  next
    case True
    have f: "segment_fits img (et_virtual_base target) (unat (et_memory_size target)) p" using Cons.prems by simp
    note w = seg_offset_word(2) [OF f True] and d = seg_offset_word(1) [OF f True]
    have "range_fits (ph_virtual_address p - et_virtual_base target) (ph_memory_size p) (et_memory_size target)"
      using f True d by (simp add: range_fits_unat segment_fits_def seg_offset_def word_le_nat_alt) linarith
    with True f Cons.IH Cons.prems assms(1) show ?thesis
      by (auto simp: segment_fits_def range_fits_unat unat_elf_size flat_store_def w not_less Let_def)
  qed
qed simp

lemma load_segments_paged_eq:
  assumes "\<forall>p \<in> set ps. segment_fits img base cap p"
  shows "load_segments_paged img base frames ps m = store_segments (paged_store frames) img base ps m"
  using assms
proof (induction ps arbitrary: m)
  case (Cons p ps)
  with Cons.prems seg_offset_word(2) [of img base cap p] show ?case by (simp add: paged_store_def)
qed simp

lemma clear_frames_good:
  "\<forall>f \<in> set fs. f \<noteq> 0 \<and> f AND 4095 = 0 \<Longrightarrow> fst (clear_frames fs m) \<and>
     snd (clear_frames fs m) x = (if in_frames fs x then 0 else m x)"
  by (induction fs arbitrary: m) (auto simp: in_frames_def phys_fill_apply)

section \<open>Properties\<close>

lemma layout_entry_bounds:
  assumes "elf64_executable_layout (Some img) = Some l"
  shows "el_virtual_base l \<le> el_entry_point l" "el_entry_point l < el_virtual_end l"
proof -
  obtain p where p: "p \<in> set (elf64_programs img)" "ph_type p = 1" "entry_in_segment (el_entry_point l) p"
    using layout_SomeD(6) [OF assms] by blast
  with layout_SomeD(7) [OF assms] show "el_virtual_base l \<le> el_entry_point l" "el_entry_point l < el_virtual_end l"
    unfolding entry_in_segment_def by (meson order.trans less_le_trans)+
qed

text \<open>When the contiguous loader accepts, and what it then leaves in memory.\<close>

lemma elf64_load_executable_eq:
  assumes "length img < 2 ^ 64" "et_memory target \<noteq> 0"
    and nw: "unat (et_virtual_base target) + unat (et_memory_size target) < 2 ^ 64"
  shows "elf64_load_executable (Some img) target m =
    (case elf64_executable_layout (Some img) of
       Some l \<Rightarrow> if et_virtual_base target \<le> el_virtual_base l \<and> el_virtual_end l \<le> et_virtual_base target + et_memory_size target
         then (Some (el_entry_point l), store_segments (flat_store (et_memory target, et_memory_size target)) img
                (et_virtual_base target) (elf64_programs img) (phys_fill m (et_memory target) (unat (et_memory_size target)) 0))
         else (None, m)
     | None \<Rightarrow> (None, m))"
proof (cases "elf64_executable_layout (Some img)")
  case None
  then show ?thesis by (simp add: elf64_load_executable_def)
next
  case (Some l)
  note d = layout_SomeD [OF Some] and eb = layout_entry_bounds [OF Some]
  show ?thesis
  proof (cases "et_virtual_base target \<le> el_virtual_base l \<and> el_virtual_end l \<le> et_virtual_base target + et_memory_size target")
    case False
    with Some show ?thesis by (auto simp: elf64_load_executable_def Let_def not_less not_le)
  next
    case True
    have fits: "\<forall>p \<in> set (elf64_programs img). segment_fits img (et_virtual_base target) (unat (et_memory_size target)) p"
      using layout_segment_fits [OF Some assms(1)] True nw by (simp add: word_le_nat_alt unat_add_small)
    have "et_virtual_base target \<le> el_entry_point l" "el_entry_point l < et_virtual_base target + et_memory_size target"
      using True eb by (auto intro: order.trans less_le_trans)
    moreover have "\<exists>p \<in> set (elf64_programs img). ph_type p = 1" using d(6) by auto
    ultimately show ?thesis
      using Some True assms(2) d(1-4,6)
      by (simp add: elf64_load_executable_def Let_def not_less not_le load_segments_eq [OF assms(1) fits])
  qed
qed

lemma elf64_load_executable_pages_eq:
  assumes "length img < 2 ^ 64" "frames \<noteq> []" "frames_ok frames" "unat base + 4096 * length frames < 2 ^ 64"
  shows "elf64_load_executable_pages (Some img) base frames m =
    (case elf64_executable_layout (Some img) of
       Some l \<Rightarrow> if base \<le> el_virtual_base l \<and> unat (el_virtual_end l) \<le> unat base + 4096 * length frames
         then (Some (el_entry_point l), store_segments (paged_store frames) img base (elf64_programs img) (snd (clear_frames frames m)))
         else (None, m)
     | None \<Rightarrow> (None, m))"
proof -
  have u: "unat (of_nat (length frames) :: u64) = length frames" "unat (of_nat (length frames) * 4096 :: u64) = 4096 * length frames"
    using assms(4) unat_of_nat_u64 [of "length frames"] unat_of_nat_u64 [of "4096 * length frames"]
    by (simp_all add: mult.commute)
  have ge: "\<not> (of_nat (length frames) :: u64) > UINT64_MAX div 4096" "(of_nat (length frames) :: u64) \<noteq> 0"
    using assms(2-4) u by (simp_all add: word_less_nat_alt unat_div unat_minus_1 frames_ok_def word_unat_eq_iff)
  have nb: "\<not> base > UINT64_MAX - of_nat (length frames) * 4096"
  proof -
    have "unat (UINT64_MAX - of_nat (length frames) * 4096) = 2 ^ 64 - 1 - 4096 * length frames"
      using unat_sub [of "of_nat (length frames) * 4096" UINT64_MAX] u by (simp add: unat_minus_1)
    with assms(4) show ?thesis by (simp add: word_less_nat_alt)
  qed
  have cap: "unat (base + of_nat (length frames) * 4096) = unat base + 4096 * length frames"
    using assms(4) u by (simp add: unat_add_small)
  have clr: "fst (clear_frames frames m)" using clear_frames_good [of frames m] assms(3) by (simp add: frames_ok_def)
  have cf: "clear_frames frames m = (True, snd (clear_frames frames m))" using clr by (metis prod.collapse)
  show ?thesis
  proof (cases "elf64_executable_layout (Some img)")
    case None
    then show ?thesis using ge nb by (simp add: elf64_load_executable_pages_def)
  next
    case (Some l)
    have "\<forall>p \<in> set (elf64_programs img). segment_fits img base (4096 * length frames) p"
      if "base \<le> el_virtual_base l" "unat (el_virtual_end l) \<le> unat base + 4096 * length frames"
      using layout_segment_fits [OF Some assms(1) that] by simp
    note eq = load_segments_paged_eq [OF this]
    have "(el_virtual_end l > base + of_nat (length frames) * 4096) \<longleftrightarrow>
        \<not> unat (el_virtual_end l) \<le> unat base + 4096 * length frames"
      by (simp add: word_less_nat_alt cap not_le)
    then show ?thesis
      unfolding elf64_load_executable_pages_def Let_def option.case Some
      using ge nb eq by (subst cf) (simp only: prod.case bool.case if_False not_less de_Morgan_conj simp_thms if_split, auto)
  qed
qed

definition elf64_example :: "u8 list" where
  "elf64_example = [0x7F, 0x45, 0x4C, 0x46, 2, 1, 1] @ replicate 9 0 @
     word_bytes 2 (2 :: u16) @ word_bytes 2 (62 :: u16) @ word_bytes 4 (1 :: u32) @ word_bytes 8 (0x300000 :: u64) @
     word_bytes 8 (64 :: u64) @ word_bytes 8 (0 :: u64) @ word_bytes 4 (0 :: u32) @ word_bytes 2 (64 :: u16) @
     word_bytes 2 (56 :: u16) @ word_bytes 2 (1 :: u16) @ replicate 6 0 @
     word_bytes 4 (1 :: u32) @ word_bytes 4 (5 :: u32) @ word_bytes 8 (120 :: u64) @ word_bytes 8 (0x300000 :: u64) @
     word_bytes 8 (0x300000 :: u64) @ word_bytes 8 (2 :: u64) @ word_bytes 8 (16 :: u64) @ word_bytes 8 (4096 :: u64) @
     [0xEB, 0xFE]"

lemma elf64_example_layout:
  "elf64_executable_layout (Some elf64_example) =
     Some \<lparr>el_virtual_base = 0x300000, el_virtual_end = 0x300010, el_entry_point = 0x300000\<rparr>"
  by code_simp

lemma elf64_example_length: "length elf64_example = 122"
  by (simp add: elf64_example_def)

text \<open>
  Claim C23: what \<open>elf64_executable_layout\<close> guarantees of an accepted image: the whole program-header
  table lies inside the file; every loadable segment's file bytes lie inside the file, its file size does
  not exceed its memory size, its address range does not wrap and lies between the reported base and end;
  and the entry point lies in an executable loadable segment.
\<close>

theorem elf64_layout_sound:
  assumes "elf64_executable_layout (Some img) = Some l" "length img < 2 ^ 64"
  shows "(let h = elf64_read_header img in unat (eh_program_offset h) + unat (eh_program_count h) * 56 \<le> length img) \<and>
    (\<forall>p \<in> set (elf64_programs img). ph_type p = 1 \<longrightarrow>
       unat (ph_offset p) + unat (ph_file_size p) \<le> length img \<and> ph_file_size p \<le> ph_memory_size p \<and>
       unat (ph_virtual_address p) + unat (ph_memory_size p) \<le> unat (el_virtual_end l) \<and>
       el_virtual_base l \<le> ph_virtual_address p) \<and>
    (\<exists>p \<in> set (elf64_programs img). ph_type p = 1 \<and> ph_flags p AND 1 \<noteq> 0 \<and> ph_virtual_address p \<le> el_entry_point l \<and>
       unat (el_entry_point l) < unat (ph_virtual_address p) + unat (ph_memory_size p))"
proof -
  note d = layout_SomeD [OF assms(1)]
  let ?h = "elf64_read_header img"
  have "unat (eh_program_count ?h) < 2 ^ 16" using unsigned_less [of "eh_program_count ?h"] by simp
  then have "unat (ucast (eh_program_count ?h) * 56 :: u64) = unat (eh_program_count ?h) * 56"
    by (simp add: unat_word_ariths)
  with d(2) have "unat (eh_program_offset ?h) + unat (eh_program_count ?h) * 56 \<le> length img"
    by (simp add: elf64_table_fits_def range_fits_unat unat_elf_size [OF assms(2)])
  moreover have no: "unat (ph_virtual_address p + ph_memory_size p) = unat (ph_virtual_address p) + unat (ph_memory_size p)"
    if "p \<in> set (elf64_programs img)" "ph_type p = 1" for p
    using d(7) that unat_no_overflow(1) by blast
  moreover have "segment_fits img (el_virtual_base l) (unat (el_virtual_end l) - unat (el_virtual_base l)) p"
    if "p \<in> set (elf64_programs img)" for p
    using layout_segment_fits [OF assms(1,2) order_refl _ that] d(5) by (simp add: word_less_nat_alt)
  ultimately show ?thesis
    using d(5,6) no by (auto simp: Let_def segment_fits_def entry_in_segment_def word_less_nat_alt) 
qed

theorem elf64_layout_sound_witness:
  "\<exists>p \<in> set (elf64_programs elf64_example). ph_type p = 1 \<and> ph_virtual_address p \<le> 0x300000"
  using elf64_layout_sound [OF elf64_example_layout] by (auto simp: elf64_example_length)

text \<open>
  Claim C24: \<open>elf64_load_executable\<close> is all-or-nothing. For a target whose address range does not wrap it
  either rejects the image and leaves memory untouched, or fills the target with exactly the image the
  file describes (segments in file order over zeroes), changes nothing outside the target and returns an
  entry point inside it.
\<close>

theorem elf64_load_executable_correct:
  assumes "length img < 2 ^ 64" "et_memory target \<noteq> 0"
    and "unat (et_virtual_base target) + unat (et_memory_size target) < 2 ^ 64"
    and "elf64_load_executable (Some img) target m = (r, m')"
  shows "(case r of
      None \<Rightarrow> m' = m
    | Some entry \<Rightarrow>
        (\<forall>v < unat (et_memory_size target). m' (et_memory target + of_nat v) = elf64_image img (et_virtual_base target) v) \<and>
        (\<forall>x. unat (et_memory_size target) \<le> unat (x - et_memory target) \<longrightarrow> m' x = m x) \<and>
        et_virtual_base target \<le> entry \<and> unat entry < unat (et_virtual_base target) + unat (et_memory_size target))"
proof (cases r)
  case None
  with assms(4) show ?thesis
    by (auto simp: elf64_load_executable_eq [OF assms(1-3)] split: option.splits if_splits)
next
  case (Some entry)
  let ?c = "(et_memory target, et_memory_size target)" and ?b = "et_virtual_base target"
  let ?m = "phys_fill m (et_memory target) (unat (et_memory_size target)) 0"
  obtain l where l: "elf64_executable_layout (Some img) = Some l" and e: "entry = el_entry_point l"
    and f: "?b \<le> el_virtual_base l" "el_virtual_end l \<le> ?b + et_memory_size target"
    and m': "m' = store_segments (flat_store ?c) img ?b (elf64_programs img) ?m"
    using assms(4) Some by (auto simp: elf64_load_executable_eq [OF assms(1-3)] split: option.splits if_splits)
  have s: "unat (et_memory_size target) < 2 ^ 64" using unsigned_less [of "et_memory_size target"] by simp
  have fits: "\<forall>p \<in> set (elf64_programs img). segment_fits img ?b (unat (snd ?c)) p"
    using layout_segment_fits [OF l assms(1) f(1)] f(2) assms(3) by (simp add: word_le_nat_alt unat_add_small)
  have "m' (et_memory target + of_nat v) = elf64_image img ?b v" if v: "v < unat (et_memory_size target)" for v
  proof -
    have "flat_fetch ?c ?m v = 0"
      using v s unat_of_nat_u64 [of v] by (simp add: flat_fetch_def phys_fill_apply)
    then have "overlay img ?b (elf64_programs img) (flat_fetch ?c ?m) v = elf64_image img ?b v"
      unfolding elf64_image_def by (intro overlay_cong)
    with flat.fetch_store_segments [OF TrueI fits, of v ?m] v show ?thesis
      by (simp add: m' flat_fetch_def)
  qed
  moreover have "m' x = m x" if "unat (et_memory_size target) \<le> unat (x - et_memory target)" for x
    using flat.store_segments_frame [OF TrueI fits, of x ?m] that s by (simp add: m' phys_fill_apply)
  moreover have "?b \<le> entry" "unat entry < unat ?b + unat (et_memory_size target)"
    using layout_entry_bounds [OF l] f e assms(3)
    by (auto simp: word_less_nat_alt word_le_nat_alt unat_add_small)
  ultimately show ?thesis using Some by simp
qed

theorem elf64_load_executable_correct_witness:
  "snd (elf64_load_executable (Some elf64_example) \<lparr>et_virtual_base = 0x300000, et_memory = 0x5000, et_memory_size = 32\<rparr>
     (\<lambda>_. 0xCC)) 0x6000 = 0xCC"
proof -
  let ?t = "\<lparr>et_virtual_base = 0x300000, et_memory = 0x5000, et_memory_size = 32\<rparr> :: elf64_target"
  let ?r = "elf64_load_executable (Some elf64_example) ?t (\<lambda>_. 0xCC)"
  have "fst ?r = Some 0x300000"
    by (simp add: elf64_load_executable_eq elf64_example_layout elf64_example_length)
  then obtain m' where e: "?r = (Some 0x300000, m')" by (metis prod.collapse)
  from elf64_load_executable_correct [OF _ _ _ e] have "m' 0x6000 = 0xCC"
    by (simp add: elf64_example_length)
  with e show ?thesis by simp
qed

text \<open>
  Claim C25: the page-wise loader builds the same process image. For distinct page-aligned non-zero frames
  \<open>elf64_load_executable_pages\<close> accepts exactly the images \<open>elf64_load_executable\<close> accepts for a contiguous
  target of the same base and size, returns the same entry point, leaves at every virtual offset the same
  byte, and changes nothing outside the frames; on rejection it changes nothing.
\<close>

theorem elf64_load_pages_equivalent:
  assumes "length img < 2 ^ 64" "frames \<noteq> []" "frames_ok frames" "unat base + 4096 * length frames < 2 ^ 64"
    and "target = \<lparr>et_virtual_base = base, et_memory = buffer, et_memory_size = of_nat (4096 * length frames)\<rparr>" "buffer \<noteq> 0"
    and "elf64_load_executable_pages (Some img) base frames m = (r, m')"
    and "elf64_load_executable (Some img) target n = (rf, n')"
  shows "r = rf \<and>
    (r \<noteq> None \<longrightarrow> (\<forall>v < 4096 * length frames. m' (page_addr frames v) = n' (buffer + of_nat v))) \<and>
    (\<forall>x. \<not> in_frames frames x \<longrightarrow> m' x = m x) \<and> (r = None \<longrightarrow> m' = m)"
proof -
  let ?cap = "4096 * length frames" and ?s = "of_nat (4096 * length frames) :: u64"
  have u: "unat ?s = ?cap" using assms(4) by (intro unat_of_nat_u64) simp
  have t: "et_memory target \<noteq> 0" "unat (et_virtual_base target) + unat (et_memory_size target) < 2 ^ 64"
    using assms(4-6) u by simp_all
  have endc: "(el_virtual_end l \<le> base + ?s) = (unat (el_virtual_end l) \<le> unat base + ?cap)" for l
    using assms(4) u by (simp add: word_le_nat_alt unat_add_small)
  note pg = assms(7) [unfolded elf64_load_executable_pages_eq [OF assms(1-4)]]
  note fl = assms(8) [unfolded elf64_load_executable_eq [OF assms(1) t]]
  have rr: "r = rf" using pg fl endc assms(5) by (auto split: option.splits if_splits)
  show ?thesis
  proof (cases r)
    case None
    with pg rr show ?thesis by (auto split: option.splits if_splits)
  next
    case (Some e)
    obtain l where l: "elf64_executable_layout (Some img) = Some l"
      and f: "base \<le> el_virtual_base l" "unat (el_virtual_end l) \<le> unat base + ?cap"
      and m': "m' = store_segments (paged_store frames) img base (elf64_programs img) (snd (clear_frames frames m))"
      using pg Some by (auto split: option.splits if_splits)
    have fits: "\<forall>p \<in> set (elf64_programs img). segment_fits img base ?cap p"
      using layout_segment_fits [OF l assms(1) f] by simp
    have al: "\<forall>f \<in> set frames. f \<noteq> 0 \<and> f AND 4095 = 0" using assms(3) by (simp add: frames_ok_def)
    have "m' (page_addr frames v) = n' (buffer + of_nat v)" if v: "v < ?cap" for v
    proof -
      let ?fill = "phys_fill n buffer (unat ?s) 0"
      have n': "n' = store_segments (flat_store (buffer, ?s)) img base (elf64_programs img) ?fill"
        using fl rr Some assms(5) by (auto split: option.splits if_splits)
      have "paged_fetch frames (snd (clear_frames frames m)) v = 0"
        using clear_frames_good [OF al, of m] page_addr_in_frames [OF assms(3) v] by (simp add: paged_fetch_def)
      moreover have "flat_fetch (buffer, ?s) ?fill v = 0"
        unfolding u flat_fetch_def fst_conv using v assms(4) unat_of_nat_u64 [of v] by (simp add: phys_fill_apply)
      ultimately have z: "paged_fetch frames (snd (clear_frames frames m)) v = flat_fetch (buffer, ?s) ?fill v" by simp
      have "m' (page_addr frames v) = overlay img base (elf64_programs img) (paged_fetch frames (snd (clear_frames frames m))) v"
        using paged.fetch_store_segments [OF assms(3) fits v] by (simp add: m' paged_fetch_def)
      also have "\<dots> = overlay img base (elf64_programs img) (flat_fetch (buffer, ?s) ?fill) v"
        using z by (rule overlay_cong)
      also have "\<dots> = n' (buffer + of_nat v)"
        using flat.fetch_store_segments [of "elf64_programs img" img base "(buffer, ?s)" v ?fill] fits v u
        by (simp add: n' flat_fetch_def)
      finally show ?thesis .
    qed
    moreover have "m' x = m x" if "\<not> in_frames frames x" for x
      using paged.store_segments_frame [OF assms(3) fits that] clear_frames_good [OF al, of m x] that by (simp add: m')
    ultimately show ?thesis using rr Some by blast
  qed
qed

theorem elf64_load_pages_equivalent_witness:
  "fst (elf64_load_executable_pages (Some elf64_example) 0x300000 [0x8000, 0x3000] (\<lambda>_. 0xCC)) = Some 0x300000"
proof -
  let ?t = "\<lparr>et_virtual_base = 0x300000, et_memory = 0x5000, et_memory_size = of_nat (4096 * length [0x8000 :: u64, 0x3000])\<rparr> :: elf64_target"
  have ok: "frames_ok [0x8000, 0x3000]" by (simp add: frames_ok_def)
  have "fst (elf64_load_executable (Some elf64_example) ?t (\<lambda>_. 0)) = Some 0x300000"
    by (simp add: elf64_load_executable_eq elf64_example_layout elf64_example_length)
  with elf64_load_pages_equivalent [OF _ _ ok _ refl [of ?t] _ surjective_pairing surjective_pairing, of elf64_example "\<lambda>_. 0xCC" "\<lambda>_. 0"]
  show ?thesis by (simp add: elf64_example_length)
qed

end
