(* ===== verification/Scheduler.thy ===== *)
theory Scheduler
  imports Demon_Prelude
begin

text \<open>
  The task table and the dispatcher of \<open>src/src/scheduler.c\<close>. The kernel state is one extensible
  record: this theory holds the static variables of the scheduler, the processor state it switches
  (CR3, the ring-0 stack pointer of the TSS, the x87/SSE registers) and the saved interrupt frames,
  addressed as the code addresses them. The operations act on every extension of the record, so
  that the components built on the scheduler use them on their own larger states. The operations of
  \<open>scheduler.c\<close> that call back into other components (the timer tick, exit, wait, terminate and
  reap) are in the theory Process.
\<close>

section \<open>State\<close>

abbreviation (input) SCHEDULER_PROCESS_LIMIT :: nat where "SCHEDULER_PROCESS_LIMIT \<equiv> 8"
abbreviation (input) INIT_QUANTUM_TICKS :: u64 where "INIT_QUANTUM_TICKS \<equiv> 4"
abbreviation (input) SCHEDULER_WAIT_NONE :: u32 where "SCHEDULER_WAIT_NONE \<equiv> UINT32_MAX"
abbreviation (input) KERNEL_STACK_SIZE :: u64 where "KERNEL_STACK_SIZE \<equiv> 4096"

datatype scheduler_task_state =
  SCHEDULER_TASK_UNUSED | SCHEDULER_TASK_READY | SCHEDULER_TASK_RUNNING | SCHEDULER_TASK_BLOCKED | SCHEDULER_TASK_EXITED

record interrupt_frame =
  f_r15 :: u64  f_r14 :: u64  f_r13 :: u64  f_r12 :: u64  f_r11 :: u64
  f_r10 :: u64  f_r9 :: u64   f_r8 :: u64   f_rbp :: u64  f_rdi :: u64
  f_rsi :: u64  f_rdx :: u64  f_rcx :: u64  f_rbx :: u64  f_rax :: u64
  f_rip :: u64  f_cs :: u64   f_rflags :: u64  f_rsp :: u64  f_ss :: u64

definition interrupt_frame_zero :: interrupt_frame where
  "interrupt_frame_zero = \<lparr>f_r15 = 0, f_r14 = 0, f_r13 = 0, f_r12 = 0, f_r11 = 0, f_r10 = 0, f_r9 = 0, f_r8 = 0,
     f_rbp = 0, f_rdi = 0, f_rsi = 0, f_rdx = 0, f_rcx = 0, f_rbx = 0, f_rax = 0, f_rip = 0, f_cs = 0,
     f_rflags = 0, f_rsp = 0, f_ss = 0\<rparr>"

record task =
  t_pid :: u32
  t_parent_pid :: u32
  t_name :: cstring
  t_state :: scheduler_task_state
  t_cpu_ticks :: u64
  t_yields :: u64
  t_quantum_expirations :: u64
  t_exit_code :: u64
  t_slice_ticks :: u64
  t_saved_frame :: u64
  t_kernel_stack_top :: u64
  t_address_space :: u64
  t_waiting_for :: u32
  t_wake_tick :: u64
  t_timeout_result :: u64
  t_timed_wait :: bool

text \<open>The compound literal \<open>(struct task){.pid = pid}\<close>: every other field is zero.\<close>

definition task_zero :: "u32 \<Rightarrow> task" where
  "task_zero pid = \<lparr>t_pid = pid, t_parent_pid = 0, t_name = [], t_state = SCHEDULER_TASK_UNUSED, t_cpu_ticks = 0,
     t_yields = 0, t_quantum_expirations = 0, t_exit_code = 0, t_slice_ticks = 0, t_saved_frame = 0,
     t_kernel_stack_top = 0, t_address_space = 0, t_waiting_for = 0, t_wake_tick = 0, t_timeout_result = 0,
     t_timed_wait = False\<rparr>"

text \<open>
  \<open>sch_frames\<close> holds the interrupt frames by address and \<open>sch_kernel_stacks\<close> is the address of the
  array \<open>kernel_stacks\<close>. \<open>sch_cpu_fpu\<close> is the 512-byte image \<open>fxsave\<close> would store now.
\<close>

record sched_state =
  sch_tasks :: "task list"
  sch_current_pid :: u32
  sch_dispatch_count :: u64
  sch_initialized :: bool
  sch_users_running :: bool
  sch_ticks :: u64
  sch_fpu_state :: "u8 list list"
  sch_fpu_template :: "u8 list"
  sch_cpu_fpu :: "u8 list"
  sch_cr3 :: u64
  sch_tss_rsp0 :: u64
  sch_kernel_stacks :: u64
  sch_frames :: "u64 \<Rightarrow> interrupt_frame"

abbreviation task_of :: "'a sched_state_scheme \<Rightarrow> u32 \<Rightarrow> task" where
  "task_of s pid \<equiv> sch_tasks s ! unat pid"

definition set_task :: "u32 \<Rightarrow> (task \<Rightarrow> task) \<Rightarrow> 'a sched_state_scheme \<Rightarrow> 'a sched_state_scheme" where
  "set_task pid f s = s\<lparr>sch_tasks := (sch_tasks s)[unat pid := f (task_of s pid)]\<rparr>"

definition set_frame :: "u64 \<Rightarrow> (interrupt_frame \<Rightarrow> interrupt_frame) \<Rightarrow> 'a sched_state_scheme \<Rightarrow> 'a sched_state_scheme" where
  "set_frame a f s = s\<lparr>sch_frames := (sch_frames s)(a := f (sch_frames s a))\<rparr>"

section \<open>Operations\<close>

definition switch_fpu :: "u32 \<Rightarrow> u32 \<Rightarrow> 'a sched_state_scheme \<Rightarrow> 'a sched_state_scheme" where
  "switch_fpu from_pid to_pid s =
     (if from_pid = to_pid then s
      else let saved = (sch_fpu_state s)[unat from_pid := sch_cpu_fpu s] in
           s\<lparr>sch_fpu_state := saved, sch_cpu_fpu := saved ! unat to_pid\<rparr>)"

text \<open>\<open>char output[16]\<close> holds at most 15 characters and the terminating zero.\<close>

definition copy_name :: "cstring \<Rightarrow> cstring" where
  "copy_name name = take 15 name"

definition activate :: "u64 \<Rightarrow> 'a sched_state_scheme \<Rightarrow> 'a sched_state_scheme" where
  "activate root s = s\<lparr>sch_cr3 := root\<rparr>"

definition userspace_set_kernel_stack :: "u64 \<Rightarrow> 'a sched_state_scheme \<Rightarrow> 'a sched_state_scheme" where
  "userspace_set_kernel_stack stack_top s = s\<lparr>sch_tss_rsp0 := stack_top\<rparr>"

text \<open>\<open>sizeof(struct interrupt_frame)\<close> is 20 words of 8 bytes.\<close>

definition prepare_frame :: "u32 \<Rightarrow> u64 \<Rightarrow> u64 \<Rightarrow> 'a sched_state_scheme \<Rightarrow> u64 \<times> 'a sched_state_scheme" where
  "prepare_frame pid entry stack s =
     (let top = sch_kernel_stacks s + ucast (pid - 1) * KERNEL_STACK_SIZE + KERNEL_STACK_SIZE;
          frame = top - 160;
          s1 = set_frame frame (\<lambda>_. interrupt_frame_zero\<lparr>f_rdi := ucast pid, f_rip := entry, f_cs := 0x23,
                 f_rflags := 0x202, f_rsp := stack, f_ss := 0x1B\<rparr>) s in
      (frame, set_task pid (\<lambda>t. t\<lparr>t_kernel_stack_top := top\<rparr>) s1))"

definition dispatch :: "u32 \<Rightarrow> 'a sched_state_scheme \<Rightarrow> u64 \<times> 'a sched_state_scheme" where
  "dispatch pid s =
     (let s1 = switch_fpu (sch_current_pid s) pid s;
          s2 = set_task pid (\<lambda>t. t\<lparr>t_state := SCHEDULER_TASK_RUNNING, t_slice_ticks := 0\<rparr>) (s1\<lparr>sch_current_pid := pid\<rparr>);
          s3 = activate (t_address_space (task_of s2 pid)) (s2\<lparr>sch_dispatch_count := sch_dispatch_count s2 + 1\<rparr>);
          s4 = userspace_set_kernel_stack (t_kernel_stack_top (task_of s3 pid)) s3 in
      (t_saved_frame (task_of s4 pid), s4))"

definition ready_candidate :: "u32 \<Rightarrow> nat \<Rightarrow> u32" where
  "ready_candidate after n = 1 + ((after + of_nat n - 1) mod 7)"

definition next_ready :: "u32 \<Rightarrow> 'a sched_state_scheme \<Rightarrow> u32" where
  "next_ready after s =
     (case find (\<lambda>pid. t_state (task_of s pid) = SCHEDULER_TASK_READY)
             (map (ready_candidate after) [1..<SCHEDULER_PROCESS_LIMIT]) of
        None \<Rightarrow> 0 | Some pid \<Rightarrow> pid)"

definition return_idle :: "'a sched_state_scheme \<Rightarrow> u64 \<times> 'a sched_state_scheme" where
  "return_idle s =
     (let s1 = switch_fpu (sch_current_pid s) 0 s;
          s2 = set_task 0 (\<lambda>t. t\<lparr>t_state := SCHEDULER_TASK_RUNNING\<rparr>) (s1\<lparr>sch_users_running := False, sch_current_pid := 0\<rparr>);
          s3 = s2\<lparr>sch_dispatch_count := sch_dispatch_count s2 + 1\<rparr> in
      (0, activate (t_address_space (task_of s3 0)) s3))"

definition scheduler_init :: "u64 \<Rightarrow> 'a sched_state_scheme \<Rightarrow> 'a sched_state_scheme" where
  "scheduler_init kernel_space s =
     s\<lparr>sch_tasks := (map (\<lambda>i. (task_zero (of_nat i))\<lparr>t_waiting_for := SCHEDULER_WAIT_NONE\<rparr>) [0..<SCHEDULER_PROCESS_LIMIT])
         [0 := (task_zero 0)\<lparr>t_waiting_for := SCHEDULER_WAIT_NONE, t_name := copy_name ''idle'',
                 t_state := SCHEDULER_TASK_RUNNING, t_address_space := kernel_space\<rparr>],
       sch_fpu_template := sch_cpu_fpu s,
       sch_fpu_state := replicate SCHEDULER_PROCESS_LIMIT (sch_cpu_fpu s),
       sch_current_pid := 0, sch_dispatch_count := 1, sch_users_running := False, sch_ticks := 0,
       sch_initialized := True\<rparr>"

definition scheduler_create_user ::
  "u32 \<Rightarrow> cstring option \<Rightarrow> u64 \<Rightarrow> u64 \<Rightarrow> u64 \<Rightarrow> 'a sched_state_scheme \<Rightarrow> u32 \<times> 'a sched_state_scheme" where
  "scheduler_create_user parent name entry stack space s =
     (if \<not> sch_initialized s \<or> name = None \<or> entry = 0 \<or> stack = 0 \<or> space = 0 \<or>
         unat parent \<ge> SCHEDULER_PROCESS_LIMIT then (0, s)
      else case first_index (\<lambda>t. t_state t = SCHEDULER_TASK_UNUSED) (tl (sch_tasks s)) of
        None \<Rightarrow> (0, s)
      | Some i \<Rightarrow>
          (let pid = of_nat (Suc i);
               s1 = set_task pid (\<lambda>_. (task_zero pid)\<lparr>t_parent_pid := parent, t_state := SCHEDULER_TASK_READY,
                      t_waiting_for := SCHEDULER_WAIT_NONE, t_address_space := space, t_name := copy_name (the name)\<rparr>) s;
               (frame, s2) = prepare_frame pid entry stack s1;
               s3 = set_task pid (\<lambda>t. t\<lparr>t_saved_frame := frame\<rparr>) s2 in
           (pid, s3\<lparr>sch_fpu_state := (sch_fpu_state s3)[Suc i := sch_fpu_template s3]\<rparr>)))"

definition scheduler_start_users :: "'a sched_state_scheme \<Rightarrow> u64 \<times> 'a sched_state_scheme" where
  "scheduler_start_users s =
     (if \<not> sch_initialized s \<or> sch_users_running s then (0, s)
      else let first = next_ready 0 s in
        if first = 0 then (0, s)
        else dispatch first ((set_task 0 (\<lambda>t. t\<lparr>t_state := SCHEDULER_TASK_READY\<rparr>) s)\<lparr>sch_users_running := True\<rparr>))"

definition reschedule :: "u64 \<Rightarrow> 'a sched_state_scheme \<Rightarrow> u64 \<times> 'a sched_state_scheme" where
  "reschedule frame s =
     (let cur = sch_current_pid s;
          s1 = set_task cur (\<lambda>t. t\<lparr>t_saved_frame := frame,
                 t_state := (if t_state t = SCHEDULER_TASK_RUNNING then SCHEDULER_TASK_READY else t_state t)\<rparr>) s;
          nxt = next_ready cur s1 in
      if nxt = 0
      then if t_state (task_of s1 cur) = SCHEDULER_TASK_READY
           then (frame, set_task cur (\<lambda>t. t\<lparr>t_state := SCHEDULER_TASK_RUNNING\<rparr>) s1)
           else return_idle s1
      else dispatch nxt s1)"

definition scheduler_on_yield :: "u64 \<Rightarrow> 'a sched_state_scheme \<Rightarrow> u64 \<times> 'a sched_state_scheme" where
  "scheduler_on_yield frame s =
     (if \<not> sch_initialized s \<or> \<not> sch_users_running s \<or> sch_current_pid s = 0 then (frame, s)
      else reschedule frame (set_task (sch_current_pid s) (\<lambda>t. t\<lparr>t_yields := t_yields t + 1\<rparr>) s))"

definition scheduler_block_current :: "u64 \<Rightarrow> 'a sched_state_scheme \<Rightarrow> u64 \<times> 'a sched_state_scheme" where
  "scheduler_block_current frame s =
     (if \<not> sch_initialized s \<or> \<not> sch_users_running s \<or> sch_current_pid s = 0 then (frame, s)
      else reschedule frame (set_task (sch_current_pid s) (\<lambda>t. t\<lparr>t_saved_frame := frame,
             t_state := SCHEDULER_TASK_BLOCKED, t_waiting_for := SCHEDULER_WAIT_NONE\<rparr>) s))"

definition scheduler_block_current_timeout ::
  "u64 \<Rightarrow> u64 \<Rightarrow> u64 \<Rightarrow> 'a sched_state_scheme \<Rightarrow> u64 \<times> 'a sched_state_scheme" where
  "scheduler_block_current_timeout frame delay result s =
     (if \<not> sch_initialized s \<or> \<not> sch_users_running s \<or> sch_current_pid s = 0 \<or> delay = 0
      then scheduler_block_current frame s
      else reschedule frame (set_task (sch_current_pid s) (\<lambda>t. t\<lparr>t_saved_frame := frame,
             t_state := SCHEDULER_TASK_BLOCKED, t_wake_tick := sch_ticks s + delay, t_timeout_result := result,
             t_timed_wait := True, t_waiting_for := SCHEDULER_WAIT_NONE\<rparr>) s))"

definition scheduler_wake :: "u32 \<Rightarrow> u64 \<Rightarrow> u64 \<Rightarrow> 'a sched_state_scheme \<Rightarrow> bool \<times> 'a sched_state_scheme" where
  "scheduler_wake pid result detail s =
     (if pid = 0 \<or> unat pid \<ge> SCHEDULER_PROCESS_LIMIT \<or> t_state (task_of s pid) \<noteq> SCHEDULER_TASK_BLOCKED then (False, s)
      else (True, set_task pid (\<lambda>t. t\<lparr>t_timed_wait := False, t_waiting_for := SCHEDULER_WAIT_NONE,
                    t_state := SCHEDULER_TASK_READY\<rparr>)
             (set_frame (t_saved_frame (task_of s pid)) (\<lambda>f. f\<lparr>f_rax := result, f_rdx := detail\<rparr>) s)))"

definition scheduler_has_live_users :: "'a sched_state_scheme \<Rightarrow> bool" where
  "scheduler_has_live_users s = list_ex (\<lambda>t. t_state t = SCHEDULER_TASK_READY \<or> t_state t = SCHEDULER_TASK_RUNNING \<or>
     t_state t = SCHEDULER_TASK_BLOCKED) (tl (sch_tasks s))"

definition scheduler_has_ready_users :: "'a sched_state_scheme \<Rightarrow> bool" where
  "scheduler_has_ready_users s = list_ex (\<lambda>t. t_state t = SCHEDULER_TASK_READY) (tl (sch_tasks s))"

definition scheduler_task_count :: "'a sched_state_scheme \<Rightarrow> nat" where
  "scheduler_task_count s = (if sch_initialized s then SCHEDULER_PROCESS_LIMIT else 0)"

record scheduler_task_snapshot =
  snap_pid :: u32
  snap_parent_pid :: u32
  snap_name :: cstring
  snap_state :: scheduler_task_state
  snap_cpu_ticks :: u64
  snap_yields :: u64
  snap_quantum_expirations :: u64
  snap_exit_code :: u64
  snap_address_space :: u64

definition scheduler_snapshot :: "nat \<Rightarrow> 'a sched_state_scheme \<Rightarrow> scheduler_task_snapshot option" where
  "scheduler_snapshot i s =
     (if \<not> sch_initialized s \<or> i \<ge> SCHEDULER_PROCESS_LIMIT then None
      else let t = sch_tasks s ! i in
        Some \<lparr>snap_pid = t_pid t, snap_parent_pid = t_parent_pid t, snap_name = t_name t, snap_state = t_state t,
              snap_cpu_ticks = t_cpu_ticks t, snap_yields = t_yields t,
              snap_quantum_expirations = t_quantum_expirations t, snap_exit_code = t_exit_code t,
              snap_address_space = t_address_space t\<rparr>)"

definition scheduler_state_name :: "scheduler_task_state \<Rightarrow> string" where
  "scheduler_state_name st =
     (if st = SCHEDULER_TASK_READY then ''ready''
      else if st = SCHEDULER_TASK_RUNNING then ''running''
      else if st = SCHEDULER_TASK_BLOCKED then ''blocked''
      else if st = SCHEDULER_TASK_EXITED then ''exited''
      else ''unused'')"

section \<open>Access lemmas\<close>

lemma set_task_simps [simp]:
  "sch_current_pid (set_task p f s) = sch_current_pid s" "sch_users_running (set_task p f s) = sch_users_running s"
  "sch_initialized (set_task p f s) = sch_initialized s" "sch_fpu_state (set_task p f s) = sch_fpu_state s"
  "sch_cpu_fpu (set_task p f s) = sch_cpu_fpu s" "sch_fpu_template (set_task p f s) = sch_fpu_template s"
  "sch_frames (set_task p f s) = sch_frames s" "sch_ticks (set_task p f s) = sch_ticks s"
  "length (sch_tasks (set_task p f s)) = length (sch_tasks s)"
  "sch_tasks (set_task p f s) = (sch_tasks s)[unat p := f (task_of s p)]"
  "sched_state.more (set_task p f s) = sched_state.more s"
  by (simp_all add: set_task_def)

lemma set_frame_simps [simp]:
  "sch_current_pid (set_frame a g s) = sch_current_pid s" "sch_users_running (set_frame a g s) = sch_users_running s"
  "sch_initialized (set_frame a g s) = sch_initialized s" "sch_fpu_state (set_frame a g s) = sch_fpu_state s"
  "sch_cpu_fpu (set_frame a g s) = sch_cpu_fpu s" "sch_fpu_template (set_frame a g s) = sch_fpu_template s"
  "sch_tasks (set_frame a g s) = sch_tasks s" "sch_ticks (set_frame a g s) = sch_ticks s"
  "sch_frames (set_frame a g s) = (sch_frames s)(a := g (sch_frames s a))"
  "sched_state.more (set_frame a g s) = sched_state.more s"
  by (simp_all add: set_frame_def)

lemma switch_fpu_simps [simp]:
  "sch_tasks (switch_fpu a b s) = sch_tasks s" "sch_current_pid (switch_fpu a b s) = sch_current_pid s"
  "sch_users_running (switch_fpu a b s) = sch_users_running s" "sch_initialized (switch_fpu a b s) = sch_initialized s"
  "sch_frames (switch_fpu a b s) = sch_frames s" "length (sch_fpu_state (switch_fpu a b s)) = length (sch_fpu_state s)"
  "sch_fpu_template (switch_fpu a b s) = sch_fpu_template s" "sch_ticks (switch_fpu a b s) = sch_ticks s"
  "sched_state.more (switch_fpu a b s) = sched_state.more s" "sch_dispatch_count (switch_fpu a b s) = sch_dispatch_count s"
  by (simp_all add: switch_fpu_def Let_def)

section \<open>The round-robin scan\<close>

text \<open>The number of the probe at which the scan of \<open>next_ready\<close> starting after \<open>a\<close> looks at \<open>p\<close>.\<close>

definition cyc_dist :: "nat \<Rightarrow> nat \<Rightarrow> nat" where
  "cyc_dist a p = (p + 13 - a) mod 7 + 1"

lemma unat_ready_candidate:
  assumes "unat after < 8" "1 \<le> n" "n < 8"
  shows "unat (ready_candidate after n) = 1 + (unat after + n - 1) mod 7"
proof -
  have n: "unat (of_nat n :: u32) = n" using assms by (simp add: unat_of_nat_u32)
  have "unat (after + of_nat n) = unat after + n"
    using assms n by (simp add: unat_add_small)
  moreover from this assms have "after + of_nat n \<noteq> 0" by (metis add_is_0 not_one_le_zero unat_0)
  ultimately have "unat (after + of_nat n - 1) = unat after + n - 1" by (simp add: unat_dec_u32)
  then have "unat ((after + of_nat n - 1) mod 7) = (unat after + n - 1) mod 7" by (simp add: unat_mod)
  then show ?thesis
    unfolding ready_candidate_def by (subst unat_add_small) (simp_all add: less_trans [OF mod_less_divisor])
qed

lemma small_cases: "(x :: nat) < 8 \<longleftrightarrow> x = 0 \<or> x = 1 \<or> x = 2 \<or> x = 3 \<or> x = 4 \<or> x = 5 \<or> x = 6 \<or> x = 7"
  by linarith

lemma cyc_dist_range: "1 \<le> cyc_dist a p" "cyc_dist a p < 8"
  by (simp_all add: cyc_dist_def) 

lemma cyc_dist_probe:
  assumes "a < 8" "1 \<le> p" "p < 8"
  shows "1 + (a + cyc_dist a p - 1) mod 7 = p"
  using assms unfolding small_cases cyc_dist_def by (elim disjE) simp_all

lemma probe_cyc_dist:
  assumes "a < 8" "1 \<le> n" "n < 8"
  shows "cyc_dist a (1 + (a + n - 1) mod 7) = n"
  using assms unfolding small_cases cyc_dist_def by (elim disjE) simp_all

lemma cyc_dist_closer:
  assumes "a < 8" "1 \<le> p" "p < 8" "1 \<le> q" "q < 8" "cyc_dist a p < cyc_dist a q"
  shows "cyc_dist p q = cyc_dist a q - cyc_dist a p"
  using assms unfolding small_cases cyc_dist_def by (elim disjE) simp_all

lemma find_map_SomeD:
  "find P (map f xs) = Some y \<Longrightarrow>
   \<exists>i < length xs. y = f (xs ! i) \<and> P y \<and> (\<forall>j < i. \<not> P (f (xs ! j)))"
  by (auto simp: find_Some_iff)

lemma next_ready_Some:
  assumes "unat after < 8" "next_ready after s \<noteq> 0"
  shows "t_state (task_of s (next_ready after s)) = SCHEDULER_TASK_READY" "unat (next_ready after s) < 8"
    and "\<And>q. q \<noteq> 0 \<Longrightarrow> unat q < 8 \<Longrightarrow> t_state (task_of s q) = SCHEDULER_TASK_READY \<Longrightarrow>
       cyc_dist (unat after) (unat (next_ready after s)) \<le> cyc_dist (unat after) (unat q)"
proof -
  let ?P = "\<lambda>pid. t_state (task_of s pid) = SCHEDULER_TASK_READY"
  let ?p = "next_ready after s"
  obtain i where i: "i < 7" "?p = ready_candidate after (Suc i)" "?P ?p"
    and first: "\<And>j. j < i \<Longrightarrow> \<not> ?P (ready_candidate after (Suc j))"
    using assms(2) find_map_SomeD [of ?P "ready_candidate after" "[1..<8]"]
    by (auto simp: next_ready_def split: option.splits)
  have u: "unat (ready_candidate after (Suc j)) = 1 + (unat after + Suc j - 1) mod 7" if "j < 7" for j
    using unat_ready_candidate [OF assms(1), of "Suc j"] that by simp
  show "?P ?p" by (rule i(3))
  show "unat ?p < 8" using u [OF i(1)] i(2) by (simp add: less_trans [OF mod_less_divisor] Suc_lessI)
  fix q :: u32
  assume q: "q \<noteq> 0" "unat q < 8" "?P q"
  have q1: "1 \<le> unat q" using q(1) by (simp add: Suc_le_eq unat_gt_0)
  define n where "n = cyc_dist (unat after) (unat q)"
  have n: "1 \<le> n" "n < 8" "unat (ready_candidate after n) = unat q"
    using cyc_dist_range cyc_dist_probe [OF assms(1) q1 q(2)]
    by (simp_all add: n_def unat_ready_candidate [OF assms(1)])
  then have "ready_candidate after n = q" by (simp add: word_unat_eq_iff)
  with q(3) first [of "n - 1"] n(1) have "i \<le> n - 1" by (metis One_nat_def Suc_pred' not_le Suc_le_lessD)
  moreover have "cyc_dist (unat after) (unat ?p) = Suc i"
    using probe_cyc_dist [OF assms(1), of "Suc i"] u [OF i(1)] i(1,2) by simp
  ultimately show "cyc_dist (unat after) (unat ?p) \<le> cyc_dist (unat after) (unat q)"
    using n(1) by (simp add: n_def)
qed

lemma next_ready_0:
  assumes "unat after < 8" "next_ready after s = 0" "q \<noteq> 0" "unat q < 8"
  shows "t_state (task_of s q) \<noteq> SCHEDULER_TASK_READY"
proof -
  let ?n = "cyc_dist (unat after) (unat q)"
  have q1: "1 \<le> unat q" using assms(3) by (simp add: Suc_le_eq unat_gt_0)
  have u: "unat (ready_candidate after n) \<noteq> 0" if "1 \<le> n" "n < 8" for n
    using unat_ready_candidate [OF assms(1) that] by simp
  have "unat (ready_candidate after ?n) = unat q"
    using cyc_dist_range cyc_dist_probe [OF assms(1) q1 assms(4)] by (simp add: unat_ready_candidate [OF assms(1)])
  then have e: "ready_candidate after ?n = q" by (simp add: word_unat_eq_iff)
  have "find (\<lambda>pid. t_state (task_of s pid) = SCHEDULER_TASK_READY) (map (ready_candidate after) [1..<8]) = None"
  proof (rule ccontr)
    assume "\<not> ?thesis"
    then obtain p where p: "find (\<lambda>pid. t_state (task_of s pid) = SCHEDULER_TASK_READY) (map (ready_candidate after) [1..<8]) = Some p"
      by auto
    then obtain i where "i < 7" "p = ready_candidate after (Suc i)"
      using find_map_SomeD [OF p] by auto
    with u [of "Suc i"] p assms(2) show False by (auto simp: next_ready_def)
  qed
  moreover have "?n \<in> set [1..<8]" using cyc_dist_range [of "unat after" "unat q"] by simp
  ultimately have "t_state (task_of s (ready_candidate after ?n)) \<noteq> SCHEDULER_TASK_READY"
    by (simp add: find_None_iff)
  then show ?thesis by (simp only: e not_False_eq_True)
qed

section \<open>One running task\<close>

definition sched_shape :: "'a sched_state_scheme \<Rightarrow> bool" where
  "sched_shape s \<longleftrightarrow> length (sch_tasks s) = SCHEDULER_PROCESS_LIMIT \<and>
     length (sch_fpu_state s) = SCHEDULER_PROCESS_LIMIT \<and> sch_initialized s \<and>
     unat (sch_current_pid s) < SCHEDULER_PROCESS_LIMIT \<and>
     (\<forall>i < SCHEDULER_PROCESS_LIMIT. t_pid (sch_tasks s ! i) = of_nat i)"

definition sched_inv :: "'a sched_state_scheme \<Rightarrow> bool" where
  "sched_inv s \<longleftrightarrow> sched_shape s \<and>
     (\<forall>i < SCHEDULER_PROCESS_LIMIT. t_state (sch_tasks s ! i) = SCHEDULER_TASK_RUNNING \<longleftrightarrow> i = unat (sch_current_pid s)) \<and>
     sch_users_running s = (sch_current_pid s \<noteq> 0) \<and>
     (sch_current_pid s \<noteq> 0 \<longrightarrow> t_state (sch_tasks s ! 0) = SCHEDULER_TASK_READY)"

text \<open>Inside a switch: the task that was running may already be in another state.\<close>

definition sched_switching :: "'a sched_state_scheme \<Rightarrow> bool" where
  "sched_switching s \<longleftrightarrow> sched_shape s \<and> sch_users_running s \<and>
     (\<forall>i < SCHEDULER_PROCESS_LIMIT. t_state (sch_tasks s ! i) = SCHEDULER_TASK_RUNNING \<longrightarrow> i = unat (sch_current_pid s)) \<and>
     t_state (sch_tasks s ! 0) = SCHEDULER_TASK_READY"

lemma sched_shape_set_task:
  "sched_shape s \<Longrightarrow> (\<And>t. t_pid (f t) = t_pid t) \<Longrightarrow> sched_shape (set_task p f s)"
  by (auto simp: sched_shape_def nth_update)

lemma dispatch_simps [simp]:
  "sch_current_pid (snd (dispatch p s)) = p" "sch_users_running (snd (dispatch p s)) = sch_users_running s"
  "sch_initialized (snd (dispatch p s)) = sch_initialized s"
  "sch_frames (snd (dispatch p s)) = sch_frames s" "sch_ticks (snd (dispatch p s)) = sch_ticks s"
  "sch_tasks (snd (dispatch p s)) = (sch_tasks s)[unat p := (task_of s p)\<lparr>t_state := SCHEDULER_TASK_RUNNING, t_slice_ticks := 0\<rparr>]"
  "length (sch_fpu_state (snd (dispatch p s))) = length (sch_fpu_state s)"
  "sch_fpu_template (snd (dispatch p s)) = sch_fpu_template s"
  "sched_state.more (snd (dispatch p s)) = sched_state.more s"
  by (simp_all add: dispatch_def Let_def activate_def userspace_set_kernel_stack_def)

lemma return_idle_simps [simp]:
  "sch_current_pid (snd (return_idle s)) = 0" "\<not> sch_users_running (snd (return_idle s))"
  "sch_initialized (snd (return_idle s)) = sch_initialized s"
  "sch_frames (snd (return_idle s)) = sch_frames s" "sch_ticks (snd (return_idle s)) = sch_ticks s"
  "sch_tasks (snd (return_idle s)) = (sch_tasks s)[0 := (sch_tasks s ! 0)\<lparr>t_state := SCHEDULER_TASK_RUNNING\<rparr>]"
  "length (sch_fpu_state (snd (return_idle s))) = length (sch_fpu_state s)"
  "sch_fpu_template (snd (return_idle s)) = sch_fpu_template s"
  "sched_state.more (snd (return_idle s)) = sched_state.more s"
  by (simp_all add: return_idle_def Let_def activate_def)

lemma dispatch_inv:
  assumes "sched_shape s" "sch_users_running s" "p \<noteq> 0" "unat p < 8" "t_state (sch_tasks s ! 0) = SCHEDULER_TASK_READY"
    and "\<And>i. i < 8 \<Longrightarrow> t_state (sch_tasks s ! i) \<noteq> SCHEDULER_TASK_RUNNING"
  shows "sched_inv (snd (dispatch p s))"
proof -
  have "0 < unat p" using assms(3) by (simp add: unat_gt_0)
  with assms show ?thesis by (auto simp: sched_inv_def sched_shape_def nth_list_update)
qed

lemma return_idle_inv:
  assumes "sched_shape s" "\<And>i. i < 8 \<Longrightarrow> t_state (sch_tasks s ! i) \<noteq> SCHEDULER_TASK_RUNNING"
  shows "sched_inv (snd (return_idle s))"
  using assms by (auto simp: sched_inv_def sched_shape_def nth_list_update)

text \<open>The current task is always probed last, so a preempted task finds at least itself.\<close>

lemma reschedule_eq:
  assumes "sched_switching s" "sch_current_pid s \<noteq> 0"
  shows "reschedule frame s =
    (let s1 = set_task (sch_current_pid s) (\<lambda>t. t\<lparr>t_saved_frame := frame,
                t_state := (if t_state t = SCHEDULER_TASK_RUNNING then SCHEDULER_TASK_READY else t_state t)\<rparr>) s in
     if next_ready (sch_current_pid s) s1 = 0 then return_idle s1
     else dispatch (next_ready (sch_current_pid s) s1) s1)"
proof -
  let ?c = "sch_current_pid s"
  let ?s1 = "set_task ?c (\<lambda>t. t\<lparr>t_saved_frame := frame,
                t_state := (if t_state t = SCHEDULER_TASK_RUNNING then SCHEDULER_TASK_READY else t_state t)\<rparr>) s"
  have "unat ?c < 8" using assms by (simp add: sched_switching_def sched_shape_def)
  then have "next_ready ?c ?s1 = 0 \<Longrightarrow> t_state (task_of ?s1 ?c) \<noteq> SCHEDULER_TASK_READY"
    by (rule next_ready_0) (use assms(2) \<open>unat ?c < 8\<close> in auto)
  then show ?thesis by (simp add: reschedule_def Let_def)
qed

lemma reschedule_inv:
  assumes "sched_switching s" "sch_current_pid s \<noteq> 0"
  shows "sched_inv (snd (reschedule frame s))"
proof -
  let ?c = "sch_current_pid s"
  let ?s1 = "set_task ?c (\<lambda>t. t\<lparr>t_saved_frame := frame,
                t_state := (if t_state t = SCHEDULER_TASK_RUNNING then SCHEDULER_TASK_READY else t_state t)\<rparr>) s"
  have sh: "sched_shape ?s1" and c: "unat ?c < 8" and l: "length (sch_tasks s) = 8"
    using assms by (auto simp: sched_switching_def sched_shape_def nth_update)
  have nr: "t_state (sch_tasks ?s1 ! i) \<noteq> SCHEDULER_TASK_RUNNING" if "i < 8" for i
    using assms that l by (auto simp: sched_switching_def nth_update)
  have z: "t_state (sch_tasks ?s1 ! 0) = SCHEDULER_TASK_READY" "sch_users_running ?s1"
    using assms l by (auto simp: sched_switching_def nth_update)
  show ?thesis
  proof (cases "next_ready ?c ?s1 = 0")
    case True
    then show ?thesis
      unfolding reschedule_eq [OF assms] Let_def using return_idle_inv [OF sh nr] by simp
  next
    case False
    then show ?thesis
      unfolding reschedule_eq [OF assms] Let_def
      using dispatch_inv [OF sh z(2) False next_ready_Some(2) [OF c False] z(1) nr] by simp
  qed
qed

lemma sched_inv_switching:
  assumes "sched_inv s" "sch_users_running s" "\<And>t. t_pid (f t) = t_pid t"
  shows "sched_switching (set_task (sch_current_pid s) f s) \<and> sch_current_pid s \<noteq> 0"
proof -
  have "0 < unat (sch_current_pid s)" using assms by (auto simp: sched_inv_def unat_gt_0)
  with assms show ?thesis
    by (auto simp: sched_inv_def sched_switching_def sched_shape_def nth_update)
qed

lemma scheduler_on_yield_inv: "sched_inv s \<Longrightarrow> sched_inv (snd (scheduler_on_yield frame s))"
  using sched_inv_switching [of s "\<lambda>t. t\<lparr>t_yields := t_yields t + 1\<rparr>"]
  by (auto simp: scheduler_on_yield_def intro: reschedule_inv)

lemma scheduler_block_current_inv: "sched_inv s \<Longrightarrow> sched_inv (snd (scheduler_block_current frame s))"
  using sched_inv_switching [of s "\<lambda>t. t\<lparr>t_saved_frame := frame,
             t_state := SCHEDULER_TASK_BLOCKED, t_waiting_for := SCHEDULER_WAIT_NONE\<rparr>"]
  by (auto simp: scheduler_block_current_def intro: reschedule_inv)

lemma scheduler_block_current_timeout_inv:
  "sched_inv s \<Longrightarrow> sched_inv (snd (scheduler_block_current_timeout frame delay result s))"
  using sched_inv_switching [of s "\<lambda>t. t\<lparr>t_saved_frame := frame,
             t_state := SCHEDULER_TASK_BLOCKED, t_wake_tick := sch_ticks s + delay, t_timeout_result := result,
             t_timed_wait := True, t_waiting_for := SCHEDULER_WAIT_NONE\<rparr>"] scheduler_block_current_inv [of s]
  by (auto simp: scheduler_block_current_timeout_def intro: reschedule_inv)

text \<open>Changing a task that is not running into another state that is not running.\<close>

lemma sched_inv_set_task:
  assumes "sched_inv s" "p \<noteq> 0" "t_state (task_of s p) \<noteq> SCHEDULER_TASK_RUNNING"
    and "t_state (f (task_of s p)) \<noteq> SCHEDULER_TASK_RUNNING" "t_pid (f (task_of s p)) = p"
  shows "sched_inv (set_task p f s)"
proof -
  have "0 < unat p" using assms(2) by (simp add: unat_gt_0)
  with assms show ?thesis
    by (auto simp: sched_inv_def sched_shape_def nth_update)
qed

lemma sched_inv_set_frame [simp]: "sched_inv (set_frame a g s) = sched_inv s"
  by (simp add: sched_inv_def sched_shape_def)

lemma sched_inv_pid: "sched_inv s \<Longrightarrow> unat p < 8 \<Longrightarrow> t_pid (task_of s p) = p"
  by (simp add: sched_inv_def sched_shape_def)

lemma scheduler_wake_inv: "sched_inv s \<Longrightarrow> sched_inv (snd (scheduler_wake p r d s))"
  by (auto simp: scheduler_wake_def sched_inv_pid not_le intro!: sched_inv_set_task)

lemma scheduler_start_users_inv:
  assumes "sched_inv s" shows "sched_inv (snd (scheduler_start_users s))"
proof (cases "sch_users_running s \<or> next_ready 0 s = 0")
  case False
  let ?s = "(set_task 0 (\<lambda>t. t\<lparr>t_state := SCHEDULER_TASK_READY\<rparr>) s)\<lparr>sch_users_running := True\<rparr>"
  have "sched_shape ?s" "t_state (sch_tasks ?s ! 0) = SCHEDULER_TASK_READY"
    "\<And>i. i < 8 \<Longrightarrow> t_state (sch_tasks ?s ! i) \<noteq> SCHEDULER_TASK_RUNNING"
    using assms False by (auto simp: sched_inv_def sched_shape_def nth_update)
  then have "sched_inv (snd (dispatch (next_ready 0 s) ?s))"
    using dispatch_inv [of ?s "next_ready 0 s"] next_ready_Some(2) [of 0 s] False by simp
  with False assms show ?thesis by (simp add: scheduler_start_users_def Let_def)
qed (use assms in \<open>auto simp: scheduler_start_users_def Let_def\<close>)

lemma first_index_tl:
  assumes "first_index P (tl xs) = Some i"
  shows "Suc i < length xs \<and> P (xs ! Suc i)"
  using first_index_SomeD [OF assms] by (cases xs) auto

lemma scheduler_create_user_cases:
  assumes "sched_inv s" "scheduler_create_user parent name entry stack space s = (pid, s')"
  obtains (failed) "pid = 0" "s' = s"
  | (created) "pid \<noteq> 0" "unat pid < 8" "t_state (task_of s pid) = SCHEDULER_TASK_UNUSED" "name \<noteq> None"
      "\<And>i. i < 8 \<Longrightarrow> i \<noteq> unat pid \<Longrightarrow> sch_tasks s' ! i = sch_tasks s ! i"
      "t_pid (task_of s' pid) = pid" "t_parent_pid (task_of s' pid) = parent" "t_state (task_of s' pid) = SCHEDULER_TASK_READY"
      "t_address_space (task_of s' pid) = space"
      "sch_frames s' (t_saved_frame (task_of s' pid)) = interrupt_frame_zero\<lparr>f_rdi := ucast pid, f_rip := entry, f_cs := 0x23,
                 f_rflags := 0x202, f_rsp := stack, f_ss := 0x1B\<rparr>"
      "sch_fpu_state s' = (sch_fpu_state s)[unat pid := sch_fpu_template s]"
      "length (sch_tasks s') = 8" "sch_current_pid s' = sch_current_pid s" "sch_users_running s' = sch_users_running s"
      "sch_initialized s'" "sch_cpu_fpu s' = sch_cpu_fpu s" "sch_fpu_template s' = sch_fpu_template s"
proof (cases "first_index (\<lambda>t. t_state t = SCHEDULER_TASK_UNUSED) (tl (sch_tasks s))")
  case None
  with assms failed show ?thesis by (simp add: scheduler_create_user_def split: if_splits)
next
  case (Some i)
  have l: "length (sch_tasks s) = 8" using assms(1) by (simp add: sched_inv_def sched_shape_def)
  have i: "Suc i < 8" "t_state (sch_tasks s ! Suc i) = SCHEDULER_TASK_UNUSED"
    using first_index_tl [OF Some] l by auto
  have u: "unat (of_nat (Suc i) :: u32) = Suc i" using i(1) unat_of_nat_u32 [of "Suc i"] by simp
  show ?thesis
  proof (cases "pid = 0")
    case True
    with assms(2) Some u have "s' = s"
      by (auto simp: scheduler_create_user_def prepare_frame_def Let_def split: if_splits)
    with True failed show ?thesis by simp
  next
    case False
    then have p: "pid = of_nat (Suc i)" "name \<noteq> None" "sch_initialized s"
      using assms(2) Some by (auto simp: scheduler_create_user_def prepare_frame_def Let_def split: if_splits)
    show ?thesis
      by (rule created)
        (use assms(2) Some False i u l in \<open>auto simp: scheduler_create_user_def prepare_frame_def
           Let_def nth_update task_zero_def p(1) simp del: of_nat_Suc split: if_splits\<close>)
  qed
qed

lemma scheduler_create_user_inv:
  assumes "sched_inv s" "scheduler_create_user parent name entry stack space s = (pid, s')"
  shows "sched_inv s'"
  using assms
proof (cases rule: scheduler_create_user_cases)
  case created
  have z: "0 < unat pid" using created(1) by (simp add: unat_gt_0)
  have t: "t_state (sch_tasks s' ! i) = SCHEDULER_TASK_RUNNING \<longleftrightarrow> t_state (sch_tasks s ! i) = SCHEDULER_TASK_RUNNING"
    "t_pid (sch_tasks s' ! i) = t_pid (sch_tasks s ! i)" if "i < 8" for i
    using created(2,3,5,6,8) that assms(1) by (cases "i = unat pid"; simp add: sched_inv_pid)+
  show ?thesis
    using assms(1) created z t unfolding sched_inv_def sched_shape_def by simp
qed (use assms in simp)

lemma scheduler_init_inv: "sched_inv (scheduler_init kernel_space s)"
  unfolding sched_inv_def sched_shape_def scheduler_init_def
  by (auto simp: nth_update task_zero_def simp del: upt_Suc split: if_splits)

section \<open>Floating-point state\<close>

text \<open>The FPU registers a task sees when it runs: the processor's for the current task, its save area otherwise.\<close>

definition fpu_of :: "'a sched_state_scheme \<Rightarrow> u32 \<Rightarrow> u8 list" where
  "fpu_of s pid = (if pid = sch_current_pid s then sch_cpu_fpu s else sch_fpu_state s ! unat pid)"

lemma fpu_of_set [simp]:
  "fpu_of (set_task p f s) = fpu_of s" "fpu_of (set_frame a g s) = fpu_of s"
  by (auto simp: fpu_of_def fun_eq_iff)

lemma fpu_of_cong:
  "sch_cpu_fpu s' = sch_cpu_fpu s \<Longrightarrow> sch_fpu_state s' = sch_fpu_state s \<Longrightarrow>
   sch_current_pid s' = sch_current_pid s \<Longrightarrow> fpu_of s' q = fpu_of s q"
  by (simp add: fpu_of_def)

lemma dispatch_fpu:
  assumes "length (sch_fpu_state s) = 8" "unat (sch_current_pid s) < 8" "unat p < 8" "unat q < 8"
  shows "fpu_of (snd (dispatch p s)) q = fpu_of s q"
  using assms unfolding fpu_of_def dispatch_def switch_fpu_def Let_def activate_def userspace_set_kernel_stack_def set_task_def
  by (auto simp: nth_update word_unat_eq_iff)

lemma return_idle_fpu:
  assumes "length (sch_fpu_state s) = 8" "unat (sch_current_pid s) < 8" "unat q < 8"
  shows "fpu_of (snd (return_idle s)) q = fpu_of s q"
  using assms unfolding fpu_of_def return_idle_def switch_fpu_def Let_def activate_def set_task_def
  by (auto simp: nth_update word_unat_eq_iff)

lemma reschedule_fpu:
  assumes "sched_switching s" "sch_current_pid s \<noteq> 0" "unat q < 8"
  shows "fpu_of (snd (reschedule frame s)) q = fpu_of s q"
proof -
  let ?c = "sch_current_pid s"
  let ?s1 = "set_task ?c (\<lambda>t. t\<lparr>t_saved_frame := frame,
                t_state := (if t_state t = SCHEDULER_TASK_RUNNING then SCHEDULER_TASK_READY else t_state t)\<rparr>) s"
  have l: "length (sch_fpu_state ?s1) = 8" "unat (sch_current_pid ?s1) < 8"
    using assms by (auto simp: sched_switching_def sched_shape_def)
  show ?thesis
  proof (cases "next_ready ?c ?s1 = 0")
    case True
    then show ?thesis
      unfolding reschedule_eq [OF assms(1,2)] Let_def using return_idle_fpu [OF l assms(3)] by simp
  next
    case False
    then show ?thesis
      unfolding reschedule_eq [OF assms(1,2)] Let_def
      using dispatch_fpu [OF l next_ready_Some(2) assms(3)] l(2) by simp
  qed
qed

section \<open>Progress\<close>

lemma reschedule_progress:
  fixes frame :: u64
  assumes sw: "sched_switching s" "sch_current_pid s \<noteq> 0"
    and q: "q \<noteq> 0" "unat q < 8" "t_state (task_of s q) = SCHEDULER_TASK_READY" "q \<noteq> sch_current_pid s"
  defines "s' \<equiv> snd (reschedule frame s)"
  shows "sch_current_pid s' = q \<or>
    sch_current_pid s' \<noteq> 0 \<and> t_state (task_of s' q) = SCHEDULER_TASK_READY \<and>
    cyc_dist (unat (sch_current_pid s')) (unat q) < cyc_dist (unat (sch_current_pid s)) (unat q)"
proof -
  let ?c = "sch_current_pid s"
  let ?s1 = "set_task ?c (\<lambda>t. t\<lparr>t_saved_frame := frame,
                t_state := (if t_state t = SCHEDULER_TASK_RUNNING then SCHEDULER_TASK_READY else t_state t)\<rparr>) s"
  let ?n = "next_ready ?c ?s1"
  have c: "unat ?c < 8" and l: "length (sch_tasks s) = 8"
    using sw by (auto simp: sched_switching_def sched_shape_def)
  have qr: "t_state (task_of ?s1 q) = SCHEDULER_TASK_READY"
    using q l by (simp add: nth_update word_unat_eq_iff)
  then have n: "?n \<noteq> 0" using next_ready_0 [OF c _ q(1,2), of ?s1] by blast
  note nx = next_ready_Some [OF c n]
  have s': "s' = snd (dispatch ?n ?s1)"
    using reschedule_eq [OF sw, of frame] n by (simp add: s'_def Let_def)
  show ?thesis
  proof (cases "?n = q")
    case True
    then show ?thesis by (simp add: s')
  next
    case False
    have n1: "1 \<le> unat ?n" and q1: "1 \<le> unat q" using n q(1) by (simp_all add: Suc_le_eq unat_gt_0)
    have "unat ?n \<noteq> unat q" using False by (simp add: word_unat_eq_iff)
    then have ne: "cyc_dist (unat ?c) (unat ?n) \<noteq> cyc_dist (unat ?c) (unat q)"
      using cyc_dist_probe [OF c n1 nx(2)] cyc_dist_probe [OF c q1 q(2)] by auto
    have lt: "cyc_dist (unat ?c) (unat ?n) < cyc_dist (unat ?c) (unat q)"
      using nx(3) [OF q(1,2) qr] ne by simp
    have "cyc_dist (unat ?n) (unat q) < cyc_dist (unat ?c) (unat q)"
      using cyc_dist_closer [OF c n1 nx(2) q1 q(2) lt] cyc_dist_range(1) [of "unat ?c" "unat ?n"] lt
      by linarith
    moreover have "t_state (task_of s' q) = SCHEDULER_TASK_READY"
      using False q l by (simp add: s' nth_update word_unat_eq_iff)
    ultimately show ?thesis using n by (simp add: s')
  qed
qed

text \<open>What a running user task can do to give up the processor.\<close>

datatype switch_event = Yield u64 | Block u64 | Block_Timeout u64 u64 u64

primrec switch_step :: "switch_event \<Rightarrow> 'a sched_state_scheme \<Rightarrow> 'a sched_state_scheme" where
  "switch_step (Yield frame) s = snd (scheduler_on_yield frame s)"
| "switch_step (Block frame) s = snd (scheduler_block_current frame s)"
| "switch_step (Block_Timeout frame delay result) s = snd (scheduler_block_current_timeout frame delay result s)"

lemma switch_step_eq:
  assumes "sched_inv s" "sch_users_running s"
  shows "\<exists>frame f. (\<forall>t. t_pid (f t) = t_pid t) \<and>
     switch_step e s = snd (reschedule frame (set_task (sch_current_pid s) f s))"
proof -
  have i: "sch_initialized s" "sch_current_pid s \<noteq> 0" using assms by (auto simp: sched_inv_def sched_shape_def)
  have b: "\<exists>f. (\<forall>t. t_pid (f t) = t_pid t) \<and>
      snd (scheduler_block_current frame s) = snd (reschedule frame (set_task (sch_current_pid s) f s))" for frame
    by (rule exI [of _ "\<lambda>t. t\<lparr>t_saved_frame := frame, t_state := SCHEDULER_TASK_BLOCKED,
          t_waiting_for := SCHEDULER_WAIT_NONE\<rparr>"]) (use assms i in \<open>simp add: scheduler_block_current_def\<close>)
  show ?thesis
  proof (cases e)
    case (Yield frame)
    show ?thesis
      by (rule exI [of _ frame], rule exI [of _ "\<lambda>t. t\<lparr>t_yields := t_yields t + 1\<rparr>"])
        (use assms i Yield in \<open>simp add: scheduler_on_yield_def\<close>)
  next
    case (Block frame)
    with b [of frame] show ?thesis by auto
  next
    case (Block_Timeout frame delay result)
    show ?thesis
    proof (cases "delay = 0")
      case True
      with b [of frame] Block_Timeout show ?thesis by (auto simp: scheduler_block_current_timeout_def)
    next
      case False
      show ?thesis
        by (rule exI [of _ frame], rule exI [of _ "\<lambda>t. t\<lparr>t_saved_frame := frame,
             t_state := SCHEDULER_TASK_BLOCKED, t_wake_tick := sch_ticks s + delay, t_timeout_result := result,
             t_timed_wait := True, t_waiting_for := SCHEDULER_WAIT_NONE\<rparr>"])
          (use assms i False Block_Timeout in \<open>simp add: scheduler_block_current_timeout_def\<close>)
    qed
  qed
qed

lemma switch_step_inv:
  assumes "sched_inv s" "sch_users_running s"
  shows "sched_inv (switch_step e s)"
proof -
  obtain frame f where "\<forall>t. t_pid (f t) = t_pid t"
    and e: "switch_step e s = snd (reschedule frame (set_task (sch_current_pid s) f s))"
    using switch_step_eq [OF assms] by blast
  with sched_inv_switching [OF assms, of f] show ?thesis
    unfolding e by (intro reschedule_inv) auto
qed

lemma switch_step_progress:
  assumes "sched_inv s" "sch_users_running s" "q \<noteq> 0" "unat q < 8" "t_state (task_of s q) = SCHEDULER_TASK_READY"
  shows "sch_current_pid (switch_step e s) = q \<or>
    sch_users_running (switch_step e s) \<and> t_state (task_of (switch_step e s) q) = SCHEDULER_TASK_READY \<and>
    cyc_dist (unat (sch_current_pid (switch_step e s))) (unat q) < cyc_dist (unat (sch_current_pid s)) (unat q)"
proof -
  obtain frame f where f: "\<forall>t. t_pid (f t) = t_pid t"
    and e: "switch_step e s = snd (reschedule frame (set_task (sch_current_pid s) f s))"
    using switch_step_eq [OF assms(1,2)] by blast
  have qc: "q \<noteq> sch_current_pid s" using assms by (auto simp: sched_inv_def sched_shape_def)
  have l: "length (sch_tasks s) = 8" using assms by (simp add: sched_inv_def sched_shape_def)
  have "t_state (task_of (set_task (sch_current_pid s) f s) q) = SCHEDULER_TASK_READY"
    using assms(4,5) qc l by (simp add: nth_update word_unat_eq_iff)
  then show ?thesis
    using reschedule_progress [of "set_task (sch_current_pid s) f s" q frame]
      sched_inv_switching [OF assms(1,2), of f] f assms(3,4) qc switch_step_inv [OF assms(1,2), of e]
    unfolding e by (auto simp: sched_inv_def)
qed

lemma ready_task_dispatched_within:
  assumes "sched_inv s" "sch_users_running s" "q \<noteq> 0" "unat q < 8" "t_state (task_of s q) = SCHEDULER_TASK_READY"
    and "cyc_dist (unat (sch_current_pid s)) (unat q) \<le> length es"
  shows "\<exists>n \<le> cyc_dist (unat (sch_current_pid s)) (unat q). sch_current_pid (fold switch_step (take n es) s) = q"
  using assms
proof (induction es arbitrary: s)
  case Nil
  then show ?case using cyc_dist_range(1) [of "unat (sch_current_pid s)" "unat q"] by simp
next
  case (Cons e es)
  show ?case
  proof (cases "sch_current_pid (switch_step e s) = q")
    case True
    then show ?thesis
      using cyc_dist_range(1) [of "unat (sch_current_pid s)" "unat q"] by (intro exI [of _ 1]) simp
  next
    case False
    with switch_step_progress [OF Cons.prems(1-5), of e] Cons.prems(6)
    obtain n where "n \<le> cyc_dist (unat (sch_current_pid (switch_step e s))) (unat q)"
      "sch_current_pid (fold switch_step (take n es) (switch_step e s)) = q"
      using Cons.IH [of "switch_step e s"] switch_step_inv [OF Cons.prems(1,2), of e] Cons.prems(3,4) by auto
    then show ?thesis
      using switch_step_progress [OF Cons.prems(1-5), of e] False by (intro exI [of _ "Suc n"]) simp
  qed
qed

section \<open>Properties\<close>

text \<open>A scheduler with two ready user tasks, the first of them dispatched.\<close>

definition sched_blank :: sched_state where
  "sched_blank = \<lparr>sch_tasks = [], sch_current_pid = 0, sch_dispatch_count = 0, sch_initialized = False,
     sch_users_running = False, sch_ticks = 0, sch_fpu_state = [], sch_fpu_template = [], sch_cpu_fpu = [0x7F, 3],
     sch_cr3 = 0, sch_tss_rsp0 = 0, sch_kernel_stacks = 0x10000, sch_frames = (\<lambda>_. interrupt_frame_zero)\<rparr>"

definition sched_example :: sched_state where
  "sched_example = snd (scheduler_start_users
     (snd (scheduler_create_user 0 (Some ''worker'') 0x300000 0x3B5FF0 0x9000
       (snd (scheduler_create_user 0 (Some ''init'') 0x300000 0x3B5FF0 0x8000 (scheduler_init 0x1000 sched_blank))))))"

lemma sched_example_inv: "sched_inv sched_example"
  unfolding sched_example_def
  by (intro scheduler_start_users_inv scheduler_create_user_inv [OF _ surjective_pairing] scheduler_init_inv)

lemma sched_example_facts:
  "sch_users_running sched_example" "sch_current_pid sched_example = 1"
  "t_state (task_of sched_example 2) = SCHEDULER_TASK_READY"
  by code_simp+





text \<open>
  A blocked system call returns what the waker passes. After the running task blocks with its
  frame and is woken, it is ready, and dispatching it resumes at that frame with the result in \<open>rax\<close> and
  the detail in \<open>rdx\<close>, every other register as it was.
\<close>

theorem block_wake_returns:
  assumes "sched_inv s" "sch_users_running s" "sch_current_pid s = p" "scheduler_block_current frame s = (f1, s1)"
  shows "\<exists>s2. scheduler_wake p result detail s1 = (True, s2) \<and> t_state (task_of s2 p) = SCHEDULER_TASK_READY \<and>
    fst (dispatch p s2) = frame \<and>
    sch_frames (snd (dispatch p s2)) frame = (sch_frames s frame)\<lparr>f_rax := result, f_rdx := detail\<rparr>"
proof -
  let ?b = "\<lambda>t. t\<lparr>t_saved_frame := frame, t_state := SCHEDULER_TASK_BLOCKED, t_waiting_for := SCHEDULER_WAIT_NONE\<rparr>"
  let ?s0 = "set_task p ?b s"
  let ?sr = "set_task p (\<lambda>t. t\<lparr>t_saved_frame := frame,
                t_state := (if t_state t = SCHEDULER_TASK_RUNNING then SCHEDULER_TASK_READY else t_state t)\<rparr>) ?s0"
  have i: "sch_initialized s" "p \<noteq> 0" "unat p < 8" and l: "length (sch_tasks s) = 8"
    using assms by (auto simp: sched_inv_def sched_shape_def)
  have sw: "sched_switching ?s0" "sch_current_pid ?s0 \<noteq> 0"
    using sched_inv_switching [OF assms(1,2), of ?b] assms(3) i by auto
  have s1: "s1 = snd (reschedule frame ?s0)"
    using assms i by (auto simp: scheduler_block_current_def)
  have r: "t_state (task_of ?sr p) = SCHEDULER_TASK_BLOCKED" "t_saved_frame (task_of ?sr p) = frame"
    using i l by simp_all
  have np: "next_ready p ?sr \<noteq> p" if "next_ready p ?sr \<noteq> 0"
    using next_ready_Some(1) [OF i(3) that] r by auto
  have un: "unat p \<noteq> unat (next_ready p ?sr)" "0 < unat p" if "next_ready p ?sr \<noteq> 0"
    using np [OF that] i(2) unat_neq [of p "next_ready p ?sr"] by (simp_all add: unat_gt_0 del: set_task_simps)
  have cur: "sch_current_pid ?s0 = p" using assms(3) by simp
  have st: "t_state (task_of s1 p) = SCHEDULER_TASK_BLOCKED \<and> t_saved_frame (task_of s1 p) = frame \<and>
    sch_frames s1 = sch_frames s \<and> length (sch_tasks s1) = 8"
  proof (cases "next_ready p ?sr = 0")
    case True
    then show ?thesis
      unfolding s1 reschedule_eq [OF sw] Let_def cur using r i l by (simp add: nth_update unat_gt_0)
  next
    case False
    then show ?thesis
      unfolding s1 reschedule_eq [OF sw] Let_def cur using r un [OF False] i l by (simp add: nth_update)
  qed
  then show ?thesis
    using i by (auto simp: scheduler_wake_def dispatch_def Let_def activate_def userspace_set_kernel_stack_def switch_fpu_def)
qed

theorem block_wake_returns_witness:
  "\<exists>s2. scheduler_wake 1 7 9 (snd (scheduler_block_current 0x20000 sched_example)) = (True, s2) \<and>
     fst (dispatch 1 s2) = 0x20000"
  using block_wake_returns [OF sched_example_inv sched_example_facts(1,2) surjective_pairing, of 7 9 "0x20000"] by auto

end
