(* ===== verification/Surface.thy ===== *)
theory Surface
  imports Demon_Prelude
begin

text \<open>
  The shared-surface component, \<open>src/src/surface.c\<close>: up to eight pixel surfaces carved out of
  one arena, each with a reference count and one pending damage rectangle. The arena cells are
  a function of the pixel index, so that a write outside a surface would be visible. The
  invariant \<open>surface_inv\<close> says that live surfaces are disjoint, inside the arena and of legal
  size, and that every pixel outside a live surface is zero, which is what keeps the pixels of
  one process from leaking into the surface of the next.
\<close>

section \<open>State\<close>

abbreviation (input) SURFACE_LIMIT :: nat where "SURFACE_LIMIT \<equiv> 8"
abbreviation (input) SURFACE_MAX_WIDTH :: u32 where "SURFACE_MAX_WIDTH \<equiv> 640"
abbreviation (input) SURFACE_MAX_HEIGHT :: u32 where "SURFACE_MAX_HEIGHT \<equiv> 480"
abbreviation (input) SURFACE_ARENA_BYTES :: u64 where "SURFACE_ARENA_BYTES \<equiv> 1048576"

record surface_object =
  so_owner_pid :: u32
  so_width :: u32
  so_height :: u32
  so_offset_pixels :: u32
  so_capacity_pixels :: u32
  so_references :: u32
  so_damage_x :: u16
  so_damage_y :: u16
  so_damage_width :: u16
  so_damage_height :: u16
  so_damage_pending :: bool
  so_active :: bool

definition surface_object_zero :: surface_object where
  "surface_object_zero = \<lparr>so_owner_pid = 0, so_width = 0, so_height = 0, so_offset_pixels = 0,
     so_capacity_pixels = 0, so_references = 0, so_damage_x = 0, so_damage_y = 0,
     so_damage_width = 0, so_damage_height = 0, so_damage_pending = False, so_active = False\<rparr>"

text \<open>
  \<open>surf_arena_address\<close> is the pointer \<open>pixel_arena\<close> (0 for \<open>NULL\<close>) and \<open>surf_arena\<close> the cells
  it points to, indexed by pixel.
\<close>

record surface_state =
  surf_objects :: "surface_object list"
  surf_arena :: "nat \<Rightarrow> u32"
  surf_arena_address :: u64
  surf_arena_count :: u64
  surf_write_count :: u64
  surf_read_count :: u64
  surf_share_count :: u64
  surf_created_count :: u64
  surf_reclaimed_count :: u64
  surf_mapping_count :: u64
  surf_damage_count :: u64
  surf_damage_consumed_count :: u64

section \<open>Operations\<close>

definition surfaces_init :: "surface_state \<Rightarrow> u64 \<Rightarrow> u64 \<Rightarrow> bool \<times> surface_state" where
  "surfaces_init s arena arena_bytes =
     (if arena = 0 \<or> arena_bytes < SURFACE_ARENA_BYTES then (False, s)
      else (True, s\<lparr>surf_arena_address := arena,
                    surf_arena_count := arena_bytes div 4,
                    surf_objects := replicate SURFACE_LIMIT surface_object_zero,
                    surf_arena := mem_fill (surf_arena s) 0 (unat (arena_bytes div 4)) 0,
                    surf_write_count := 0, surf_read_count := 0, surf_share_count := 0,
                    surf_created_count := 0, surf_reclaimed_count := 0,
                    surf_mapping_count := 0, surf_damage_count := 0,
                    surf_damage_consumed_count := 0\<rparr>))"

text \<open>\<open>resolve\<close>: the index of a live surface; ids are one-based.\<close>

definition surface_resolve :: "surface_state \<Rightarrow> u32 \<Rightarrow> nat option" where
  "surface_resolve s object_id =
     (if object_id = 0 \<or> unat object_id > SURFACE_LIMIT \<or>
         \<not> so_active (surf_objects s ! (unat object_id - 1))
      then None else Some (unat object_id - 1))"

definition surface_obj_start :: "surface_object \<Rightarrow> nat" where
  "surface_obj_start obj = unat (so_offset_pixels obj)"

definition surface_obj_end :: "surface_object \<Rightarrow> nat" where
  "surface_obj_end obj = unat (so_offset_pixels obj) + unat (so_capacity_pixels obj)"

text \<open>The inner scan of \<open>surface_create\<close>: does \<open>[off, off + cap)\<close> meet a live surface?\<close>

definition surface_overlaps :: "surface_object list \<Rightarrow> nat \<Rightarrow> nat \<Rightarrow> bool" where
  "surface_overlaps objs off cap \<longleftrightarrow>
     list_ex (\<lambda>obj. so_active obj \<and> off < surface_obj_end obj \<and> surface_obj_start obj < off + cap) objs"

text \<open>
  The search loop of \<open>surface_create\<close>, in steps of one page (1024 pixels). Offsets stay below
  the arena's pixel count plus 1024, so the \<open>size_t\<close> additions do not wrap and the model
  counts in natural numbers.
\<close>

function surface_find_offset :: "surface_object list \<Rightarrow> nat \<Rightarrow> nat \<Rightarrow> nat \<Rightarrow> nat option" where
  "surface_find_offset objs count cap off =
     (if off \<le> count \<and> cap \<le> count - off then
        (if surface_overlaps objs off cap then surface_find_offset objs count cap (off + 1024)
         else Some off)
      else None)"
  by pat_completeness auto
termination
  by (relation "measure (\<lambda>(objs, count, cap, off). Suc count - off)") auto

declare surface_find_offset.simps [simp del]

text \<open>\<open>(pixels + 1023u) & ~1023u\<close>: the pixel count rounded up to whole pages.\<close>

definition surface_capacity :: "u32 \<Rightarrow> u32 \<Rightarrow> u64" where
  "surface_capacity width height = (ucast width * ucast height + 1023) AND NOT 1023"

definition surface_create :: "surface_state \<Rightarrow> u32 \<Rightarrow> u32 \<Rightarrow> u32 \<Rightarrow> u32 option \<times> surface_state" where
  "surface_create s owner width height =
     (if surf_arena_address s = 0 \<or> owner = 0 \<or> width = 0 \<or> height = 0 \<or>
         width > SURFACE_MAX_WIDTH \<or> height > SURFACE_MAX_HEIGHT then (None, s)
      else case first_index (\<lambda>obj. \<not> so_active obj) (surf_objects s) of
        None \<Rightarrow> (None, s)
      | Some object \<Rightarrow>
          (let cap = surface_capacity width height in
           case surface_find_offset (surf_objects s) (unat (surf_arena_count s)) (unat cap) 0 of
             None \<Rightarrow> (None, s)
           | Some off \<Rightarrow>
               (Some (of_nat object + 1),
                s\<lparr>surf_objects := (surf_objects s)[object := surface_object_zero\<lparr>
                     so_owner_pid := owner, so_width := width, so_height := height,
                     so_offset_pixels := of_nat off, so_capacity_pixels := ucast cap,
                     so_active := True\<rparr>],
                  surf_created_count := surf_created_count s + 1\<rparr>)))"

definition surface_retain :: "surface_state \<Rightarrow> u32 \<Rightarrow> bool \<times> surface_state" where
  "surface_retain s object_id =
     (case surface_resolve s object_id of
        None \<Rightarrow> (False, s)
      | Some i \<Rightarrow>
          (let obj = surf_objects s ! i in
           if so_references obj = UINT32_MAX then (False, s)
           else (True, s\<lparr>surf_objects := (surf_objects s)[i := obj\<lparr>so_references := so_references obj + 1\<rparr>]\<rparr>)))"

definition clear_object :: "surface_state \<Rightarrow> nat \<Rightarrow> surface_state" where
  "clear_object s i =
     (let obj = surf_objects s ! i in
      s\<lparr>surf_arena := mem_fill (surf_arena s) (unat (so_offset_pixels obj)) (unat (so_capacity_pixels obj)) 0,
        surf_objects := (surf_objects s)[i := surface_object_zero],
        surf_reclaimed_count := surf_reclaimed_count s + 1\<rparr>)"

definition surface_release :: "surface_state \<Rightarrow> u32 \<Rightarrow> bool \<times> surface_state" where
  "surface_release s object_id =
     (case surface_resolve s object_id of
        None \<Rightarrow> (False, s)
      | Some i \<Rightarrow>
          (let obj = surf_objects s ! i in
           if so_references obj = 0 then (False, s)
           else let refs = so_references obj - 1;
                    s' = s\<lparr>surf_objects := (surf_objects s)[i := obj\<lparr>so_references := refs\<rparr>]\<rparr>
                in (True, if refs = 0 then clear_object s' i else s')))"

definition surface_discard :: "surface_state \<Rightarrow> u32 \<Rightarrow> bool \<times> surface_state" where
  "surface_discard s object_id =
     (case surface_resolve s object_id of
        None \<Rightarrow> (False, s)
      | Some i \<Rightarrow>
          (if so_references (surf_objects s ! i) \<noteq> 0 then (False, s) else (True, clear_object s i)))"

text \<open>The source buffer is an option, \<open>None\<close> for a null pointer.\<close>

definition surface_write :: "surface_state \<Rightarrow> u32 \<Rightarrow> u64 \<Rightarrow> u32 list option \<Rightarrow> bool \<times> surface_state" where
  "surface_write s object_id pixel_offset pixels =
     (case (surface_resolve s object_id, pixels) of
        (Some i, Some px) \<Rightarrow>
          (let obj = surf_objects s ! i;
               total = unat (so_width obj) * unat (so_height obj) in
           if unat pixel_offset > total \<or> length px > total - unat pixel_offset then (False, s)
           else (True, s\<lparr>surf_arena := mem_copy (surf_arena s)
                           (unat (so_offset_pixels obj) + unat pixel_offset) px,
                         surf_write_count := surf_write_count s + 1\<rparr>))
      | _ \<Rightarrow> (False, s))"

text \<open>\<open>surface_data\<close> hands out a pointer into the arena; the model returns what it points at.\<close>

definition surface_data :: "surface_state \<Rightarrow> u32 \<Rightarrow> (u32 list \<times> u32 \<times> u32) option \<times> surface_state" where
  "surface_data s object_id =
     (case surface_resolve s object_id of
        None \<Rightarrow> (None, s)
      | Some i \<Rightarrow>
          (let obj = surf_objects s ! i in
           (Some (mem_read (surf_arena s) (unat (so_offset_pixels obj))
                    (unat (so_width obj) * unat (so_height obj)), so_width obj, so_height obj),
            s\<lparr>surf_read_count := surf_read_count s + 1\<rparr>)))"

definition surface_mapping_data :: "surface_state \<Rightarrow> u32 \<Rightarrow> (u64 \<times> u64) option \<times> surface_state" where
  "surface_mapping_data s object_id =
     (case surface_resolve s object_id of
        None \<Rightarrow> (None, s)
      | Some i \<Rightarrow>
          (let obj = surf_objects s ! i in
           (Some (surf_arena_address s + 4 * ucast (so_offset_pixels obj),
                  (ucast (so_capacity_pixels obj) * 4 + 4095) div 4096),
            s\<lparr>surf_mapping_count := surf_mapping_count s + 1\<rparr>)))"

definition surface_damage :: "surface_state \<Rightarrow> u32 \<Rightarrow> u32 \<Rightarrow> u32 \<Rightarrow> u32 \<Rightarrow> u32 \<Rightarrow> bool \<times> surface_state" where
  "surface_damage s object_id x y width height =
     (case surface_resolve s object_id of
        None \<Rightarrow> (False, s)
      | Some i \<Rightarrow>
          (let obj = surf_objects s ! i in
           if width = 0 \<or> height = 0 \<or> x \<ge> so_width obj \<or> y \<ge> so_height obj \<or>
              width > so_width obj - x \<or> height > so_height obj - y \<or>
              x > 65535 \<or> y > 65535 \<or> width > 65535 \<or> height > 65535 then (False, s)
           else (True, s\<lparr>surf_objects := (surf_objects s)[i := obj\<lparr>
                            so_damage_x := ucast x, so_damage_y := ucast y,
                            so_damage_width := ucast width, so_damage_height := ucast height,
                            so_damage_pending := True\<rparr>],
                         surf_damage_count := surf_damage_count s + 1\<rparr>)))"

definition pack_damage :: "u16 \<Rightarrow> u16 \<Rightarrow> u16 \<Rightarrow> u16 \<Rightarrow> u64" where
  "pack_damage x y width height =
     ucast x OR push_bit 16 (ucast y) OR push_bit 32 (ucast width) OR push_bit 48 (ucast height)"

definition surface_take_damage :: "surface_state \<Rightarrow> u32 \<Rightarrow> u64 option \<times> surface_state" where
  "surface_take_damage s object_id =
     (case surface_resolve s object_id of
        None \<Rightarrow> (None, s)
      | Some i \<Rightarrow>
          (let obj = surf_objects s ! i in
           if \<not> so_damage_pending obj then (None, s)
           else (Some (pack_damage (so_damage_x obj) (so_damage_y obj)
                                   (so_damage_width obj) (so_damage_height obj)),
                 s\<lparr>surf_objects := (surf_objects s)[i := obj\<lparr>so_damage_pending := False\<rparr>],
                   surf_damage_consumed_count := surf_damage_consumed_count s + 1\<rparr>)))"

definition surface_note_share :: "surface_state \<Rightarrow> surface_state" where
  "surface_note_share s = s\<lparr>surf_share_count := surf_share_count s + 1\<rparr>"

definition surface_count :: "surface_state \<Rightarrow> nat" where
  "surface_count s = count_if so_active (surf_objects s)"

section \<open>Well-formedness\<close>

definition surface_covers :: "surface_object \<Rightarrow> nat \<Rightarrow> bool" where
  "surface_covers obj p \<longleftrightarrow> so_active obj \<and> surface_obj_start obj \<le> p \<and> p < surface_obj_end obj"

definition surface_disjoint :: "surface_object \<Rightarrow> surface_object \<Rightarrow> bool" where
  "surface_disjoint a b \<longleftrightarrow> surface_obj_end a \<le> surface_obj_start b \<or> surface_obj_end b \<le> surface_obj_start a"

text \<open>What \<open>surface_create\<close> promises of one live surface, and what damage keeps of it.\<close>

definition surface_obj_ok :: "nat \<Rightarrow> surface_object \<Rightarrow> bool" where
  "surface_obj_ok count obj \<longleftrightarrow>
     so_owner_pid obj \<noteq> 0 \<and> so_width obj \<noteq> 0 \<and> so_height obj \<noteq> 0 \<and>
     so_width obj \<le> SURFACE_MAX_WIDTH \<and> so_height obj \<le> SURFACE_MAX_HEIGHT \<and>
     unat (so_capacity_pixels obj) = unat (surface_capacity (so_width obj) (so_height obj)) \<and>
     surface_obj_start obj mod 1024 = 0 \<and> surface_obj_end obj \<le> count \<and>
     (so_damage_pending obj \<longrightarrow>
        0 < unat (so_damage_width obj) \<and> 0 < unat (so_damage_height obj) \<and>
        unat (so_damage_x obj) + unat (so_damage_width obj) \<le> unat (so_width obj) \<and>
        unat (so_damage_y obj) + unat (so_damage_height obj) \<le> unat (so_height obj))"

definition surface_objs_ok :: "nat \<Rightarrow> surface_object list \<Rightarrow> bool" where
  "surface_objs_ok count objs \<longleftrightarrow>
     length objs = SURFACE_LIMIT \<and>
     (\<forall>i<SURFACE_LIMIT. so_active (objs ! i) \<longrightarrow> surface_obj_ok count (objs ! i)) \<and>
     (\<forall>i<SURFACE_LIMIT. \<not> so_active (objs ! i) \<longrightarrow> objs ! i = surface_object_zero) \<and>
     (\<forall>i<SURFACE_LIMIT. \<forall>j<SURFACE_LIMIT. i \<noteq> j \<longrightarrow> so_active (objs ! i) \<longrightarrow> so_active (objs ! j) \<longrightarrow>
        surface_disjoint (objs ! i) (objs ! j))"

text \<open>Pixels that belong to no live surface are zero.\<close>

definition surface_arena_clean :: "surface_state \<Rightarrow> bool" where
  "surface_arena_clean s \<longleftrightarrow>
     (\<forall>p < unat (surf_arena_count s).
        (\<forall>i<SURFACE_LIMIT. \<not> surface_covers (surf_objects s ! i) p) \<longrightarrow> surf_arena s p = 0)"

definition surface_inv :: "surface_state \<Rightarrow> bool" where
  "surface_inv s \<longleftrightarrow>
     unat (surf_arena_count s) < 4294967296 \<and>
     surface_objs_ok (unat (surf_arena_count s)) (surf_objects s) \<and> surface_arena_clean s"

section \<open>Lemmas\<close>

lemma surface_object_zero_inactive [simp]: "\<not> so_active surface_object_zero"
  by (simp add: surface_object_zero_def)

lemma surface_capacity_unat:
  assumes "w \<le> SURFACE_MAX_WIDTH" "h \<le> SURFACE_MAX_HEIGHT"
  shows "unat (surface_capacity w h) = (unat w * unat h + 1023) div 1024 * 1024"
proof -
  have b: "unat w \<le> 640" "unat h \<le> 480" using assms by (auto simp: word_le_nat_alt)
  have p: "unat w * unat h \<le> 640 * 480" using b by (rule mult_le_mono)
  have m: "unat (ucast w * ucast h :: u64) = unat w * unat h"
    using p by (subst unat_mult_lem [THEN iffD1]) simp_all
  have "unat (ucast w * ucast h + 1023 :: u64) = unat w * unat h + 1023"
    using p by (subst unat_add_small) (simp_all add: m)
  then show ?thesis
    using unat_and_not_mask [of "ucast w * ucast h + 1023 :: u64" 10]
    by (simp add: surface_capacity_def mask_eq_exp_minus_1 minus_mod_eq_div_mult)
qed

lemma surface_capacity_bounds:
  assumes "w \<le> SURFACE_MAX_WIDTH" "h \<le> SURFACE_MAX_HEIGHT"
  shows "unat w * unat h \<le> unat (surface_capacity w h)"
    and "unat (surface_capacity w h) < unat w * unat h + 1024"
    and "unat (surface_capacity w h) mod 1024 = 0"
  unfolding surface_capacity_unat [OF assms] by simp_all

text \<open>The search loop is first-fit over page-aligned offsets, and complete.\<close>

lemma surface_find_offset_Some:
  "surface_find_offset objs count cap off = Some r \<Longrightarrow>
     off \<le> r \<and> r mod 1024 = off mod 1024 \<and> r + cap \<le> count \<and> \<not> surface_overlaps objs r cap"
proof (induction objs count cap off rule: surface_find_offset.induct)
  case (1 objs count cap off)
  show ?case
  proof (cases "off \<le> count \<and> cap \<le> count - off \<and> surface_overlaps objs off cap")
    case True
    with "1" have "off + 1024 \<le> r \<and> r mod 1024 = (off + 1024) mod 1024 \<and> r + cap \<le> count \<and>
        \<not> surface_overlaps objs r cap"
      by (simp add: surface_find_offset.simps [of objs count cap off])
    then show ?thesis by simp
  next
    case False
    with "1.prems" show ?thesis
      by (auto simp: surface_find_offset.simps [of objs count cap off] split: if_splits)
  qed
qed

lemma surface_find_offset_None:
  "surface_find_offset objs count cap off = None \<Longrightarrow>
     off + 1024 * k + cap \<le> count \<Longrightarrow> surface_overlaps objs (off + 1024 * k) cap"
proof (induction objs count cap off arbitrary: k rule: surface_find_offset.induct)
  case (1 objs count cap off)
  then have t: "off \<le> count \<and> cap \<le> count - off" by auto
  with "1.prems"(1) have o: "surface_overlaps objs off cap"
    and n: "surface_find_offset objs count cap (off + 1024) = None"
    by (auto simp: surface_find_offset.simps [of objs count cap off] split: if_splits)
  show ?case
  proof (cases k)
    case 0
    with o show ?thesis by simp
  next
    case (Suc j)
    with "1.IH" [OF t o n, of j] "1.prems"(2) show ?thesis by (simp add: add.assoc)
  qed
qed

lemma surface_resolve_Some:
  "surface_resolve s oid = Some i \<longleftrightarrow>
     oid = of_nat i + 1 \<and> i < SURFACE_LIMIT \<and> so_active (surf_objects s ! i)"
proof
  assume "surface_resolve s oid = Some i"
  then have "oid \<noteq> 0" "i = unat oid - 1" "unat oid \<le> SURFACE_LIMIT" "so_active (surf_objects s ! i)"
    by (auto simp: surface_resolve_def split: if_splits)
  moreover from this have "Suc i = unat oid" by (simp add: unat_gt_0 Suc_leI)
  then have "of_nat (Suc i) = oid" by simp
  ultimately show "oid = of_nat i + 1 \<and> i < SURFACE_LIMIT \<and> so_active (surf_objects s ! i)"
    using \<open>Suc i = unat oid\<close> by (auto simp: add.commute)
next
  assume a: "oid = of_nat i + 1 \<and> i < SURFACE_LIMIT \<and> so_active (surf_objects s ! i)"
  then have "unat oid = Suc i"
    using unat_of_nat_u32 [of "Suc i"] by (simp add: add.commute)
  with a show "surface_resolve s oid = Some i"
    by (auto simp: surface_resolve_def)
qed

lemma surface_resolve_None:
  "surface_resolve s oid = None \<longleftrightarrow>
     (\<forall>i<SURFACE_LIMIT. so_active (surf_objects s ! i) \<longrightarrow> oid \<noteq> of_nat i + 1)"
  by (metis (no_types) not_None_eq surface_resolve_Some)

lemma surface_inv_length [simp]: "surface_inv s \<Longrightarrow> length (surf_objects s) = SURFACE_LIMIT"
  by (simp add: surface_inv_def surface_objs_ok_def)

lemma surface_inv_objD:
  "surface_inv s \<Longrightarrow> i < SURFACE_LIMIT \<Longrightarrow> so_active (surf_objects s ! i) \<Longrightarrow>
     surface_obj_ok (unat (surf_arena_count s)) (surf_objects s ! i)"
  by (simp add: surface_inv_def surface_objs_ok_def)

lemma surface_inv_disjointD:
  "surface_inv s \<Longrightarrow> i < SURFACE_LIMIT \<Longrightarrow> j < SURFACE_LIMIT \<Longrightarrow> i \<noteq> j \<Longrightarrow>
     so_active (surf_objects s ! i) \<Longrightarrow> so_active (surf_objects s ! j) \<Longrightarrow>
     surface_disjoint (surf_objects s ! i) (surf_objects s ! j)"
  by (simp add: surface_inv_def surface_objs_ok_def)

text \<open>A live surface has room for all its pixels inside its own part of the arena.\<close>

lemma surface_obj_ok_room:
  "surface_obj_ok count obj \<Longrightarrow>
     surface_obj_start obj + unat (so_width obj) * unat (so_height obj) \<le> surface_obj_end obj"
  using surface_capacity_bounds(1) [of "so_width obj" "so_height obj"]
  by (simp add: surface_obj_ok_def surface_obj_start_def surface_obj_end_def)

text \<open>
  The invariant ignores the counters; changing a live object in place keeps it as long as the
  object keeps its place in the arena and stays well formed.
\<close>

lemma surface_inv_counters [simp]:
  "surface_inv (s\<lparr>surf_write_count := n\<rparr>) = surface_inv s"
  "surface_inv (s\<lparr>surf_read_count := n\<rparr>) = surface_inv s"
  "surface_inv (s\<lparr>surf_share_count := n\<rparr>) = surface_inv s"
  "surface_inv (s\<lparr>surf_created_count := n\<rparr>) = surface_inv s"
  "surface_inv (s\<lparr>surf_reclaimed_count := n\<rparr>) = surface_inv s"
  "surface_inv (s\<lparr>surf_mapping_count := n\<rparr>) = surface_inv s"
  "surface_inv (s\<lparr>surf_damage_count := n\<rparr>) = surface_inv s"
  "surface_inv (s\<lparr>surf_damage_consumed_count := n\<rparr>) = surface_inv s"
  by (simp_all add: surface_inv_def surface_arena_clean_def)

lemma surface_inv_update:
  assumes inv: "surface_inv s" and i: "i < SURFACE_LIMIT" and act: "so_active (surf_objects s ! i)"
    and new: "so_active obj" "so_offset_pixels obj = so_offset_pixels (surf_objects s ! i)"
      "so_capacity_pixels obj = so_capacity_pixels (surf_objects s ! i)"
      "surface_obj_ok (unat (surf_arena_count s)) obj"
  shows "surface_inv (s\<lparr>surf_objects := (surf_objects s)[i := obj]\<rparr>)"
proof -
  have place: "surface_obj_start obj = surface_obj_start (surf_objects s ! i)"
    "surface_obj_end obj = surface_obj_end (surf_objects s ! i)"
    using new by (simp_all add: surface_obj_start_def surface_obj_end_def)
  have nth: "(surf_objects s)[i := obj] ! j = (if j = i then obj else surf_objects s ! j)"
    if "j < SURFACE_LIMIT" for j
    using inv i by (simp add: nth_list_update)
  have "surface_covers ((surf_objects s)[i := obj] ! j) p = surface_covers (surf_objects s ! j) p"
    if "j < SURFACE_LIMIT" for j p
    using act new(1) place by (auto simp: nth [OF that] surface_covers_def)
  then have "surface_arena_clean (s\<lparr>surf_objects := (surf_objects s)[i := obj]\<rparr>)"
    using inv by (simp add: surface_inv_def surface_arena_clean_def)
  moreover have "surface_objs_ok (unat (surf_arena_count s)) ((surf_objects s)[i := obj])"
    using inv act new place
    by (auto simp: surface_inv_def surface_objs_ok_def nth surface_disjoint_def)
  ultimately show ?thesis using inv by (simp add: surface_inv_def)
qed

lemma surface_inv_clear_object:
  assumes inv: "surface_inv s" and i: "i < SURFACE_LIMIT" and act: "so_active (surf_objects s ! i)"
  shows "surface_inv (clear_object s i)"
proof -
  let ?o = "surf_objects s ! i"
  have nth: "(surf_objects s)[i := surface_object_zero] ! j =
      (if j = i then surface_object_zero else surf_objects s ! j)" if "j < SURFACE_LIMIT" for j
    using inv i by (simp add: nth_list_update)
  have "surf_arena (clear_object s i) p = 0"
    if p: "p < unat (surf_arena_count s)"
      and free: "\<forall>j<SURFACE_LIMIT. \<not> surface_covers ((surf_objects s)[i := surface_object_zero] ! j) p" for p
  proof (cases "surface_covers ?o p")
    case True
    then show ?thesis
      by (simp add: clear_object_def Let_def mem_fill_apply surface_covers_def surface_obj_start_def
          surface_obj_end_def)
  next
    case False
    with free have "\<forall>j<SURFACE_LIMIT. \<not> surface_covers (surf_objects s ! j) p"
      by (metis nth)
    with inv p have "surf_arena s p = 0"
      by (simp add: surface_inv_def surface_arena_clean_def)
    then show ?thesis by (simp add: clear_object_def Let_def mem_fill_apply)
  qed
  then have "surface_arena_clean (clear_object s i)"
    by (simp add: surface_arena_clean_def clear_object_def Let_def)
  moreover have "surface_objs_ok (unat (surf_arena_count s)) ((surf_objects s)[i := surface_object_zero])"
    using inv by (auto simp: surface_inv_def surface_objs_ok_def nth)
  ultimately show ?thesis
    using inv by (simp add: surface_inv_def clear_object_def Let_def)
qed

lemma surface_data_value:
  "surface_resolve s oid = Some i \<Longrightarrow> fst (surface_data s oid) =
     Some (mem_read (surf_arena s) (surface_obj_start (surf_objects s ! i))
             (unat (so_width (surf_objects s ! i)) * unat (so_height (surf_objects s ! i))),
           so_width (surf_objects s ! i), so_height (surf_objects s ! i))"
  by (simp add: surface_data_def Let_def surface_obj_start_def)

section \<open>Every operation keeps the invariant\<close>

lemma surfaces_init_inv:
  assumes "surfaces_init s arena bytes = (True, s')" and "unat bytes < 17179869184"
  shows "surface_inv s'"
proof -
  have c: "unat (bytes div 4) < 4294967296"
    using assms(2) by (simp add: unat_div)
  have s': "surf_objects s' = replicate SURFACE_LIMIT surface_object_zero"
    "surf_arena_count s' = bytes div 4"
    "surf_arena s' = mem_fill (surf_arena s) 0 (unat (bytes div 4)) 0"
    using assms(1) by (auto simp: surfaces_init_def split: if_splits)
  show ?thesis
    using c by (simp add: surface_inv_def surface_objs_ok_def surface_arena_clean_def s' mem_fill_apply)
qed

lemma surface_retain_inv: "surface_inv s \<Longrightarrow> surface_inv (snd (surface_retain s oid))"
  by (auto simp: surface_retain_def Let_def surface_resolve_Some split: option.splits
      intro!: surface_inv_update dest: surface_inv_objD simp: surface_obj_ok_def
        surface_obj_start_def surface_obj_end_def)

lemma surface_release_inv: "surface_inv s \<Longrightarrow> surface_inv (snd (surface_release s oid))"
proof (cases "surface_resolve s oid")
  case (Some i)
  assume inv: "surface_inv s"
  let ?o = "surf_objects s ! i"
  let ?s = "\<lambda>r. s\<lparr>surf_objects := (surf_objects s)[i := ?o\<lparr>so_references := r\<rparr>]\<rparr>"
  have i: "i < SURFACE_LIMIT" "so_active ?o" using Some by (auto simp: surface_resolve_Some)
  have "surface_obj_ok (unat (surf_arena_count s)) (?o\<lparr>so_references := r\<rparr>)" for r
    using surface_inv_objD [OF inv i]
    by (simp add: surface_obj_ok_def surface_obj_start_def surface_obj_end_def)
  then have s: "surface_inv (?s r)" for r
    using inv i by (intro surface_inv_update) simp_all
  have "surface_inv (clear_object (?s r) i)" for r
    using s [of r] i inv by (intro surface_inv_clear_object) simp_all
  with s inv Some show ?thesis
    by (simp add: surface_release_def Let_def)
qed (simp add: surface_release_def)

lemma surface_discard_inv: "surface_inv s \<Longrightarrow> surface_inv (snd (surface_discard s oid))"
  by (auto simp: surface_discard_def surface_resolve_Some surface_inv_clear_object split: option.splits)

lemma surface_damage_inv: "surface_inv s \<Longrightarrow> surface_inv (snd (surface_damage s oid x y w h))"
proof (cases "surface_resolve s oid")
  case (Some i)
  assume inv: "surface_inv s"
  let ?o = "surf_objects s ! i"
  let ?n = "?o\<lparr>so_damage_x := ucast x, so_damage_y := ucast y, so_damage_width := ucast w,
      so_damage_height := ucast h, so_damage_pending := True\<rparr>"
  have i: "i < SURFACE_LIMIT" "so_active ?o" using Some by (auto simp: surface_resolve_Some)
  show ?thesis
  proof (cases "fst (surface_damage s oid x y w h)")
    case True
    with Some have g: "w \<noteq> 0" "h \<noteq> 0" "x < so_width ?o" "y < so_height ?o"
      "w \<le> so_width ?o - x" "h \<le> so_height ?o - y"
      "x \<le> 65535" "y \<le> 65535" "w \<le> 65535" "h \<le> 65535"
      by (auto simp: surface_damage_def Let_def not_le split: if_splits)
    have narrow: "unat (ucast v :: u16) = unat v" if "v \<le> 65535" for v :: u32
      using that by (simp add: unsigned_ucast_eq take_bit_nat_eq_self_iff word_le_nat_alt)
    have wh: "unat x + unat w \<le> unat (so_width ?o)" "unat y + unat h \<le> unat (so_height ?o)"
      using g(3-6) by (auto simp: word_le_nat_alt word_less_nat_alt unat_sub)
    have "surface_obj_ok (unat (surf_arena_count s)) ?n"
      using surface_inv_objD [OF inv i] g wh
      by (simp add: surface_obj_ok_def surface_obj_start_def surface_obj_end_def narrow unat_gt_0)
    then have "surface_inv (s\<lparr>surf_objects := (surf_objects s)[i := ?n]\<rparr>)"
      using inv i by (intro surface_inv_update) simp_all
    with Some True show ?thesis
      by (simp add: surface_damage_def Let_def split: if_splits)
  next
    case False
    with inv Some show ?thesis by (auto simp: surface_damage_def Let_def split: if_splits)
  qed
qed (simp add: surface_damage_def)

lemma surface_take_damage_inv: "surface_inv s \<Longrightarrow> surface_inv (snd (surface_take_damage s oid))"
proof (cases "surface_resolve s oid")
  case (Some i)
  assume inv: "surface_inv s"
  let ?o = "surf_objects s ! i"
  have i: "i < SURFACE_LIMIT" "so_active ?o" using Some by (auto simp: surface_resolve_Some)
  have "surface_obj_ok (unat (surf_arena_count s)) (?o\<lparr>so_damage_pending := False\<rparr>)"
    using surface_inv_objD [OF inv i]
    by (simp add: surface_obj_ok_def surface_obj_start_def surface_obj_end_def)
  then have "surface_inv (s\<lparr>surf_objects := (surf_objects s)[i := ?o\<lparr>so_damage_pending := False\<rparr>]\<rparr>)"
    using inv i by (intro surface_inv_update) simp_all
  with inv Some show ?thesis by (simp add: surface_take_damage_def Let_def)
qed (simp add: surface_take_damage_def)

lemma surface_note_share_inv: "surface_inv s \<Longrightarrow> surface_inv (surface_note_share s)"
  by (simp add: surface_note_share_def)

lemma surface_data_inv: "surface_inv s \<Longrightarrow> surface_inv (snd (surface_data s oid))"
  by (simp add: surface_data_def Let_def split: option.splits)

lemma surface_mapping_data_inv: "surface_inv s \<Longrightarrow> surface_inv (snd (surface_mapping_data s oid))"
  by (simp add: surface_mapping_data_def Let_def split: option.splits)

text \<open>A write lands inside the written surface only.\<close>

lemma surface_write_arena:
  assumes "surface_inv s" "surface_write s oid off px = (True, s')"
  obtains i xs where "surface_resolve s oid = Some i" "px = Some xs"
    "unat off + length xs \<le> unat (so_width (surf_objects s ! i)) * unat (so_height (surf_objects s ! i))"
    "s' = s\<lparr>surf_arena := mem_copy (surf_arena s) (surface_obj_start (surf_objects s ! i) + unat off) xs,
            surf_write_count := surf_write_count s + 1\<rparr>"
  using assms(2)
  by (auto simp: surface_write_def Let_def surface_obj_start_def split: option.splits if_splits)

lemma surface_write_inv: "surface_inv s \<Longrightarrow> surface_inv (snd (surface_write s oid off px))"
proof (cases "fst (surface_write s oid off px)")
  case True
  assume inv: "surface_inv s"
  from True have "surface_write s oid off px = (True, snd (surface_write s oid off px))"
    by (metis prod.collapse)
  with inv obtain i xs where i: "surface_resolve s oid = Some i"
    and len: "unat off + length xs \<le> unat (so_width (surf_objects s ! i)) * unat (so_height (surf_objects s ! i))"
    and eq: "snd (surface_write s oid off px) =
      s\<lparr>surf_arena := mem_copy (surf_arena s) (surface_obj_start (surf_objects s ! i) + unat off) xs,
        surf_write_count := surf_write_count s + 1\<rparr>"
    by (blast elim: surface_write_arena)
  have a: "i < SURFACE_LIMIT" "so_active (surf_objects s ! i)" using i by (auto simp: surface_resolve_Some)
  have "mem_copy (surf_arena s) (surface_obj_start (surf_objects s ! i) + unat off) xs p = surf_arena s p"
    if "\<not> surface_covers (surf_objects s ! i) p" for p
    using that a len surface_obj_ok_room [OF surface_inv_objD [OF inv a]]
    by (auto simp: mem_copy_apply surface_covers_def)
  with inv a show ?thesis
    unfolding eq by (simp add: surface_inv_def surface_arena_clean_def)
next
  case False
  assume "surface_inv s"
  with False show ?thesis
    by (auto simp: surface_write_def Let_def split: option.splits if_splits)
qed

lemma surface_create_Some:
  assumes "surface_create s owner w h = (Some oid, s')"
  obtains i off where "first_index (\<lambda>obj. \<not> so_active obj) (surf_objects s) = Some i"
    "oid = of_nat i + 1" "owner \<noteq> 0" "w \<noteq> 0" "h \<noteq> 0" "w \<le> SURFACE_MAX_WIDTH" "h \<le> SURFACE_MAX_HEIGHT"
    "surface_find_offset (surf_objects s) (unat (surf_arena_count s)) (unat (surface_capacity w h)) 0 = Some off"
    "s' = s\<lparr>surf_objects := (surf_objects s)[i := surface_object_zero\<lparr>
            so_owner_pid := owner, so_width := w, so_height := h, so_offset_pixels := of_nat off,
            so_capacity_pixels := ucast (surface_capacity w h), so_active := True\<rparr>],
          surf_created_count := surf_created_count s + 1\<rparr>"
  using assms by (auto simp: surface_create_def Let_def not_less split: if_splits option.splits)

lemma surface_create_inv: "surface_inv s \<Longrightarrow> surface_inv (snd (surface_create s owner w h))"
proof (cases "fst (surface_create s owner w h)")
  case (Some oid)
  assume inv: "surface_inv s"
  let ?c = "unat (surf_arena_count s)"
  let ?cap = "unat (surface_capacity w h)"
  from Some have "surface_create s owner w h = (Some oid, snd (surface_create s owner w h))"
    by (metis prod.collapse)
  then obtain i off where i: "first_index (\<lambda>obj. \<not> so_active obj) (surf_objects s) = Some i"
    and g: "owner \<noteq> 0" "w \<noteq> 0" "h \<noteq> 0" "w \<le> SURFACE_MAX_WIDTH" "h \<le> SURFACE_MAX_HEIGHT"
    and f: "surface_find_offset (surf_objects s) ?c ?cap 0 = Some off"
    and eq: "snd (surface_create s owner w h) = s\<lparr>surf_objects := (surf_objects s)[i := surface_object_zero\<lparr>
            so_owner_pid := owner, so_width := w, so_height := h, so_offset_pixels := of_nat off,
            so_capacity_pixels := ucast (surface_capacity w h), so_active := True\<rparr>],
          surf_created_count := surf_created_count s + 1\<rparr>" (is "_ = s\<lparr>surf_objects := _[i := ?n], surf_created_count := _\<rparr>")
    by (rule surface_create_Some)
  from first_index_SomeD [OF i] inv have il: "i < SURFACE_LIMIT" "\<not> so_active (surf_objects s ! i)" by auto
  from surface_find_offset_Some [OF f] have o: "off mod 1024 = 0" "off + ?cap \<le> ?c"
    "\<not> surface_overlaps (surf_objects s) off ?cap" by auto
  have c32: "?c < 4294967296" using inv by (simp add: surface_inv_def)
  have place: "surface_obj_start ?n = off" "surface_obj_end ?n = off + ?cap"
    using o(2) c32 by (simp_all add: surface_obj_start_def surface_obj_end_def unat_of_nat_u32 unat_ucast_narrow32)
  have nth: "(surf_objects s)[i := ?n] ! j = (if j = i then ?n else surf_objects s ! j)"
    if "j < SURFACE_LIMIT" for j
    using inv il by (simp add: nth_list_update)
  have disj: "surface_disjoint ?n (surf_objects s ! j) \<and> surface_disjoint (surf_objects s ! j) ?n"
    if "j < SURFACE_LIMIT" "so_active (surf_objects s ! j)" for j
    using o(3) that inv
    by (auto simp: surface_overlaps_def list_ex_iff surface_disjoint_def place not_less
        all_set_conv_all_nth)
  have ok: "surface_obj_ok ?c ?n"
    using g o(1,2) c32 place
    by (simp add: surface_obj_ok_def unat_ucast_narrow32 surface_object_zero_def)
  have "surface_objs_ok ?c ((surf_objects s)[i := ?n])"
    using inv ok disj by (auto simp: surface_inv_def surface_objs_ok_def nth)
  moreover have "surface_covers ((surf_objects s)[i := ?n] ! j) p" if "j < SURFACE_LIMIT" "surface_covers (surf_objects s ! j) p" for j p
    using that il by (auto simp: nth surface_covers_def)
  then have "surface_arena_clean (s\<lparr>surf_objects := (surf_objects s)[i := ?n]\<rparr>)"
    using inv by (simp add: surface_inv_def surface_arena_clean_def) blast
  ultimately show ?thesis
    using inv unfolding eq by (simp add: surface_inv_def surface_arena_clean_def)
next
  case None
  assume "surface_inv s"
  with None show ?thesis
    by (auto simp: surface_create_def Let_def split: if_splits option.splits)
qed

section \<open>Reachable states of the surface table\<close>

text \<open>
  Any sequence of calls into \<open>surface.c\<close> after a successful \<open>surfaces_init\<close> on an arena of less
  than 16 GiB (offsets are stored in 32 bits; the kernel passes 1 MiB).
\<close>

inductive surface_reachable :: "surface_state \<Rightarrow> bool" where
  init: "surfaces_init s0 arena bytes = (True, s) \<Longrightarrow> unat bytes < 17179869184 \<Longrightarrow> surface_reachable s"
| create: "surface_reachable s \<Longrightarrow> surface_reachable (snd (surface_create s owner w h))"
| retain: "surface_reachable s \<Longrightarrow> surface_reachable (snd (surface_retain s oid))"
| release: "surface_reachable s \<Longrightarrow> surface_reachable (snd (surface_release s oid))"
| discard: "surface_reachable s \<Longrightarrow> surface_reachable (snd (surface_discard s oid))"
| write_step: "surface_reachable s \<Longrightarrow> surface_reachable (snd (surface_write s oid off px))"
| data: "surface_reachable s \<Longrightarrow> surface_reachable (snd (surface_data s oid))"
| mapping: "surface_reachable s \<Longrightarrow> surface_reachable (snd (surface_mapping_data s oid))"
| damage: "surface_reachable s \<Longrightarrow> surface_reachable (snd (surface_damage s oid x y w h))"
| take: "surface_reachable s \<Longrightarrow> surface_reachable (snd (surface_take_damage s oid))"
| share: "surface_reachable s \<Longrightarrow> surface_reachable (surface_note_share s)"

lemmas surface_ops_inv = surface_create_inv surface_retain_inv surface_release_inv
  surface_discard_inv surface_write_inv surface_data_inv surface_mapping_data_inv
  surface_damage_inv surface_take_damage_inv surface_note_share_inv

definition surface_example :: surface_state where
  "surface_example = snd (surfaces_init \<lparr>surf_objects = [], surf_arena = (\<lambda>_. 7),
     surf_arena_address = 0, surf_arena_count = 0, surf_write_count = 0, surf_read_count = 0,
     surf_share_count = 0, surf_created_count = 0, surf_reclaimed_count = 0, surf_mapping_count = 0,
     surf_damage_count = 0, surf_damage_consumed_count = 0\<rparr> 0x100000 0x100000)"

lemma surface_example_init: "surfaces_init \<lparr>surf_objects = [], surf_arena = (\<lambda>_. 7),
     surf_arena_address = 0, surf_arena_count = 0, surf_write_count = 0, surf_read_count = 0,
     surf_share_count = 0, surf_created_count = 0, surf_reclaimed_count = 0, surf_mapping_count = 0,
     surf_damage_count = 0, surf_damage_consumed_count = 0\<rparr> 0x100000 0x100000 = (True, surface_example)"
  by (simp add: surface_example_def surfaces_init_def)

lemma surface_example_inv: "surface_inv surface_example"
  by (rule surfaces_init_inv [OF surface_example_init]) simp

lemma surface_example_simps:
  "surf_objects surface_example = replicate SURFACE_LIMIT surface_object_zero"
  "surf_arena_count surface_example = 262144"
  "surf_arena_address surface_example = 0x100000"
  "surf_arena surface_example p = (if p < 262144 then 0 else 7)"
  by (simp_all add: surface_example_def surfaces_init_def mem_fill_apply)

lemma surface_example_create:
  "surface_create surface_example 3 2 2 = (Some 1, surface_example\<lparr>
     surf_objects := surface_object_zero\<lparr>so_owner_pid := 3, so_width := 2, so_height := 2,
       so_capacity_pixels := 1024, so_active := True\<rparr> # replicate 7 surface_object_zero,
     surf_created_count := surf_created_count surface_example + 1\<rparr>)"
proof -
  have "surface_capacity 2 2 = 1024" by (simp add: surface_capacity_def)
  moreover have "surface_find_offset (replicate 8 surface_object_zero) 262144 1024 0 = Some 0"
    by (simp add: surface_find_offset.simps surface_overlaps_def list_ex_iff)
  moreover have "replicate 8 surface_object_zero = surface_object_zero # replicate 7 surface_object_zero"
    by (simp add: numeral_eq_Suc)
  ultimately show ?thesis
    by (simp add: surface_create_def surface_example_simps surface_object_zero_def)
qed

section \<open>Properties\<close>

text \<open>
  Claim C13: in every reachable state of the surface table the live surfaces are of legal size,
  page aligned, inside the arena and pairwise disjoint, dead slots are all zero, and every arena
  pixel outside a live surface is zero.
\<close>

theorem surface_reachable_inv: "surface_reachable s \<Longrightarrow> surface_inv s"
  by (induction rule: surface_reachable.induct) (blast intro: surfaces_init_inv surface_ops_inv)+

theorem surface_reachable_inv_witness: "surface_inv (snd (surface_create surface_example 3 2 2))"
proof -
  have "surface_reachable surface_example"
    by (rule surface_reachable.init [OF surface_example_init]) simp
  then have "surface_reachable (snd (surface_create surface_example 3 2 2))"
    by (rule surface_reachable.create)
  then show ?thesis by (rule surface_reachable_inv)
qed

text \<open>
  A new surface reads as all zero pixels (nothing of a reclaimed surface leaks into
  it), has the requested size, and creating it changes the pixels of no other surface.
\<close>

theorem surface_create_fresh:
  assumes inv: "surface_inv s" and new: "surface_create s owner w h = (Some oid, s')"
  shows "fst (surface_data s' oid) = Some (replicate (unat w * unat h) 0, w, h) \<and>
    (\<forall>other. surface_resolve s other \<noteq> None \<longrightarrow>
       other \<noteq> oid \<and> fst (surface_data s' other) = fst (surface_data s other))"
proof (intro conjI allI impI)
  from new obtain i off where i: "first_index (\<lambda>obj. \<not> so_active obj) (surf_objects s) = Some i"
    and oid: "oid = of_nat i + 1" and g: "w \<le> SURFACE_MAX_WIDTH" "h \<le> SURFACE_MAX_HEIGHT"
    and f: "surface_find_offset (surf_objects s) (unat (surf_arena_count s)) (unat (surface_capacity w h)) 0 = Some off"
    and s': "s' = s\<lparr>surf_objects := (surf_objects s)[i := surface_object_zero\<lparr>
            so_owner_pid := owner, so_width := w, so_height := h, so_offset_pixels := of_nat off,
            so_capacity_pixels := ucast (surface_capacity w h), so_active := True\<rparr>],
          surf_created_count := surf_created_count s + 1\<rparr>"
    by (rule surface_create_Some)
  from first_index_SomeD [OF i] inv have il: "i < SURFACE_LIMIT" "\<not> so_active (surf_objects s ! i)" by auto
  from surface_find_offset_Some [OF f] have o: "off + unat (surface_capacity w h) \<le> unat (surf_arena_count s)"
    "\<not> surface_overlaps (surf_objects s) off (unat (surface_capacity w h))" by auto
  have r: "surface_resolve s' oid = Some i"
    using il inv by (simp add: surface_resolve_Some oid s')
  have off: "unat (of_nat off :: u32) = off"
    using o(1) inv by (simp add: surface_inv_def unat_of_nat_u32)
  have "surf_arena s p = 0" if "off \<le> p" "p < off + unat w * unat h" for p
  proof -
    have p: "p < off + unat (surface_capacity w h)"
      using that surface_capacity_bounds(1) [OF g] by simp
    then have "\<not> surface_covers (surf_objects s ! j) p" if "j < SURFACE_LIMIT" for j
      using o(2) that inv \<open>off \<le> p\<close>
      by (auto simp: surface_overlaps_def list_ex_iff surface_covers_def all_set_conv_all_nth)
    then show ?thesis
      using inv p o(1) by (simp add: surface_inv_def surface_arena_clean_def)
  qed
  then have "mem_read (surf_arena s) off (unat w * unat h) = replicate (unat w * unat h) 0"
    by (intro nth_equalityI) simp_all
  then show "fst (surface_data s' oid) = Some (replicate (unat w * unat h) 0, w, h)"
    using il inv off surface_data_value [OF r] by (simp add: s' surface_obj_start_def)
  fix other
  assume "surface_resolve s other \<noteq> None"
  then obtain j where j: "surface_resolve s other = Some j" by blast
  then have ji: "j \<noteq> i" "j < SURFACE_LIMIT" using il by (auto simp: surface_resolve_Some)
  have "surface_resolve s' other = Some j"
    using j ji by (simp add: surface_resolve_Some s')
  from surface_data_value [OF this] surface_data_value [OF j]
  show "fst (surface_data s' other) = fst (surface_data s other)"
    using ji by (simp add: s')
  show "other \<noteq> oid"
    using j ji il by (auto simp: surface_resolve_Some oid of_nat_inj_u32)
qed

theorem surface_create_fresh_witness:
  "\<exists>s'. surface_create surface_example 3 2 2 = (Some 1, s') \<and>
     fst (surface_data s' 1) = Some (replicate 4 0, 2, 2)"
  using surface_create_fresh [OF surface_example_inv surface_example_create] surface_example_create
  by simp

text \<open>
  A successful write stores exactly the given pixels at the given offset of the
  addressed surface and leaves the pixels of every other surface as they were.
\<close>

theorem surface_write_isolated:
  assumes inv: "surface_inv s" and w: "surface_write s oid off (Some px) = (True, s')"
  shows "\<exists>old width height. fst (surface_data s oid) = Some (old, width, height) \<and>
      unat off + length px \<le> length old \<and>
      fst (surface_data s' oid) =
        Some (take (unat off) old @ px @ drop (unat off + length px) old, width, height) \<and>
      (\<forall>other. other \<noteq> oid \<longrightarrow> fst (surface_data s' other) = fst (surface_data s other))"
proof -
  from inv w obtain i where i: "surface_resolve s oid = Some i"
    and len: "unat off + length px \<le> unat (so_width (surf_objects s ! i)) * unat (so_height (surf_objects s ! i))"
    and s': "s' = s\<lparr>surf_arena := mem_copy (surf_arena s) (surface_obj_start (surf_objects s ! i) + unat off) px,
        surf_write_count := surf_write_count s + 1\<rparr>"
    by (auto elim!: surface_write_arena)
  let ?o = "surf_objects s ! i" and ?n = "unat (so_width (surf_objects s ! i)) * unat (so_height (surf_objects s ! i))"
  let ?old = "mem_read (surf_arena s) (surface_obj_start ?o) ?n"
  have a: "i < SURFACE_LIMIT" "so_active ?o" using i by (auto simp: surface_resolve_Some)
  have res: "surface_resolve s' x = surface_resolve s x" for x
    by (simp add: surface_resolve_def s')
  have "mem_read (surf_arena s') (surface_obj_start ?o) ?n =
      take (unat off) ?old @ px @ drop (unat off + length px) ?old"
    using len by (intro nth_equalityI) (auto simp: s' mem_copy_apply nth_append min_def)
  moreover have "fst (surface_data s' other) = fst (surface_data s other)" if ne: "other \<noteq> oid" for other
  proof (cases "surface_resolve s other")
    case (Some j)
    then have j: "j < SURFACE_LIMIT" "so_active (surf_objects s ! j)" "j \<noteq> i"
      using ne i by (auto simp: surface_resolve_Some)
    have "surface_disjoint ?o (surf_objects s ! j)"
      using inv a j by (intro surface_inv_disjointD) auto
    then have "mem_read (surf_arena s') (surface_obj_start (surf_objects s ! j))
        (unat (so_width (surf_objects s ! j)) * unat (so_height (surf_objects s ! j))) =
      mem_read (surf_arena s) (surface_obj_start (surf_objects s ! j))
        (unat (so_width (surf_objects s ! j)) * unat (so_height (surf_objects s ! j)))"
      using len surface_obj_ok_room [OF surface_inv_objD [OF inv a]]
        surface_obj_ok_room [OF surface_inv_objD [OF inv j(1,2)]]
      by (auto simp: s' surface_disjoint_def intro!: mem_read_copy_disjoint)
    with surface_data_value [OF Some] surface_data_value [of s' other j] Some show ?thesis
      by (simp add: res) (simp add: s')
  qed (simp add: surface_data_def res)
  ultimately show ?thesis
    using i len surface_data_value [OF i] surface_data_value [of s' oid i]
    by (simp add: res) (simp add: s')
qed

theorem surface_write_isolated_witness:
  "\<exists>s' s''. surface_create surface_example 3 2 2 = (Some 1, s') \<and>
     surface_write s' 1 1 (Some [5, 6]) = (True, s'') \<and>
     fst (surface_data s'' 1) = Some ([0, 5, 6, 0], 2, 2)"
proof -
  let ?s = "snd (surface_create surface_example 3 2 2)"
  have c: "surface_create surface_example 3 2 2 = (Some 1, ?s)"
    using surface_example_create by simp
  have inv: "surface_inv ?s" by (rule surface_create_inv [OF surface_example_inv])
  have w: "surface_write ?s 1 1 (Some [5, 6]) = (True, snd (surface_write ?s 1 1 (Some [5, 6])))"
    by (simp add: surface_example_create surface_write_def surface_resolve_def)
  have d: "fst (surface_data ?s 1) = Some ([0, 0, 0, 0], 2, 2)"
    by (simp add: surface_example_create surface_data_def surface_resolve_def mem_read_def
        surface_example_simps upt_rec surface_object_zero_def)
  from surface_write_isolated [OF inv w] d have
    "fst (surface_data (snd (surface_write ?s 1 1 (Some [5, 6]))) 1) = Some ([0, 5, 6, 0], 2, 2)"
    by (auto simp: numeral_eq_Suc)
  with c w show ?thesis by blast
qed

text \<open>
  The allocator is complete first-fit. On legal arguments \<open>surface_create\<close> fails
  only when all eight slots are live or when every page-aligned range of the needed size inside
  the arena meets a live surface.
\<close>

theorem surface_create_complete:
  assumes inv: "surface_inv s" and arena: "surf_arena_address s \<noteq> 0" and owner: "owner \<noteq> 0"
    and size: "w \<noteq> 0" "h \<noteq> 0" "w \<le> SURFACE_MAX_WIDTH" "h \<le> SURFACE_MAX_HEIGHT"
  shows "fst (surface_create s owner w h) = None \<longleftrightarrow>
    (\<forall>i<SURFACE_LIMIT. so_active (surf_objects s ! i)) \<or>
    (\<forall>k. 1024 * k + (unat w * unat h + 1023) div 1024 * 1024 \<le> unat (surf_arena_count s) \<longrightarrow>
       surface_overlaps (surf_objects s) (1024 * k) ((unat w * unat h + 1023) div 1024 * 1024))"
    (is "_ \<longleftrightarrow> ?full \<or> ?nofit")
proof -
  let ?f = "surface_find_offset (surf_objects s) (unat (surf_arena_count s)) (unat (surface_capacity w h)) 0"
  have "fst (surface_create s owner w h) = None \<longleftrightarrow>
      first_index (\<lambda>obj. \<not> so_active obj) (surf_objects s) = None \<or> ?f = None"
    using arena owner size by (auto simp: surface_create_def Let_def not_less split: option.splits)
  moreover have "first_index (\<lambda>obj. \<not> so_active obj) (surf_objects s) = None \<longleftrightarrow> ?full"
    using inv by (auto simp: first_index_None_iff all_set_conv_all_nth)
  moreover have "?f = None \<longleftrightarrow> ?nofit"
  proof
    assume "?f = None"
    from surface_find_offset_None [OF this] show ?nofit
      by (simp add: surface_capacity_unat [OF size(3,4)])
  next
    assume n: ?nofit
    show "?f = None"
    proof (rule ccontr)
      assume "?f \<noteq> None"
      then obtain r where "?f = Some r" by blast
      from surface_find_offset_Some [OF this] n [rule_format, of "r div 1024"] show False
        by (auto simp: surface_capacity_unat [OF size(3,4)] mult_div_mod_eq [symmetric])
    qed
  qed
  ultimately show ?thesis by simp
qed

theorem surface_create_complete_witness:
  "fst (surface_create surface_example 3 640 480) \<noteq> None \<longleftrightarrow>
   \<not> ((\<forall>i<SURFACE_LIMIT. so_active (surf_objects surface_example ! i)) \<or>
    (\<forall>k. 1024 * k + (640 * 480 + 1023) div 1024 * 1024 \<le> 262144 \<longrightarrow>
       surface_overlaps (surf_objects surface_example) (1024 * k) ((640 * 480 + 1023) div 1024 * 1024)))"
  using surface_create_complete [OF surface_example_inv, of 3 640 480]
  by (simp add: surface_example_simps)

lemma pack_damage_fields:
  "ucast (pack_damage x y w h) = x" "ucast (drop_bit 16 (pack_damage x y w h)) = y"
  "ucast (drop_bit 32 (pack_damage x y w h)) = w" "ucast (drop_bit 48 (pack_damage x y w h)) = h"
  by (rule bit_word_eqI; auto simp: pack_damage_def bit_simps dest: bit_imp_le_length)+

lemma surface_damage_accepted:
  assumes "surface_damage s oid x y w h = (True, s')"
  obtains i where "surface_resolve s oid = Some i" "x \<le> 65535" "y \<le> 65535" "w \<le> 65535" "h \<le> 65535"
    "s' = s\<lparr>surf_objects := (surf_objects s)[i := (surf_objects s ! i)\<lparr>
        so_damage_x := ucast x, so_damage_y := ucast y, so_damage_width := ucast w,
        so_damage_height := ucast h, so_damage_pending := True\<rparr>],
      surf_damage_count := surf_damage_count s + 1\<rparr>"
  using assms by (auto simp: surface_damage_def Let_def not_less split: option.splits if_splits)

text \<open>
  Damage is delivered exactly once and unchanged. After an accepted
  \<open>surface_damage\<close> the next \<open>surface_take_damage\<close> returns the four coordinates packed into one
  word, from which they are read back as given, and the one after that finds nothing.
\<close>

theorem surface_damage_once:
  assumes inv: "surface_inv s" and d: "surface_damage s oid x y w h = (True, s')"
  shows "\<exists>packed s''. surface_take_damage s' oid = (Some packed, s'') \<and>
      ucast (ucast packed :: u16) = x \<and> ucast (ucast (drop_bit 16 packed) :: u16) = y \<and>
      ucast (ucast (drop_bit 32 packed) :: u16) = w \<and> ucast (ucast (drop_bit 48 packed) :: u16) = h \<and>
      fst (surface_take_damage s'' oid) = None"
proof -
  from d obtain i where i: "surface_resolve s oid = Some i"
    and b: "x \<le> 65535" "y \<le> 65535" "w \<le> 65535" "h \<le> 65535"
    and s': "s' = s\<lparr>surf_objects := (surf_objects s)[i := (surf_objects s ! i)\<lparr>
        so_damage_x := ucast x, so_damage_y := ucast y, so_damage_width := ucast w,
        so_damage_height := ucast h, so_damage_pending := True\<rparr>],
      surf_damage_count := surf_damage_count s + 1\<rparr>"
    by (rule surface_damage_accepted)
  have a: "i < SURFACE_LIMIT" "so_active (surf_objects s ! i)" "oid = of_nat i + 1"
    using i by (auto simp: surface_resolve_Some)
  define s'' where "s'' = snd (surface_take_damage s' oid)"
  have r': "surface_resolve s' oid = Some i"
    using a inv by (simp add: surface_resolve_Some s')
  have obj': "surf_objects s' ! i = (surf_objects s ! i)\<lparr>
        so_damage_x := ucast x, so_damage_y := ucast y, so_damage_width := ucast w,
        so_damage_height := ucast h, so_damage_pending := True\<rparr>" and l': "length (surf_objects s') = SURFACE_LIMIT"
    using a inv by (simp_all add: s')
  have t: "surface_take_damage s' oid = (Some (pack_damage (ucast x) (ucast y) (ucast w) (ucast h)), s'')"
    by (simp add: surface_take_damage_def r' Let_def obj' s''_def)
  have "surf_objects s'' = (surf_objects s')[i := (surf_objects s' ! i)\<lparr>so_damage_pending := False\<rparr>]"
    by (simp add: s''_def surface_take_damage_def r' Let_def obj')
  then have "surface_resolve s'' oid = Some i" "\<not> so_damage_pending (surf_objects s'' ! i)"
    using a l' obj' by (simp_all add: surface_resolve_Some)
  then have "fst (surface_take_damage s'' oid) = None"
    by (simp add: surface_take_damage_def)
  moreover have "ucast (ucast v :: u16) = v" if "v \<le> 65535" for v :: u32
    using that by (intro word_unat_eq_iff [THEN iffD2])
      (simp add: unsigned_ucast_eq unsigned_take_bit_eq take_bit_nat_eq_self_iff word_le_nat_alt)
  ultimately show ?thesis
    using t b by (simp add: pack_damage_fields)
qed

theorem surface_damage_once_witness:
  "\<exists>s s' packed s''. surface_damage s 1 1 0 1 2 = (True, s') \<and>
     surface_take_damage s' 1 = (Some packed, s'') \<and> fst (surface_take_damage s'' 1) = None"
proof -
  let ?s = "snd (surface_create surface_example 3 2 2)"
  have "surface_damage ?s 1 1 0 1 2 = (True, snd (surface_damage ?s 1 1 0 1 2))"
    by (simp add: surface_example_create surface_damage_def surface_resolve_def Let_def word_le_nat_alt)
  with surface_damage_once [OF surface_create_inv [OF surface_example_inv] this] show ?thesis by blast
qed

end
