(* ===== verification/User_Memory.thy ===== *)
theory User_Memory
  imports Scheduler Surface Elf64
begin

text \<open>
  The per-process memory of \<open>src/src/arch/x86_64/userspace.c\<close>: the frame pool, the anonymous region
  (map, reserve, commit, release), the large-code region, the read-only surface mappings, the checks on
  user addresses and the copy into a process. Frames and page tables live in the physical memory
  \<open>mem_phys\<close>; the switches of CR3 to the kernel's address space and back around these accesses leave no
  trace and are not shown. A process's own view of its memory, which the copy writes, is
  \<open>mem_user\<close>, indexed by the root of the address space. The bump allocator
  \<open>mako_frame_allocate\<close> is translated from \<open>src/mako/kernel_probe.mko\<close>.
\<close>

section \<open>State\<close>

abbreviation (input) USERSPACE_CODE_PAGES :: nat where "USERSPACE_CODE_PAGES \<equiv> 48"
abbreviation (input) USERSPACE_HEAP_PAGES :: nat where "USERSPACE_HEAP_PAGES \<equiv> 5"
abbreviation (input) USERSPACE_STACK_PAGES :: nat where "USERSPACE_STACK_PAGES \<equiv> 128"
abbreviation (input) USER_CODE :: u64 where "USER_CODE \<equiv> 0x300000"
abbreviation (input) USER_HEAP :: u64 where "USER_HEAP \<equiv> 0x330000"
abbreviation (input) USER_HEAP_SIZE :: u64 where "USER_HEAP_SIZE \<equiv> 0x5000"
abbreviation (input) USER_STACK_PAGE :: u64 where "USER_STACK_PAGE \<equiv> 0x335000"
abbreviation (input) USER_STACK_SIZE :: u64 where "USER_STACK_SIZE \<equiv> 0x80000"
abbreviation (input) USER_ADDRESS_END :: u64 where "USER_ADDRESS_END \<equiv> 0x3B5000"
abbreviation (input) USER_ANON_BASE :: u64 where "USER_ANON_BASE \<equiv> 0x10000000"
abbreviation (input) USER_ANON_MAX_BYTES :: u64 where "USER_ANON_MAX_BYTES \<equiv> 0x1800000"
abbreviation (input) USER_LARGE_CODE_BASE :: u64 where "USER_LARGE_CODE_BASE \<equiv> 0x20000000"
abbreviation (input) USER_LARGE_CODE_MAX_PAGES :: nat where "USER_LARGE_CODE_MAX_PAGES \<equiv> 320"
abbreviation (input) USER_SURFACE_MAP_BASE :: u64 where "USER_SURFACE_MAP_BASE \<equiv> 0x18000000"
abbreviation (input) USER_SURFACE_MAP_PAGES :: nat where "USER_SURFACE_MAP_PAGES \<equiv> 300"
abbreviation (input) USER_SURFACE_MAP_SLOTS :: nat where "USER_SURFACE_MAP_SLOTS \<equiv> 4"
abbreviation (input) USER_SURFACE_MAP_SLOT_STRIDE :: u64 where "USER_SURFACE_MAP_SLOT_STRIDE \<equiv> 0x200000"
abbreviation (input) USER_SURFACE_MAP_REGION_SIZE :: u64 where "USER_SURFACE_MAP_REGION_SIZE \<equiv> 0x800000"

definition USER_SURFACE_MAP_SLOT_BASE :: "nat \<Rightarrow> u64" where
  "USER_SURFACE_MAP_SLOT_BASE slot = USER_SURFACE_MAP_BASE + of_nat slot * USER_SURFACE_MAP_SLOT_STRIDE"

record userspace_memory =
  um_address_space :: u64
  um_page_directory :: u64
  um_page_table :: u64
  um_code_page_count :: u64
  um_code_frames :: "u64 list"
  um_heap_frames :: "u64 list"
  um_stack_frames :: "u64 list"

record mem_state = sched_state +
  mem_phys :: memory
  mem_user :: "u64 \<Rightarrow> memory"
  mem_process :: "userspace_memory list"
  mem_used :: "bool list"
  mem_mapped_surface :: "u32 list list"
  mem_frame_next :: u64
  mem_frame_end :: u64
  mem_free_frames :: u64
  mem_anon_count :: "u64 list"
  mem_anon_reserved :: "u64 list"
  mem_large_frames :: "u64 list list"
  mem_large_count :: "u64 list"
  mem_large_table :: "u64 list"
  mem_surface_table :: "u64 list list"
  mem_surf :: surface_state

text \<open>Entry \<open>i\<close> of the page table or directory at physical address \<open>table\<close>.\<close>

definition entry_addr :: "u64 \<Rightarrow> nat \<Rightarrow> u64" where
  "entry_addr table i = table + 8 * of_nat i"

definition directory_of :: "'a mem_state_scheme \<Rightarrow> u32 \<Rightarrow> u64" where
  "directory_of s pid = um_page_directory (mem_process s ! unat pid)"

section \<open>The frame pool\<close>

definition mako_frame_allocate :: "'a mem_state_scheme \<Rightarrow> u64 \<times> 'a mem_state_scheme" where
  "mako_frame_allocate s =
     (let nxt = mem_frame_next s; following = nxt + 4096 in
      if nxt = 0 \<or> following < nxt \<or> following > mem_frame_end s then (0, s)
      else (nxt, s\<lparr>mem_frame_next := following\<rparr>))"

definition anonymous_frame_take :: "'a mem_state_scheme \<Rightarrow> u64 \<times> 'a mem_state_scheme" where
  "anonymous_frame_take s =
     (let (frame, s1) =
        (if mem_free_frames s \<noteq> 0
         then (mem_free_frames s, s\<lparr>mem_free_frames := read64 (mem_phys s) (mem_free_frames s)\<rparr>)
         else mako_frame_allocate s) in
      if frame = 0 then (0, s1)
      else (frame, s1\<lparr>mem_phys := phys_fill (mem_phys s1) frame 4096 0\<rparr>))"

definition anonymous_frame_release :: "u64 \<Rightarrow> 'a mem_state_scheme \<Rightarrow> 'a mem_state_scheme" where
  "anonymous_frame_release frame s =
     (if frame = 0 then s
      else s\<lparr>mem_phys := write64 (mem_phys s) frame (mem_free_frames s), mem_free_frames := frame\<rparr>)"

section \<open>Large code\<close>

fun large_release_pages :: "nat list \<Rightarrow> u32 \<Rightarrow> 'a mem_state_scheme \<Rightarrow> 'a mem_state_scheme" where
  "large_release_pages [] pid s = s"
| "large_release_pages (page # pages) pid s =
     large_release_pages pages pid
       ((anonymous_frame_release (mem_large_frames s ! unat pid ! page) s)
          \<lparr>mem_large_frames := (mem_large_frames s)[unat pid := (mem_large_frames s ! unat pid)[page := 0]]\<rparr>)"

definition large_code_release :: "u32 \<Rightarrow> 'a mem_state_scheme \<Rightarrow> 'a mem_state_scheme" where
  "large_code_release pid s =
     (if pid = 0 \<or> unat pid \<ge> SCHEDULER_PROCESS_LIMIT then s
      else let s1 = s\<lparr>mem_phys := write64 (mem_phys s) (entry_addr (directory_of s pid) 256) 0\<rparr>;
               s2 = large_release_pages [0..<unat (mem_large_count s1 ! unat pid)] pid s1;
               s3 = s2\<lparr>mem_large_count := (mem_large_count s2)[unat pid := 0]\<rparr>;
               s4 = anonymous_frame_release (mem_large_table s3 ! unat pid) s3 in
           s4\<lparr>mem_large_table := (mem_large_table s4)[unat pid := 0]\<rparr>)"

text \<open>The page loop of \<open>large_code_load\<close>.\<close>

fun large_take_pages :: "nat list \<Rightarrow> u32 \<Rightarrow> u64 \<Rightarrow> 'a mem_state_scheme \<Rightarrow> bool \<times> 'a mem_state_scheme" where
  "large_take_pages [] pid table s = (True, s)"
| "large_take_pages (page # pages) pid table s =
     (let (frame, s1) = anonymous_frame_take s in
      if frame = 0
      then (False, large_code_release pid (s1\<lparr>mem_large_count := (mem_large_count s1)[unat pid := of_nat page]\<rparr>))
      else large_take_pages pages pid table
        (s1\<lparr>mem_large_frames := (mem_large_frames s1)[unat pid := (mem_large_frames s1 ! unat pid)[page := frame]],
            mem_large_count := (mem_large_count s1)[unat pid := of_nat (page + 1)],
            mem_phys := write64 (mem_phys s1) (entry_addr table page) (frame + 7)\<rparr>))"

definition large_code_load ::
  "u32 \<Rightarrow> u8 list option \<Rightarrow> elf64_layout \<Rightarrow> 'a mem_state_scheme \<Rightarrow> u64 option \<times> 'a mem_state_scheme" where
  "large_code_load pid img layout s =
     (if pid = 0 \<or> unat pid \<ge> SCHEDULER_PROCESS_LIMIT \<or> el_virtual_base layout \<noteq> USER_LARGE_CODE_BASE \<or>
         el_virtual_end layout \<le> USER_LARGE_CODE_BASE then (None, s)
      else let byte_count = el_virtual_end layout - USER_LARGE_CODE_BASE in
        if byte_count > of_nat (USER_LARGE_CODE_MAX_PAGES * 4096) then (None, s)
        else let pages = unat ((byte_count + 4095) div 4096); (table, s1) = anonymous_frame_take s in
          if table = 0 then (None, s1)
          else let (ok, s2) = large_take_pages [0..<pages] pid table (s1\<lparr>mem_large_table := (mem_large_table s1)[unat pid := table]\<rparr>) in
            if \<not> ok then (None, s2)
            else case elf64_load_executable_pages img USER_LARGE_CODE_BASE (take pages (mem_large_frames s2 ! unat pid)) (mem_phys s2) of
              (None, m) \<Rightarrow> (None, large_code_release pid (s2\<lparr>mem_phys := m\<rparr>))
            | (Some entry, m) \<Rightarrow> (Some entry, s2\<lparr>mem_phys := write64 m (entry_addr (directory_of s2 pid) 256) (table + 7)\<rparr>))"

section \<open>The anonymous region\<close>

fun anon_release_pages :: "nat list \<Rightarrow> u64 \<Rightarrow> 'a mem_state_scheme \<Rightarrow> 'a mem_state_scheme" where
  "anon_release_pages [] table s = s"
| "anon_release_pages (page # pages) table s =
     (let pte = read64 (mem_phys s) (entry_addr table page);
          s1 = (if pte AND 1 \<noteq> 0 then anonymous_frame_release (pte AND NOT 0xFFF) s else s) in
      anon_release_pages pages table (s1\<lparr>mem_phys := write64 (mem_phys s1) (entry_addr table page) 0\<rparr>))"

fun anon_release_tables :: "nat list \<Rightarrow> u32 \<Rightarrow> 'a mem_state_scheme \<Rightarrow> 'a mem_state_scheme" where
  "anon_release_tables [] pid s = s"
| "anon_release_tables (table # tables) pid s =
     (let directory_index = 128 + table;
          pde = read64 (mem_phys s) (entry_addr (directory_of s pid) directory_index) in
      if pde AND 1 = 0 \<or> pde AND 0x80 \<noteq> 0 then anon_release_tables tables pid s
      else let pages = min 512 (unat (mem_anon_count s ! unat pid) - table * 512);
               s1 = anon_release_pages [0..<pages] (pde AND NOT 0xFFF) s;
               s2 = s1\<lparr>mem_phys := write64 (mem_phys s1) (entry_addr (directory_of s1 pid) directory_index)
                      (of_nat directory_index * 0x200000 + 0x87)\<rparr> in
        anon_release_tables tables pid (anonymous_frame_release (pde AND NOT 0xFFF) s2))"

definition anonymous_release :: "u32 \<Rightarrow> 'a mem_state_scheme \<Rightarrow> 'a mem_state_scheme" where
  "anonymous_release pid s =
     (if pid = 0 \<or> unat pid \<ge> SCHEDULER_PROCESS_LIMIT then s
      else if mem_anon_count s ! unat pid = 0
      then s\<lparr>mem_anon_reserved := (mem_anon_reserved s)[unat pid := 0]\<rparr>
      else let table_count = unat ((mem_anon_count s ! unat pid + 511) div 512);
               s1 = anon_release_tables [0..<table_count] pid s in
           s1\<lparr>mem_anon_count := (mem_anon_count s1)[unat pid := 0],
              mem_anon_reserved := (mem_anon_reserved s1)[unat pid := 0]\<rparr>)"

text \<open>\<open>anonymous_commit_pages\<close>, over the pages still to commit.\<close>

fun anonymous_commit_pages :: "nat list \<Rightarrow> u32 \<Rightarrow> bool \<Rightarrow> 'a mem_state_scheme \<Rightarrow> bool \<times> 'a mem_state_scheme" where
  "anonymous_commit_pages [] pid writable s = (True, s)"
| "anonymous_commit_pages (page # pages) pid writable s =
     (let page_flags = 5 OR (if writable then 2 else 0);
          directory = directory_of s pid;
          directory_index = 128 + page div 512;
          (table, s1) =
            (if page mod 512 = 0
             then let (t, s0) = anonymous_frame_take s in
                  (t, if t = 0 then s0
                      else s0\<lparr>mem_phys := write64 (mem_phys s0) (entry_addr directory directory_index) (t + 7)\<rparr>)
             else (read64 (mem_phys s) (entry_addr directory directory_index) AND NOT 0xFFF, s)) in
      if page mod 512 = 0 \<and> table = 0 then (False, s1)
      else let (frame, s2) = anonymous_frame_take s1 in
        if frame = 0
        then (False,
              if page mod 512 = 0
              then let s3 = anonymous_frame_release (read64 (mem_phys s2) (entry_addr directory directory_index) AND NOT 0xFFF) s2 in
                   s3\<lparr>mem_phys := write64 (mem_phys s3) (entry_addr directory directory_index)
                         (of_nat directory_index * 0x200000 + 0x87)\<rparr>
              else s2)
        else anonymous_commit_pages pages pid writable
          (s2\<lparr>mem_phys := write64 (mem_phys s2) (entry_addr table (page mod 512)) (frame OR page_flags),
              mem_anon_count := (mem_anon_count s2)[unat pid := of_nat (page + 1)]\<rparr>))"

definition anonymous_map :: "u32 \<Rightarrow> u64 \<Rightarrow> 'a mem_state_scheme \<Rightarrow> u64 \<times> 'a mem_state_scheme" where
  "anonymous_map pid byte_count s =
     (if pid = 0 \<or> unat pid \<ge> SCHEDULER_PROCESS_LIMIT \<or> byte_count = 0 \<or> byte_count > USER_ANON_MAX_BYTES \<or>
         mem_anon_count s ! unat pid \<noteq> 0 \<or> mem_anon_reserved s ! unat pid \<noteq> 0 \<or>
         byte_count > UINT64_MAX - 4095 then (UINT64_MAX, s)
      else let (ok, s1) = anonymous_commit_pages [0..<unat ((byte_count + 4095) div 4096)] pid True s in
        if \<not> ok then (UINT64_MAX, anonymous_release pid s1) else (USER_ANON_BASE, s1))"

definition anonymous_reserve :: "u32 \<Rightarrow> u64 \<Rightarrow> 'a mem_state_scheme \<Rightarrow> u64 \<times> 'a mem_state_scheme" where
  "anonymous_reserve pid byte_count s =
     (if pid = 0 \<or> unat pid \<ge> SCHEDULER_PROCESS_LIMIT \<or> byte_count = 0 \<or> byte_count > USER_ANON_MAX_BYTES \<or>
         mem_anon_count s ! unat pid \<noteq> 0 \<or> mem_anon_reserved s ! unat pid \<noteq> 0 \<or>
         byte_count > UINT64_MAX - 4095 then (UINT64_MAX, s)
      else (USER_ANON_BASE, s\<lparr>mem_anon_reserved := (mem_anon_reserved s)[unat pid := (byte_count + 4095) div 4096]\<rparr>))"

definition anonymous_commit :: "u32 \<Rightarrow> u64 \<Rightarrow> bool \<Rightarrow> 'a mem_state_scheme \<Rightarrow> u64 \<times> 'a mem_state_scheme" where
  "anonymous_commit pid byte_count writable s =
     (if pid = 0 \<or> unat pid \<ge> SCHEDULER_PROCESS_LIMIT \<or> byte_count = 0 \<or>
         mem_anon_reserved s ! unat pid = 0 \<or> byte_count > UINT64_MAX - 4095 then (UINT64_MAX, s)
      else let new_pages = (byte_count + 4095) div 4096; start_page = mem_anon_count s ! unat pid in
        if new_pages > mem_anon_reserved s ! unat pid - start_page then (UINT64_MAX, s)
        else let (ok, s1) = anonymous_commit_pages [unat start_page..<unat (start_page + new_pages)] pid writable s in
          (if ok then USER_ANON_BASE + start_page * 4096 else UINT64_MAX, s1))"

section \<open>User addresses\<close>

definition anonymous_range :: "u32 \<Rightarrow> u64 \<Rightarrow> u64 \<Rightarrow> 'a mem_state_scheme \<Rightarrow> bool" where
  "anonymous_range pid address len s =
     (if pid = 0 \<or> unat pid \<ge> SCHEDULER_PROCESS_LIMIT \<or> mem_anon_count s ! unat pid = 0 \<or> address < USER_ANON_BASE then False
      else let end_address = USER_ANON_BASE + (mem_anon_count s ! unat pid) * 4096 in
        address \<le> end_address \<and> len \<le> end_address - address)"

text \<open>
  The tests \<open>user_range\<close> and \<open>user_write_range\<close> have in common: heap and stack, the code pages and
  the large code of the current process.
\<close>

definition heap_stack_range :: "u64 \<Rightarrow> u64 \<Rightarrow> bool" where
  "heap_stack_range address len \<longleftrightarrow> USER_HEAP \<le> address \<and> address \<le> USER_ADDRESS_END \<and> len \<le> USER_ADDRESS_END - address"

definition code_range :: "u32 \<Rightarrow> u64 \<Rightarrow> u64 \<Rightarrow> 'a mem_state_scheme \<Rightarrow> bool" where
  "code_range pid address len s \<longleftrightarrow>
     pid \<noteq> 0 \<and> unat pid < SCHEDULER_PROCESS_LIMIT \<and> mem_used s ! unat pid \<and> USER_CODE \<le> address \<and>
     address \<le> USER_CODE + um_code_page_count (mem_process s ! unat pid) * 4096 \<and>
     len \<le> USER_CODE + um_code_page_count (mem_process s ! unat pid) * 4096 - address"

definition large_code_range :: "u32 \<Rightarrow> u64 \<Rightarrow> u64 \<Rightarrow> 'a mem_state_scheme \<Rightarrow> bool" where
  "large_code_range pid address len s \<longleftrightarrow>
     pid \<noteq> 0 \<and> unat pid < SCHEDULER_PROCESS_LIMIT \<and> mem_large_count s ! unat pid \<noteq> 0 \<and> USER_LARGE_CODE_BASE \<le> address \<and>
     address \<le> USER_LARGE_CODE_BASE + (mem_large_count s ! unat pid) * 4096 \<and>
     len \<le> USER_LARGE_CODE_BASE + (mem_large_count s ! unat pid) * 4096 - address"

definition surface_map_range :: "u32 \<Rightarrow> u64 \<Rightarrow> u64 \<Rightarrow> 'a mem_state_scheme \<Rightarrow> bool" where
  "surface_map_range pid address len s =
     (if pid = 0 \<or> unat pid \<ge> SCHEDULER_PROCESS_LIMIT \<or> address < USER_SURFACE_MAP_BASE \<or>
         address > USER_SURFACE_MAP_BASE + USER_SURFACE_MAP_REGION_SIZE \<or>
         len > USER_SURFACE_MAP_BASE + USER_SURFACE_MAP_REGION_SIZE - address then False
      else let slot = unat ((address - USER_SURFACE_MAP_BASE) div USER_SURFACE_MAP_SLOT_STRIDE) in
        slot < USER_SURFACE_MAP_SLOTS \<and> mem_mapped_surface s ! unat pid ! slot \<noteq> 0 \<and>
        len \<le> USER_SURFACE_MAP_SLOT_BASE slot + USER_SURFACE_MAP_SLOT_STRIDE - address)"

definition user_range :: "u64 \<Rightarrow> u64 \<Rightarrow> 'a mem_state_scheme \<Rightarrow> bool" where
  "user_range address len s =
     (let pid = sch_current_pid s in
      if anonymous_range pid address len s then True
      else if heap_stack_range address len then True
      else if code_range pid address len s then True
      else if large_code_range pid address len s then True
      else surface_map_range pid address len s)"

definition user_write_range :: "u64 \<Rightarrow> u64 \<Rightarrow> 'a mem_state_scheme \<Rightarrow> bool" where
  "user_write_range address len s =
     (let pid = sch_current_pid s in
      if anonymous_range pid address len s then True
      else if heap_stack_range address len then True
      else if code_range pid address len s then True
      else large_code_range pid address len s)"

text \<open>
  The copy into process \<open>pid\<close>: the address is checked, then the bytes go through a 64-byte buffer into
  the target's address space, chunk by chunk.
\<close>

function copy_chunks :: "memory \<Rightarrow> u64 \<Rightarrow> u8 list \<Rightarrow> memory" where
  "copy_chunks m address data =
     (if data = [] then m
      else copy_chunks (phys_copy m address (take 64 data)) (address + of_nat (length (take 64 data))) (drop 64 data))"
  by pat_completeness auto
termination by (relation "measure (\<lambda>(m, a, d). length d)") auto

declare copy_chunks.simps [simp del]

definition userspace_copy_to :: "u32 \<Rightarrow> u64 \<Rightarrow> u8 list \<Rightarrow> 'a mem_state_scheme \<Rightarrow> bool \<times> 'a mem_state_scheme" where
  "userspace_copy_to pid address data s =
     (if pid = 0 \<or> unat pid \<ge> SCHEDULER_PROCESS_LIMIT \<or> \<not> mem_used s ! unat pid \<or>
         \<not> user_write_range address (of_nat (length data)) s then (False, s)
      else let root = um_address_space (mem_process s ! unat pid) in
        (True, s\<lparr>mem_user := (mem_user s)(root := copy_chunks (mem_user s root) address data)\<rparr>))"

text \<open>What a system call reads from its caller: \<open>len\<close> bytes at \<open>address\<close> in the active address space.\<close>

definition user_bytes :: "u64 \<Rightarrow> nat \<Rightarrow> 'a mem_state_scheme \<Rightarrow> u8 list" where
  "user_bytes address n s = phys_read (mem_user s (sch_cr3 s)) address n"

section \<open>Surface mappings\<close>

text \<open>The page loop of \<open>edit_surface_ptes\<close>.\<close>

fun write_surface_ptes :: "nat list \<Rightarrow> u64 \<Rightarrow> u64 \<Rightarrow> nat \<Rightarrow> bool \<Rightarrow> memory \<Rightarrow> memory" where
  "write_surface_ptes [] table physical page_count present m = m"
| "write_surface_ptes (page # pages) table physical page_count present m =
     write_surface_ptes pages table physical page_count present
       (write64 m (entry_addr table page)
          (if present \<and> page < page_count then physical + of_nat page * 4096 + 5 else 0))"

definition edit_surface_ptes :: "u32 \<Rightarrow> nat \<Rightarrow> u64 \<Rightarrow> nat \<Rightarrow> bool \<Rightarrow> 'a mem_state_scheme \<Rightarrow> bool \<times> 'a mem_state_scheme" where
  "edit_surface_ptes pid slot physical_address page_count present s =
     (let s1 =
        (if mem_surface_table s ! unat pid ! slot = 0
         then let (table, s0) = anonymous_frame_take s in
              if table \<noteq> 0
              then s0\<lparr>mem_surface_table := (mem_surface_table s0)[unat pid := (mem_surface_table s0 ! unat pid)[slot := table]],
                      mem_phys := write64 (mem_phys s0)
                        (entry_addr (directory_of s0 pid) (unat (USER_SURFACE_MAP_SLOT_BASE slot div 0x200000))) (table + 7)\<rparr>
              else s0
         else s);
          table = mem_surface_table s1 ! unat pid ! slot in
      (table \<noteq> 0,
       if table \<noteq> 0
       then s1\<lparr>mem_phys := write_surface_ptes [0..<USER_SURFACE_MAP_PAGES] table physical_address page_count present (mem_phys s1)\<rparr>
       else s1))"

text \<open>
  The scan of \<open>map_surface_readonly\<close>: \<open>Inl\<close> the slot that already holds the surface, or \<open>Inr\<close> the
  first free slot, if any.
\<close>

fun scan_surface_slots :: "u32 \<Rightarrow> u32 list \<Rightarrow> nat \<Rightarrow> nat option \<Rightarrow> nat + nat option" where
  "scan_surface_slots oid [] slot free_slot = Inr free_slot"
| "scan_surface_slots oid (x # xs) slot free_slot =
     (if x = oid then Inl slot
      else scan_surface_slots oid xs (Suc slot) (if free_slot = None \<and> x = 0 then Some slot else free_slot))"

definition set_mapped_surface :: "u32 \<Rightarrow> nat \<Rightarrow> u32 \<Rightarrow> 'a mem_state_scheme \<Rightarrow> 'a mem_state_scheme" where
  "set_mapped_surface pid slot oid s =
     s\<lparr>mem_mapped_surface := (mem_mapped_surface s)[unat pid := (mem_mapped_surface s ! unat pid)[slot := oid]]\<rparr>"

definition map_surface_readonly :: "u32 \<Rightarrow> u32 \<Rightarrow> 'a mem_state_scheme \<Rightarrow> u64 option \<times> 'a mem_state_scheme" where
  "map_surface_readonly pid object_id s =
     (if pid = 0 \<or> unat pid \<ge> SCHEDULER_PROCESS_LIMIT \<or> \<not> mem_used s ! unat pid then (None, s)
      else case scan_surface_slots object_id (mem_mapped_surface s ! unat pid) 0 None of
        Inl slot \<Rightarrow> (Some (USER_SURFACE_MAP_SLOT_BASE slot), s)
      | Inr None \<Rightarrow> (None, s)
      | Inr (Some free_slot) \<Rightarrow>
          (case surface_mapping_data (mem_surf s) object_id of
             (None, f) \<Rightarrow> (None, s\<lparr>mem_surf := f\<rparr>)
           | (Some (physical_address, page_count), f) \<Rightarrow>
               (if page_count = 0 \<or> unat page_count > USER_SURFACE_MAP_PAGES \<or> physical_address AND 4095 \<noteq> 0
                then (None, s\<lparr>mem_surf := f\<rparr>)
                else case surface_retain f object_id of
                  (False, f1) \<Rightarrow> (None, s\<lparr>mem_surf := f1\<rparr>)
                | (True, f1) \<Rightarrow>
                    (let (ok, s1) = edit_surface_ptes pid free_slot physical_address (unat page_count) True (s\<lparr>mem_surf := f1\<rparr>) in
                     if \<not> ok then (None, s1\<lparr>mem_surf := snd (surface_release (mem_surf s1) object_id)\<rparr>)
                     else (Some (USER_SURFACE_MAP_SLOT_BASE free_slot), set_mapped_surface pid free_slot object_id s1)))))"

text \<open>Dropping the mapping in one slot, the body shared by the two unmap loops.\<close>

definition drop_surface_slot :: "u32 \<Rightarrow> nat \<Rightarrow> u32 \<Rightarrow> 'a mem_state_scheme \<Rightarrow> 'a mem_state_scheme" where
  "drop_surface_slot pid slot object_id s =
     (let s1 = set_mapped_surface pid slot 0 (snd (edit_surface_ptes pid slot 0 0 False s)) in
      s1\<lparr>mem_surf := snd (surface_release (mem_surf s1) object_id)\<rparr>)"

definition unmap_surface_id :: "u32 \<Rightarrow> u32 \<Rightarrow> 'a mem_state_scheme \<Rightarrow> bool \<times> 'a mem_state_scheme" where
  "unmap_surface_id pid object_id s =
     (if pid = 0 \<or> unat pid \<ge> SCHEDULER_PROCESS_LIMIT \<or> object_id = 0 then (False, s)
      else case first_index (\<lambda>x. x = object_id) (mem_mapped_surface s ! unat pid) of
        None \<Rightarrow> (False, s)
      | Some slot \<Rightarrow> (True, drop_surface_slot pid slot object_id s))"

definition userspace_unmap_surface :: "u32 \<Rightarrow> u32 \<Rightarrow> 'a mem_state_scheme \<Rightarrow> bool \<times> 'a mem_state_scheme" where
  "userspace_unmap_surface pid surface_id s = unmap_surface_id pid surface_id s"

fun unmap_surface_slots :: "nat list \<Rightarrow> u32 \<Rightarrow> 'a mem_state_scheme \<Rightarrow> 'a mem_state_scheme" where
  "unmap_surface_slots [] pid s = s"
| "unmap_surface_slots (slot # slots) pid s =
     (let object_id = mem_mapped_surface s ! unat pid ! slot in
      unmap_surface_slots slots pid (if object_id = 0 then s else drop_surface_slot pid slot object_id s))"

fun release_surface_tables :: "nat list \<Rightarrow> u32 \<Rightarrow> 'a mem_state_scheme \<Rightarrow> 'a mem_state_scheme" where
  "release_surface_tables [] pid s = s"
| "release_surface_tables (slot # slots) pid s =
     (let table = mem_surface_table s ! unat pid ! slot in
      if table = 0 then release_surface_tables slots pid s
      else let s1 = anonymous_frame_release table (s\<lparr>mem_phys := write64 (mem_phys s)
                     (entry_addr (directory_of s pid) (unat (USER_SURFACE_MAP_SLOT_BASE slot div 0x200000))) 0\<rparr>) in
        release_surface_tables slots pid
          (s1\<lparr>mem_surface_table := (mem_surface_table s1)[unat pid := (mem_surface_table s1 ! unat pid)[slot := 0]]\<rparr>))"

definition unmap_surface :: "u32 \<Rightarrow> 'a mem_state_scheme \<Rightarrow> 'a mem_state_scheme" where
  "unmap_surface pid s =
     (if pid = 0 \<or> unat pid \<ge> SCHEDULER_PROCESS_LIMIT then s
      else release_surface_tables [0..<USER_SURFACE_MAP_SLOTS] pid (unmap_surface_slots [0..<USER_SURFACE_MAP_SLOTS] pid s))"

definition userspace_surface_mapping_readonly :: "u32 \<Rightarrow> u32 \<Rightarrow> 'a mem_state_scheme \<Rightarrow> bool \<times> 'a mem_state_scheme" where
  "userspace_surface_mapping_readonly pid surface_id s =
     (if pid = 0 \<or> unat pid \<ge> SCHEDULER_PROCESS_LIMIT \<or> surface_id = 0 then (False, s)
      else case first_index (\<lambda>x. x = surface_id) (mem_mapped_surface s ! unat pid) of
        None \<Rightarrow> (False, s)
      | Some slot \<Rightarrow>
          (case surface_mapping_data (mem_surf s) surface_id of
             (None, f) \<Rightarrow> (False, s\<lparr>mem_surf := f\<rparr>)
           | (Some (physical, pages), f) \<Rightarrow>
               (if pages = 0 \<or> unat pages > USER_SURFACE_MAP_PAGES then (False, s\<lparr>mem_surf := f\<rparr>)
                else let table = mem_surface_table s ! unat pid ! slot in
                  (physical \<noteq> 0 \<and> table \<noteq> 0 \<and>
                   list_all (\<lambda>page. let pte = read64 (mem_phys s) (entry_addr table page) in
                      if page < unat pages then pte AND 7 = 5 \<and> pte AND NOT 4095 = physical + of_nat page * 4096
                      else pte = 0) [0..<USER_SURFACE_MAP_PAGES],
                   s\<lparr>mem_surf := f\<rparr>))))"

section \<open>Checked ranges stay inside the process's regions\<close>

definition mem_inv :: "'a mem_state_scheme \<Rightarrow> bool" where
  "mem_inv s \<longleftrightarrow> length (mem_process s) = SCHEDULER_PROCESS_LIMIT \<and> length (mem_used s) = SCHEDULER_PROCESS_LIMIT \<and>
     length (mem_mapped_surface s) = SCHEDULER_PROCESS_LIMIT \<and>
     (\<forall>row \<in> set (mem_mapped_surface s). length row = USER_SURFACE_MAP_SLOTS) \<and>
     length (mem_surface_table s) = SCHEDULER_PROCESS_LIMIT \<and>
     (\<forall>row \<in> set (mem_surface_table s). length row = USER_SURFACE_MAP_SLOTS) \<and>
     length (mem_anon_count s) = SCHEDULER_PROCESS_LIMIT \<and> length (mem_anon_reserved s) = SCHEDULER_PROCESS_LIMIT \<and>
     length (mem_large_count s) = SCHEDULER_PROCESS_LIMIT \<and> length (mem_large_table s) = SCHEDULER_PROCESS_LIMIT \<and>
     (\<forall>m \<in> set (mem_process s). unat (um_code_page_count m) \<le> USERSPACE_CODE_PAGES) \<and>
     (\<forall>n \<in> set (mem_anon_count s). unat n \<le> 6144) \<and> (\<forall>n \<in> set (mem_anon_reserved s). unat n \<le> 6144) \<and>
     (\<forall>i < SCHEDULER_PROCESS_LIMIT. mem_anon_reserved s ! i \<noteq> 0 \<longrightarrow> mem_anon_count s ! i \<le> mem_anon_reserved s ! i) \<and>
     (\<forall>n \<in> set (mem_large_count s). unat n \<le> USER_LARGE_CODE_MAX_PAGES)"

lemma range_check_unat:
  fixes base a l n :: u64
  assumes "unat base + unat n * 4096 < 2 ^ 64" "base + n * 4096 = e"
  shows "a \<le> e \<and> l \<le> e - a \<longleftrightarrow> unat a + unat l \<le> unat base + unat n * 4096"
proof -
  have "unat (n * 4096) = unat n * 4096" using assms(1) by (simp add: unat_word_ariths)
  with assms(1) have "unat (base + n * 4096) = unat base + unat n * 4096" by (simp add: unat_add_small)
  with assms(2) have "unat e = unat base + unat n * 4096" by simp
  then show ?thesis by (auto simp: word_le_nat_alt unat_sub)
qed

definition within :: "u64 \<Rightarrow> u64 \<Rightarrow> nat \<Rightarrow> nat \<Rightarrow> bool" where
  "within address len lo hi \<longleftrightarrow> lo \<le> unat address \<and> unat address + unat len \<le> hi"

lemma heap_stack_range_within: "heap_stack_range a l \<longleftrightarrow> within a l 0x330000 0x3B5000"
  by (auto simp: heap_stack_range_def within_def word_le_nat_alt unat_sub)

lemma anonymous_range_within:
  assumes "mem_inv s" "anonymous_range pid a l s"
  shows "within a l 0x10000000 (0x10000000 + unat (mem_anon_count s ! unat pid) * 4096)" "unat (mem_anon_count s ! unat pid) \<le> 6144"
proof -
  have p: "unat pid < 8" using assms(2) by (auto simp: anonymous_range_def split: if_splits)
  with assms(1) show c: "unat (mem_anon_count s ! unat pid) \<le> 6144" by (simp add: mem_inv_def)
  then have "unat USER_ANON_BASE + unat (mem_anon_count s ! unat pid) * 4096 < 2 ^ 64" by simp
  from range_check_unat [OF this refl] assms(2)
  show "within a l 0x10000000 (0x10000000 + unat (mem_anon_count s ! unat pid) * 4096)"
    by (auto simp: anonymous_range_def within_def Let_def word_less_nat_alt not_less split: if_splits)
qed

lemma code_range_within:
  assumes "mem_inv s" "code_range pid a l s"
  shows "within a l 0x300000 0x330000"
proof -
  let ?n = "um_code_page_count (mem_process s ! unat pid)"
  have c: "unat ?n \<le> 48" using assms by (simp add: mem_inv_def code_range_def)
  then have "unat USER_CODE + unat ?n * 4096 < 2 ^ 64" by simp
  from range_check_unat [OF this refl] assms(2) c show ?thesis
    by (auto simp: code_range_def within_def word_le_nat_alt)
qed

lemma large_code_range_within:
  assumes "mem_inv s" "large_code_range pid a l s"
  shows "within a l 0x20000000 (0x20000000 + unat (mem_large_count s ! unat pid) * 4096)" "unat (mem_large_count s ! unat pid) \<le> 320"
proof -
  show c: "unat (mem_large_count s ! unat pid) \<le> 320" using assms by (simp add: mem_inv_def large_code_range_def)
  then have "unat USER_LARGE_CODE_BASE + unat (mem_large_count s ! unat pid) * 4096 < 2 ^ 64" by simp
  from range_check_unat [OF this refl] assms(2)
  show "within a l 0x20000000 (0x20000000 + unat (mem_large_count s ! unat pid) * 4096)"
    by (auto simp: large_code_range_def within_def word_le_nat_alt)
qed

lemma surface_map_range_within:
  assumes "surface_map_range pid a l s"
  shows "\<exists>slot < 4. mem_mapped_surface s ! unat pid ! slot \<noteq> 0 \<and>
    within a l (0x18000000 + slot * 0x200000) (0x18000000 + slot * 0x200000 + 0x200000)"
proof -
  define slot where "slot = unat ((a - USER_SURFACE_MAP_BASE) div USER_SURFACE_MAP_SLOT_STRIDE)"
  have s: "USER_SURFACE_MAP_BASE \<le> a" "slot < 4" "mem_mapped_surface s ! unat pid ! slot \<noteq> 0"
    "l \<le> USER_SURFACE_MAP_SLOT_BASE slot + USER_SURFACE_MAP_SLOT_STRIDE - a"
    using assms by (auto simp: surface_map_range_def slot_def Let_def not_less split: if_splits)
  have d: "slot = (unat a - 0x18000000) div 0x200000"
    using s(1) by (simp add: slot_def unat_div unat_sub)
  with s(1) have lo: "0x18000000 + slot * 0x200000 \<le> unat a" and hi: "unat a < 0x18000000 + slot * 0x200000 + 0x200000"
    by (simp_all add: word_le_nat_alt)
  have u: "unat (of_nat slot :: u64) = slot" using s(2) by (simp add: unat_of_nat_u64)
  have "unat (USER_SURFACE_MAP_SLOT_BASE slot) = 0x18000000 + slot * 0x200000"
    using s(2) u by (simp add: USER_SURFACE_MAP_SLOT_BASE_def unat_word_ariths)
  then have e: "unat (USER_SURFACE_MAP_SLOT_BASE slot + USER_SURFACE_MAP_SLOT_STRIDE) = 0x18000000 + slot * 0x200000 + 0x200000"
    using s(2) by (simp add: unat_add_small)
  have "unat (USER_SURFACE_MAP_SLOT_BASE slot + USER_SURFACE_MAP_SLOT_STRIDE - a) = 0x18000000 + slot * 0x200000 + 0x200000 - unat a"
    using e hi by (simp add: unat_sub word_le_nat_alt)
  with s lo hi show ?thesis
    by (intro exI [of _ slot]) (auto simp: within_def word_le_nat_alt)
qed

section \<open>The chunked copy\<close>

lemma phys_copy_append: "phys_copy m a (xs @ ys) = phys_copy (phys_copy m a xs) (a + of_nat (length xs)) ys"
  by (induction xs arbitrary: m a) (simp_all add: add.assoc add.commute add.left_commute)

lemma copy_chunks_eq: "copy_chunks m a data = phys_copy m a data"
proof (induction m a data rule: copy_chunks.induct)
  case (1 m a data)
  show ?case
  proof (cases "data = []")
    case False
    have "copy_chunks m a data =
        phys_copy (phys_copy m a (take 64 data)) (a + of_nat (length (take 64 data))) (drop 64 data)"
      using "1.IH" [OF False] False by (simp add: copy_chunks.simps [of m a data])
    also have "\<dots> = phys_copy m a data"
      using phys_copy_append [of m a "take 64 data" "drop 64 data"] by simp
    finally show ?thesis .
  qed (simp add: copy_chunks.simps)
qed

section \<open>Page-table entries\<close>

lemma entry_addr_apart:
  assumes "i < 512" "j < 512" "i \<noteq> j"
  shows "word_apart (entry_addr table i) (entry_addr table j)"
proof -
  have e: "entry_addr table i - entry_addr table j = of_nat (8 * i) - of_nat (8 * j)" for i j
    by (simp add: entry_addr_def)
  have "8 \<le> unat (entry_addr table i - entry_addr table j)" if "i < 512" "j < 512" "i \<noteq> j" for i j
    using unat_of_nat_diff [of "8 * j" "8 * i" 0] that unfolding e by auto
  with assms show ?thesis by (simp add: word_apart_def)
qed

lemma read_surface_ptes:
  assumes "distinct pages" "set pages \<subseteq> {..<512}" "i < 512"
  shows "read64 (write_surface_ptes pages table physical n present m) (entry_addr table i) =
    (if i \<in> set pages then if present \<and> i < n then physical + of_nat i * 4096 + 5 else 0
     else read64 m (entry_addr table i))"
  using assms
proof (induction pages arbitrary: m)
  case (Cons page pages)
  show ?case
  proof (cases "i = page")
    case True
    with Cons show ?thesis by simp
  next
    case False
    then have "read64 (write64 m (entry_addr table page) v) (entry_addr table i) = read64 m (entry_addr table i)" for v
      using read64_write64_apart [OF entry_addr_apart [of page i table], of m v] Cons.prems by simp
    with Cons False show ?thesis by simp
  qed
qed simp

text \<open>An entry built from a page-aligned address: the flags are 5 (present, user, not writable).\<close>

lemma surface_pte_bits:
  fixes a :: u64
  assumes "a AND 4095 = 0"
  shows "(a + 5) AND 7 = 5" "(a + 5) AND NOT 4095 = a"
proof -
  have m: "(4095 :: u64) = mask 12" "(7 :: u64) = mask 3" by (simp_all add: mask_eq_exp_minus_1)
  note al = unat_page_aligned [OF assms]
  have u: "unat (a + 5) = unat a + 5" using al(2) by (simp add: unat_add_small)
  obtain k where k: "unat a = 4096 * k" using al(1) by (auto elim!: dvdE simp: mod_eq_0_iff_dvd)
  have d: "(unat a + 5) mod 8 = 5" "(unat a + 5) mod 4096 = 5"
    using mod_mult_self4 [of 8 "512 * k" 5] mod_mult_self4 [of 4096 k 5] unfolding k by simp_all
  have "unat ((a + 5) AND 7) = (unat a + 5) mod 8" by (simp only: m unat_and_mask u) simp
  also have "\<dots> = 5" by (rule d(1))
  finally show "(a + 5) AND 7 = 5" by (simp add: word_unat_eq_iff)
  have "unat ((a + 5) AND NOT 4095) = unat a + 5 - (unat a + 5) mod 4096"
    by (simp only: m unat_and_not_mask u) simp
  with d(2) show "(a + 5) AND NOT 4095 = a" by (simp add: word_unat_eq_iff)
qed

section \<open>The free list\<close>

text \<open>\<open>free_list m head fs\<close>: the frames \<open>fs\<close> are linked through their first word from \<open>head\<close>.\<close>

fun free_list :: "memory \<Rightarrow> u64 \<Rightarrow> u64 list \<Rightarrow> bool" where
  "free_list m head [] \<longleftrightarrow> head = 0"
| "free_list m head (f # fs) \<longleftrightarrow> head = f \<and> f \<noteq> 0 \<and> f AND 4095 = 0 \<and> f \<notin> set fs \<and> free_list m (read64 m f) fs"

definition pool_inv :: "'a mem_state_scheme \<Rightarrow> u64 list \<Rightarrow> bool" where
  "pool_inv s fs \<longleftrightarrow> free_list (mem_phys s) (mem_free_frames s) fs \<and> mem_frame_next s AND 4095 = 0 \<and>
     (\<forall>f \<in> set fs. unat f + 4096 \<le> unat (mem_frame_next s)) "

lemma frames_apart:
  fixes f g :: u64
  assumes "f AND 4095 = 0" "g AND 4095 = 0" "f \<noteq> g"
  shows "4096 \<le> unat (f - g)"
proof -
  note a = unat_page_aligned(1) [OF assms(1)] unat_page_aligned(1) [OF assms(2)]
  obtain i j where ij: "unat f = 4096 * i" "unat g = 4096 * j"
    using a by (auto elim!: dvdE simp: mod_eq_0_iff_dvd)
  have ne: "i \<noteq> j" using ij assms(3) by (auto simp: word_unat_eq_iff)
  have lt: "unat f < 2 ^ 64" "unat g < 2 ^ 64" using unsigned_less [of f] unsigned_less [of g] by simp_all
  have "unat (f - g) = (if unat g \<le> unat f then unat f - unat g else 2 ^ 64 - (unat g - unat f))"
    using unat_of_nat_diff [of "unat g" "unat f" 0] lt by simp
  with ij ne lt show ?thesis by (auto split: if_splits)
qed

lemma free_list_frame:
  assumes "free_list m head fs" "\<And>f. f \<in> set fs \<Longrightarrow> read64 m' f = read64 m f"
  shows "free_list m' head fs"
  using assms by (induction fs arbitrary: head) auto

lemma free_list_aligned: "free_list m head fs \<Longrightarrow> f \<in> set fs \<Longrightarrow> f AND 4095 = 0 \<and> f \<noteq> 0"
  by (induction fs arbitrary: head) auto

lemma read64_other_frame:
  assumes "f AND 4095 = 0" "g AND 4095 = 0" "f \<noteq> g" "\<And>x. 4096 \<le> unat (x - g) \<Longrightarrow> m' x = m x"
  shows "read64 m' f = read64 m f"
proof (rule read64_cong)
  fix i :: nat
  assume i: "i < 8"
  have "8 \<le> unat (- (f - g))" using frames_apart [OF assms(2,1)] assms(3) by simp
  then have "unat (f - g + of_nat i) = unat (f - g) + i" using i by (rule unat_plus_small [rotated])
  moreover have e: "f + of_nat i - g = f - g + of_nat i" by simp
  ultimately have "4096 \<le> unat (f + of_nat i - g)" unfolding e using frames_apart [OF assms(1,2,3)] by simp
  then show "m' (f + of_nat i) = m (f + of_nat i)" by (rule assms(4))
qed

lemma free_list_write_other:
  assumes "free_list m head fs" "g AND 4095 = 0" "g \<notin> set fs" "\<And>x. 4096 \<le> unat (x - g) \<Longrightarrow> m' x = m x"
  shows "free_list m' head fs"
proof (rule free_list_frame [OF assms(1)])
  fix f
  assume f: "f \<in> set fs"
  with assms(3) have "f \<noteq> g" by auto
  with free_list_aligned [OF assms(1) f] assms(2,4) show "read64 m' f = read64 m f"
    by (intro read64_other_frame [of f g]) auto
qed

lemma anonymous_frame_release_pool:
  assumes "pool_inv s fs" "f \<noteq> 0" "f AND 4095 = 0" "f \<notin> set fs" "unat f + 4096 \<le> unat (mem_frame_next s)"
  shows "pool_inv (anonymous_frame_release f s) (f # fs)"
proof -
  have "free_list (write64 (mem_phys s) f (mem_free_frames s)) (mem_free_frames s) fs"
  proof (rule free_list_write_other [of "mem_phys s" _ fs f])
    show "free_list (mem_phys s) (mem_free_frames s) fs" using assms(1) by (simp add: pool_inv_def)
    show "f AND 4095 = 0" "f \<notin> set fs" by (fact assms)+
  qed (simp add: write64_apply)
  with assms show ?thesis by (simp add: pool_inv_def anonymous_frame_release_def)
qed

text \<open>What \<open>anonymous_frame_take\<close> does to the pool, for both sources of frames.\<close>

lemma anonymous_frame_take_pool:
  assumes inv: "pool_inv s fs" and t: "anonymous_frame_take s = (f, s')" and nz: "f \<noteq> 0"
  shows "pool_inv s' (tl fs) \<and> f AND 4095 = 0 \<and> f \<notin> set (tl fs) \<and> (fs \<noteq> [] \<longrightarrow> f = hd fs) \<and>
    unat f + 4096 \<le> unat (mem_frame_next s') \<and> mem_frame_next s \<le> mem_frame_next s' \<and>
    (\<forall>x. mem_phys s' x = (if unat (x - f) < 4096 then 0 else mem_phys s x))"
proof (cases fs)
  case Nil
  have n: "f = mem_frame_next s" "mem_frame_next s' = mem_frame_next s + 4096" "mem_frame_next s \<le> mem_frame_next s + 4096"
    and p: "mem_phys s' = phys_fill (mem_phys s) f 4096 0" "mem_free_frames s' = 0"
    using t nz inv Nil
    by (auto simp: anonymous_frame_take_def mako_frame_allocate_def pool_inv_def Let_def not_less split: if_splits)
  have al: "f AND 4095 = 0" using inv n(1) by (simp add: pool_inv_def)
  have u: "unat (f + 4096) = unat f + 4096"
    using n(1,3) unat_plus_simple [of f 4096] by simp
  have "(f + 4096) AND 4095 = 0"
    using unat_page_aligned(1) [OF al] u unat_and_mask [of "f + 4096" 12]
    by (simp add: word_unat_eq_iff mask_eq_exp_minus_1 mod_add_eq [symmetric])
  with Nil n p al u show ?thesis
    by (simp add: pool_inv_def phys_fill_apply)
next
  case (Cons g gs)
  have fl: "free_list (mem_phys s) g (g # gs)" using inv Cons by (simp add: pool_inv_def)
  have p: "f = g" "mem_phys s' = phys_fill (mem_phys s) f 4096 0" "mem_free_frames s' = read64 (mem_phys s) g"
    "mem_frame_next s' = mem_frame_next s"
    using t nz inv Cons by (auto simp: anonymous_frame_take_def pool_inv_def Let_def split: if_splits)
  have "free_list (phys_fill (mem_phys s) f 4096 0) (read64 (mem_phys s) g) gs"
  proof (rule free_list_write_other [of "mem_phys s" _ gs f])
    show "free_list (mem_phys s) (read64 (mem_phys s) g) gs" "f AND 4095 = 0" "f \<notin> set gs" using fl p(1) by auto
  qed (simp add: phys_fill_apply)
  with Cons p inv fl show ?thesis by (simp add: pool_inv_def phys_fill_apply)
qed

section \<open>Properties\<close>

text \<open>A machine with one running process, for the witnesses.\<close>

definition mem_example :: mem_state where
  "mem_example =
     \<lparr>sch_tasks = sch_tasks sched_example, sch_current_pid = 1, sch_dispatch_count = 2, sch_initialized = True,
      sch_users_running = True, sch_ticks = 0, sch_fpu_state = replicate 8 [], sch_fpu_template = [], sch_cpu_fpu = [],
      sch_cr3 = 0x8000, sch_tss_rsp0 = 0, sch_kernel_stacks = 0x10000, sch_frames = (\<lambda>_. interrupt_frame_zero),
      mem_phys = (\<lambda>_. 0), mem_user = (\<lambda>_ _. 0),
      mem_process = replicate 8 \<lparr>um_address_space = 0x8000, um_page_directory = 0x9000, um_page_table = 0xA000,
        um_code_page_count = 4, um_code_frames = [], um_heap_frames = [], um_stack_frames = []\<rparr>,
      mem_used = (replicate 8 False)[1 := True], mem_mapped_surface = replicate 8 (replicate 4 0),
      mem_frame_next = 0x400000, mem_frame_end = 0x800000, mem_free_frames = 0,
      mem_anon_count = replicate 8 0, mem_anon_reserved = replicate 8 0,
      mem_large_frames = replicate 8 (replicate 320 0), mem_large_count = replicate 8 0, mem_large_table = replicate 8 0,
      mem_surface_table = replicate 8 (replicate 4 0),
      mem_surf = surface_example\<lparr>surf_objects := surface_object_zero\<lparr>so_owner_pid := 1, so_width := 2, so_height := 2,
        so_capacity_pixels := 1024, so_active := True, so_references := 1\<rparr> # replicate 7 surface_object_zero\<rparr>\<rparr>"

lemma mem_example_inv: "mem_inv mem_example"
  by (simp add: mem_inv_def mem_example_def)



text \<open>
  Claim C27: a delivery into a process is exact. When \<open>userspace_copy_to\<close> succeeds, the bytes appear at the
  address in the target's address space, every other byte of that space and every other address space is
  unchanged, and so is the rest of the kernel state; when it fails nothing changes.
\<close>

theorem userspace_copy_to_exact:
  assumes "length data < 2 ^ 64" "userspace_copy_to pid address data s = (b, s')"
  shows "(if b then s' = s\<lparr>mem_user := mem_user s'\<rparr> \<and>
      (\<forall>root a. mem_user s' root a =
         (if root = um_address_space (mem_process s ! unat pid) \<and> unat (a - address) < length data
          then data ! unat (a - address) else mem_user s root a))
    else s' = s)"
  using assms(2)
  by (auto simp: userspace_copy_to_def copy_chunks_eq phys_copy_apply [OF less_imp_le [OF assms(1)]] Let_def split: if_splits)

theorem userspace_copy_to_exact_witness:
  "mem_user (snd (userspace_copy_to 1 0x330000 [7, 8] mem_example)) 0x8000 0x330001 = 8"
proof -
  have b: "fst (userspace_copy_to 1 0x330000 [7, 8] mem_example)"
    by (simp add: userspace_copy_to_def user_write_range_def heap_stack_range_def anonymous_range_def mem_example_def)
  from userspace_copy_to_exact [OF _ surjective_pairing, of "[7, 8]" 1 "0x330000" mem_example] b
  have "mem_user (snd (userspace_copy_to 1 0x330000 [7, 8] mem_example)) 0x8000 0x330001 =
      (if (0x8000 :: u64) = um_address_space (mem_process mem_example ! unat 1) \<and> unat (0x330001 - 0x330000 :: u64) < length [7, 8 :: u8]
       then [7, 8] ! unat (0x330001 - 0x330000 :: u64) else mem_user mem_example 0x8000 0x330001)" by simp
  then show ?thesis by (simp add: mem_example_def)
qed

text \<open>
  The frame pool. A frame handed out is page aligned, is no longer on the free list, is cleared and
  nothing else in memory changes; a released frame is pushed on the free list, and taking a frame straight
  after a release returns that frame.
\<close>

theorem frame_pool_sound:
  assumes "pool_inv s fs"
  shows "(\<forall>f s'. anonymous_frame_take s = (f, s') \<and> f \<noteq> 0 \<longrightarrow>
      pool_inv s' (tl fs) \<and> f AND 4095 = 0 \<and> f \<notin> set (tl fs) \<and>
      (\<forall>x. mem_phys s' x = (if unat (x - f) < 4096 then 0 else mem_phys s x))) \<and>
    (\<forall>f. f \<noteq> 0 \<and> f AND 4095 = 0 \<and> f \<notin> set fs \<and> unat f + 4096 \<le> unat (mem_frame_next s) \<longrightarrow>
      pool_inv (anonymous_frame_release f s) (f # fs) \<and> fst (anonymous_frame_take (anonymous_frame_release f s)) = f)"
proof (intro conjI allI impI)
  fix f s'
  assume "anonymous_frame_take s = (f, s') \<and> f \<noteq> 0"
  with anonymous_frame_take_pool [OF assms, of f s']
  show "pool_inv s' (tl fs)" "f AND 4095 = 0" "f \<notin> set (tl fs)"
    "\<And>x. mem_phys s' x = (if unat (x - f) < 4096 then 0 else mem_phys s x)" by simp_all
next
  fix f
  assume "f \<noteq> 0 \<and> f AND 4095 = 0 \<and> f \<notin> set fs \<and> unat f + 4096 \<le> unat (mem_frame_next s)"
  then show "pool_inv (anonymous_frame_release f s) (f # fs)"
    "fst (anonymous_frame_take (anonymous_frame_release f s)) = f"
    using anonymous_frame_release_pool [OF assms, of f]
    by (auto simp: anonymous_frame_take_def anonymous_frame_release_def)
qed

theorem frame_pool_sound_witness:
  "pool_inv (anonymous_frame_release 0x3000 mem_example) [0x3000]"
proof -
  have "pool_inv mem_example []" by (simp add: pool_inv_def mem_example_def)
  from frame_pool_sound [OF this] show ?thesis by (simp add: mem_example_def)
qed

lemma edit_surface_ptes_ok:
  assumes "mem_inv s" "unat pid < 8" "slot < 4" "edit_surface_ptes pid slot physical n present s = (True, s')"
  shows "mem_surface_table s' ! unat pid ! slot \<noteq> 0" "mem_surf s' = mem_surf s" "mem_mapped_surface s' = mem_mapped_surface s"
    "mem_used s' = mem_used s"
    and "i < 300 \<Longrightarrow> read64 (mem_phys s') (entry_addr (mem_surface_table s' ! unat pid ! slot) i) =
       (if present \<and> i < n then physical + of_nat i * 4096 + 5 else 0)"
proof -
  have take: "mem_surf (snd (anonymous_frame_take s)) = mem_surf s"
    "mem_mapped_surface (snd (anonymous_frame_take s)) = mem_mapped_surface s"
    "mem_used (snd (anonymous_frame_take s)) = mem_used s"
    "mem_surface_table (snd (anonymous_frame_take s)) = mem_surface_table s"
    by (simp_all add: anonymous_frame_take_def mako_frame_allocate_def Let_def)
  show "mem_surface_table s' ! unat pid ! slot \<noteq> 0"
    using assms(4) by (auto simp: edit_surface_ptes_def Let_def split: if_splits prod.splits)
  show "mem_surf s' = mem_surf s" "mem_mapped_surface s' = mem_mapped_surface s" "mem_used s' = mem_used s"
    using assms(4) take by (auto simp: edit_surface_ptes_def Let_def split: if_splits prod.splits)
  have "set [0..<300] \<subseteq> {..<512 :: nat}" by auto
  then show "i < 300 \<Longrightarrow> read64 (mem_phys s') (entry_addr (mem_surface_table s' ! unat pid ! slot) i) =
       (if present \<and> i < n then physical + of_nat i * 4096 + 5 else 0)"
    using assms(4) read_surface_ptes [of "[0..<300]" i]
    by (auto simp: edit_surface_ptes_def Let_def split: if_splits prod.splits)
qed

lemma scan_surface_slots_free:
  "scan_surface_slots oid xs n acc = Inr (Some k) \<Longrightarrow> acc = None \<Longrightarrow>
   oid \<notin> set xs \<and> n \<le> k \<and> k < n + length xs \<and> xs ! (k - n) = 0"
proof (induction xs arbitrary: n acc)
  case (Cons x xs)
  have keep: "scan_surface_slots oid ys m (Some j) = Inr r \<Longrightarrow> r = Some j \<and> oid \<notin> set ys" for ys m j r
    by (induction ys arbitrary: m) (auto split: if_splits)
  show ?case
  proof (cases "x = 0")
    case True
    with Cons.prems keep [of xs "Suc n" n "Some k"] show ?thesis by (auto split: if_splits)
  next
    case False
    with Cons.prems Cons.IH [of "Suc n" None] show ?thesis by (auto split: if_splits simp: nth_Cons')
  qed
qed simp

lemma scan_surface_slots_absent: "oid \<notin> set xs \<Longrightarrow> scan_surface_slots oid xs n acc \<noteq> Inl k"
  by (induction xs arbitrary: n acc) auto

lemma mapping_data_retained:
  assumes "surface_mapping_data f oid = (Some d, f1)" "surface_retain f1 oid = (True, f2)" "length (surf_objects f) = SURFACE_LIMIT"
  shows "fst (surface_mapping_data f2 oid) = Some d"
proof -
  have "0 < unat oid" "unat oid - 1 < length (surf_objects f)"
    using assms by (auto simp: surface_mapping_data_def surface_resolve_def unat_gt_0 split: if_splits)
  with assms show ?thesis
    unfolding surface_mapping_data_def surface_retain_def surface_resolve_def Let_def
    by (auto split: option.splits if_splits simp: nth_update)
qed

lemma page_plus_aligned:
  fixes a :: u64
  assumes "a AND 4095 = 0"
  shows "(a + of_nat n * 4096) AND 4095 = 0"
proof -
  have m: "(4095 :: u64) = mask 12" by (simp add: mask_eq_exp_minus_1)
  have c: "x mod 2 ^ 64 mod 4096 = x mod 4096" for x :: nat by (rule mod_mod_cancel) simp
  have "unat (a + of_nat n * 4096) mod 4096 = (unat a + unat (of_nat n * 4096 :: u64)) mod 4096"
    using c [of "unat a + unat (of_nat n * 4096 :: u64)"] by (simp add: unat_word_ariths(1) [of a])
  also have "\<dots> = (unat a mod 4096 + unat (of_nat n * 4096 :: u64) mod 4096) mod 4096" by (simp add: mod_add_eq)
  also have "unat (of_nat n * 4096 :: u64) mod 4096 = 0"
    using c [of "unat (of_nat n :: u64) * 4096"] by (simp add: unat_word_ariths(2) [of "of_nat n"])
  finally have "unat ((a + of_nat n * 4096) AND 4095) = 0"
    using unat_page_aligned(1) [OF assms] by (simp only: m unat_and_mask) simp
  then show ?thesis by (simp add: word_unat_eq_iff)
qed

text \<open>
  A surface is shared read-only. When \<open>map_surface_readonly\<close> maps a surface the process had not
  mapped, the slot's page table afterwards maps exactly the pages of that surface, each entry present and
  user accessible but not writable, and every further entry is empty: the kernel's own check
  \<open>userspace_surface_mapping_readonly\<close> accepts it.
\<close>

theorem map_surface_readonly_sound:
  assumes "mem_inv s" "object_id \<notin> set (mem_mapped_surface s ! unat pid)"
    and "length (surf_objects (mem_surf s)) = SURFACE_LIMIT"
    and "\<forall>a n. fst (surface_mapping_data (mem_surf s) object_id) = Some (a, n) \<longrightarrow> a \<noteq> 0"
    and "map_surface_readonly pid object_id s = (Some address, s')"
  shows "fst (userspace_surface_mapping_readonly pid object_id s') \<and>
    (\<exists>slot < 4. mem_mapped_surface s ! unat pid ! slot = 0 \<and> address = USER_SURFACE_MAP_SLOT_BASE slot \<and>
       mem_mapped_surface s' = (mem_mapped_surface s)[unat pid := (mem_mapped_surface s ! unat pid)[slot := object_id]])"
proof -
  let ?row = "mem_mapped_surface s ! unat pid"
  have pid: "pid \<noteq> 0" "unat pid < 8" using assms(5) by (auto simp: map_surface_readonly_def not_le split: if_splits)
  have rl: "length ?row = 4" "length (mem_mapped_surface s) = 8" using assms(1) pid by (simp_all add: mem_inv_def)
  have sc: "scan_surface_slots object_id ?row 0 None \<noteq> Inl k" for k
    using assms(2) by (rule scan_surface_slots_absent)
  obtain slot a n f f1 s1 where
    sl: "scan_surface_slots object_id ?row 0 None = Inr (Some slot)"
    and md: "surface_mapping_data (mem_surf s) object_id = (Some (a, n), f)"
    and ck: "n \<noteq> 0" "unat n \<le> 300" "a AND 4095 = 0" and rt: "surface_retain f object_id = (True, f1)"
    and ed: "edit_surface_ptes pid slot a (unat n) True (s\<lparr>mem_surf := f1\<rparr>) = (True, s1)"
    and res: "address = USER_SURFACE_MAP_SLOT_BASE slot" "s' = set_mapped_surface pid slot object_id s1"
    using assms(5) sc by (auto simp: map_surface_readonly_def not_le not_less split: if_splits sum.splits option.splits bool.splits prod.splits)
  have sl4: "slot < 4" "?row ! slot = 0" using scan_surface_slots_free [OF sl refl] rl by auto
  have inv1: "mem_inv (s\<lparr>mem_surf := f1\<rparr>)" using assms(1) by (simp add: mem_inv_def)
  note e = edit_surface_ptes_ok [OF inv1 pid(2) sl4(1) ed]
  have mp: "mem_mapped_surface s' = (mem_mapped_surface s)[unat pid := ?row[slot := object_id]]"
    using e(3) by (simp add: res set_mapped_surface_def)
  have nz: "object_id \<noteq> 0" using md by (auto simp: surface_mapping_data_def surface_resolve_def split: if_splits)
  have fi: "first_index (\<lambda>x. x = object_id) (mem_mapped_surface s' ! unat pid) = Some slot"
    using assms(2) sl4 rl pid by (intro first_index_unique) (auto simp: mp nth_update split: if_splits)
  have data: "fst (surface_mapping_data (mem_surf s') object_id) = Some (a, n)"
    using mapping_data_retained [OF md rt assms(3)] e(2) by (simp add: res set_mapped_surface_def)
  have pte: "read64 (mem_phys s') (entry_addr (mem_surface_table s' ! unat pid ! slot) i) =
      (if i < unat n then a + of_nat i * 4096 + 5 else 0)" if "i < 300" for i
    using e(5) [OF that] by (simp add: res set_mapped_surface_def)
  have "a \<noteq> 0" using assms(4) md by simp
  moreover have "mem_surface_table s' ! unat pid ! slot \<noteq> 0" using e(1) by (simp add: res set_mapped_surface_def)
  ultimately have "fst (userspace_surface_mapping_readonly pid object_id s')"
    using pid nz fi data ck pte surface_pte_bits [OF page_plus_aligned [OF ck(3)]]
    by (auto simp: userspace_surface_mapping_readonly_def Let_def list_all_iff split: prod.splits option.splits)
  with sl4 res mp show ?thesis by blast
qed

theorem map_surface_readonly_sound_witness:
  "fst (userspace_surface_mapping_readonly 1 1 (snd (map_surface_readonly 1 1 mem_example)))"
proof -
  have "scan_surface_slots 1 (replicate 4 0) 0 None = Inr (Some 0)" by code_simp
  then have "fst (map_surface_readonly 1 1 mem_example) = Some 0x18000000"
    by (simp add: map_surface_readonly_def mem_example_def surface_mapping_data_def surface_resolve_def surface_retain_def
        surface_example_simps edit_surface_ptes_def anonymous_frame_take_def mako_frame_allocate_def Let_def
        USER_SURFACE_MAP_SLOT_BASE_def surface_object_zero_def
        del: write_surface_ptes.simps upt_Suc)
  then obtain s' where e: "map_surface_readonly 1 1 mem_example = (Some 0x18000000, s')" by (metis prod.collapse)
  have "fst (userspace_surface_mapping_readonly 1 1 s')"
    using map_surface_readonly_sound [OF mem_example_inv _ _ _ e]
    by (auto simp: mem_example_def surface_mapping_data_def surface_resolve_def surface_example_simps surface_object_zero_def)
  with e show ?thesis by simp
qed

end
