(* ===== verification/Slot_Table.thy ===== *)
theory Slot_Table
  imports Demon_Prelude
begin

text \<open>
  The generation-checked slot allocator \<open>kernel::slot_table<T, Capacity>\<close> of
  \<open>src/include/kernel/slot_table.h\<close>, and the interface its client (the capability table) relies
  on: the locale \<open>handle_table\<close>. A slot carries a 16-bit generation that is bumped when the slot
  is freed, skipping 0, so that a handle to a freed slot stops resolving.
\<close>

section \<open>The table\<close>

record 'a slot_entry =
  se_open :: bool
  se_generation :: u16
  se_payload :: 'a

type_synonym 'a slot_table = "'a slot_entry list"

definition slot_table_new :: "nat \<Rightarrow> 'a \<Rightarrow> 'a slot_table" where
  "slot_table_new capacity dflt = replicate capacity \<lparr>se_open = False, se_generation = 1, se_payload = dflt\<rparr>"

text \<open>
  \<open>allocate\<close> claims the first free slot with a default payload and reports its index and
  generation; the caller then fills the payload in place through the returned pointer
  (\<open>slot_fill\<close>).
\<close>

definition slot_allocate :: "'a \<Rightarrow> 'a slot_table \<Rightarrow> (nat \<times> u16 \<times> 'a slot_table) option" where
  "slot_allocate dflt t =
     (case first_index (\<lambda>e. \<not> se_open e) t of
        None \<Rightarrow> None
      | Some i \<Rightarrow> Some (i, se_generation (t ! i), t[i := (t ! i)\<lparr>se_open := True, se_payload := dflt\<rparr>]))"

definition slot_fill :: "'a slot_table \<Rightarrow> nat \<Rightarrow> 'a \<Rightarrow> 'a slot_table" where
  "slot_fill t i v = t[i := (t ! i)\<lparr>se_payload := v\<rparr>]"

definition slot_resolve :: "'a slot_table \<Rightarrow> nat \<Rightarrow> u16 \<Rightarrow> 'a option" where
  "slot_resolve t i generation =
     (if i \<ge> length t then None
      else if \<not> se_open (t ! i) \<or> se_generation (t ! i) \<noteq> generation then None
      else Some (se_payload (t ! i)))"

definition slot_is_open :: "'a slot_table \<Rightarrow> nat \<Rightarrow> bool" where
  "slot_is_open t i \<longleftrightarrow> i < length t \<and> se_open (t ! i)"

definition slot_next_generation :: "u16 \<Rightarrow> u16" where
  "slot_next_generation g = (if g + 1 = 0 then 1 else g + 1)"

definition slot_release :: "'a \<Rightarrow> 'a slot_table \<Rightarrow> nat \<Rightarrow> ('a \<times> 'a slot_table) option" where
  "slot_release dflt t i =
     (if i \<ge> length t then None
      else if \<not> se_open (t ! i) then None
      else Some (se_payload (t ! i),
                 t[i := \<lparr>se_open = False, se_generation = slot_next_generation (se_generation (t ! i)),
                         se_payload = dflt\<rparr>]))"

definition slot_table_inv :: "nat \<Rightarrow> 'a slot_table \<Rightarrow> bool" where
  "slot_table_inv capacity t \<longleftrightarrow> length t = capacity \<and> (\<forall>e \<in> set t. se_generation e \<noteq> 0)"

text \<open>Claiming a slot and filling it, the only way clients use \<open>allocate\<close>.\<close>

definition slot_claim :: "'a \<Rightarrow> 'a slot_table \<Rightarrow> 'a \<Rightarrow> (nat \<times> u16 \<times> 'a slot_table) option" where
  "slot_claim dflt t v = map_option (\<lambda>(i, g, t'). (i, g, slot_fill t' i v)) (slot_allocate dflt t)"

section \<open>The interface\<close>

locale handle_table =
  fixes lookup :: "'t \<Rightarrow> nat \<Rightarrow> u16 \<Rightarrow> 'a option"
    and claim :: "'t \<Rightarrow> 'a \<Rightarrow> (nat \<times> u16 \<times> 't) option"
    and free :: "'t \<Rightarrow> nat \<Rightarrow> ('a \<times> 't) option"
    and inv :: "'t \<Rightarrow> bool"
  assumes claim_inv: "inv t \<Longrightarrow> claim t v = Some (i, g, t') \<Longrightarrow> inv t'"
    and free_inv: "inv t \<Longrightarrow> free t i = Some (v, t') \<Longrightarrow> inv t'"
    and claim_lookup: "inv t \<Longrightarrow> claim t v = Some (i, g, t') \<Longrightarrow> lookup t' i g = Some v"
    and claim_unused: "inv t \<Longrightarrow> claim t v = Some (i, g, t') \<Longrightarrow> lookup t i g' = None"
    and claim_frame: "inv t \<Longrightarrow> claim t v = Some (i, g, t') \<Longrightarrow> j \<noteq> i \<Longrightarrow> lookup t' j g' = lookup t j g'"
    and claim_only: "inv t \<Longrightarrow> claim t v = Some (i, g, t') \<Longrightarrow> lookup t' i g' \<noteq> None \<Longrightarrow> g' = g"
    and free_lookup: "inv t \<Longrightarrow> free t i = Some (v, t') \<Longrightarrow> lookup t' i g = None"
    and free_frame: "inv t \<Longrightarrow> free t i = Some (v, t') \<Longrightarrow> j \<noteq> i \<Longrightarrow> lookup t' j g = lookup t j g"
    and free_live: "inv t \<Longrightarrow> lookup t i g = Some v \<Longrightarrow> \<exists>t'. free t i = Some (v, t')"
    and free_bumps: "inv t \<Longrightarrow> lookup t i g = Some v \<Longrightarrow> free t i = Some (v, t1) \<Longrightarrow>
       claim t1 w = Some (i, g', t2) \<Longrightarrow> g' \<noteq> g"
begin

text \<open>A handle that was freed stays dead when its slot is handed out again.\<close>

lemma stale_after_reuse:
  assumes "inv t" "lookup t i g = Some v" "free t i = Some (v, t1)" "claim t1 w = Some (j, g', t2)"
  shows "lookup t2 i g = None"
proof (cases "j = i")
  case True
  with assms free_bumps have "g' \<noteq> g" by metis
  moreover have "inv t1" using assms free_inv by blast
  ultimately show ?thesis
    using claim_only assms(4) True by metis
next
  case False
  have "inv t1" using assms free_inv by blast
  with False assms(4) have "lookup t2 i g = lookup t1 i g" using claim_frame by metis
  then show ?thesis using free_lookup assms by metis
qed

text \<open>Live handles of other slots survive both operations.\<close>

lemma other_handle_kept:
  assumes "inv t" "lookup t j g = Some v" "claim t w = Some (i, g', t')"
  shows "lookup t' j g = Some v"
proof -
  have "j \<noteq> i" using claim_unused [OF assms(1,3)] assms(2) by (metis option.distinct(1))
  with assms show ?thesis using claim_frame by metis
qed

end

section \<open>The slot table implements the interface\<close>

lemma slot_next_generation_neq: "slot_next_generation g \<noteq> g" "slot_next_generation g \<noteq> 0"
proof -
  show "slot_next_generation g \<noteq> g"
    by (auto simp: slot_next_generation_def dest: arg_cong [of _ _ "\<lambda>x. x - g"])
  show "slot_next_generation g \<noteq> 0"
    by (simp add: slot_next_generation_def)
qed

lemma slot_claim_Some:
  "slot_claim dflt t v = Some (i, g, t') \<longleftrightarrow>
     first_index (\<lambda>e. \<not> se_open e) t = Some i \<and> g = se_generation (t ! i) \<and>
     t' = t[i := (t ! i)\<lparr>se_open := True, se_payload := v\<rparr>]"
  by (auto simp: slot_claim_def slot_allocate_def slot_fill_def split: option.splits
      dest: first_index_SomeD)

lemma slot_release_Some:
  "slot_release dflt t i = Some (v, t') \<longleftrightarrow>
     i < length t \<and> se_open (t ! i) \<and> v = se_payload (t ! i) \<and>
     t' = t[i := \<lparr>se_open = False, se_generation = slot_next_generation (se_generation (t ! i)),
                  se_payload = dflt\<rparr>]"
  by (auto simp: slot_release_def)

lemma slot_table_inv_new: "slot_table_inv n (slot_table_new n dflt)"
  by (simp add: slot_table_inv_def slot_table_new_def)

lemma slot_claim_inv: "slot_table_inv n t \<Longrightarrow> slot_claim dflt t v = Some (i, g, t') \<Longrightarrow> slot_table_inv n t'"
  by (auto simp: slot_table_inv_def slot_claim_Some dest!: first_index_SomeD
      set_update_subset_insert [THEN subsetD])

lemma slot_release_inv: "slot_table_inv n t \<Longrightarrow> slot_release dflt t i = Some (v, t') \<Longrightarrow> slot_table_inv n t'"
  by (auto simp: slot_table_inv_def slot_release_Some slot_next_generation_neq
      dest!: set_update_subset_insert [THEN subsetD])

lemma slot_resolve_Some:
  "slot_resolve t i g = Some v \<longleftrightarrow> i < length t \<and> se_open (t ! i) \<and> se_generation (t ! i) = g \<and> se_payload (t ! i) = v"
  by (auto simp: slot_resolve_def)

lemma slot_claim_free:
  "slot_claim dflt t v = Some (i, g, t') \<Longrightarrow> i < length t \<and> \<not> se_open (t ! i)"
  by (auto simp: slot_claim_Some dest: first_index_SomeD)

lemma slot_claim_resolve:
  "slot_claim dflt t v = Some (i, g, t') \<Longrightarrow>
   slot_resolve t' j g' = (if j = i then if g' = g then Some v else None else slot_resolve t j g')"
  using slot_claim_free [of dflt t v i g t'] by (auto simp: slot_claim_Some slot_resolve_def)

lemma slot_release_resolve:
  "slot_release dflt t i = Some (v, t') \<Longrightarrow>
   slot_resolve t' j g = (if j = i then None else slot_resolve t j g)"
  by (auto simp: slot_release_Some slot_resolve_def)

interpretation slot: handle_table slot_resolve "slot_claim dflt" "slot_release dflt" "slot_table_inv n"
proof (unfold_locales, goal_cases)
  case (1 t v i g t') then show ?case by (rule slot_claim_inv)
next
  case (2 t i v t') then show ?case by (rule slot_release_inv)
next
  case (4 t v i g t' g') then show ?case
    using slot_claim_free [of dflt t v i g t'] by (simp add: slot_resolve_def)
next
  case (9 t i g v) then show ?case by (simp add: slot_resolve_Some slot_release_Some)
next
  case (10 t i g v t1 w g' t2) then show ?case
    by (auto simp: slot_resolve_Some slot_release_Some slot_claim_Some slot_next_generation_neq)
qed (simp_all add: slot_claim_resolve slot_release_resolve split: if_splits)

end
