(* ===== verification/Capability.thy ===== *)
theory Capability
  imports Slot_Table Surface
begin

text \<open>
  The capability table, \<open>src/src/capability.cpp\<close>: eight processes with eight generation-checked
  slots each, the mask of services a process may open, and the handle encoding. Opening,
  granting and closing a surface handle also moves the reference count of the surface, so those
  operations act on the capability state and the surface state together. The main facts are
  that a handle resolves only for the process it was issued to, only until it is closed and
  only with rights it was issued with, and that the reference counts of the surfaces are
  exactly the numbers of open handles (plus the mappings counted by the caller).
\<close>

section \<open>State\<close>

abbreviation (input) kProcessLimit :: nat where "kProcessLimit \<equiv> 8"
abbreviation (input) kSlotsPerProcess :: nat where "kSlotsPerProcess \<equiv> 8"

abbreviation (input) CAPABILITY_SERVICE_CONSOLE :: u32 where "CAPABILITY_SERVICE_CONSOLE \<equiv> 1"
abbreviation (input) CAPABILITY_SERVICE_CLOCK :: u32 where "CAPABILITY_SERVICE_CLOCK \<equiv> 2"
abbreviation (input) CAPABILITY_SERVICE_PROCESS :: u32 where "CAPABILITY_SERVICE_PROCESS \<equiv> 3"
abbreviation (input) CAPABILITY_SERVICE_STORAGE :: u32 where "CAPABILITY_SERVICE_STORAGE \<equiv> 4"
abbreviation (input) CAPABILITY_SERVICE_FILE :: u32 where "CAPABILITY_SERVICE_FILE \<equiv> 5"
abbreviation (input) CAPABILITY_SERVICE_IPC :: u32 where "CAPABILITY_SERVICE_IPC \<equiv> 6"
abbreviation (input) CAPABILITY_SERVICE_DISPLAY :: u32 where "CAPABILITY_SERVICE_DISPLAY \<equiv> 7"
abbreviation (input) CAPABILITY_SERVICE_INPUT :: u32 where "CAPABILITY_SERVICE_INPUT \<equiv> 8"
abbreviation (input) CAPABILITY_SERVICE_SURFACE :: u32 where "CAPABILITY_SERVICE_SURFACE \<equiv> 9"
abbreviation (input) CAPABILITY_SERVICE_NETWORK :: u32 where "CAPABILITY_SERVICE_NETWORK \<equiv> 10"
abbreviation (input) CAPABILITY_SERVICE_AUDIO :: u32 where "CAPABILITY_SERVICE_AUDIO \<equiv> 11"

abbreviation (input) CAPABILITY_RIGHT_WRITE :: u32 where "CAPABILITY_RIGHT_WRITE \<equiv> 1"
abbreviation (input) CAPABILITY_RIGHT_QUERY :: u32 where "CAPABILITY_RIGHT_QUERY \<equiv> 2"
abbreviation (input) CAPABILITY_RIGHT_READ :: u32 where "CAPABILITY_RIGHT_READ \<equiv> 4"
abbreviation (input) CAPABILITY_RIGHT_OPEN :: u32 where "CAPABILITY_RIGHT_OPEN \<equiv> 8"
abbreviation (input) CAPABILITY_RIGHT_SEND :: u32 where "CAPABILITY_RIGHT_SEND \<equiv> 16"
abbreviation (input) CAPABILITY_RIGHT_RECEIVE :: u32 where "CAPABILITY_RIGHT_RECEIVE \<equiv> 32"

definition CAPABILITY_SERVICE_BIT :: "u32 \<Rightarrow> u32" where
  "CAPABILITY_SERVICE_BIT service = push_bit (unat service) 1"

record capability_payload =
  cp_service :: u32
  cp_rights :: u32
  cp_object_id :: u32

definition capability_payload_default :: capability_payload where
  "capability_payload_default = \<lparr>cp_service = 0, cp_rights = 0, cp_object_id = 0\<rparr>"

record cap_state =
  cs_tables :: "capability_payload slot_table list"
  cs_opened_count :: u64
  cs_closed_count :: u64
  cs_denied_count :: u64
  cs_assigned :: "u32 list"

section \<open>Handles\<close>

definition make_handle :: "u32 \<Rightarrow> u32 \<Rightarrow> u16 \<Rightarrow> u64" where
  "make_handle pid slot generation = push_bit 16 (ucast generation) OR push_bit 8 (ucast pid) OR ucast slot"

definition decode_handle :: "u64 \<Rightarrow> (u32 \<times> u32 \<times> u16) option" where
  "decode_handle handle =
     (if drop_bit 32 handle \<noteq> 0 then None
      else let slot = ucast (handle AND 0xFF); pid = ucast (drop_bit 8 handle AND 0xFF);
               generation = ucast (drop_bit 16 handle) in
           if unat (pid :: u32) < kProcessLimit \<and> unat (slot :: u32) < kSlotsPerProcess \<and> (generation :: u16) \<noteq> 0
           then Some (pid, slot, generation) else None)"

section \<open>Operations\<close>

definition service_rights :: "u32 \<Rightarrow> u32" where
  "service_rights service =
     (if service = CAPABILITY_SERVICE_CONSOLE then CAPABILITY_RIGHT_WRITE
      else if service = CAPABILITY_SERVICE_CLOCK \<or> service = CAPABILITY_SERVICE_PROCESS then CAPABILITY_RIGHT_QUERY
      else if service = CAPABILITY_SERVICE_STORAGE then CAPABILITY_RIGHT_OPEN OR CAPABILITY_RIGHT_QUERY
      else if service = CAPABILITY_SERVICE_DISPLAY then CAPABILITY_RIGHT_WRITE OR CAPABILITY_RIGHT_QUERY
      else if service = CAPABILITY_SERVICE_INPUT then CAPABILITY_RIGHT_READ OR CAPABILITY_RIGHT_QUERY
      else if service = CAPABILITY_SERVICE_SURFACE then CAPABILITY_RIGHT_OPEN OR CAPABILITY_RIGHT_QUERY
      else if service = CAPABILITY_SERVICE_NETWORK then CAPABILITY_RIGHT_READ OR CAPABILITY_RIGHT_QUERY
      else if service = CAPABILITY_SERVICE_AUDIO then CAPABILITY_RIGHT_WRITE OR CAPABILITY_RIGHT_QUERY
      else 0)"

definition cap_deny :: "cap_state \<Rightarrow> cap_state" where
  "cap_deny c = c\<lparr>cs_denied_count := cs_denied_count c + 1\<rparr>"

definition allocate_slot :: "cap_state \<Rightarrow> u32 \<Rightarrow> u32 \<Rightarrow> u32 \<Rightarrow> u32 \<Rightarrow> u64 \<times> cap_state" where
  "allocate_slot c pid service rights object_id =
     (case slot_allocate capability_payload_default (cs_tables c ! unat pid) of
        None \<Rightarrow> (UINT64_MAX, cap_deny c)
      | Some (slot, generation, t) \<Rightarrow>
          (make_handle pid (of_nat slot) generation,
           c\<lparr>cs_tables := (cs_tables c)[unat pid := slot_fill t slot
                \<lparr>cp_service = service, cp_rights = rights, cp_object_id = object_id\<rparr>],
             cs_opened_count := cs_opened_count c + 1\<rparr>))"

definition capabilities_init :: cap_state where
  "capabilities_init =
     \<lparr>cs_tables = replicate kProcessLimit (slot_table_new kSlotsPerProcess capability_payload_default),
      cs_opened_count = 0, cs_closed_count = 0, cs_denied_count = 0,
      cs_assigned = (replicate kProcessLimit 0)[1 := UINT32_MAX, 2 := UINT32_MAX]\<rparr>"

definition capability_assign_services :: "cap_state \<Rightarrow> u32 \<Rightarrow> u32 \<Rightarrow> bool \<times> cap_state" where
  "capability_assign_services c pid service_mask =
     (if pid = 0 \<or> unat pid \<ge> kProcessLimit then (False, c)
      else (True, c\<lparr>cs_assigned := (cs_assigned c)[unat pid := service_mask]\<rparr>))"

definition capability_open :: "cap_state \<Rightarrow> u32 \<Rightarrow> u32 \<Rightarrow> u64 \<times> cap_state" where
  "capability_open c pid service =
     (let rights = service_rights service in
      if pid = 0 \<or> unat pid \<ge> kProcessLimit \<or> rights = 0 \<or>
         (cs_assigned c ! unat pid) AND CAPABILITY_SERVICE_BIT service = 0
      then (UINT64_MAX, cap_deny c)
      else allocate_slot c pid service rights 0)"

definition capability_open_file :: "cap_state \<Rightarrow> u32 \<Rightarrow> u32 \<Rightarrow> u64 \<times> cap_state" where
  "capability_open_file c pid object_id =
     (if pid = 0 \<or> unat pid \<ge> kProcessLimit \<or> object_id = 0 then (UINT64_MAX, cap_deny c)
      else allocate_slot c pid CAPABILITY_SERVICE_FILE
             (CAPABILITY_RIGHT_READ OR CAPABILITY_RIGHT_WRITE OR CAPABILITY_RIGHT_QUERY) object_id)"

definition capability_open_ipc :: "cap_state \<Rightarrow> u32 \<Rightarrow> u32 \<Rightarrow> u32 \<Rightarrow> u64 \<times> cap_state" where
  "capability_open_ipc c pid channel_id rights =
     (let allowed = CAPABILITY_RIGHT_SEND OR CAPABILITY_RIGHT_RECEIVE OR CAPABILITY_RIGHT_QUERY in
      if pid = 0 \<or> unat pid \<ge> kProcessLimit \<or> channel_id = 0 \<or> rights = 0 \<or>
         rights AND NOT allowed \<noteq> 0 \<or>
         (cs_assigned c ! unat pid) AND CAPABILITY_SERVICE_BIT CAPABILITY_SERVICE_IPC = 0
      then (UINT64_MAX, cap_deny c)
      else allocate_slot c pid CAPABILITY_SERVICE_IPC rights channel_id)"

text \<open>
  The common tail of \<open>capability_open_surface\<close> and \<open>capability_grant\<close>: retain the surface, take a
  slot, and give the reference back when no slot is free.
\<close>

definition retain_and_allocate ::
  "cap_state \<Rightarrow> surface_state \<Rightarrow> u32 \<Rightarrow> u32 \<Rightarrow> u32 \<Rightarrow> u64 \<times> cap_state \<times> surface_state" where
  "retain_and_allocate c s pid rights surface_id =
     (case surface_retain s surface_id of
        (False, s') \<Rightarrow> (UINT64_MAX, cap_deny c, s')
      | (True, s') \<Rightarrow>
          (let (handle, c') = allocate_slot c pid CAPABILITY_SERVICE_SURFACE rights surface_id in
           if handle = UINT64_MAX then (handle, c', snd (surface_release s' surface_id))
           else (handle, c', s')))"

definition capability_open_surface ::
  "cap_state \<Rightarrow> surface_state \<Rightarrow> u32 \<Rightarrow> u32 \<Rightarrow> u32 \<Rightarrow> u64 \<times> cap_state \<times> surface_state" where
  "capability_open_surface c s pid surface_id rights =
     (let allowed = CAPABILITY_RIGHT_READ OR CAPABILITY_RIGHT_WRITE OR CAPABILITY_RIGHT_QUERY in
      if pid = 0 \<or> unat pid \<ge> kProcessLimit \<or> surface_id = 0 \<or> rights = 0 \<or>
         rights AND NOT allowed \<noteq> 0 \<or>
         (cs_assigned c ! unat pid) AND CAPABILITY_SERVICE_BIT CAPABILITY_SERVICE_SURFACE = 0
      then (UINT64_MAX, cap_deny c, s)
      else retain_and_allocate c s pid rights surface_id)"

definition capability_resolve_object ::
  "cap_state \<Rightarrow> u32 \<Rightarrow> u64 \<Rightarrow> u32 \<Rightarrow> (u32 \<times> u32) option \<times> cap_state" where
  "capability_resolve_object c caller_pid handle required_right =
     (case decode_handle handle of
        None \<Rightarrow> (None, cap_deny c)
      | Some (owner, slot, generation) \<Rightarrow>
          (if owner \<noteq> caller_pid then (None, cap_deny c)
           else case slot_resolve (cs_tables c ! unat owner) (unat slot) generation of
             None \<Rightarrow> (None, cap_deny c)
           | Some grant \<Rightarrow>
               (if cp_rights grant AND required_right \<noteq> required_right then (None, cap_deny c)
                else (Some (cp_service grant, cp_object_id grant), c))))"

definition capability_resolve :: "cap_state \<Rightarrow> u32 \<Rightarrow> u64 \<Rightarrow> u32 \<Rightarrow> u32 option \<times> cap_state" where
  "capability_resolve c caller_pid handle required_right =
     (let (r, c') = capability_resolve_object c caller_pid handle required_right in (map_option fst r, c'))"

definition capability_grant ::
  "cap_state \<Rightarrow> surface_state \<Rightarrow> u32 \<Rightarrow> u64 \<Rightarrow> u32 \<Rightarrow> u32 \<Rightarrow> u64 \<times> cap_state \<times> surface_state" where
  "capability_grant c s source_pid source_handle target_pid rights =
     (if target_pid = 0 \<or> unat target_pid \<ge> kProcessLimit \<or> rights = 0 then (UINT64_MAX, cap_deny c, s)
      else case capability_resolve_object c source_pid source_handle rights of
        (None, c1) \<Rightarrow> (UINT64_MAX, cap_deny c1, s)
      | (Some (service, object_id), c1) \<Rightarrow>
          (if service \<noteq> CAPABILITY_SERVICE_SURFACE \<or>
              rights AND NOT (CAPABILITY_RIGHT_READ OR CAPABILITY_RIGHT_QUERY) \<noteq> 0 \<or>
              (cs_assigned c1 ! unat target_pid) AND CAPABILITY_SERVICE_BIT service = 0
           then (UINT64_MAX, cap_deny c1, s)
           else retain_and_allocate c1 s target_pid rights object_id))"

text \<open>
  The common tail of \<open>capability_close\<close> and \<open>capabilities_close_all\<close>: free a slot, count it and
  drop the surface reference it held.
\<close>

definition release_slot :: "cap_state \<Rightarrow> surface_state \<Rightarrow> nat \<Rightarrow> nat \<Rightarrow> bool \<times> cap_state \<times> surface_state" where
  "release_slot c s pid slot =
     (case slot_release capability_payload_default (cs_tables c ! pid) slot of
        None \<Rightarrow> (False, c, s)
      | Some (released, t) \<Rightarrow>
          (True, c\<lparr>cs_tables := (cs_tables c)[pid := t], cs_closed_count := cs_closed_count c + 1\<rparr>,
           if cp_service released = CAPABILITY_SERVICE_SURFACE \<and> cp_object_id released \<noteq> 0
           then snd (surface_release s (cp_object_id released)) else s))"

definition capability_close :: "cap_state \<Rightarrow> surface_state \<Rightarrow> u32 \<Rightarrow> u64 \<Rightarrow> bool \<times> cap_state \<times> surface_state" where
  "capability_close c s caller_pid handle =
     (case capability_resolve c caller_pid handle 0 of
        (None, c1) \<Rightarrow> (False, c1, s)
      | (Some _, c1) \<Rightarrow> release_slot c1 s (unat caller_pid) (unat (handle AND 0xFF)))"

text \<open>The loop of \<open>capabilities_close_all\<close> over the remaining slots.\<close>

fun close_slots :: "nat list \<Rightarrow> nat \<Rightarrow> cap_state \<times> surface_state \<Rightarrow> cap_state \<times> surface_state" where
  "close_slots [] pid (c, s) = (c, s)"
| "close_slots (slot # slots) pid (c, s) =
     (if \<not> slot_is_open (cs_tables c ! pid) slot then close_slots slots pid (c, s)
      else close_slots slots pid (snd (release_slot c s pid slot)))"

definition capabilities_close_all :: "cap_state \<Rightarrow> surface_state \<Rightarrow> u32 \<Rightarrow> cap_state \<times> surface_state" where
  "capabilities_close_all c s pid =
     (if pid = 0 \<or> unat pid \<ge> kProcessLimit then (c, s)
      else let (c', s') = close_slots [0..<kSlotsPerProcess] (unat pid) (c, s) in
           (c'\<lparr>cs_assigned := (cs_assigned c')[unat pid := 0]\<rparr>, s'))"

definition capabilities_live :: "cap_state \<Rightarrow> nat" where
  "capabilities_live c = sum_list (map (count_if se_open) (tl (cs_tables c)))"

section \<open>Well-formedness\<close>

definition cap_inv :: "cap_state \<Rightarrow> bool" where
  "cap_inv c \<longleftrightarrow> length (cs_tables c) = kProcessLimit \<and> length (cs_assigned c) = kProcessLimit \<and>
     (\<forall>t \<in> set (cs_tables c). slot_table_inv kSlotsPerProcess t)"

text \<open>The open handles on one surface, over all processes.\<close>

definition is_surface_ref :: "u32 \<Rightarrow> capability_payload slot_entry \<Rightarrow> bool" where
  "is_surface_ref oid e \<longleftrightarrow> se_open e \<and> cp_service (se_payload e) = CAPABILITY_SERVICE_SURFACE \<and>
     cp_object_id (se_payload e) = oid"

definition cap_refs :: "cap_state \<Rightarrow> u32 \<Rightarrow> nat" where
  "cap_refs c oid = (if oid = 0 then 0 else sum_list (map (count_if (is_surface_ref oid)) (cs_tables c)))"

text \<open>The reference count the surface table keeps, 0 for an id that is not live.\<close>

definition surface_refs :: "surface_state \<Rightarrow> u32 \<Rightarrow> nat" where
  "surface_refs s oid =
     (case surface_resolve s oid of None \<Rightarrow> 0 | Some i \<Rightarrow> unat (so_references (surf_objects s ! i)))"

text \<open>
  Reference-count agreement: every surface's count is the number of handles on it plus the
  number \<open>extra\<close> of references the caller holds by other means (page mappings).
\<close>

definition refs_agree :: "cap_state \<Rightarrow> surface_state \<Rightarrow> (u32 \<Rightarrow> nat) \<Rightarrow> bool" where
  "refs_agree c s extra \<longleftrightarrow> (\<forall>oid. surface_refs s oid = cap_refs c oid + extra oid)"

definition surfaces_referenced :: "surface_state \<Rightarrow> bool" where
  "surfaces_referenced s \<longleftrightarrow> (\<forall>oid. surface_resolve s oid \<noteq> None \<longrightarrow> surface_refs s oid > 0)"

section \<open>Handle encoding\<close>

lemma bit_below:
  fixes x :: "'a::len word"
  assumes "unat x < 2 ^ k" "bit x n"
  shows "n < k"
proof -
  have "take_bit k x = x"
    using assms(1) by (intro word_unat_eq_iff [THEN iffD2]) (simp add: unsigned_take_bit_eq take_bit_nat_eq_self)
  with assms(2) show ?thesis by (metis bit_take_bit_iff)
qed

lemma decode_make_handle:
  assumes "unat pid < kProcessLimit" "unat slot < kSlotsPerProcess" "generation \<noteq> 0"
  shows "decode_handle (make_handle pid slot generation) = Some (pid, slot, generation)"
proof -
  have b: "bit pid n \<Longrightarrow> n < 3" "bit slot n \<Longrightarrow> n < 3" for n
    using assms bit_below [of pid 3 n] bit_below [of slot 3 n] by simp_all
  have ff: "(0xFF :: u64) = mask 8" by (simp add: mask_eq_exp_minus_1)
  let ?h = "make_handle pid slot generation"
  have hi: "drop_bit 32 ?h = 0"
    by (rule bit_word_eqI) (auto simp: make_handle_def bit_simps dest: b bit_imp_le_length)
  have p: "ucast (drop_bit 8 ?h AND 0xFF) = pid"
    by (rule bit_word_eqI) (auto simp: ff make_handle_def bit_simps dest: b bit_imp_le_length)
  have sl: "ucast (?h AND 0xFF) = slot"
    by (rule bit_word_eqI) (auto simp: ff make_handle_def bit_simps dest: b)
  have g: "ucast (drop_bit 16 ?h) = generation"
    by (rule bit_word_eqI) (auto simp: make_handle_def bit_simps dest: b)
  show ?thesis
    using assms by (simp add: decode_handle_def Let_def hi p sl g)
qed

lemma decode_UINT64_MAX [simp]: "decode_handle UINT64_MAX = None"
  by (simp add: decode_handle_def)

lemma make_handle_neq_MAX:
  "unat pid < kProcessLimit \<Longrightarrow> unat slot < kSlotsPerProcess \<Longrightarrow> generation \<noteq> 0 \<Longrightarrow>
   make_handle pid slot generation \<noteq> UINT64_MAX"
  using decode_make_handle decode_UINT64_MAX by (metis option.distinct(1))

section \<open>The invariant is kept\<close>

lemma cap_invD:
  assumes "cap_inv c" "i < kProcessLimit"
  shows "slot_table_inv kSlotsPerProcess (cs_tables c ! i)" "length (cs_tables c ! i) = kSlotsPerProcess"
  using assms by (auto simp: cap_inv_def slot_table_inv_def all_set_conv_all_nth)

lemma cap_inv_tables:
  "cap_inv c \<Longrightarrow> i < kProcessLimit \<Longrightarrow> slot_table_inv kSlotsPerProcess t \<Longrightarrow>
   cap_inv (c\<lparr>cs_tables := (cs_tables c)[i := t]\<rparr>)"
  by (auto simp: cap_inv_def dest!: set_update_subset_insert [THEN subsetD])

lemma cap_inv_counters [simp]:
  "cap_inv (c\<lparr>cs_opened_count := n\<rparr>) = cap_inv c" "cap_inv (c\<lparr>cs_closed_count := n\<rparr>) = cap_inv c"
  "cap_inv (c\<lparr>cs_denied_count := n\<rparr>) = cap_inv c" "cap_inv (cap_deny c) = cap_inv c"
  by (simp_all add: cap_inv_def cap_deny_def)

lemma cap_deny_simps [simp]:
  "cs_tables (cap_deny c) = cs_tables c" "cs_assigned (cap_deny c) = cs_assigned c"
  by (simp_all add: cap_deny_def)

lemma capabilities_init_inv: "cap_inv capabilities_init"
  by (simp add: cap_inv_def capabilities_init_def slot_table_inv_new)

text \<open>Allocation is a claim in the process's own table.\<close>

lemma allocate_slot_eq:
  "allocate_slot c pid service rights oid =
     (case slot_claim capability_payload_default (cs_tables c ! unat pid)
             \<lparr>cp_service = service, cp_rights = rights, cp_object_id = oid\<rparr> of
        None \<Rightarrow> (UINT64_MAX, cap_deny c)
      | Some (i, g, t) \<Rightarrow> (make_handle pid (of_nat i) g,
          c\<lparr>cs_tables := (cs_tables c)[unat pid := t], cs_opened_count := cs_opened_count c + 1\<rparr>))"
  by (auto simp: allocate_slot_def slot_claim_def split: option.splits)

lemma claim_in_process:
  assumes "cap_inv c" "unat pid < kProcessLimit"
    and "slot_claim capability_payload_default (cs_tables c ! unat pid) v = Some (i, g, t)"
  shows "i < kSlotsPerProcess" "g \<noteq> 0" "unat (of_nat i :: u32) = i" "\<not> se_open (cs_tables c ! unat pid ! i)"
    "slot_table_inv kSlotsPerProcess t"
proof -
  have inv: "slot_table_inv kSlotsPerProcess (cs_tables c ! unat pid)" using cap_invD assms by blast
  show i: "i < kSlotsPerProcess"
    using slot_claim_free [OF assms(3)] inv by (simp add: slot_table_inv_def)
  show "\<not> se_open (cs_tables c ! unat pid ! i)" using slot_claim_free [OF assms(3)] by simp
  show "g \<noteq> 0"
    using assms(3) inv i by (auto simp: slot_claim_Some slot_table_inv_def)
  show "unat (of_nat i :: u32) = i" using i by (simp add: unat_of_nat_u32)
  show "slot_table_inv kSlotsPerProcess t" using slot_claim_inv [OF inv assms(3)] .
qed

lemma allocate_slot_cases:
  assumes "cap_inv c" "unat pid < kProcessLimit" "allocate_slot c pid service rights oid = (h, c')"
  obtains (full) "h = UINT64_MAX" "c' = cap_deny c"
  | (claimed) i g t where "slot_claim capability_payload_default (cs_tables c ! unat pid)
        \<lparr>cp_service = service, cp_rights = rights, cp_object_id = oid\<rparr> = Some (i, g, t)"
      "h = make_handle pid (of_nat i) g" "h \<noteq> UINT64_MAX" "decode_handle h = Some (pid, of_nat i, g)"
      "c' = c\<lparr>cs_tables := (cs_tables c)[unat pid := t], cs_opened_count := cs_opened_count c + 1\<rparr>"
proof (cases "slot_claim capability_payload_default (cs_tables c ! unat pid)
        \<lparr>cp_service = service, cp_rights = rights, cp_object_id = oid\<rparr>")
  case None
  with assms(3) full show ?thesis by (simp add: allocate_slot_eq)
next
  case (Some x)
  then obtain i g t where x: "x = (i, g, t)" by (metis prod_cases3)
  note k = claim_in_process [OF assms(1,2) Some [unfolded x]]
  show ?thesis
    using claimed [OF Some [unfolded x]] assms(2,3) Some x k
    by (simp add: allocate_slot_eq decode_make_handle make_handle_neq_MAX)
qed

lemma allocate_slot_inv:
  "cap_inv c \<Longrightarrow> unat pid < kProcessLimit \<Longrightarrow> cap_inv (snd (allocate_slot c pid service rights oid))"
proof (cases "allocate_slot c pid service rights oid")
  case (Pair h c')
  assume a: "cap_inv c" "unat pid < kProcessLimit"
  from a Pair show ?thesis
  proof (cases rule: allocate_slot_cases)
    case (claimed i g t)
    with a Pair show ?thesis
      using claim_in_process(5) [OF a claimed(1)] cap_inv_tables [OF a, of t] by simp
  qed (use a Pair in simp)
qed

lemma release_slot_inv:
  "cap_inv c \<Longrightarrow> pid < kProcessLimit \<Longrightarrow> release_slot c s pid slot = (b, c', s') \<Longrightarrow> cap_inv c'"
proof -
  assume a: "cap_inv c" "pid < kProcessLimit" "release_slot c s pid slot = (b, c', s')"
  have "slot_table_inv kSlotsPerProcess t"
    if "slot_release capability_payload_default (cs_tables c ! pid) slot = Some (v, t)" for v t
    using slot_release_inv [OF cap_invD(1) [OF a(1,2)] that] .
  with a show ?thesis
    by (auto simp: release_slot_def intro: cap_inv_tables split: option.splits)
qed

lemma close_slots_inv:
  "cap_inv c \<Longrightarrow> pid < kProcessLimit \<Longrightarrow> close_slots slots pid (c, s) = (c', s') \<Longrightarrow> cap_inv c'"
proof (induction slots pid "(c, s)" arbitrary: c s rule: close_slots.induct)
  case (2 slot slots pid c s)
  then show ?case
    by (cases "release_slot c s pid slot") (auto split: if_splits dest: release_slot_inv)
qed simp

lemma capability_resolve_object_state:
  "snd (capability_resolve_object c pid h r) = c \<or> snd (capability_resolve_object c pid h r) = cap_deny c"
  by (auto simp: capability_resolve_object_def split: option.splits prod.splits)

lemma capability_resolve_object_Some:
  "capability_resolve_object c pid h r = (Some (service, oid), c') \<longleftrightarrow>
     c' = c \<and> (\<exists>slot g p. decode_handle h = Some (pid, slot, g) \<and>
       slot_resolve (cs_tables c ! unat pid) (unat slot) g = Some p \<and>
       cp_rights p AND r = r \<and> cp_service p = service \<and> cp_object_id p = oid)"
  by (auto simp: capability_resolve_object_def split: option.splits prod.splits if_splits)

section \<open>Reference counts\<close>

lemma surface_retain_True:
  assumes "surface_inv s" "surface_retain s oid = (True, s')"
  shows "surface_refs s' x = surface_refs s x + (if x = oid then 1 else 0)"
    and "surface_resolve s' x = surface_resolve s x" and "surface_inv s'"
proof -
  from assms(2) obtain i where i: "surface_resolve s oid = Some i"
    and m: "so_references (surf_objects s ! i) \<noteq> UINT32_MAX"
    and s': "s' = s\<lparr>surf_objects := (surf_objects s)[i := (surf_objects s ! i)\<lparr>
        so_references := so_references (surf_objects s ! i) + 1\<rparr>]\<rparr>"
    by (auto simp: surface_retain_def Let_def split: option.splits if_splits)
  have il: "i < length (surf_objects s)" using i assms(1) by (simp add: surface_resolve_Some)
  have act: "so_active (surf_objects s' ! j) = so_active (surf_objects s ! j)" for j
    using il by (cases "j = i") (simp_all add: s')
  show r: "surface_resolve s' x = surface_resolve s x" for x
    by (simp add: surface_resolve_def act)
  have u: "unat (so_references (surf_objects s ! i) + 1) = unat (so_references (surf_objects s ! i)) + 1"
    using m by (metis Suc_eq_plus1 add_eq_0_iff unatSuc add.commute)
  show "surface_refs s' x = surface_refs s x + (if x = oid then 1 else 0)"
  proof (cases "surface_resolve s x")
    case (Some j)
    then have "(j = i) = (x = oid)" using i by (auto simp: surface_resolve_Some of_nat_inj_u32)
    with Some il u show ?thesis
      by (auto simp: surface_refs_def r) (auto simp: s')
  next
    case None
    then show ?thesis using i by (auto simp: surface_refs_def r)
  qed
  show "surface_inv s'" using surface_retain_inv [OF assms(1), of oid] assms(2) by simp
qed

lemma surface_release_live:
  assumes "surface_inv s" "surface_refs s oid > 0"
  defines "s' \<equiv> snd (surface_release s oid)"
  shows "surface_refs s' x = surface_refs s x - (if x = oid then 1 else 0)"
    and "surface_resolve s' x = (if x = oid \<and> surface_refs s oid = 1 then None else surface_resolve s x)"
    and "surface_inv s'"
proof -
  from assms(2) obtain i where i: "surface_resolve s oid = Some i"
    and pos: "so_references (surf_objects s ! i) \<noteq> 0"
    by (auto simp: surface_refs_def unat_gt_0 split: option.splits)
  let ?r = "so_references (surf_objects s ! i) - 1"
  have il: "i < length (surf_objects s)" "i < SURFACE_LIMIT" using i assms(1) by (simp_all add: surface_resolve_Some)
  have u: "unat ?r = unat (so_references (surf_objects s ! i)) - 1" using pos by (rule unat_dec_u32)
  have one: "surface_refs s oid = 1 \<longleftrightarrow> ?r = 0"
    using i by (simp add: surface_refs_def) (simp add: word_unat_eq_iff)
  have obj: "surf_objects s' = (surf_objects s)[i := if ?r = 0 then surface_object_zero
      else (surf_objects s ! i)\<lparr>so_references := ?r\<rparr>]"
    using i pos by (simp add: s'_def surface_release_def Let_def clear_object_def)
  show r: "surface_resolve s' x = (if x = oid \<and> surface_refs s oid = 1 then None else surface_resolve s x)" for x
  proof (cases "surface_resolve s x")
    case (Some j)
    then have ji: "(j = i) = (x = oid)" and j: "j < SURFACE_LIMIT" "x = of_nat j + 1" "so_active (surf_objects s ! j)"
      using i by (auto simp: surface_resolve_Some of_nat_inj_u32)
    show ?thesis
    proof (cases "j = i")
      case True
      have "unat x = Suc i" "x \<noteq> 0" using Some True unat_of_nat_u32 [of "Suc i"] il
        by (auto simp: surface_resolve_Some add.commute unat_gt_0)
      with Some il j True ji show ?thesis
        unfolding one by (simp add: surface_resolve_def obj)
    next
      case False
      with ji Some j have "surface_resolve s' x = Some j" "x \<noteq> oid"
        by (simp_all add: surface_resolve_Some obj)
      with Some show ?thesis by simp
    qed
  next
    case None
    have "so_active (surf_objects s' ! j) \<Longrightarrow> so_active (surf_objects s ! j)" for j
      using il i by (cases "j = i") (auto simp: obj surface_resolve_Some split: if_splits)
    with None have "surface_resolve s' x = None" by (auto simp: surface_resolve_None)
    with None show ?thesis by simp
  qed
  show "surface_refs s' x = surface_refs s x - (if x = oid then 1 else 0)"
  proof (cases "surface_resolve s x")
    case (Some j)
    then have ji: "(j = i) = (x = oid)" using i by (auto simp: surface_resolve_Some of_nat_inj_u32)
    with Some one il u show ?thesis
      by (auto simp: surface_refs_def r obj)
  next
    case None
    then show ?thesis by (simp add: surface_refs_def r)
  qed
  show "surface_inv s'" unfolding s'_def by (rule surface_release_inv [OF assms(1)])
qed

lemma cap_refs_tables:
  assumes "cap_inv c" "pid < kProcessLimit" "oid \<noteq> 0"
  shows "cap_refs (c\<lparr>cs_tables := (cs_tables c)[pid := t]\<rparr>) oid + count_if (is_surface_ref oid) (cs_tables c ! pid) =
    cap_refs c oid + count_if (is_surface_ref oid) t"
proof -
  have l: "pid < length (map (count_if (is_surface_ref oid)) (cs_tables c))"
    using assms by (simp add: cap_inv_def)
  then have "map (count_if (is_surface_ref oid)) (cs_tables c) ! pid \<le>
      sum_list (map (count_if (is_surface_ref oid)) (cs_tables c))"
    by (rule elem_le_sum_list)
  with l show ?thesis
    using assms by (simp add: cap_refs_def map_update sum_list_update)
qed

lemma cap_refs_counters [simp]:
  "cap_refs (c\<lparr>cs_opened_count := n\<rparr>) = cap_refs c" "cap_refs (c\<lparr>cs_closed_count := n\<rparr>) = cap_refs c"
  "cap_refs (c\<lparr>cs_denied_count := n\<rparr>) = cap_refs c" "cap_refs (cap_deny c) = cap_refs c"
  "cap_refs (c\<lparr>cs_assigned := a\<rparr>) = cap_refs c"
  by (auto simp: cap_refs_def cap_deny_def fun_eq_iff)

lemma cap_refs_claim:
  assumes inv: "cap_inv c" "unat pid < kProcessLimit"
    and cl: "slot_claim capability_payload_default (cs_tables c ! unat pid)
        \<lparr>cp_service = service, cp_rights = rights, cp_object_id = oid\<rparr> = Some (i, g, t)"
  shows "cap_refs (c\<lparr>cs_tables := (cs_tables c)[unat pid := t]\<rparr>) x =
    cap_refs c x + (if service = CAPABILITY_SERVICE_SURFACE \<and> x = oid \<and> oid \<noteq> 0 then 1 else 0)"
proof (cases "x = 0")
  case False
  note k = claim_in_process [OF inv cl]
  have il: "i < length (cs_tables c ! unat pid)" using k(1) cap_invD(2) [OF inv] by simp
  have t: "t = (cs_tables c ! unat pid)[i := (cs_tables c ! unat pid ! i)\<lparr>se_open := True, se_payload :=
      \<lparr>cp_service = service, cp_rights = rights, cp_object_id = oid\<rparr>\<rparr>]"
    using cl by (simp add: slot_claim_Some)
  have "count_if (is_surface_ref x) t = count_if (is_surface_ref x) (cs_tables c ! unat pid) +
      (if service = CAPABILITY_SERVICE_SURFACE \<and> x = oid then 1 else 0)"
    using count_if_update [OF il, of "is_surface_ref x"] k(4)
    unfolding t by (simp add: is_surface_ref_def split: if_splits)
  with cap_refs_tables [OF inv False, of t] False show ?thesis by auto
qed (simp add: cap_refs_def)

lemma cap_refs_release:
  assumes inv: "cap_inv c" "pid < kProcessLimit"
    and rl: "slot_release capability_payload_default (cs_tables c ! pid) slot = Some (v, t)"
  shows "cap_refs (c\<lparr>cs_tables := (cs_tables c)[pid := t]\<rparr>) x +
      (if cp_service v = CAPABILITY_SERVICE_SURFACE \<and> x = cp_object_id v \<and> x \<noteq> 0 then 1 else 0) = cap_refs c x"
proof (cases "x = 0")
  case False
  have il: "slot < length (cs_tables c ! pid)" and op: "se_open (cs_tables c ! pid ! slot)"
    and v: "v = se_payload (cs_tables c ! pid ! slot)"
    and t: "t = (cs_tables c ! pid)[slot := \<lparr>se_open = False,
       se_generation = slot_next_generation (se_generation (cs_tables c ! pid ! slot)),
       se_payload = capability_payload_default\<rparr>]"
    using rl by (auto simp: slot_release_Some)
  have "count_if (is_surface_ref x) t +
      (if cp_service v = CAPABILITY_SERVICE_SURFACE \<and> x = cp_object_id v then 1 else 0) =
      count_if (is_surface_ref x) (cs_tables c ! pid)"
    using count_if_update [OF il, of "is_surface_ref x" "\<lparr>se_open = False,
       se_generation = slot_next_generation (se_generation (cs_tables c ! pid ! slot)),
       se_payload = capability_payload_default\<rparr>"] op
    unfolding t v by (auto simp: is_surface_ref_def split: if_splits)
  with cap_refs_tables [OF inv False, of t] False show ?thesis by auto
qed (simp add: cap_refs_def)

section \<open>The joint invariant of capabilities and surfaces\<close>

definition caps_ok :: "cap_state \<Rightarrow> surface_state \<Rightarrow> (u32 \<Rightarrow> nat) \<Rightarrow> bool" where
  "caps_ok c s extra \<longleftrightarrow> cap_inv c \<and> surface_inv s \<and> refs_agree c s extra"

lemma caps_ok_deny [simp]: "caps_ok (cap_deny c) s extra = caps_ok c s extra"
  by (simp add: caps_ok_def refs_agree_def)

text \<open>A new handle on a surface that was just retained.\<close>

lemma allocate_slot_other:
  assumes "caps_ok c s extra" "unat pid < kProcessLimit"
    and "service \<noteq> CAPABILITY_SERVICE_SURFACE \<or> oid = 0"
    and "allocate_slot c pid service rights oid = (h, c')"
  shows "caps_ok c' s extra"
proof -
  have c: "cap_inv c" using assms(1) by (simp add: caps_ok_def)
  from c assms(2,4) show ?thesis
  proof (cases rule: allocate_slot_cases)
    case (claimed i g t)
    with assms allocate_slot_inv [OF c assms(2), of service rights oid] show ?thesis
      by (auto simp: caps_ok_def refs_agree_def cap_refs_claim [OF c assms(2) claimed(1)])
  qed (use assms in simp)
qed

lemma retain_then_allocate:
  assumes ok: "caps_ok c s extra" and pid: "unat pid < kProcessLimit" and oid: "oid \<noteq> 0"
    and r: "surface_retain s oid = (True, s')"
    and a: "allocate_slot c pid CAPABILITY_SERVICE_SURFACE rights oid = (h, c')"
  shows "caps_ok c' (if h = UINT64_MAX then snd (surface_release s' oid) else s') extra"
    and "surfaces_referenced s \<Longrightarrow> surfaces_referenced (if h = UINT64_MAX then snd (surface_release s' oid) else s')"
proof -
  have inv: "cap_inv c" "surface_inv s" and ag: "\<And>x. surface_refs s x = cap_refs c x + extra x"
    using ok by (auto simp: caps_ok_def refs_agree_def)
  note ret = surface_retain_True [OF inv(2) r]
  have pos: "surface_refs s' oid > 0" using ret(1) by simp
  note rel = surface_release_live [OF ret(3) pos]
  from inv(1) pid a have "caps_ok c' (if h = UINT64_MAX then snd (surface_release s' oid) else s') extra \<and>
      (surfaces_referenced s \<longrightarrow> surfaces_referenced (if h = UINT64_MAX then snd (surface_release s' oid) else s'))"
  proof (cases rule: allocate_slot_cases)
    case full
    then show ?thesis
      using inv ret rel ag by (auto simp: caps_ok_def refs_agree_def surfaces_referenced_def)
  next
    case (claimed i g t)
    have "cap_refs c' x = cap_refs c x + (if x = oid then 1 else 0)" for x
      using cap_refs_claim [OF inv(1) pid claimed(1)] claimed(5) oid by simp
    moreover have "cap_inv c'" using allocate_slot_inv [OF inv(1) pid] a by (metis snd_conv)
    ultimately show ?thesis
      using claimed(3) ret ag by (auto simp: caps_ok_def refs_agree_def surfaces_referenced_def)
  qed
  then show "caps_ok c' (if h = UINT64_MAX then snd (surface_release s' oid) else s') extra"
    and "surfaces_referenced s \<Longrightarrow> surfaces_referenced (if h = UINT64_MAX then snd (surface_release s' oid) else s')"
    by auto
qed

lemma surface_retain_False: "surface_retain s oid = (False, s') \<Longrightarrow> s' = s"
  by (auto simp: surface_retain_def Let_def split: option.splits if_splits)

lemma surface_resolve_zero [simp]: "surface_resolve s 0 = None"
  by (simp add: surface_resolve_def)

lemma surface_retain_nonzero: "surface_retain s oid = (True, s') \<Longrightarrow> oid \<noteq> 0"
  by (auto simp: surface_retain_def)

lemma retain_and_allocate_ok:
  assumes ok: "caps_ok c s extra" and pid: "unat pid < kProcessLimit"
    and r: "retain_and_allocate c s pid rights oid = (h, c', s')"
  shows "caps_ok c' s' extra \<and> (surfaces_referenced s \<longrightarrow> surfaces_referenced s')"
proof (cases "surface_retain s oid")
  case (Pair b s1)
  obtain h1 c1 where a: "allocate_slot c pid CAPABILITY_SERVICE_SURFACE rights oid = (h1, c1)"
    by (metis surj_pair)
  show ?thesis
  proof (cases b)
    case True
    with Pair have rt: "surface_retain s oid = (True, s1)" by simp
    from retain_then_allocate [OF ok pid surface_retain_nonzero [OF rt] rt a] r rt a show ?thesis
      by (auto simp: retain_and_allocate_def split: if_splits)
  next
    case False
    with Pair r ok show ?thesis
      by (auto simp: retain_and_allocate_def dest: surface_retain_False)
  qed
qed

lemma capability_open_surface_ok:
  assumes "caps_ok c s extra" "capability_open_surface c s pid oid rights = (h, c', s')"
  shows "caps_ok c' s' extra \<and> (surfaces_referenced s \<longrightarrow> surfaces_referenced s')"
  using assms retain_and_allocate_ok [OF assms(1), of pid]
  by (auto simp: capability_open_surface_def Let_def not_le split: if_splits)

lemma capability_resolve_object_ok:
  "caps_ok (snd (capability_resolve_object c pid h r)) s extra = caps_ok c s extra"
  using capability_resolve_object_state [of c pid h r] by auto

lemma capability_grant_ok:
  assumes ok: "caps_ok c s extra" and g: "capability_grant c s src h tgt rights = (h', c', s')"
  shows "caps_ok c' s' extra \<and> (surfaces_referenced s \<longrightarrow> surfaces_referenced s')"
proof (cases "capability_resolve_object c src h rights")
  case (Pair res c1)
  have ok1: "caps_ok c1 s extra"
    using capability_resolve_object_ok [of c src h rights s extra] ok Pair by simp
  show ?thesis
    using g ok ok1 Pair retain_and_allocate_ok [OF ok1, of tgt]
    by (auto simp: capability_grant_def not_le split: if_splits option.splits)
qed

lemma surface_release_referenced:
  assumes "surface_inv s" "surface_refs s oid > 0" "surfaces_referenced s"
  shows "surfaces_referenced (snd (surface_release s oid))"
  unfolding surfaces_referenced_def
proof (intro allI impI)
  fix x
  assume a: "surface_resolve (snd (surface_release s oid)) x \<noteq> None"
  with surface_release_live(2) [OF assms(1,2), of x]
  have "\<not> (x = oid \<and> surface_refs s oid = 1)" "surface_resolve s x \<noteq> None"
    by (auto split: if_splits)
  with assms(2,3) surface_release_live(1) [OF assms(1,2), of x]
  show "surface_refs (snd (surface_release s oid)) x > 0"
    by (auto simp: surfaces_referenced_def)
qed

lemma release_slot_ok:
  assumes ok: "caps_ok c s extra" and pid: "pid < kProcessLimit" and r: "release_slot c s pid slot = (b, c', s')"
  shows "caps_ok c' s' extra \<and> (surfaces_referenced s \<longrightarrow> surfaces_referenced s')"
proof (cases "slot_release capability_payload_default (cs_tables c ! pid) slot")
  case None
  with ok r show ?thesis by (simp add: release_slot_def)
next
  case (Some x)
  then obtain v t where x: "slot_release capability_payload_default (cs_tables c ! pid) slot = Some (v, t)"
    by (metis surj_pair)
  have inv: "cap_inv c" "surface_inv s" and ag: "\<And>y. surface_refs s y = cap_refs c y + extra y"
    using ok by (auto simp: caps_ok_def refs_agree_def)
  let ?surf = "cp_service v = CAPABILITY_SERVICE_SURFACE \<and> cp_object_id v \<noteq> 0"
  have c': "cap_refs c' y + (if ?surf \<and> y = cp_object_id v then 1 else 0) = cap_refs c y" for y
    using cap_refs_release [OF inv(1) pid x, of y] r x by (auto simp: release_slot_def)
  have inv': "cap_inv c'" using release_slot_inv [OF inv(1) pid r] .
  have s': "s' = (if ?surf then snd (surface_release s (cp_object_id v)) else s)"
    using r x by (auto simp: release_slot_def)
  show ?thesis
  proof (cases ?surf)
    case True
    have pos: "surface_refs s (cp_object_id v) > 0"
      using c' [of "cp_object_id v"] ag [of "cp_object_id v"] True by simp
    note rel = surface_release_live [OF inv(2) pos]
    have "surface_refs s' y = cap_refs c' y + extra y" for y
      using rel(1) [of y] c' [of y] ag [of y] True s' by (auto split: if_splits)
    then show ?thesis
      using True s' inv' rel(3) surface_release_referenced [OF inv(2) pos]
      by (simp add: caps_ok_def refs_agree_def)
  next
    case False
    then show ?thesis using s' inv' inv c' ag by (auto simp: caps_ok_def refs_agree_def)
  qed
qed

lemma close_slots_ok:
  "caps_ok c s extra \<Longrightarrow> pid < kProcessLimit \<Longrightarrow> close_slots slots pid (c, s) = (c', s') \<Longrightarrow>
   caps_ok c' s' extra \<and> (surfaces_referenced s \<longrightarrow> surfaces_referenced s')"
proof (induction slots pid "(c, s)" arbitrary: c s rule: close_slots.induct)
  case (2 slot slots pid c s)
  obtain b c1 s1 where r: "release_slot c s pid slot = (b, c1, s1)" by (metis prod_cases3)
  from release_slot_ok [OF "2.prems"(1,2) r] "2" r show ?case
    by (auto split: if_splits)
qed simp

lemma caps_ok_assigned:
  "caps_ok c s extra \<Longrightarrow> caps_ok (c\<lparr>cs_assigned := (cs_assigned c)[i := m]\<rparr>) s extra"
  by (simp add: caps_ok_def refs_agree_def cap_inv_def)

lemma capabilities_close_all_ok:
  assumes "caps_ok c s extra" "capabilities_close_all c s pid = (c', s')"
  shows "caps_ok c' s' extra \<and> (surfaces_referenced s \<longrightarrow> surfaces_referenced s')"
  using assms close_slots_ok [OF assms(1), of "unat pid" "[0..<kSlotsPerProcess]"]
  by (auto simp: capabilities_close_all_def Let_def not_le split: if_splits prod.splits
      intro: caps_ok_assigned)

lemma capability_close_ok:
  assumes ok: "caps_ok c s extra" and "capability_close c s pid h = (b, c', s')"
  shows "caps_ok c' s' extra \<and> (surfaces_referenced s \<longrightarrow> surfaces_referenced s')"
proof (cases "capability_resolve_object c pid h 0")
  case (Pair res c1)
  have ok1: "caps_ok c1 s extra"
    using capability_resolve_object_ok [of c pid h 0 s extra] ok Pair by simp
  have "unat pid < kProcessLimit" if "res \<noteq> None"
    using that Pair by (auto simp: capability_resolve_object_Some decode_handle_def Let_def split: if_splits)
  with assms ok1 Pair show ?thesis
    by (cases res) (auto simp: capability_close_def capability_resolve_def Let_def
      dest!: release_slot_ok [OF ok1])
qed

section \<open>What a handle gives\<close>

lemma make_decode_handle:
  assumes "decode_handle h = Some (pid, slot, g)"
  shows "h = make_handle pid slot g"
proof (rule bit_word_eqI)
  fix n
  assume n: "n < LENGTH(64)"
  have ff: "(0xFF :: u64) = mask 8" by (simp add: mask_eq_exp_minus_1)
  have hi: "drop_bit 32 h = 0" and p: "pid = ucast (drop_bit 8 h AND 0xFF)"
    and sl: "slot = ucast (h AND 0xFF)" and g: "g = ucast (drop_bit 16 h)"
    using assms by (auto simp: decode_handle_def Let_def split: if_splits)
  have top: "\<not> bit h n" if "32 \<le> n"
  proof -
    have "\<not> bit (drop_bit 32 h) (n - 32)" by (simp add: hi)
    with that show ?thesis by (simp add: bit_drop_bit_eq)
  qed
  consider "n < 8" | "8 \<le> n" "n < 16" | "16 \<le> n" "n < 32" | "32 \<le> n" by linarith
  then show "bit h n = bit (make_handle pid slot g) n"
  proof cases
    case 1
    then show ?thesis by (simp add: make_handle_def p sl g ff bit_simps)
  next
    case 2
    then show ?thesis by (simp add: make_handle_def p sl g ff bit_simps) linarith
  next
    case 3
    then show ?thesis by (simp add: make_handle_def p sl g ff bit_simps) linarith
  next
    case 4
    with top show ?thesis by (simp add: make_handle_def p sl g ff bit_simps)
  qed
qed

text \<open>Resolution after a slot was filled, and after one was freed.\<close>

lemma resolve_other_table:
  assumes "decode_handle h = Some (pid, slot, g)"
  shows "fst (capability_resolve_object c p h r) =
    (if p = pid then case slot_resolve (cs_tables c ! unat pid) (unat slot) g of
        None \<Rightarrow> None | Some v \<Rightarrow> if cp_rights v AND r = r then Some (cp_service v, cp_object_id v) else None
     else None)"
  using assms by (auto simp: capability_resolve_object_def split: option.splits)

lemma resolve_cap_deny [simp]:
  "fst (capability_resolve_object (cap_deny c) p h r) = fst (capability_resolve_object c p h r)"
  by (simp add: capability_resolve_object_def split: option.splits)

lemma allocate_slot_resolves:
  assumes "cap_inv c" "unat pid < kProcessLimit" "allocate_slot c pid service rights oid = (h, c')" "h \<noteq> UINT64_MAX"
  shows "fst (capability_resolve_object c' p h r) = (if p = pid \<and> rights AND r = r then Some (service, oid) else None)"
  using assms(1-3)
proof (cases rule: allocate_slot_cases)
  case full
  with assms(4) show ?thesis by simp
next
  case (claimed i g t)
  have "unat (of_nat i :: u32) = i" using claim_in_process(3) [OF assms(1,2) claimed(1)] .
  moreover have "length (cs_tables c) = kProcessLimit" using assms(1) by (simp add: cap_inv_def)
  ultimately show ?thesis
    unfolding resolve_other_table [OF claimed(4)]
    using claimed(5) assms(2) by (simp add: slot_claim_resolve [OF claimed(1)])
qed

lemma allocate_slot_keeps:
  assumes "cap_inv c" "unat pid < kProcessLimit" "allocate_slot c pid service rights oid = (h, c')" "h' \<noteq> h"
  shows "fst (capability_resolve_object c' p h' r) = fst (capability_resolve_object c p h' r)"
  using assms(1-3)
proof (cases rule: allocate_slot_cases)
  case full
  then show ?thesis by (simp add: capability_resolve_object_def split: option.splits)
next
  case (claimed i g t)
  have i: "unat (of_nat i :: u32) = i" using claim_in_process(3) [OF assms(1,2) claimed(1)] .
  have l: "length (cs_tables c) = kProcessLimit" using assms(1) by (simp add: cap_inv_def)
  show ?thesis
  proof (cases "decode_handle h'")
    case None
    then show ?thesis by (simp add: capability_resolve_object_def)
  next
    case (Some x)
    then obtain q j k where d: "decode_handle h' = Some (q, j, k)" by (metis prod_cases3)
    have "slot_resolve (cs_tables c' ! unat q) (unat j) k = slot_resolve (cs_tables c ! unat q) (unat j) k"
    proof (cases "q = pid \<and> unat j = i")
      case True
      with i have j: "j = of_nat i" by (metis word_unat_eq_iff)
      with True d claimed(2) assms(4) have "k \<noteq> g" using make_decode_handle [OF d] by auto
      then have "slot_resolve t (unat j) k = None" "slot_resolve (cs_tables c ! unat pid) (unat j) k = None"
        using slot_claim_free [OF claimed(1)] True
        by (simp add: slot_claim_resolve [OF claimed(1)], simp add: slot_resolve_def)
      with True claimed(5) assms(2) l show ?thesis by simp
    next
      case False
      then show ?thesis
        using claimed(5) assms(2) l
        by (cases "q = pid") (auto simp: slot_claim_resolve [OF claimed(1)] nth_list_update
            word_unat_eq_iff)
    qed
    then show ?thesis by (simp add: resolve_other_table [OF d])
  qed
qed

lemma release_slot_resolves:
  assumes inv: "cap_inv c" "pid < kProcessLimit" and r: "release_slot c s pid slot = (True, c', s')"
  shows "fst (capability_resolve_object c' p h rt) =
    (case decode_handle h of None \<Rightarrow> None | Some (q, j, k) \<Rightarrow>
       if unat q = pid \<and> unat j = slot then None else fst (capability_resolve_object c p h rt))"
proof (cases "decode_handle h")
  case None
  then show ?thesis by (simp add: capability_resolve_object_def)
next
  case (Some x)
  then obtain q j k where d: "decode_handle h = Some (q, j, k)" by (metis prod_cases3)
  from r obtain v t where x: "slot_release capability_payload_default (cs_tables c ! pid) slot = Some (v, t)"
    and c': "cs_tables c' = (cs_tables c)[pid := t]"
    by (auto simp: release_slot_def split: option.splits)
  have "length (cs_tables c) = kProcessLimit" using inv by (simp add: cap_inv_def)
  with inv(2) have "slot_resolve (cs_tables c' ! unat q) (unat j) k =
      (if unat q = pid \<and> unat j = slot then None else slot_resolve (cs_tables c ! unat q) (unat j) k)"
    by (simp add: c' nth_list_update slot_release_resolve [OF x])
  then show ?thesis by (auto simp: d resolve_other_table [OF d])
qed

lemma slot_closed_resolves:
  assumes "\<not> slot_is_open (cs_tables c ! unat q) (unat j)" "decode_handle h = Some (q, j, k)"
  shows "fst (capability_resolve_object c p h rt) = None"
  using assms by (auto simp: resolve_other_table [OF assms(2)] slot_is_open_def slot_resolve_def)

lemma release_open_slot:
  "slot_is_open (cs_tables c ! pid) slot \<Longrightarrow> \<exists>c' s'. release_slot c s pid slot = (True, c', s')"
  by (auto simp: release_slot_def slot_is_open_def slot_release_def split: option.splits)

lemma close_slots_resolves:
  "cap_inv c \<Longrightarrow> pid < kProcessLimit \<Longrightarrow> close_slots slots pid (c, s) = (c', s') \<Longrightarrow>
   fst (capability_resolve_object c' p h rt) =
    (case decode_handle h of None \<Rightarrow> None | Some (q, j, k) \<Rightarrow>
       if unat q = pid \<and> unat j \<in> set slots then None else fst (capability_resolve_object c p h rt))"
proof (induction slots pid "(c, s)" arbitrary: c s rule: close_slots.induct)
  case (1 pid c s)
  then show ?case by (auto simp: capability_resolve_object_def split: option.splits)
next
  case (2 slot slots pid c s)
  show ?case
  proof (cases "slot_is_open (cs_tables c ! pid) slot")
    case True
    then obtain c1 s1 where r: "release_slot c s pid slot = (True, c1, s1)"
      using release_open_slot by metis
    from "2.hyps"(2) [of c1 s1] True r "2.prems" release_slot_inv [OF "2.prems"(1,2) r]
    show ?thesis
      by (auto simp: release_slot_resolves [OF "2.prems"(1,2) r] split: option.splits)
  next
    case False
    from "2.hyps"(1) False "2.prems" slot_closed_resolves [of c _ _ h]
    show ?thesis by (auto split: option.splits)
  qed
qed

lemma capability_resolve_object_pid:
  "fst (capability_resolve_object c p h r) \<noteq> None \<Longrightarrow> \<exists>j k. decode_handle h = Some (p, j, k)"
  by (auto simp: capability_resolve_object_def split: option.splits if_splits)

lemma decode_handle_bounds:
  "decode_handle h = Some (p, j, k) \<Longrightarrow> unat p < kProcessLimit \<and> unat j < kSlotsPerProcess \<and> unat j = unat (h AND 0xFF)"
proof -
  have ff: "(0xFF :: u64) = mask 8" by (simp add: mask_eq_exp_minus_1)
  have "unat (h AND 0xFF) = unat h mod 256" by (simp only: ff unat_and_mask) simp
  then have "unat (ucast (h AND 0xFF) :: u32) = unat (h AND 0xFF)" by (simp add: unat_ucast_narrow32)
  then show "decode_handle h = Some (p, j, k) \<Longrightarrow> ?thesis"
    by (auto simp: decode_handle_def Let_def split: if_splits)
qed

text \<open>
  Claim C20: a handle returned by \<open>capability_open\<close> resolves for exactly the process that opened it and
  exactly the rights of the service it was opened on, and the open changes no other handle.
\<close>

theorem capability_open_exact:
  assumes "cap_inv c" "capability_open c pid service = (h, c')" "h \<noteq> UINT64_MAX"
  shows "(\<forall>p r. fst (capability_resolve_object c' p h r) =
            (if p = pid \<and> service_rights service AND r = r then Some (service, 0) else None)) \<and>
         (\<forall>p r h'. h' \<noteq> h \<longrightarrow> fst (capability_resolve_object c' p h' r) = fst (capability_resolve_object c p h' r)) \<and>
         (cs_assigned c ! unat pid) AND CAPABILITY_SERVICE_BIT service \<noteq> 0"
proof -
  have a: "allocate_slot c pid service (service_rights service) 0 = (h, c')" "unat pid < kProcessLimit"
    "(cs_assigned c ! unat pid) AND CAPABILITY_SERVICE_BIT service \<noteq> 0"
    using assms(2,3) by (auto simp: capability_open_def Let_def split: if_splits)
  then show ?thesis
    using allocate_slot_resolves [OF assms(1) a(2,1) assms(3)] allocate_slot_keeps [OF assms(1) a(2,1)]
    by blast
qed

theorem capability_open_exact_witness:
  "fst (capability_open capabilities_init 1 4) \<noteq> UINT64_MAX \<and>
   fst (capability_resolve_object (snd (capability_open capabilities_init 1 4)) 1
     (fst (capability_open capabilities_init 1 4)) 8) = Some (4, 0)"
proof -
  have n: "fst (capability_open capabilities_init 1 4) \<noteq> UINT64_MAX" by code_simp
  have "(service_rights 4 AND 8 :: u32) = 8" by code_simp
  with n capability_open_exact [OF capabilities_init_inv surjective_pairing n] show ?thesis by simp
qed

text \<open>
  Claim C21: granting can only attenuate. A granted handle exists only if the source process held the
  rights on a surface, it never carries more than read and query, and it resolves for exactly the
  target process, that surface and the granted rights.
\<close>

theorem capability_grant_attenuates:
  assumes "cap_inv c" "capability_grant c s source_pid source_handle target_pid rights = (h, c', s')" "h \<noteq> UINT64_MAX"
  shows "rights AND NOT (CAPABILITY_RIGHT_READ OR CAPABILITY_RIGHT_QUERY) = 0 \<and>
    (\<exists>oid. fst (capability_resolve_object c source_pid source_handle rights) = Some (CAPABILITY_SERVICE_SURFACE, oid) \<and>
      (\<forall>p r. fst (capability_resolve_object c' p h r) =
         (if p = target_pid \<and> rights AND r = r then Some (CAPABILITY_SERVICE_SURFACE, oid) else None)))"
proof -
  obtain oid where r: "capability_resolve_object c source_pid source_handle rights = (Some (CAPABILITY_SERVICE_SURFACE, oid), c)"
    and m: "rights AND NOT (CAPABILITY_RIGHT_READ OR CAPABILITY_RIGHT_QUERY) = 0"
    and t: "unat target_pid < kProcessLimit"
    and a: "retain_and_allocate c s target_pid rights oid = (h, c', s')"
    using assms(2,3)
    by (auto simp: capability_grant_def capability_resolve_object_Some not_le split: if_splits option.splits prod.splits)
  have "allocate_slot c target_pid CAPABILITY_SERVICE_SURFACE rights oid = (h, c')"
    using a assms(3) by (auto simp: retain_and_allocate_def split: if_splits bool.splits prod.splits)
  from allocate_slot_resolves [OF assms(1) t this assms(3)] r m show ?thesis by simp
qed

definition grant_example :: "u64 \<times> cap_state \<times> surface_state" where
  "grant_example = capability_open_surface capabilities_init
     \<lparr>surf_objects = surface_object_zero\<lparr>so_owner_pid := 1, so_width := 2, so_height := 2,
        so_capacity_pixels := 1024, so_active := True\<rparr> # replicate 7 surface_object_zero, surf_arena = (\<lambda>_. 0),
     surf_arena_address = 0x100000, surf_arena_count = 262144, surf_write_count = 0, surf_read_count = 0,
     surf_share_count = 0, surf_created_count = 1, surf_reclaimed_count = 0, surf_mapping_count = 0,
     surf_damage_count = 0, surf_damage_consumed_count = 0\<rparr> 1 1 7"

theorem capability_grant_attenuates_witness:
  "\<exists>h c' s'. capability_grant (fst (snd grant_example)) (snd (snd grant_example)) 1 (fst grant_example) 2 4 = (h, c', s') \<and>
     fst (capability_resolve_object c' 2 h 4) = Some (CAPABILITY_SERVICE_SURFACE, 1) \<and>
     fst (capability_resolve_object c' 2 h 1) = None"
proof -
  let ?c = "fst (snd grant_example)" and ?s = "snd (snd grant_example)"
  obtain h c' s' where g: "capability_grant ?c ?s 1 (fst grant_example) 2 4 = (h, c', s')" by (metis prod_cases3)
  have "fst (capability_grant ?c ?s 1 (fst grant_example) 2 4) \<noteq> UINT64_MAX" by code_simp
  with g have h: "h \<noteq> UINT64_MAX" by simp
  have i: "cap_inv ?c" by code_simp
  have r: "fst (capability_resolve_object ?c 1 (fst grant_example) 4) = Some (9, 1)" by code_simp
  from capability_grant_attenuates [OF i g h] r g show ?thesis by auto
qed

text \<open>Closing a handle that resolves is the release of the slot it names.\<close>

lemma capability_close_release:
  assumes "cap_inv c" "fst (capability_resolve_object c pid h r) \<noteq> None" "capability_close c s pid h = (b, c', s')"
  obtains j k v t where "decode_handle h = Some (pid, j, k)" "unat pid < kProcessLimit"
    "slot_resolve (cs_tables c ! unat pid) (unat j) k = Some v"
    "slot_release capability_payload_default (cs_tables c ! unat pid) (unat j) = Some (v, t)"
    "release_slot c s (unat pid) (unat j) = (True, c', s')" "b" "cs_tables c' = (cs_tables c)[unat pid := t]"
proof -
  obtain j k where d: "decode_handle h = Some (pid, j, k)"
    using capability_resolve_object_pid assms(2) by blast
  note bd = decode_handle_bounds [OF d]
  obtain v where v: "slot_resolve (cs_tables c ! unat pid) (unat j) k = Some v"
    using assms(2) by (auto simp: resolve_other_table [OF d] split: option.splits)
  have "capability_resolve_object c pid h 0 = (Some (cp_service v, cp_object_id v), c)"
    using d v by (simp add: capability_resolve_object_Some)
  with assms(3) bd have rel: "release_slot c s (unat pid) (unat j) = (b, c', s')"
    by (simp add: capability_close_def capability_resolve_def)
  obtain t where t: "slot_release capability_payload_default (cs_tables c ! unat pid) (unat j) = Some (v, t)"
    using slot.free_live [OF cap_invD(1) [OF assms(1)] v] bd by blast
  have "b" "cs_tables c' = (cs_tables c)[unat pid := t]" using rel t by (auto simp: release_slot_def)
  with that [OF d _ v t] rel bd show thesis by simp
qed

lemma release_keeps_other_handles:
  assumes "cap_inv c" "unat pid < kProcessLimit" "decode_handle h = Some (pid, j, k)"
    and "slot_resolve (cs_tables c ! unat pid) (unat j) k = Some v"
    and "release_slot c s (unat pid) (unat j) = (True, c', s')" "h' \<noteq> h"
  shows "fst (capability_resolve_object c' p h' r) = fst (capability_resolve_object c p h' r)"
proof (cases "fst (capability_resolve_object c p h' r)")
  case None
  then show ?thesis using release_slot_resolves [OF assms(1,2,5), of p h' r] by (auto split: option.splits)
next
  case (Some y)
  then obtain j' k' where d': "decode_handle h' = Some (p, j', k')"
    using capability_resolve_object_pid [of c p h' r] by auto
  have "\<not> (p = pid \<and> j' = j)"
    using Some [unfolded resolve_other_table [OF d']] assms(4,6)
      make_decode_handle [OF d'] make_decode_handle [OF assms(3)]
    by (auto simp: slot_resolve_def split: option.splits if_splits)
  with release_slot_resolves [OF assms(1,2,5), of p h' r] d' show ?thesis by (auto simp: word_unat_eq_iff)
qed

text \<open>The generation check: a freed handle is not the one a new claim produces.\<close>

lemma released_handle_not_reissued:
  assumes inv: "cap_inv c" "cap_inv c'" "unat pid < kProcessLimit" "unat q < kProcessLimit"
    and d: "decode_handle h = Some (pid, j, k)"
    and v: "slot_resolve (cs_tables c ! unat pid) (unat j) k = Some v"
    and t: "slot_release capability_payload_default (cs_tables c ! unat pid) (unat j) = Some (v, t)"
    and c': "cs_tables c' = (cs_tables c)[unat pid := t]"
    and a: "allocate_slot c' q service rights oid = (h2, c2)"
  shows "h \<noteq> h2"
  using inv(2,4) a
proof (cases rule: allocate_slot_cases)
  case (claimed i g u)
  have tp: "cs_tables c' ! unat pid = t" using c' inv by (simp add: cap_inv_def)
  show ?thesis
  proof
    assume "h = h2"
    with claimed(4) d have e: "q = pid" "j = of_nat i" "k = g" by auto
    with claim_in_process(3) [OF inv(2,4) claimed(1)] have "unat j = i" by simp
    with claimed(1) tp e(1) have "slot_claim capability_payload_default t
        \<lparr>cp_service = service, cp_rights = rights, cp_object_id = oid\<rparr> = Some (unat j, g, u)" by simp
    from slot.free_bumps [OF cap_invD(1) [OF inv(1,3)] v t this] e(3) show False by simp
  qed
qed (use d in auto)



text \<open>
  Process teardown. After \<open>capabilities_close_all\<close> no handle resolves for the process any
  more and it may open no service, while every handle of every other process is unchanged.
\<close>

theorem capabilities_close_all_revokes:
  assumes "cap_inv c" "pid \<noteq> 0" "unat pid < kProcessLimit" "capabilities_close_all c s pid = (c', s')"
  shows "(\<forall>p h r. fst (capability_resolve_object c' p h r) =
            (if p = pid then None else fst (capability_resolve_object c p h r))) \<and>
         (\<forall>service. fst (capability_open c' pid service) = UINT64_MAX)"
proof -
  obtain c1 s1 where cl: "close_slots [0..<kSlotsPerProcess] (unat pid) (c, s) = (c1, s1)" by (metis surj_pair)
  have c': "c' = c1\<lparr>cs_assigned := (cs_assigned c1)[unat pid := 0]\<rparr>"
    using assms cl by (simp add: capabilities_close_all_def)
  have "cap_inv c1" using close_slots_inv [OF assms(1,3) cl] .
  then have "cs_assigned c' ! unat pid = 0" using assms(3) c' by (simp add: cap_inv_def)
  moreover have "fst (capability_resolve_object c' p h r) =
      (if p = pid then None else fst (capability_resolve_object c p h r))" for p h r
  proof (cases "decode_handle h")
    case None
    then show ?thesis by (simp add: capability_resolve_object_def)
  next
    case (Some x)
    then obtain q j k where d: "decode_handle h = Some (q, j, k)" by (metis prod_cases3)
    have "fst (capability_resolve_object c' p h r) = fst (capability_resolve_object c1 p h r)"
      by (simp add: c' resolve_other_table [OF d])
    also have "\<dots> = (if p = pid then None else fst (capability_resolve_object c p h r))"
      using close_slots_resolves [OF assms(1,3) cl, of p h r] decode_handle_bounds [OF d] d
        capability_resolve_object_pid [of c p h r]
      by (auto simp: word_unat_eq_iff resolve_other_table [OF d])
    finally show ?thesis .
  qed
  ultimately show ?thesis by (simp add: capability_open_def Let_def)
qed

theorem capabilities_close_all_revokes_witness:
  "fst (capability_open (fst (capabilities_close_all capabilities_init surface_example 1)) 1 4) = UINT64_MAX"
  using capabilities_close_all_revokes [OF capabilities_init_inv _ _ surjective_pairing, of 1 surface_example] by simp

end
