(* ===== verification/Bounded_Fifo.thy ===== *)
theory Bounded_Fifo
  imports Demon_Prelude
begin

text \<open>
  The interface of the kernel's bounded queues. A queue has an abstraction to the list of its elements,
  oldest first; adding appends when there is room and removing takes the first element. The IPC
  channels and the input event queue, which keep their elements in rings of different layouts, are
  instances. Proved once here: over any run of additions and removals, what was removed
  followed by what is still queued is what was queued at first followed by what was accepted.
\<close>

datatype 'a fifo_op = Enq 'a | Deq

locale bounded_fifo =
  fixes inv :: "'s \<Rightarrow> bool"
    and elems :: "'s \<Rightarrow> 'a list"
    and cap :: nat
    and enq :: "'a \<Rightarrow> 's \<Rightarrow> 's option"
    and deq :: "'s \<Rightarrow> ('a \<times> 's) option"
    and ok :: "'a \<Rightarrow> bool"
  assumes enq_Some: "inv s \<Longrightarrow> ok x \<Longrightarrow> enq x s = Some s' \<Longrightarrow> inv s' \<and> elems s' = elems s @ [x]"
    and enq_None: "inv s \<Longrightarrow> enq x s = None \<longleftrightarrow> length (elems s) = cap"
    and deq_Some: "inv s \<Longrightarrow> deq s = Some (x, s') \<Longrightarrow> inv s' \<and> elems s = x # elems s'"
    and deq_None: "inv s \<Longrightarrow> deq s = None \<longleftrightarrow> elems s = []"
    and elems_le_cap: "inv s \<Longrightarrow> length (elems s) \<le> cap"
begin

text \<open>A run returns the elements accepted, the elements removed and the final queue.\<close>

fun run :: "'a fifo_op list \<Rightarrow> 's \<Rightarrow> 'a list \<times> 'a list \<times> 's" where
  "run [] s = ([], [], s)"
| "run (Enq x # ops) s =
     (case enq x s of
        None \<Rightarrow> run ops s
      | Some s' \<Rightarrow> (let (acc, rem, t) = run ops s' in (x # acc, rem, t)))"
| "run (Deq # ops) s =
     (case deq s of
        None \<Rightarrow> run ops s
      | Some (x, s') \<Rightarrow> (let (acc, rem, t) = run ops s' in (acc, x # rem, t)))"

lemma run_conserves:
  assumes "inv s" "\<forall>x. Enq x \<in> set ops \<longrightarrow> ok x" "run ops s = (acc, rem, t)"
  shows "inv t \<and> rem @ elems t = elems s @ acc"
  using assms
proof (induction ops s arbitrary: acc rem t rule: run.induct)
  case (2 x ops s)
  show ?case
  proof (cases "enq x s")
    case None
    with 2 show ?thesis by simp
  next
    case (Some s')
    obtain a r where r: "run ops s' = (a, r, t)" "acc = x # a" "rem = r"
      using "2.prems"(3) Some by (auto split: prod.splits)
    have "inv s' \<and> elems s' = elems s @ [x]" using enq_Some [OF "2.prems"(1) _ Some] "2.prems"(2) by simp
    with "2.IH"(2) [OF Some _ _ r(1)] "2.prems"(2) r show ?thesis by simp
  qed
next
  case (3 ops s)
  show ?case
  proof (cases "deq s")
    case None
    with 3 show ?thesis by simp
  next
    case (Some y)
    obtain x s' where y: "y = (x, s')" by (cases y)
    obtain a r where r: "run ops s' = (a, r, t)" "acc = a" "rem = x # r"
      using "3.prems"(3) Some y by (auto split: prod.splits)
    have "inv s' \<and> elems s = x # elems s'" using deq_Some [OF "3.prems"(1)] Some y by simp
    with "3.IH"(2) [OF Some y [symmetric] _ _ r(1)] "3.prems"(2) r show ?thesis by simp
  qed
qed simp

lemma never_blocked:
  assumes "inv s"
  shows "(\<exists>s'. enq x s = Some s') \<or> (\<exists>y s'. deq s = Some (y, s')) \<or> cap = 0"
proof (cases "enq x s")
  case None
  with enq_None [OF assms] have "length (elems s) = cap" by simp
  then show ?thesis using deq_None [OF assms] by (cases "deq s") auto
qed simp

end

section \<open>Rings with one free slot\<close>

text \<open>
  The elements of a ring of n slots between a read and a write index, oldest first. The event queue and the keyboard buffer
  are such rings; they are full when the write index is one before the read index.
\<close>

definition ring_size :: "nat \<Rightarrow> nat \<Rightarrow> nat \<Rightarrow> nat" where
  "ring_size n r w = (w + n - r) mod n"

definition ring_list :: "nat \<Rightarrow> 'a list \<Rightarrow> nat \<Rightarrow> nat \<Rightarrow> 'a list" where
  "ring_list n xs r w = map (\<lambda>k. xs ! ((r + k) mod n)) [0..<ring_size n r w]"

lemma length_ring_list [simp]: "length (ring_list n xs r w) = ring_size n r w"
  by (simp add: ring_list_def)

lemma ring_size_less: "r < n \<Longrightarrow> ring_size n r w < n"
  by (simp add: ring_size_def)

lemma ring_size_write: "r < n \<Longrightarrow> w < n \<Longrightarrow> (r + ring_size n r w) mod n = w"
  by (simp add: ring_size_def mod_add_right_eq)

lemma ring_size_eqI: "r < n \<Longrightarrow> w < n \<Longrightarrow> c < n \<Longrightarrow> (r + c) mod n = w \<Longrightarrow> ring_size n r w = c"
  using ring_index_inj [of "ring_size n r w" n c r] by (simp add: ring_size_less ring_size_write)

lemma ring_size_0: "r < n \<Longrightarrow> w < n \<Longrightarrow> ring_size n r w = 0 \<longleftrightarrow> r = w"
  using ring_size_write [of r n w] by (auto simp: ring_size_def)

lemma ring_full: "r < n \<Longrightarrow> w < n \<Longrightarrow> Suc w mod n = r \<longleftrightarrow> ring_size n r w = n - 1"
  unfolding ring_size_def by (cases "w < r") (auto simp: mod_Suc le_mod_geq)

lemma ring_list_put:
  assumes "r < n" "w < n" "length xs = n" "Suc w mod n \<noteq> r"
  shows "ring_list n (xs[w := x]) r (Suc w mod n) = ring_list n xs r w @ [x]"
proof -
  let ?c = "ring_size n r w"
  have c: "Suc ?c < n" using assms ring_full [OF assms(1,2)] ring_size_less [OF assms(1), of w] by simp
  have w: "(r + ?c) mod n = w" using ring_size_write [OF assms(1,2)] .
  have "ring_size n r (Suc w mod n) = Suc ?c"
    by (rule ring_size_eqI [OF assms(1) _ c]) (use assms(1) mod_Suc_ring [of r ?c n] w in \<open>simp_all only: mod_less_divisor\<close>)
  moreover have "xs[w := x] ! ((r + k) mod n) = xs ! ((r + k) mod n)" if "k < ?c" for k
    using ring_index_inj [of k n ?c r] that w c by (intro nth_list_update_neq) auto
  ultimately show ?thesis using w assms(2,3) by (simp add: ring_list_def)
qed

lemma ring_list_take:
  assumes "r < n" "w < n" "r \<noteq> w"
  shows "ring_list n xs r w = xs ! r # ring_list n xs (Suc r mod n) w"
proof -
  obtain c where c: "ring_size n r w = Suc c" using ring_size_0 [OF assms(1,2)] assms(3) not0_implies_Suc by blast
  have shift: "(Suc r mod n + k) mod n = (r + Suc k) mod n" for k by (simp add: mod_add_left_eq)
  have "ring_size n (Suc r mod n) w = c"
    by (rule ring_size_eqI)
      (use assms c shift ring_size_write [OF assms(1,2)] ring_size_less [OF assms(1), of w] in simp_all)
  then show ?thesis using assms(1) c by (simp add: ring_list_def shift upt_conv_Cons map_Suc_upt [symmetric] del: upt_Suc)
qed

end
