(* ===== verification/Ipc_Channel.thy ===== *)
theory Ipc_Channel
  imports User_Memory Capability Bounded_Fifo
begin

text \<open>
  The channel table of \<open>src/src/ipc.c\<close>: the data of a channel, its message ring with the loops that
  fill and drain a slot, the lookups and \<open>ipc_cancel_wait\<close>. The operations on channels that also use the
  input queue are in the theory Ipc. The ring is shown to be a bounded queue in the sense of
  Bounded\_Fifo.
\<close>

section \<open>State\<close>

abbreviation (input) IPC_CHANNEL_LIMIT :: nat where "IPC_CHANNEL_LIMIT \<equiv> 16"
abbreviation (input) IPC_QUEUE_DEPTH :: nat where "IPC_QUEUE_DEPTH \<equiv> 32"
abbreviation (input) IPC_NAME_MAX :: nat where "IPC_NAME_MAX \<equiv> 24"
abbreviation (input) IPC_MESSAGE_MAX :: nat where "IPC_MESSAGE_MAX \<equiv> 64"

record ipc_message =
  msg_sender :: u32
  msg_length :: u8
  msg_data :: "u8 list"

record ipc_waiter =
  iw_pid :: u32
  iw_address :: u64
  iw_capacity :: u64
  iw_active :: bool
  iw_multiplex :: bool

record ipc_send_waiter =
  sw_pid :: u32
  sw_data :: "u8 list"
  sw_length :: u8
  sw_active :: bool

text \<open>\<open>ch_name\<close> is the array \<open>name\<close> cut to \<open>name_length\<close>.\<close>

record ipc_channel =
  ch_id :: u32
  ch_owner :: u32
  ch_name :: "u8 list"
  ch_read :: u8
  ch_write :: u8
  ch_count :: u8
  ch_messages :: "ipc_message list"
  ch_waiter :: ipc_waiter
  ch_sender :: ipc_send_waiter
  ch_active :: bool

definition ipc_waiter_zero :: ipc_waiter where
  "ipc_waiter_zero = \<lparr>iw_pid = 0, iw_address = 0, iw_capacity = 0, iw_active = False, iw_multiplex = False\<rparr>"

definition ipc_send_waiter_zero :: ipc_send_waiter where
  "ipc_send_waiter_zero = \<lparr>sw_pid = 0, sw_data = replicate IPC_MESSAGE_MAX 0, sw_length = 0, sw_active = False\<rparr>"

text \<open>The compound literal \<open>(struct ipc_channel){.id = id}\<close>.\<close>

definition ipc_channel_zero :: "u32 \<Rightarrow> ipc_channel" where
  "ipc_channel_zero cid = \<lparr>ch_id = cid, ch_owner = 0, ch_name = [], ch_read = 0, ch_write = 0, ch_count = 0,
     ch_messages = replicate IPC_QUEUE_DEPTH \<lparr>msg_sender = 0, msg_length = 0, msg_data = replicate IPC_MESSAGE_MAX 0\<rparr>,
     ch_waiter = ipc_waiter_zero, ch_sender = ipc_send_waiter_zero, ch_active = False\<rparr>"

record ipc_state = mem_state +
  ipc_caps :: cap_state
  ipc_channels :: "ipc_channel list"
  ipc_sent_count :: u64
  ipc_received_count :: u64
  ipc_dropped_count :: u64

section \<open>The message ring\<close>

text \<open>The byte loop that overwrites the first bytes of a message buffer.\<close>

definition copy_message :: "u8 list \<Rightarrow> u8 list \<Rightarrow> u8 list" where
  "copy_message old data = data @ drop (length data) old"

text \<open>Filling the slot at \<open>write\<close>, as the end of \<open>ipc_send_impl\<close> and the hand-over in \<open>ipc_receive\<close> do.\<close>

definition ring_put :: "u32 \<Rightarrow> u8 list \<Rightarrow> ipc_channel \<Rightarrow> ipc_channel" where
  "ring_put pid data c =
     c\<lparr>ch_messages := (ch_messages c)[unat (ch_write c) :=
         \<lparr>msg_sender = pid, msg_length = of_nat (length data),
          msg_data = copy_message (msg_data (ch_messages c ! unat (ch_write c))) data\<rparr>],
       ch_write := (ch_write c + 1) mod 32, ch_count := ch_count c + 1\<rparr>"

text \<open>The message at \<open>read\<close>, and the ring without it.\<close>

definition ring_front :: "ipc_channel \<Rightarrow> u32 \<times> u8 list" where
  "ring_front c = (let m = ch_messages c ! unat (ch_read c) in (msg_sender m, take (unat (msg_length m)) (msg_data m)))"

definition ring_drop :: "ipc_channel \<Rightarrow> ipc_channel" where
  "ring_drop c = c\<lparr>ch_read := (ch_read c + 1) mod 32, ch_count := ch_count c - 1\<rparr>"

section \<open>Lookups\<close>

definition same_name :: "ipc_channel \<Rightarrow> u8 list \<Rightarrow> bool" where
  "same_name c name \<longleftrightarrow> ch_name c = name"

definition by_id :: "u32 \<Rightarrow> 'a ipc_state_scheme \<Rightarrow> nat option" where
  "by_id cid s =
     (if cid = 0 \<or> unat cid > IPC_CHANNEL_LIMIT \<or> \<not> ch_active (ipc_channels s ! (unat cid - 1)) then None
      else Some (unat cid - 1))"

definition set_channel :: "nat \<Rightarrow> (ipc_channel \<Rightarrow> ipc_channel) \<Rightarrow> 'a ipc_state_scheme \<Rightarrow> 'a ipc_state_scheme" where
  "set_channel i f s = s\<lparr>ipc_channels := (ipc_channels s)[i := f (ipc_channels s ! i)]\<rparr>"

text \<open>The static function \<open>resolve\<close>: from a handle with a right to the index of the channel.\<close>

definition ipc_resolve :: "u32 \<Rightarrow> u64 \<Rightarrow> u32 \<Rightarrow> 'a ipc_state_scheme \<Rightarrow> nat option \<times> 'a ipc_state_scheme" where
  "ipc_resolve pid handle right s =
     (case capability_resolve_object (ipc_caps s) pid handle right of
        (None, c) \<Rightarrow> (None, s\<lparr>ipc_caps := c\<rparr>)
      | (Some (service, cid), c) \<Rightarrow>
          (if service \<noteq> CAPABILITY_SERVICE_IPC then None else by_id cid (s\<lparr>ipc_caps := c\<rparr>), s\<lparr>ipc_caps := c\<rparr>))"

definition ipc_init :: "'a ipc_state_scheme \<Rightarrow> 'a ipc_state_scheme" where
  "ipc_init s = s\<lparr>ipc_channels := map (\<lambda>i. ipc_channel_zero (of_nat i + 1)) [0..<IPC_CHANNEL_LIMIT],
     ipc_sent_count := 0, ipc_received_count := 0, ipc_dropped_count := 0\<rparr>"

definition ipc_cancel_wait :: "u32 \<Rightarrow> 'a ipc_state_scheme \<Rightarrow> bool \<times> 'a ipc_state_scheme" where
  "ipc_cancel_wait pid s =
     (case first_index (\<lambda>c. ch_active c \<and> iw_active (ch_waiter c) \<and> iw_pid (ch_waiter c) = pid) (ipc_channels s) of
        None \<Rightarrow> (False, s)
      | Some i \<Rightarrow> (True, set_channel i (\<lambda>c. c\<lparr>ch_waiter := (ch_waiter c)\<lparr>iw_active := False\<rparr>\<rparr>) s))"

definition ipc_channel_count :: "'a ipc_state_scheme \<Rightarrow> nat" where
  "ipc_channel_count s = count_if ch_active (ipc_channels s)"

section \<open>The ring is a bounded queue\<close>

definition msg_ok :: "u32 \<times> u8 list \<Rightarrow> bool" where
  "msg_ok m \<longleftrightarrow> length (snd m) \<le> IPC_MESSAGE_MAX"

definition ring_inv :: "ipc_channel \<Rightarrow> bool" where
  "ring_inv c \<longleftrightarrow> length (ch_messages c) = IPC_QUEUE_DEPTH \<and> unat (ch_read c) < IPC_QUEUE_DEPTH \<and>
     unat (ch_count c) \<le> IPC_QUEUE_DEPTH \<and>
     unat (ch_write c) = (unat (ch_read c) + unat (ch_count c)) mod IPC_QUEUE_DEPTH \<and>
     (\<forall>m \<in> set (ch_messages c). length (msg_data m) = IPC_MESSAGE_MAX \<and> unat (msg_length m) \<le> IPC_MESSAGE_MAX)"

definition message_at :: "ipc_channel \<Rightarrow> nat \<Rightarrow> u32 \<times> u8 list" where
  "message_at c i = (let m = ch_messages c ! i in (msg_sender m, take (unat (msg_length m)) (msg_data m)))"

definition ring_elems :: "ipc_channel \<Rightarrow> (u32 \<times> u8 list) list" where
  "ring_elems c = map (\<lambda>k. message_at c ((unat (ch_read c) + k) mod IPC_QUEUE_DEPTH)) [0..<unat (ch_count c)]"

definition ring_enq :: "u32 \<times> u8 list \<Rightarrow> ipc_channel \<Rightarrow> ipc_channel option" where
  "ring_enq m c = (if ch_count c = 32 then None else Some (ring_put (fst m) (snd m) c))"

definition ring_deq :: "ipc_channel \<Rightarrow> ((u32 \<times> u8 list) \<times> ipc_channel) option" where
  "ring_deq c = (if ch_count c = 0 then None else Some (ring_front c, ring_drop c))"

lemma unat_u8_succ_mod32: "unat (x :: u8) < 32 \<Longrightarrow> unat ((x + 1) mod 32) = Suc (unat x) mod 32"
  by (simp add: unat_mod unat_add_small)

lemma ring_put_elems:
  assumes "ring_inv c" "unat (ch_count c) < 32" "length data \<le> 64"
  shows "ring_inv (ring_put pid data c) \<and> ring_elems (ring_put pid data c) = ring_elems c @ [(pid, data)]"
proof -
  let ?r = "unat (ch_read c)" and ?n = "unat (ch_count c)" and ?w = "unat (ch_write c)"
  have w: "?w = (?r + ?n) mod 32" "?w < 32" and l: "length (ch_messages c) = 32"
    using assms(1) by (auto simp: ring_inv_def)
  have cnt: "unat (ch_count c + 1) = Suc ?n" using assms(2) by (simp add: unat_add_small)
  have len: "unat (of_nat (length data) :: u8) = length data"
    using assms(3) by (simp add: unat_of_nat take_bit_nat_eq_self)
  have old: "length (msg_data (ch_messages c ! ?w)) = 64" using assms(1) w(2) l by (simp add: ring_inv_def)
  have inv: "ring_inv (ring_put pid data c)"
    using assms w cnt len old unfolding ring_inv_def ring_put_def
    by (auto simp: unat_u8_succ_mod32 copy_message_def mod_Suc_eq dest!: set_update_subset_insert [THEN subsetD])
  have other: "message_at (ring_put pid data c) ((?r + k) mod 32) = message_at c ((?r + k) mod 32)" if "k < ?n" for k
  proof -
    have "(?r + k) mod 32 \<noteq> ?w" using ring_index_inj [of k 32 ?n ?r] that assms(2) w(1) by auto
    then show ?thesis using l by (simp add: message_at_def ring_put_def nth_update)
  qed
  have new: "message_at (ring_put pid data c) ?w = (pid, data)"
    using w(2) l len by (simp add: message_at_def ring_put_def copy_message_def)
  have "ring_elems (ring_put pid data c) = map (\<lambda>k. message_at (ring_put pid data c) ((?r + k) mod 32)) [0..<Suc ?n]"
    using cnt by (simp add: ring_elems_def ring_put_def)
  also have "\<dots> = ring_elems c @ [(pid, data)]"
    using other new w(1) by (simp add: ring_elems_def)
  finally show ?thesis using inv by simp
qed

lemma ring_drop_elems:
  assumes "ring_inv c" "ch_count c \<noteq> 0"
  shows "ring_inv (ring_drop c) \<and> ring_elems c = ring_front c # ring_elems (ring_drop c)"
proof -
  let ?r = "unat (ch_read c)" and ?n = "unat (ch_count c)"
  have r: "?r < 32" using assms(1) by (simp add: ring_inv_def)
  have n: "0 < ?n" using assms(2) by (simp add: unat_gt_0)
  have cnt: "unat (ch_count c - 1) = ?n - 1" using assms(2) by (simp add: unat_minus_one)
  have sh: "(Suc ?r mod 32 + k) mod 32 = (?r + Suc k) mod 32" for k by (simp add: mod_add_left_eq)
  have "ring_inv (ring_drop c)"
    using assms n cnt sh [of "?n - 1"] r by (simp add: ring_inv_def ring_drop_def unat_u8_succ_mod32) linarith
  moreover have "ring_elems (ring_drop c) = map (\<lambda>k. message_at c ((?r + Suc k) mod 32)) [0..<?n - 1]"
    using cnt r by (simp add: ring_elems_def ring_drop_def unat_u8_succ_mod32 sh message_at_def)
  moreover have "[0..<?n] = 0 # map Suc [0..<?n - 1]" using n by (simp add: upt_conv_Cons map_Suc_upt)
  ultimately show ?thesis
    using r by (simp add: ring_elems_def ring_front_def message_at_def)
qed

interpretation chan: bounded_fifo ring_inv ring_elems IPC_QUEUE_DEPTH ring_enq ring_deq msg_ok
proof (unfold_locales, goal_cases)
  case (1 c m c')
  then have "ch_count c \<noteq> 32" by (auto simp: ring_enq_def split: if_splits)
  then have "unat (ch_count c) \<noteq> 32" using unat_neq [of "ch_count c" 32] by simp
  with 1(1) have "unat (ch_count c) < 32" by (simp add: ring_inv_def)
  with 1 ring_put_elems [of c "snd m" "fst m"] show ?case by (auto simp: ring_enq_def msg_ok_def split: if_splits)
next
  case (2 c m)
  then show ?case using unat_neq [of "ch_count c" 32] by (auto simp: ring_enq_def ring_elems_def)
next
  case (3 c m c')
  then show ?case using ring_drop_elems [of c] by (auto simp: ring_deq_def split: if_splits)
next
  case (4 c)
  then show ?case using unat_gt_0 [of "ch_count c"] by (auto simp: ring_deq_def ring_elems_def)
next
  case (5 c)
  then show ?case by (simp add: ring_inv_def ring_elems_def)
qed

text \<open>A state with an empty channel table, for the witnesses.\<close>

definition ipc_example :: ipc_state where
  "ipc_example = ipc_init (mem_state.extend mem_example (ipc_state.fields capabilities_init [] 0 0 0))"

end
