(* ===== verification/Input.thy ===== *)
theory Input
  imports Ipc_Channel
begin

text \<open>
  The input event queue of \<open>src/src/input.c\<close>: a ring of 128 slots filled by the keyboard and mouse
  drivers, with at most one process waiting for an event. The queue is shown to implement a list of
  pending events, with motion events merged only into a motion event at the end of the list.
\<close>

section \<open>State\<close>

abbreviation (input) INPUT_QUEUE_CAPACITY :: nat where "INPUT_QUEUE_CAPACITY \<equiv> 128"
abbreviation (input) INPUT_KEY_DOWN :: u16 where "INPUT_KEY_DOWN \<equiv> 1"
abbreviation (input) INPUT_MOUSE_MOVE :: u16 where "INPUT_MOUSE_MOVE \<equiv> 3"
abbreviation (input) INPUT_MOUSE_SCROLL :: u16 where "INPUT_MOUSE_SCROLL \<equiv> 6"

text \<open>The signed 32-bit fields are kept as the words that hold them.\<close>

record input_event =
  ev_timestamp :: u64
  ev_type :: u16
  ev_code :: u16
  ev_x :: u32
  ev_y :: u32
  ev_delta_x :: u32
  ev_delta_y :: u32
  ev_value :: u32
  ev_modifiers :: u32

definition input_event_zero :: input_event where
  "input_event_zero = \<lparr>ev_timestamp = 0, ev_type = 0, ev_code = 0, ev_x = 0, ev_y = 0, ev_delta_x = 0, ev_delta_y = 0,
     ev_value = 0, ev_modifiers = 0\<rparr>"

text \<open>
  The 40 bytes of \<open>struct input_event\<close> as they are copied to a process; the four bytes of tail padding
  are taken to be zero.
\<close>

definition input_event_bytes :: "input_event \<Rightarrow> u8 list" where
  "input_event_bytes e = word_bytes 8 (ev_timestamp e) @ word_bytes 2 (ev_type e) @ word_bytes 2 (ev_code e) @
     word_bytes 4 (ev_x e) @ word_bytes 4 (ev_y e) @ word_bytes 4 (ev_delta_x e) @ word_bytes 4 (ev_delta_y e) @
     word_bytes 4 (ev_value e) @ word_bytes 4 (ev_modifiers e) @ replicate 4 0"

record input_waiter =
  inw_pid :: u32
  inw_address :: u64
  inw_active :: bool

record input_queue =
  iq_slots :: "input_event list"
  iq_read :: u16
  iq_write :: u16

record input_state = ipc_state +
  in_queue :: input_queue
  in_dropped_events :: u64
  in_userspace_deliveries :: u64
  in_coalesced_events :: u64
  in_waiter :: input_waiter

section \<open>The ring\<close>

definition queue_next :: "u16 \<Rightarrow> u16" where
  "queue_next i = (i + 1) mod 128"

definition queue_previous :: "u16 \<Rightarrow> u16" where
  "queue_previous i = (i + 127) mod 128"

text \<open>The end of \<open>input_publish\<close>: store and advance, or report a full ring.\<close>

definition queue_enq :: "input_event \<Rightarrow> input_queue \<Rightarrow> input_queue option" where
  "queue_enq e q =
     (if queue_next (iq_write q) = iq_read q then None
      else Some (q\<lparr>iq_slots := (iq_slots q)[unat (iq_write q) := e], iq_write := queue_next (iq_write q)\<rparr>))"

definition queue_deq :: "input_queue \<Rightarrow> (input_event \<times> input_queue) option" where
  "queue_deq q =
     (if iq_read q = iq_write q then None
      else Some (iq_slots q ! unat (iq_read q), q\<lparr>iq_read := queue_next (iq_read q)\<rparr>))"

section \<open>Operations\<close>

text \<open>\<open>input_init\<close> resets the indices and counters; the slots keep their contents.\<close>

definition input_init :: "'a input_state_scheme \<Rightarrow> 'a input_state_scheme" where
  "input_init s = s\<lparr>in_queue := (in_queue s)\<lparr>iq_read := 0, iq_write := 0\<rparr>, in_dropped_events := 0,
     in_userspace_deliveries := 0, in_coalesced_events := 0, in_waiter := \<lparr>inw_pid = 0, inw_address = 0, inw_active = False\<rparr>\<rparr>"

text \<open>The part of \<open>input_publish\<close> after the waiter: merge with the last event, or store.\<close>

definition input_enqueue :: "input_event \<Rightarrow> 'a input_state_scheme \<Rightarrow> bool \<times> 'a input_state_scheme" where
  "input_enqueue e s =
     (let q = in_queue s; previous = queue_previous (iq_write q) in
      if ev_type e = INPUT_MOUSE_MOVE \<and> iq_read q \<noteq> iq_write q \<and> ev_type (iq_slots q ! unat previous) = INPUT_MOUSE_MOVE
      then (True, s\<lparr>in_queue := q\<lparr>iq_slots := (iq_slots q)[unat previous := e]\<rparr>, in_coalesced_events := in_coalesced_events s + 1\<rparr>)
      else case queue_enq e q of
        None \<Rightarrow> (False, s\<lparr>in_dropped_events := in_dropped_events s + 1\<rparr>)
      | Some q' \<Rightarrow> (True, s\<lparr>in_queue := q'\<rparr>))"

definition input_publish :: "input_event \<Rightarrow> 'a input_state_scheme \<Rightarrow> bool \<times> 'a input_state_scheme" where
  "input_publish e s =
     (if ev_type e < INPUT_KEY_DOWN \<or> ev_type e > INPUT_MOUSE_SCROLL then (False, s)
      else if inw_active (in_waiter s)
      then let pid = inw_pid (in_waiter s); address = inw_address (in_waiter s);
               s1 = snd (ipc_cancel_wait pid (s\<lparr>in_waiter := (in_waiter s)\<lparr>inw_active := False\<rparr>\<rparr>));
               (copied, s2) = userspace_copy_to pid address (input_event_bytes e) s1 in
        if copied
        then let (woken, s3) = scheduler_wake pid 2 40 s2 in
          if woken then (True, s3\<lparr>in_userspace_deliveries := in_userspace_deliveries s3 + 1\<rparr>)
          else input_enqueue e s3
        else input_enqueue e s2
      else input_enqueue e s)"

definition input_poll :: "'a input_state_scheme \<Rightarrow> input_event option \<times> 'a input_state_scheme" where
  "input_poll s =
     (case queue_deq (in_queue s) of
        None \<Rightarrow> (None, s)
      | Some (e, q) \<Rightarrow> (Some e, s\<lparr>in_queue := q\<rparr>))"

definition input_wait :: "u32 \<Rightarrow> u64 \<Rightarrow> 'a input_state_scheme \<Rightarrow> bool \<times> 'a input_state_scheme" where
  "input_wait pid user_address s =
     (if pid = 0 \<or> user_address = 0 \<or> inw_active (in_waiter s) then (False, s)
      else (True, s\<lparr>in_waiter := \<lparr>inw_pid = pid, inw_address = user_address, inw_active = True\<rparr>\<rparr>))"

definition input_cancel_wait :: "u32 \<Rightarrow> 'a input_state_scheme \<Rightarrow> bool \<times> 'a input_state_scheme" where
  "input_cancel_wait pid s =
     (if \<not> inw_active (in_waiter s) \<or> inw_pid (in_waiter s) \<noteq> pid then (False, s)
      else (True, s\<lparr>in_waiter := (in_waiter s)\<lparr>inw_active := False\<rparr>\<rparr>))"

definition input_discard_pending :: "'a input_state_scheme \<Rightarrow> 'a input_state_scheme" where
  "input_discard_pending s = s\<lparr>in_queue := (in_queue s)\<lparr>iq_read := iq_write (in_queue s)\<rparr>\<rparr>"

text \<open>\<open>input_pending\<close> computes in signed 32-bit arithmetic.\<close>

definition input_pending :: "'a input_state_scheme \<Rightarrow> u32" where
  "input_pending s =
     (let pending = ucast (iq_write (in_queue s)) - ucast (iq_read (in_queue s)) :: u32 in
      if sint pending < 0 then pending + 128 else pending)"

section \<open>The ring is a bounded queue\<close>

definition queue_inv :: "input_queue \<Rightarrow> bool" where
  "queue_inv q \<longleftrightarrow> length (iq_slots q) = INPUT_QUEUE_CAPACITY \<and> unat (iq_read q) < INPUT_QUEUE_CAPACITY \<and>
     unat (iq_write q) < INPUT_QUEUE_CAPACITY"

definition queue_length :: "input_queue \<Rightarrow> nat" where
  "queue_length q = (unat (iq_write q) + INPUT_QUEUE_CAPACITY - unat (iq_read q)) mod INPUT_QUEUE_CAPACITY"

definition queue_elems :: "input_queue \<Rightarrow> input_event list" where
  "queue_elems q = map (\<lambda>k. iq_slots q ! ((unat (iq_read q) + k) mod INPUT_QUEUE_CAPACITY)) [0..<queue_length q]"

lemma length_queue_elems [simp]: "length (queue_elems q) = queue_length q"
  by (simp add: queue_elems_def)

lemma unat_queue_next: "unat i < 128 \<Longrightarrow> unat (queue_next i) = Suc (unat i) mod 128"
  by (simp add: queue_next_def unat_mod unat_add_small)

lemma unat_queue_previous: "unat i < 128 \<Longrightarrow> unat (queue_previous i) = (unat i + 127) mod 128"
  by (simp add: queue_previous_def unat_mod unat_add_small)

lemma queue_write_eq: "queue_inv q \<Longrightarrow> (unat (iq_read q) + queue_length q) mod 128 = unat (iq_write q)"
  by (simp add: queue_inv_def queue_length_def mod_add_right_eq)

lemma queue_length_less: "queue_length q < 128"
  by (simp add: queue_length_def)

lemma queue_ring: "queue_elems q = ring_list 128 (iq_slots q) (unat (iq_read q)) (unat (iq_write q))"
  by (simp add: queue_elems_def ring_list_def queue_length_def ring_size_def)

lemma queue_size: "queue_length q = ring_size 128 (unat (iq_read q)) (unat (iq_write q))"
  by (simp add: queue_length_def ring_size_def)

lemma queue_length_0: "queue_inv q \<Longrightarrow> queue_length q = 0 \<longleftrightarrow> iq_read q = iq_write q"
  by (simp add: queue_size queue_inv_def ring_size_0 word_unat_eq_iff)

lemma queue_full: "queue_inv q \<Longrightarrow> queue_next (iq_write q) = iq_read q \<longleftrightarrow> queue_length q = 127"
  using ring_full [of "unat (iq_read q)" 128 "unat (iq_write q)"]
  by (simp add: queue_size queue_inv_def unat_queue_next word_unat_eq_iff)

lemma queue_enq_elems:
  assumes "queue_inv q" "queue_enq e q = Some q'"
  shows "queue_inv q' \<and> queue_elems q' = queue_elems q @ [e]"
proof -
  have b: "unat (iq_read q) < 128" "unat (iq_write q) < 128" "length (iq_slots q) = 128" using assms(1) by (auto simp: queue_inv_def)
  have q': "q' = q\<lparr>iq_slots := (iq_slots q)[unat (iq_write q) := e], iq_write := queue_next (iq_write q)\<rparr>"
    and nf: "Suc (unat (iq_write q)) mod 128 \<noteq> unat (iq_read q)"
    using assms unat_queue_next [OF b(2)] by (auto simp: queue_enq_def word_unat_eq_iff split: if_splits)
  show ?thesis using b ring_list_put [OF b nf] by (simp add: q' queue_inv_def queue_ring unat_queue_next)
qed

lemma queue_deq_elems:
  assumes "queue_inv q" "queue_deq q = Some (e, q')"
  shows "queue_inv q' \<and> queue_elems q = e # queue_elems q'"
proof -
  have b: "unat (iq_read q) < 128" "unat (iq_write q) < 128" "length (iq_slots q) = 128" using assms(1) by (auto simp: queue_inv_def)
  have q': "q' = q\<lparr>iq_read := queue_next (iq_read q)\<rparr>" "e = iq_slots q ! unat (iq_read q)" and ne: "unat (iq_read q) \<noteq> unat (iq_write q)"
    using assms by (auto simp: queue_deq_def word_unat_eq_iff split: if_splits)
  show ?thesis using b ring_list_take [OF b(1,2) ne] by (simp add: q' queue_inv_def queue_ring unat_queue_next)
qed

interpretation evq: bounded_fifo queue_inv queue_elems 127 queue_enq queue_deq "\<lambda>_. True"
proof (unfold_locales, goal_cases)
  case (1 q e q')
  then show ?case using queue_enq_elems by blast
next
  case (2 q e)
  then show ?case using queue_full by (auto simp: queue_enq_def)
next
  case (3 q e q')
  then show ?case using queue_deq_elems by blast
next
  case (4 q)
  then show ?case using queue_length_0 [OF 4] by (simp add: queue_deq_def queue_elems_def)
next
  case (5 q)
  then show ?case using queue_length_less [of q] by simp
qed

section \<open>Properties\<close>

lemma queue_last:
  assumes "queue_inv q" "iq_read q \<noteq> iq_write q"
  shows "iq_slots q ! unat (queue_previous (iq_write q)) = last (queue_elems q)" "queue_elems q \<noteq> []"
    and "queue_elems (q\<lparr>iq_slots := (iq_slots q)[unat (queue_previous (iq_write q)) := e]\<rparr>) = butlast (queue_elems q) @ [e]"
proof -
  let ?r = "unat (iq_read q)" and ?n = "queue_length q" and ?p = "unat (queue_previous (iq_write q))"
  have b: "?r < 128" "unat (iq_write q) < 128" "length (iq_slots q) = 128" using assms(1) by (auto simp: queue_inv_def)
  have n: "0 < ?n" "?n < 128" using queue_length_0 [OF assms(1)] assms(2) queue_length_less [of q] by auto
  have "?p = (?r + (?n - 1)) mod 128"
  proof -
    have "?p = ((?r + ?n) mod 128 + 127) mod 128" by (simp only: queue_write_eq [OF assms(1)] unat_queue_previous [OF b(2)])
    also have "\<dots> = (?r + ?n + 127) mod 128" by (simp add: mod_add_left_eq)
    also have "?r + ?n + 127 = ?r + (?n - 1) + 128" using n by simp
    finally show ?thesis by simp
  qed
  note p = this
  have u: "[0..<?n] = [0..<?n - 1] @ [?n - 1]" using n by (metis Suc_pred' upt_Suc_append zero_le)
  show "queue_elems q \<noteq> []" using n by (simp add: queue_elems_def)
  show "iq_slots q ! ?p = last (queue_elems q)" using u p by (simp add: queue_elems_def)
  have "(iq_slots q)[?p := e] ! ((?r + k) mod 128) = iq_slots q ! ((?r + k) mod 128)" if "k < ?n - 1" for k
  proof -
    have "?n - 1 < 128" "k < 128" using n that by simp_all
    then have "(?r + k) mod 128 \<noteq> ?p" using ring_index_inj [of k 128 "?n - 1" ?r] that p by auto
    then show ?thesis using b by (simp add: nth_update)
  qed
  moreover have "?p < 128" using p by simp
  moreover have "queue_length (q\<lparr>iq_slots := (iq_slots q)[?p := e]\<rparr>) = ?n" by (simp add: queue_length_def)
  ultimately show "queue_elems (q\<lparr>iq_slots := (iq_slots q)[?p := e]\<rparr>) = butlast (queue_elems q) @ [e]"
    using u p b by (simp add: queue_elems_def)
qed

lemma input_enqueue_spec:
  assumes inv: "queue_inv (in_queue s)" and r: "input_enqueue e s = (b, s')"
  shows "queue_inv (in_queue s') \<and>
    queue_elems (in_queue s') =
      (let es = queue_elems (in_queue s) in
       if ev_type e = INPUT_MOUSE_MOVE \<and> es \<noteq> [] \<and> ev_type (last es) = INPUT_MOUSE_MOVE then butlast es @ [e]
       else if length es = 127 then es else es @ [e]) \<and>
    (b \<longleftrightarrow> in_dropped_events s' = in_dropped_events s) \<and> s' = s\<lparr>in_queue := in_queue s',
      in_dropped_events := in_dropped_events s', in_coalesced_events := in_coalesced_events s'\<rparr>"
proof (cases "ev_type e = INPUT_MOUSE_MOVE \<and> iq_read (in_queue s) \<noteq> iq_write (in_queue s) \<and>
    ev_type (iq_slots (in_queue s) ! unat (queue_previous (iq_write (in_queue s)))) = INPUT_MOUSE_MOVE")
  case True
  note l = queue_last [OF inv conjunct1 [OF conjunct2 [OF True]]]
  have "queue_inv (in_queue s')"
    using r True inv by (auto simp: input_enqueue_def Let_def queue_inv_def)
  then show ?thesis using r True l by (auto simp: input_enqueue_def Let_def)
next
  case False
  have e: "iq_read (in_queue s) = iq_write (in_queue s) \<longleftrightarrow> queue_elems (in_queue s) = []"
    using queue_length_0 [OF inv] by (simp add: queue_elems_def)
  have nm: "\<not> (ev_type e = INPUT_MOUSE_MOVE \<and> queue_elems (in_queue s) \<noteq> [] \<and> ev_type (last (queue_elems (in_queue s))) = INPUT_MOUSE_MOVE)"
    using False e queue_last(1) [OF inv] by auto
  show ?thesis
  proof (cases "queue_enq e (in_queue s)")
    case None
    with nm False r inv evq.enq_None [OF inv, of e] show ?thesis by (auto simp: input_enqueue_def Let_def)
  next
    case (Some q)
    with nm False r inv evq.enq_None [OF inv, of e] evq.enq_Some [OF inv TrueI Some] show ?thesis
      by (auto simp: input_enqueue_def Let_def)
  qed
qed

definition input_example :: "input_queue" where
  "input_example = \<lparr>iq_slots = replicate 128 input_event_zero, iq_read = 127, iq_write = 127\<rparr>"

definition input_state_example :: input_state where
  "input_state_example = ipc_state.extend ipc_example (input_state.fields input_example 0 0 0 \<lparr>inw_pid = 0, inw_address = 0, inw_active = False\<rparr>)"

lemma input_state_example_simps:
  "in_queue input_state_example = input_example" "inw_active (in_waiter input_state_example) = False"
  by (simp_all add: input_state_example_def input_state.defs ipc_state.defs)

lemma input_example_inv: "queue_inv input_example"
  by (simp add: queue_inv_def input_example_def)



text \<open>
  The event ring is a FIFO. Over any sequence of stores and polls the polled events followed by the
  pending ones are the events pending at first followed by the accepted ones, in order; at most 127 events
  are pending.
\<close>

theorem input_queue_fifo:
  assumes "queue_inv q" "evq.run ops q = (accepted, polled, q')"
  shows "polled @ queue_elems q' = queue_elems q @ accepted \<and> length (queue_elems q') \<le> 127"
  using evq.run_conserves [OF assms(1) _ assms(2)] evq.elems_le_cap by blast

theorem input_queue_fifo_witness:
  "\<exists>accepted polled q'. evq.run [Enq input_event_zero, Deq, Deq] input_example = (accepted, polled, q') \<and>
     polled @ queue_elems q' = queue_elems input_example @ accepted"
proof -
  obtain a p q' where "evq.run [Enq input_event_zero, Deq, Deq] input_example = (a, p, q')" by (metis prod_cases3)
  with input_queue_fifo [OF input_example_inv this] show ?thesis by blast
qed

end
