(* ===== verification/Ipc.thy ===== *)
theory Ipc
  imports Input
begin

text \<open>
  The message channels of \<open>src/src/ipc.c\<close>: creation and connection through capabilities, sending (with direct
  delivery to a waiting receiver, queueing, and parking of one sender when the queue is full), receiving with
  hand-over of the parked message, waiting, and the cleanup when a process goes away.
\<close>

section \<open>Operations\<close>

definition ipc_create :: "u32 \<Rightarrow> u8 list \<Rightarrow> 'a input_state_scheme \<Rightarrow> u64 \<times> 'a input_state_scheme" where
  "ipc_create owner name s =
     (if owner = 0 \<or> length name = 0 \<or> length name \<ge> IPC_NAME_MAX then (UINT64_MAX, s)
      else if list_ex (\<lambda>c. ch_active c \<and> same_name c name) (ipc_channels s) then (UINT64_MAX, s)
      else case first_index (\<lambda>c. \<not> ch_active c) (ipc_channels s) of
        None \<Rightarrow> (UINT64_MAX, s)
      | Some i \<Rightarrow>
          (let s1 = set_channel i (\<lambda>_. (ipc_channel_zero (of_nat i + 1))\<lparr>ch_owner := owner, ch_name := name, ch_active := True\<rparr>) s;
               (handle, caps) = capability_open_ipc (ipc_caps s1) owner (of_nat i + 1)
                  (CAPABILITY_RIGHT_SEND OR CAPABILITY_RIGHT_RECEIVE OR CAPABILITY_RIGHT_QUERY);
               s2 = s1\<lparr>ipc_caps := caps\<rparr> in
           (handle, if handle = UINT64_MAX then set_channel i (\<lambda>c. c\<lparr>ch_active := False\<rparr>) s2 else s2)))"

definition ipc_connect :: "u32 \<Rightarrow> u8 list \<Rightarrow> 'a input_state_scheme \<Rightarrow> u64 \<times> 'a input_state_scheme" where
  "ipc_connect pid name s =
     (if pid = 0 \<or> length name = 0 \<or> length name \<ge> IPC_NAME_MAX then (UINT64_MAX, s)
      else case first_index (\<lambda>c. ch_active c \<and> same_name c name) (ipc_channels s) of
        None \<Rightarrow> (UINT64_MAX, s)
      | Some i \<Rightarrow>
          (let (handle, caps) = capability_open_ipc (ipc_caps s) pid (ch_id (ipc_channels s ! i))
                 (CAPABILITY_RIGHT_SEND OR CAPABILITY_RIGHT_QUERY) in
           (handle, s\<lparr>ipc_caps := caps\<rparr>)))"

text \<open>The results 0, 1 and 2 of \<open>ipc_send_impl\<close>.\<close>

datatype ipc_send_result = Send_Failed | Send_Delivered | Send_Parked

definition ipc_deliver :: "u32 \<Rightarrow> nat \<Rightarrow> u8 list \<Rightarrow> 'a input_state_scheme \<Rightarrow> ipc_send_result \<times> 'a input_state_scheme" where
  "ipc_deliver pid i data s =
     (let w = ch_waiter (ipc_channels s ! i);
          s1 = set_channel i (\<lambda>c. c\<lparr>ch_waiter := (ch_waiter c)\<lparr>iw_active := False\<rparr>\<rparr>) s;
          s2 = (if iw_multiplex w then snd (input_cancel_wait (iw_pid w) s1) else s1);
          result = (if iw_multiplex w then 1 else of_nat (length data));
          detail = (if iw_multiplex w then of_nat (length data) else ucast pid) in
      if of_nat (length data) > iw_capacity w then (Send_Failed, s2\<lparr>ipc_dropped_count := ipc_dropped_count s2 + 1\<rparr>)
      else let (copied, s3) = userspace_copy_to (iw_pid w) (iw_address w) data s2 in
        if \<not> copied then (Send_Failed, s3\<lparr>ipc_dropped_count := ipc_dropped_count s3 + 1\<rparr>)
        else let (woken, s4) = scheduler_wake (iw_pid w) result detail s3 in
          if \<not> woken then (Send_Failed, s4\<lparr>ipc_dropped_count := ipc_dropped_count s4 + 1\<rparr>)
          else (Send_Delivered, s4\<lparr>ipc_sent_count := ipc_sent_count s4 + 1, ipc_received_count := ipc_received_count s4 + 1\<rparr>))"

definition ipc_send_impl :: "u32 \<Rightarrow> u64 \<Rightarrow> u8 list \<Rightarrow> bool \<Rightarrow> 'a input_state_scheme \<Rightarrow> ipc_send_result \<times> 'a input_state_scheme" where
  "ipc_send_impl pid handle data block s =
     (case ipc_resolve pid handle CAPABILITY_RIGHT_SEND s of
        (None, s1) \<Rightarrow> (Send_Failed, s1)
      | (Some i, s1) \<Rightarrow>
          (let c = ipc_channels s1 ! i in
           if length data = 0 \<or> length data > IPC_MESSAGE_MAX then (Send_Failed, s1)
           else if iw_active (ch_waiter c) then ipc_deliver pid i data s1
           else if ch_count c = 32
           then if \<not> block \<or> sw_active (ch_sender c) then (Send_Failed, s1\<lparr>ipc_dropped_count := ipc_dropped_count s1 + 1\<rparr>)
                else (Send_Parked, set_channel i (\<lambda>c. c\<lparr>ch_sender := \<lparr>sw_pid = pid,
                        sw_data = copy_message (sw_data (ch_sender c)) data, sw_length = of_nat (length data), sw_active = True\<rparr>\<rparr>) s1)
           else (Send_Delivered, (set_channel i (ring_put pid data) s1)\<lparr>ipc_sent_count := ipc_sent_count s1 + 1\<rparr>)))"

definition ipc_send :: "u32 \<Rightarrow> u64 \<Rightarrow> u8 list \<Rightarrow> 'a input_state_scheme \<Rightarrow> bool \<times> 'a input_state_scheme" where
  "ipc_send pid handle data s = (let (r, s') = ipc_send_impl pid handle data False s in (r = Send_Delivered, s'))"

definition ipc_send_block :: "u32 \<Rightarrow> u64 \<Rightarrow> u8 list \<Rightarrow> 'a input_state_scheme \<Rightarrow> ipc_send_result \<times> 'a input_state_scheme" where
  "ipc_send_block pid handle data s = ipc_send_impl pid handle data True s"

text \<open>Moving the parked message of a channel into the freed slot and waking its sender.\<close>

definition ipc_handover :: "nat \<Rightarrow> 'a input_state_scheme \<Rightarrow> 'a input_state_scheme" where
  "ipc_handover i s =
     (let parked = ch_sender (ipc_channels s ! i) in
      if sw_active parked
      then snd (scheduler_wake (sw_pid parked) (ucast (sw_length parked)) 0
             (set_channel i (\<lambda>c. ring_put (sw_pid parked) (take (unat (sw_length parked)) (sw_data parked))
                (c\<lparr>ch_sender := (ch_sender c)\<lparr>sw_active := False\<rparr>\<rparr>)) s))
      else s)"

definition ipc_receive :: "u32 \<Rightarrow> u64 \<Rightarrow> nat \<Rightarrow> 'a input_state_scheme \<Rightarrow> (u32 \<times> u8 list) option \<times> 'a input_state_scheme" where
  "ipc_receive pid handle capacity s =
     (case ipc_resolve pid handle CAPABILITY_RIGHT_RECEIVE s of
        (None, s1) \<Rightarrow> (None, s1)
      | (Some i, s1) \<Rightarrow>
          (let c = ipc_channels s1 ! i in
           if ch_count c = 0 then (None, s1)
           else if unat (msg_length (ch_messages c ! unat (ch_read c))) > capacity then (None, s1)
           else (Some (ring_front c),
                 ipc_handover i ((set_channel i ring_drop s1)\<lparr>ipc_received_count := ipc_received_count s1 + 1\<rparr>))))"

text \<open>\<open>ipc_wait\<close> and \<open>ipc_wait_select\<close> differ in the flag \<open>multiplex\<close>.\<close>

definition ipc_wait_as :: "bool \<Rightarrow> u32 \<Rightarrow> u64 \<Rightarrow> u64 \<Rightarrow> nat \<Rightarrow> 'a input_state_scheme \<Rightarrow> bool \<times> 'a input_state_scheme" where
  "ipc_wait_as multiplex pid handle address capacity s =
     (case ipc_resolve pid handle CAPABILITY_RIGHT_RECEIVE s of
        (None, s1) \<Rightarrow> (False, s1)
      | (Some i, s1) \<Rightarrow>
          (if iw_active (ch_waiter (ipc_channels s1 ! i)) \<or> capacity = 0 \<or> capacity > IPC_MESSAGE_MAX then (False, s1)
           else (True, set_channel i (\<lambda>c. c\<lparr>ch_waiter := \<lparr>iw_pid = pid, iw_address = address, iw_capacity = of_nat capacity,
                   iw_active = True, iw_multiplex = multiplex\<rparr>\<rparr>) s1)))"

definition ipc_wait :: "u32 \<Rightarrow> u64 \<Rightarrow> u64 \<Rightarrow> nat \<Rightarrow> 'a input_state_scheme \<Rightarrow> bool \<times> 'a input_state_scheme" where
  "ipc_wait = ipc_wait_as False"

definition ipc_wait_select :: "u32 \<Rightarrow> u64 \<Rightarrow> u64 \<Rightarrow> nat \<Rightarrow> 'a input_state_scheme \<Rightarrow> bool \<times> 'a input_state_scheme" where
  "ipc_wait_select = ipc_wait_as True"

definition ipc_channel_owner :: "u32 \<Rightarrow> u64 \<Rightarrow> 'a input_state_scheme \<Rightarrow> u32 option \<times> 'a input_state_scheme" where
  "ipc_channel_owner pid handle s =
     (case ipc_resolve pid handle CAPABILITY_RIGHT_QUERY s of
        (None, s1) \<Rightarrow> (None, s1)
      | (Some i, s1) \<Rightarrow> (if ch_owner (ipc_channels s1 ! i) = 0 then None else Some (ch_owner (ipc_channels s1 ! i)), s1))"

text \<open>The body of the loop of \<open>ipc_process_cleanup\<close> for one channel, in its three parts.\<close>

definition cleanup_waiters :: "u32 \<Rightarrow> ipc_channel \<Rightarrow> ipc_channel" where
  "cleanup_waiters pid c =
     (let c1 = (if iw_active (ch_waiter c) \<and> iw_pid (ch_waiter c) = pid then c\<lparr>ch_waiter := (ch_waiter c)\<lparr>iw_active := False\<rparr>\<rparr> else c) in
      if sw_active (ch_sender c1) \<and> sw_pid (ch_sender c1) = pid then c1\<lparr>ch_sender := (ch_sender c1)\<lparr>sw_active := False\<rparr>\<rparr> else c1)"

definition cleanup_wake :: "nat \<Rightarrow> 'a input_state_scheme \<Rightarrow> 'a input_state_scheme" where
  "cleanup_wake i s =
     (let w = ch_waiter (ipc_channels s ! i);
          s1 = (if iw_active w
                then snd (scheduler_wake (iw_pid w) UINT64_MAX 0
                       (if iw_multiplex w then snd (input_cancel_wait (iw_pid w) s) else s))
                else s);
          sd = ch_sender (ipc_channels s1 ! i) in
      if sw_active sd
      then snd (scheduler_wake (sw_pid sd) UINT64_MAX 0
             (set_channel i (\<lambda>c. c\<lparr>ch_sender := (ch_sender c)\<lparr>sw_active := False\<rparr>\<rparr>) s1))
      else s1)"

definition cleanup_channel :: "u32 \<Rightarrow> nat \<Rightarrow> 'a input_state_scheme \<Rightarrow> 'a input_state_scheme" where
  "cleanup_channel pid i s =
     (if \<not> ch_active (ipc_channels s ! i) then s
      else let s1 = set_channel i (cleanup_waiters pid) s in
        if ch_owner (ipc_channels s1 ! i) = pid
        then set_channel i (\<lambda>c. c\<lparr>ch_active := False, ch_count := 0, ch_waiter := (ch_waiter c)\<lparr>iw_active := False\<rparr>\<rparr>) (cleanup_wake i s1)
        else s1)"

definition ipc_process_cleanup :: "u32 \<Rightarrow> 'a input_state_scheme \<Rightarrow> 'a input_state_scheme" where
  "ipc_process_cleanup pid s =
     fold (cleanup_channel pid) [0..<IPC_CHANNEL_LIMIT] (snd (input_cancel_wait pid s))"

section \<open>Frame lemmas\<close>

lemma scheduler_wake_frame [simp]:
  "ipc_channels (snd (scheduler_wake p r d s)) = ipc_channels s" "ipc_caps (snd (scheduler_wake p r d s)) = ipc_caps s"
  "ipc_sent_count (snd (scheduler_wake p r d s)) = ipc_sent_count s"
  "ipc_received_count (snd (scheduler_wake p r d s)) = ipc_received_count s"
  "ipc_dropped_count (snd (scheduler_wake p r d s)) = ipc_dropped_count s"
  for s :: "'a ipc_state_scheme"
  by (simp_all add: scheduler_wake_def set_task_def set_frame_def)

lemma scheduler_wake_input_frame [simp]:
  "in_waiter (snd (scheduler_wake p r d s)) = in_waiter s" "in_queue (snd (scheduler_wake p r d s)) = in_queue s"
  by (simp_all add: scheduler_wake_def set_task_def set_frame_def)

lemma userspace_copy_to_frame [simp]:
  "ipc_channels (snd (userspace_copy_to p a d s)) = ipc_channels s" "ipc_caps (snd (userspace_copy_to p a d s)) = ipc_caps s"
  for s :: "'a ipc_state_scheme"
  by (simp_all add: userspace_copy_to_def Let_def)

lemma userspace_copy_to_input_frame [simp]:
  "in_waiter (snd (userspace_copy_to p a d s)) = in_waiter s" "in_queue (snd (userspace_copy_to p a d s)) = in_queue s"
  by (simp_all add: userspace_copy_to_def Let_def)

lemma input_cancel_wait_frame [simp]:
  "ipc_channels (snd (input_cancel_wait p s)) = ipc_channels s" "ipc_caps (snd (input_cancel_wait p s)) = ipc_caps s"
  "in_queue (snd (input_cancel_wait p s)) = in_queue s" "sch_tasks (snd (input_cancel_wait p s)) = sch_tasks s"
  by (simp_all add: input_cancel_wait_def)

lemma set_channel_simps [simp]:
  "ipc_channels (set_channel i f s) = (ipc_channels s)[i := f (ipc_channels s ! i)]"
  "ipc_caps (set_channel i f s) = ipc_caps s" "sch_tasks (set_channel i f s) = sch_tasks s"
  "ipc_sent_count (set_channel i f s) = ipc_sent_count s" "ipc_received_count (set_channel i f s) = ipc_received_count s"
  "sch_current_pid (set_channel i f s) = sch_current_pid s"
  by (simp_all add: set_channel_def)

lemma set_channel_input [simp]: "in_waiter (set_channel i f s) = in_waiter s" "in_queue (set_channel i f s) = in_queue s"
  by (simp_all add: set_channel_def)

lemma ipc_resolve_state: "snd (ipc_resolve pid h r s) = s\<lparr>ipc_caps := snd (capability_resolve_object (ipc_caps s) pid h r)\<rparr>"
  by (auto simp: ipc_resolve_def split: option.splits prod.splits)

lemma ipc_resolve_channels [simp]: "ipc_channels (snd (ipc_resolve pid h r s)) = ipc_channels s"
  by (simp add: ipc_resolve_state)

lemma ipc_resolve_SomeD:
  assumes "ipc_resolve pid h r s = (Some i, s1)"
  shows "i < 16" "ch_active (ipc_channels s ! i)" "s1 = s"
    and "fst (capability_resolve_object (ipc_caps s) pid h r) = Some (CAPABILITY_SERVICE_IPC, of_nat i + 1)"
proof -
  obtain q c where q: "capability_resolve_object (ipc_caps s) pid h r = (q, c)" by (metis surj_pair)
  with assms have "q \<noteq> None" by (cases q) (auto simp: ipc_resolve_def)
  then obtain service cid where "q = Some (service, cid)" by (metis option.exhaust surj_pair)
  with q have c: "capability_resolve_object (ipc_caps s) pid h r = (Some (service, cid), c)" by simp
  have sv: "service = CAPABILITY_SERVICE_IPC" and b: "by_id cid (s\<lparr>ipc_caps := c\<rparr>) = Some i" and s1: "s1 = s\<lparr>ipc_caps := c\<rparr>"
    using assms by (auto simp: ipc_resolve_def c split: if_splits)
  from c have "c = ipc_caps s" by (simp add: capability_resolve_object_Some)
  with s1 show s1': "s1 = s" by simp
  have cid: "cid \<noteq> 0" "unat cid \<le> 16" "i = unat cid - 1" "ch_active (ipc_channels s ! i)"
    using b by (auto simp: by_id_def split: if_splits)
  have "0 < unat cid" using cid(1) by (simp add: unat_gt_0)
  with cid show "i < 16" "ch_active (ipc_channels s ! i)" by auto
  have "i = unat (cid - 1)" by (simp only: unat_dec_u32 [OF cid(1)] cid(3))
  then have "of_nat i = cid - 1" by (simp only: word_nat_of_unat)
  with c sv show "fst (capability_resolve_object (ipc_caps s) pid h r) = Some (CAPABILITY_SERVICE_IPC, of_nat i + 1)" by simp
qed

lemma ipc_resolve_NoneD: "ipc_resolve pid h r s = (None, s1) \<Longrightarrow> ipc_channels s1 = ipc_channels s"
  using ipc_resolve_channels [of pid h r s] by simp

section \<open>Invariant and abstraction\<close>

text \<open>The channel as the list of messages accepted and not yet received: the ring, then the parked message.\<close>

definition parked :: "ipc_channel \<Rightarrow> (u32 \<times> u8 list) list" where
  "parked c = (if sw_active (ch_sender c)
     then [(sw_pid (ch_sender c), take (unat (sw_length (ch_sender c))) (sw_data (ch_sender c)))] else [])"

definition pending :: "ipc_channel \<Rightarrow> (u32 \<times> u8 list) list" where
  "pending c = ring_elems c @ parked c"

definition chan_ok :: "ipc_channel \<Rightarrow> bool" where
  "chan_ok c \<longleftrightarrow> ring_inv c \<and> (sw_active (ch_sender c) \<longrightarrow> ch_count c = 32) \<and>
     length (sw_data (ch_sender c)) = IPC_MESSAGE_MAX \<and> unat (sw_length (ch_sender c)) \<le> IPC_MESSAGE_MAX"

definition ipc_inv :: "'a ipc_state_scheme \<Rightarrow> bool" where
  "ipc_inv s \<longleftrightarrow> length (ipc_channels s) = IPC_CHANNEL_LIMIT \<and>
     (\<forall>i < IPC_CHANNEL_LIMIT. ch_id (ipc_channels s ! i) = of_nat i + 1 \<and>
        (ch_active (ipc_channels s ! i) \<longrightarrow> chan_ok (ipc_channels s ! i)))"

lemma ipc_inv_cong: "ipc_channels s' = ipc_channels s \<Longrightarrow> ipc_inv s' = ipc_inv s"
  by (simp add: ipc_inv_def)

lemma ipc_inv_set_channel:
  assumes "ipc_inv s" "ch_id (f (ipc_channels s ! i)) = ch_id (ipc_channels s ! i)"
    and "ch_active (f (ipc_channels s ! i)) \<Longrightarrow> chan_ok (f (ipc_channels s ! i))"
  shows "ipc_inv (set_channel i f s)"
  using assms by (auto simp: ipc_inv_def nth_update)

lemma ring_inv_cong:
  "ch_messages c' = ch_messages c \<Longrightarrow> ch_read c' = ch_read c \<Longrightarrow> ch_write c' = ch_write c \<Longrightarrow> ch_count c' = ch_count c \<Longrightarrow>
   ring_inv c' = ring_inv c \<and> ring_elems c' = ring_elems c"
  by (simp add: ring_inv_def ring_elems_def message_at_def)

lemma chan_ok_waiter [simp]: "chan_ok (c\<lparr>ch_waiter := w\<rparr>) = chan_ok c"
  by (simp add: chan_ok_def ring_inv_def)

lemma pending_waiter [simp]: "pending (c\<lparr>ch_waiter := w\<rparr>) = pending c"
  by (simp add: pending_def parked_def ring_elems_def message_at_def)

lemma chan_ok_unpark: "chan_ok c \<Longrightarrow> chan_ok (c\<lparr>ch_sender := (ch_sender c)\<lparr>sw_active := False\<rparr>\<rparr>)"
  by (simp add: chan_ok_def ring_inv_def)

lemma ring_put_sender [simp]:
  "ch_sender (ring_put p d c) = ch_sender c" "ch_id (ring_put p d c) = ch_id c" "ch_active (ring_put p d c) = ch_active c"
  "ch_waiter (ring_put p d c) = ch_waiter c" "ch_sender (ring_drop c) = ch_sender c" "ch_id (ring_drop c) = ch_id c"
  "ch_active (ring_drop c) = ch_active c" "ch_waiter (ring_drop c) = ch_waiter c" "ch_owner (ring_put p d c) = ch_owner c"
  by (simp_all add: ring_put_def ring_drop_def)

lemma ring_room: "ring_inv c \<Longrightarrow> ch_count c \<noteq> 32 \<Longrightarrow> unat (ch_count c) < 32"
  using unat_neq [of "ch_count c" 32] by (simp add: ring_inv_def)

lemma ring_put_ok:
  assumes "chan_ok c" "ch_count c \<noteq> 32" "length data \<le> 64"
  shows "chan_ok (ring_put pid data c) \<and> pending (ring_put pid data c) = pending c @ [(pid, data)]"
proof -
  have "\<not> sw_active (ch_sender c)" "ring_inv c" using assms by (auto simp: chan_ok_def)
  with ring_put_elems [OF _ ring_room [OF _ assms(2)] assms(3), of pid] assms(1) show ?thesis
    by (simp add: chan_ok_def pending_def parked_def)
qed

definition park :: "u32 \<Rightarrow> u8 list \<Rightarrow> ipc_channel \<Rightarrow> ipc_channel" where
  "park pid data c = c\<lparr>ch_sender := \<lparr>sw_pid = pid, sw_data = copy_message (sw_data (ch_sender c)) data,
     sw_length = of_nat (length data), sw_active = True\<rparr>\<rparr>"

lemma park_ok:
  assumes "chan_ok c" "ch_count c = 32" "\<not> sw_active (ch_sender c)" "length data \<le> 64"
  shows "chan_ok (park pid data c) \<and> pending (park pid data c) = pending c @ [(pid, data)]"
proof -
  have "unat (of_nat (length data) :: u8) = length data"
    using assms(4) by (simp add: unat_of_nat take_bit_nat_eq_self)
  with assms show ?thesis
    by (simp add: chan_ok_def park_def pending_def parked_def copy_message_def ring_inv_def ring_elems_def message_at_def)
qed

text \<open>Receiving: drop the front, then move the parked message into the ring.\<close>

definition take_and_refill :: "ipc_channel \<Rightarrow> ipc_channel" where
  "take_and_refill c =
     (let d = ring_drop c; p = ch_sender d in
      if sw_active p then ring_put (sw_pid p) (take (unat (sw_length p)) (sw_data p)) (d\<lparr>ch_sender := p\<lparr>sw_active := False\<rparr>\<rparr>)
      else d)"

lemma take_and_refill_ok:
  assumes "chan_ok c" "ch_count c \<noteq> 0"
  shows "chan_ok (take_and_refill c) \<and> pending c = ring_front c # pending (take_and_refill c)"
proof -
  let ?d = "ring_drop c" and ?p = "ch_sender c"
  have r: "ring_inv ?d" "ring_elems c = ring_front c # ring_elems ?d"
    using ring_drop_elems [of c] assms by (auto simp: chan_ok_def)
  show ?thesis
  proof (cases "sw_active ?p")
    case False
    with r assms show ?thesis by (simp add: take_and_refill_def pending_def parked_def chan_ok_def)
  next
    case True
    let ?u = "?d\<lparr>ch_sender := ?p\<lparr>sw_active := False\<rparr>\<rparr>"
    have u: "ring_inv ?u" "ring_elems ?u = ring_elems ?d" using r(1) ring_inv_cong [of ?u ?d] by simp_all
    have ln: "length (ring_elems c) \<le> 32" using assms(1) chan.elems_le_cap by (simp add: chan_ok_def)
    have "ch_count ?u \<noteq> 32"
    proof
      assume "ch_count ?u = 32"
      then have "length (ring_elems ?d) = 32" by (simp add: ring_elems_def)
      with r(2) ln show False by simp
    qed
    with ring_put_ok [of ?u "take (unat (sw_length ?p)) (sw_data ?p)" "sw_pid ?p"] u r assms True show ?thesis
      by (simp add: take_and_refill_def Let_def chan_ok_def pending_def parked_def)
  qed
qed

section \<open>The operations keep the invariant\<close>

lemma ipc_chan_ok: "ipc_inv s \<Longrightarrow> i < 16 \<Longrightarrow> ch_active (ipc_channels s ! i) \<Longrightarrow> chan_ok (ipc_channels s ! i)"
  by (simp add: ipc_inv_def)

lemma ipc_inv_length: "ipc_inv s \<Longrightarrow> length (ipc_channels s) = 16"
  by (simp add: ipc_inv_def)

lemma ipc_deliver_channels:
  "ipc_channels (snd (ipc_deliver pid i data s)) =
     (ipc_channels s)[i := (ipc_channels s ! i)\<lparr>ch_waiter := (ch_waiter (ipc_channels s ! i))\<lparr>iw_active := False\<rparr>\<rparr>]"
  unfolding ipc_deliver_def Let_def
  by (auto split: prod.splits dest!: arg_cong [of "userspace_copy_to _ _ _ _" _ snd] arg_cong [of "scheduler_wake _ _ _ _" _ snd])

text \<open>What a send does to the channel when nobody waits on it.\<close>

lemma ipc_send_impl_no_waiter:
  assumes inv: "ipc_inv s" and r: "ipc_resolve pid h CAPABILITY_RIGHT_SEND s = (Some i, s1)"
    and nw: "\<not> iw_active (ch_waiter (ipc_channels s ! i))" and e: "ipc_send_impl pid h data blk s = (res, s')"
  shows "ipc_inv s' \<and>
    (\<forall>j < 16. pending (ipc_channels s' ! j) =
       (if j = i \<and> res \<noteq> Send_Failed then pending (ipc_channels s ! j) @ [(pid, data)] else pending (ipc_channels s ! j))) \<and>
    (res = Send_Failed \<longleftrightarrow> length data = 0 \<or> length data > IPC_MESSAGE_MAX \<or>
       length (pending (ipc_channels s ! i)) \<ge> (if blk then 33 else 32))"
proof -
  note d = ipc_resolve_SomeD [OF r]
  let ?c = "ipc_channels s ! i"
  have ok: "chan_ok ?c" using ipc_chan_ok [OF inv d(1,2)] .
  have l: "length (ipc_channels s) = 16" using inv by (rule ipc_inv_length)
  have pl: "length (pending ?c) = unat (ch_count ?c) + (if sw_active (ch_sender ?c) then 1 else 0)"
    by (simp add: pending_def parked_def ring_elems_def)
  have cb: "unat (ch_count ?c) \<le> 32" using ok by (simp add: chan_ok_def ring_inv_def)
  have c32: "ch_count ?c = 32 \<longleftrightarrow> unat (ch_count ?c) = 32" by (auto simp: word_unat_eq_iff)
  have sf: "sw_active (ch_sender ?c) \<longrightarrow> ch_count ?c = 32" using ok by (simp add: chan_ok_def)
  consider (bad) "length data = 0 \<or> length data > 64"
    | (drop) "0 < length data" "length data \<le> 64" "ch_count ?c = 32" "\<not> blk \<or> sw_active (ch_sender ?c)"
    | (park) "0 < length data" "length data \<le> 64" "ch_count ?c = 32" "blk" "\<not> sw_active (ch_sender ?c)"
    | (put) "0 < length data" "length data \<le> 64" "ch_count ?c \<noteq> 32"
    by fastforce
  then show ?thesis
  proof cases
    case bad
    with e r d inv show ?thesis by (auto simp: ipc_send_impl_def)
  next
    case drop
    with e r d inv nw pl c32 show ?thesis by (auto simp: ipc_send_impl_def ipc_inv_def)
  next
    case park
    have s': "res = Send_Parked" "s' = set_channel i (park pid data) s"
      using e r d nw park by (auto simp: ipc_send_impl_def park_def [abs_def] Let_def)
    note p = park_ok [OF ok park(3,5,2), of pid]
    have "ipc_inv s'" using inv p by (auto simp: s' park_def intro!: ipc_inv_set_channel)
    with s' p pl park c32 l show ?thesis by (auto simp: nth_update)
  next
    case put
    have s': "res = Send_Delivered" "ipc_channels s' = ipc_channels (set_channel i (ring_put pid data) s)"
      using e r d nw put by (auto simp: ipc_send_impl_def Let_def)
    note p = ring_put_ok [OF ok put(3,2), of pid]
    have "ipc_inv (set_channel i (ring_put pid data) s)" using inv p by (auto intro!: ipc_inv_set_channel)
    then have "ipc_inv s'" using ipc_inv_cong [OF s'(2)] by simp
    with s' p pl put c32 cb sf l show ?thesis by (auto simp: nth_update)
  qed
qed

lemma ipc_handover_channels:
  assumes "length (ipc_channels s) = 16" "i < 16"
  shows "ipc_channels (ipc_handover i (s\<lparr>ipc_channels := (ipc_channels s)[i := ring_drop (ipc_channels s ! i)]\<rparr>)) =
    (ipc_channels s)[i := take_and_refill (ipc_channels s ! i)]"
  using assms by (simp add: ipc_handover_def take_and_refill_def Let_def)

lemma ipc_receive_spec:
  assumes inv: "ipc_inv s" and e: "ipc_receive pid h capacity s = (res, s')"
  shows "ipc_inv s' \<and>
    (case res of
       None \<Rightarrow> ipc_channels s' = ipc_channels s
     | Some m \<Rightarrow> (\<exists>i < 16. fst (ipc_resolve pid h CAPABILITY_RIGHT_RECEIVE s) = Some i \<and> length (snd m) \<le> capacity \<and>
         pending (ipc_channels s ! i) = m # pending (ipc_channels s' ! i) \<and>
         (\<forall>j < 16. j \<noteq> i \<longrightarrow> ipc_channels s' ! j = ipc_channels s ! j)))"
proof (cases "ipc_resolve pid h CAPABILITY_RIGHT_RECEIVE s")
  case (Pair q s1)
  show ?thesis
  proof (cases q)
    case None
    with Pair e have r: "res = None" "s' = s1" by (auto simp: ipc_receive_def)
    have "ipc_channels s1 = ipc_channels s" using ipc_resolve_NoneD Pair None by blast
    with r inv ipc_inv_cong [of s1 s] show ?thesis by simp
  next
    case (Some i)
    note d = ipc_resolve_SomeD [OF Pair [unfolded Some]]
    let ?c = "ipc_channels s ! i"
    have ok: "chan_ok ?c" using ipc_chan_ok [OF inv d(1,2)] .
    have l: "length (ipc_channels s) = 16" using inv by (rule ipc_inv_length)
    show ?thesis
    proof (cases "ch_count ?c = 0 \<or> unat (msg_length (ch_messages ?c ! unat (ch_read ?c))) > capacity")
      case True
      with Pair Some e d have "res = None" "s' = s" by (auto simp: ipc_receive_def Let_def split: if_splits)
      with inv show ?thesis by simp
    next
      case False
      have res: "res = Some (ring_front ?c)"
        and ch: "ipc_channels s' = (ipc_channels s)[i := take_and_refill ?c]"
        using Pair Some e d False ipc_handover_channels [OF l d(1)]
        by (auto simp: ipc_receive_def Let_def set_channel_def ipc_handover_def take_and_refill_def l)
      note t = take_and_refill_ok [OF ok]
      have "ipc_inv s'"
      proof -
        have "ipc_inv (set_channel i take_and_refill s)"
          using inv t False by (intro ipc_inv_set_channel) (auto simp: take_and_refill_def Let_def)
        moreover have "ipc_channels s' = ipc_channels (set_channel i take_and_refill s)" by (simp add: ch)
        ultimately show ?thesis using ipc_inv_cong by blast
      qed
      moreover have "length (snd (ring_front ?c)) \<le> capacity" using False by (simp add: ring_front_def Let_def not_less min.coboundedI2)
      ultimately show ?thesis
        using res ch t False d(1) l Pair Some by (auto simp: nth_update intro!: exI [of _ i])
    qed
  qed
qed

lemma ipc_send_impl_inv:
  assumes inv: "ipc_inv s"
  shows "ipc_inv (snd (ipc_send_impl pid h data blk s))"
proof (cases "ipc_resolve pid h CAPABILITY_RIGHT_SEND s")
  case (Pair q s1)
  show ?thesis
  proof (cases q)
    case None
    have "ipc_channels s1 = ipc_channels s" using ipc_resolve_NoneD Pair None by blast
    with Pair None inv ipc_inv_cong [of s1 s] show ?thesis by (simp add: ipc_send_impl_def)
  next
    case (Some i)
    note r = Pair [unfolded Some]
    note d = ipc_resolve_SomeD [OF r]
    show ?thesis
    proof (cases "iw_active (ch_waiter (ipc_channels s ! i)) \<and> length data \<noteq> 0 \<and> length data \<le> 64")
      case True
      then have "ipc_channels (snd (ipc_send_impl pid h data blk s)) =
          ipc_channels (set_channel i (\<lambda>c. c\<lparr>ch_waiter := (ch_waiter c)\<lparr>iw_active := False\<rparr>\<rparr>) s)"
        using r d by (simp add: ipc_send_impl_def ipc_deliver_channels)
      moreover have "ipc_inv (set_channel i (\<lambda>c. c\<lparr>ch_waiter := (ch_waiter c)\<lparr>iw_active := False\<rparr>\<rparr>) s)"
        using inv ipc_chan_ok [OF inv d(1,2)] by (intro ipc_inv_set_channel) auto
      ultimately show ?thesis using ipc_inv_cong by blast
    next
      case False
      show ?thesis
      proof (cases "iw_active (ch_waiter (ipc_channels s ! i))")
        case True
        with False r d inv show ?thesis by (auto simp: ipc_send_impl_def)
      next
        case nw: False
        from ipc_send_impl_no_waiter [OF inv r nw surjective_pairing] show ?thesis by blast
      qed
    qed
  qed
qed

lemma ipc_wait_as_inv: 
  assumes inv: "ipc_inv s"
  shows "ipc_inv (snd (ipc_wait_as mx pid h a cap s))"
proof (cases "ipc_resolve pid h CAPABILITY_RIGHT_RECEIVE s")
  case (Pair q s1)
  show ?thesis
  proof (cases q)
    case None
    have "ipc_channels s1 = ipc_channels s" using ipc_resolve_NoneD Pair None by blast
    with Pair None inv ipc_inv_cong [of s1 s] show ?thesis by (simp add: ipc_wait_as_def)
  next
    case (Some i)
    note d = ipc_resolve_SomeD [OF Pair [unfolded Some]]
    with Pair Some inv ipc_chan_ok [OF inv d(1,2)] show ?thesis
      by (auto simp: ipc_wait_as_def intro!: ipc_inv_set_channel)
  qed
qed

lemma ipc_cancel_wait_inv: "ipc_inv s \<Longrightarrow> ipc_inv (snd (ipc_cancel_wait pid s))"
proof (cases "first_index (\<lambda>c. ch_active c \<and> iw_active (ch_waiter c) \<and> iw_pid (ch_waiter c) = pid) (ipc_channels s)")
  case (Some i)
  assume inv: "ipc_inv s"
  have "i < 16" using first_index_SomeD [OF Some] ipc_inv_length [OF inv] by simp
  with inv Some show ?thesis
    by (auto simp: ipc_cancel_wait_def ipc_chan_ok intro!: ipc_inv_set_channel)
qed (simp add: ipc_cancel_wait_def)

lemma chan_ok_zero: "chan_ok ((ipc_channel_zero cid)\<lparr>ch_owner := owner, ch_name := name, ch_active := act\<rparr>)"
  by (simp add: chan_ok_def ring_inv_def ipc_channel_zero_def ipc_send_waiter_zero_def)

lemma ipc_create_inv: 
  assumes inv: "ipc_inv s"
  shows "ipc_inv (snd (ipc_create owner name s))"
proof -
  have a: "ipc_inv (s1\<lparr>ipc_caps := c\<rparr>) = ipc_inv s1" for s1 :: "'a input_state_scheme" and c
    by (rule ipc_inv_cong) simp
  have "ipc_inv (set_channel i (\<lambda>_. (ipc_channel_zero (of_nat i + 1))\<lparr>ch_owner := owner, ch_name := name, ch_active := True\<rparr>) s)"
    if "first_index (\<lambda>c. \<not> ch_active c) (ipc_channels s) = Some i" for i
    using inv first_index_SomeD [OF that] ipc_inv_length [OF inv] chan_ok_zero
    by (auto simp: ipc_inv_def nth_update ipc_channel_zero_def)
  then show ?thesis
    using inv by (auto simp: ipc_create_def Let_def a split: option.splits prod.splits intro!: ipc_inv_set_channel)
qed

lemma ipc_connect_inv: "ipc_inv s \<Longrightarrow> ipc_inv (snd (ipc_connect pid name s))"
  using ipc_inv_cong [of "s\<lparr>ipc_caps := c\<rparr>" s for c]
  by (auto simp: ipc_connect_def ipc_inv_def split: option.splits prod.splits)

section \<open>Cleanup\<close>

text \<open>A channel that holds nothing of process \<open>pid\<close>.\<close>

definition clear_of :: "u32 \<Rightarrow> ipc_channel \<Rightarrow> bool" where
  "clear_of pid c \<longleftrightarrow> (ch_active c \<longrightarrow> ch_owner c \<noteq> pid \<and> \<not> (iw_active (ch_waiter c) \<and> iw_pid (ch_waiter c) = pid) \<and>
     \<not> (sw_active (ch_sender c) \<and> sw_pid (ch_sender c) = pid))"

lemma cleanup_wake_channels:
  assumes "length (ipc_channels s) = 16" "i < 16"
  shows "ipc_channels (cleanup_wake i s) = (ipc_channels s)[i := (ipc_channels s ! i)\<lparr>ch_sender := (ch_sender (ipc_channels s ! i))\<lparr>sw_active := False\<rparr>\<rparr>]"
proof -
  have e: "(ipc_channels s ! i)\<lparr>ch_sender := (ch_sender (ipc_channels s ! i))\<lparr>sw_active := False\<rparr>\<rparr> = ipc_channels s ! i"
    if "\<not> sw_active (ch_sender (ipc_channels s ! i))" using that by simp
  show ?thesis
    using assms by (cases "sw_active (ch_sender (ipc_channels s ! i))") (auto simp: cleanup_wake_def Let_def e)
qed

lemma cleanup_waiters_facts:
  "ch_id (cleanup_waiters pid c) = ch_id c" "ch_active (cleanup_waiters pid c) = ch_active c" "ch_owner (cleanup_waiters pid c) = ch_owner c"
  "chan_ok c \<Longrightarrow> chan_ok (cleanup_waiters pid c)" "ch_owner c \<noteq> pid \<Longrightarrow> clear_of pid (cleanup_waiters pid c)"
  by (auto simp: cleanup_waiters_def Let_def chan_ok_def ring_inv_def clear_of_def)

lemma cleanup_channel_spec:
  assumes inv: "ipc_inv s" and i: "i < 16"
  shows "ipc_inv (cleanup_channel pid i s) \<and> clear_of pid (ipc_channels (cleanup_channel pid i s) ! i) \<and>
    (\<forall>j. j \<noteq> i \<longrightarrow> ipc_channels (cleanup_channel pid i s) ! j = ipc_channels s ! j)"
proof (cases "ch_active (ipc_channels s ! i)")
  case False
  with inv show ?thesis by (simp add: cleanup_channel_def clear_of_def)
next
  case True
  have l: "length (ipc_channels s) = 16" using inv by (rule ipc_inv_length)
  let ?s1 = "set_channel i (cleanup_waiters pid) s"
  have inv1: "ipc_inv ?s1"
    using inv ipc_chan_ok [OF inv i True] by (intro ipc_inv_set_channel) (auto simp: cleanup_waiters_facts)
  show ?thesis
  proof (cases "ch_owner (ipc_channels s ! i) = pid")
    case False
    with True inv1 l i show ?thesis by (auto simp: cleanup_channel_def cleanup_waiters_facts nth_update)
  next
    case own: True
    let ?f = "\<lambda>c. c\<lparr>ch_active := False, ch_count := 0, ch_waiter := (ch_waiter c)\<lparr>iw_active := False\<rparr>\<rparr>"
    have e: "cleanup_channel pid i s = set_channel i ?f (cleanup_wake i ?s1)"
      using True own l i by (simp add: cleanup_channel_def Let_def cleanup_waiters_facts)
    have c: "ipc_channels (cleanup_wake i ?s1) = (ipc_channels ?s1)[i := (ipc_channels ?s1 ! i)\<lparr>ch_sender := (ch_sender (ipc_channels ?s1 ! i))\<lparr>sw_active := False\<rparr>\<rparr>]"
      using l i by (intro cleanup_wake_channels) simp_all
    have "ipc_inv (cleanup_channel pid i s)"
      unfolding e ipc_inv_def using inv1 c i by (auto simp: ipc_inv_def nth_update)
    then show ?thesis unfolding e using c l i by (auto simp: clear_of_def nth_update)
  qed
qed

lemma channel_indices: "set [0..<16] \<subseteq> {..<16::nat}"
  by auto

lemma cleanup_fold_spec:
  assumes "ipc_inv s" "set is \<subseteq> {..<16}"
  shows "ipc_inv (fold (cleanup_channel pid) is s) \<and>
    (\<forall>j < 16. j \<in> set is \<or> clear_of pid (ipc_channels s ! j) \<longrightarrow> clear_of pid (ipc_channels (fold (cleanup_channel pid) is s) ! j))"
  using assms
proof (induction "is" arbitrary: s)
  case (Cons i "is")
  have i: "i < 16" using Cons.prems(2) by simp
  note c = cleanup_channel_spec [OF Cons.prems(1) i, of pid]
  have "j = i \<or> j \<in> set is \<or> clear_of pid (ipc_channels s ! j) \<Longrightarrow>
      j \<in> set is \<or> clear_of pid (ipc_channels (cleanup_channel pid i s) ! j)" for j
    using c by (cases "j = i") auto
  with Cons.IH [of "cleanup_channel pid i s"] c Cons.prems(2) show ?case by auto
qed simp

text \<open>Waking: a task that is not blocked stays so, and the woken task is not blocked.\<close>

definition unblocked :: "'a sched_state_scheme \<Rightarrow> u32 \<Rightarrow> bool" where
  "unblocked s w \<longleftrightarrow> length (sch_tasks s) = SCHEDULER_PROCESS_LIMIT \<and> t_state (task_of s w) \<noteq> SCHEDULER_TASK_BLOCKED"

definition waits_on :: "ipc_channel \<Rightarrow> u32 \<Rightarrow> bool" where
  "waits_on c w \<longleftrightarrow> iw_active (ch_waiter c) \<and> iw_pid (ch_waiter c) = w \<or> sw_active (ch_sender c) \<and> sw_pid (ch_sender c) = w"

lemma scheduler_wake_length [simp]: "length (sch_tasks (snd (scheduler_wake p r d s))) = length (sch_tasks s)"
  by (simp add: scheduler_wake_def)

lemma wake_keeps_unblocked: "unblocked s w \<Longrightarrow> unat w < 8 \<Longrightarrow> unblocked (snd (scheduler_wake p r d s)) w"
  by (auto simp: unblocked_def scheduler_wake_def nth_update)

lemma wake_unblocks: "length (sch_tasks s) = 8 \<Longrightarrow> p \<noteq> 0 \<Longrightarrow> unat p < 8 \<Longrightarrow> unblocked (snd (scheduler_wake p r d s)) p"
  by (auto simp: unblocked_def scheduler_wake_def nth_update)

lemma unblocked_set_channel [simp]: "unblocked (set_channel i f s) w = unblocked s w"
  by (simp add: unblocked_def)

lemma unblocked_input_cancel [simp]: "unblocked (snd (input_cancel_wait p s)) w = unblocked s w"
  by (simp add: unblocked_def)

lemma cleanup_wake_tasks:
  assumes "length (sch_tasks s) = 8" "unat w < 8" "w \<noteq> 0"
  shows "unblocked s w \<or> waits_on (ipc_channels s ! i) w \<Longrightarrow> unblocked (cleanup_wake i s) w"
    and "length (sch_tasks (cleanup_wake i s)) = 8"
proof -
  let ?w = "ch_waiter (ipc_channels s ! i)" and ?sd = "ch_sender (ipc_channels s ! i)"
  let ?s1 = "if iw_active ?w then snd (scheduler_wake (iw_pid ?w) UINT64_MAX 0
      (if iw_multiplex ?w then snd (input_cancel_wait (iw_pid ?w) s) else s)) else s"
  have l1: "length (sch_tasks ?s1) = 8" and c1: "ipc_channels ?s1 = ipc_channels s" using assms(1) by auto
  have u1: "unblocked s w \<or> iw_active ?w \<and> iw_pid ?w = w \<Longrightarrow> unblocked ?s1 w"
    using assms wake_unblocks [OF _ assms(3,2), of _ UINT64_MAX 0]
    by (cases "iw_pid ?w = w") (simp, auto intro: wake_keeps_unblocked)
  have e: "cleanup_wake i s = (if sw_active ?sd then snd (scheduler_wake (sw_pid ?sd) UINT64_MAX 0
      (set_channel i (\<lambda>c. c\<lparr>ch_sender := (ch_sender c)\<lparr>sw_active := False\<rparr>\<rparr>) ?s1)) else ?s1)"
    using c1 by (simp add: cleanup_wake_def Let_def)
  show "length (sch_tasks (cleanup_wake i s)) = 8" unfolding e using l1 by simp
  assume a: "unblocked s w \<or> waits_on (ipc_channels s ! i) w"
  show "unblocked (cleanup_wake i s) w"
  proof (cases "sw_active ?sd \<and> sw_pid ?sd = w")
    case True
    have "unblocked (snd (scheduler_wake w UINT64_MAX 0 t)) w" if "length (sch_tasks t) = 8" for t :: "'a input_state_scheme"
      using wake_unblocks [OF that assms(3,2)] .
    moreover have "length (sch_tasks (set_channel i (\<lambda>c. c\<lparr>ch_sender := (ch_sender c)\<lparr>sw_active := False\<rparr>\<rparr>) ?s1)) = 8"
      using l1 by (simp add: set_channel_def del: input_cancel_wait_frame)
    ultimately have "unblocked (snd (scheduler_wake w UINT64_MAX 0
        (set_channel i (\<lambda>c. c\<lparr>ch_sender := (ch_sender c)\<lparr>sw_active := False\<rparr>\<rparr>) ?s1))) w" by blast
    with True show ?thesis unfolding e by (simp only: if_True simp_thms)
  next
    case False
    with a have "unblocked ?s1 w" by (intro u1) (auto simp: waits_on_def)
    then show ?thesis unfolding e using assms(2) by (auto intro: wake_keeps_unblocked)
  qed
qed

lemma cleanup_channel_tasks:
  assumes "length (sch_tasks s) = 8" "unat w < 8" "w \<noteq> 0" "length (ipc_channels s) = 16" "i < 16"
  shows "length (sch_tasks (cleanup_channel pid i s)) = 8"
    and "unblocked s w \<or> ch_active (ipc_channels s ! i) \<and> ch_owner (ipc_channels s ! i) = pid \<and> waits_on (ipc_channels s ! i) w \<and> w \<noteq> pid \<Longrightarrow>
       unblocked (cleanup_channel pid i s) w"
proof -
  let ?s1 = "set_channel i (cleanup_waiters pid) s"
  have l1: "length (sch_tasks ?s1) = 8" using assms(1) by simp
  show "length (sch_tasks (cleanup_channel pid i s)) = 8"
    using cleanup_wake_tasks(2) [OF l1 assms(2,3)] assms(1) by (simp add: cleanup_channel_def Let_def)
  have k: "waits_on (ipc_channels s ! i) w \<Longrightarrow> w \<noteq> pid \<Longrightarrow> waits_on (ipc_channels ?s1 ! i) w"
    using assms(4,5) by (auto simp: waits_on_def cleanup_waiters_def Let_def)
  show "unblocked s w \<or> ch_active (ipc_channels s ! i) \<and> ch_owner (ipc_channels s ! i) = pid \<and> waits_on (ipc_channels s ! i) w \<and> w \<noteq> pid \<Longrightarrow>
       unblocked (cleanup_channel pid i s) w"
    using cleanup_wake_tasks(1) [OF l1 assms(2,3), of i] k assms(4,5)
    by (auto simp: cleanup_channel_def Let_def cleanup_waiters_facts)
qed

lemma cleanup_fold_tasks:
  assumes "ipc_inv s" "length (sch_tasks s) = 8" "unat w < 8" "w \<noteq> 0" "set is \<subseteq> {..<16}" "distinct is"
  shows "length (sch_tasks (fold (cleanup_channel pid) is s)) = 8 \<and>
    (unblocked s w \<or> (\<exists>i \<in> set is. ch_active (ipc_channels s ! i) \<and> ch_owner (ipc_channels s ! i) = pid \<and>
        waits_on (ipc_channels s ! i) w \<and> w \<noteq> pid) \<longrightarrow> unblocked (fold (cleanup_channel pid) is s) w)"
  using assms
proof (induction "is" arbitrary: s)
  case (Cons i "is")
  have i: "i < 16" using Cons.prems by simp
  have l: "length (ipc_channels s) = 16" using Cons.prems(1) by (rule ipc_inv_length)
  note c = cleanup_channel_spec [OF Cons.prems(1) i, of pid]
  note t = cleanup_channel_tasks [OF Cons.prems(2-4) l i, of pid]
  have "(\<exists>j \<in> set is. ch_active (ipc_channels s ! j) \<and> ch_owner (ipc_channels s ! j) = pid \<and> waits_on (ipc_channels s ! j) w \<and> w \<noteq> pid) \<Longrightarrow>
    (\<exists>j \<in> set is. ch_active (ipc_channels (cleanup_channel pid i s) ! j) \<and> ch_owner (ipc_channels (cleanup_channel pid i s) ! j) = pid \<and>
        waits_on (ipc_channels (cleanup_channel pid i s) ! j) w \<and> w \<noteq> pid)"
  proof -
    assume "\<exists>j \<in> set is. ch_active (ipc_channels s ! j) \<and> ch_owner (ipc_channels s ! j) = pid \<and> waits_on (ipc_channels s ! j) w \<and> w \<noteq> pid"
    then obtain j where j: "j \<in> set is" "ch_active (ipc_channels s ! j) \<and> ch_owner (ipc_channels s ! j) = pid \<and> waits_on (ipc_channels s ! j) w \<and> w \<noteq> pid"
      by blast
    then have "j \<noteq> i" using Cons.prems(6) by auto
    with c j show ?thesis by (intro bexI [of _ j]) simp_all
  qed
  then show ?case
    using Cons.IH [of "cleanup_channel pid i s"] c t Cons.prems by auto
qed simp

text \<open>A process that is no longer waiting for input stays so during cleanup.\<close>

lemma cleanup_fold_input:
  "\<not> (inw_active (in_waiter s) \<and> inw_pid (in_waiter s) = pid) \<Longrightarrow>
   \<not> (inw_active (in_waiter (fold (cleanup_channel p) is s)) \<and> inw_pid (in_waiter (fold (cleanup_channel p) is s)) = pid)"
proof (induction "is" arbitrary: s)
  case (Cons i "is")
  have c: "\<not> (inw_active (in_waiter (snd (input_cancel_wait q t))) \<and> inw_pid (in_waiter (snd (input_cancel_wait q t))) = pid)"
    if "\<not> (inw_active (in_waiter t) \<and> inw_pid (in_waiter t) = pid)" for q and t :: "'a input_state_scheme"
    using that by (auto simp: input_cancel_wait_def)
  have "\<not> (inw_active (in_waiter (cleanup_channel p i s)) \<and> inw_pid (in_waiter (cleanup_channel p i s)) = pid)"
    using Cons.prems c by (auto simp: cleanup_channel_def cleanup_wake_def Let_def)
  with Cons.IH show ?case by simp
qed simp

section \<open>Properties\<close>

text \<open>
  Every state the channel operations reach from \<open>ipc_init\<close>. The other components change the
  kernel state too, but never the channel table (rule \<open>other\<close>).
\<close>

inductive ipc_reachable :: "'a input_state_scheme \<Rightarrow> bool" where
  init: "ipc_reachable (ipc_init s)"
| create: "ipc_reachable s \<Longrightarrow> ipc_reachable (snd (ipc_create owner name s))"
| connect: "ipc_reachable s \<Longrightarrow> ipc_reachable (snd (ipc_connect pid name s))"
| send: "ipc_reachable s \<Longrightarrow> ipc_reachable (snd (ipc_send_impl pid h data blk s))"
| receive: "ipc_reachable s \<Longrightarrow> ipc_reachable (snd (ipc_receive pid h capacity s))"
| wait: "ipc_reachable s \<Longrightarrow> ipc_reachable (snd (ipc_wait pid h address capacity s))"
| wait_select: "ipc_reachable s \<Longrightarrow> ipc_reachable (snd (ipc_wait_select pid h address capacity s))"
| cancel: "ipc_reachable s \<Longrightarrow> ipc_reachable (snd (ipc_cancel_wait pid s))"
| cleanup: "ipc_reachable s \<Longrightarrow> ipc_reachable (ipc_process_cleanup pid s)"
| other: "ipc_reachable s \<Longrightarrow> ipc_channels s' = ipc_channels s \<Longrightarrow> ipc_reachable s'"

lemma ipc_init_inv: "ipc_inv (ipc_init s)"
  by (simp add: ipc_inv_def ipc_init_def ipc_channel_zero_def)

lemma ipc_process_cleanup_inv: "ipc_inv s \<Longrightarrow> ipc_inv (ipc_process_cleanup pid s)"
  using cleanup_fold_spec [of "snd (input_cancel_wait pid s)", OF _ channel_indices] ipc_inv_cong [of "snd (input_cancel_wait pid s)" s]
  by (auto simp: ipc_process_cleanup_def)

lemma ipc_receive_inv: "ipc_inv s \<Longrightarrow> ipc_inv (snd (ipc_receive pid h capacity s))"
  using ipc_receive_spec [OF _ surjective_pairing] by blast

lemmas ipc_ops_inv = ipc_init_inv ipc_create_inv ipc_connect_inv ipc_send_impl_inv ipc_receive_inv ipc_wait_as_inv
  ipc_cancel_wait_inv ipc_process_cleanup_inv

text \<open>
  Claim C14: in every reachable state each active channel's ring is well formed (indices in range, the write
  index is the read index plus the count, every stored length at most 64) and a message is parked only
  while the ring is full.
\<close>

theorem ipc_reachable_inv: "ipc_reachable s \<Longrightarrow> ipc_inv s"
proof (induction rule: ipc_reachable.induct)
  case (other s s')
  then show ?case using ipc_inv_cong by blast
qed (simp_all add: ipc_ops_inv ipc_wait_def ipc_wait_select_def)

theorem ipc_reachable_inv_witness: "ipc_inv (snd (ipc_connect 2 [7] (snd (ipc_create 1 [7] (ipc_init input_state_example)))))"
  by (rule ipc_reachable_inv) (intro ipc_reachable.connect ipc_reachable.create ipc_reachable.init)

text \<open>
  A state with one channel, owned by process 1, that holds a message of process 2, and the handle of
  process 1 on it; and the same channel, empty, with process 2 waiting on it.
\<close>

definition demo_caps :: "u64 \<times> cap_state" where
  "demo_caps = capability_open_ipc capabilities_init 1 1 (CAPABILITY_RIGHT_SEND OR CAPABILITY_RIGHT_RECEIVE OR CAPABILITY_RIGHT_QUERY)"

definition demo_channel :: ipc_channel where
  "demo_channel = (ipc_channel_zero 1)\<lparr>ch_owner := 1, ch_name := [0x77, 0x6D], ch_active := True\<rparr>"

definition ipc_demo_with :: "ipc_channel \<Rightarrow> input_state" where
  "ipc_demo_with c = (set_channel 0 (\<lambda>_. c) (ipc_init input_state_example))\<lparr>ipc_caps := snd demo_caps\<rparr>"

definition ipc_demo :: input_state where
  "ipc_demo = ipc_demo_with (ring_put 2 [7, 8] demo_channel)"

definition ipc_demo_waiting :: input_state where
  "ipc_demo_waiting = ipc_demo_with (demo_channel\<lparr>ch_waiter :=
     \<lparr>iw_pid = 2, iw_address = 0x5000, iw_capacity = 64, iw_active = True, iw_multiplex = False\<rparr>\<rparr>)"

lemma ipc_demo_with_channels:
  "length (ipc_channels (ipc_demo_with c)) = 16" "ipc_channels (ipc_demo_with c) ! 0 = c"
  by (simp_all add: ipc_demo_with_def set_channel_def ipc_init_def)

lemma ipc_demo_with_inv: "chan_ok c \<Longrightarrow> ch_id c = 1 \<Longrightarrow> ipc_inv (ipc_demo_with c)"
  using ipc_init_inv [of input_state_example]
  by (auto simp: ipc_inv_def ipc_demo_with_def set_channel_def nth_update)

lemma demo_channel_ok: "chan_ok demo_channel"
  by (simp add: chan_ok_def ring_inv_def demo_channel_def ipc_channel_zero_def ipc_send_waiter_zero_def)

lemma ipc_demo_with_tasks: "length (sch_tasks (ipc_demo_with c)) = 8"
  using sched_example_inv by (simp add: ipc_demo_with_def set_channel_def ipc_init_def input_state_example_def ipc_example_def
      mem_example_def input_state.defs ipc_state.defs mem_state.defs sched_inv_def sched_shape_def)

lemma ipc_demo_resolve:
  assumes "ch_active c" "r = CAPABILITY_RIGHT_SEND \<or> r = CAPABILITY_RIGHT_RECEIVE"
  shows "fst (ipc_resolve 1 (fst demo_caps) r (ipc_demo_with c)) = Some 0"
proof -
  have r: "fst (capability_resolve_object (snd demo_caps) 1 (fst demo_caps) CAPABILITY_RIGHT_SEND) = Some (CAPABILITY_SERVICE_IPC, 1)"
    "fst (capability_resolve_object (snd demo_caps) 1 (fst demo_caps) CAPABILITY_RIGHT_RECEIVE) = Some (CAPABILITY_SERVICE_IPC, 1)"
    by code_simp+
  have e: "fst (ipc_resolve 1 h q s) = Some 0"
    if "fst (capability_resolve_object (ipc_caps s) 1 h q) = Some (CAPABILITY_SERVICE_IPC, 1)" "ch_active (ipc_channels s ! 0)"
    for h q and s :: input_state
    using that by (auto simp: ipc_resolve_def by_id_def split: prod.splits option.splits)
  show ?thesis using e [of "ipc_demo_with c" "fst demo_caps"] r assms ipc_demo_with_channels(2) [of c]
    by (auto simp: ipc_demo_with_def)
qed

lemma demo_ring_facts:
  "chan_ok (ring_put 2 [7, 8] demo_channel)" "ch_active (ring_put 2 [7, 8] demo_channel)" "ch_id (ring_put 2 [7, 8] demo_channel) = 1"
  "pending (ring_put 2 [7, 8] demo_channel) = [(2, [7, 8])]" "\<not> iw_active (ch_waiter (ring_put 2 [7, 8] demo_channel))"
  using ring_put_elems [of demo_channel "[7, 8]" 2] demo_channel_ok
  by (simp_all add: chan_ok_def ring_put_def demo_channel_def ipc_channel_zero_def ipc_send_waiter_zero_def pending_def parked_def
      ring_elems_def ipc_waiter_zero_def)

lemma ipc_demo_inv: "ipc_inv ipc_demo"
  unfolding ipc_demo_def by (intro ipc_demo_with_inv demo_ring_facts)

lemma ipc_demo_facts:
  "pending (ipc_channels ipc_demo ! 0) = [(2, [7, 8])]" "\<not> iw_active (ch_waiter (ipc_channels ipc_demo ! 0))"
  "ch_count (ipc_channels ipc_demo ! 0) \<noteq> 0"
  "unat (msg_length (ch_messages (ipc_channels ipc_demo ! 0) ! unat (ch_read (ipc_channels ipc_demo ! 0)))) = 2"
  using demo_ring_facts
  by (simp_all add: ipc_demo_def ipc_demo_with_channels ring_put_def demo_channel_def ipc_channel_zero_def)

lemma ipc_demo_waiting_facts:
  "ipc_inv ipc_demo_waiting" "length (sch_tasks ipc_demo_waiting) = SCHEDULER_PROCESS_LIMIT"
  "ch_active (ipc_channels ipc_demo_waiting ! 0)" "ch_owner (ipc_channels ipc_demo_waiting ! 0) = 1"
  "waits_on (ipc_channels ipc_demo_waiting ! 0) 2"
  using demo_channel_ok
  by (simp_all add: ipc_demo_waiting_def ipc_demo_with_channels ipc_demo_with_inv ipc_demo_with_tasks chan_ok_def ring_inv_def
      demo_channel_def ipc_channel_zero_def waits_on_def)

text \<open>
  Claim C15: a channel is a FIFO of capacity 32 plus one parked message. A send to a channel on which nobody waits
  appends the message to the pending messages, or fails and changes none; it fails exactly when the
  message is empty or too long, or 32 messages are pending (33 for a blocking send). No other channel
  changes.
\<close>

theorem ipc_send_refines:
  assumes "ipc_inv s" "ipc_resolve pid handle CAPABILITY_RIGHT_SEND s = (Some i, s1)"
    and "\<not> iw_active (ch_waiter (ipc_channels s ! i))" "ipc_send_impl pid handle data block s = (r, s')"
  shows "(\<forall>j < IPC_CHANNEL_LIMIT. pending (ipc_channels s' ! j) =
       (if j = i \<and> r \<noteq> Send_Failed then pending (ipc_channels s ! j) @ [(pid, data)] else pending (ipc_channels s ! j))) \<and>
    (r = Send_Failed \<longleftrightarrow> length data = 0 \<or> length data > IPC_MESSAGE_MAX \<or>
       length (pending (ipc_channels s ! i)) \<ge> (if block then 33 else 32))"
  using ipc_send_impl_no_waiter [OF assms] by blast

theorem ipc_send_refines_witness:
  "fst (ipc_send_impl 1 (fst demo_caps) [9] False ipc_demo) \<noteq> Send_Failed \<and>
   pending (ipc_channels (snd (ipc_send_impl 1 (fst demo_caps) [9] False ipc_demo)) ! 0) = [(2, [7, 8]), (1, [9])]"
proof -
  obtain s1 where "ipc_resolve 1 (fst demo_caps) CAPABILITY_RIGHT_SEND ipc_demo = (Some 0, s1)"
    using ipc_demo_resolve [OF demo_ring_facts(2), of CAPABILITY_RIGHT_SEND] by (auto simp: ipc_demo_def prod_eq_iff)
  from ipc_send_refines [OF ipc_demo_inv this _ surjective_pairing] ipc_demo_facts show ?thesis by simp
qed

text \<open>
  Claim C16: receiving takes the oldest pending message. When \<open>ipc_receive\<close> returns a message, the handle resolved to
  a channel whose pending messages were that message followed by the messages pending afterwards (a
  parked message has moved into the ring), the message fits the capacity, and no other channel changes;
  otherwise no channel changes.
\<close>

theorem ipc_receive_refines:
  assumes "ipc_inv s" "ipc_receive pid handle capacity s = (r, s')"
  shows "(case r of
       None \<Rightarrow> ipc_channels s' = ipc_channels s
     | Some m \<Rightarrow> (\<exists>i < IPC_CHANNEL_LIMIT. fst (ipc_resolve pid handle CAPABILITY_RIGHT_RECEIVE s) = Some i \<and>
         length (snd m) \<le> capacity \<and> pending (ipc_channels s ! i) = m # pending (ipc_channels s' ! i) \<and>
         (\<forall>j < IPC_CHANNEL_LIMIT. j \<noteq> i \<longrightarrow> ipc_channels s' ! j = ipc_channels s ! j)))"
  using ipc_receive_spec [OF assms] by blast

theorem ipc_receive_refines_witness:
  "fst (ipc_receive 1 (fst demo_caps) 64 ipc_demo) = Some (2, [7, 8])"
proof -
  have "fst (ipc_receive 1 (fst demo_caps) 64 ipc_demo) \<noteq> None"
    using ipc_demo_resolve [OF demo_ring_facts(2), of CAPABILITY_RIGHT_RECEIVE] ipc_demo_facts
    by (auto simp: ipc_receive_def Let_def ipc_demo_def [symmetric] prod_eq_iff split: prod.splits)
  then obtain m where m: "fst (ipc_receive 1 (fst demo_caps) 64 ipc_demo) = Some m" by auto
  have "fst (ipc_resolve 1 (fst demo_caps) CAPABILITY_RIGHT_RECEIVE ipc_demo) = Some 0"
    using ipc_demo_resolve [OF demo_ring_facts(2), of CAPABILITY_RIGHT_RECEIVE] by (simp add: ipc_demo_def)
  with ipc_receive_refines [OF ipc_demo_inv surjective_pairing, of 1 "fst demo_caps" 64] m ipc_demo_facts
  show ?thesis by simp
qed



end
