(* ===== verification/Bounded_Table.thy ===== *)
theory Bounded_Table
  imports Demon_Prelude
begin

text \<open>
  The fixed-capacity table of named slots \<open>kernel::bounded_table<T, Capacity, NameMax>\<close> of
  \<open>src/include/kernel/bounded_table.h\<close>, and the interface its client (the RAM file system) relies on:
  the locale \<open>named_slots\<close>. A slot is identified by its index plus one, 0 is never an identifier.
  The stored name is the list of its \<open>name_length\<close> bytes.
\<close>

section \<open>The table\<close>

record 'a bt_entry =
  be_used :: bool
  be_name :: "u8 list"
  be_payload :: 'a

type_synonym 'a bounded_table = "'a bt_entry list"

definition bt_new :: "nat \<Rightarrow> 'a \<Rightarrow> 'a bounded_table" where
  "bt_new capacity dflt = replicate capacity \<lparr>be_used = False, be_name = [], be_payload = dflt\<rparr>"

definition names_equal :: "'a bt_entry \<Rightarrow> u8 list \<Rightarrow> bool" where
  "names_equal e name \<longleftrightarrow> length (be_name e) = length name \<and> (\<forall>i < length name. be_name e ! i = name ! i)"

definition bt_find :: "nat \<Rightarrow> 'a bounded_table \<Rightarrow> u8 list \<Rightarrow> u32 option" where
  "bt_find name_max t name =
     (if length name = 0 \<or> length name > name_max then None
      else map_option (\<lambda>i. of_nat i + 1) (first_index (\<lambda>e. be_used e \<and> names_equal e name) t))"

definition bt_open :: "nat \<Rightarrow> 'a \<Rightarrow> 'a bounded_table \<Rightarrow> u8 list \<Rightarrow> bool \<Rightarrow> (u32 \<times> 'a bounded_table) option" where
  "bt_open name_max dflt t name create =
     (case bt_find name_max t name of
        Some i \<Rightarrow> Some (i, t)
      | None \<Rightarrow>
          (if \<not> create \<or> length name = 0 \<or> length name > name_max then None
           else case first_index (\<lambda>e. \<not> be_used e) t of
             None \<Rightarrow> None
           | Some i \<Rightarrow> Some (of_nat i + 1, t[i := \<lparr>be_used = True, be_name = name, be_payload = dflt\<rparr>])))"

text \<open>The private function \<open>slot\<close>: the index an identifier stands for.\<close>

definition bt_slot :: "'a bounded_table \<Rightarrow> u32 \<Rightarrow> nat option" where
  "bt_slot t i = (if i = 0 \<or> unat i > length t then None else Some (unat i - 1))"

definition bt_payload_for :: "'a bounded_table \<Rightarrow> u32 \<Rightarrow> 'a option" where
  "bt_payload_for t i =
     (case bt_slot t i of None \<Rightarrow> None | Some k \<Rightarrow> if be_used (t ! k) then Some (be_payload (t ! k)) else None)"

definition bt_name_for :: "'a bounded_table \<Rightarrow> u32 \<Rightarrow> u8 list option" where
  "bt_name_for t i =
     (case bt_slot t i of None \<Rightarrow> None | Some k \<Rightarrow> if be_used (t ! k) then Some (be_name (t ! k)) else None)"

definition bt_release :: "'a \<Rightarrow> 'a bounded_table \<Rightarrow> u32 \<Rightarrow> bool \<times> 'a bounded_table" where
  "bt_release dflt t i =
     (case bt_payload_for t i of
        None \<Rightarrow> (False, t)
      | Some _ \<Rightarrow> (True, t[unat i - 1 := \<lparr>be_used = False, be_name = [], be_payload = dflt\<rparr>]))"

definition bt_rename :: "nat \<Rightarrow> 'a bounded_table \<Rightarrow> u32 \<Rightarrow> u8 list \<Rightarrow> bool \<times> 'a bounded_table" where
  "bt_rename name_max t i new_name =
     (case bt_slot t i of
        None \<Rightarrow> (False, t)
      | Some k \<Rightarrow>
          (if \<not> be_used (t ! k) \<or> length new_name = 0 \<or> length new_name > name_max then (False, t)
           else (True, t[k := (t ! k)\<lparr>be_name := new_name\<rparr>])))"

text \<open>Storing through the pointer \<open>payload_for\<close> returned.\<close>

definition bt_store :: "'a bounded_table \<Rightarrow> u32 \<Rightarrow> 'a \<Rightarrow> 'a bounded_table" where
  "bt_store t i v = t[unat i - 1 := (t ! (unat i - 1))\<lparr>be_payload := v\<rparr>]"

section \<open>The interface\<close>

text \<open>
  What a client may rely on: a name resolves to at most one identifier and an identifier has at most
  one name; creation uses an identifier that was free; and each operation changes only the name or
  the payload it is asked to change.
\<close>

locale named_slots =
  fixes inv :: "'t \<Rightarrow> bool"
    and find :: "'t \<Rightarrow> u8 list \<Rightarrow> u32 option"
    and load :: "'t \<Rightarrow> u32 \<Rightarrow> 'a option"
    and create :: "'t \<Rightarrow> u8 list \<Rightarrow> (u32 \<times> 't) option"
    and release :: "'t \<Rightarrow> u32 \<Rightarrow> 't"
    and rename :: "'t \<Rightarrow> u32 \<Rightarrow> u8 list \<Rightarrow> 't"
    and store :: "'t \<Rightarrow> u32 \<Rightarrow> 'a \<Rightarrow> 't"
    and good_name :: "u8 list \<Rightarrow> bool"
    and blank :: 'a
  assumes find_load: "inv t \<Longrightarrow> find t n = Some i \<Longrightarrow> load t i \<noteq> None"
    and load_find: "inv t \<Longrightarrow> load t i \<noteq> None \<Longrightarrow> \<exists>n. find t n = Some i"
    and find_inj: "inv t \<Longrightarrow> find t n = Some i \<Longrightarrow> find t m = Some i \<Longrightarrow> n = m"
    and create_new: "inv t \<Longrightarrow> find t n = None \<Longrightarrow> create t n = Some (i, t') \<Longrightarrow>
       inv t' \<and> load t i = None \<and> find t' = (find t)(n := Some i) \<and> load t' = (load t)(i := Some blank)"
    and release_free: "inv t \<Longrightarrow> find t n = Some i \<Longrightarrow>
       inv (release t i) \<and> find (release t i) = (find t)(n := None) \<and> load (release t i) = (load t)(i := None)"
    and rename_moves: "inv t \<Longrightarrow> find t n = Some i \<Longrightarrow> find t m = None \<Longrightarrow> good_name m \<Longrightarrow>
       inv (rename t i m) \<and> find (rename t i m) = (find t)(n := None, m := Some i) \<and> load (rename t i m) = load t"
    and store_changes: "inv t \<Longrightarrow> load t i \<noteq> None \<Longrightarrow>
       inv (store t i v) \<and> find (store t i v) = find t \<and> load (store t i v) = (load t)(i := Some v)"
begin

text \<open>The table as a finite map from names to payloads.\<close>

definition view :: "'t \<Rightarrow> u8 list \<Rightarrow> 'a option" where
  "view t n = Option.bind (find t n) (load t)"

lemma view_create: "inv t \<Longrightarrow> find t n = None \<Longrightarrow> create t n = Some (i, t') \<Longrightarrow> view t' = (view t)(n \<mapsto> blank)"
proof
  fix m
  assume a: "inv t" "find t n = None" "create t n = Some (i, t')"
  note c = create_new [OF a]
  have "find t m \<noteq> Some i" using c find_load [OF a(1), of m i] by auto
  with c show "view t' m = ((view t)(n \<mapsto> blank)) m" by (cases "find t m") (auto simp: view_def)
qed

lemma view_release: "inv t \<Longrightarrow> find t n = Some i \<Longrightarrow> view (release t i) = (view t)(n := None)"
proof
  fix m
  assume a: "inv t" "find t n = Some i"
  note c = release_free [OF a]
  have "m \<noteq> n \<Longrightarrow> find t m \<noteq> Some i" using find_inj [OF a(1) a(2), of m] by auto
  with c show "view (release t i) m = ((view t)(n := None)) m" by (cases "find t m") (auto simp: view_def)
qed

lemma view_rename: "inv t \<Longrightarrow> find t n = Some i \<Longrightarrow> find t m = None \<Longrightarrow> good_name m \<Longrightarrow>
   view (rename t i m) = (view t)(n := None, m := view t n)"
  using rename_moves [of t n i m] by (auto simp: view_def)

lemma view_store: "inv t \<Longrightarrow> find t n = Some i \<Longrightarrow> view (store t i v) = (view t)(n \<mapsto> v)"
proof
  fix m
  assume a: "inv t" "find t n = Some i"
  note c = store_changes [OF a(1) find_load [OF a], of v]
  have "m \<noteq> n \<Longrightarrow> find t m \<noteq> Some i" using find_inj [OF a(1) a(2), of m] by auto
  with a c show "view (store t i v) m = ((view t)(n \<mapsto> v)) m" by (cases "find t m") (auto simp: view_def)
qed

end

section \<open>The bounded table implements the interface\<close>

definition bt_inv :: "nat \<Rightarrow> 'a bounded_table \<Rightarrow> bool" where
  "bt_inv name_max t \<longleftrightarrow> length t < 4294967295 \<and>
     (\<forall>k < length t. be_used (t ! k) \<longrightarrow> 0 < length (be_name (t ! k)) \<and> length (be_name (t ! k)) \<le> name_max) \<and>
     (\<forall>k < length t. \<forall>l < length t. be_used (t ! k) \<and> be_used (t ! l) \<and> be_name (t ! k) = be_name (t ! l) \<longrightarrow> k = l)"

lemma names_equal_iff [simp, code]: "names_equal e name \<longleftrightarrow> be_name e = name"
  by (auto simp: names_equal_def list_eq_iff_nth_eq)

lemma unat_slot_id: "k < 4294967295 \<Longrightarrow> unat (of_nat k + 1 :: u32) = Suc k"
  by (simp add: unat_inc_u32 unat_of_nat_u32)

lemma slot_id_neq_0: "k < 4294967295 \<Longrightarrow> (of_nat k + 1 :: u32) \<noteq> 0"
  using unat_slot_id [of k] by force

lemma slot_id_iff: "k < 4294967295 \<Longrightarrow> (i :: u32) = of_nat k + 1 \<longleftrightarrow> i \<noteq> 0 \<and> unat i - 1 = k"
  using unat_slot_id [of k] slot_id_neq_0 [of k] unat_eq_nth_u32 [of i "of_nat k + 1"] by auto

text \<open>A name is found at the slot that holds it, and only there.\<close>

lemma bt_find_iff:
  assumes "bt_inv nm t"
  shows "bt_find nm t n = Some i \<longleftrightarrow> i \<noteq> 0 \<and> unat i \<le> length t \<and> be_used (t ! (unat i - 1)) \<and> be_name (t ! (unat i - 1)) = n"
proof
  assume "bt_find nm t n = Some i"
  then obtain k where k: "first_index (\<lambda>e. be_used e \<and> names_equal e n) t = Some k" "i = of_nat k + 1"
    by (auto simp: bt_find_def split: if_splits)
  from first_index_SomeD [OF k(1)] have "k < length t" "be_used (t ! k)" "be_name (t ! k) = n" by auto
  with k(2) assms slot_id_iff [of k i] unat_slot_id [of k] slot_id_neq_0 [of k]
  show "i \<noteq> 0 \<and> unat i \<le> length t \<and> be_used (t ! (unat i - 1)) \<and> be_name (t ! (unat i - 1)) = n"
    by (auto simp: bt_inv_def)
next
  assume a: "i \<noteq> 0 \<and> unat i \<le> length t \<and> be_used (t ! (unat i - 1)) \<and> be_name (t ! (unat i - 1)) = n"
  have u: "0 < unat i" using a by (simp add: unat_gt_0)
  then have k: "unat i - 1 < length t" using a by linarith
  have "0 < length n \<and> length n \<le> nm" using assms a k by (auto simp: bt_inv_def)
  moreover have "first_index (\<lambda>e. be_used e \<and> names_equal e n) t = Some (unat i - 1)"
    using k a assms by (intro first_index_unique) (auto simp: bt_inv_def)
  moreover have "i = of_nat (unat i - 1) + 1"
    using slot_id_iff [of "unat i - 1" i] a k assms by (auto simp: bt_inv_def)
  ultimately show "bt_find nm t n = Some i" by (simp add: bt_find_def)
qed

lemma bt_find_None: "bt_inv nm t \<Longrightarrow> bt_find nm t n = None \<Longrightarrow> k < length t \<Longrightarrow> be_used (t ! k) \<Longrightarrow> be_name (t ! k) \<noteq> n"
  using bt_find_iff [of nm t n "of_nat k + 1"] unat_slot_id [of k] slot_id_neq_0 [of k] by (auto simp: bt_inv_def)

lemma bt_payload_for_iff:
  "bt_payload_for t i = Some v \<longleftrightarrow> i \<noteq> 0 \<and> unat i \<le> length t \<and> be_used (t ! (unat i - 1)) \<and> v = be_payload (t ! (unat i - 1))"
  by (auto simp: bt_payload_for_def bt_slot_def)

text \<open>Replacing one slot of a table with a name that no other slot holds.\<close>

lemma bt_inv_update:
  assumes "bt_inv nm t" "be_used e \<Longrightarrow> 0 < length (be_name e) \<and> length (be_name e) \<le> nm"
    and "\<And>j. be_used e \<Longrightarrow> j < length t \<Longrightarrow> j \<noteq> k \<Longrightarrow> be_used (t ! j) \<Longrightarrow> be_name (t ! j) \<noteq> be_name e"
  shows "bt_inv nm (t[k := e])"
proof -
  have "a = b" if "a < length t" "b < length t" "be_used (t[k := e] ! a)" "be_used (t[k := e] ! b)"
    "be_name (t[k := e] ! a) = be_name (t[k := e] ! b)" for a b
    using that assms(1) assms(3) [of a] assms(3) [of b]
    by (auto simp: bt_inv_def nth_update split: if_splits)
  with assms(1,2) show ?thesis unfolding bt_inv_def by (auto simp: nth_update)
qed

lemma bt_find_update:
  assumes "bt_inv nm t" "bt_inv nm (t[k := e])" "k < length t"
  shows "bt_find nm (t[k := e]) n = Some i \<longleftrightarrow>
    (if i = of_nat k + 1 then be_used e \<and> be_name e = n else bt_find nm t n = Some i)"
proof (cases "i = of_nat k + 1")
  case True
  then have "i \<noteq> 0 \<and> unat i = Suc k" using assms(1,3) unat_slot_id [of k] slot_id_neq_0 [of k] by (auto simp: bt_inv_def)
  with True assms(3) show ?thesis by (simp add: bt_find_iff [OF assms(2)])
next
  case False
  then have "i \<noteq> 0 \<Longrightarrow> unat i - 1 \<noteq> k" using assms(1,3) slot_id_iff [of k i] by (auto simp: bt_inv_def)
  with False show ?thesis by (auto simp: bt_find_iff [OF assms(1)] bt_find_iff [OF assms(2)])
qed

lemma bt_payload_update:
  assumes "length t < 4294967295" "k < length t"
  shows "bt_payload_for (t[k := e]) = (bt_payload_for t)(of_nat k + 1 := if be_used e then Some (be_payload e) else None)"
proof
  fix i
  show "bt_payload_for (t[k := e]) i = ((bt_payload_for t)(of_nat k + 1 := if be_used e then Some (be_payload e) else None)) i"
    using assms slot_id_iff [of k i] unat_slot_id [of k] slot_id_neq_0 [of k]
    by (cases "i = of_nat k + 1") (auto simp: bt_payload_for_def bt_slot_def nth_list_update_neq split: option.splits)
qed

text \<open>The operations as clients use them, over the table alone.\<close>

definition bt_create :: "nat \<Rightarrow> 'a \<Rightarrow> 'a bounded_table \<Rightarrow> u8 list \<Rightarrow> (u32 \<times> 'a bounded_table) option" where
  "bt_create name_max dflt t name = bt_open name_max dflt t name True"

lemma bt_find_eqI:
  assumes "\<And>n i. bt_find nm t' n = Some i \<longleftrightarrow> f n = Some i"
  shows "bt_find nm t' = f"
  using assms by (metis not_Some_eq ext)

lemma bt_create_new:
  assumes "bt_inv nm t" "bt_find nm t n = None" "bt_create nm dflt t n = Some (i, t')"
  shows "bt_inv nm t' \<and> bt_payload_for t i = None \<and> bt_find nm t' = (bt_find nm t)(n := Some i) \<and>
    bt_payload_for t' = (bt_payload_for t)(i := Some dflt)"
proof -
  let ?e = "\<lparr>be_used = True, be_name = n, be_payload = dflt\<rparr>"
  obtain k where k: "first_index (\<lambda>e. \<not> be_used e) t = Some k" "i = of_nat k + 1" "t' = t[k := ?e]"
    and n: "0 < length n" "length n \<le> nm"
    using assms(2,3) by (auto simp: bt_create_def bt_open_def split: if_splits option.splits)
  have f: "k < length t" "\<not> be_used (t ! k)" using first_index_SomeD [OF k(1)] by auto
  have len: "length t < 4294967295" using assms(1) by (simp add: bt_inv_def)
  then have u: "unat i = Suc k" using k(2) f unat_slot_id [of k] by simp
  have inv: "bt_inv nm t'"
    unfolding k(3) using assms(1) n bt_find_None [OF assms(1,2)] by (intro bt_inv_update) auto
  have none: "bt_payload_for t i = None" using f u by (auto simp: bt_payload_for_def bt_slot_def)
  have "bt_find nm t m \<noteq> Some i" for m using f u by (auto simp: bt_find_iff [OF assms(1)])
  then have "bt_find nm t' = (bt_find nm t)(n := Some i)"
    using bt_find_update [OF assms(1), of k ?e] inv f k(2,3) assms(2) by (intro bt_find_eqI) auto
  moreover have "bt_payload_for t' = (bt_payload_for t)(i := Some dflt)"
    using bt_payload_update [OF len f(1), of ?e] k(2,3) by simp
  ultimately show ?thesis using inv none by blast
qed

text \<open>A slot a name resolves to, as an index.\<close>

lemma bt_found:
  assumes "bt_inv nm t" "bt_find nm t n = Some i"
  shows "unat i - 1 < length t" "i = of_nat (unat i - 1) + 1" "be_used (t ! (unat i - 1))" "be_name (t ! (unat i - 1)) = n"
    "bt_slot t i = Some (unat i - 1)" "length t < 4294967295"
proof -
  have a: "i \<noteq> 0" "unat i \<le> length t" "be_used (t ! (unat i - 1))" "be_name (t ! (unat i - 1)) = n"
    using bt_find_iff [OF assms(1)] assms(2) by auto
  have l: "length t < 4294967295" using assms(1) by (simp add: bt_inv_def)
  have "0 < unat i" using a(1) by (simp add: unat_gt_0)
  then show k: "unat i - 1 < length t" using a(2) by linarith
  then show "i = of_nat (unat i - 1) + 1" using slot_id_iff [of "unat i - 1" i] a(1) l by simp
  show "be_used (t ! (unat i - 1))" "be_name (t ! (unat i - 1)) = n" "length t < 4294967295" using a l by auto
  show "bt_slot t i = Some (unat i - 1)" using a by (simp add: bt_slot_def)
qed

lemma bt_release_free:
  assumes "bt_inv nm t" "bt_find nm t n = Some i"
  shows "bt_inv nm (snd (bt_release dflt t i)) \<and> bt_find nm (snd (bt_release dflt t i)) = (bt_find nm t)(n := None) \<and>
    bt_payload_for (snd (bt_release dflt t i)) = (bt_payload_for t)(i := None)"
proof -
  let ?e = "\<lparr>be_used = False, be_name = [], be_payload = dflt\<rparr>" and ?k = "unat i - 1"
  note f = bt_found [OF assms]
  have e: "snd (bt_release dflt t i) = t[?k := ?e]" using f by (simp add: bt_release_def bt_payload_for_def)
  have inv: "bt_inv nm (t[?k := ?e])" using assms(1) by (intro bt_inv_update) auto
  have "bt_find nm t m \<noteq> Some i" if "m \<noteq> n" for m using that f by (auto simp: bt_find_iff [OF assms(1)])
  then have "bt_find nm (t[?k := ?e]) = (bt_find nm t)(n := None)"
    using bt_find_update [OF assms(1) inv f(1)] f(2) assms(2) by (intro bt_find_eqI) auto
  then show ?thesis using inv bt_payload_update [OF f(6,1), of ?e] f(2) by (simp add: e)
qed

lemma bt_rename_moves:
  assumes "bt_inv nm t" "bt_find nm t n = Some i" "bt_find nm t m = None" "0 < length m \<and> length m \<le> nm"
  shows "bt_inv nm (snd (bt_rename nm t i m)) \<and> bt_find nm (snd (bt_rename nm t i m)) = (bt_find nm t)(n := None, m := Some i) \<and>
    bt_payload_for (snd (bt_rename nm t i m)) = bt_payload_for t"
proof -
  let ?k = "unat i - 1"
  let ?e = "(t ! ?k)\<lparr>be_name := m\<rparr>"
  note f = bt_found [OF assms(1,2)]
  have e: "snd (bt_rename nm t i m) = t[?k := ?e]" using f assms(4) by (simp add: bt_rename_def)
  have inv: "bt_inv nm (t[?k := ?e])"
    using assms(1,4) bt_find_None [OF assms(1,3)] by (intro bt_inv_update) auto
  have o: "bt_find nm t l \<noteq> Some i" if "l \<noteq> n" for l using that f by (auto simp: bt_find_iff [OF assms(1)])
  have find: "bt_find nm (t[?k := ?e]) l = Some j \<longleftrightarrow> ((bt_find nm t)(n := None, m := Some i)) l = Some j" for l j
    using bt_find_update [OF assms(1) inv f(1), of l j] f(2,3) o [of l] assms(2,3)
    by (cases "j = i") (auto split: if_splits)
  have p: "bt_payload_for t i = Some (be_payload (t ! ?k))" using f by (simp add: bt_payload_for_def)
  have "bt_payload_for (t[?k := ?e]) = bt_payload_for t"
    using bt_payload_update [OF f(6,1), of ?e] f(2,3) p by (simp add: fun_upd_idem)
  with inv bt_find_eqI [OF find] show ?thesis by (simp add: e fun_upd_def)
qed

lemma bt_store_changes:
  assumes "bt_inv nm t" "bt_payload_for t i \<noteq> None"
  shows "bt_inv nm (bt_store t i v) \<and> bt_find nm (bt_store t i v) = bt_find nm t \<and>
    bt_payload_for (bt_store t i v) = (bt_payload_for t)(i := Some v)"
proof -
  obtain n where n: "bt_find nm t n = Some i"
    using assms bt_find_iff [OF assms(1)] bt_payload_for_iff [of t i] by auto
  let ?k = "unat i - 1"
  let ?e = "(t ! ?k)\<lparr>be_payload := v\<rparr>"
  note f = bt_found [OF assms(1) n]
  have inv: "bt_inv nm (t[?k := ?e])" using assms(1) f by (intro bt_inv_update) (auto simp: bt_inv_def)
  have "bt_find nm (t[?k := ?e]) l = Some j \<longleftrightarrow> bt_find nm t l = Some j" for l j
    using bt_find_update [OF assms(1) inv f(1), of l j] f by (auto simp: bt_find_iff [OF assms(1)])
  from bt_find_eqI [OF this] inv bt_payload_update [OF f(6,1), of ?e] f(2,3) show ?thesis
    by (simp add: bt_store_def)
qed

interpretation bt: named_slots "bt_inv nm" "bt_find nm" bt_payload_for "bt_create nm dflt"
  "\<lambda>t i. snd (bt_release dflt t i)" "\<lambda>t i m. snd (bt_rename nm t i m)" bt_store
  "\<lambda>m. 0 < length m \<and> length m \<le> nm" dflt
  for nm dflt
proof (unfold_locales, goal_cases)
  case (1 t n i)
  then show ?case using bt_found [of nm t n i] by (simp add: bt_payload_for_def)
next
  case (2 t i)
  then show ?case using bt_payload_for_iff [of t i] by (auto simp: bt_find_iff)
next
  case (3 t n i m)
  then show ?case using bt_found(4) by metis
next
  case (4 t n i t')
  then show ?case by (rule bt_create_new)
next
  case (5 t n i)
  then show ?case by (rule bt_release_free)
next
  case (6 t n i m)
  then show ?case by (rule bt_rename_moves)
next
  case (7 t i v)
  then show ?case by (rule bt_store_changes)
qed

text \<open>Creation fails only on a bad name or a full table.\<close>

lemma bt_create_fails:
  "bt_find nm t n = None \<Longrightarrow> bt_create nm dflt t n = None \<longleftrightarrow>
     length n = 0 \<or> length n > nm \<or> (\<forall>e \<in> set t. be_used e)"
  using first_index_None_iff [of "\<lambda>e. \<not> be_used e" t]
  by (auto simp: bt_create_def bt_open_def split: option.splits)

end
