(* ===== verification/Ramfs.thy ===== *)
theory Ramfs
  imports Bounded_Table Phys_Memory
begin

text \<open>
  The RAM file system of \<open>src/src/ramfs.cpp\<close>: a bounded table of 56 named files over an arena of
  1 MiB that is handed out front to back and never reclaimed; files of the boot image are
  references into physical memory. The file system is shown to refine a finite map from names to
  byte strings, through the interface \<open>named_slots\<close> of the table.
\<close>

section \<open>State\<close>

abbreviation (input) kRamfsFiles :: nat where "kRamfsFiles \<equiv> 56"
abbreviation (input) kRamfsNameMax :: nat where "kRamfsNameMax \<equiv> 63"
abbreviation (input) kRamfsDataMax :: nat where "kRamfsDataMax \<equiv> 196608"
abbreviation (input) kRamfsStorageMax :: nat where "kRamfsStorageMax \<equiv> 1048576"

text \<open>\<open>external_data\<close> is an address of physical memory, 0 the null pointer.\<close>

record ramfs_payload =
  rp_offset :: nat
  rp_capacity :: nat
  rp_length :: nat
  rp_external_data :: u64

definition ramfs_payload_default :: ramfs_payload where
  "ramfs_payload_default = \<lparr>rp_offset = 0, rp_capacity = 0, rp_length = 0, rp_external_data = 0\<rparr>"

record ramfs_state =
  rf_table :: "ramfs_payload bounded_table"
  rf_storage :: "nat \<Rightarrow> u8"
  rf_storage_used :: nat
  rf_read_count :: u64
  rf_write_count :: u64
  rf_seeded_count :: u64

section \<open>Names\<close>

text \<open>\<open>0x2F\<close> is the slash, \<open>0x2E\<close> the dot, \<open>0x5F\<close> the underscore and \<open>0x2D\<close> the dash.\<close>

definition allowed_char :: "u8 \<Rightarrow> bool" where
  "allowed_char c \<longleftrightarrow> (0x61 \<le> c \<and> c \<le> 0x7A) \<or> (0x41 \<le> c \<and> c \<le> 0x5A) \<or> (0x30 \<le> c \<and> c \<le> 0x39) \<or>
     c = 0x2E \<or> c = 0x5F \<or> c = 0x2D"

definition valid_segment :: "u8 list \<Rightarrow> bool" where
  "valid_segment segment \<longleftrightarrow> length segment \<noteq> 0 \<and> \<not> (length segment = 1 \<and> segment ! 0 = 0x2E) \<and>
     \<not> (length segment = 2 \<and> segment ! 0 = 0x2E \<and> segment ! 1 = 0x2E) \<and> (\<forall>c \<in> set segment. allowed_char c)"

text \<open>
  The scan of \<open>valid_name\<close>: \<open>segment\<close> holds the bytes from \<open>segment_start\<close> to the cursor, the list the
  bytes from the cursor on.
\<close>

fun valid_segments :: "u8 list \<Rightarrow> u8 list \<Rightarrow> bool" where
  "valid_segments segment [] = valid_segment segment"
| "valid_segments segment (c # cs) =
     (if c = 0x2F then valid_segment segment \<and> valid_segments [] cs else valid_segments (segment @ [c]) cs)"

definition valid_name :: "u8 list \<Rightarrow> bool" where
  "valid_name name \<longleftrightarrow> length name \<noteq> 0 \<and> length name \<le> kRamfsNameMax \<and>
     (let rest = (if name ! 0 = 0x2F then tl name else name) in rest \<noteq> [] \<and> valid_segments [] rest)"

section \<open>Operations\<close>

text \<open>The static function \<open>store\<close>: the payload and the arena after storing \<open>data\<close>, or None.\<close>

definition ramfs_store :: "ramfs_payload \<Rightarrow> u8 list \<Rightarrow> ramfs_state \<Rightarrow> (ramfs_payload \<times> ramfs_state) option" where
  "ramfs_store file data fs =
     (if rp_external_data file \<noteq> 0 \<or> length data > kRamfsDataMax then None
      else if length data > rp_capacity file
      then if length data > kRamfsStorageMax - rf_storage_used fs then None
           else let f = file\<lparr>rp_offset := rf_storage_used fs, rp_capacity := length data\<rparr> in
             Some (f\<lparr>rp_length := length data\<rparr>,
                   fs\<lparr>rf_storage_used := rf_storage_used fs + length data,
                      rf_storage := mem_copy (rf_storage fs) (rp_offset f) data\<rparr>)
      else Some (file\<lparr>rp_length := length data\<rparr>, fs\<lparr>rf_storage := mem_copy (rf_storage fs) (rp_offset file) data\<rparr>))"

definition ramfs_init :: "ramfs_state \<Rightarrow> ramfs_state" where
  "ramfs_init fs = fs\<lparr>rf_table := bt_new kRamfsFiles ramfs_payload_default, rf_read_count := 0, rf_write_count := 0,
     rf_seeded_count := 0, rf_storage_used := 0\<rparr>"

definition ramfs_open :: "u8 list \<Rightarrow> bool \<Rightarrow> ramfs_state \<Rightarrow> u32 option \<times> ramfs_state" where
  "ramfs_open name create fs =
     (if \<not> valid_name name then (None, fs)
      else case bt_open kRamfsNameMax ramfs_payload_default (rf_table fs) name create of
        None \<Rightarrow> (None, fs)
      | Some (i, t) \<Rightarrow> (Some i, fs\<lparr>rf_table := t\<rparr>))"

text \<open>Storing to an object: the shared part of \<open>ramfs_seed\<close> and \<open>ramfs_write\<close>.\<close>

definition ramfs_put :: "u32 \<Rightarrow> u8 list \<Rightarrow> ramfs_state \<Rightarrow> ramfs_state option" where
  "ramfs_put object_id data fs =
     (case bt_payload_for (rf_table fs) object_id of
        None \<Rightarrow> None
      | Some file \<Rightarrow>
          (case ramfs_store file data fs of
             None \<Rightarrow> None
           | Some (f, fs') \<Rightarrow> Some (fs'\<lparr>rf_table := bt_store (rf_table fs') object_id f\<rparr>)))"

definition ramfs_seed_reference :: "u8 list \<Rightarrow> u64 \<Rightarrow> nat \<Rightarrow> ramfs_state \<Rightarrow> bool \<times> ramfs_state" where
  "ramfs_seed_reference name data len fs =
     (if data = 0 then (False, fs)
      else case ramfs_open name True fs of
        (None, fs1) \<Rightarrow> (False, fs1)
      | (Some object_id, fs1) \<Rightarrow>
          (case bt_payload_for (rf_table fs1) object_id of
             None \<Rightarrow> (False, fs1)
           | Some file \<Rightarrow>
               (if rp_length file \<noteq> 0 \<or> rp_capacity file \<noteq> 0 \<or> rp_external_data file \<noteq> 0 then (False, fs1)
                else (True, fs1\<lparr>rf_table := bt_store (rf_table fs1) object_id
                        (file\<lparr>rp_external_data := data, rp_length := len\<rparr>), rf_seeded_count := rf_seeded_count fs1 + 1\<rparr>))))"

definition ramfs_seed :: "u8 list \<Rightarrow> u8 list \<Rightarrow> ramfs_state \<Rightarrow> bool \<times> ramfs_state" where
  "ramfs_seed name data fs =
     (if length data > kRamfsDataMax then (False, fs)
      else case ramfs_open name True fs of
        (None, fs1) \<Rightarrow> (False, fs1)
      | (Some object_id, fs1) \<Rightarrow>
          (case ramfs_put object_id data fs1 of
             None \<Rightarrow> (False, fs1)
           | Some fs2 \<Rightarrow> (True, fs2\<lparr>rf_seeded_count := rf_seeded_count fs2 + 1\<rparr>)))"

definition ramfs_delete :: "u8 list \<Rightarrow> ramfs_state \<Rightarrow> bool \<times> ramfs_state" where
  "ramfs_delete name fs =
     (if \<not> valid_name name then (False, fs)
      else case bt_find kRamfsNameMax (rf_table fs) name of
        None \<Rightarrow> (False, fs)
      | Some i \<Rightarrow> (let (ok, t) = bt_release ramfs_payload_default (rf_table fs) i in (ok, fs\<lparr>rf_table := t\<rparr>)))"

definition ramfs_rename :: "u8 list \<Rightarrow> u8 list \<Rightarrow> ramfs_state \<Rightarrow> bool \<times> ramfs_state" where
  "ramfs_rename old_name new_name fs =
     (if \<not> valid_name old_name \<or> \<not> valid_name new_name then (False, fs)
      else case bt_find kRamfsNameMax (rf_table fs) new_name of
        Some _ \<Rightarrow> (False, fs)
      | None \<Rightarrow>
          (case bt_find kRamfsNameMax (rf_table fs) old_name of
             None \<Rightarrow> (False, fs)
           | Some i \<Rightarrow> (let (ok, t) = bt_rename kRamfsNameMax (rf_table fs) i new_name in (ok, fs\<lparr>rf_table := t\<rparr>))))"

definition ramfs_write :: "u32 \<Rightarrow> u8 list \<Rightarrow> ramfs_state \<Rightarrow> bool \<times> ramfs_state" where
  "ramfs_write object_id data fs =
     (case ramfs_put object_id data fs of
        None \<Rightarrow> (False, fs)
      | Some fs' \<Rightarrow> (True, fs'\<lparr>rf_write_count := rf_write_count fs' + 1\<rparr>))"

text \<open>The bytes of a file from \<open>offset\<close> on; \<open>m\<close> is the physical memory that holds the boot modules.\<close>

definition file_bytes :: "memory \<Rightarrow> ramfs_state \<Rightarrow> ramfs_payload \<Rightarrow> nat \<Rightarrow> nat \<Rightarrow> u8 list" where
  "file_bytes m fs file offset amount =
     (if rp_external_data file \<noteq> 0 then phys_read m (rp_external_data file + of_nat offset) amount
      else mem_read (rf_storage fs) (rp_offset file + offset) amount)"

definition ramfs_read_range :: "memory \<Rightarrow> u32 \<Rightarrow> nat \<Rightarrow> nat \<Rightarrow> ramfs_state \<Rightarrow> u8 list option \<times> ramfs_state" where
  "ramfs_read_range m object_id offset capacity fs =
     (case bt_payload_for (rf_table fs) object_id of
        None \<Rightarrow> (None, fs)
      | Some file \<Rightarrow>
          (if offset > rp_length file then (None, fs)
           else let amount = (if rp_length file - offset > capacity then capacity else rp_length file - offset) in
             (Some (file_bytes m fs file offset amount), fs\<lparr>rf_read_count := rf_read_count fs + 1\<rparr>)))"

definition ramfs_read :: "memory \<Rightarrow> u32 \<Rightarrow> nat \<Rightarrow> ramfs_state \<Rightarrow> u8 list option \<times> ramfs_state" where
  "ramfs_read m object_id capacity fs = ramfs_read_range m object_id 0 capacity fs"

definition ramfs_size :: "u32 \<Rightarrow> ramfs_state \<Rightarrow> nat option" where
  "ramfs_size object_id fs = map_option rp_length (bt_payload_for (rf_table fs) object_id)"

text \<open>\<open>ramfs_view\<close> returns a pointer to the contents; here the bytes it points at.\<close>

definition ramfs_view :: "memory \<Rightarrow> u32 \<Rightarrow> ramfs_state \<Rightarrow> u8 list option" where
  "ramfs_view m object_id fs =
     map_option (\<lambda>file. file_bytes m fs file 0 (rp_length file)) (bt_payload_for (rf_table fs) object_id)"

definition object_ids :: "ramfs_state \<Rightarrow> u32 list" where
  "object_ids fs = map (\<lambda>k. of_nat k + 1) [0..<length (rf_table fs)]"

definition ramfs_file_count :: "ramfs_state \<Rightarrow> nat" where
  "ramfs_file_count fs = count_if (\<lambda>i. bt_payload_for (rf_table fs) i \<noteq> None) (object_ids fs)"

definition ramfs_bytes_used :: "ramfs_state \<Rightarrow> nat" where
  "ramfs_bytes_used fs =
     sum_list (map (\<lambda>i. case bt_payload_for (rf_table fs) i of None \<Rightarrow> 0 | Some file \<Rightarrow> rp_length file) (object_ids fs))"

section \<open>Listing\<close>

definition normalize_prefix :: "u8 list \<Rightarrow> u8 list" where
  "normalize_prefix prefix = (if length prefix > 0 \<and> prefix ! 0 = 0x2F then tl prefix else prefix)"

text \<open>
  The child of directory \<open>dir\<close> that leads to \<open>name\<close>, and whether it is the file itself.
\<close>

definition child_of :: "u8 list \<Rightarrow> u8 list \<Rightarrow> (u8 list \<times> bool) option" where
  "child_of name dir =
     (let nm = (if length name > 0 \<and> name ! 0 = 0x2F then tl name else name);
          rel = (if length dir = 0 then Some nm
                 else if length nm \<le> length dir then None
                 else if \<not> list_all2 (=) (take (length dir) nm) dir then None
                 else if nm ! length dir \<noteq> 0x2F then None
                 else Some (drop (length dir + 1) nm)) in
      case rel of
        None \<Rightarrow> None
      | Some r \<Rightarrow>
          (if r = [] then None
           else let child = takeWhile (\<lambda>c. c \<noteq> 0x2F) r in Some (child, length child = length r)))"

definition ramfs_child :: "ramfs_state \<Rightarrow> u8 list \<Rightarrow> u32 \<Rightarrow> (u8 list \<times> bool) option" where
  "ramfs_child fs dir i = (case bt_name_for (rf_table fs) i of None \<Rightarrow> None | Some name \<Rightarrow> child_of name dir)"

definition child_seen :: "ramfs_state \<Rightarrow> u8 list \<Rightarrow> u32 list \<Rightarrow> u8 list \<Rightarrow> bool" where
  "child_seen fs dir earlier child \<longleftrightarrow>
     (\<exists>i \<in> set earlier. case ramfs_child fs dir i of None \<Rightarrow> False | Some (c, _) \<Rightarrow> c = child)"

text \<open>
  The loop of \<open>ramfs_list\<close>: the remaining identifiers, those already passed, and the number of
  entries already counted. An entry is the child name, its length and whether it is a directory.
\<close>

fun list_scan :: "ramfs_state \<Rightarrow> u8 list \<Rightarrow> nat \<Rightarrow> u32 list \<Rightarrow> u32 list \<Rightarrow> nat \<Rightarrow> (u8 list \<times> nat \<times> bool) option" where
  "list_scan fs dir index [] earlier current = None"
| "list_scan fs dir index (i # is) earlier current =
     (case bt_payload_for (rf_table fs) i of
        None \<Rightarrow> list_scan fs dir index is (earlier @ [i]) current
      | Some file \<Rightarrow>
          (case ramfs_child fs dir i of
             None \<Rightarrow> list_scan fs dir index is (earlier @ [i]) current
           | Some (child, is_leaf) \<Rightarrow>
               (if \<not> is_leaf \<and> child_seen fs dir earlier child then list_scan fs dir index is (earlier @ [i]) current
                else if current \<noteq> index then list_scan fs dir index is (earlier @ [i]) (current + 1)
                else Some (child, if is_leaf then rp_length file else 0, \<not> is_leaf))))"

definition ramfs_list :: "u8 list \<Rightarrow> nat \<Rightarrow> ramfs_state \<Rightarrow> (u8 list \<times> nat \<times> bool) option" where
  "ramfs_list prefix index fs = list_scan fs (normalize_prefix prefix) index (object_ids fs) [] 0"

fun entry_scan :: "ramfs_state \<Rightarrow> nat \<Rightarrow> u32 list \<Rightarrow> nat \<Rightarrow> (u8 list \<times> nat) option" where
  "entry_scan fs index [] current = None"
| "entry_scan fs index (i # is) current =
     (case (bt_payload_for (rf_table fs) i, bt_name_for (rf_table fs) i) of
        (Some file, Some name) \<Rightarrow>
          (if current \<noteq> index then entry_scan fs index is (current + 1) else Some (name, rp_length file))
      | _ \<Rightarrow> entry_scan fs index is current)"

definition ramfs_entry :: "nat \<Rightarrow> ramfs_state \<Rightarrow> (u8 list \<times> nat) option" where
  "ramfs_entry index fs = entry_scan fs index (object_ids fs) 0"

section \<open>Valid names have no empty, dot or dot-dot segment\<close>

fun split_slash :: "u8 list \<Rightarrow> u8 list list" where
  "split_slash [] = [[]]"
| "split_slash (c # cs) = (if c = 0x2F then [] # split_slash cs else case split_slash cs of [] \<Rightarrow> [[c]] | s # ss \<Rightarrow> (c # s) # ss)"

lemma split_slash_not_Nil: "split_slash cs \<noteq> []"
  by (cases cs) (auto split: list.splits)

lemma valid_segments_split:
  "valid_segments seg cs \<longleftrightarrow> valid_segment (seg @ hd (split_slash cs)) \<and> (\<forall>s \<in> set (tl (split_slash cs)). valid_segment s)"
proof (induction cs arbitrary: seg)
  case (Cons c cs)
  show ?case
  proof (cases "c = 0x2F")
    case True
    have "set (split_slash cs) = {hd (split_slash cs)} \<union> set (tl (split_slash cs))"
      using split_slash_not_Nil [of cs] by (metis list.collapse list.simps(15) insert_is_Un)
    with True Cons.IH [of "[]"] show ?thesis by auto
  next
    case False
    obtain s ss where "split_slash cs = s # ss" using split_slash_not_Nil [of cs] by (meson neq_Nil_conv)
    with False Cons.IH [of "seg @ [c]"] show ?thesis by simp
  qed
qed simp

lemma valid_name_split:
  "valid_name name \<longleftrightarrow> 0 < length name \<and> length name \<le> kRamfsNameMax \<and>
     (\<forall>s \<in> set (split_slash (if hd name = 0x2F then tl name else name)). valid_segment s)"
proof -
  have e: "valid_segments [] cs \<longleftrightarrow> (\<forall>s \<in> set (split_slash cs). valid_segment s)" for cs
    using valid_segments_split [of "[]" cs] split_slash_not_Nil [of cs]
    by (metis append_Nil list.collapse set_ConsD list.set_intros)
  have "\<not> valid_segment []" by (simp add: valid_segment_def)
  then show ?thesis
    by (cases name) (auto simp: valid_name_def e Let_def)
qed

section \<open>The arena\<close>

text \<open>
  Every file in the arena lies below \<open>storage_used\<close>, its length is at most its capacity, and no two
  files share a byte. Files of the boot image own no part of the arena.
\<close>

definition extent_ok :: "nat \<Rightarrow> ramfs_payload \<Rightarrow> bool" where
  "extent_ok used f \<longleftrightarrow> rp_offset f + rp_capacity f \<le> used \<and>
     (if rp_external_data f = 0 then rp_length f \<le> rp_capacity f else rp_capacity f = 0)"

definition apart :: "ramfs_payload \<Rightarrow> ramfs_payload \<Rightarrow> bool" where
  "apart f g \<longleftrightarrow> rp_offset f + rp_capacity f \<le> rp_offset g \<or> rp_offset g + rp_capacity g \<le> rp_offset f \<or>
     rp_capacity f = 0 \<or> rp_capacity g = 0"

definition arena_ok :: "nat \<Rightarrow> (u32 \<Rightarrow> ramfs_payload option) \<Rightarrow> bool" where
  "arena_ok used P \<longleftrightarrow> (\<forall>i f. P i = Some f \<longrightarrow> extent_ok used f) \<and>
     (\<forall>i j f g. P i = Some f \<and> P j = Some g \<and> i \<noteq> j \<longrightarrow> apart f g)"

definition ramfs_inv :: "ramfs_state \<Rightarrow> bool" where
  "ramfs_inv fs \<longleftrightarrow> length (rf_table fs) = kRamfsFiles \<and> bt_inv kRamfsNameMax (rf_table fs) \<and>
     rf_storage_used fs \<le> kRamfsStorageMax \<and> arena_ok (rf_storage_used fs) (bt_payload_for (rf_table fs)) \<and>
     (\<forall>n. bt_find kRamfsNameMax (rf_table fs) n \<noteq> None \<longrightarrow> valid_name n)"

text \<open>The contents of the file system: a map from names to byte strings.\<close>

definition ramfs_files :: "memory \<Rightarrow> ramfs_state \<Rightarrow> u8 list \<Rightarrow> u8 list option" where
  "ramfs_files m fs name =
     (case bt_find kRamfsNameMax (rf_table fs) name of None \<Rightarrow> None | Some i \<Rightarrow> ramfs_view m i fs)"

lemma arena_ok_blank: "arena_ok used P \<Longrightarrow> arena_ok used (P(i := Some ramfs_payload_default))"
  by (auto simp: arena_ok_def extent_ok_def apart_def ramfs_payload_default_def)

lemma arena_ok_remove: "arena_ok used P \<Longrightarrow> arena_ok used (P(i := None))"
  by (auto simp: arena_ok_def)

lemma file_bytes_table [simp]: "file_bytes m (fs\<lparr>rf_table := t\<rparr>) f = file_bytes m fs f"
  by (simp add: fun_eq_iff file_bytes_def)

lemma file_bytes_counts [simp]:
  "file_bytes m (fs\<lparr>rf_write_count := c\<rparr>) f = file_bytes m fs f" "file_bytes m (fs\<lparr>rf_read_count := c\<rparr>) f = file_bytes m fs f"
  by (simp_all add: fun_eq_iff file_bytes_def)

lemma ramfs_view_Some: "ramfs_view m i fs = Some b \<longleftrightarrow>
   (\<exists>f. bt_payload_for (rf_table fs) i = Some f \<and> b = file_bytes m fs f 0 (rp_length f))"
  by (auto simp: ramfs_view_def)

text \<open>The file map seen through the view of the table.\<close>

lemma ramfs_files_view:
  "ramfs_files m fs n = map_option (\<lambda>f. file_bytes m fs f 0 (rp_length f)) (bt.view kRamfsNameMax (rf_table fs) n)"
  by (simp add: ramfs_files_def ramfs_view_def bt.view_def split: option.splits)

lemma bt_found_payload: "bt_inv nm t \<Longrightarrow> bt_find nm t n = Some i \<Longrightarrow> \<exists>f. bt_payload_for t i = Some f"
  using bt.find_load by blast

text \<open>What \<open>store\<close> guarantees of the payload it returns and of the other files.\<close>

lemma ramfs_store_spec:
  assumes "ramfs_store f data fs = Some (f', fs')" "rf_storage_used fs \<le> kRamfsStorageMax"
    "extent_ok (rf_storage_used fs) f"
  shows "extent_ok (rf_storage_used fs') f'" "rf_storage_used fs \<le> rf_storage_used fs'" "rf_storage_used fs' \<le> kRamfsStorageMax"
    and "rf_table fs' = rf_table fs" "rp_external_data f' = 0" "mem_read (rf_storage fs') (rp_offset f') (rp_length f') = data"
    and "\<And>g. extent_ok (rf_storage_used fs) g \<Longrightarrow> apart f g \<Longrightarrow> apart f' g \<and>
      file_bytes m fs' g 0 (rp_length g) = file_bytes m fs g 0 (rp_length g)"
proof -
  consider (grow) "length data > rp_capacity f" "f' = f\<lparr>rp_offset := rf_storage_used fs, rp_capacity := length data, rp_length := length data\<rparr>"
      "fs' = fs\<lparr>rf_storage_used := rf_storage_used fs + length data, rf_storage := mem_copy (rf_storage fs) (rf_storage_used fs) data\<rparr>"
      "length data \<le> kRamfsStorageMax - rf_storage_used fs" "rp_external_data f = 0"
    | (keep) "length data \<le> rp_capacity f" "f' = f\<lparr>rp_length := length data\<rparr>"
      "fs' = fs\<lparr>rf_storage := mem_copy (rf_storage fs) (rp_offset f) data\<rparr>" "rp_external_data f = 0"
    using assms(1) by (auto simp: ramfs_store_def Let_def split: if_splits)
  note c = this
  show "extent_ok (rf_storage_used fs') f'" using c assms(3) by cases (auto simp: extent_ok_def)
  show "rf_storage_used fs \<le> rf_storage_used fs'" using c by cases auto
  show "rf_storage_used fs' \<le> kRamfsStorageMax" using c assms(2) by cases auto
  show "rf_table fs' = rf_table fs" using c by cases simp_all
  show "rp_external_data f' = 0" using c by cases simp_all
  show "mem_read (rf_storage fs') (rp_offset f') (rp_length f') = data"
    using c by cases (auto simp: mem_read_copy_same)
  fix g
  assume g: "extent_ok (rf_storage_used fs) g" "apart f g"
  from c show "apart f' g \<and> file_bytes m fs' g 0 (rp_length g) = file_bytes m fs g 0 (rp_length g)"
  proof cases
    case grow
    then show ?thesis using g assms(3)
      by (auto simp: apart_def extent_ok_def file_bytes_def intro!: mem_read_copy_disjoint split: if_splits)
  next
    case keep
    have "rp_external_data g = 0 \<Longrightarrow> rp_length g \<le> rp_capacity g" using g(1) by (simp add: extent_ok_def)
    with keep g(2) have "rp_external_data g = 0 \<Longrightarrow> mem_read (rf_storage fs') (rp_offset g) (rp_length g) = mem_read (rf_storage fs) (rp_offset g) (rp_length g)"
      by (cases "rp_capacity g = 0 \<or> rp_capacity f = 0") (auto simp: apart_def mem_read_def mem_copy_apply)
    with keep g show ?thesis by (auto simp: apart_def file_bytes_def)
  qed
qed

section \<open>Operations and the file map\<close>

lemma ramfs_inv_table: "ramfs_inv fs \<Longrightarrow> bt_inv kRamfsNameMax (rf_table fs)"
  by (simp add: ramfs_inv_def)

text \<open>Rebuilding the invariant for a changed table with the same arena.\<close>

lemma ramfs_inv_tableI:
  assumes "ramfs_inv fs" "bt_inv kRamfsNameMax t" "length t = kRamfsFiles" "arena_ok (rf_storage_used fs) (bt_payload_for t)"
    "\<And>n. bt_find kRamfsNameMax t n \<noteq> None \<Longrightarrow> valid_name n"
  shows "ramfs_inv (fs\<lparr>rf_table := t\<rparr>)"
  using assms by (simp add: ramfs_inv_def)

lemma bt_open_length: "bt_open nm d t n c = Some (i, t') \<Longrightarrow> length t' = length t"
  by (auto simp: bt_open_def split: option.splits if_splits)

lemma length_bt_release [simp]: "length (snd (bt_release d t i)) = length t"
  by (auto simp: bt_release_def split: option.splits)

lemma length_bt_rename [simp]: "length (snd (bt_rename nm t i n)) = length t"
  by (auto simp: bt_rename_def split: option.splits)

lemma length_bt_store [simp]: "length (bt_store t i v) = length t"
  by (simp add: bt_store_def)

lemma valid_name_length: "valid_name n \<Longrightarrow> 0 < length n \<and> length n \<le> kRamfsNameMax"
  by (auto simp: valid_name_def)

lemma ramfs_put_refines:
  assumes inv: "ramfs_inv fs" and put: "ramfs_put i data fs = Some fs'"
  shows "ramfs_inv fs' \<and> (\<forall>n. bt_find kRamfsNameMax (rf_table fs) n = Some i \<longrightarrow>
    ramfs_files m fs' = (ramfs_files m fs)(n \<mapsto> data))"
proof -
  let ?t = "rf_table fs" and ?P = "bt_payload_for (rf_table fs)"
  note b = ramfs_inv_table [OF inv]
  obtain f f' fs1 where f: "?P i = Some f" and st: "ramfs_store f data fs = Some (f', fs1)"
    and fs': "fs' = fs1\<lparr>rf_table := bt_store (rf_table fs1) i f'\<rparr>"
    using put by (auto simp: ramfs_put_def split: option.splits)
  have used: "rf_storage_used fs \<le> kRamfsStorageMax" and ar: "arena_ok (rf_storage_used fs) ?P"
    using inv by (auto simp: ramfs_inv_def)
  have ef: "extent_ok (rf_storage_used fs) f" using ar f by (auto simp: arena_ok_def)
  note sp = ramfs_store_spec [OF st used ef]
  have sc: "bt_inv kRamfsNameMax (bt_store ?t i f')" "bt_find kRamfsNameMax (bt_store ?t i f') = bt_find kRamfsNameMax ?t"
    "bt_payload_for (bt_store ?t i f') = ?P(i := Some f')"
    using bt_store_changes [OF b, of i f'] f by auto
  have other: "apart f' g \<and> file_bytes m fs1 g 0 (rp_length g) = file_bytes m fs g 0 (rp_length g)"
    if "?P j = Some g" "j \<noteq> i" for j g
  proof -
    have "apart f g" using ar f that unfolding arena_ok_def by metis
    with that(1) ar show ?thesis using sp(7) [of g] by (auto simp: arena_ok_def)
  qed
  have grown: "extent_ok (rf_storage_used fs1) g" if "?P j = Some g" for j g
  proof -
    have "extent_ok (rf_storage_used fs) g" using that ar unfolding arena_ok_def by metis
    with sp(2) show ?thesis by (auto simp: extent_ok_def)
  qed
  have sym: "apart g h = apart h g" for g h by (auto simp: apart_def)
  have "arena_ok (rf_storage_used fs1) (?P(i := Some f'))"
    unfolding arena_ok_def using sp(1) grown other ar sym by (auto simp: arena_ok_def)
  then have "ramfs_inv fs'"
    using inv sp(3,4) sc by (simp add: ramfs_inv_def fs')
  moreover have "ramfs_files m fs' = (ramfs_files m fs)(n \<mapsto> data)" if n: "bt_find kRamfsNameMax ?t n = Some i" for n
  proof
    fix k
    have own: "file_bytes m fs1 f' 0 (rp_length f') = data" using sp(5,6) by (simp add: file_bytes_def)
    show "ramfs_files m fs' k = ((ramfs_files m fs)(n \<mapsto> data)) k"
    proof (cases "bt_find kRamfsNameMax ?t k")
      case None
      with n sc sp(4) show ?thesis by (auto simp: ramfs_files_def fs')
    next
      case (Some j)
      then obtain g where g: "?P j = Some g" using bt_found_payload [OF b] by blast
      have "j = i \<longleftrightarrow> k = n" 
        using Some n bt_found(4) [OF b Some] bt_found(4) [OF b n] by (metis option.inject)
      moreover have "ramfs_files m fs' k = Some (if j = i then data else file_bytes m fs1 g 0 (rp_length g))"
        using Some g sc sp(4) own by (simp add: ramfs_files_def ramfs_view_def fs')
      moreover have "ramfs_files m fs k = Some (file_bytes m fs g 0 (rp_length g))"
        using Some g by (simp add: ramfs_files_def ramfs_view_def)
      ultimately show ?thesis using other [of j g] g by simp
    qed
  qed
  ultimately show ?thesis by blast
qed

lemma file_bytes_blank: "file_bytes m fs ramfs_payload_default 0 0 = []"
  by (simp add: file_bytes_def ramfs_payload_default_def mem_read_def)

lemma ramfs_open_refines:
  assumes inv: "ramfs_inv fs" and op: "ramfs_open name create fs = (r, fs')"
  shows "ramfs_inv fs' \<and> (case r of
      None \<Rightarrow> fs' = fs \<and> (ramfs_files m fs name = None \<or> \<not> valid_name name)
    | Some i \<Rightarrow> bt_find kRamfsNameMax (rf_table fs') name = Some i \<and>
        ramfs_files m fs' = (if ramfs_files m fs name = None then (ramfs_files m fs)(name \<mapsto> []) else ramfs_files m fs) \<and>
        (ramfs_files m fs name = None \<longrightarrow> create \<and> bt_payload_for (rf_table fs') i = Some ramfs_payload_default))"
proof -
  let ?t = "rf_table fs"
  note b = ramfs_inv_table [OF inv]
  have none: "bt_find kRamfsNameMax ?t name = None \<longleftrightarrow> ramfs_files m fs name = None"
    using bt_found_payload [OF b, of name] by (auto simp: ramfs_files_def ramfs_view_def split: option.splits)
  consider (bad) "r = None" "fs' = fs" "\<not> valid_name name \<or> bt_find kRamfsNameMax ?t name = None"
    | (old) i where "r = Some i" "fs' = fs" "bt_find kRamfsNameMax ?t name = Some i"
    | (new) i t where "r = Some i" "fs' = fs\<lparr>rf_table := t\<rparr>" "bt_find kRamfsNameMax ?t name = None" "create" "valid_name name"
        "bt_create kRamfsNameMax ramfs_payload_default ?t name = Some (i, t)"
  proof (cases "valid_name name \<and> bt_find kRamfsNameMax ?t name \<noteq> None")
    case True
    then obtain i where i: "bt_find kRamfsNameMax ?t name = Some i" by blast
    with True op have "r = Some i" "fs' = fs" by (auto simp: ramfs_open_def bt_open_def)
    with i old show ?thesis by blast
  next
    case False
    then show ?thesis using op bad new
      by (cases "bt_create kRamfsNameMax ramfs_payload_default ?t name")
        (auto simp: ramfs_open_def bt_create_def bt_open_def split: if_splits option.splits)
  qed
  then show ?thesis
  proof cases
    case bad
    with inv none show ?thesis by auto
  next
    case old
    with inv none show ?thesis by auto
  next
    case new
    note c = bt_create_new [OF b new(3,6)]
    note v = bt.view_create [OF b new(3,6)]
    have l: "length t = kRamfsFiles"
      using inv bt_open_length [OF new(6) [unfolded bt_create_def]] by (simp add: ramfs_inv_def)
    have "ramfs_inv fs'"
      unfolding new(2) using inv l c arena_ok_blank new(5) by (intro ramfs_inv_tableI) (auto simp: ramfs_inv_def split: if_splits)
    moreover have "ramfs_files m fs' = (ramfs_files m fs)(name \<mapsto> [])"
      using v file_bytes_blank [of m fs] by (auto simp: fun_eq_iff ramfs_files_view new(2) ramfs_payload_default_def)
    ultimately show ?thesis using c new none by auto
  qed
qed

lemma ramfs_delete_refines:
  assumes inv: "ramfs_inv fs" and op: "ramfs_delete name fs = (ok, fs')"
  shows "ramfs_inv fs' \<and> ramfs_files m fs' = (ramfs_files m fs)(name := None) \<and> ok = (ramfs_files m fs name \<noteq> None)"
proof -
  let ?t = "rf_table fs"
  note b = ramfs_inv_table [OF inv]
  show ?thesis
  proof (cases "valid_name name \<and> bt_find kRamfsNameMax ?t name \<noteq> None")
    case False
    then have "bt_find kRamfsNameMax ?t name = None" using inv by (auto simp: ramfs_inv_def)
    then have "ok = False" "fs' = fs" "ramfs_files m fs name = None"
      using op by (auto simp: ramfs_delete_def ramfs_files_def split: if_splits)
    then show ?thesis using inv by (simp add: fun_upd_idem)
  next
    case True
    then obtain i where i: "bt_find kRamfsNameMax ?t name = Some i" by auto
    then obtain f where f: "bt_payload_for ?t i = Some f" using bt_found_payload [OF b] by blast
    have fs': "ok" "fs' = fs\<lparr>rf_table := snd (bt_release ramfs_payload_default ?t i)\<rparr>"
      using op True i f by (auto simp: ramfs_delete_def bt_release_def)
    note c = bt_release_free [OF b i, of ramfs_payload_default]
    note v = bt.view_release [OF b i, of ramfs_payload_default]
    have "ramfs_inv fs'"
      unfolding fs' using inv c arena_ok_remove by (intro ramfs_inv_tableI) (auto simp: ramfs_inv_def split: if_splits)
    moreover have "ramfs_files m fs' = (ramfs_files m fs)(name := None)"
      using v by (auto simp: fun_eq_iff ramfs_files_view fs')
    ultimately show ?thesis using fs'(1) i f by (simp add: ramfs_files_def ramfs_view_def)
  qed
qed

lemma ramfs_rename_refines:
  assumes inv: "ramfs_inv fs" and op: "ramfs_rename old new fs = (ok, fs')"
  shows "ramfs_inv fs' \<and>
    ok = (valid_name new \<and> ramfs_files m fs old \<noteq> None \<and> ramfs_files m fs new = None) \<and>
    ramfs_files m fs' = (if ok then (ramfs_files m fs)(old := None, new := ramfs_files m fs old) else ramfs_files m fs)"
proof -
  let ?t = "rf_table fs"
  note b = ramfs_inv_table [OF inv]
  have none: "bt_find kRamfsNameMax ?t n = None \<longleftrightarrow> ramfs_files m fs n = None" for n
    using bt_found_payload [OF b, of n] by (auto simp: ramfs_files_def ramfs_view_def split: option.splits)
  have val: "bt_find kRamfsNameMax ?t n \<noteq> None \<Longrightarrow> valid_name n" for n using inv by (auto simp: ramfs_inv_def)
  show ?thesis
  proof (cases "valid_name new \<and> ramfs_files m fs old \<noteq> None \<and> ramfs_files m fs new = None")
    case False
    then consider "\<not> valid_name new" | "bt_find kRamfsNameMax ?t new \<noteq> None" | "bt_find kRamfsNameMax ?t old = None"
      using none [of new] none [of old] by argo
    then have "ok = False \<and> fs' = fs"
      using op by cases (auto simp: ramfs_rename_def split: if_splits option.splits)
    with False inv show ?thesis by auto
  next
    case True
    then obtain i where i: "bt_find kRamfsNameMax ?t old = Some i" using none [of old] by auto
    have n: "bt_find kRamfsNameMax ?t new = None" using True none [of new] by simp
    have g: "0 < length new \<and> length new \<le> kRamfsNameMax" using True valid_name_length by blast
    note f = bt_found [OF b i]
    have fs': "ok" "fs' = fs\<lparr>rf_table := snd (bt_rename kRamfsNameMax ?t i new)\<rparr>"
      using op True i n f g val [of old] by (auto simp: ramfs_rename_def bt_rename_def)
    note c = bt_rename_moves [OF b i n g]
    note v = bt.view_rename [OF b i n g]
    have "ramfs_inv fs'"
      unfolding fs' using inv c True by (intro ramfs_inv_tableI) (auto simp: ramfs_inv_def split: if_splits)
    moreover have "ramfs_files m fs' = (ramfs_files m fs)(old := None, new := ramfs_files m fs old)"
      using v by (auto simp: fun_eq_iff ramfs_files_view fs')
    ultimately show ?thesis using fs'(1) True by simp
  qed
qed

lemma ramfs_seed_reference_inv:
  assumes inv: "ramfs_inv fs"
  shows "ramfs_inv (snd (ramfs_seed_reference name data len fs))"
proof -
  obtain r fs1 where o: "ramfs_open name True fs = (r, fs1)" by fastforce
  have inv1: "ramfs_inv fs1" using ramfs_open_refines [OF inv o] by blast
  note b = ramfs_inv_table [OF inv1]
  have "ramfs_inv (fs1\<lparr>rf_table := bt_store (rf_table fs1) i (f\<lparr>rp_external_data := data, rp_length := len\<rparr>)\<rparr>)"
    if f: "bt_payload_for (rf_table fs1) i = Some f" "rp_capacity f = 0" "data \<noteq> 0" for i f
  proof -
    let ?f = "f\<lparr>rp_external_data := data, rp_length := len\<rparr>" and ?P = "bt_payload_for (rf_table fs1)"
    have c: "bt_inv kRamfsNameMax (bt_store (rf_table fs1) i ?f)"
      "bt_find kRamfsNameMax (bt_store (rf_table fs1) i ?f) = bt_find kRamfsNameMax (rf_table fs1)"
      "bt_payload_for (bt_store (rf_table fs1) i ?f) = ?P(i := Some ?f)"
      using bt_store_changes [OF b, of i ?f] f(1) by auto
    have ar: "arena_ok (rf_storage_used fs1) ?P" using inv1 by (simp add: ramfs_inv_def)
    then have "extent_ok (rf_storage_used fs1) f" using f(1) unfolding arena_ok_def by metis
    with ar f have "arena_ok (rf_storage_used fs1) (?P(i := Some ?f))"
      by (auto simp: arena_ok_def extent_ok_def apart_def)
    with inv1 c show ?thesis by (simp add: ramfs_inv_def)
  qed
  moreover have "ramfs_inv (fs\<lparr>rf_seeded_count := c\<rparr>) = ramfs_inv fs" for fs c by (simp add: ramfs_inv_def)
  ultimately show ?thesis
    using o inv inv1 by (auto simp: ramfs_seed_reference_def split: option.splits prod.splits)
qed

section \<open>The listing as a list\<close>

fun list_entries :: "ramfs_state \<Rightarrow> u8 list \<Rightarrow> u32 list \<Rightarrow> u32 list \<Rightarrow> (u8 list \<times> nat \<times> bool) list" where
  "list_entries fs dir [] earlier = []"
| "list_entries fs dir (i # is) earlier =
     (case (bt_payload_for (rf_table fs) i, ramfs_child fs dir i) of
        (Some file, Some (child, is_leaf)) \<Rightarrow>
          (if \<not> is_leaf \<and> child_seen fs dir earlier child then list_entries fs dir is (earlier @ [i])
           else (child, if is_leaf then rp_length file else 0, \<not> is_leaf) # list_entries fs dir is (earlier @ [i]))
      | _ \<Rightarrow> list_entries fs dir is (earlier @ [i]))"

lemma list_scan_entries:
  "current \<le> index \<Longrightarrow> list_scan fs dir index is earlier current =
     (if index - current < length (list_entries fs dir is earlier) then Some (list_entries fs dir is earlier ! (index - current)) else None)"
proof (induction "is" arbitrary: earlier current)
  case (Cons i "is")
  then show ?case
    by (cases "current = index") (auto split: option.splits simp: Suc_diff_Suc nth_Cons' Let_def)
qed simp

lemma list_entries_dirs:
  "distinct (map fst (filter (\<lambda>e. snd (snd e)) (list_entries fs dir is earlier))) \<and>
   (\<forall>e \<in> set (list_entries fs dir is earlier). snd (snd e) \<longrightarrow> \<not> child_seen fs dir earlier (fst e))"
proof (induction "is" arbitrary: earlier)
  case (Cons i "is")
  have mono: "child_seen fs dir earlier c \<Longrightarrow> child_seen fs dir (earlier @ [i]) c" for c
    by (auto simp: child_seen_def)
  have new: "ramfs_child fs dir i = Some (c, l) \<Longrightarrow> child_seen fs dir (earlier @ [i]) c" for c l
    by (auto simp: child_seen_def)
  note ih = Cons.IH [of "earlier @ [i]"]
  let ?rest = "list_entries fs dir is (earlier @ [i])"
  have rest: "\<forall>e \<in> set ?rest. snd (snd e) \<longrightarrow> \<not> child_seen fs dir earlier (fst e)"
    using ih mono by blast
  show ?case
  proof (cases "\<exists>f c l. bt_payload_for (rf_table fs) i = Some f \<and> ramfs_child fs dir i = Some (c, l) \<and>
      (l \<or> \<not> child_seen fs dir earlier c)")
    case False
    then have "list_entries fs dir (i # is) earlier = ?rest" by (auto split: option.splits)
    then show ?thesis using ih rest by simp
  next
    case True
    then obtain f c l where f: "bt_payload_for (rf_table fs) i = Some f" "ramfs_child fs dir i = Some (c, l)"
      "l \<or> \<not> child_seen fs dir earlier c" by blast
    have e: "list_entries fs dir (i # is) earlier = (c, if l then rp_length f else 0, \<not> l) # ?rest" using f by auto
    have "\<not> l \<Longrightarrow> c \<notin> fst ` {e \<in> set ?rest. snd (snd e)}" using ih new [OF f(2)] by auto
    then show ?thesis unfolding e using ih rest f(3) by auto
  qed
qed simp

lemma list_entries_complete:
  "i \<in> set is \<Longrightarrow> bt_payload_for (rf_table fs) i = Some file \<Longrightarrow> ramfs_child fs dir i = Some (child, is_leaf) \<Longrightarrow>
   (if is_leaf then (child, rp_length file, False) \<in> set (list_entries fs dir is earlier)
    else child_seen fs dir earlier child \<or> child \<in> fst ` set (list_entries fs dir is earlier))"
proof (induction "is" arbitrary: earlier)
  case (Cons j "is")
  have seen: "child_seen fs dir (earlier @ [j]) child \<longleftrightarrow> child_seen fs dir earlier child \<or>
      (\<exists>l. ramfs_child fs dir j = Some (child, l))"
    by (auto simp: child_seen_def split: option.splits)
  have named: "ramfs_child fs dir j = Some (child, l) \<Longrightarrow> bt_payload_for (rf_table fs) j \<noteq> None" for l
    by (auto simp: ramfs_child_def bt_name_for_def bt_payload_for_def split: option.splits if_splits)
  show ?case
  proof (cases "i = j")
    case True
    then show ?thesis using Cons.prems by auto
  next
    case False
    then have "i \<in> set is" using Cons.prems by simp
    note ih = Cons.IH [OF this Cons.prems(2,3), of "earlier @ [j]"]
    then show ?thesis using seen named by (auto split: option.splits prod.splits)
  qed
qed simp

section \<open>Properties\<close>

inductive ramfs_reachable :: "ramfs_state \<Rightarrow> bool" where
  init: "ramfs_reachable (ramfs_init fs)"
| opened: "ramfs_reachable fs \<Longrightarrow> ramfs_reachable (snd (ramfs_open name create fs))"
| seed: "ramfs_reachable fs \<Longrightarrow> ramfs_reachable (snd (ramfs_seed name data fs))"
| seed_reference: "ramfs_reachable fs \<Longrightarrow> ramfs_reachable (snd (ramfs_seed_reference name address len fs))"
| delete: "ramfs_reachable fs \<Longrightarrow> ramfs_reachable (snd (ramfs_delete name fs))"
| rename: "ramfs_reachable fs \<Longrightarrow> ramfs_reachable (snd (ramfs_rename old new fs))"
| written: "ramfs_reachable fs \<Longrightarrow> ramfs_reachable (snd (ramfs_write i data fs))"
| read: "ramfs_reachable fs \<Longrightarrow> ramfs_reachable (snd (ramfs_read_range m i offset capacity fs))"

lemma ramfs_init_inv: "ramfs_inv (ramfs_init fs)"
proof -
  let ?t = "bt_new kRamfsFiles ramfs_payload_default"
  have u: "\<not> be_used (?t ! k)" if "k < 56" for k using that by (simp add: bt_new_def)
  have l: "length ?t = 56" by (simp add: bt_new_def)
  have b: "bt_inv kRamfsNameMax ?t" using u l by (simp add: bt_inv_def)
  have p: "bt_payload_for ?t i \<noteq> Some f" for i f
  proof
    assume "bt_payload_for ?t i = Some f"
    then have "i \<noteq> 0" "unat i \<le> 56" "be_used (?t ! (unat i - 1))" using bt_payload_for_iff [of ?t i f] l by auto
    moreover have "0 < unat i" using \<open>i \<noteq> 0\<close> by (simp add: unat_gt_0)
    ultimately show False using u [of "unat i - 1"] by linarith
  qed
  then have "bt_find kRamfsNameMax ?t n = None" for n using bt_found_payload [OF b, of n] by fastforce
  with b l p show ?thesis by (simp add: ramfs_inv_def ramfs_init_def arena_ok_def)
qed

lemma ramfs_inv_counts [simp]:
  "ramfs_inv (fs\<lparr>rf_seeded_count := n\<rparr>) = ramfs_inv fs" "ramfs_inv (fs\<lparr>rf_write_count := n\<rparr>) = ramfs_inv fs"
  "ramfs_inv (fs\<lparr>rf_read_count := n\<rparr>) = ramfs_inv fs"
  by (simp_all add: ramfs_inv_def)

lemma ramfs_write_inv: "ramfs_inv fs \<Longrightarrow> ramfs_inv (snd (ramfs_write i data fs))"
  using ramfs_put_refines [of fs i data] by (auto simp: ramfs_write_def split: option.splits)

lemma ramfs_open_inv: "ramfs_inv fs \<Longrightarrow> ramfs_inv (snd (ramfs_open name create fs))"
  using ramfs_open_refines [of fs name create "fst (ramfs_open name create fs)" "snd (ramfs_open name create fs)"] by simp

lemma ramfs_seed_inv: "ramfs_inv fs \<Longrightarrow> ramfs_inv (snd (ramfs_seed name data fs))"
proof -
  assume inv: "ramfs_inv fs"
  obtain r fs1 where o: "ramfs_open name True fs = (r, fs1)" by fastforce
  have inv1: "ramfs_inv fs1" using ramfs_open_inv [OF inv, of name True] o by simp
  have "ramfs_put i data fs1 = Some fs2 \<Longrightarrow> ramfs_inv fs2" for i fs2
    using ramfs_put_refines [OF inv1] by blast
  then show ?thesis using inv inv1 o by (cases r) (auto simp: ramfs_seed_def split: option.splits)
qed

lemma ramfs_delete_inv: "ramfs_inv fs \<Longrightarrow> ramfs_inv (snd (ramfs_delete name fs))"
  using ramfs_delete_refines [OF _ surjective_pairing] by blast

lemma ramfs_rename_inv: "ramfs_inv fs \<Longrightarrow> ramfs_inv (snd (ramfs_rename old new fs))"
  using ramfs_rename_refines [OF _ surjective_pairing] by blast

lemma ramfs_read_range_inv: "ramfs_inv fs \<Longrightarrow> ramfs_inv (snd (ramfs_read_range m i offset capacity fs))"
  by (auto simp: ramfs_read_range_def Let_def split: option.splits)

lemmas ramfs_ops_inv = ramfs_init_inv ramfs_open_inv ramfs_seed_inv ramfs_seed_reference_inv ramfs_delete_inv
  ramfs_rename_inv ramfs_write_inv ramfs_read_range_inv

text \<open>
  Claim C29: in every reachable state of the file system each name resolves to one file, every stored name is
  valid, and the files' parts of the arena lie inside it and are pairwise disjoint.
\<close>

theorem ramfs_reachable_inv: "ramfs_reachable fs \<Longrightarrow> ramfs_inv fs"
  by (induction rule: ramfs_reachable.induct) (simp_all add: ramfs_ops_inv)

definition ramfs_blank :: ramfs_state where
  "ramfs_blank = \<lparr>rf_table = [], rf_storage = (\<lambda>_. 0), rf_storage_used = 0, rf_read_count = 0, rf_write_count = 0, rf_seeded_count = 0\<rparr>"

theorem ramfs_reachable_inv_witness:
  "ramfs_inv (snd (ramfs_write 1 [1, 2] (snd (ramfs_open [0x61] True (ramfs_init ramfs_blank)))))"
  by (rule ramfs_reachable_inv) (intro ramfs_reachable.intros)

text \<open>
  Claim C30: writing a file replaces exactly its contents. A write through the identifier a name resolves to makes
  that name hold exactly the data written and changes no other file; a refused write changes nothing,
  and it is refused only for a file of the boot image, data over 192 KiB, or a full arena.
\<close>

theorem ramfs_write_refines:
  assumes "ramfs_inv fs" "bt_find kRamfsNameMax (rf_table fs) name = Some i" "ramfs_write i data fs = (ok, fs')"
  shows "ramfs_files m fs' = (if ok then (ramfs_files m fs)(name \<mapsto> data) else ramfs_files m fs) \<and>
    (\<exists>f. bt_payload_for (rf_table fs) i = Some f \<and>
      (ok \<longleftrightarrow> rp_external_data f = 0 \<and> length data \<le> kRamfsDataMax \<and>
         (length data \<le> rp_capacity f \<or> rf_storage_used fs + length data \<le> kRamfsStorageMax)))"
proof -
  obtain f where f: "bt_payload_for (rf_table fs) i = Some f"
    using bt_found_payload [OF ramfs_inv_table [OF assms(1)] assms(2)] by blast
  have used: "rf_storage_used fs \<le> kRamfsStorageMax" using assms(1) by (simp add: ramfs_inv_def)
  have ok: "ok \<longleftrightarrow> ramfs_put i data fs \<noteq> None" and no: "\<not> ok \<Longrightarrow> fs' = fs"
    using assms(3) by (auto simp: ramfs_write_def split: option.splits)
  have "ramfs_put i data fs \<noteq> None \<longleftrightarrow> rp_external_data f = 0 \<and> length data \<le> kRamfsDataMax \<and>
         (length data \<le> rp_capacity f \<or> rf_storage_used fs + length data \<le> kRamfsStorageMax)"
    using f used by (auto simp: ramfs_put_def ramfs_store_def Let_def split: option.splits)
  moreover have "ramfs_files m fs' = (ramfs_files m fs)(name \<mapsto> data)" if o: ok
  proof -
    obtain fs1 where p: "ramfs_put i data fs = Some fs1" using ok o by auto
    then have "fs' = fs1\<lparr>rf_write_count := rf_write_count fs1 + 1\<rparr>" using assms(3) by (simp add: ramfs_write_def)
    then have "ramfs_files m fs' = ramfs_files m fs1"
      by (simp add: fun_eq_iff ramfs_files_def ramfs_view_def split: option.splits)
    with ramfs_put_refines [OF assms(1) p, of m] assms(2) show ?thesis by simp
  qed
  ultimately show ?thesis using f ok no by auto
qed

text \<open>A file system with one file \<open>a\<close>, as created and after writing three bytes.\<close>

definition ramfs_created :: ramfs_state where
  "ramfs_created = snd (ramfs_open [0x61] True (ramfs_init ramfs_blank))"

definition ramfs_example :: ramfs_state where
  "ramfs_example = snd (ramfs_write 1 [1, 2, 3] ramfs_created)"

lemma first_index_replicate: "first_index P (replicate n x) = (if n = 0 \<or> \<not> P x then None else Some 0)"
  by (induction n) auto

lemma ramfs_created_table:
  "ramfs_open [0x61] True (ramfs_init ramfs_blank) = (Some 1, (ramfs_init ramfs_blank)\<lparr>rf_table :=
     (bt_new 56 ramfs_payload_default)[0 := \<lparr>be_used = True, be_name = [0x61], be_payload = ramfs_payload_default\<rparr>]\<rparr>)"
  by (simp add: ramfs_open_def valid_name_def valid_segment_def allowed_char_def ramfs_init_def bt_open_def bt_find_def bt_new_def
      first_index_replicate Let_def)

lemma ramfs_created_inv: "ramfs_inv ramfs_created"
  by (simp add: ramfs_created_def ramfs_ops_inv)

lemma ramfs_example_inv: "ramfs_inv ramfs_example"
  by (simp add: ramfs_example_def ramfs_ops_inv ramfs_created_inv)

lemma ramfs_created_find: "bt_find kRamfsNameMax (rf_table ramfs_created) [0x61] = Some 1"
  using bt_find_iff [OF ramfs_inv_table [OF ramfs_created_inv], of "[0x61]" 1]
  by (simp add: ramfs_created_def ramfs_created_table bt_new_def)

lemma ramfs_created_payload: "bt_payload_for (rf_table ramfs_created) 1 = Some ramfs_payload_default"
  by (simp add: ramfs_created_def ramfs_created_table bt_new_def bt_payload_for_iff)

lemma ramfs_created_used: "rf_storage_used ramfs_created = 0"
  unfolding ramfs_created_def ramfs_created_table by (simp add: ramfs_init_def)

theorem ramfs_write_refines_witness:
  "fst (ramfs_write 1 [1, 2, 3] ramfs_created) \<and> ramfs_files (\<lambda>_. 0) ramfs_example [0x61] = Some [1, 2, 3]"
  using ramfs_write_refines [OF ramfs_created_inv ramfs_created_find surjective_pairing, of "\<lambda>_. 0" "[1, 2, 3]"]
    ramfs_created_payload ramfs_created_used
  by (auto simp: ramfs_example_def ramfs_payload_default_def)

text \<open>
  Claim C31: the name operations act on the map of files. Opening with the create flag adds an empty file when the
  name is new and changes nothing otherwise; deleting removes exactly that name; renaming moves the
  contents and succeeds exactly when the old name exists, the new one is valid and is not taken.
\<close>

theorem ramfs_names_refine:
  assumes "ramfs_inv fs"
  shows "(\<forall>i fs'. ramfs_open name True fs = (Some i, fs') \<longrightarrow>
        ramfs_files m fs' = (if ramfs_files m fs name = None then (ramfs_files m fs)(name \<mapsto> []) else ramfs_files m fs) \<and>
        ramfs_view m i fs' = ramfs_files m fs' name) \<and>
    (\<forall>ok fs'. ramfs_delete name fs = (ok, fs') \<longrightarrow>
        ramfs_files m fs' = (ramfs_files m fs)(name := None) \<and> ok = (ramfs_files m fs name \<noteq> None)) \<and>
    (\<forall>ok fs'. ramfs_rename name new fs = (ok, fs') \<longrightarrow>
        ok = (valid_name new \<and> ramfs_files m fs name \<noteq> None \<and> ramfs_files m fs new = None) \<and>
        ramfs_files m fs' = (if ok then (ramfs_files m fs)(name := None, new := ramfs_files m fs name) else ramfs_files m fs))"
proof -
  have "ramfs_files m fs' = (if ramfs_files m fs name = None then (ramfs_files m fs)(name \<mapsto> []) else ramfs_files m fs) \<and>
      ramfs_view m i fs' = ramfs_files m fs' name"
    if "ramfs_open name True fs = (Some i, fs')" for i fs'
  proof -
    note o = ramfs_open_refines [OF assms that, of m]
    then have "ramfs_files m fs' name = ramfs_view m i fs'" unfolding ramfs_files_def [of m fs'] by simp
    with o show ?thesis by simp
  qed
  then show ?thesis
    using ramfs_delete_refines [OF assms] ramfs_rename_refines [OF assms] by blast
qed

theorem ramfs_names_refine_witness:
  "ramfs_files (\<lambda>_. 0) (snd (ramfs_delete [0x61] ramfs_created)) = (ramfs_files (\<lambda>_. 0) ramfs_created)([0x61] := None)"
  using ramfs_names_refine [OF ramfs_created_inv, of "[0x61]" "\<lambda>_. 0" "[0x62]"] surjective_pairing by blast

text \<open>
  A read returns the requested part of the file: the bytes of the named file from the offset on, as many as
  the capacity allows, and it fails exactly when the offset is beyond the end.
\<close>

theorem ramfs_read_exact:
  assumes "ramfs_inv fs" "bt_find kRamfsNameMax (rf_table fs) name = Some i" "ramfs_files m fs name = Some contents"
  shows "fst (ramfs_read_range m i offset capacity fs) =
    (if offset \<le> length contents then Some (take capacity (drop offset contents)) else None)"
proof -
  obtain f where f: "bt_payload_for (rf_table fs) i = Some f" "contents = file_bytes m fs f 0 (rp_length f)"
    using assms(2,3) by (auto simp: ramfs_files_def ramfs_view_def)
  have l: "length contents = rp_length f" by (simp add: f(2) file_bytes_def)
  have "take capacity (drop offset contents) = file_bytes m fs f offset (min capacity (rp_length f - offset))"
    using l by (intro nth_equalityI) (auto simp: f(2) file_bytes_def add.assoc)
  then show ?thesis using f(1) l by (auto simp: ramfs_read_range_def Let_def min_def)
qed

lemma ramfs_example_files:
  "bt_find kRamfsNameMax (rf_table ramfs_example) [0x61] = Some 1" "ramfs_files (\<lambda>_. 0) ramfs_example [0x61] = Some [1, 2, 3]"
proof -
  let ?d = "[1, 2, 3 :: u8]"
  obtain fs1 where p: "ramfs_put 1 ?d ramfs_created = Some fs1"
    using ramfs_created_payload ramfs_created_used by (auto simp: ramfs_put_def ramfs_store_def ramfs_payload_default_def)
  then have e: "ramfs_example = fs1\<lparr>rf_write_count := rf_write_count fs1 + 1\<rparr>"
    by (simp add: ramfs_example_def ramfs_write_def)
  have "ramfs_files (\<lambda>_. 0) fs1 [0x61] = Some ?d"
    using ramfs_put_refines [OF ramfs_created_inv p, of "\<lambda>_. 0"] ramfs_created_find by simp
  then show "ramfs_files (\<lambda>_. 0) ramfs_example [0x61] = Some [1, 2, 3]"
    by (simp add: e ramfs_files_def ramfs_view_def split: option.splits)
  have "rf_table fs1 = bt_store (rf_table ramfs_created) 1 (ramfs_payload_default\<lparr>rp_capacity := Suc (Suc (Suc 0)), rp_length := Suc (Suc (Suc 0))\<rparr>)"
    using p ramfs_created_payload ramfs_created_used
    by (auto simp: ramfs_put_def ramfs_store_def ramfs_payload_default_def)
  then show "bt_find kRamfsNameMax (rf_table ramfs_example) [0x61] = Some 1"
    using bt_store_changes [OF ramfs_inv_table [OF ramfs_created_inv], of 1] ramfs_created_payload ramfs_created_find
    by (simp add: e)
qed

theorem ramfs_read_exact_witness: "fst (ramfs_read_range (\<lambda>_. 0) 1 1 10 ramfs_example) = Some [2, 3]"
  using ramfs_read_exact [OF ramfs_example_inv ramfs_example_files, of 1 10] by simp

text \<open>
  A directory listing is complete and free of duplicate directories. Enumerating the indices gives a finite
  list of entries; every file directly in the directory appears with its length, every file below a
  subdirectory is represented by an entry with that subdirectory's name, and no directory name is
  reported twice.
\<close>

theorem ramfs_list_exact:
  "\<exists>es. (\<forall>index. ramfs_list prefix index fs = (if index < length es then Some (es ! index) else None)) \<and>
     distinct (map fst (filter (\<lambda>e. snd (snd e)) es)) \<and>
     (\<forall>i \<in> set (object_ids fs). \<forall>f child is_leaf. bt_payload_for (rf_table fs) i = Some f \<and>
        ramfs_child fs (normalize_prefix prefix) i = Some (child, is_leaf) \<longrightarrow>
        (if is_leaf then (child, rp_length f, False) \<in> set es else child \<in> fst ` set es))"
proof (intro exI conjI allI ballI impI)
  let ?es = "list_entries fs (normalize_prefix prefix) (object_ids fs) []"
  show "ramfs_list prefix index fs = (if index < length ?es then Some (?es ! index) else None)" for index
    by (simp add: ramfs_list_def list_scan_entries)
  show "distinct (map fst (filter (\<lambda>e. snd (snd e)) ?es))" using list_entries_dirs by blast
  have "\<not> child_seen fs dir [] c" for dir c by (simp add: child_seen_def)
  then show "if is_leaf then (child, rp_length f, False) \<in> set ?es else child \<in> fst ` set ?es"
    if "i \<in> set (object_ids fs)" "bt_payload_for (rf_table fs) i = Some f \<and>
        ramfs_child fs (normalize_prefix prefix) i = Some (child, is_leaf)" for i f child is_leaf
    using list_entries_complete [OF that(1), of fs f "normalize_prefix prefix" child is_leaf "[]"] that(2) by (auto split: if_splits)
qed

theorem ramfs_list_exact_witness:
  "\<exists>es. \<forall>index. ramfs_list [0x2F] index ramfs_example = (if index < length es then Some (es ! index) else None)"
  using ramfs_list_exact [of "[0x2F]" ramfs_example] by blast

text \<open>
  A valid name cannot traverse directories: it has between 1 and 63 bytes, and each of its segments between
  slashes (after one optional leading slash) is non-empty, consists of letters, digits, dot, underscore
  and dash, and is neither \<open>.\<close> nor \<open>..\<close>.
\<close>

theorem valid_name_no_traversal:
  "valid_name name \<longleftrightarrow> 0 < length name \<and> length name \<le> kRamfsNameMax \<and>
     (\<forall>segment \<in> set (split_slash (if hd name = 0x2F then tl name else name)).
        segment \<noteq> [] \<and> segment \<noteq> [0x2E] \<and> segment \<noteq> [0x2E, 0x2E] \<and> (\<forall>c \<in> set segment. allowed_char c))"
proof -
  have "valid_segment s \<longleftrightarrow> s \<noteq> [] \<and> s \<noteq> [0x2E] \<and> s \<noteq> [0x2E, 0x2E] \<and> (\<forall>c \<in> set s. allowed_char c)" for s
    by (cases s; cases "tl s"; cases "tl (tl s)") (auto simp: valid_segment_def)
  then show ?thesis by (simp add: valid_name_split)
qed

theorem valid_name_no_traversal_witness: "\<not> valid_name [0x61, 0x2F, 0x2E, 0x2E]"
  using valid_name_no_traversal [of "[0x61, 0x2F, 0x2E, 0x2E]"] by simp

end
