(* ===== verification/Process.thy ===== *)
theory Process
  imports Ipc Ramfs
begin

text \<open>
  The life of a process, across components: the timer tick, exit, wait, terminate and reap of
  \<open>src/src/scheduler.c\<close>, and loading, starting and releasing a process in
  \<open>src/src/arch/x86_64/userspace.c\<close>. These operations combine the scheduler, the channels, the input
  queue, the capabilities, the surfaces and the process memory.
\<close>

section \<open>State\<close>

text \<open>
  The rest of the kernel state: the file system, and the file-scope variables of userspace.c that are not
  part of the memory management. \<open>ks_initialized\<close> is the flag \<open>initialized\<close> of userspace.c.
\<close>

record kernel_state = input_state +
  ks_ramfs :: ramfs_state
  ks_initialized :: bool
  ks_last_exit_status :: u64
  ks_display_owner :: u32
  ks_boot_test_mode :: u64
  ks_demonwm_mode :: bool
  ks_serial :: "u8 list"

section \<open>Release\<close>

definition userspace_release_process :: "u32 \<Rightarrow> 'a input_state_scheme \<Rightarrow> 'a input_state_scheme" where
  "userspace_release_process pid s =
     (if pid = 0 \<or> unat pid \<ge> SCHEDULER_PROCESS_LIMIT then s
      else let s1 = ipc_process_cleanup pid s;
               (caps, surf) = capabilities_close_all (ipc_caps s1) (mem_surf s1) pid;
               s2 = s1\<lparr>ipc_caps := caps, mem_surf := surf\<rparr>;
               s3 = large_code_release pid (anonymous_release pid (unmap_surface pid s2)) in
           s3\<lparr>mem_used := (mem_used s3)[unat pid := False]\<rparr>)"

section \<open>The scheduler operations that reach the other components\<close>

text \<open>The body of the loop of \<open>scheduler_on_timer_tick\<close> for one process.\<close>

definition expire_wait :: "u32 \<Rightarrow> 'a input_state_scheme \<Rightarrow> 'a input_state_scheme" where
  "expire_wait pid s =
     (let waiting = task_of s pid in
      if t_state waiting \<noteq> SCHEDULER_TASK_BLOCKED \<or> \<not> t_timed_wait waiting \<or> sch_ticks s < t_wake_tick waiting then s
      else let s1 = snd (input_cancel_wait pid (snd (ipc_cancel_wait pid s)));
               s2 = set_frame (t_saved_frame waiting) (\<lambda>f. f\<lparr>f_rax := t_timeout_result waiting, f_rdx := 0\<rparr>) s1 in
           set_task pid (\<lambda>t. t\<lparr>t_timed_wait := False, t_waiting_for := SCHEDULER_WAIT_NONE,
             t_state := SCHEDULER_TASK_READY\<rparr>) s2)"

definition scheduler_on_timer_tick :: "u64 \<Rightarrow> 'a input_state_scheme \<Rightarrow> u64 \<times> 'a input_state_scheme" where
  "scheduler_on_timer_tick frame s =
     (if \<not> sch_initialized s then (frame, s)
      else let s1 = fold expire_wait [1, 2, 3, 4, 5, 6, 7] (s\<lparr>sch_ticks := sch_ticks s + 1\<rparr>);
               cur = sch_current_pid s1;
               s2 = set_task cur (\<lambda>t. t\<lparr>t_cpu_ticks := t_cpu_ticks t + 1\<rparr>) s1 in
        if \<not> sch_users_running s2 \<or> cur = 0 then (frame, s2)
        else let s3 = set_task cur (\<lambda>t. t\<lparr>t_slice_ticks := t_slice_ticks t + 1\<rparr>) s2 in
          if t_slice_ticks (task_of s3 cur) < INIT_QUANTUM_TICKS then (frame, s3)
          else reschedule frame (set_task cur (\<lambda>t. t\<lparr>t_quantum_expirations := t_quantum_expirations t + 1\<rparr>) s3))"

definition wake_waiting_parent :: "u32 \<Rightarrow> 'a input_state_scheme \<Rightarrow> 'a input_state_scheme" where
  "wake_waiting_parent child s =
     (let parent = t_parent_pid (task_of s child) in
      if parent = 0 \<or> unat parent \<ge> SCHEDULER_PROCESS_LIMIT \<or> t_state (task_of s parent) \<noteq> SCHEDULER_TASK_BLOCKED \<or>
         t_waiting_for (task_of s parent) = SCHEDULER_WAIT_NONE \<or>
         (t_waiting_for (task_of s parent) \<noteq> 0 \<and> t_waiting_for (task_of s parent) \<noteq> child) then s
      else let s1 = set_frame (t_saved_frame (task_of s parent))
                     (\<lambda>f. f\<lparr>f_rax := ucast child, f_rdx := t_exit_code (task_of s child)\<rparr>) s;
               s2 = set_task parent (\<lambda>t. t\<lparr>t_waiting_for := SCHEDULER_WAIT_NONE, t_state := SCHEDULER_TASK_READY\<rparr>) s1 in
           set_task child (\<lambda>_. task_zero child) (userspace_release_process child s2))"

definition scheduler_on_exit :: "u64 \<Rightarrow> u64 \<Rightarrow> 'a input_state_scheme \<Rightarrow> u64 \<times> 'a input_state_scheme" where
  "scheduler_on_exit frame code s =
     (if \<not> sch_initialized s \<or> \<not> sch_users_running s \<or> sch_current_pid s = 0 then (0, s)
      else let cur = sch_current_pid s;
               s1 = wake_waiting_parent cur (set_task cur (\<lambda>t. t\<lparr>t_exit_code := code, t_state := SCHEDULER_TASK_EXITED\<rparr>) s);
               nxt = next_ready cur s1 in
           if nxt \<noteq> 0 then dispatch nxt s1 else return_idle s1)"

definition scheduler_reap :: "u32 \<Rightarrow> u32 \<Rightarrow> 'a input_state_scheme \<Rightarrow> u64 option \<times> 'a input_state_scheme" where
  "scheduler_reap parent child s =
     (if child = 0 \<or> unat child \<ge> SCHEDULER_PROCESS_LIMIT \<or> t_parent_pid (task_of s child) \<noteq> parent \<or>
         t_state (task_of s child) \<noteq> SCHEDULER_TASK_EXITED then (None, s)
      else (Some (t_exit_code (task_of s child)),
            set_task child (\<lambda>_. task_zero child) (userspace_release_process child s)))"

definition scheduler_on_wait :: "u64 \<Rightarrow> u32 \<Rightarrow> 'a input_state_scheme \<Rightarrow> u64 \<times> 'a input_state_scheme" where
  "scheduler_on_wait frame child s =
     (let cur = sch_current_pid s in
      case scheduler_reap cur child s of
        (Some status, s1) \<Rightarrow> (frame, set_frame frame (\<lambda>f. f\<lparr>f_rax := ucast child, f_rdx := status\<rparr>) s1)
      | (None, s1) \<Rightarrow>
          (if unat child \<ge> SCHEDULER_PROCESS_LIMIT \<or> t_parent_pid (task_of s1 child) \<noteq> cur \<or>
              t_state (task_of s1 child) = SCHEDULER_TASK_UNUSED
           then (frame, set_frame frame (\<lambda>f. f\<lparr>f_rax := UINT64_MAX\<rparr>) s1)
           else reschedule frame (set_task cur (\<lambda>t. t\<lparr>t_saved_frame := frame, t_state := SCHEDULER_TASK_BLOCKED,
                  t_waiting_for := child\<rparr>) s1)))"

definition scheduler_terminate :: "u32 \<Rightarrow> u64 \<Rightarrow> 'a input_state_scheme \<Rightarrow> bool \<times> 'a input_state_scheme" where
  "scheduler_terminate pid code s =
     (if pid = 0 \<or> unat pid \<ge> SCHEDULER_PROCESS_LIMIT \<or> pid = sch_current_pid s \<or>
         t_state (task_of s pid) = SCHEDULER_TASK_UNUSED \<or> t_state (task_of s pid) = SCHEDULER_TASK_EXITED then (False, s)
      else (True, wake_waiting_parent pid (set_task pid (\<lambda>t. t\<lparr>t_exit_code := code, t_state := SCHEDULER_TASK_EXITED\<rparr>) s)))"

text \<open>The loop of \<open>scheduler_reap_exited\<close> over the remaining children.\<close>

fun reap_first :: "u32 list \<Rightarrow> u32 \<Rightarrow> 'a input_state_scheme \<Rightarrow> (u32 \<times> u64) option \<times> 'a input_state_scheme" where
  "reap_first [] parent s = (None, s)"
| "reap_first (child # children) parent s =
     (if t_parent_pid (task_of s child) = parent \<and> t_state (task_of s child) = SCHEDULER_TASK_EXITED
      then case scheduler_reap parent child s of
             (Some code, s1) \<Rightarrow> (Some (child, code), s1)
           | (None, s1) \<Rightarrow> reap_first children parent s1
      else reap_first children parent s)"

definition scheduler_reap_exited :: "u32 \<Rightarrow> 'a input_state_scheme \<Rightarrow> (u32 \<times> u64) option \<times> 'a input_state_scheme" where
  "scheduler_reap_exited parent s = reap_first [1, 2, 3, 4, 5, 6, 7] parent s"

section \<open>Loading\<close>

definition frames_contiguous :: "u64 list \<Rightarrow> nat \<Rightarrow> bool" where
  "frames_contiguous frames n \<longleftrightarrow> list_all (\<lambda>i. frames ! i = frames ! (i - 1) + 4096) [1..<n]"

fun clear_pages :: "u64 list \<Rightarrow> memory \<Rightarrow> memory" where
  "clear_pages [] m = m"
| "clear_pages (f # fs) m = clear_pages fs (phys_fill m f 4096 0)"

text \<open>The three loops of \<open>load_process\<close> that fill the page table: frame \<open>k\<close> goes to entry \<open>first + k\<close>.\<close>

fun write_page_entries :: "u64 \<Rightarrow> nat \<Rightarrow> u64 list \<Rightarrow> memory \<Rightarrow> memory" where
  "write_page_entries table first [] m = m"
| "write_page_entries table first (f # fs) m =
     write_page_entries table (Suc first) fs (write64 m (entry_addr table first) (f + 7))"

text \<open>The image goes to the large-code region or to the code frames of the slot.\<close>

definition load_image :: "u32 \<Rightarrow> userspace_memory \<Rightarrow> u8 list \<Rightarrow> 'a input_state_scheme \<Rightarrow> u64 option \<times> 'a input_state_scheme" where
  "load_image expected_pid memory img s =
     (case elf64_executable_layout (Some img) of
        None \<Rightarrow> (None, s)
      | Some layout \<Rightarrow>
          (if el_virtual_base layout = USER_LARGE_CODE_BASE then large_code_load expected_pid (Some img) layout s
           else case elf64_load_executable (Some img) \<lparr>et_virtual_base = USER_CODE, et_memory = um_code_frames memory ! 0,
                    et_memory_size = um_code_page_count memory * 4096\<rparr> (mem_phys s) of
             (r, m) \<Rightarrow> (r, s\<lparr>mem_phys := m\<rparr>)))"

text \<open>
  \<open>load_process\<close>: entries 256, 304 and 309 of the page table are those of the code, heap and stack
  regions, which start at 0x300000, 0x330000 and 0x335000.
\<close>

definition load_process ::
  "u32 \<Rightarrow> u32 \<Rightarrow> cstring \<Rightarrow> userspace_memory \<Rightarrow> u8 list \<Rightarrow> u32 \<Rightarrow> 'a input_state_scheme \<Rightarrow> bool \<times> 'a input_state_scheme" where
  "load_process expected_pid parent_pid name memory img service_mask s =
     (let code_pages = unat (um_code_page_count memory) in
      if code_pages = 0 \<or> code_pages > USERSPACE_CODE_PAGES \<or> \<not> frames_contiguous (um_code_frames memory) code_pages \<or>
         \<not> frames_contiguous (um_heap_frames memory) USERSPACE_HEAP_PAGES then (False, s)
      else let m1 = clear_pages (take USERSPACE_STACK_PAGES (um_stack_frames memory)) (mem_phys s);
               m2 = phys_fill m1 (um_heap_frames memory ! 0) (unat USER_HEAP_SIZE) 0 in
        case load_image expected_pid memory img (s\<lparr>mem_phys := m2\<rparr>) of
          (None, s1) \<Rightarrow> (False, s1)
        | (Some entry, s1) \<Rightarrow>
            (let table = um_page_table memory;
                 m3 = write_page_entries table 256 (take code_pages (um_code_frames memory)) (mem_phys s1);
                 m4 = write_page_entries table 304 (take USERSPACE_HEAP_PAGES (um_heap_frames memory)) m3;
                 m5 = write_page_entries table 309 (take USERSPACE_STACK_PAGES (um_stack_frames memory)) m4;
                 (pid, s2) = scheduler_create_user parent_pid (Some name) entry (USER_STACK_PAGE + USER_STACK_SIZE - 16)
                   (um_address_space memory) (s1\<lparr>mem_phys := m5\<rparr>) in
             if pid \<noteq> expected_pid then (False, large_code_release expected_pid s2)
             else let (assigned, caps) = capability_assign_services (ipc_caps s2) pid service_mask;
                      s3 = s2\<lparr>ipc_caps := caps\<rparr> in
               if \<not> assigned then (False, large_code_release expected_pid s3)
               else (True, s3\<lparr>mem_used := (mem_used s3)[unat pid := True]\<rparr>)))"

text \<open>
  \<open>userspace_init\<close>: \<open>program\<close> is the image linked into the kernel (\<open>_binary_build_user_program_elf\<close>, a
  generated file). Loading the task register and the descriptor table is not shown.
\<close>

definition bootstrap_services :: u32 where
  "bootstrap_services = CAPABILITY_SERVICE_BIT CAPABILITY_SERVICE_CONSOLE OR CAPABILITY_SERVICE_BIT CAPABILITY_SERVICE_CLOCK OR
     CAPABILITY_SERVICE_BIT CAPABILITY_SERVICE_PROCESS OR CAPABILITY_SERVICE_BIT CAPABILITY_SERVICE_STORAGE OR
     CAPABILITY_SERVICE_BIT CAPABILITY_SERVICE_IPC"

definition userspace_init :: "userspace_memory list \<Rightarrow> u8 list \<Rightarrow> 'a kernel_state_scheme \<Rightarrow> bool \<times> 'a kernel_state_scheme" where
  "userspace_init processes program s =
     (let s1 = s\<lparr>mem_free_frames := 0, mem_anon_count := replicate SCHEDULER_PROCESS_LIMIT 0,
             mem_large_count := replicate SCHEDULER_PROCESS_LIMIT 0, mem_large_table := replicate SCHEDULER_PROCESS_LIMIT 0,
             mem_large_frames := replicate SCHEDULER_PROCESS_LIMIT (replicate USER_LARGE_CODE_MAX_PAGES 0),
             mem_mapped_surface := replicate SCHEDULER_PROCESS_LIMIT (replicate USER_SURFACE_MAP_SLOTS 0),
             mem_process := (mem_process s ! 0) # take 7 processes, mem_used := (mem_used s ! 0) # replicate 7 False\<rparr>;
          (ok1, s2) = load_process 1 0 ''init'' (mem_process s1 ! 1) program bootstrap_services s1 in
      if \<not> ok1 then (False, s2)
      else let (ok2, s3) = load_process 2 0 ''worker'' (mem_process s2 ! 2) program bootstrap_services s2 in
        if \<not> ok2 then (False, s3) else (True, s3\<lparr>ks_initialized := True\<rparr>))"

fun spawn_in_slots ::
  "u32 list \<Rightarrow> u32 \<Rightarrow> cstring \<Rightarrow> u8 list \<Rightarrow> u32 \<Rightarrow> 'a input_state_scheme \<Rightarrow> u32 \<times> 'a input_state_scheme" where
  "spawn_in_slots [] parent_pid name img service_mask s = (0, s)"
| "spawn_in_slots (candidate # candidates) parent_pid name img service_mask s =
     (if mem_used s ! unat candidate then spawn_in_slots candidates parent_pid name img service_mask s
      else let (ok, s1) = load_process candidate parent_pid name (mem_process s ! unat candidate) img service_mask s in
        if ok then (candidate, s1) else spawn_in_slots candidates parent_pid name img service_mask s1)"

definition userspace_spawn_path ::
  "u32 \<Rightarrow> u8 list \<Rightarrow> cstring \<Rightarrow> u32 \<Rightarrow> 'a kernel_state_scheme \<Rightarrow> u32 \<times> 'a kernel_state_scheme" where
  "userspace_spawn_path parent_pid path name service_mask s =
     (if \<not> ks_initialized s \<or> length path = 0 then (0, s)
      else case ramfs_open path False (ks_ramfs s) of
        (None, _) \<Rightarrow> (0, s)
      | (Some object_id, fs) \<Rightarrow>
          (let s1 = s\<lparr>ks_ramfs := fs\<rparr> in
           case ramfs_view (mem_phys s1) object_id fs of
             None \<Rightarrow> (0, s1)
           | Some img \<Rightarrow> spawn_in_slots [1, 2, 3, 4, 5, 6, 7] parent_pid name img service_mask s1))"

definition userspace_yield_count :: "'a sched_state_scheme \<Rightarrow> u64" where
  "userspace_yield_count s =
     fold (\<lambda>index acc. case scheduler_snapshot index s of None \<Rightarrow> acc | Some t \<Rightarrow> acc + snap_yields t)
       [1..<scheduler_task_count s] 0"

section \<open>Frame lemmas\<close>

text \<open>
  \<open>sched_state.truncate\<close> is the scheduler's part of the state. Operations of the other components leave it
  alone, except that they may wake a blocked task.
\<close>

lemma sched_inv_truncate: "sched_state.truncate s' = sched_state.truncate s \<Longrightarrow> sched_inv s' = sched_inv s"
  by (simp add: sched_inv_def sched_shape_def sched_state.defs)

lemma truncate_mem_fields [simp]:
  "sched_state.truncate (s\<lparr>mem_phys := a\<rparr>) = sched_state.truncate s"
  "sched_state.truncate (s\<lparr>mem_free_frames := b\<rparr>) = sched_state.truncate s"
  "sched_state.truncate (s\<lparr>mem_frame_next := c\<rparr>) = sched_state.truncate s"
  "sched_state.truncate (s\<lparr>mem_large_frames := d\<rparr>) = sched_state.truncate s"
  "sched_state.truncate (s\<lparr>mem_large_count := e\<rparr>) = sched_state.truncate s"
  "sched_state.truncate (s\<lparr>mem_large_table := e\<rparr>) = sched_state.truncate s"
  "sched_state.truncate (s\<lparr>mem_anon_count := e\<rparr>) = sched_state.truncate s"
  "sched_state.truncate (s\<lparr>mem_anon_reserved := e\<rparr>) = sched_state.truncate s"
  "sched_state.truncate (s\<lparr>mem_surface_table := d\<rparr>) = sched_state.truncate s"
  "sched_state.truncate (s\<lparr>mem_mapped_surface := f\<rparr>) = sched_state.truncate s"
  "sched_state.truncate (s\<lparr>mem_surf := g\<rparr>) = sched_state.truncate s"
  "sched_state.truncate (s\<lparr>mem_used := h\<rparr>) = sched_state.truncate s"
  by (simp_all add: sched_state.defs)

lemma truncate_ipc_fields [simp]:
  "sched_state.truncate (t\<lparr>ipc_caps := a\<rparr>) = sched_state.truncate t"
  "sched_state.truncate (t\<lparr>ipc_channels := b\<rparr>) = sched_state.truncate t"
  "sched_state.truncate (u\<lparr>in_waiter := c\<rparr>) = sched_state.truncate u"
  by (simp_all add: sched_state.defs)

lemma truncate_frame_release [simp]: "sched_state.truncate (anonymous_frame_release f s) = sched_state.truncate s"
  by (simp add: anonymous_frame_release_def)

lemma truncate_frame_take [simp]: "sched_state.truncate (snd (anonymous_frame_take s)) = sched_state.truncate s"
  by (simp add: anonymous_frame_take_def mako_frame_allocate_def Let_def)

lemma truncate_large_release_pages [simp]: "sched_state.truncate (large_release_pages ps pid s) = sched_state.truncate s"
  by (induction ps arbitrary: s) simp_all

lemma truncate_large_code_release [simp]: "sched_state.truncate (large_code_release pid s) = sched_state.truncate s"
  by (simp add: large_code_release_def Let_def)

lemma truncate_anon_release_pages [simp]: "sched_state.truncate (anon_release_pages ps t s) = sched_state.truncate s"
  by (induction ps arbitrary: s) (simp_all add: Let_def)

lemma truncate_anon_release_tables [simp]: "sched_state.truncate (anon_release_tables ts pid s) = sched_state.truncate s"
  by (induction ts arbitrary: s) (simp_all add: Let_def)

lemma truncate_anonymous_release [simp]: "sched_state.truncate (anonymous_release pid s) = sched_state.truncate s"
  by (simp add: anonymous_release_def Let_def)

lemma truncate_edit_surface_ptes [simp]:
  "sched_state.truncate (snd (edit_surface_ptes pid slot a n p s)) = sched_state.truncate s"
  by (simp add: edit_surface_ptes_def Let_def case_prod_beta)

lemma truncate_drop_surface_slot [simp]: "sched_state.truncate (drop_surface_slot pid slot i s) = sched_state.truncate s"
  by (simp add: drop_surface_slot_def set_mapped_surface_def Let_def)

lemma truncate_unmap_surface_slots [simp]: "sched_state.truncate (unmap_surface_slots slots pid s) = sched_state.truncate s"
  by (induction slots arbitrary: s) (simp_all add: Let_def)

lemma truncate_release_surface_tables [simp]:
  "sched_state.truncate (release_surface_tables slots pid s) = sched_state.truncate s"
  by (induction slots arbitrary: s) (simp_all add: Let_def)

lemma truncate_unmap_surface [simp]: "sched_state.truncate (unmap_surface pid s) = sched_state.truncate s"
  by (simp add: unmap_surface_def)

section \<open>One running task, through every operation\<close>

lemma truncate_set_channel [simp]: "sched_state.truncate (set_channel i f s) = sched_state.truncate s"
  by (simp add: set_channel_def)

lemma truncate_input_cancel_wait [simp]: "sched_state.truncate (snd (input_cancel_wait pid s)) = sched_state.truncate s"
  by (simp add: input_cancel_wait_def)

lemma truncate_ipc_cancel_wait [simp]: "sched_state.truncate (snd (ipc_cancel_wait pid s)) = sched_state.truncate s"
  by (simp add: ipc_cancel_wait_def split: option.splits)

lemma truncate_tasks:
  assumes "sched_state.truncate s' = sched_state.truncate s"
  shows "sch_tasks s' = sch_tasks s" "sch_frames s' = sch_frames s" "sch_current_pid s' = sch_current_pid s"
    "sch_users_running s' = sch_users_running s" "sch_initialized s' = sch_initialized s" "sch_ticks s' = sch_ticks s"
    "sch_fpu_state s' = sch_fpu_state s"
  using assms by (simp_all add: sched_state.defs)

lemma cleanup_wake_inv: "sched_inv s \<Longrightarrow> sched_inv (cleanup_wake i s)"
  by (simp add: cleanup_wake_def Let_def scheduler_wake_inv
      sched_inv_truncate [OF truncate_set_channel] sched_inv_truncate [OF truncate_input_cancel_wait])

lemma cleanup_channel_inv: "sched_inv s \<Longrightarrow> sched_inv (cleanup_channel pid i s)"
  by (simp add: cleanup_channel_def Let_def cleanup_wake_inv sched_inv_truncate [OF truncate_set_channel])

lemma ipc_process_cleanup_sched_inv: "sched_inv s \<Longrightarrow> sched_inv (ipc_process_cleanup pid s)"
proof -
  have "sched_inv s \<Longrightarrow> sched_inv (fold (cleanup_channel pid) is s)" for "is" and s :: "'a input_state_scheme"
    by (induction "is" arbitrary: s) (simp_all add: cleanup_channel_inv)
  then show "sched_inv s \<Longrightarrow> ?thesis"
    by (simp add: ipc_process_cleanup_def sched_inv_truncate [OF truncate_input_cancel_wait])
qed

text \<open>After the channels are cleaned up, a release leaves the scheduler alone.\<close>

lemma release_process_truncate:
  "pid \<noteq> 0 \<Longrightarrow> unat pid < 8 \<Longrightarrow>
   sched_state.truncate (userspace_release_process pid s) = sched_state.truncate (ipc_process_cleanup pid s)"
  by (simp add: userspace_release_process_def Let_def case_prod_beta)

lemma release_process_sched_inv: "sched_inv s \<Longrightarrow> sched_inv (userspace_release_process pid s)"
proof (cases "pid = 0 \<or> unat pid \<ge> 8")
  case False
  then show "sched_inv s \<Longrightarrow> ?thesis"
    using sched_inv_truncate [OF release_process_truncate [of pid s]] ipc_process_cleanup_sched_inv by simp
qed (simp add: userspace_release_process_def)

text \<open>Cleanup only turns blocked tasks into ready ones and keeps everything else of a task but its wait.\<close>

definition task_woken :: "task \<Rightarrow> task \<Rightarrow> bool" where
  "task_woken t t' \<longleftrightarrow> t' = t \<or>
     t_state t = SCHEDULER_TASK_BLOCKED \<and> t_state t' = SCHEDULER_TASK_READY \<and> t_exit_code t' = t_exit_code t \<and>
     t_parent_pid t' = t_parent_pid t \<and> t_saved_frame t' = t_saved_frame t \<and> t_pid t' = t_pid t"

text \<open>Only the saved frames of blocked tasks are written.\<close>

definition frames_kept :: "'a sched_state_scheme \<Rightarrow> 'b sched_state_scheme \<Rightarrow> bool" where
  "frames_kept s s' \<longleftrightarrow> (\<forall>a. sch_frames s' a \<noteq> sch_frames s a \<longrightarrow>
     (\<exists>i < 8. t_state (sch_tasks s ! i) = SCHEDULER_TASK_BLOCKED \<and> t_saved_frame (sch_tasks s ! i) = a))"

definition woken :: "'a sched_state_scheme \<Rightarrow> 'b sched_state_scheme \<Rightarrow> bool" where
  "woken s s' \<longleftrightarrow> length (sch_tasks s') = length (sch_tasks s) \<and> sch_current_pid s' = sch_current_pid s \<and>
     sch_users_running s' = sch_users_running s \<and> sch_initialized s' = sch_initialized s \<and>
     length (sch_fpu_state s') = length (sch_fpu_state s) \<and>
     (\<forall>i < length (sch_tasks s). task_woken (sch_tasks s ! i) (sch_tasks s' ! i)) \<and>
     (length (sch_tasks s) = 8 \<longrightarrow> frames_kept s s')"

lemma task_woken_refl [simp]: "task_woken t t"
  by (simp add: task_woken_def)

lemma task_woken_trans: "task_woken t t1 \<Longrightarrow> task_woken t1 t2 \<Longrightarrow> task_woken t t2"
  by (auto simp: task_woken_def)

lemma woken_refl: "woken s s"
  by (simp add: woken_def frames_kept_def)

lemma woken_trans: "woken s s1 \<Longrightarrow> woken s1 s2 \<Longrightarrow> woken s s2"
proof -
  assume a: "woken s s1" "woken s1 s2"
  have "frames_kept s s2" if l: "length (sch_tasks s) = 8"
    unfolding frames_kept_def
  proof (intro allI impI)
    fix x
    assume x: "sch_frames s2 x \<noteq> sch_frames s x"
    have l1: "length (sch_tasks s1) = 8" using a(1) l by (simp add: woken_def)
    have blk: "t_state (sch_tasks s1 ! i) = SCHEDULER_TASK_BLOCKED \<Longrightarrow> sch_tasks s1 ! i = sch_tasks s ! i" if "i < 8" for i
      using a(1) that l by (auto simp: woken_def task_woken_def)
    show "\<exists>i < 8. t_state (sch_tasks s ! i) = SCHEDULER_TASK_BLOCKED \<and> t_saved_frame (sch_tasks s ! i) = x"
    proof (cases "sch_frames s1 x = sch_frames s x")
      case True
      with x a(2) l1 obtain i where "i < 8" "t_state (sch_tasks s1 ! i) = SCHEDULER_TASK_BLOCKED" "t_saved_frame (sch_tasks s1 ! i) = x"
        unfolding woken_def frames_kept_def by metis
      with blk show ?thesis by metis
    next
      case False
      with a(1) l show ?thesis unfolding woken_def frames_kept_def by metis
    qed
  qed
  with a show ?thesis unfolding woken_def by (auto intro: task_woken_trans)
qed

lemma woken_truncate:
  assumes "sched_state.truncate s' = sched_state.truncate s"
  shows "woken s s'"
  unfolding woken_def frames_kept_def truncate_tasks [OF assms] by simp

lemma woken_one:
  assumes "sched_state.truncate s1 = sched_state.truncate s" "unat p < 8" "t_state (task_of s p) = SCHEDULER_TASK_BLOCKED"
    and "task_woken (task_of s p) (f (task_of s p))"
  shows "woken s (set_task p f (set_frame (t_saved_frame (task_of s p)) g s1))"
  using assms(2-) by (auto simp: woken_def frames_kept_def truncate_tasks [OF assms(1)] nth_update)

lemma scheduler_wake_woken: "woken s (snd (scheduler_wake p r d s))"
  using woken_one [OF refl, of p s] by (auto simp: scheduler_wake_def woken_refl task_woken_def)

lemma cleanup_wake_woken: "woken s (cleanup_wake i s)"
proof -
  have a: "woken s (snd (scheduler_wake p r d (snd (input_cancel_wait q s))))" for p r d q and s :: "'a input_state_scheme"
    using woken_trans [OF woken_truncate [OF truncate_input_cancel_wait] scheduler_wake_woken] .
  have b: "woken s (snd (scheduler_wake p r d (set_channel i f s)))" for p r d f and s :: "'a input_state_scheme"
    using woken_trans [OF woken_truncate [OF truncate_set_channel] scheduler_wake_woken] .
  define s1 where "s1 = (if iw_active (ch_waiter (ipc_channels s ! i))
                then snd (scheduler_wake (iw_pid (ch_waiter (ipc_channels s ! i))) UINT64_MAX 0
                       (if iw_multiplex (ch_waiter (ipc_channels s ! i)) then snd (input_cancel_wait (iw_pid (ch_waiter (ipc_channels s ! i))) s) else s))
                else s)"
  have "woken s s1" by (simp add: s1_def woken_refl scheduler_wake_woken a)
  moreover have "woken s1 (cleanup_wake i s)"
    unfolding cleanup_wake_def Let_def s1_def [symmetric] by (simp add: woken_refl b)
  ultimately show ?thesis by (rule woken_trans)
qed

lemma cleanup_channel_woken: "woken s (cleanup_channel pid i s)"
proof -
  have "woken s (set_channel i f (cleanup_wake i (set_channel i g s)))" for f g
    by (rule woken_trans [OF woken_truncate [OF truncate_set_channel] woken_trans [OF cleanup_wake_woken
          woken_truncate [OF truncate_set_channel]]])
  moreover have "woken s (set_channel i f s)" for f by (rule woken_truncate) simp
  ultimately show ?thesis
    by (simp add: cleanup_channel_def Let_def woken_refl)
qed

lemma ipc_process_cleanup_woken: "woken s (ipc_process_cleanup pid s)"
proof -
  have "woken s (fold (cleanup_channel pid) is s)" for "is" and s :: "'a input_state_scheme"
    by (induction "is" arbitrary: s) (auto intro: woken_refl woken_trans [OF cleanup_channel_woken])
  then show ?thesis
    unfolding ipc_process_cleanup_def by (rule woken_trans [OF woken_truncate [OF truncate_input_cancel_wait]])
qed

lemma release_process_woken: "woken s (userspace_release_process pid s)"
proof (cases "pid = 0 \<or> unat pid \<ge> 8")
  case False
  then show ?thesis
    using woken_trans [OF ipc_process_cleanup_woken woken_truncate] release_process_truncate [of pid s] by (metis not_le)
qed (simp add: userspace_release_process_def woken_refl)

lemma task_woken_state:
  "task_woken t t' \<Longrightarrow> t_pid t' = t_pid t"
  "task_woken t t' \<Longrightarrow> t_state t' = SCHEDULER_TASK_RUNNING \<longleftrightarrow> t_state t = SCHEDULER_TASK_RUNNING"
  "task_woken t t' \<Longrightarrow> t_state t \<noteq> SCHEDULER_TASK_BLOCKED \<Longrightarrow> t' = t"
  by (auto simp: task_woken_def)

lemma woken_nth: "woken s s' \<Longrightarrow> i < length (sch_tasks s) \<Longrightarrow> task_woken (sch_tasks s ! i) (sch_tasks s' ! i)"
  by (simp add: woken_def)

lemma woken_shape: "woken s s' \<Longrightarrow> sched_shape s \<Longrightarrow> sched_shape s'"
  using task_woken_state(1) [OF woken_nth [of s s']] by (auto simp: sched_shape_def woken_def)

lemma woken_zero:
  assumes "woken s s'" "length (sch_tasks s) = 8" "t_state (sch_tasks s ! 0) = SCHEDULER_TASK_READY"
  shows "t_state (sch_tasks s' ! 0) = SCHEDULER_TASK_READY"
  using woken_nth [OF assms(1), of 0] assms(2,3) by (simp add: task_woken_def)

lemma woken_switching: "woken s s' \<Longrightarrow> sched_switching s \<Longrightarrow> sched_switching s'"
  using woken_shape [of s s'] task_woken_state(2) [OF woken_nth [of s s']] woken_zero [of s s']
  by (simp add: sched_switching_def sched_shape_def) (simp add: woken_def)

lemma woken_inv: "woken s s' \<Longrightarrow> sched_inv s \<Longrightarrow> sched_inv s'"
  using woken_shape [of s s'] task_woken_state(2) [OF woken_nth [of s s']] woken_zero [of s s']
  by (simp add: sched_inv_def sched_shape_def) (simp add: woken_def)

text \<open>Waking the parent of an exited child: blocked tasks may become ready, and the child's slot may be freed.\<close>

lemma wake_waiting_parent_cases:
  obtains "wake_waiting_parent child s = s"
  | s1 where "woken s s1" "wake_waiting_parent child s = set_task child (\<lambda>_. task_zero child) s1"
proof (cases "let parent = t_parent_pid (task_of s child) in
   parent = 0 \<or> unat parent \<ge> 8 \<or> t_state (task_of s parent) \<noteq> SCHEDULER_TASK_BLOCKED \<or>
   t_waiting_for (task_of s parent) = SCHEDULER_WAIT_NONE \<or>
   (t_waiting_for (task_of s parent) \<noteq> 0 \<and> t_waiting_for (task_of s parent) \<noteq> child)")
  case True
  then have "wake_waiting_parent child s = s" by (simp add: wake_waiting_parent_def Let_def)
  then show ?thesis by (rule that(1))
next
  case False
  let ?p = "t_parent_pid (task_of s child)"
  let ?s2 = "set_task ?p (\<lambda>t. t\<lparr>t_waiting_for := SCHEDULER_WAIT_NONE, t_state := SCHEDULER_TASK_READY\<rparr>)
     (set_frame (t_saved_frame (task_of s ?p)) (\<lambda>f. f\<lparr>f_rax := ucast child, f_rdx := t_exit_code (task_of s child)\<rparr>) s)"
  have "woken s ?s2" using False by (intro woken_one) (simp_all add: task_woken_def Let_def)
  then have "woken s (userspace_release_process child ?s2)" by (rule woken_trans [OF _ release_process_woken])
  moreover have "wake_waiting_parent child s = set_task child (\<lambda>_. task_zero child) (userspace_release_process child ?s2)"
    using False unfolding wake_waiting_parent_def Let_def by (simp only: if_False)
  ultimately show ?thesis by (rule that(2))
qed

lemma free_task_switching:
  "sched_switching s \<Longrightarrow> child \<noteq> 0 \<Longrightarrow> sched_switching (set_task child (\<lambda>_. task_zero child) s)"
  using unat_gt_0 [of child] by (auto simp: sched_switching_def sched_shape_def nth_update task_zero_def)

lemma wake_waiting_parent_switching:
  "sched_switching s \<Longrightarrow> child \<noteq> 0 \<Longrightarrow> sched_switching (wake_waiting_parent child s)"
  by (cases rule: wake_waiting_parent_cases [of child s]) (auto intro: free_task_switching woken_switching)

lemma free_task_inv:
  "sched_inv s \<Longrightarrow> child \<noteq> 0 \<Longrightarrow> t_state (task_of s child) \<noteq> SCHEDULER_TASK_RUNNING \<Longrightarrow>
   sched_inv (set_task child (\<lambda>_. task_zero child) s)"
  by (rule sched_inv_set_task) (simp_all add: task_zero_def)

lemma scheduler_on_exit_inv:
  assumes inv: "sched_inv s"
  shows "sched_inv (snd (scheduler_on_exit frame code s))"
proof (cases "\<not> sch_initialized s \<or> \<not> sch_users_running s \<or> sch_current_pid s = 0")
  case False
  let ?c = "sch_current_pid s"
  let ?s0 = "set_task ?c (\<lambda>t. t\<lparr>t_exit_code := code, t_state := SCHEDULER_TASK_EXITED\<rparr>) s"
  let ?s1 = "wake_waiting_parent ?c ?s0"
  have c: "unat ?c < 8" "0 < unat ?c" using inv False by (auto simp: sched_inv_def sched_shape_def unat_gt_0)
  have sw0: "sched_switching ?s0" using sched_inv_switching [OF inv] False by simp
  then have sw: "sched_switching ?s1" using wake_waiting_parent_switching False by blast
  have nr0: "t_state (sch_tasks ?s0 ! i) \<noteq> SCHEDULER_TASK_RUNNING" if "i < 8" for i
    using inv that by (auto simp: sched_inv_def sched_shape_def nth_update)
  have l0: "length (sch_tasks ?s0) = 8" using sw0 by (simp add: sched_switching_def sched_shape_def)
  have nr: "t_state (sch_tasks ?s1 ! i) \<noteq> SCHEDULER_TASK_RUNNING" if "i < 8" for i
  proof (cases rule: wake_waiting_parent_cases [of ?c ?s0])
    case 1
    then show ?thesis using nr0 [OF that] by simp
  next
    case (2 s2)
    have "t_state (sch_tasks s2 ! i) \<noteq> SCHEDULER_TASK_RUNNING"
      using task_woken_state(2) [OF woken_nth [OF 2(1), of i]] nr0 [OF that] that l0 by simp
    moreover have "length (sch_tasks s2) = 8" using 2(1) l0 by (simp add: woken_def)
    ultimately show ?thesis unfolding 2(2) using that by (simp add: nth_update task_zero_def)
  qed
  have sh: "sched_shape ?s1" "sch_users_running ?s1" "t_state (sch_tasks ?s1 ! 0) = SCHEDULER_TASK_READY"
    using sw by (auto simp: sched_switching_def)
  show ?thesis
  proof (cases "next_ready ?c ?s1 = 0")
    case True
    with False return_idle_inv [OF sh(1) nr] show ?thesis by (simp add: scheduler_on_exit_def Let_def)
  next
    case n: False
    with False dispatch_inv [OF sh(1,2) n next_ready_Some(2) [OF c(1) n] sh(3) nr]
    show ?thesis by (simp add: scheduler_on_exit_def Let_def)
  qed
qed (use inv in \<open>simp add: scheduler_on_exit_def\<close>)

lemma scheduler_reap_inv:
  assumes inv: "sched_inv s"
  shows "sched_inv (snd (scheduler_reap parent child s))"
proof (cases "child = 0 \<or> unat child \<ge> 8 \<or> t_parent_pid (task_of s child) \<noteq> parent \<or> t_state (task_of s child) \<noteq> SCHEDULER_TASK_EXITED")
  case False
  have "length (sch_tasks s) = 8" using inv by (simp add: sched_inv_def sched_shape_def)
  then have "task_of (userspace_release_process child s) child = task_of s child"
    using task_woken_state(3) [OF woken_nth [OF release_process_woken]] False by (metis not_le scheduler_task_state.distinct(19))
  with False inv show ?thesis
    by (simp add: scheduler_reap_def free_task_inv release_process_sched_inv)
qed (use inv in \<open>simp add: scheduler_reap_def\<close>)

text \<open>An update of a task that keeps its state and its pid.\<close>

lemma sched_inv_set_task_same:
  "sched_inv s \<Longrightarrow> (\<And>t. t_state (f t) = t_state t \<and> t_pid (f t) = t_pid t) \<Longrightarrow> sched_inv (set_task p f s)"
  by (auto simp: sched_inv_def sched_shape_def nth_update)

lemma expire_wait_woken:
  assumes "unat pid < 8"
  shows "woken s (expire_wait pid s)"
  using woken_one [of "snd (input_cancel_wait pid (snd (ipc_cancel_wait pid s)))" s pid] assms
  by (auto simp: expire_wait_def Let_def woken_refl task_woken_def)

lemma expire_waits_woken: "\<forall>p \<in> set pids. unat p < 8 \<Longrightarrow> woken s (fold expire_wait pids s)"
  by (induction pids arbitrary: s) (auto intro: woken_refl woken_trans [OF expire_wait_woken])

lemma scheduler_on_timer_tick_inv:
  assumes inv: "sched_inv s"
  shows "sched_inv (snd (scheduler_on_timer_tick frame s))"
proof -
  let ?s0 = "s\<lparr>sch_ticks := sch_ticks s + 1\<rparr>"
  let ?s1 = "fold expire_wait [1, 2, 3, 4, 5, 6, 7] ?s0"
  let ?c = "sch_current_pid ?s1"
  have "sched_inv ?s0" using inv by (simp add: sched_inv_def sched_shape_def)
  then have inv1: "sched_inv ?s1" by (rule woken_inv [OF expire_waits_woken, rotated]) simp
  let ?s2 = "set_task ?c (\<lambda>t. t\<lparr>t_cpu_ticks := t_cpu_ticks t + 1\<rparr>) ?s1"
  have inv2: "sched_inv ?s2" by (rule sched_inv_set_task_same [OF inv1]) simp
  let ?s3 = "set_task ?c (\<lambda>t. t\<lparr>t_slice_ticks := t_slice_ticks t + 1\<rparr>) ?s2"
  have inv3: "sched_inv ?s3" by (rule sched_inv_set_task_same [OF inv2]) simp
  have sw: "sched_inv (snd (reschedule frame (set_task ?c (\<lambda>t. t\<lparr>t_quantum_expirations := t_quantum_expirations t + 1\<rparr>) ?s3)))"
    if "sch_users_running ?s3"
    using sched_inv_switching [OF inv3 that, of "\<lambda>t. t\<lparr>t_quantum_expirations := t_quantum_expirations t + 1\<rparr>"]
    by (intro reschedule_inv) simp_all
  show ?thesis
  proof (cases "\<not> sch_initialized s")
    case True
    then show ?thesis using inv by (simp add: scheduler_on_timer_tick_def)
  next
    case False
    show ?thesis
      unfolding scheduler_on_timer_tick_def Let_def using False inv2 inv3 sw
      by (simp only: if_False not_False_eq_True split: if_split) (simp add: set_task_simps(2))
  qed
qed

lemma wake_waiting_parent_inv:
  assumes "sched_inv s" "child \<noteq> 0" "unat child < 8" "t_state (task_of s child) = SCHEDULER_TASK_EXITED"
  shows "sched_inv (wake_waiting_parent child s)"
proof (cases rule: wake_waiting_parent_cases [of child s])
  case (2 s1)
  have "task_of s1 child = task_of s child"
    using task_woken_state(3) [OF woken_nth [OF 2(1), of "unat child"]] assms by (simp add: sched_inv_def sched_shape_def)
  then show ?thesis unfolding 2(2) using assms woken_inv [OF 2(1)] by (intro free_task_inv) auto
qed (use assms in simp)

lemma scheduler_terminate_inv:
  assumes inv: "sched_inv s"
  shows "sched_inv (snd (scheduler_terminate pid code s))"
proof (cases "pid = 0 \<or> unat pid \<ge> 8 \<or> pid = sch_current_pid s \<or>
         t_state (task_of s pid) = SCHEDULER_TASK_UNUSED \<or> t_state (task_of s pid) = SCHEDULER_TASK_EXITED")
  case False
  let ?s1 = "set_task pid (\<lambda>t. t\<lparr>t_exit_code := code, t_state := SCHEDULER_TASK_EXITED\<rparr>) s"
  have "unat pid \<noteq> unat (sch_current_pid s)" using False unat_neq by blast
  then have "t_state (task_of s pid) \<noteq> SCHEDULER_TASK_RUNNING" using inv False by (auto simp: sched_inv_def)
  then have "sched_inv ?s1" using inv False by (intro sched_inv_set_task) (auto simp: sched_inv_pid)
  moreover have "t_state (task_of ?s1 pid) = SCHEDULER_TASK_EXITED"
    using inv False by (simp add: sched_inv_def sched_shape_def)
  ultimately show ?thesis using False wake_waiting_parent_inv [of ?s1 pid] by (simp add: scheduler_terminate_def)
qed (use inv in \<open>simp add: scheduler_terminate_def\<close>)

lemma scheduler_on_wait_inv:
  assumes inv: "sched_inv s" and run: "sch_users_running s"
  shows "sched_inv (snd (scheduler_on_wait frame child s))"
proof (cases "fst (scheduler_reap (sch_current_pid s) child s)")
  case None
  then have "snd (scheduler_reap (sch_current_pid s) child s) = s" by (auto simp: scheduler_reap_def split: if_splits)
  then have e: "scheduler_reap (sch_current_pid s) child s = (None, s)" using None by (simp add: prod_eq_iff)
  show ?thesis
    using inv sched_inv_switching [OF inv run, of "\<lambda>t. t\<lparr>t_saved_frame := frame, t_state := SCHEDULER_TASK_BLOCKED,
                  t_waiting_for := child\<rparr>"]
    by (auto simp: scheduler_on_wait_def Let_def e intro: reschedule_inv)
next
  case (Some code)
  then show ?thesis
    using scheduler_reap_inv [OF inv, of "sch_current_pid s" child]
    by (cases "scheduler_reap (sch_current_pid s) child s") (simp add: scheduler_on_wait_def Let_def)
qed

lemma scheduler_reap_exited_inv: "sched_inv s \<Longrightarrow> sched_inv (snd (scheduler_reap_exited parent s))"
proof -
  have "sched_inv s \<Longrightarrow> sched_inv (snd (reap_first children parent s))" for children and s :: "'a input_state_scheme"
  proof (induction children arbitrary: s)
    case (Cons c cs)
    have "sched_inv (snd (scheduler_reap parent c s))" using Cons.prems by (rule scheduler_reap_inv)
    then show ?case using Cons.IH Cons.prems
      by (cases "scheduler_reap parent c s"; cases "fst (scheduler_reap parent c s)") simp_all
  qed simp
  then show "sched_inv s \<Longrightarrow> ?thesis" unfolding scheduler_reap_exited_def by blast
qed

lemma truncate_large_take_pages [simp]:
  "sched_state.truncate (snd (large_take_pages ps pid t s)) = sched_state.truncate s"
  by (induction ps arbitrary: s) (simp_all add: Let_def case_prod_beta)

lemma truncate_large_code_load [simp]:
  "sched_state.truncate (snd (large_code_load pid img layout s)) = sched_state.truncate s"
  by (simp add: large_code_load_def Let_def case_prod_beta split: option.splits)

lemma truncate_load_image [simp]: "sched_state.truncate (snd (load_image pid memory img s)) = sched_state.truncate s"
  by (simp add: load_image_def case_prod_beta split: option.splits)

lemma load_process_sched_inv:
  assumes inv: "sched_inv s"
  shows "sched_inv (snd (load_process pid parent name memory img services s))"
proof -
  have c: "sched_inv (snd (scheduler_create_user parent (Some name) entry stack space s1))"
    if "sched_state.truncate s1 = sched_state.truncate s" for entry stack space and s1 :: "'a input_state_scheme"
    using scheduler_create_user_inv [OF _ surjective_pairing] inv sched_inv_truncate [OF that] by blast
  have t: "sched_inv (large_code_release pid u) = sched_inv u" "sched_inv (v\<lparr>ipc_caps := cc\<rparr>) = sched_inv v"
    "sched_inv (v\<lparr>mem_used := uu\<rparr>) = sched_inv v" "sched_inv (v\<lparr>mem_phys := mm\<rparr>) = sched_inv v"
    for u v :: "'a input_state_scheme" and cc uu mm
    by (rule sched_inv_truncate, simp)+
  have i: "sched_inv (snd (load_image pid memory img (s\<lparr>mem_phys := m\<rparr>)))" for m
    using inv by (simp add: sched_inv_truncate [OF truncate_load_image] t)
  have l: "load_image pid memory img (s\<lparr>mem_phys := m\<rparr>) = (r, s1) \<Longrightarrow> sched_state.truncate (s1\<lparr>mem_phys := m'\<rparr>) = sched_state.truncate s" for m m' r s1
    using truncate_load_image [of pid memory img "s\<lparr>mem_phys := m\<rparr>"] by simp
  have r: "sched_inv s1" if "load_image pid memory img (s\<lparr>mem_phys := m\<rparr>) = (r, s1)" for m r s1
    using i [of m] that by simp
  show ?thesis
    unfolding load_process_def Let_def
    by (auto simp: case_prod_beta inv t i split: prod.splits option.splits dest: r l intro!: c)
qed

section \<open>Properties\<close>

text \<open>
  Every state the operations on tasks reach from \<open>scheduler_init\<close>. A wait is only issued by a running
  process. The other operations of the kernel leave the scheduler's part of the state alone (rule
  \<open>other\<close>).
\<close>

inductive kernel_reachable :: "'a input_state_scheme \<Rightarrow> bool" where
  init: "kernel_reachable (scheduler_init root s)"
| load: "kernel_reachable s \<Longrightarrow> kernel_reachable (snd (load_process pid parent name memory img services s))"
| start: "kernel_reachable s \<Longrightarrow> kernel_reachable (snd (scheduler_start_users s))"
| tick: "kernel_reachable s \<Longrightarrow> kernel_reachable (snd (scheduler_on_timer_tick frame s))"
| yield: "kernel_reachable s \<Longrightarrow> kernel_reachable (snd (scheduler_on_yield frame s))"
| exit: "kernel_reachable s \<Longrightarrow> kernel_reachable (snd (scheduler_on_exit frame code s))"
| wait: "kernel_reachable s \<Longrightarrow> sch_users_running s \<Longrightarrow> kernel_reachable (snd (scheduler_on_wait frame child s))"
| block: "kernel_reachable s \<Longrightarrow> kernel_reachable (snd (scheduler_block_current frame s))"
| block_timeout: "kernel_reachable s \<Longrightarrow> kernel_reachable (snd (scheduler_block_current_timeout frame delay result s))"
| wake: "kernel_reachable s \<Longrightarrow> kernel_reachable (snd (scheduler_wake pid result detail s))"
| terminate: "kernel_reachable s \<Longrightarrow> kernel_reachable (snd (scheduler_terminate pid code s))"
| reap: "kernel_reachable s \<Longrightarrow> kernel_reachable (snd (scheduler_reap parent child s))"
| reap_exited: "kernel_reachable s \<Longrightarrow> kernel_reachable (snd (scheduler_reap_exited parent s))"
| cleanup: "kernel_reachable s \<Longrightarrow> kernel_reachable (ipc_process_cleanup pid s)"
| release: "kernel_reachable s \<Longrightarrow> kernel_reachable (userspace_release_process pid s)"
| other: "kernel_reachable s \<Longrightarrow> sched_state.truncate s' = sched_state.truncate s \<Longrightarrow> kernel_reachable s'"

lemmas sched_ops_inv = scheduler_init_inv load_process_sched_inv scheduler_start_users_inv scheduler_on_timer_tick_inv
  scheduler_on_yield_inv scheduler_on_exit_inv scheduler_on_wait_inv scheduler_block_current_inv
  scheduler_block_current_timeout_inv scheduler_wake_inv scheduler_terminate_inv scheduler_reap_inv scheduler_reap_exited_inv
  ipc_process_cleanup_sched_inv release_process_sched_inv

text \<open>
  Claim C32: exactly one task is running. In every reachable state of the kernel a task is in the state
  \<open>running\<close> if and only if it is the current one, user tasks run exactly while the current task is not
  the idle task, and every table slot carries its own pid.
\<close>

theorem kernel_one_running: "kernel_reachable s \<Longrightarrow> sched_inv s"
proof (induction rule: kernel_reachable.induct)
  case (other s s')
  then show ?case using sched_inv_truncate by blast
qed (simp_all add: sched_ops_inv)

theorem kernel_one_running_witness:
  "sched_inv (snd (scheduler_on_timer_tick 0x1000 (snd (scheduler_start_users (scheduler_init 0x8000 input_state_example)))))"
  by (rule kernel_one_running) (intro kernel_reachable.tick kernel_reachable.start kernel_reachable.init)

text \<open>Release leaves the frames of tasks that are not blocked alone, and frees the slot's memory.\<close>

lemma release_process_frames:
  assumes "length (sch_tasks s) = 8" "\<And>i. i < 8 \<Longrightarrow> t_state (sch_tasks s ! i) = SCHEDULER_TASK_BLOCKED \<Longrightarrow> t_saved_frame (sch_tasks s ! i) \<noteq> a"
  shows "sch_frames (userspace_release_process pid s) a = sch_frames s a"
  using release_process_woken [of s pid] assms unfolding woken_def frames_kept_def by metis

lemma release_process_unused:
  "pid \<noteq> 0 \<Longrightarrow> unat pid < 8 \<Longrightarrow> unat pid < length (mem_used (userspace_release_process pid s)) \<Longrightarrow>
   \<not> mem_used (userspace_release_process pid s) ! unat pid"
  by (auto simp: userspace_release_process_def Let_def case_prod_beta)

text \<open>
  Tasks have their own saved frames: no two blocked tasks resume from the same frame.
\<close>

definition frames_distinct :: "'a sched_state_scheme \<Rightarrow> bool" where
  "frames_distinct s \<longleftrightarrow> (\<forall>i < 8. \<forall>j < 8. i \<noteq> j \<and> t_state (sch_tasks s ! i) = SCHEDULER_TASK_BLOCKED \<and>
     t_state (sch_tasks s ! j) = SCHEDULER_TASK_BLOCKED \<longrightarrow> t_saved_frame (sch_tasks s ! i) \<noteq> t_saved_frame (sch_tasks s ! j))"

text \<open>The state in which the exiting task looks for a successor.\<close>

definition after_exit :: "u64 \<Rightarrow> 'a input_state_scheme \<Rightarrow> 'a input_state_scheme" where
  "after_exit code s = wake_waiting_parent (sch_current_pid s)
     (set_task (sch_current_pid s) (\<lambda>t. t\<lparr>t_exit_code := code, t_state := SCHEDULER_TASK_EXITED\<rparr>) s)"

lemma after_exit_wakes:
  assumes inv: "sched_inv s" and run: "sch_users_running s" and fd: "frames_distinct s"
    and p: "p = t_parent_pid (task_of s (sch_current_pid s))" "p \<noteq> 0" "unat p < 8"
    and w: "t_state (task_of s p) = SCHEDULER_TASK_BLOCKED" "t_waiting_for (task_of s p) = 0 \<or> t_waiting_for (task_of s p) = sch_current_pid s"
  shows "f_rax (sch_frames (after_exit code s) (t_saved_frame (task_of s p))) = ucast (sch_current_pid s)"
    and "f_rdx (sch_frames (after_exit code s) (t_saved_frame (task_of s p))) = code"
    and "t_state (task_of (after_exit code s) p) = SCHEDULER_TASK_READY"
    and "task_of (after_exit code s) (sch_current_pid s) = task_zero (sch_current_pid s)"
proof -
  let ?c = "sch_current_pid s"
  let ?s0 = "set_task ?c (\<lambda>t. t\<lparr>t_exit_code := code, t_state := SCHEDULER_TASK_EXITED\<rparr>) s"
  let ?a = "t_saved_frame (task_of s p)"
  have c: "unat ?c < 8" "?c \<noteq> 0" and l: "length (sch_tasks s) = 8" using inv run by (auto simp: sched_inv_def sched_shape_def)
  have ne: "unat p \<noteq> unat ?c" using inv w(1) p(3) by (auto simp: sched_inv_def)
  have "unat (SCHEDULER_WAIT_NONE :: u32) = 4294967295" by (simp add: unsigned_minus_1_eq_mask mask_eq_exp_minus_1)
  then have "?c \<noteq> SCHEDULER_WAIT_NONE" using c(1) by force
  then have none: "t_waiting_for (task_of s p) \<noteq> SCHEDULER_WAIT_NONE" using w(2) by auto
  let ?s2 = "set_task p (\<lambda>t. t\<lparr>t_waiting_for := SCHEDULER_WAIT_NONE, t_state := SCHEDULER_TASK_READY\<rparr>)
     (set_frame ?a (\<lambda>f. f\<lparr>f_rax := ucast ?c, f_rdx := code\<rparr>) ?s0)"
  have e: "after_exit code s = set_task ?c (\<lambda>_. task_zero ?c) (userspace_release_process ?c ?s2)"
    using p w none ne l c by (auto simp: after_exit_def wake_waiting_parent_def Let_def)
  have "sch_frames (userspace_release_process ?c ?s2) ?a = sch_frames ?s2 ?a"
  proof (rule release_process_frames)
    show "length (sch_tasks ?s2) = 8" using l by simp
    fix i :: nat
    assume i: "i < 8" "t_state (sch_tasks ?s2 ! i) = SCHEDULER_TASK_BLOCKED"
    then have "i \<noteq> unat p" "t_state (sch_tasks s ! i) = SCHEDULER_TASK_BLOCKED" "sch_tasks ?s2 ! i = sch_tasks s ! i"
      using l by (auto simp: nth_update split: if_splits)
    with fd i p(3) w(1) show "t_saved_frame (sch_tasks ?s2 ! i) \<noteq> ?a" unfolding frames_distinct_def by metis
  qed
  then show "f_rax (sch_frames (after_exit code s) ?a) = ucast ?c" "f_rdx (sch_frames (after_exit code s) ?a) = code"
    unfolding e by simp_all
  have "task_of ?s2 p = (task_of s p)\<lparr>t_waiting_for := SCHEDULER_WAIT_NONE, t_state := SCHEDULER_TASK_READY\<rparr>"
    using ne l p(3) by simp
  then have "task_of (userspace_release_process ?c ?s2) p = task_of ?s2 p"
    using task_woken_state(3) [OF woken_nth [OF release_process_woken [of ?s2 ?c], of "unat p"]] l p(3) by simp
  then show "t_state (task_of (after_exit code s) p) = SCHEDULER_TASK_READY"
    unfolding e using ne l p(3) by simp
  have "length (sch_tasks (userspace_release_process ?c ?s2)) = 8"
    using release_process_woken [of ?s2 ?c] l by (simp add: woken_def)
  then show "task_of (after_exit code s) ?c = task_zero ?c" unfolding e using c by simp
qed

lemma exit_after: "sched_inv s \<Longrightarrow> sch_users_running s \<Longrightarrow> scheduler_on_exit frame code s =
   (if next_ready (sch_current_pid s) (after_exit code s) \<noteq> 0
    then dispatch (next_ready (sch_current_pid s) (after_exit code s)) (after_exit code s)
    else return_idle (after_exit code s))"
  by (auto simp: scheduler_on_exit_def after_exit_def Let_def sched_inv_def sched_shape_def)

lemma after_exit_length: "sched_inv s \<Longrightarrow> length (sch_tasks (after_exit code s)) = 8"
  unfolding after_exit_def
  by (cases rule: wake_waiting_parent_cases [of "sch_current_pid s"
        "set_task (sch_current_pid s) (\<lambda>t. t\<lparr>t_exit_code := code, t_state := SCHEDULER_TASK_EXITED\<rparr>) s"])
     (auto simp: sched_inv_def sched_shape_def woken_def)

text \<open>
  Claim C33: an exit is delivered to the waiting parent. When a process exits whose parent is blocked in a wait for it
  (or for any child), the parent's system call returns the child's pid and its exit code, the parent
  can run again, and the child's slot is free. Frames of blocked tasks are assumed distinct.
\<close>

theorem exit_delivered_to_parent:
  assumes "sched_inv s" "sch_users_running s" "frames_distinct s"
    and "p = t_parent_pid (task_of s (sch_current_pid s))" "p \<noteq> 0" "unat p < SCHEDULER_PROCESS_LIMIT"
    and "t_state (task_of s p) = SCHEDULER_TASK_BLOCKED"
    and "t_waiting_for (task_of s p) = 0 \<or> t_waiting_for (task_of s p) = sch_current_pid s"
    and "s' = snd (scheduler_on_exit frame code s)"
  shows "f_rax (sch_frames s' (t_saved_frame (task_of s p))) = ucast (sch_current_pid s) \<and>
    f_rdx (sch_frames s' (t_saved_frame (task_of s p))) = code \<and>
    t_state (task_of s' p) \<in> {SCHEDULER_TASK_READY, SCHEDULER_TASK_RUNNING} \<and>
    t_state (task_of s' (sch_current_pid s)) = SCHEDULER_TASK_UNUSED"
proof -
  let ?c = "sch_current_pid s" and ?t = "after_exit code s"
  note a = after_exit_wakes [OF assms(1-8), of code]
  have c: "unat ?c < 8" "0 < unat ?c" using assms(1,2) by (auto simp: sched_inv_def sched_shape_def unat_gt_0)
  have p0: "0 < unat p" using assms(5) by (simp add: unat_gt_0)
  have l: "length (sch_tasks ?t) = 8" using assms(1) by (rule after_exit_length)
  have z: "t_state (task_of ?t ?c) = SCHEDULER_TASK_UNUSED" using a(4) by (simp add: task_zero_def)
  let ?n = "next_ready ?c ?t"
  have n: "unat ?n \<noteq> unat ?c" if "?n \<noteq> 0" using next_ready_Some(1) [OF c(1) that] z by auto
  show ?thesis
    using a l z n c p0 assms(6) unfolding assms(9) exit_after [OF assms(1,2)] by (simp add: nth_update)
qed

text \<open>The fields of the other components are part of \<open>sched_state.more\<close>.\<close>

lemma more_fields:
  "sched_state.more s' = sched_state.more s \<Longrightarrow> ipc_channels s' = ipc_channels s \<and> mem_used s' = mem_used s"
  for s :: "'a input_state_scheme"
  by (cases s; cases s') simp

text \<open>
  An exit does not disturb other blocked tasks: when a process exits and its parent is blocked on something
  other than a wait for it (a channel, the input queue, a timer or another child), no task but the exiting and
  the dispatched one changes and no saved frame is written.
\<close>

theorem exit_leaves_other_waits:
  assumes "sched_inv s" "sch_users_running s"
    and "p = t_parent_pid (task_of s (sch_current_pid s))"
    and "t_waiting_for (task_of s p) = SCHEDULER_WAIT_NONE \<or>
         t_waiting_for (task_of s p) \<noteq> 0 \<and> t_waiting_for (task_of s p) \<noteq> sch_current_pid s"
    and "p \<noteq> sch_current_pid s" "s' = snd (scheduler_on_exit frame code s)"
  shows "sch_frames s' = sch_frames s \<and>
    (\<forall>i < SCHEDULER_PROCESS_LIMIT. i \<noteq> unat (sch_current_pid s) \<and> i \<noteq> unat (sch_current_pid s') \<longrightarrow> sch_tasks s' ! i = sch_tasks s ! i) \<and>
    ipc_channels s' = ipc_channels s \<and> mem_used s' = mem_used s"
proof -
  let ?c = "sch_current_pid s"
  have "unat p \<noteq> unat ?c" using assms(5) unat_neq by blast
  then have e: "after_exit code s = set_task ?c (\<lambda>t. t\<lparr>t_exit_code := code, t_state := SCHEDULER_TASK_EXITED\<rparr>) s"
    using assms(1,3,4) by (auto simp: after_exit_def wake_waiting_parent_def Let_def sched_inv_def sched_shape_def)
  have l: "length (sch_tasks s) = 8" using assms(1) by (simp add: sched_inv_def sched_shape_def)
  have more: "sched_state.more s' = sched_state.more s" and f: "sch_frames s' = sch_frames s"
    unfolding assms(6) exit_after [OF assms(1,2)] e by auto
  have "sch_tasks s' ! i = sch_tasks s ! i" if "i < 8" "i \<noteq> unat ?c" "i \<noteq> unat (sch_current_pid s')" for i
    using that l unfolding assms(6) exit_after [OF assms(1,2)] e by (auto simp: nth_update split: if_splits)
  with f show ?thesis
    using more_fields [OF more] by blast
qed

text \<open>Process 2, the child of process 1, runs while process 1 is blocked; \<open>w\<close> says on what.\<close>

definition family_example :: "u32 \<Rightarrow> input_state" where
  "family_example w = input_state_example\<lparr>
     sch_tasks := [(task_zero 0)\<lparr>t_state := SCHEDULER_TASK_READY\<rparr>,
       (task_zero 1)\<lparr>t_state := SCHEDULER_TASK_BLOCKED, t_waiting_for := w, t_saved_frame := 0x100\<rparr>,
       (task_zero 2)\<lparr>t_state := SCHEDULER_TASK_RUNNING, t_parent_pid := 1, t_waiting_for := SCHEDULER_WAIT_NONE\<rparr>,
       task_zero 3, task_zero 4, task_zero 5, task_zero 6, task_zero 7],
     sch_current_pid := 2, sch_users_running := True, sch_initialized := True, sch_fpu_state := replicate 8 []\<rparr>"

lemma all_less_8: "(\<forall>i < 8. P i) \<longleftrightarrow> P (0 :: nat) \<and> P 1 \<and> P 2 \<and> P 3 \<and> P 4 \<and> P 5 \<and> P 6 \<and> P 7"
  using small_cases by metis

lemma family_example_inv: "sched_inv (family_example w)" "frames_distinct (family_example w)" "sch_users_running (family_example w)"
  by (simp_all add: family_example_def sched_inv_def sched_shape_def frames_distinct_def all_less_8 task_zero_def)

lemma family_example_facts:
  "sch_current_pid (family_example w) = 2" "task_of (family_example w) 2 = (task_zero 2)\<lparr>t_state := SCHEDULER_TASK_RUNNING, t_parent_pid := 1,
     t_waiting_for := SCHEDULER_WAIT_NONE\<rparr>"
  "task_of (family_example w) 1 = (task_zero 1)\<lparr>t_state := SCHEDULER_TASK_BLOCKED, t_waiting_for := w, t_saved_frame := 0x100\<rparr>"
  by (simp_all add: family_example_def)

theorem exit_delivered_to_parent_witness:
  "f_rax (sch_frames (snd (scheduler_on_exit 0x200 42 (family_example 2))) 0x100) = 2 \<and>
   f_rdx (sch_frames (snd (scheduler_on_exit 0x200 42 (family_example 2))) 0x100) = 42"
  using exit_delivered_to_parent [where s = "family_example 2" and frame = "0x200" and code = 42, OF family_example_inv(1,3,2) refl _ _ _ _ refl]
  by (simp add: family_example_facts [simplified])

theorem exit_leaves_other_waits_witness:
  "sch_frames (snd (scheduler_on_exit 0x200 42 (family_example SCHEDULER_WAIT_NONE))) = sch_frames (family_example SCHEDULER_WAIT_NONE)"
  using exit_leaves_other_waits [where s = "family_example SCHEDULER_WAIT_NONE" and frame = "0x200" and code = 42, OF family_example_inv(1,3) refl _ _ refl]
  by (simp add: family_example_facts [simplified])

end
