(* ===== verification/Raster.thy ===== *)
theory Raster
  imports Demon_Prelude
begin

text \<open>
  Rectangles of 32-bit signed coordinates and the double loops over them, which both the graphics library
  (\<open>libs/graphics/graphics.c\<close>) and the scan-out code (\<open>src/framebuffer.c\<close>) are made of. The locale \<open>raster\<close> is the
  interface of a pixel store: two different pixels do not share memory. It is interpreted here for an array of
  32-bit pixels addressed by row and stride, and in \<open>Framebuffer\<close> for the bytes of the display's memory.
\<close>

section \<open>Signed 32-bit integers\<close>

text \<open>
  An \<open>int32_t\<close> is an \<open>int\<close> between \<open>-2\<^sup>3\<^sup>1\<close> and \<open>2\<^sup>3\<^sup>1 - 1\<close>. \<open>i32\<close> is the conversion to the type; it is applied to
  the result of every 32-bit signed operation, which is what the target computes when the exact result does
  not fit (C leaves that case undefined; \<open>i32_id\<close> is used wherever it cannot arise).
\<close>

definition i32 :: "int \<Rightarrow> int" where
  "i32 v = (v + 2147483648) mod 4294967296 - 2147483648"

abbreviation (input) INT32_MAX :: int where "INT32_MAX \<equiv> 2147483647"

lemma i32_id: "- 2147483648 \<le> v \<Longrightarrow> v < 2147483648 \<Longrightarrow> i32 v = v"
  by (simp add: i32_def)

lemma i32_range: "- 2147483648 \<le> i32 v" "i32 v < 2147483648"
  by (simp_all add: i32_def)

lemma i32_i32 [simp]: "i32 (i32 v) = i32 v"
  by (simp add: i32_id i32_range)

definition is_i32 :: "int \<Rightarrow> bool" where
  "is_i32 v \<longleftrightarrow> - 2147483648 \<le> v \<and> v < 2147483648"

lemma is_i32_i32 [simp]: "is_i32 (i32 v)"
  by (simp add: is_i32_def i32_range)

lemma i32_cong: "i32 v = v - 4294967296 * ((v + 2147483648) div 4294967296)"
  by (simp add: i32_def minus_mult_div_eq_mod [symmetric])

section \<open>Rectangles\<close>

record rect =
  r_x :: int
  r_y :: int
  r_width :: int
  r_height :: int

definition in_rect :: "rect \<Rightarrow> int \<Rightarrow> int \<Rightarrow> bool" where
  "in_rect r x y \<longleftrightarrow> r_x r \<le> x \<and> x < r_x r + r_width r \<and> r_y r \<le> y \<and> y < r_y r + r_height r"

text \<open>
  \<open>for_rect r f\<close> is the double loop \<open>for (y = r.y; y < r.y + r.height; ++y) for (x = r.x; x < r.x + r.width; ++x)\<close>
  with body \<open>f x y\<close> acting on the memory; \<open>for_columns\<close> is the inner loop of one row.
\<close>

definition for_columns :: "int \<Rightarrow> int \<Rightarrow> (int \<Rightarrow> 'm \<Rightarrow> 'm) \<Rightarrow> 'm \<Rightarrow> 'm" where
  "for_columns a b f = fold f [a .. b - 1]"

definition for_rect :: "rect \<Rightarrow> (int \<Rightarrow> int \<Rightarrow> 'm \<Rightarrow> 'm) \<Rightarrow> 'm \<Rightarrow> 'm" where
  "for_rect r f m = fold (\<lambda>y. for_columns (r_x r) (i32 (r_x r + r_width r)) (\<lambda>x. f x y)) [r_y r .. i32 (r_y r + r_height r) - 1] m"

definition rect_points :: "rect \<Rightarrow> (int \<times> int) list" where
  "rect_points r = concat (map (\<lambda>y. map (\<lambda>x. (x, y)) [r_x r .. r_x r + r_width r - 1]) [r_y r .. r_y r + r_height r - 1])"

lemma set_rect_points: "set (rect_points r) = {(x, y). in_rect r x y}"
  by (auto simp: rect_points_def in_rect_def)

lemma distinct_rect_points: "distinct (rect_points r)"
proof -
  have "distinct (concat (map (\<lambda>y. map (\<lambda>x. (x, y)) [a .. b]) ys))" if "distinct ys" for a b :: int and ys :: "int list"
    using that by (induction ys) (auto simp: distinct_map inj_on_def)
  then show ?thesis by (simp add: rect_points_def)
qed

definition rect_fits :: "rect \<Rightarrow> bool" where
  "rect_fits r \<longleftrightarrow> is_i32 (r_x r + r_width r) \<and> is_i32 (r_y r + r_height r)"

lemma fold_concat_rows: "fold (\<lambda>y m. fold (\<lambda>x. f x y) xs m) ys m = fold (\<lambda>(x, y). f x y) (concat (map (\<lambda>y. map (\<lambda>x. (x, y)) xs) ys)) m"
proof (induction ys arbitrary: m)
  case (Cons y ys)
  have "fold (\<lambda>(x, y). f x y) (map (\<lambda>x. (x, y)) xs) = fold (\<lambda>x. f x y) xs"
    by (simp add: fold_map comp_def)
  with Cons show ?case by simp
qed simp

lemma for_rect_points:
  "rect_fits r \<Longrightarrow> for_rect r f m = fold (\<lambda>(x, y). f x y) (rect_points r) m"
  by (simp add: for_rect_def for_columns_def rect_points_def fold_concat_rows rect_fits_def is_i32_def i32_id)

section \<open>Pixel stores\<close>

text \<open>
  A pixel store of geometry \<open>g\<close>: \<open>put g x y v\<close> stores the colour \<open>v\<close> in the pixel at column \<open>x\<close> of row \<open>y\<close>, \<open>get g x y\<close>
  reads what the store holds there, which is \<open>enc g v\<close> after storing \<open>v\<close>. Storing one pixel does not change
  another, nor any cell from \<open>extent g\<close> on.
\<close>

locale raster =
  fixes valid :: "'g \<Rightarrow> int \<Rightarrow> int \<Rightarrow> bool"
    and put :: "'g \<Rightarrow> int \<Rightarrow> int \<Rightarrow> 'v \<Rightarrow> (nat \<Rightarrow> 'c) \<Rightarrow> (nat \<Rightarrow> 'c)"
    and get :: "'g \<Rightarrow> int \<Rightarrow> int \<Rightarrow> (nat \<Rightarrow> 'c) \<Rightarrow> 'w"
    and enc :: "'g \<Rightarrow> 'v \<Rightarrow> 'w"
    and extent :: "'g \<Rightarrow> nat"
  assumes get_put: "valid g x y \<Longrightarrow> valid g x' y' \<Longrightarrow>
      get g x' y' (put g x y v m) = (if x' = x \<and> y' = y then enc g v else get g x' y' m)"
    and put_extent: "valid g x y \<Longrightarrow> extent g \<le> k \<Longrightarrow> put g x y v m k = m k"
begin

text \<open>A loop that stores a colour in some of the pixels of a list, each pixel once.\<close>

lemma get_fold_put:
  assumes "\<forall>(x, y) \<in> set ps. c x y \<longrightarrow> valid g x y" "distinct ps" "valid g a b"
  shows "get g a b (fold (\<lambda>(x, y) m. if c x y then put g x y (f x y (get g x y m)) m else m) ps m) =
    (if (a, b) \<in> set ps \<and> c a b then enc g (f a b (get g a b m)) else get g a b m)"
  using assms
proof (induction ps arbitrary: m)
  case (Cons p ps)
  obtain x y where p: "p = (x, y)" by (cases p)
  from Cons.prems have "c x y \<Longrightarrow> valid g x y" "(x, y) \<notin> set ps" by (auto simp: p)
  with Cons.prems show ?case by (auto simp: p Cons.IH get_put)
qed simp

lemma fold_put_extent:
  assumes "\<forall>(x, y) \<in> set ps. c x y \<longrightarrow> valid g x y" "extent g \<le> k"
  shows "fold (\<lambda>(x, y) m. if c x y then put g x y (f x y (get g x y m)) m else m) ps m k = m k"
  using assms by (induction ps arbitrary: m) (auto simp: put_extent)

lemma get_for_rect:
  assumes "\<And>x y. in_rect r x y \<Longrightarrow> valid g x y" "rect_fits r" "valid g a b"
  shows "get g a b (for_rect r (\<lambda>x y m. if c x y then put g x y (f x y (get g x y m)) m else m) m) =
    (if in_rect r a b \<and> c a b then enc g (f a b (get g a b m)) else get g a b m)"
  using get_fold_put [of "rect_points r" c g a b f m] assms
  by (auto simp: for_rect_points set_rect_points distinct_rect_points case_prod_unfold)

lemma for_rect_extent:
  assumes "\<And>x y. in_rect r x y \<Longrightarrow> valid g x y" "rect_fits r" "extent g \<le> k"
  shows "for_rect r (\<lambda>x y m. if c x y then put g x y (f x y (get g x y m)) m else m) m k = m k"
  using fold_put_extent [of "rect_points r" c g k f m] assms
  by (auto simp: for_rect_points set_rect_points case_prod_unfold)

end

section \<open>Pixel arrays\<close>

text \<open>
  The pixel at column \<open>x\<close> of row \<open>y\<close> of an array with \<open>stride\<close> pixels per row is
  \<open>pixels[(size_t)y * stride + (size_t)x]\<close>; the conversions of negative coordinates wrap around.
\<close>

definition pixel_index :: "u32 \<Rightarrow> int \<Rightarrow> int \<Rightarrow> nat" where
  "pixel_index stride y x = unat ((of_int y :: u64) * ucast stride + of_int x)"

type_synonym pixel_geometry = "u32 \<times> u32" \<comment> \<open>pixels per row, rows\<close>

definition array_valid :: "pixel_geometry \<Rightarrow> int \<Rightarrow> int \<Rightarrow> bool" where
  "array_valid g x y \<longleftrightarrow> 0 \<le> x \<and> x < uint (fst g) \<and> 0 \<le> y \<and> y < uint (snd g)"

definition array_put :: "pixel_geometry \<Rightarrow> int \<Rightarrow> int \<Rightarrow> u32 \<Rightarrow> (nat \<Rightarrow> u32) \<Rightarrow> (nat \<Rightarrow> u32)" where
  "array_put g x y v m = m(pixel_index (fst g) y x := v)"

definition array_get :: "pixel_geometry \<Rightarrow> int \<Rightarrow> int \<Rightarrow> (nat \<Rightarrow> u32) \<Rightarrow> u32" where
  "array_get g x y m = m (pixel_index (fst g) y x)"

definition array_extent :: "pixel_geometry \<Rightarrow> nat" where
  "array_extent g = unat (snd g) * unat (fst g)"

lemma row_major_less: "x < st \<Longrightarrow> y < h \<Longrightarrow> y * st + x < h * (st :: nat)"
proof -
  assume "x < st" "y < h"
  then have "y * st + x < Suc y * st" by simp
  also have "\<dots> \<le> h * st" using \<open>y < h\<close> by (intro mult_le_mono1) simp
  finally show ?thesis .
qed

lemma row_major_inj:
  assumes "x < st" "x' < st" "y * st + x = y' * st + (x' :: nat)"
  shows "x = x' \<and> y = y'"
proof -
  have "y = (y * st + x) div st" "y' = (y' * st + x') div st" using assms(1,2) by simp_all
  with assms(3) have "y = y'" by simp
  with assms(3) show ?thesis by simp
qed

lemma unat_of_int_u64: "0 \<le> v \<Longrightarrow> v < 18446744073709551616 \<Longrightarrow> unat (of_int v :: u64) = nat v"
  by (metis (no_types) nat_0_le of_int_of_nat_eq unat_of_nat_u64 nat_less_iff of_nat_numeral)

lemma pixel_index_nat:
  assumes "array_valid g x y"
  shows "pixel_index (fst g) y x = nat y * unat (fst g) + nat x"
proof -
  obtain st h where g: "g = (st, h)" by (cases g)
  have b: "nat x < unat st" "nat y < unat h"
    using assms by (auto simp: array_valid_def g nat_less_iff)
  have "nat y * unat st + nat x < unat h * unat st" using row_major_less [OF b] .
  also have "\<dots> < 4294967296 * 4294967296"
    by (rule mult_strict_mono) (use unsigned_less [of h, where ?'a = nat] unsigned_less [of st, where ?'a = nat] in simp_all)
  finally have l: "nat y * unat st + nat x < 18446744073709551616" by simp
  have y: "unat (of_int y :: u64) = nat y" and x: "unat (of_int x :: u64) = nat x"
    using assms uint_lt2p [of st] uint_lt2p [of h]
    by (auto simp: array_valid_def g intro!: unat_of_int_u64)
  have "unat ((of_int y :: u64) * ucast st) = nat y * unat st"
    using l by (subst unat_mult_lem [THEN iffD1]) (simp_all add: y)
  then show ?thesis
    using l by (simp add: pixel_index_def g unat_add_small x)
qed

lemma array_index_inj:
  assumes "array_valid g x y" "array_valid g x' y'" "pixel_index (fst g) y x = pixel_index (fst g) y' x'"
  shows "x = x' \<and> y = y'"
  using assms row_major_inj [of "nat x" "unat (fst g)" "nat x'" "nat y" "nat y'"]
  by (simp add: pixel_index_nat) (auto simp: array_valid_def nat_less_iff eq_nat_nat_iff)

lemma array_index_less: "array_valid g x y \<Longrightarrow> pixel_index (fst g) y x < array_extent g"
  by (auto simp: pixel_index_nat array_extent_def array_valid_def nat_less_iff intro!: row_major_less)

interpretation px: raster array_valid array_put array_get "\<lambda>_ v. v" array_extent
proof
  show "array_get g x' y' (array_put g x y v m) = (if x' = x \<and> y' = y then v else array_get g x' y' m)"
    if "array_valid g x y" "array_valid g x' y'" for g x y x' y' v m
    using array_index_inj [OF that] by (auto simp: array_get_def array_put_def)
  show "array_put g x y v m k = m k" if "array_valid g x y" "array_extent g \<le> k" for g x y v m k
    using array_index_less [OF that(1)] that(2) by (auto simp: array_put_def)
qed

end
