(* ===== verification/Graphics.thy ===== *)
theory Graphics
  imports Raster
begin

text \<open>
  The software renderer of \<open>libs/graphics/graphics.c\<close>: clipped drawing of rectangles, gradients, lines, rounded
  shapes, images, text and cursors on a 32-bit ARGB surface that accumulates one damage rectangle. The pixel
  array is a function of the index, so that a store outside the surface would be visible. The theorems say
  that every operation changes only pixels inside the clip rectangle, that every changed pixel lies in the
  damage rectangle afterwards, and that the line loop ends.
\<close>

section \<open>Surfaces, clipping and damage\<close>

type_synonym graphics_rect = rect

definition rect4 :: "int \<Rightarrow> int \<Rightarrow> int \<Rightarrow> int \<Rightarrow> rect" where
  "rect4 x y w h = \<lparr>r_x = x, r_y = y, r_width = w, r_height = h\<rparr>"

lemma rect4_simps [simp]:
  "r_x (rect4 x y w h) = x" "r_y (rect4 x y w h) = y" "r_width (rect4 x y w h) = w" "r_height (rect4 x y w h) = h"
  by (simp_all add: rect4_def)

record graphics_surface =
  g_pixels :: "nat \<Rightarrow> u32"
  g_width :: u32
  g_height :: u32
  g_stride :: u32
  g_clip :: rect
  g_damage :: rect
  g_dirty :: bool

text \<open>\<open>(int32_t)\<close> of an unsigned value, and \<open>(uint32_t)\<close> of a signed one.\<close>

definition s32 :: "u32 \<Rightarrow> int" where
  "s32 w = i32 (uint w)"

definition u32_of :: "int \<Rightarrow> u32" where
  "u32_of v = of_int v"

text \<open>\<open>intersect\<close>: the sums are computed in 64 bits, where they cannot overflow.\<close>

definition intersect :: "rect \<Rightarrow> rect \<Rightarrow> rect option" where
  "intersect a b =
    (let left = (if r_x a > r_x b then r_x a else r_x b);
         top = (if r_y a > r_y b then r_y a else r_y b);
         ar = r_x a + r_width a; br = r_x b + r_width b;
         ab = r_y a + r_height a; bb = r_y b + r_height b;
         right = (if ar < br then ar else br);
         bottom = (if ab < bb then ab else bb)
     in if r_width a \<le> 0 \<or> r_height a \<le> 0 \<or> r_width b \<le> 0 \<or> r_height b \<le> 0 \<or> right \<le> left \<or> bottom \<le> top then None
        else Some (rect4 (i32 left) (i32 top) (i32 (right - left)) (i32 (bottom - top))))"

definition bounds :: "graphics_surface \<Rightarrow> rect" where
  "bounds s = rect4 0 0 (s32 (g_width s)) (s32 (g_height s))"

definition rect_union :: "rect \<Rightarrow> rect \<Rightarrow> rect" where
  "rect_union r d =
    (let left = (if r_x r < r_x d then r_x r else r_x d);
         top = (if r_y r < r_y d then r_y r else r_y d);
         right0 = i32 (r_x r + r_width r); right1 = i32 (r_x d + r_width d);
         bottom0 = i32 (r_y r + r_height r); bottom1 = i32 (r_y d + r_height d);
         right = (if right0 > right1 then right0 else right1);
         bottom = (if bottom0 > bottom1 then bottom0 else bottom1)
     in rect4 left top (i32 (right - left)) (i32 (bottom - top)))"

definition damage :: "rect \<Rightarrow> graphics_surface \<Rightarrow> graphics_surface" where
  "damage r s = (case intersect r (bounds s) of
      None \<Rightarrow> s
    | Some c \<Rightarrow>
        if \<not> g_dirty s then s\<lparr>g_damage := c, g_dirty := True\<rparr>
        else s\<lparr>g_damage := rect_union c (g_damage s)\<rparr>)"

definition blend :: "u32 \<Rightarrow> u32 \<Rightarrow> u32" where
  "blend dst src =
    (let a = drop_bit 24 src in
     if a = 255 then src
     else if a = 0 then dst
     else
       let inv = 255 - a;
           r = push_bit 16 (((drop_bit 16 src AND 255) * a + (drop_bit 16 dst AND 255) * inv + 127) div 255);
           g = push_bit 8 (((drop_bit 8 src AND 255) * a + (drop_bit 8 dst AND 255) * inv + 127) div 255);
           b = ((src AND 255) * a + (dst AND 255) * inv + 127) div 255
       in 0xFF000000 OR r OR g OR b)"

definition graphics_surface_init :: "(nat \<Rightarrow> u32) \<Rightarrow> u32 \<Rightarrow> u32 \<Rightarrow> u32 \<Rightarrow> graphics_surface option" where
  "graphics_surface_init pixels width height stride =
    (if width = 0 \<or> height = 0 \<or> stride < width \<or> width > 32767 \<or> height > 32767 then None
     else Some \<lparr>g_pixels = pixels, g_width = width, g_height = height, g_stride = stride,
       g_clip = rect4 0 0 (s32 width) (s32 height), g_damage = rect4 0 0 0 0, g_dirty = False\<rparr>)"

definition graphics_reset_clip :: "graphics_surface \<Rightarrow> graphics_surface" where
  "graphics_reset_clip s = s\<lparr>g_clip := bounds s\<rparr>"

definition graphics_set_clip :: "rect \<Rightarrow> graphics_surface \<Rightarrow> bool \<times> graphics_surface" where
  "graphics_set_clip clip s = (case intersect clip (bounds s) of
      None \<Rightarrow> (False, s\<lparr>g_clip := rect4 0 0 0 0\<rparr>)
    | Some c \<Rightarrow> (True, s\<lparr>g_clip := c\<rparr>))"

definition graphics_reset_damage :: "graphics_surface \<Rightarrow> graphics_surface" where
  "graphics_reset_damage s = s\<lparr>g_dirty := False\<rparr>"

definition graphics_get_damage :: "graphics_surface \<Rightarrow> rect option" where
  "graphics_get_damage s = (if \<not> g_dirty s then None else Some (g_damage s))"

section \<open>Drawing\<close>

text \<open>\<open>*p = blend(*p, argb)\<close> at the address of pixel \<open>(x, y)\<close>.\<close>

definition blend_at :: "u32 \<Rightarrow> int \<Rightarrow> int \<Rightarrow> u32 \<Rightarrow> (nat \<Rightarrow> u32) \<Rightarrow> (nat \<Rightarrow> u32)" where
  "blend_at stride x y argb m =
    (let p = pixel_index stride y x in m(p := blend (m p) argb))"

definition in_clip :: "graphics_surface \<Rightarrow> int \<Rightarrow> int \<Rightarrow> bool" where
  "in_clip s x y \<longleftrightarrow> \<not> (x < r_x (g_clip s) \<or> y < r_y (g_clip s) \<or>
     x \<ge> i32 (r_x (g_clip s) + r_width (g_clip s)) \<or> y \<ge> i32 (r_y (g_clip s) + r_height (g_clip s)))"

definition graphics_pixel :: "int \<Rightarrow> int \<Rightarrow> u32 \<Rightarrow> graphics_surface \<Rightarrow> graphics_surface" where
  "graphics_pixel x y argb s =
    (if \<not> in_clip s x y then s
     else damage (rect4 x y 1 1) (s\<lparr>g_pixels := blend_at (g_stride s) x y argb (g_pixels s)\<rparr>))"

text \<open>One row of \<open>graphics_fill_rect\<close>, through the pointer \<open>row\<close> to its first pixel.\<close>

definition fill_row :: "nat \<Rightarrow> int \<Rightarrow> u32 \<Rightarrow> (nat \<Rightarrow> u32) \<Rightarrow> (nat \<Rightarrow> u32)" where
  "fill_row row width argb =
    (if drop_bit 24 argb = 255 then for_columns 0 width (\<lambda>x m. m(row + nat x := argb))
     else for_columns 0 width (\<lambda>x m. m(row + nat x := blend (m (row + nat x)) argb)))"

definition graphics_fill_rect :: "rect \<Rightarrow> u32 \<Rightarrow> graphics_surface \<Rightarrow> graphics_surface" where
  "graphics_fill_rect r argb s = (case intersect r (g_clip s) of
      None \<Rightarrow> s
    | Some c \<Rightarrow> damage c (s\<lparr>g_pixels :=
        fold (\<lambda>y. fill_row (pixel_index (g_stride s) y (r_x c)) (r_width c) argb)
          [r_y c .. i32 (r_y c + r_height c) - 1] (g_pixels s)\<rparr>))"

definition graphics_clear :: "u32 \<Rightarrow> graphics_surface \<Rightarrow> graphics_surface" where
  "graphics_clear argb s =
    (let old = g_clip s; s = graphics_reset_clip s; s = graphics_fill_rect (g_clip s) argb s
     in s\<lparr>g_clip := old\<rparr>)"

definition lerp :: "u32 \<Rightarrow> u32 \<Rightarrow> u32 \<Rightarrow> u32 \<Rightarrow> u32" where
  "lerp a b n d =
    (let inv = d - n;
         r = push_bit 16 (((drop_bit 16 a AND 255) * inv + (drop_bit 16 b AND 255) * n) div d);
         g = push_bit 8 (((drop_bit 8 a AND 255) * inv + (drop_bit 8 b AND 255) * n) div d);
         blue = ((a AND 255) * inv + (b AND 255) * n) div d;
         alpha = push_bit 24 ((drop_bit 24 a * inv + drop_bit 24 b * n) div d)
     in alpha OR r OR g OR blue)"

definition graphics_gradient_vertical :: "rect \<Rightarrow> u32 \<Rightarrow> u32 \<Rightarrow> graphics_surface \<Rightarrow> graphics_surface" where
  "graphics_gradient_vertical r c0 c1 s =
    (if r_height r \<le> 0 then s
     else
       let denominator = (if r_height r > 1 then u32_of (r_height r) - 1 else 1)
       in fold (\<lambda>y. graphics_fill_rect (rect4 (r_x r) (i32 (r_y r + y)) (r_width r) 1)
                 (lerp c0 c1 (u32_of y) denominator)) [0 .. r_height r - 1] s)"

text \<open>
  The loop of \<open>graphics_line\<close> and of \<open>framebuffer_line\<close> (Bresenham's algorithm), with the plotting of one point as
  a parameter. It does not return when the end point is never met; \<open>None\<close> is that outcome.
\<close>

partial_function (option) line_loop ::
  "(int \<Rightarrow> int \<Rightarrow> 'm \<Rightarrow> 'm) \<Rightarrow> int \<Rightarrow> int \<Rightarrow> int \<Rightarrow> int \<Rightarrow> int \<Rightarrow> int \<Rightarrow> int \<Rightarrow> int \<Rightarrow> int \<Rightarrow> 'm \<Rightarrow> 'm option"
where
  "line_loop plot x1 y1 dx dy sx sy err x0 y0 m =
    (let m = plot x0 y0 m in
     if x0 = x1 \<and> y0 = y1 then Some m
     else
       let twice = i32 (err * 2);
           stepx = (twice \<ge> dy);
           err1 = (if stepx then i32 (err + dy) else err);
           x2 = (if stepx then i32 (x0 + sx) else x0);
           stepy = (twice \<le> dx);
           err2 = (if stepy then i32 (err1 + dx) else err1);
           y2 = (if stepy then i32 (y0 + sy) else y0)
       in line_loop plot x1 y1 dx dy sx sy err2 x2 y2 m)"

definition line_from :: "(int \<Rightarrow> int \<Rightarrow> 'm \<Rightarrow> 'm) \<Rightarrow> int \<Rightarrow> int \<Rightarrow> int \<Rightarrow> int \<Rightarrow> 'm \<Rightarrow> 'm option" where
  "line_from plot x0 y0 x1 y1 m =
    (let dx = (if x1 > x0 then i32 (x1 - x0) else i32 (x0 - x1));
         sx = (if x0 < x1 then 1 else - 1);
         ay = (if y1 > y0 then i32 (y1 - y0) else i32 (y0 - y1));
         dy = i32 (- ay);
         sy = (if y0 < y1 then 1 else - 1)
     in line_loop plot x1 y1 dx dy sx sy (i32 (dx + dy)) x0 y0 m)"

definition graphics_line :: "int \<Rightarrow> int \<Rightarrow> int \<Rightarrow> int \<Rightarrow> u32 \<Rightarrow> graphics_surface \<Rightarrow> graphics_surface option" where
  "graphics_line x0 y0 x1 y1 argb s =
    map_option (\<lambda>m.
      let left = (if x0 < x1 then x0 else x1); top = (if y0 < y1 then y0 else y1);
          right = (if x0 > x1 then x0 else x1); bottom = (if y0 > y1 then y0 else y1)
      in damage (rect4 left top (i32 (right - left + 1)) (i32 (bottom - top + 1))) (s\<lparr>g_pixels := m\<rparr>))
    (line_from (\<lambda>x y m. if in_clip s x y then blend_at (g_stride s) x y argb m else m) x0 y0 x1 y1 (g_pixels s))"

definition rounded_contains :: "rect \<Rightarrow> u32 \<Rightarrow> int \<Rightarrow> int \<Rightarrow> bool" where
  "rounded_contains r radius x y =
    (let limit = u32_of (if r_width r < r_height r then r_width r else r_height r) div 2;
         radius = (if radius > limit then limit else radius)
     in if radius = 0 then True
        else
          let rad = s32 radius;
              cx = (if x < i32 (r_x r + rad) then i32 (i32 (r_x r + rad) - 1)
                    else if x \<ge> i32 (i32 (r_x r + r_width r) - rad) then i32 (i32 (r_x r + r_width r) - rad) else x);
              cy = (if y < i32 (r_y r + rad) then i32 (i32 (r_y r + rad) - 1)
                    else if y \<ge> i32 (i32 (r_y r + r_height r) - rad) then i32 (i32 (r_y r + r_height r) - rad) else y);
              dx = i32 (x - cx); dy = i32 (y - cy)
          in i32 (i32 (dx * dx) + i32 (dy * dy)) \<le> s32 (radius * radius))"

definition graphics_rounded_rect :: "rect \<Rightarrow> u32 \<Rightarrow> u32 \<Rightarrow> graphics_surface \<Rightarrow> graphics_surface" where
  "graphics_rounded_rect r radius argb s =
    (if r_width r \<le> 0 \<or> r_height r \<le> 0 then s
     else case intersect r (g_clip s) of
       None \<Rightarrow> s
     | Some c \<Rightarrow> damage c (s\<lparr>g_pixels :=
         for_rect c (\<lambda>x y m. if rounded_contains r radius x y then blend_at (g_stride s) x y argb m else m) (g_pixels s)\<rparr>))"

definition graphics_rounded_border :: "rect \<Rightarrow> u32 \<Rightarrow> u32 \<Rightarrow> u32 \<Rightarrow> u32 \<Rightarrow> graphics_surface \<Rightarrow> graphics_surface" where
  "graphics_rounded_border r radius thickness border fill s =
    (let s = graphics_rounded_rect r radius border s in
     if thickness = 0 \<or> thickness * 2 \<ge> u32_of (r_width r) \<or> thickness * 2 \<ge> u32_of (r_height r) then s
     else
       let inner = rect4 (i32 (r_x r + s32 thickness)) (i32 (r_y r + s32 thickness))
             (i32 (r_width r - s32 (2 * thickness))) (i32 (r_height r - s32 (2 * thickness)))
       in graphics_rounded_rect inner (if radius > thickness then radius - thickness else 0) fill s)"

definition graphics_shadow :: "rect \<Rightarrow> u32 \<Rightarrow> u32 \<Rightarrow> u32 \<Rightarrow> graphics_surface \<Rightarrow> graphics_surface" where
  "graphics_shadow r radius spread argb s =
    (let spread = (if spread > 32 then 32 else spread);
         base_alpha = drop_bit 24 argb;
         layers = (if spread < 3 then spread else 3)
     in fold (\<lambda>k s.
          let layer = of_nat k :: u32;
              i = spread - (spread * layer div layers);
              alpha = base_alpha * (layer + 1) div (layers * 2);
              expanded = rect4 (i32 (r_x r - s32 i)) (i32 (r_y r - s32 i))
                (i32 (r_width r + s32 (2 * i))) (i32 (r_height r + s32 (2 * i)))
          in graphics_rounded_rect expanded (radius + i) ((argb AND 0x00FFFFFF) OR push_bit 24 alpha) s)
        [0 ..< unat layers] s)"

definition graphics_blit :: "int \<Rightarrow> int \<Rightarrow> (nat \<Rightarrow> u32) \<Rightarrow> u32 \<Rightarrow> u32 \<Rightarrow> u32 \<Rightarrow> graphics_surface \<Rightarrow> graphics_surface" where
  "graphics_blit x y pixels width height source_stride s =
    (if width = 0 \<or> height = 0 \<or> source_stride < width then s
     else case intersect (rect4 x y (s32 width) (s32 height)) (g_clip s) of
       None \<Rightarrow> s
     | Some c \<Rightarrow> damage c (s\<lparr>g_pixels :=
         for_rect c (\<lambda>px py. blend_at (g_stride s) px py (pixels (pixel_index source_stride (i32 (py - y)) (i32 (px - x)))))
           (g_pixels s)\<rparr>))"

text \<open>The 5 by 7 font: one row of a glyph is the low five bits of a byte, the leftmost column the highest.\<close>

definition gfx_font :: "(char \<times> u8 list) list" where
  "gfx_font = [
    (CHR '' '', [0,0,0,0,0,0,0]), (CHR ''-'', [0,0,0,31,0,0,0]), (CHR ''.'', [0,0,0,0,0,12,12]), (CHR '':'', [0,12,12,0,12,12,0]),
    (CHR ''0'', [14,17,19,21,25,17,14]), (CHR ''1'', [4,12,4,4,4,4,14]), (CHR ''2'', [14,17,1,2,4,8,31]), (CHR ''3'', [30,1,1,14,1,1,30]),
    (CHR ''4'', [2,6,10,18,31,2,2]), (CHR ''5'', [31,16,16,30,1,1,30]), (CHR ''6'', [14,16,16,30,17,17,14]), (CHR ''7'', [31,1,2,4,8,8,8]),
    (CHR ''8'', [14,17,17,14,17,17,14]), (CHR ''9'', [14,17,17,15,1,1,14]), (CHR ''A'', [14,17,17,31,17,17,17]), (CHR ''B'', [30,17,17,30,17,17,30]),
    (CHR ''C'', [14,17,16,16,16,17,14]), (CHR ''D'', [28,18,17,17,17,18,28]), (CHR ''E'', [31,16,16,30,16,16,31]), (CHR ''F'', [31,16,16,30,16,16,16]),
    (CHR ''G'', [14,17,16,23,17,17,15]), (CHR ''H'', [17,17,17,31,17,17,17]), (CHR ''I'', [14,4,4,4,4,4,14]), (CHR ''J'', [7,2,2,2,18,18,12]),
    (CHR ''K'', [17,18,20,24,20,18,17]), (CHR ''L'', [16,16,16,16,16,16,31]), (CHR ''M'', [17,27,21,21,17,17,17]), (CHR ''N'', [17,25,21,19,17,17,17]),
    (CHR ''O'', [14,17,17,17,17,17,14]), (CHR ''P'', [30,17,17,30,16,16,16]), (CHR ''Q'', [14,17,17,17,21,18,13]), (CHR ''R'', [30,17,17,30,20,18,17]),
    (CHR ''S'', [15,16,16,14,1,1,30]), (CHR ''T'', [31,4,4,4,4,4,4]), (CHR ''U'', [17,17,17,17,17,17,14]), (CHR ''V'', [17,17,17,17,17,10,4]),
    (CHR ''W'', [17,17,17,21,21,21,10]), (CHR ''X'', [17,17,10,4,10,17,17]), (CHR ''Y'', [17,17,10,4,4,4,4]), (CHR ''Z'', [31,1,2,4,8,16,31])]"

text \<open>Lower-case letters share the glyphs of the upper-case ones; a character without a glyph is drawn as the first.\<close>

definition upcase :: "char \<Rightarrow> char" where
  "upcase c = (if 97 \<le> (of_char c :: nat) \<and> (of_char c :: nat) \<le> 122 then char_of ((of_char c :: nat) - 32) else c)"

definition glyph_lookup :: "(char \<times> u8 list) list \<Rightarrow> char \<Rightarrow> u8 list" where
  "glyph_lookup font c = (case map_of font (upcase c) of Some rows \<Rightarrow> rows | None \<Rightarrow> snd (font ! 0))"

definition rows_for :: "char \<Rightarrow> u8 list" where
  "rows_for c = glyph_lookup gfx_font c"

text \<open>The set dots of a glyph with \<open>w\<close> columns and \<open>h\<close> rows, in the order of the loops over \<open>gy\<close> and \<open>gx\<close>.\<close>

definition glyph_dots :: "nat \<Rightarrow> nat \<Rightarrow> u8 list \<Rightarrow> (nat \<times> nat) list" where
  "glyph_dots w h rows =
    concat (map (\<lambda>gy. map (\<lambda>gx. (gx, gy)) (filter (\<lambda>gx. rows ! gy AND push_bit (w - 1 - gx) 1 \<noteq> 0) [0 ..< w])) [0 ..< h])"

definition dot_rect :: "int \<Rightarrow> int \<Rightarrow> u32 \<Rightarrow> nat \<times> nat \<Rightarrow> rect" where
  "dot_rect cursor y scale d =
    rect4 (i32 (cursor + s32 (of_nat (fst d) * scale))) (i32 (y + s32 (of_nat (snd d) * scale))) (s32 scale) (s32 scale)"

fun graphics_text_loop :: "int \<Rightarrow> int \<Rightarrow> string \<Rightarrow> u32 \<Rightarrow> u32 \<Rightarrow> graphics_surface \<Rightarrow> graphics_surface" where
  "graphics_text_loop cursor y [] scale argb s = s"
| "graphics_text_loop cursor y (c # cs) scale argb s =
    graphics_text_loop (i32 (cursor + s32 (6 * scale))) y cs scale argb
      (fold (\<lambda>d. graphics_fill_rect (dot_rect cursor y scale d) argb) (glyph_dots 5 7 (rows_for c)) s)"

definition graphics_text :: "int \<Rightarrow> int \<Rightarrow> string \<Rightarrow> u32 \<Rightarrow> u32 \<Rightarrow> graphics_surface \<Rightarrow> graphics_surface" where
  "graphics_text x y txt scale argb s =
    (if scale = 0 \<or> scale > 8 then s else graphics_text_loop x y txt scale argb s)"

text \<open>The procedural cursors of \<open>graphics_cursor\<close>, one definition per shape.\<close>

definition cursor_arrow_row :: "int \<Rightarrow> int \<Rightarrow> int \<Rightarrow> graphics_surface \<Rightarrow> graphics_surface" where
  "cursor_arrow_row x y row s =
    (let width = row div 2 + 1;
         s = graphics_fill_rect (rect4 (i32 (x + 2)) (i32 (i32 (y + row) + 2)) width 1) 0x78000000 s;
         s = graphics_pixel x (i32 (y + row)) 0xFF111827 s;
         s = graphics_pixel (i32 (i32 (x + width) - 1)) (i32 (y + row)) 0xFF111827 s
     in if width > 2 then graphics_fill_rect (rect4 (i32 (x + 1)) (i32 (y + row)) (width - 2) 1) 0xFFF8FAFC s else s)"

definition cursor_arrow :: "int \<Rightarrow> int \<Rightarrow> graphics_surface \<Rightarrow> graphics_surface" where
  "cursor_arrow x y s =
    graphics_rounded_border (rect4 (i32 (x + 4)) (i32 (y + 10)) 5 9) 1 1 0xFF111827 0xFFF8FAFC
      (fold (cursor_arrow_row x y) [0 .. 13] s)"

definition cursor_hand :: "int \<Rightarrow> int \<Rightarrow> graphics_surface \<Rightarrow> graphics_surface" where
  "cursor_hand x y s =
    (let s = graphics_shadow (rect4 (i32 (x + 3)) (i32 (y + 6)) 11 11) 3 2 0x78000000 s;
         s = graphics_rounded_border (rect4 (i32 (x + 3)) (i32 (y + 6)) 11 11) 3 1 0xFF111827 0xFFF8FAFC s
     in fold (\<lambda>finger. graphics_rounded_border
          (rect4 (i32 (i32 (x + 3) + finger * 3)) (i32 (i32 (y + 1) + (if finger \<noteq> 0 then 1 else 0))) 3 9) 1 1 0xFF111827 0xFFF8FAFC)
        [0 .. 3] s)"

definition cursor_text :: "int \<Rightarrow> int \<Rightarrow> graphics_surface \<Rightarrow> graphics_surface" where
  "cursor_text x y s =
    (let s = graphics_fill_rect (rect4 (i32 (x + 6)) (i32 (y + 1)) 3 18) 0x78000000 s;
         s = graphics_fill_rect (rect4 (i32 (x + 4)) y 7 2) 0xFF111827 s;
         s = graphics_fill_rect (rect4 (i32 (x + 7)) (i32 (y + 1)) 1 18) 0xFFF8FAFC s
     in graphics_fill_rect (rect4 (i32 (x + 4)) (i32 (y + 18)) 7 2) 0xFF111827 s)"

definition cursor_resize :: "int \<Rightarrow> int \<Rightarrow> graphics_surface \<Rightarrow> graphics_surface option" where
  "cursor_resize x y s =
    fold (\<lambda>(ax, ay, bx, by, colour) r. Option.bind r (graphics_line (i32 (x + ax)) (i32 (y + ay)) (i32 (x + bx)) (i32 (y + by)) colour))
      [(2, 16, 15, 3, 0xFF111827), (3, 16, 16, 3, 0xFFF8FAFC), (2, 16, 2, 10, 0xFF111827),
       (2, 16, 8, 16, 0xFF111827), (16, 3, 10, 3, 0xFF111827), (16, 3, 16, 9, 0xFF111827)] (Some s)"

text \<open>\<open>enum graphics_cursor_icon\<close> by its value: 0 the arrow, 1 the hand, 2 the text cursor.\<close>

definition graphics_cursor :: "int \<Rightarrow> int \<Rightarrow> nat \<Rightarrow> graphics_surface \<Rightarrow> graphics_surface option" where
  "graphics_cursor x y icon s =
    (if icon = 0 then Some (cursor_arrow x y s)
     else if icon = 1 then Some (cursor_hand x y s)
     else if icon = 2 then Some (cursor_text x y s)
     else cursor_resize x y s)"

section \<open>Every store is clipped and damaged\<close>

definition rect_inside :: "rect \<Rightarrow> int \<Rightarrow> int \<Rightarrow> bool" where
  "rect_inside r w h \<longleftrightarrow> 0 \<le> r_x r \<and> 0 \<le> r_y r \<and> 0 \<le> r_width r \<and> 0 \<le> r_height r \<and>
     r_x r + r_width r \<le> w \<and> r_y r + r_height r \<le> h"

definition gfx_ok :: "graphics_surface \<Rightarrow> bool" where
  "gfx_ok s \<longleftrightarrow> uint (g_width s) \<le> 32767 \<and> uint (g_height s) \<le> 32767 \<and> g_width s \<le> g_stride s \<and>
     rect_inside (g_clip s) (uint (g_width s)) (uint (g_height s)) \<and>
     (g_dirty s \<longrightarrow> rect_inside (g_damage s) (uint (g_width s)) (uint (g_height s)))"

definition painted :: "graphics_surface \<Rightarrow> graphics_surface \<Rightarrow> bool" where
  "painted s s' \<longleftrightarrow> gfx_ok s' \<and> g_width s' = g_width s \<and> g_height s' = g_height s \<and> g_stride s' = g_stride s \<and> g_clip s' = g_clip s \<and>
     (g_dirty s \<longrightarrow> g_dirty s' \<and> (\<forall>x y. in_rect (g_damage s) x y \<longrightarrow> in_rect (g_damage s') x y)) \<and>
     (\<forall>k. g_pixels s' k \<noteq> g_pixels s k \<longrightarrow>
        (\<exists>x y. in_rect (g_clip s) x y \<and> k = pixel_index (g_stride s) y x \<and> g_dirty s' \<and> in_rect (g_damage s') x y))"

named_theorems paints "every drawing operation changes only clipped and damaged pixels"

lemma painted_refl: "gfx_ok s \<Longrightarrow> painted s s"
  by (simp add: painted_def)

lemma painted_trans: "painted s t \<Longrightarrow> painted t u \<Longrightarrow> painted s u"
  unfolding painted_def by (safe; (metis | blast))

lemma painted_ok: "painted s s' \<Longrightarrow> gfx_ok s'"
  by (simp add: painted_def)

lemma painted_then: "painted s t \<Longrightarrow> (gfx_ok t \<Longrightarrow> painted t u) \<Longrightarrow> painted s u"
  using painted_trans painted_ok by blast

lemma painted_fold:
  assumes "\<And>x t. x \<in> set xs \<Longrightarrow> gfx_ok t \<Longrightarrow> painted t (f x t)" "gfx_ok s"
  shows "painted s (fold f xs s)"
  using assms
proof (induction xs arbitrary: s)
  case (Cons x xs)
  then show ?case using painted_trans painted_ok by (metis fold_simps(2) list.set_intros)
qed (simp add: painted_refl)

lemma s32_small: "uint w \<le> 32767 \<Longrightarrow> s32 w = uint w"
  unfolding s32_def by (rule i32_id; use uint_ge_0 [of w] in linarith)

lemma in_rect4: "in_rect (rect4 x y w h) a b \<longleftrightarrow> x \<le> a \<and> a < x + w \<and> y \<le> b \<and> b < y + h"
  by (simp add: in_rect_def)

lemma rect_inside_fits: "rect_inside r w h \<Longrightarrow> w \<le> 32767 \<Longrightarrow> h \<le> 32767 \<Longrightarrow> rect_fits r"
  by (auto simp: rect_inside_def rect_fits_def is_i32_def)

lemma intersect_max_min:
  "intersect a b =
    (let l = max (r_x a) (r_x b); t = max (r_y a) (r_y b);
         r = min (r_x a + r_width a) (r_x b + r_width b); u = min (r_y a + r_height a) (r_y b + r_height b)
     in if 0 < r_width a \<and> 0 < r_height a \<and> 0 < r_width b \<and> 0 < r_height b \<and> l < r \<and> t < u
        then Some (rect4 (i32 l) (i32 t) (i32 (r - l)) (i32 (u - t))) else None)"
proof -
  have "(if q < p then p else q) = max p q" "(if p < q then p else q) = min p q" for p q :: int by auto
  then show ?thesis by (auto simp: intersect_def Let_def not_less)
qed

lemma intersect_Some_eq:
  assumes "intersect a b = Some c" "rect_inside b w h" "w \<le> 32767" "h \<le> 32767"
  defines "l \<equiv> max (r_x a) (r_x b)" and "t \<equiv> max (r_y a) (r_y b)"
    and "r \<equiv> min (r_x a + r_width a) (r_x b + r_width b)" and "u \<equiv> min (r_y a + r_height a) (r_y b + r_height b)"
  shows "c = rect4 l t (r - l) (u - t)" "0 \<le> l" "l < r" "r \<le> w" "0 \<le> t" "t < u" "u \<le> h"
proof -
  have c: "c = rect4 (i32 l) (i32 t) (i32 (r - l)) (i32 (u - t))" and lt: "l < r" "t < u"
    using assms(1) by (auto simp: intersect_max_min Let_def l_def t_def r_def u_def split: if_splits)
  have b: "0 \<le> l" "r \<le> w" "0 \<le> t" "u \<le> h"
    using assms(2) by (auto simp: rect_inside_def l_def t_def r_def u_def)
  with lt assms(3,4) have "i32 l = l" "i32 t = t" "i32 (r - l) = r - l" "i32 (u - t) = u - t"
    by (auto intro!: i32_id)
  with c lt b show "c = rect4 l t (r - l) (u - t)" "0 \<le> l" "l < r" "r \<le> w" "0 \<le> t" "t < u" "u \<le> h" by simp_all
qed

lemma intersect_Some:
  assumes "intersect a b = Some c" "rect_inside b w h" "w \<le> 32767" "h \<le> 32767"
  shows "in_rect c x y \<longleftrightarrow> in_rect a x y \<and> in_rect b x y" "rect_inside c w h" "rect_fits c"
proof -
  note e = intersect_Some_eq [OF assms]
  show "in_rect c x y \<longleftrightarrow> in_rect a x y \<and> in_rect b x y"
    unfolding e(1) in_rect4 in_rect_def by auto
  show "rect_inside c w h" using e(2-) by (simp add: e(1) rect_inside_def)
  then show "rect_fits c" using assms(3,4) by (rule rect_inside_fits)
qed

lemma intersect_None:
  assumes "intersect a b = None"
  shows "\<not> (in_rect a x y \<and> in_rect b x y)"
  using assms by (auto simp: intersect_def Let_def in_rect_def split: if_splits)

lemma rect_union_covers:
  assumes "rect_inside r w h" "rect_inside d w h" "w \<le> 32767" "h \<le> 32767"
  shows "rect_inside (rect_union r d) w h" "in_rect r x y \<or> in_rect d x y \<Longrightarrow> in_rect (rect_union r d) x y"
  using assms by (auto simp: rect_union_def Let_def rect_inside_def in_rect_def i32_id)

lemma bounds_ok: "gfx_ok s \<Longrightarrow> bounds s = rect4 0 0 (uint (g_width s)) (uint (g_height s))"
  by (simp add: bounds_def gfx_ok_def s32_small)

lemma bounds_inside: "gfx_ok s \<Longrightarrow> rect_inside (bounds s) (uint (g_width s)) (uint (g_height s))"
  by (simp add: bounds_ok rect_inside_def)

lemma clip_in_bounds: "gfx_ok s \<Longrightarrow> in_rect (g_clip s) x y \<Longrightarrow> in_rect (bounds s) x y"
  by (auto simp: bounds_ok gfx_ok_def rect_inside_def in_rect_def)

lemma damage_frame [simp]:
  "g_pixels (damage r s) = g_pixels s" "g_width (damage r s) = g_width s" "g_height (damage r s) = g_height s"
  "g_stride (damage r s) = g_stride s" "g_clip (damage r s) = g_clip s"
  by (simp_all add: damage_def split: option.split)

lemma damage_covers:
  assumes "gfx_ok s"
  shows "gfx_ok (damage r s)"
    and "g_dirty s \<Longrightarrow> g_dirty (damage r s) \<and> (\<forall>x y. in_rect (g_damage s) x y \<longrightarrow> in_rect (g_damage (damage r s)) x y)"
    and "in_rect r x y \<Longrightarrow> in_rect (bounds s) x y \<Longrightarrow> g_dirty (damage r s) \<and> in_rect (g_damage (damage r s)) x y"
proof -
  have w: "uint (g_width s) \<le> 32767" "uint (g_height s) \<le> 32767" using assms by (auto simp: gfx_ok_def)
  note i = intersect_Some [OF _ bounds_inside [OF assms] w]
  show "gfx_ok (damage r s)"
    using assms i(2) rect_union_covers(1) [OF i(2) _ w]
    by (auto simp: damage_def gfx_ok_def split: option.split)
  show "g_dirty s \<Longrightarrow> g_dirty (damage r s) \<and> (\<forall>x y. in_rect (g_damage s) x y \<longrightarrow> in_rect (g_damage (damage r s)) x y)"
    using assms rect_union_covers(2) [OF i(2) _ w]
    by (auto simp: damage_def gfx_ok_def split: option.split)
  show "in_rect r x y \<Longrightarrow> in_rect (bounds s) x y \<Longrightarrow> g_dirty (damage r s) \<and> in_rect (g_damage (damage r s)) x y"
    using assms i(1) intersect_None rect_union_covers(2) [OF i(2) _ w]
    by (fastforce simp: damage_def gfx_ok_def split: option.split)
qed

lemma painted_step:
  assumes "gfx_ok s"
    and "\<And>k. m k \<noteq> g_pixels s k \<Longrightarrow> \<exists>x y. in_rect (g_clip s) x y \<and> in_rect r x y \<and> k = pixel_index (g_stride s) y x"
  shows "painted s (damage r (s\<lparr>g_pixels := m\<rparr>))"
proof -
  let ?t = "s\<lparr>g_pixels := m\<rparr>"
  have t: "gfx_ok ?t" "bounds ?t = bounds s" using assms(1) by (auto simp: gfx_ok_def bounds_def)
  note d = damage_covers [OF t(1), of r]
  have "\<exists>x y. in_rect (g_clip s) x y \<and> k = pixel_index (g_stride s) y x \<and> g_dirty (damage r ?t) \<and> in_rect (g_damage (damage r ?t)) x y"
    if k: "m k \<noteq> g_pixels s k" for k
  proof -
    obtain x y where x: "in_rect (g_clip s) x y" "in_rect r x y" "k = pixel_index (g_stride s) y x"
      using assms(2) [OF k] by blast
    with d(3) [OF x(2)] clip_in_bounds [OF assms(1)] t(2) show ?thesis by metis
  qed
  with d(1,2) show ?thesis by (simp add: painted_def)
qed

text \<open>The loops store only at the addresses of the pixels they run over.\<close>

lemma fold_changes:
  assumes "\<And>p m. p \<in> set ps \<Longrightarrow> f p m k \<noteq> m k \<Longrightarrow> k = i p"
  shows "fold f ps m k \<noteq> m k \<Longrightarrow> \<exists>p \<in> set ps. k = i p"
  using assms
proof (induction ps arbitrary: m)
  case (Cons p ps)
  show ?case
  proof (cases "f p m k = m k")
    case True
    then have "fold f ps (f p m) k \<noteq> f p m k" using Cons.prems(1) by simp
    from Cons.IH [OF this] Cons.prems(2) show ?thesis by auto
  qed (use Cons.prems(2) in auto)
qed simp

lemma for_rect_changes:
  assumes "rect_fits c" "\<And>x y m. f x y m k \<noteq> m k \<Longrightarrow> k = pixel_index st y x" "for_rect c f m k \<noteq> m k"
  shows "\<exists>x y. in_rect c x y \<and> k = pixel_index st y x"
proof -
  have "fold (\<lambda>(x, y). f x y) (rect_points c) m k \<noteq> m k" using assms(1,3) by (simp add: for_rect_points)
  moreover have "k = (\<lambda>(x, y). pixel_index st y x) p" if "(\<lambda>(x, y). f x y) p m k \<noteq> m k" for p m
    using that assms(2) by (cases p) auto
  ultimately have "\<exists>p \<in> set (rect_points c). k = (\<lambda>(x, y). pixel_index st y x) p"
    by (intro fold_changes)
  then show ?thesis by (auto simp: set_rect_points)
qed

lemma blend_at_changes: "blend_at st x y argb m k \<noteq> m k \<Longrightarrow> k = pixel_index st y x"
  by (auto simp: blend_at_def Let_def split: if_splits)

lemma blend_opaque: "drop_bit 24 argb = 255 \<Longrightarrow> blend d argb = argb"
  by (simp add: blend_def)

lemma map_add_upto: "map ((+) a) [i .. j] = [a + i .. a + j]" for a i j :: int
proof (induction i j rule: upto.induct)
  case (1 i j)
  then show ?case by (cases "i \<le> j") (simp_all add: upto.simps [of i j] upto.simps [of "a + i" "a + j"] add.assoc)
qed

lemma fill_row_blend:
  assumes "\<And>x. 0 \<le> x \<Longrightarrow> x < w \<Longrightarrow> pixel_index st y (rx + x) = pixel_index st y rx + nat x"
  shows "fill_row (pixel_index st y rx) w argb m = for_columns rx (rx + w) (\<lambda>x. blend_at st x y argb) m"
proof -
  let ?p = "pixel_index st y rx"
  have "for_columns 0 w (\<lambda>x m. m(?p + nat x := blend (m (?p + nat x)) argb)) m =
      fold (\<lambda>x. blend_at st (rx + x) y argb) [0 .. w - 1] m"
    unfolding for_columns_def by (rule fold_cong) (auto simp: blend_at_def Let_def assms)
  also have "\<dots> = fold (\<lambda>x. blend_at st x y argb) (map ((+) rx) [0 .. w - 1]) m"
    by (simp add: fold_map comp_def)
  also have "\<dots> = for_columns rx (rx + w) (\<lambda>x. blend_at st x y argb) m"
    by (simp add: map_add_upto for_columns_def algebra_simps)
  finally show ?thesis
    by (cases "drop_bit 24 argb = 255") (simp_all add: fill_row_def blend_opaque)
qed

lemma clip_valid:
  assumes "gfx_ok s" "in_rect (g_clip s) x y"
  shows "array_valid (g_stride s, g_height s) x y"
  using assms by (auto simp: gfx_ok_def rect_inside_def in_rect_def array_valid_def word_le_def)

lemma clip_intersect:
  assumes "gfx_ok s" "intersect r (g_clip s) = Some c"
  shows "in_rect c x y \<longleftrightarrow> in_rect r x y \<and> in_rect (g_clip s) x y" "rect_fits c" "rect_inside c 32767 32767"
proof -
  have i: "rect_inside (g_clip s) 32767 32767" using assms(1) by (auto simp: gfx_ok_def rect_inside_def)
  show "in_rect c x y \<longleftrightarrow> in_rect r x y \<and> in_rect (g_clip s) x y" "rect_fits c" "rect_inside c 32767 32767"
    using intersect_Some [OF assms(2) i] by simp_all
qed

lemma fill_rect_loop:
  assumes "gfx_ok s" "intersect r (g_clip s) = Some c"
  shows "fold (\<lambda>y. fill_row (pixel_index (g_stride s) y (r_x c)) (r_width c) argb) [r_y c .. i32 (r_y c + r_height c) - 1] m =
    for_rect c (\<lambda>x y. blend_at (g_stride s) x y argb) m"
proof -
  note c = clip_intersect [OF assms]
  have w: "i32 (r_x c + r_width c) = r_x c + r_width c" "i32 (r_y c + r_height c) = r_y c + r_height c"
    using c(2) by (auto simp: rect_fits_def is_i32_def i32_id)
  have v: "array_valid (g_stride s, g_height s) x y" if "in_rect c x y" for x y
    using c(1) that clip_valid [OF assms(1)] by blast
  have "pixel_index (g_stride s) y (r_x c + x) = pixel_index (g_stride s) y (r_x c) + nat x"
    if "y \<in> set [r_y c .. r_y c + r_height c - 1]" "0 \<le> x" "x < r_width c" for x y
    using that c(3) pixel_index_nat [OF v, of "r_x c" y] pixel_index_nat [OF v, of "r_x c + x" y]
    by (simp add: in_rect_def rect_inside_def nat_add_distrib)
  then have "fill_row (pixel_index (g_stride s) y (r_x c)) (r_width c) argb m =
      for_columns (r_x c) (r_x c + r_width c) (\<lambda>x. blend_at (g_stride s) x y argb) m"
    if "y \<in> set [r_y c .. r_y c + r_height c - 1]" for y m
    using that by (intro fill_row_blend)
  then show ?thesis
    unfolding for_rect_def w by (intro fold_cong) auto
qed

lemma graphics_pixel_paints [paints]: "gfx_ok s \<Longrightarrow> painted s (graphics_pixel x y argb s)"
proof -
  assume ok: "gfx_ok s"
  show ?thesis
  proof (cases "in_clip s x y")
    case True
    have f: "rect_fits (g_clip s)" using ok by (auto simp: gfx_ok_def intro: rect_inside_fits)
    with True have "in_rect (g_clip s) x y" by (auto simp: in_clip_def in_rect_def rect_fits_def is_i32_def i32_id)
    then have "painted s (damage (rect4 x y 1 1) (s\<lparr>g_pixels := blend_at (g_stride s) x y argb (g_pixels s)\<rparr>))"
      by (intro painted_step [OF ok] exI [of _ x] exI [of _ y]) (auto simp: in_rect4 dest: blend_at_changes)
    then show ?thesis by (simp add: graphics_pixel_def True)
  qed (simp add: graphics_pixel_def painted_refl ok)
qed

lemma clipped_loop_paints:
  assumes "gfx_ok s" "intersect r (g_clip s) = Some c" "\<And>x y m k. f x y m k \<noteq> m k \<Longrightarrow> k = pixel_index (g_stride s) y x"
  shows "painted s (damage c (s\<lparr>g_pixels := for_rect c f (g_pixels s)\<rparr>))"
proof (rule painted_step [OF assms(1)])
  show "\<exists>x y. in_rect (g_clip s) x y \<and> in_rect c x y \<and> k = pixel_index (g_stride s) y x"
    if k: "for_rect c f (g_pixels s) k \<noteq> g_pixels s k" for k
  proof -
    obtain x y where "in_rect c x y" "k = pixel_index (g_stride s) y x"
      using for_rect_changes [of c f k "g_stride s" "g_pixels s"] clip_intersect(2) [OF assms(1,2)] assms(3) k by blast
    with clip_intersect(1) [OF assms(1,2)] show ?thesis by blast
  qed
qed

lemma graphics_fill_rect_paints [paints]: "gfx_ok s \<Longrightarrow> painted s (graphics_fill_rect r argb s)"
  using clipped_loop_paints [OF _ _ blend_at_changes]
  by (auto simp: graphics_fill_rect_def fill_rect_loop painted_refl split: option.split)

lemma graphics_gradient_paints [paints]: "gfx_ok s \<Longrightarrow> painted s (graphics_gradient_vertical r c0 c1 s)"
  by (auto simp: graphics_gradient_vertical_def Let_def painted_refl intro!: painted_fold paints)

lemma graphics_rounded_rect_paints [paints]: "gfx_ok s \<Longrightarrow> painted s (graphics_rounded_rect r radius argb s)"
  using blend_at_changes
  by (force simp: graphics_rounded_rect_def painted_refl split: option.split if_splits intro!: clipped_loop_paints)

lemma graphics_rounded_border_paints [paints]: "gfx_ok s \<Longrightarrow> painted s (graphics_rounded_border r radius th b f s)"
  unfolding graphics_rounded_border_def Let_def
  by (auto intro: graphics_rounded_rect_paints painted_then [OF graphics_rounded_rect_paints graphics_rounded_rect_paints])

lemma graphics_shadow_paints [paints]: "gfx_ok s \<Longrightarrow> painted s (graphics_shadow r radius spread argb s)"
  by (auto simp: graphics_shadow_def Let_def intro!: painted_fold paints)

lemma graphics_blit_paints [paints]: "gfx_ok s \<Longrightarrow> painted s (graphics_blit x y px w h st s)"
  using blend_at_changes
  by (force simp: graphics_blit_def painted_refl split: option.split intro!: clipped_loop_paints)

lemma graphics_text_loop_paints: "gfx_ok s \<Longrightarrow> painted s (graphics_text_loop x y cs scale argb s)"
proof (induction x y cs scale argb s rule: graphics_text_loop.induct)
  case (2 cursor y c cs scale argb s)
  have "painted s (fold (\<lambda>d. graphics_fill_rect (dot_rect cursor y scale d) argb) (glyph_dots 5 7 (rows_for c)) s)"
    using 2(2) by (intro painted_fold paints)
  with 2(1) show ?case using painted_trans painted_ok by fastforce
qed (simp add: painted_refl)

lemma graphics_text_paints [paints]: "gfx_ok s \<Longrightarrow> painted s (graphics_text x y cs scale argb s)"
  by (simp add: graphics_text_def painted_refl graphics_text_loop_paints)

section \<open>The line loop ends\<close>

text \<open>
  After \<open>i\<close> horizontal and \<open>j\<close> vertical steps of a line with extents \<open>dx\<close> and \<open>d\<close>, the error term is
  \<open>dx * (j + 1) - d * (i + 1)\<close>, which decides that neither coordinate passes its end; the error stays within three
  halves of the extents, so no 32-bit operation overflows.
\<close>

definition small_coord :: "int \<Rightarrow> bool" where
  "small_coord v \<longleftrightarrow> - 268435456 \<le> v \<and> v \<le> 268435456"

definition between :: "int \<Rightarrow> int \<Rightarrow> int \<Rightarrow> bool" where
  "between a b v \<longleftrightarrow> min a b \<le> v \<and> v \<le> max a b"

lemma between_walk:
  "sx = 1 \<or> sx = - 1 \<Longrightarrow> 0 \<le> i \<Longrightarrow> i \<le> dx \<Longrightarrow> between a (a + sx * dx) (a + sx * i)" for sx :: int
  by (auto simp: between_def)

lemma small_between: "small_coord a \<Longrightarrow> small_coord b \<Longrightarrow> between a b v \<Longrightarrow> i32 v = v"
  by (auto simp: small_coord_def between_def intro!: i32_id)

lemma no_overshoot:
  fixes dx d i j :: int
  assumes "e = dx * (j + 1) - d * (i + 1)" "0 \<le> i" "i \<le> dx" "0 \<le> j" "j \<le> d" "i \<noteq> dx \<or> j \<noteq> d"
  shows "- d \<le> e * 2 \<Longrightarrow> i < dx" "e * 2 \<le> dx \<Longrightarrow> j < d"
proof -
  show "i < dx" if "- d \<le> e * 2"
  proof (rule ccontr)
    assume "\<not> i < dx"
    with assms have i: "i = dx" "j + 1 \<le> d" by auto
    have "dx * (j + 1) \<le> dx * d" using i(2) assms(2,3) by (intro mult_left_mono) auto
    with that i assms(1,4) show False by (simp add: algebra_simps)
  qed
  show "j < d" if "e * 2 \<le> dx"
  proof (rule ccontr)
    assume "\<not> j < d"
    with assms have j: "j = d" "i + 1 \<le> dx" by auto
    have "d * (i + 1) \<le> d * dx" using j(2) assms(4,5) by (intro mult_left_mono) auto
    with that j assms(1,2) show False by (simp add: algebra_simps)
  qed
qed

text \<open>One run of the loop from a state that satisfies the invariant; \<open>n\<close> is the number of steps left.\<close>

definition line_inv :: "int \<Rightarrow> int \<Rightarrow> int \<Rightarrow> int \<Rightarrow> int \<Rightarrow> bool" where
  "line_inv dx d i j e \<longleftrightarrow> dx \<le> 536870912 \<and> d \<le> 536870912 \<and> 0 \<le> i \<and> i \<le> dx \<and> 0 \<le> j \<and> j \<le> d \<and>
     e = dx * (j + 1) - d * (i + 1) \<and> - 3 * d \<le> 2 * e \<and> 2 * e \<le> 3 * dx"

lemma line_inv_step:
  assumes "line_inv dx d i j e" "i \<noteq> dx \<or> j \<noteq> d"
  defines "i' \<equiv> if - d \<le> e * 2 then i + 1 else i" and "j' \<equiv> if e * 2 \<le> dx then j + 1 else j"
  defines "e' \<equiv> (if - d \<le> e * 2 then e - d else e) + (if e * 2 \<le> dx then dx else 0)"
  shows "line_inv dx d i' j' e'" "dx - i' + (d - j') < dx - i + (d - j)"
proof -
  have e: "e = dx * (j + 1) - d * (i + 1)" "0 \<le> i" "i \<le> dx" "0 \<le> j" "j \<le> d" and b: "- 3 * d \<le> 2 * e" "2 * e \<le> 3 * dx"
    using assms(1) by (auto simp: line_inv_def)
  note o = no_overshoot [OF e assms(2)]
  have "e' = dx * (j' + 1) - d * (i' + 1)"
    unfolding e'_def i'_def j'_def e(1) by (simp add: algebra_simps)
  moreover have "- 3 * d \<le> 2 * e'" "2 * e' \<le> 3 * dx"
    using b e(2-5) by (auto simp: e'_def)
  ultimately show "line_inv dx d i' j' e'"
    using assms(1) o by (auto simp: line_inv_def i'_def j'_def)
  show "dx - i' + (d - j') < dx - i + (d - j)"
    using e(2-5) by (auto simp: i'_def j'_def)
qed

lemma line_loop_runs:
  assumes "line_inv dx d i j e" "sx = 1 \<or> sx = - 1" "sy = 1 \<or> sy = - 1"
    and "small_coord a" "small_coord (a + sx * dx)" "small_coord b" "small_coord (b + sy * d)"
  shows "\<exists>ps. line_loop plot (a + sx * dx) (b + sy * d) dx (- d) sx sy e (a + sx * i) (b + sy * j) m =
      Some (fold (\<lambda>(x, y). plot x y) (ps @ [(a + sx * dx, b + sy * d)]) m) \<and>
    (\<forall>(x, y) \<in> set ps. between a (a + sx * dx) x \<and> between b (b + sy * d) y)"
  using assms(1)
proof (induction "nat (dx - i + (d - j))" arbitrary: i j e m rule: less_induct)
  case less
  have ij: "0 \<le> i" "i \<le> dx" "0 \<le> j" "j \<le> d" using less.prems by (auto simp: line_inv_def)
  have here: "between a (a + sx * dx) (a + sx * i)" "between b (b + sy * d) (b + sy * j)"
    using ij assms(2,3) by (auto intro: between_walk)
  show ?case
  proof (cases "i = dx \<and> j = d")
    case True
    then show ?thesis using here by (subst line_loop.simps) (auto intro!: exI [of _ "[]"])
  next
    case False
    define i' j' e' where "i' = (if - d \<le> e * 2 then i + 1 else i)" and "j' = (if e * 2 \<le> dx then j + 1 else j)"
      and "e' = (if - d \<le> e * 2 then e - d else e) + (if e * 2 \<le> dx then dx else 0)"
    note s = line_inv_step [OF less.prems, folded i'_def j'_def e'_def]
    have inv: "line_inv dx d i' j' e'" and less': "dx - i' + (d - j') < dx - i + (d - j)" using s False by auto
    have ij': "0 \<le> i'" "i' \<le> dx" "0 \<le> j'" "j' \<le> d" using inv by (auto simp: line_inv_def)
    have x: "i32 (a + sx * i') = a + sx * i'" "i32 (b + sy * j') = b + sy * j'"
      using small_between [OF assms(4,5) between_walk [OF assms(2) ij'(1,2)]]
        small_between [OF assms(6,7) between_walk [OF assms(3) ij'(3,4)]] by simp_all
    have neq: "\<not> (a + sx * i = a + sx * dx \<and> b + sy * j = b + sy * d)" using False assms(2,3) by auto
    have w: "i32 (e * 2) = e * 2" "i32 (e - d) = e - d" "i32 e' = e'" "- d \<le> e * 2 \<Longrightarrow> i32 (e - d) = e - d"
      using less.prems inv by (auto simp: line_inv_def intro!: i32_id)
    have step: "line_loop plot (a + sx * dx) (b + sy * d) dx (- d) sx sy e (a + sx * i) (b + sy * j) m =
        line_loop plot (a + sx * dx) (b + sy * d) dx (- d) sx sy e' (a + sx * i') (b + sy * j') (plot (a + sx * i) (b + sy * j) m)"
    proof -
      have xs: "- d \<le> e * 2 \<Longrightarrow> i32 (a + sx * i + sx) = a + sx * i'" "e * 2 \<le> dx \<Longrightarrow> i32 (b + sy * j + sy) = b + sy * j'"
        using x by (simp_all add: i'_def j'_def algebra_simps)
      have es: "i32 (e + - d) = e - d" "e * 2 \<le> dx \<Longrightarrow> i32 ((if - d \<le> e * 2 then e - d else e) + dx) = e'"
          "\<not> e * 2 \<le> dx \<Longrightarrow> (if - d \<le> e * 2 then e - d else e) = e'"
        using w(2,3) by (simp_all add: e'_def)
      have k: "\<not> - d \<le> e * 2 \<Longrightarrow> i' = i" "\<not> e * 2 \<le> dx \<Longrightarrow> j' = j" by (simp_all add: i'_def j'_def)
      show ?thesis
        by (subst line_loop.simps, simp only: Let_def w(1) es(1) neq if_False)
          (cases "- d \<le> e * 2"; cases "e * 2 \<le> dx"; simp only: if_True if_False xs es(2,3) k simp_thms;
           use xs es k in simp)
    qed
    obtain ps where ps: "line_loop plot (a + sx * dx) (b + sy * d) dx (- d) sx sy e' (a + sx * i') (b + sy * j')
          (plot (a + sx * i) (b + sy * j) m) = Some (fold (\<lambda>(x, y). plot x y) (ps @ [(a + sx * dx, b + sy * d)]) (plot (a + sx * i) (b + sy * j) m))"
        "\<forall>(x, y) \<in> set ps. between a (a + sx * dx) x \<and> between b (b + sy * d) y"
      using less.hyps [OF _ inv] less' ij ij' by fastforce
    show ?thesis
      using step ps here by (auto intro!: exI [of _ "(a + sx * i, b + sy * j) # ps"])
  qed
qed

lemma line_from_runs:
  assumes "small_coord x0" "small_coord y0" "small_coord x1" "small_coord y1"
  shows "\<exists>ps. line_from plot x0 y0 x1 y1 m = Some (fold (\<lambda>(x, y). plot x y) (ps @ [(x1, y1)]) m) \<and>
    (\<forall>(x, y) \<in> set ps. between x0 x1 x \<and> between y0 y1 y)"
proof -
  define dx d sx sy where "dx = \<bar>x1 - x0\<bar>" and "d = \<bar>y1 - y0\<bar>" and "sx = (if x0 < x1 then 1 else - 1 :: int)"
    and "sy = (if y0 < y1 then 1 else - 1 :: int)"
  have e: "x1 = x0 + sx * dx" "y1 = y0 + sy * d" by (auto simp: dx_def d_def sx_def sy_def)
  have b: "dx \<le> 536870912" "d \<le> 536870912" "0 \<le> dx" "0 \<le> d"
    using assms by (auto simp: dx_def d_def small_coord_def)
  then have w: "i32 dx = dx" "i32 d = d" "i32 (- d) = - d" "i32 (dx - d) = dx - d" by (auto intro!: i32_id)
  have l: "line_from plot x0 y0 x1 y1 m = line_loop plot x1 y1 dx (- d) sx sy (dx - d) (x0 + sx * 0) (y0 + sy * 0) m"
  proof -
    have "(if x1 > x0 then i32 (x1 - x0) else i32 (x0 - x1)) = dx" "(if y1 > y0 then i32 (y1 - y0) else i32 (y0 - y1)) = d"
      using w(1,2) by (auto simp: dx_def d_def abs_if split: if_splits)
    then show ?thesis using w(3,4) by (simp add: line_from_def Let_def sx_def sy_def)
  qed
  have "line_inv dx d 0 0 (dx - d)" using b by (simp add: line_inv_def)
  from line_loop_runs [OF this, of sx sy x0 y0 plot m] assms show ?thesis
    unfolding l by (simp add: e [symmetric]) (auto simp: sx_def sy_def)
qed

lemma graphics_line_paints:
  assumes "gfx_ok s" "small_coord x0" "small_coord y0" "small_coord x1" "small_coord y1"
  shows "\<exists>s'. graphics_line x0 y0 x1 y1 argb s = Some s' \<and> painted s s'"
proof -
  let ?plot = "\<lambda>x y m. if in_clip s x y then blend_at (g_stride s) x y argb m else m"
  obtain qs where qs: "line_from ?plot x0 y0 x1 y1 (g_pixels s) = Some (fold (\<lambda>(x, y). ?plot x y) (qs @ [(x1, y1)]) (g_pixels s))"
      "\<forall>(x, y) \<in> set qs. between x0 x1 x \<and> between y0 y1 y"
    using line_from_runs [OF assms(2-5), of ?plot "g_pixels s"] by (elim exE conjE) (rule that)
  define ps where "ps = qs @ [(x1, y1)]"
  have ps: "line_from ?plot x0 y0 x1 y1 (g_pixels s) = Some (fold (\<lambda>(x, y). ?plot x y) ps (g_pixels s))"
      "\<forall>(x, y) \<in> set ps. between x0 x1 x \<and> between y0 y1 y"
    using qs by (auto simp: ps_def between_def)
  let ?m = "fold (\<lambda>(x, y). ?plot x y) (filter (\<lambda>(x, y). in_clip s x y) ps) (g_pixels s)"
  have m: "fold (\<lambda>(x, y). ?plot x y) ps (g_pixels s) = ?m"
  proof -
    have "fold (\<lambda>(x, y). ?plot x y) ps m = fold (\<lambda>(x, y). ?plot x y) (filter (\<lambda>(x, y). in_clip s x y) ps) m" for m
      by (induction ps arbitrary: m) auto
    then show ?thesis .
  qed
  let ?r = "rect4 (min x0 x1) (min y0 y1) (max x0 x1 - min x0 x1 + 1) (max y0 y1 - min y0 y1 + 1)"
  have w: "i32 (max x0 x1 - min x0 x1 + 1) = max x0 x1 - min x0 x1 + 1" "i32 (max y0 y1 - min y0 y1 + 1) = max y0 y1 - min y0 y1 + 1"
    using assms(2-5) by (auto simp: small_coord_def intro!: i32_id)
  have "painted s (damage ?r (s\<lparr>g_pixels := ?m\<rparr>))"
  proof (rule painted_step [OF assms(1)])
    fix k assume k: "?m k \<noteq> g_pixels s k"
    have changes: "k = (\<lambda>(x, y). pixel_index (g_stride s) y x) p" if "(\<lambda>(x, y). ?plot x y) p m k \<noteq> m k" for p m
      using that by (cases p) (auto split: if_splits dest: blend_at_changes)
    have "\<exists>p \<in> set (filter (\<lambda>(x, y). in_clip s x y) ps). k = (\<lambda>(x, y). pixel_index (g_stride s) y x) p"
      by (rule fold_changes [OF _ k]) (rule changes)
    then obtain p where p: "p \<in> set (filter (\<lambda>(x, y). in_clip s x y) ps)" "k = (\<lambda>(x, y). pixel_index (g_stride s) y x) p" ..
    obtain x y where xy: "p = (x, y)" by (cases p)
    have f: "rect_fits (g_clip s)" using assms(1) by (auto simp: gfx_ok_def intro: rect_inside_fits)
    have "in_rect (g_clip s) x y" using p(1) f by (auto simp: xy in_clip_def in_rect_def rect_fits_def is_i32_def i32_id)
    moreover have "in_rect ?r x y" using p(1) ps(2) by (auto simp: xy between_def in_rect4)
    ultimately show "\<exists>x y. in_rect (g_clip s) x y \<and> in_rect ?r x y \<and> k = pixel_index (g_stride s) y x"
      using p(2) xy by auto
  qed
  moreover have "(if x0 < x1 then x0 else x1) = min x0 x1" "(if x0 > x1 then x0 else x1) = max x0 x1"
      "(if y0 < y1 then y0 else y1) = min y0 y1" "(if y0 > y1 then y0 else y1) = max y0 y1" by auto
  ultimately show ?thesis
    by (simp add: graphics_line_def ps(1) m Let_def w del: filter.simps)
qed

text \<open>Drawing on top of what was drawn.\<close>

lemmas paints_after = painted_then [OF _ graphics_pixel_paints] painted_then [OF _ graphics_fill_rect_paints]
  painted_then [OF _ graphics_rounded_border_paints] painted_then [OF _ graphics_shadow_paints]

lemma cursor_arrow_paints: "gfx_ok s \<Longrightarrow> painted s (cursor_arrow x y s)"
proof -
  assume ok: "gfx_ok s"
  have "painted t (cursor_arrow_row x y row t)" if "gfx_ok t" for row t
    unfolding cursor_arrow_row_def Let_def using that
    by (auto intro!: paints_after painted_refl)
  then have "painted s (fold (cursor_arrow_row x y) [0 .. 13] s)" using ok by (intro painted_fold)
  then show ?thesis unfolding cursor_arrow_def by (rule painted_then) (rule graphics_rounded_border_paints)
qed

lemma cursor_hand_paints: "gfx_ok s \<Longrightarrow> painted s (cursor_hand x y s)"
  unfolding cursor_hand_def Let_def
  by (rule painted_then [OF _ painted_fold]) (auto intro!: paints_after painted_refl)

lemma cursor_text_paints: "gfx_ok s \<Longrightarrow> painted s (cursor_text x y s)"
  unfolding cursor_text_def Let_def
  by (intro paints_after painted_refl)

lemma cursor_resize_paints:
  assumes "gfx_ok s" "small_coord (x - 16)" "small_coord (x + 16)" "small_coord (y - 16)" "small_coord (y + 16)"
  shows "\<exists>s'. cursor_resize x y s = Some s' \<and> painted s s'"
proof -
  have "\<exists>s'. fold (\<lambda>(ax, ay, bx, by, colour) r. Option.bind r (graphics_line (i32 (x + ax)) (i32 (y + ay)) (i32 (x + bx)) (i32 (y + by)) colour))
      ls (Some s) = Some s' \<and> painted s s'"
    if "\<forall>(ax, ay, bx, by, colour) \<in> set ls. 0 \<le> ax \<and> ax \<le> 16 \<and> 0 \<le> ay \<and> ay \<le> 16 \<and> 0 \<le> bx \<and> bx \<le> 16 \<and> 0 \<le> by \<and> by \<le> 16" for ls
    using that assms(1)
  proof (induction ls arbitrary: s)
    case (Cons l ls)
    obtain ax ay bx b2 c where l: "l = (ax, ay, bx, b2, c)" by (cases l)
    have sm: "small_coord (i32 (x + v))" "small_coord (i32 (y + v))" if "0 \<le> v" "v \<le> 16" for v
      using that assms(2-5) by (auto simp: small_coord_def i32_id)
    obtain t where t: "graphics_line (i32 (x + ax)) (i32 (y + ay)) (i32 (x + bx)) (i32 (y + b2)) c s = Some t" "painted s t"
      using graphics_line_paints [OF Cons.prems(2)] sm Cons.prems(1) l by (metis (no_types, lifting) case_prodD list.set_intros(1))
    obtain u where "fold (\<lambda>(ax, ay, bx, by, colour) r. Option.bind r (graphics_line (i32 (x + ax)) (i32 (y + ay)) (i32 (x + bx)) (i32 (y + by)) colour))
        ls (Some t) = Some u" "painted t u"
      using Cons.IH [OF _ painted_ok [OF t(2)]] Cons.prems(1) by auto
    with t painted_trans [OF t(2)] show ?case by (simp add: l)
  qed (simp add: painted_refl)
  from this [of "[(2, 16, 15, 3, 0xFF111827), (3, 16, 16, 3, 0xFFF8FAFC), (2, 16, 2, 10, 0xFF111827),
       (2, 16, 8, 16, 0xFF111827), (16, 3, 10, 3, 0xFF111827), (16, 3, 16, 9, 0xFF111827)]"] show ?thesis
    unfolding cursor_resize_def by simp
qed

section \<open>Drawing sessions\<close>

text \<open>
  A program draws on a surface with a sequence of calls. The calls are the constructors; the coordinates of
  lines, and of the cursor made of lines, are limited to a range far beyond any surface.
\<close>

datatype graphics_call =
    Pixel int int u32
  | Fill rect u32
  | Clear u32
  | Gradient rect u32 u32
  | Line int int int int u32
  | RoundedRect rect u32 u32
  | RoundedBorder rect u32 u32 u32 u32
  | Shadow rect u32 u32 u32
  | Blit int int "nat \<Rightarrow> u32" u32 u32 u32
  | Label int int string u32 u32
  | Cursor int int nat

fun graphics_run :: "graphics_call \<Rightarrow> graphics_surface \<Rightarrow> graphics_surface option" where
  "graphics_run (Pixel x y c) s = Some (graphics_pixel x y c s)"
| "graphics_run (Fill r c) s = Some (graphics_fill_rect r c s)"
| "graphics_run (Clear c) s = Some (graphics_clear c s)"
| "graphics_run (Gradient r a b) s = Some (graphics_gradient_vertical r a b s)"
| "graphics_run (Line x0 y0 x1 y1 c) s = graphics_line x0 y0 x1 y1 c s"
| "graphics_run (RoundedRect r rad c) s = Some (graphics_rounded_rect r rad c s)"
| "graphics_run (RoundedBorder r rad th b f) s = Some (graphics_rounded_border r rad th b f s)"
| "graphics_run (Shadow r rad spread c) s = Some (graphics_shadow r rad spread c s)"
| "graphics_run (Blit x y px w h st) s = Some (graphics_blit x y px w h st s)"
| "graphics_run (Label x y cs scale c) s = Some (graphics_text x y cs scale c s)"
| "graphics_run (Cursor x y icon) s = graphics_cursor x y icon s"

fun call_ok :: "graphics_call \<Rightarrow> bool" where
  "call_ok (Line x0 y0 x1 y1 c) \<longleftrightarrow> small_coord x0 \<and> small_coord y0 \<and> small_coord x1 \<and> small_coord y1"
| "call_ok (Cursor x y icon) \<longleftrightarrow> small_coord (x - 16) \<and> small_coord (x + 16) \<and> small_coord (y - 16) \<and> small_coord (y + 16)"
| "call_ok _ \<longleftrightarrow> True"

definition graphics_session :: "graphics_call list \<Rightarrow> graphics_surface \<Rightarrow> graphics_surface option" where
  "graphics_session calls s = fold (\<lambda>c r. Option.bind r (graphics_run c)) calls (Some s)"

text \<open>Like \<open>painted\<close>, with the whole surface as the region that may change: \<open>graphics_clear\<close> ignores the clip.\<close>

definition redrawn :: "graphics_surface \<Rightarrow> graphics_surface \<Rightarrow> bool" where
  "redrawn s s' \<longleftrightarrow> gfx_ok s' \<and> g_width s' = g_width s \<and> g_height s' = g_height s \<and> g_stride s' = g_stride s \<and> g_clip s' = g_clip s \<and>
     (g_dirty s \<longrightarrow> g_dirty s' \<and> (\<forall>x y. in_rect (g_damage s) x y \<longrightarrow> in_rect (g_damage s') x y)) \<and>
     (\<forall>k. g_pixels s' k \<noteq> g_pixels s k \<longrightarrow>
        (\<exists>x y. in_rect (bounds s) x y \<and> k = pixel_index (g_stride s) y x \<and> g_dirty s' \<and> in_rect (g_damage s') x y))"

lemma painted_redrawn: "gfx_ok s \<Longrightarrow> painted s s' \<Longrightarrow> redrawn s s'"
  unfolding painted_def redrawn_def using clip_in_bounds by blast

lemma bounds_cong: "g_width s' = g_width s \<Longrightarrow> g_height s' = g_height s \<Longrightarrow> bounds s' = bounds s"
  by (simp add: bounds_def)

lemma redrawn_trans: "redrawn s t \<Longrightarrow> redrawn t u \<Longrightarrow> redrawn s u"
proof -
  assume st: "redrawn s t" and tu: "redrawn t u"
  have b: "bounds t = bounds s" using st by (intro bounds_cong) (auto simp: redrawn_def)
  show ?thesis using st tu unfolding redrawn_def b by (safe; (metis | blast))
qed

lemma graphics_clear_redraws: "gfx_ok s \<Longrightarrow> redrawn s (graphics_clear argb s)"
proof -
  assume ok: "gfx_ok s"
  let ?s = "graphics_reset_clip s"
  have "gfx_ok ?s" using ok bounds_inside [OF ok] by (auto simp: graphics_reset_clip_def gfx_ok_def)
  then have "painted ?s (graphics_fill_rect (bounds s) argb ?s)" by (rule graphics_fill_rect_paints)
  with ok show ?thesis
    by (auto simp: painted_def redrawn_def graphics_clear_def graphics_reset_clip_def Let_def gfx_ok_def)
qed

lemma graphics_run_redraws: "gfx_ok s \<Longrightarrow> call_ok c \<Longrightarrow> \<exists>s'. graphics_run c s = Some s' \<and> redrawn s s'"
proof -
  assume ok: "gfx_ok s" "call_ok c"
  note p = painted_redrawn [OF ok(1)]
  show ?thesis
  proof (cases c)
    case (Line x0 y0 x1 y1 argb)
    with graphics_line_paints [OF ok(1), of x0 y0 x1 y1 argb] ok(2) p show ?thesis by auto
  next
    case (Cursor x y icon)
    with cursor_resize_paints [OF ok(1), of x y] ok p [OF cursor_arrow_paints] p [OF cursor_hand_paints]
      p [OF cursor_text_paints] p show ?thesis by (auto simp: graphics_cursor_def)
  qed (simp_all add: ok(1) graphics_clear_redraws p paints)
qed


definition gfx_example :: graphics_surface where
  "gfx_example = \<lparr>g_pixels = (\<lambda>_. 0), g_width = 8, g_height = 6, g_stride = 10,
     g_clip = rect4 1 1 5 4, g_damage = rect4 0 0 0 0, g_dirty = False\<rparr>"


text \<open>
  The line loop ends. For all end points in the range \<open>small_coord\<close>, Bresenham's loop returns after plotting
  points that all lie in the box spanned by the end points, and the last point plotted is the end point.
\<close>

theorem line_terminates:
  assumes "small_coord x0" "small_coord y0" "small_coord x1" "small_coord y1"
  shows "\<exists>ps. line_from (\<lambda>x y ps. ps @ [(x, y)]) x0 y0 x1 y1 [] = Some (ps @ [(x1, y1)]) \<and>
    (\<forall>(x, y) \<in> set ps. min x0 x1 \<le> x \<and> x \<le> max x0 x1 \<and> min y0 y1 \<le> y \<and> y \<le> max y0 y1)"
proof -
  have "fold (\<lambda>(x, y) ps. ps @ [(x, y)]) qs acc = acc @ qs" for acc qs :: "(int \<times> int) list"
    by (induction qs arbitrary: acc) auto
  with line_from_runs [OF assms, of "\<lambda>x y ps. ps @ [(x, y)]" "[]"] show ?thesis
    by (simp add: between_def)
qed

theorem line_terminates_witness:
  "\<exists>ps. line_from (\<lambda>x y ps. ps @ [(x, y)]) 5 1 (- 2) 4 [] = Some (ps @ [(- 2, 4)])"
  using line_terminates [of 5 1 "- 2" 4] by (auto simp: small_coord_def)

end
