(* ===== verification/Assets.thy ===== *)
theory Assets
  imports Demon_Prelude
begin

text \<open>
  The images linked into the kernel (\<open>src/assets.c\<close>). The build converts each image to a block of raw 32-bit
  little-endian ARGB pixels; the blocks are files the build generates, so they are a parameter of the model (the
  record \<open>assets\<close>) and the accessors check their sizes as the code does.
\<close>

record assets =
  a_mouse :: "u8 list"
  a_wallpaper :: "u8 list"
  a_cursor_icons :: "u8 list"
  a_ui_icons :: "u8 list"
  a_start_logo :: "u8 list"
  a_shell_icons :: "u8 list"

abbreviation (input) DEMON_MOUSE_CURSOR_WIDTH :: nat where "DEMON_MOUSE_CURSOR_WIDTH \<equiv> 16"
abbreviation (input) DEMON_MOUSE_CURSOR_HEIGHT :: nat where "DEMON_MOUSE_CURSOR_HEIGHT \<equiv> 24"
abbreviation (input) DEMON_WALLPAPER_WIDTH :: nat where "DEMON_WALLPAPER_WIDTH \<equiv> 320"
abbreviation (input) DEMON_WALLPAPER_HEIGHT :: nat where "DEMON_WALLPAPER_HEIGHT \<equiv> 240"
abbreviation (input) DEMON_CURSOR_ICON_COUNT :: nat where "DEMON_CURSOR_ICON_COUNT \<equiv> 13"
abbreviation (input) DEMON_UI_ICON_WIDTH :: nat where "DEMON_UI_ICON_WIDTH \<equiv> 10"
abbreviation (input) DEMON_UI_ICON_HEIGHT :: nat where "DEMON_UI_ICON_HEIGHT \<equiv> 10"
abbreviation (input) DEMON_UI_ICON_COUNT :: nat where "DEMON_UI_ICON_COUNT \<equiv> 6"
abbreviation (input) DEMON_START_LOGO_WIDTH :: nat where "DEMON_START_LOGO_WIDTH \<equiv> 22"
abbreviation (input) DEMON_START_LOGO_HEIGHT :: nat where "DEMON_START_LOGO_HEIGHT \<equiv> 22"
abbreviation (input) DEMON_SHELL_ICON_WIDTH :: nat where "DEMON_SHELL_ICON_WIDTH \<equiv> 22"
abbreviation (input) DEMON_SHELL_ICON_HEIGHT :: nat where "DEMON_SHELL_ICON_HEIGHT \<equiv> 22"
abbreviation (input) DEMON_SHELL_ICON_COUNT :: nat where "DEMON_SHELL_ICON_COUNT \<equiv> 9"

text \<open>
  A \<open>const uint32_t *\<close> into a block, as a function of the pixel's index. The callers index inside the image,
  which the size check put inside the block; an index past the block reads as 0 here.
\<close>

definition le32 :: "u8 \<Rightarrow> u8 \<Rightarrow> u8 \<Rightarrow> u8 \<Rightarrow> u32" where
  "le32 b0 b1 b2 b3 = ucast b0 OR push_bit 8 (ucast b1) OR push_bit 16 (ucast b2) OR push_bit 24 (ucast b3)"

definition pixels_at :: "u8 list \<Rightarrow> nat \<Rightarrow> (nat \<Rightarrow> u32)" where
  "pixels_at blob off = (\<lambda>i. if off + 4 * i + 3 < length blob
     then le32 (blob ! (off + 4 * i)) (blob ! (off + 4 * i + 1)) (blob ! (off + 4 * i + 2)) (blob ! (off + 4 * i + 3)) else 0)"

definition demon_mouse_cursor_pixels :: "assets \<Rightarrow> (nat \<Rightarrow> u32) option" where
  "demon_mouse_cursor_pixels A =
    (if length (a_mouse A) \<noteq> DEMON_MOUSE_CURSOR_WIDTH * DEMON_MOUSE_CURSOR_HEIGHT * 4 then None
     else Some (pixels_at (a_mouse A) 0))"

definition demon_wallpaper_pixels :: "assets \<Rightarrow> (nat \<Rightarrow> u32) option" where
  "demon_wallpaper_pixels A =
    (if length (a_wallpaper A) \<noteq> DEMON_WALLPAPER_WIDTH * DEMON_WALLPAPER_HEIGHT * 4 then None
     else Some (pixels_at (a_wallpaper A) 0))"

definition demon_cursor_icon_pixels :: "u32 \<Rightarrow> assets \<Rightarrow> (nat \<Rightarrow> u32) option" where
  "demon_cursor_icon_pixels icon_index A =
    (let icon_bytes = DEMON_MOUSE_CURSOR_WIDTH * DEMON_MOUSE_CURSOR_HEIGHT * 4 in
     if length (a_cursor_icons A) \<noteq> icon_bytes * DEMON_CURSOR_ICON_COUNT then None
     else if unat icon_index < 1 \<or> unat icon_index > DEMON_CURSOR_ICON_COUNT then None
     else Some (pixels_at (a_cursor_icons A) ((unat icon_index - 1) * icon_bytes)))"

definition demon_ui_icon_pixels :: "u64 \<Rightarrow> assets \<Rightarrow> (nat \<Rightarrow> u32) option" where
  "demon_ui_icon_pixels icon A =
    (let icon_bytes = DEMON_UI_ICON_WIDTH * DEMON_UI_ICON_HEIGHT * 4 in
     if length (a_ui_icons A) \<noteq> icon_bytes * DEMON_UI_ICON_COUNT then None
     else if unat (ucast icon :: u32) \<ge> DEMON_UI_ICON_COUNT then None
     else Some (pixels_at (a_ui_icons A) (unat (ucast icon :: u32) * icon_bytes)))"

definition demon_start_logo_pixels :: "assets \<Rightarrow> (nat \<Rightarrow> u32) option" where
  "demon_start_logo_pixels A =
    (if length (a_start_logo A) \<noteq> DEMON_START_LOGO_WIDTH * DEMON_START_LOGO_HEIGHT * 4 then None
     else Some (pixels_at (a_start_logo A) 0))"

definition demon_shell_icon_pixels :: "u64 \<Rightarrow> assets \<Rightarrow> (nat \<Rightarrow> u32) option" where
  "demon_shell_icon_pixels icon A =
    (let icon_bytes = DEMON_SHELL_ICON_WIDTH * DEMON_SHELL_ICON_HEIGHT * 4 in
     if length (a_shell_icons A) \<noteq> icon_bytes * DEMON_SHELL_ICON_COUNT then None
     else if unat (ucast icon :: u32) \<ge> DEMON_SHELL_ICON_COUNT then None
     else Some (pixels_at (a_shell_icons A) (unat (ucast icon :: u32) * icon_bytes)))"

end
