(* ===== verification/Framebuffer.thy ===== *)
theory Framebuffer
  imports Graphics Assets
begin

text \<open>
  The display driver of \<open>src/framebuffer.c\<close>: a scene is drawn in a 32-bit back buffer, changed regions accumulate
  in one damage rectangle, and presenting copies that rectangle to the display's memory (the scan-out) in the
  pixel format the boot loader reported; the mouse cursor is an overlay that exists only in the scan-out. The
  theorems say that outside the damage the screen always shows the scene with the cursor on top of it, that
  presenting makes this true of the whole screen, and that cursor operations never touch the scene.
\<close>

section \<open>State\<close>

record framebuffer_info =
  i_physical_address :: u64
  i_width :: u32
  i_height :: u32
  i_pitch :: u32
  i_bits_per_pixel :: u8
  i_pixel_format :: u8
  i_red_position :: u8
  i_red_mask_size :: u8
  i_green_position :: u8
  i_green_mask_size :: u8
  i_blue_position :: u8
  i_blue_mask_size :: u8

record fb_state =
  fb_info :: framebuffer_info
  fb_backbuffer :: "nat \<Rightarrow> u32"
  fb_scanout :: "nat \<Rightarrow> u8" \<comment> \<open>the bytes from \<open>info.virtual_address\<close> on\<close>
  fb_discovered :: bool
  fb_enabled :: bool
  fb_dirty :: bool
  fb_damage :: rect
  fb_cursor_x :: int
  fb_cursor_y :: int
  fb_cursor_visible :: bool
  fb_cursor_update_count :: u64
  fb_cursor_icon_index :: u32

record multiboot2_tag_framebuffer =
  tag_size :: u32
  tag_address :: u64
  tag_pitch :: u32
  tag_width :: u32
  tag_height :: u32
  tag_bits_per_pixel :: u8
  tag_framebuffer_type :: u8
  tag_red_position :: u8
  tag_red_mask_size :: u8
  tag_green_position :: u8
  tag_green_mask_size :: u8
  tag_blue_position :: u8
  tag_blue_mask_size :: u8

abbreviation (input) FRAMEBUFFER_MAX_WIDTH :: u32 where "FRAMEBUFFER_MAX_WIDTH \<equiv> 640"
abbreviation (input) FRAMEBUFFER_MAX_HEIGHT :: u32 where "FRAMEBUFFER_MAX_HEIGHT \<equiv> 480"
abbreviation (input) PAGE_2M :: u64 where "PAGE_2M \<equiv> 0x200000"

definition info_zero :: framebuffer_info where
  "info_zero = \<lparr>i_physical_address = 0, i_width = 0, i_height = 0, i_pitch = 0, i_bits_per_pixel = 0, i_pixel_format = 0,
     i_red_position = 0, i_red_mask_size = 0, i_green_position = 0, i_green_mask_size = 0, i_blue_position = 0, i_blue_mask_size = 0\<rparr>"

definition active_cursor_pixels :: "assets \<Rightarrow> fb_state \<Rightarrow> (nat \<Rightarrow> u32) option" where
  "active_cursor_pixels A s =
    (case (if fb_cursor_icon_index s \<noteq> 0 then demon_cursor_icon_pixels (fb_cursor_icon_index s) A else None) of
       Some icon \<Rightarrow> Some icon
     | None \<Rightarrow> demon_mouse_cursor_pixels A)"

definition add_overflow_u64 :: "u64 \<Rightarrow> u64 \<Rightarrow> bool \<times> u64" where
  "add_overflow_u64 left right = (let result = left + right in (result < left, result))"

definition align_down_2m :: "u64 \<Rightarrow> u64" where
  "align_down_2m v = v AND NOT (PAGE_2M - 1)"

definition align_up_2m :: "u64 \<Rightarrow> u64" where
  "align_up_2m v = (if v > UINT64_MAX - (PAGE_2M - 1) then 0 else (v + PAGE_2M - 1) AND NOT (PAGE_2M - 1))"

section \<open>Clipping and damage\<close>

definition rect_clip :: "framebuffer_info \<Rightarrow> rect \<Rightarrow> rect option" where
  "rect_clip info r =
    (if r_width r \<le> 0 \<or> r_height r \<le> 0 then None
     else
       let right = r_x r + r_width r; bottom = r_y r + r_height r in
       if right \<le> 0 \<or> bottom \<le> 0 \<or> r_x r \<ge> s32 (i_width info) \<or> r_y r \<ge> s32 (i_height info) then None
       else
         let x = (if r_x r < 0 then 0 else r_x r);
             y = (if r_y r < 0 then 0 else r_y r);
             right = (if right > uint (i_width info) then uint (i_width info) else right);
             bottom = (if bottom > uint (i_height info) then uint (i_height info) else bottom);
             w = i32 (right - x); h = i32 (bottom - y)
         in if w > 0 \<and> h > 0 then Some (rect4 x y w h) else None)"

definition mark_damage :: "rect \<Rightarrow> fb_state \<Rightarrow> fb_state" where
  "mark_damage r s = (case rect_clip (fb_info s) r of
      None \<Rightarrow> s
    | Some c \<Rightarrow>
        if \<not> fb_dirty s then s\<lparr>fb_damage := c, fb_dirty := True\<rparr>
        else s\<lparr>fb_damage := rect_union c (fb_damage s)\<rparr>)"

definition framebuffer_mark_dirty :: "rect \<Rightarrow> fb_state \<Rightarrow> fb_state" where
  "framebuffer_mark_dirty r s = mark_damage r s"

text \<open>\<open>backbuffer = NULL\<close> is not shown: nothing reads the back buffer while \<open>enabled\<close> is false.\<close>

definition framebuffer_reset :: "fb_state \<Rightarrow> fb_state" where
  "framebuffer_reset s = s\<lparr>fb_info := info_zero, fb_discovered := False, fb_enabled := False, fb_dirty := False,
     fb_cursor_visible := False, fb_cursor_update_count := 0, fb_cursor_icon_index := 0\<rparr>"

definition tag_acceptable :: "multiboot2_tag_framebuffer \<Rightarrow> bool" where
  "tag_acceptable t \<longleftrightarrow>
     \<not> (tag_size t < 38 \<or> tag_framebuffer_type t \<noteq> 1 \<or> (tag_bits_per_pixel t \<noteq> 24 \<and> tag_bits_per_pixel t \<noteq> 32) \<or>
        tag_width t = 0 \<or> tag_height t = 0 \<or> tag_width t > FRAMEBUFFER_MAX_WIDTH \<or> tag_height t > FRAMEBUFFER_MAX_HEIGHT) \<and>
     (let bytes_per_pixel = (ucast (tag_bits_per_pixel t) + 7) div 8 :: u64 in
      \<not> (ucast (tag_pitch t) < ucast (tag_width t) * bytes_per_pixel \<or> tag_pitch t > 16384 \<or>
         tag_red_mask_size t = 0 \<or> tag_green_mask_size t = 0 \<or> tag_blue_mask_size t = 0 \<or>
         tag_red_mask_size t > 8 \<or> tag_green_mask_size t > 8 \<or> tag_blue_mask_size t > 8))"

definition tag_mappable :: "multiboot2_tag_framebuffer \<Rightarrow> bool" where
  "tag_mappable t \<longleftrightarrow>
    (let byte_length = ucast (tag_pitch t) * ucast (tag_height t) :: u64;
         (overflow, finish) = add_overflow_u64 (tag_address t) byte_length
     in \<not> (byte_length = 0 \<or> overflow) \<and>
        (let first = align_down_2m (tag_address t); mapped_end = align_up_2m finish
         in \<not> (mapped_end = 0 \<or> drop_bit 30 first \<noteq> drop_bit 30 (mapped_end - 1) \<or> drop_bit 39 first \<noteq> 0)))"

definition info_of_tag :: "multiboot2_tag_framebuffer \<Rightarrow> framebuffer_info" where
  "info_of_tag t = \<lparr>i_physical_address = tag_address t, i_width = tag_width t, i_height = tag_height t, i_pitch = tag_pitch t,
     i_bits_per_pixel = tag_bits_per_pixel t, i_pixel_format = tag_framebuffer_type t,
     i_red_position = tag_red_position t, i_red_mask_size = tag_red_mask_size t,
     i_green_position = tag_green_position t, i_green_mask_size = tag_green_mask_size t,
     i_blue_position = tag_blue_position t, i_blue_mask_size = tag_blue_mask_size t\<rparr>"

definition framebuffer_discover :: "multiboot2_tag_framebuffer \<Rightarrow> fb_state \<Rightarrow> bool \<times> fb_state" where
  "framebuffer_discover t s =
    (if \<not> tag_acceptable t \<or> \<not> tag_mappable t then (False, s)
     else (True, s\<lparr>fb_info := info_of_tag t, fb_discovered := True\<rparr>))"

definition framebuffer_backbuffer_bytes :: "fb_state \<Rightarrow> u64" where
  "framebuffer_backbuffer_bytes s =
    (if fb_discovered s then ucast (i_width (fb_info s)) * ucast (i_height (fb_info s)) * 4 else 0)"

section \<open>Drawing in the back buffer\<close>

definition framebuffer_pixel :: "int \<Rightarrow> int \<Rightarrow> u32 \<Rightarrow> fb_state \<Rightarrow> fb_state" where
  "framebuffer_pixel x y argb s =
    (if \<not> fb_enabled s \<or> x < 0 \<or> y < 0 \<or> x \<ge> s32 (i_width (fb_info s)) \<or> y \<ge> s32 (i_height (fb_info s)) then s
     else mark_damage (rect4 x y 1 1)
       (s\<lparr>fb_backbuffer := (fb_backbuffer s)(pixel_index (i_width (fb_info s)) y x := argb)\<rparr>))"

definition framebuffer_fill_rect :: "rect \<Rightarrow> u32 \<Rightarrow> fb_state \<Rightarrow> fb_state" where
  "framebuffer_fill_rect r argb s =
    (if \<not> fb_enabled s then s
     else case rect_clip (fb_info s) r of
       None \<Rightarrow> s
     | Some c \<Rightarrow> mark_damage c (s\<lparr>fb_backbuffer :=
         for_rect c (\<lambda>x y m. m(pixel_index (i_width (fb_info s)) y x := argb)) (fb_backbuffer s)\<rparr>))"

definition framebuffer_clear :: "u32 \<Rightarrow> fb_state \<Rightarrow> fb_state" where
  "framebuffer_clear argb s =
    (if \<not> fb_enabled s then s
     else framebuffer_fill_rect (rect4 0 0 (s32 (i_width (fb_info s))) (s32 (i_height (fb_info s)))) argb s)"

definition framebuffer_border_rect :: "rect \<Rightarrow> u32 \<Rightarrow> fb_state \<Rightarrow> fb_state" where
  "framebuffer_border_rect r argb s =
    (let s = framebuffer_fill_rect (rect4 (r_x r) (r_y r) (r_width r) 1) argb s;
         s = framebuffer_fill_rect (rect4 (r_x r) (i32 (i32 (r_y r + r_height r) - 1)) (r_width r) 1) argb s;
         s = framebuffer_fill_rect (rect4 (r_x r) (r_y r) 1 (r_height r)) argb s
     in framebuffer_fill_rect (rect4 (i32 (i32 (r_x r + r_width r) - 1)) (r_y r) 1 (r_height r)) argb s)"

definition framebuffer_line :: "int \<Rightarrow> int \<Rightarrow> int \<Rightarrow> int \<Rightarrow> u32 \<Rightarrow> fb_state \<Rightarrow> fb_state option" where
  "framebuffer_line x0 y0 x1 y1 argb s = line_from (\<lambda>x y. framebuffer_pixel x y argb) x0 y0 x1 y1 s"

definition fb_blend :: "u32 \<Rightarrow> u32 \<Rightarrow> u32" where
  "fb_blend destination source =
    (let alpha = drop_bit 24 source in
     if alpha = 255 then source
     else if alpha = 0 then destination
     else
       let inverse = 255 - alpha;
           rb = drop_bit 8 ((source AND 0x00FF00FF) * alpha + (destination AND 0x00FF00FF) * inverse) AND 0x00FF00FF;
           g = drop_bit 8 ((source AND 0x0000FF00) * alpha + (destination AND 0x0000FF00) * inverse) AND 0x0000FF00
       in 0xFF000000 OR rb OR g)"

definition framebuffer_blit :: "int \<Rightarrow> int \<Rightarrow> (nat \<Rightarrow> u32) \<Rightarrow> u32 \<Rightarrow> u32 \<Rightarrow> u32 \<Rightarrow> fb_state \<Rightarrow> fb_state" where
  "framebuffer_blit x y pixels width height source_pitch s =
    (if \<not> fb_enabled s \<or> width = 0 \<or> height = 0 \<or> source_pitch < width then s
     else case rect_clip (fb_info s) (rect4 x y (s32 width) (s32 height)) of
       None \<Rightarrow> s
     | Some c \<Rightarrow> mark_damage c (s\<lparr>fb_backbuffer :=
         for_rect c (\<lambda>dx dy m.
           let source_x = u32_of (i32 (dx - x)); source_y = u32_of (i32 (dy - y));
               dest_index = pixel_index (i_width (fb_info s)) dy dx;
               src_index = unat (ucast source_y * ucast source_pitch + ucast source_x :: u64)
           in m(dest_index := fb_blend (m dest_index) (pixels src_index))) (fb_backbuffer s)\<rparr>))"

text \<open>The two built-in fonts, and text drawn as filled squares.\<close>

definition fb_font :: "(char \<times> u8 list) list" where
  "fb_font = [
    (CHR '' '', [0,0,0,0,0,0,0]), (CHR ''-'', [0,0,0,31,0,0,0]), (CHR ''.'', [0,0,0,0,0,12,12]), (CHR ''#'', [10,31,10,10,31,10,0]),
    (CHR ''>'', [16,8,4,2,4,8,16]), (CHR ''<'', [1,2,4,8,4,2,1]), (CHR ''_'', [0,0,0,0,0,0,31]), (CHR ''['', [14,8,8,8,8,8,14]),
    (CHR '']'', [14,2,2,2,2,2,14]), (CHR ''|'', [4,4,4,4,4,4,4]), (CHR '':'', [0,12,12,0,12,12,0]), (CHR ''/'', [1,2,4,8,16,0,0]),
    (CHR ''0'', [14,17,19,21,25,17,14]), (CHR ''1'', [4,12,4,4,4,4,14]), (CHR ''2'', [14,17,1,2,4,8,31]), (CHR ''3'', [30,1,1,14,1,1,30]),
    (CHR ''4'', [2,6,10,18,31,2,2]), (CHR ''5'', [31,16,16,30,1,1,30]), (CHR ''6'', [14,16,16,30,17,17,14]), (CHR ''7'', [31,1,2,4,8,8,8]),
    (CHR ''8'', [14,17,17,14,17,17,14]), (CHR ''9'', [14,17,17,15,1,1,14]), (CHR ''A'', [14,17,17,31,17,17,17]), (CHR ''B'', [30,17,17,30,17,17,30]),
    (CHR ''C'', [14,17,16,16,16,17,14]), (CHR ''D'', [28,18,17,17,17,18,28]), (CHR ''E'', [31,16,16,30,16,16,31]), (CHR ''F'', [31,16,16,30,16,16,16]),
    (CHR ''G'', [14,17,16,23,17,17,15]), (CHR ''H'', [17,17,17,31,17,17,17]), (CHR ''I'', [14,4,4,4,4,4,14]), (CHR ''J'', [7,2,2,2,18,18,12]),
    (CHR ''K'', [17,18,20,24,20,18,17]), (CHR ''L'', [16,16,16,16,16,16,31]), (CHR ''M'', [17,27,21,21,17,17,17]), (CHR ''N'', [17,25,21,19,17,17,17]),
    (CHR ''O'', [14,17,17,17,17,17,14]), (CHR ''P'', [30,17,17,30,16,16,16]), (CHR ''Q'', [14,17,17,17,21,18,13]), (CHR ''R'', [30,17,17,30,20,18,17]),
    (CHR ''S'', [15,16,16,14,1,1,30]), (CHR ''T'', [31,4,4,4,4,4,4]), (CHR ''U'', [17,17,17,17,17,17,14]), (CHR ''V'', [17,17,17,17,17,10,4]),
    (CHR ''W'', [17,17,17,21,21,21,10]), (CHR ''X'', [17,17,10,4,10,17,17]), (CHR ''Y'', [17,17,10,4,4,4,4]), (CHR ''Z'', [31,1,2,4,8,16,31])]"

definition glyph_rows :: "char \<Rightarrow> u8 list" where
  "glyph_rows c = glyph_lookup fb_font c"

definition compact_font :: "(char \<times> u8 list) list" where
  "compact_font = [
    (CHR '' '', [0,0,0,0,0]), (CHR ''-'', [0,0,15,0,0]), (CHR ''.'', [0,0,0,0,4]), (CHR ''#'', [5,15,5,15,5]),
    (CHR ''>'', [8,4,2,4,8]), (CHR ''<'', [1,2,4,2,1]), (CHR ''_'', [0,0,0,0,15]), (CHR ''['', [12,8,8,8,12]),
    (CHR '']'', [3,1,1,1,3]), (CHR ''|'', [4,4,4,4,4]), (CHR '':'', [0,4,0,4,0]), (CHR ''/'', [1,2,4,8,0]),
    (CHR ''0'', [6,9,9,9,6]), (CHR ''1'', [2,6,2,2,7]), (CHR ''2'', [6,9,2,4,15]), (CHR ''3'', [14,1,6,1,14]),
    (CHR ''4'', [9,9,15,1,1]), (CHR ''5'', [15,8,14,1,14]), (CHR ''6'', [6,8,14,9,6]), (CHR ''7'', [15,1,2,4,4]),
    (CHR ''8'', [6,9,6,9,6]), (CHR ''9'', [6,9,7,1,6]), (CHR ''A'', [6,9,15,9,9]), (CHR ''B'', [14,9,14,9,14]),
    (CHR ''C'', [7,8,8,8,7]), (CHR ''D'', [14,9,9,9,14]), (CHR ''E'', [15,8,14,8,15]), (CHR ''F'', [15,8,14,8,8]),
    (CHR ''G'', [7,8,11,9,7]), (CHR ''H'', [9,9,15,9,9]), (CHR ''I'', [15,4,4,4,15]), (CHR ''J'', [3,1,1,9,6]),
    (CHR ''K'', [9,10,12,10,9]), (CHR ''L'', [8,8,8,8,15]), (CHR ''M'', [9,15,15,9,9]), (CHR ''N'', [9,13,11,9,9]),
    (CHR ''O'', [6,9,9,9,6]), (CHR ''P'', [14,9,14,8,8]), (CHR ''Q'', [6,9,9,6,1]), (CHR ''R'', [14,9,14,10,9]),
    (CHR ''S'', [7,8,6,1,14]), (CHR ''T'', [15,4,4,4,4]), (CHR ''U'', [9,9,9,9,6]), (CHR ''V'', [9,9,9,6,4]),
    (CHR ''W'', [9,9,15,15,9]), (CHR ''X'', [9,6,4,6,9]), (CHR ''Y'', [9,9,6,4,4]), (CHR ''Z'', [15,2,4,8,15])]"

definition compact_glyph_rows :: "char \<Rightarrow> u8 list" where
  "compact_glyph_rows c = glyph_lookup compact_font c"

fun framebuffer_text_loop :: "int \<Rightarrow> int \<Rightarrow> string \<Rightarrow> u32 \<Rightarrow> u32 \<Rightarrow> fb_state \<Rightarrow> fb_state" where
  "framebuffer_text_loop cursor y [] scale argb s = s"
| "framebuffer_text_loop cursor y (c # cs) scale argb s =
    framebuffer_text_loop (i32 (cursor + s32 (6 * scale))) y cs scale argb
      (fold (\<lambda>d. framebuffer_fill_rect (dot_rect cursor y scale d) argb) (glyph_dots 5 7 (glyph_rows c)) s)"

definition framebuffer_text :: "int \<Rightarrow> int \<Rightarrow> string \<Rightarrow> u32 \<Rightarrow> u32 \<Rightarrow> fb_state \<Rightarrow> fb_state" where
  "framebuffer_text x y txt scale argb s =
    (if \<not> fb_enabled s \<or> scale = 0 \<or> scale > 8 then s else framebuffer_text_loop x y txt scale argb s)"

fun framebuffer_compact_loop :: "int \<Rightarrow> int \<Rightarrow> string \<Rightarrow> u32 \<Rightarrow> u32 \<Rightarrow> fb_state \<Rightarrow> fb_state" where
  "framebuffer_compact_loop cursor y [] scale argb s = s"
| "framebuffer_compact_loop cursor y (c # cs) scale argb s =
    framebuffer_compact_loop (i32 (cursor + s32 (5 * scale))) y cs scale argb
      (fold (\<lambda>d. framebuffer_fill_rect (dot_rect cursor y scale d) argb) (glyph_dots 4 5 (compact_glyph_rows c)) s)"

definition framebuffer_text_compact :: "int \<Rightarrow> int \<Rightarrow> string \<Rightarrow> u32 \<Rightarrow> u32 \<Rightarrow> fb_state \<Rightarrow> fb_state" where
  "framebuffer_text_compact x y txt scale argb s =
    (if \<not> fb_enabled s \<or> scale = 0 \<or> scale > 8 then s else framebuffer_compact_loop x y txt scale argb s)"

text \<open>\<open>draw_u32\<close>: the decimal digits, and the column after them.\<close>

function u32_digits :: "u32 \<Rightarrow> string \<Rightarrow> string" where
  "u32_digits v acc =
    (let acc = char_of (48 + unat (v mod 10)) # acc in if v div 10 \<noteq> 0 then u32_digits (v div 10) acc else acc)"
  by pat_completeness auto
termination
proof (relation "measure (\<lambda>(v, acc). unat v)")
  fix v :: u32 and acc x :: string
  assume "v div 10 \<noteq> 0"
  then have "v \<noteq> 0" by auto
  then have "0 < unat v" by (simp add: unat_gt_0)
  then show "((v div 10, x), v, acc) \<in> measure (\<lambda>(v, acc). unat v)"
    by (simp add: unat_div_distrib)
qed simp

definition draw_u32 :: "int \<Rightarrow> int \<Rightarrow> u32 \<Rightarrow> u32 \<Rightarrow> fb_state \<Rightarrow> int \<times> fb_state" where
  "draw_u32 x y v color s =
    (let digits = u32_digits v [] in (i32 (x + int (6 * length digits)), framebuffer_text x y digits 1 color s))"

section \<open>Scan-out\<close>

definition scale_channel :: "u32 \<Rightarrow> u8 \<Rightarrow> u32" where
  "scale_channel v bits = (if bits \<ge> 8 then v else (v * (push_bit (unat bits) 1 - 1) + 127) div 255)"

definition native_pixel :: "framebuffer_info \<Rightarrow> u32 \<Rightarrow> u32" where
  "native_pixel info argb =
    (let red = scale_channel (drop_bit 16 argb AND 0xFF) (i_red_mask_size info);
         green = scale_channel (drop_bit 8 argb AND 0xFF) (i_green_mask_size info);
         blue = scale_channel (argb AND 0xFF) (i_blue_mask_size info)
     in push_bit (unat (i_red_position info)) red OR push_bit (unat (i_green_position info)) green OR
        push_bit (unat (i_blue_position info)) blue)"

definition bytes_per_pixel :: "framebuffer_info \<Rightarrow> u32" where
  "bytes_per_pixel info = (ucast (i_bits_per_pixel info) + 7) div 8"

definition native_argb32 :: "framebuffer_info \<Rightarrow> bool" where
  "native_argb32 info \<longleftrightarrow> bytes_per_pixel info = 4 \<and> i_red_position info = 16 \<and>
     i_green_position info = 8 \<and> i_blue_position info = 0 \<and>
     i_red_mask_size info = 8 \<and> i_green_mask_size info = 8 \<and> i_blue_mask_size info = 8"

definition scan_offset :: "framebuffer_info \<Rightarrow> int \<Rightarrow> int \<Rightarrow> nat" where
  "scan_offset info x y = unat ((of_int y :: u64) * ucast (i_pitch info) + of_int x * ucast (bytes_per_pixel info))"

definition scanout_pixel :: "framebuffer_info \<Rightarrow> int \<Rightarrow> int \<Rightarrow> u32 \<Rightarrow> (nat \<Rightarrow> u8) \<Rightarrow> (nat \<Rightarrow> u8)" where
  "scanout_pixel info x y argb m =
    (let d = scan_offset info x y in
     if native_argb32 info then
       m(d := ucast argb, d + 1 := ucast (drop_bit 8 argb), d + 2 := ucast (drop_bit 16 argb), d + 3 := ucast (drop_bit 24 argb))
     else
       let pixel = native_pixel info argb;
           m = m(d := ucast pixel, d + 1 := ucast (drop_bit 8 pixel), d + 2 := ucast (drop_bit 16 pixel))
       in if bytes_per_pixel info = 4 then m(d + 3 := ucast (drop_bit 24 pixel)) else m)"

definition scanout_backbuffer_rect :: "rect \<Rightarrow> fb_state \<Rightarrow> fb_state" where
  "scanout_backbuffer_rect r s =
    (if \<not> fb_enabled s then s
     else case rect_clip (fb_info s) r of
       None \<Rightarrow> s
     | Some c \<Rightarrow> s\<lparr>fb_scanout :=
         for_rect c (\<lambda>x y. scanout_pixel (fb_info s) x y (fb_backbuffer s (pixel_index (i_width (fb_info s)) y x))) (fb_scanout s)\<rparr>)"

text \<open>The loops over the 16 columns and 24 rows of the cursor image.\<close>

definition cursor_cells :: "(nat \<times> nat) list" where
  "cursor_cells = concat (map (\<lambda>iy. map (\<lambda>ix. (ix, iy)) [0 ..< DEMON_MOUSE_CURSOR_WIDTH]) [0 ..< DEMON_MOUSE_CURSOR_HEIGHT])"

definition overlay_cell :: "(nat \<Rightarrow> u32) \<Rightarrow> fb_state \<Rightarrow> nat \<times> nat \<Rightarrow> (nat \<Rightarrow> u8) \<Rightarrow> (nat \<Rightarrow> u8)" where
  "overlay_cell icon s c m =
    (let px = i32 (fb_cursor_x s + int (fst c)); py = i32 (fb_cursor_y s + int (snd c)); info = fb_info s in
     if px < 0 \<or> py < 0 \<or> px \<ge> s32 (i_width info) \<or> py \<ge> s32 (i_height info) then m
     else scanout_pixel info px py
       (fb_blend (fb_backbuffer s (pixel_index (i_width info) py px)) (icon (snd c * DEMON_MOUSE_CURSOR_WIDTH + fst c))) m)"

definition scanout_cursor_overlay :: "assets \<Rightarrow> fb_state \<Rightarrow> fb_state" where
  "scanout_cursor_overlay A s =
    (if \<not> fb_enabled s \<or> \<not> fb_cursor_visible s then s
     else case active_cursor_pixels A s of
       None \<Rightarrow> s
     | Some icon \<Rightarrow> s\<lparr>fb_scanout := fold (overlay_cell icon s) cursor_cells (fb_scanout s)\<rparr>)"

definition framebuffer_present :: "assets \<Rightarrow> fb_state \<Rightarrow> fb_state" where
  "framebuffer_present A s =
    (if \<not> fb_enabled s \<or> \<not> fb_dirty s then s
     else (scanout_cursor_overlay A (scanout_backbuffer_rect (fb_damage s) s))\<lparr>fb_dirty := False\<rparr>)"

definition cursor_box :: "fb_state \<Rightarrow> rect" where
  "cursor_box s = rect4 (fb_cursor_x s) (fb_cursor_y s) (int DEMON_MOUSE_CURSOR_WIDTH) (int DEMON_MOUSE_CURSOR_HEIGHT)"

definition restore_under_cursor :: "fb_state \<Rightarrow> fb_state" where
  "restore_under_cursor s = (if fb_cursor_visible s then scanout_backbuffer_rect (cursor_box s) s else s)"

definition framebuffer_cursor_move :: "assets \<Rightarrow> int \<Rightarrow> int \<Rightarrow> fb_state \<Rightarrow> bool \<times> fb_state" where
  "framebuffer_cursor_move A x y s =
    (if \<not> fb_enabled s \<or> active_cursor_pixels A s = None then (False, s)
     else
       let w = s32 (i_width (fb_info s)); h = s32 (i_height (fb_info s));
           x = (if x < 0 then 0 else if x \<ge> w then i32 (w - 1) else x);
           y = (if y < 0 then 0 else if y \<ge> h then i32 (h - 1) else y)
       in if fb_cursor_visible s \<and> x = fb_cursor_x s \<and> y = fb_cursor_y s then (False, s)
          else (True, scanout_cursor_overlay A ((restore_under_cursor s)\<lparr>fb_cursor_x := x, fb_cursor_y := y,
                  fb_cursor_visible := True, fb_cursor_update_count := fb_cursor_update_count s + 1\<rparr>)))"

definition framebuffer_cursor_set_icon :: "assets \<Rightarrow> u32 \<Rightarrow> fb_state \<Rightarrow> fb_state" where
  "framebuffer_cursor_set_icon A icon_index s =
    (if icon_index = fb_cursor_icon_index s then s
     else
       let s' = (restore_under_cursor s)\<lparr>fb_cursor_icon_index := icon_index\<rparr>
       in if \<not> fb_cursor_visible s then s' else scanout_cursor_overlay A s')"

definition framebuffer_cursor_hide :: "fb_state \<Rightarrow> fb_state" where
  "framebuffer_cursor_hide s =
    (if \<not> fb_cursor_visible s then s else (scanout_backbuffer_rect (cursor_box s) s)\<lparr>fb_cursor_visible := False\<rparr>)"

section \<open>Enabling the display\<close>

text \<open>
  \<open>framebuffer_enable\<close> maps the display's memory with 2 MiB pages: through the low page directory when it lies in
  the first GiB, otherwise through a page directory of its own hooked into the \<open>PDPT\<close>. The three tables are
  functions of the entry's index.
\<close>

record fb_tables =
  pt_pdpt :: "nat \<Rightarrow> u64"
  pt_low_pd :: "nat \<Rightarrow> u64"
  pt_fb_pd :: "nat \<Rightarrow> u64"

definition map_2m :: "bool \<Rightarrow> u64 \<Rightarrow> nat \<Rightarrow> (nat \<Rightarrow> u64) \<Rightarrow> (nat \<Rightarrow> u64)" where
  "map_2m low first k pd =
    (let physical = first + of_nat k * PAGE_2M; index = unat (drop_bit 21 physical AND 0x1FF) in
     if low \<and> index < 2 then pd else pd(index := physical OR 0x83))"

definition map_framebuffer :: "u64 \<Rightarrow> framebuffer_info \<Rightarrow> fb_tables \<Rightarrow> fb_tables" where
  "map_framebuffer framebuffer_pd_address info t =
    (let byte_length = ucast (i_pitch info) * ucast (i_height info) :: u64;
         first = align_down_2m (i_physical_address info);
         mapped_end = align_up_2m (i_physical_address info + byte_length);
         pages = (if first < mapped_end then unat (mapped_end - first) div 0x200000 else 0);
         pdpt_index = unat (drop_bit 30 first AND 0x1FF)
     in if pdpt_index = 0 then t\<lparr>pt_low_pd := fold (map_2m True first) [0 ..< pages] (pt_low_pd t)\<rparr>
        else t\<lparr>pt_pdpt := (pt_pdpt t)(pdpt_index := framebuffer_pd_address OR 3),
               pt_fb_pd := fold (map_2m False first) [0 ..< pages] (mem_fill (pt_fb_pd t) 0 512 0)\<rparr>)"

definition framebuffer_enable :: "u64 \<Rightarrow> u64 \<Rightarrow> u64 \<Rightarrow> (nat \<Rightarrow> u32) \<Rightarrow> fb_state \<Rightarrow> fb_tables \<Rightarrow> bool \<times> fb_state \<times> fb_tables" where
  "framebuffer_enable framebuffer_pd_address backbuffer_address backbuffer_capacity memory s t =
    (let required = framebuffer_backbuffer_bytes s in
     if \<not> fb_discovered s \<or> required = 0 \<or> required > backbuffer_capacity \<or> backbuffer_address AND 4095 \<noteq> 0 then (False, s, t)
     else (True, framebuffer_clear 0xFF000000 (s\<lparr>fb_backbuffer := memory, fb_enabled := True, fb_dirty := False\<rparr>),
       map_framebuffer framebuffer_pd_address (fb_info s) t))"

definition framebuffer_backbuffer_surface :: "fb_state \<Rightarrow> graphics_surface option" where
  "framebuffer_backbuffer_surface s =
    (if \<not> fb_enabled s then None
     else graphics_surface_init (fb_backbuffer s) (i_width (fb_info s)) (i_height (fb_info s)) (i_width (fb_info s)))"

section \<open>The scan-out as a pixel store\<close>

definition info_ok :: "framebuffer_info \<Rightarrow> bool" where
  "info_ok g \<longleftrightarrow> 0 < uint (i_width g) \<and> uint (i_width g) \<le> 640 \<and> 0 < uint (i_height g) \<and> uint (i_height g) \<le> 480 \<and>
     (i_bits_per_pixel g = 24 \<or> i_bits_per_pixel g = 32) \<and>
     unat (i_width g) * unat (bytes_per_pixel g) \<le> unat (i_pitch g) \<and> unat (i_pitch g) \<le> 16384"

definition on_screen :: "framebuffer_info \<Rightarrow> int \<Rightarrow> int \<Rightarrow> bool" where
  "on_screen g x y \<longleftrightarrow> 0 \<le> x \<and> x < uint (i_width g) \<and> 0 \<le> y \<and> y < uint (i_height g)"

definition scan_valid :: "framebuffer_info \<Rightarrow> int \<Rightarrow> int \<Rightarrow> bool" where
  "scan_valid g x y \<longleftrightarrow> info_ok g \<and> on_screen g x y"

definition scan_get :: "framebuffer_info \<Rightarrow> int \<Rightarrow> int \<Rightarrow> (nat \<Rightarrow> u8) \<Rightarrow> u8 list" where
  "scan_get g x y m = mem_read m (scan_offset g x y) (unat (bytes_per_pixel g))"

definition scan_enc :: "framebuffer_info \<Rightarrow> u32 \<Rightarrow> u8 list" where
  "scan_enc g argb = (let v = (if native_argb32 g then argb else native_pixel g argb) in
     take (unat (bytes_per_pixel g)) [ucast v, ucast (drop_bit 8 v), ucast (drop_bit 16 v), ucast (drop_bit 24 v)])"

definition scan_extent :: "framebuffer_info \<Rightarrow> nat" where
  "scan_extent g = unat (i_height g) * unat (i_pitch g)"

lemma bytes_per_pixel_cases:
  "info_ok g \<Longrightarrow> bytes_per_pixel g = 3 \<or> bytes_per_pixel g = 4"
  by (auto simp: info_ok_def bytes_per_pixel_def)

lemma length_scan_enc: "info_ok g \<Longrightarrow> length (scan_enc g argb) = unat (bytes_per_pixel g)"
  using bytes_per_pixel_cases [of g] by (auto simp: scan_enc_def Let_def)

lemma scanout_pixel_copy:
  "info_ok g \<Longrightarrow> scanout_pixel g x y argb m = mem_copy m (scan_offset g x y) (scan_enc g argb)"
proof -
  assume g: "info_ok g"
  have d: "d + 1 = Suc d" "d + 2 = Suc (Suc d)" "d + 3 = Suc (Suc (Suc d))" for d :: nat by simp_all
  consider "bytes_per_pixel g = 3" "\<not> native_argb32 g" | "bytes_per_pixel g = 4"
    using bytes_per_pixel_cases [OF g] by (auto simp: native_argb32_def)
  then show ?thesis
  proof cases
    case 1
    then show ?thesis unfolding scanout_pixel_def scan_enc_def Let_def d by simp
  next
    case 2
    then show ?thesis unfolding scanout_pixel_def scan_enc_def Let_def d by simp
  qed
qed

lemma scan_row_less:
  assumes "scan_valid g x y" "i < unat (bytes_per_pixel g)"
  shows "nat x * unat (bytes_per_pixel g) + i < unat (i_pitch g)" "nat y < unat (i_height g)"
proof -
  have "nat x < unat (i_width g)" "nat y < unat (i_height g)"
    using assms(1) by (auto simp: scan_valid_def on_screen_def nat_less_iff)
  with row_major_less [OF assms(2)] assms(1)
  show "nat x * unat (bytes_per_pixel g) + i < unat (i_pitch g)" "nat y < unat (i_height g)"
    by (auto simp: scan_valid_def info_ok_def intro: less_le_trans)
qed

lemma scan_offset_nat:
  assumes "scan_valid g x y"
  shows "scan_offset g x y = nat y * unat (i_pitch g) + nat x * unat (bytes_per_pixel g)"
proof -
  have g: "info_ok g" using assms by (simp add: scan_valid_def)
  have bpp: "0 < unat (bytes_per_pixel g)" "unat (bytes_per_pixel g) \<le> 4" using bytes_per_pixel_cases [OF g] by auto
  note r = scan_row_less [OF assms bpp(1)]
  have y: "nat y * unat (i_pitch g) \<le> 480 * 16384"
    by (rule mult_le_mono) (use assms in \<open>auto simp: scan_valid_def on_screen_def info_ok_def\<close>)
  have x: "nat x * unat (bytes_per_pixel g) < 16384" using r(1) g by (auto simp: info_ok_def)
  have u: "unat (of_int y :: u64) = nat y" "unat (of_int x :: u64) = nat x"
    using assms by (auto simp: scan_valid_def on_screen_def info_ok_def intro!: unat_of_int_u64)
  have "unat ((of_int y :: u64) * ucast (i_pitch g)) = nat y * unat (i_pitch g)"
    "unat ((of_int x :: u64) * ucast (bytes_per_pixel g)) = nat x * unat (bytes_per_pixel g)"
    using x y by (subst unat_mult_lem [THEN iffD1]; simp add: u)+
  then show ?thesis using x y by (simp add: scan_offset_def unat_add_small)
qed

lemma scan_offset_disjoint:
  assumes "scan_valid g x y" "scan_valid g x' y'" "i < unat (bytes_per_pixel g)" "i' < unat (bytes_per_pixel g)"
    and "scan_offset g x y + i = scan_offset g x' y' + i'"
  shows "x = x' \<and> y = y'"
proof -
  have "nat x * unat (bytes_per_pixel g) + i = nat x' * unat (bytes_per_pixel g) + i' \<and> nat y = nat y'"
    using scan_row_less [OF assms(1,3)] scan_row_less [OF assms(2,4)] assms(5)
    by (intro row_major_inj [of _ "unat (i_pitch g)"]) (simp_all add: scan_offset_nat assms(1,2))
  moreover from this have "nat x = nat x'" using row_major_inj [OF assms(3,4)] by blast
  ultimately show ?thesis using assms(1,2) by (auto simp: scan_valid_def on_screen_def eq_nat_nat_iff)
qed

interpretation scan: raster scan_valid scanout_pixel scan_get scan_enc scan_extent
proof
  fix g x y x' y' v m k
  assume v: "scan_valid g x y"
  then have g: "info_ok g" by (simp add: scan_valid_def)
  show "scan_get g x' y' (scanout_pixel g x y v m) = (if x' = x \<and> y' = y then scan_enc g v else scan_get g x' y' m)"
    if v': "scan_valid g x' y'"
  proof (cases "x' = x \<and> y' = y")
    case True
    then show ?thesis
      by (simp add: scan_get_def scanout_pixel_copy [OF g] length_scan_enc [OF g, symmetric, of v] mem_read_copy_same)
  next
    case False
    have "\<not> (scan_offset g x y \<le> i \<and> i < scan_offset g x y + unat (bytes_per_pixel g))"
      if "scan_offset g x' y' \<le> i" "i < scan_offset g x' y' + unat (bytes_per_pixel g)" for i
    proof
      assume i: "scan_offset g x y \<le> i \<and> i < scan_offset g x y + unat (bytes_per_pixel g)"
      have "x = x' \<and> y = y'"
        by (rule scan_offset_disjoint [OF v v', of "i - scan_offset g x y" "i - scan_offset g x' y'"]) (use i that in linarith)+
      with False show False by simp
    qed
    then have "scan_get g x' y' (scanout_pixel g x y v m) = scan_get g x' y' m"
      unfolding scan_get_def scanout_pixel_copy [OF g]
      by (intro mem_read_cong) (auto simp: mem_copy_apply length_scan_enc [OF g])
    then show ?thesis using False by auto
  qed
  show "scanout_pixel g x y v m k = m k" if "scan_extent g \<le> k"
  proof -
    have "scan_offset g x y + i < scan_extent g" if "i < unat (bytes_per_pixel g)" for i
      using scan_row_less [OF v that] row_major_less [of "nat x * unat (bytes_per_pixel g) + i" "unat (i_pitch g)" "nat y" "unat (i_height g)"]
      by (simp add: scan_offset_nat [OF v] scan_extent_def)
    then have "\<not> (scan_offset g x y \<le> k \<and> k < scan_offset g x y + unat (bytes_per_pixel g))"
      using that by (metis le_iff_add nat_add_left_cancel_less not_le)
    then show ?thesis by (auto simp: scanout_pixel_copy [OF g] mem_copy_apply length_scan_enc [OF g])
  qed
qed

section \<open>The screen shows the scene\<close>

abbreviation screen :: "fb_state \<Rightarrow> pixel_geometry" where
  "screen s \<equiv> (i_width (fb_info s), i_height (fb_info s))"

text \<open>The colour the viewer should see at \<open>(x, y)\<close>: the scene, with the cursor image blended over it.\<close>

definition shown :: "assets \<Rightarrow> fb_state \<Rightarrow> int \<Rightarrow> int \<Rightarrow> u32" where
  "shown A s x y =
    (let scene = array_get (screen s) x y (fb_backbuffer s) in
     case active_cursor_pixels A s of
       None \<Rightarrow> scene
     | Some icon \<Rightarrow>
         if fb_cursor_visible s \<and> in_rect (cursor_box s) x y
         then fb_blend scene (icon (nat (y - fb_cursor_y s) * DEMON_MOUSE_CURSOR_WIDTH + nat (x - fb_cursor_x s)))
         else scene)"

definition unscanned :: "fb_state \<Rightarrow> int \<Rightarrow> int \<Rightarrow> bool" where
  "unscanned s x y \<longleftrightarrow> fb_dirty s \<and> in_rect (fb_damage s) x y"

definition in_sync :: "assets \<Rightarrow> fb_state \<Rightarrow> bool" where
  "in_sync A s \<longleftrightarrow> (\<forall>x y. on_screen (fb_info s) x y \<longrightarrow> \<not> unscanned s x y \<longrightarrow>
     scan_get (fb_info s) x y (fb_scanout s) = scan_enc (fb_info s) (shown A s x y))"

definition fb_shape :: "fb_state \<Rightarrow> bool" where
  "fb_shape s \<longleftrightarrow> fb_enabled s \<and> info_ok (fb_info s) \<and>
     (fb_dirty s \<longrightarrow> rect_inside (fb_damage s) (uint (i_width (fb_info s))) (uint (i_height (fb_info s)))) \<and>
     (fb_cursor_visible s \<longrightarrow> on_screen (fb_info s) (fb_cursor_x s) (fb_cursor_y s))"

definition fb_inv :: "assets \<Rightarrow> fb_state \<Rightarrow> bool" where
  "fb_inv A s \<longleftrightarrow> fb_shape s \<and> in_sync A s"

named_theorems fb_keeps "operations of the display driver keep its invariant"

lemma info_ok_small: "info_ok g \<Longrightarrow> uint (i_width g) \<le> 32767 \<and> uint (i_height g) \<le> 32767"
  by (auto simp: info_ok_def)

lemma info_ok_s32: "info_ok g \<Longrightarrow> s32 (i_width g) = uint (i_width g)" "info_ok g \<Longrightarrow> s32 (i_height g) = uint (i_height g)"
  by (auto simp: info_ok_small s32_small)

lemma rect_clip_Some:
  assumes "rect_clip g r = Some c" "info_ok g"
  shows "in_rect c x y \<longleftrightarrow> in_rect r x y \<and> on_screen g x y"
    "rect_inside c (uint (i_width g)) (uint (i_height g))" "rect_fits c"
proof -
  let ?w = "uint (i_width g)" and ?h = "uint (i_height g)"
  let ?l = "max 0 (r_x r)" and ?t = "max 0 (r_y r)" and ?r = "min (r_x r + r_width r) ?w" and ?b = "min (r_y r + r_height r) ?h"
  have w: "?w \<le> 640" "?h \<le> 480" "0 < ?w" "0 < ?h" using assms(2) by (auto simp: info_ok_def)
  have f: "0 < r_width r" "0 < r_height r" "0 < r_x r + r_width r" "0 < r_y r + r_height r" "r_x r < ?w" "r_y r < ?h"
    using assms by (auto simp: rect_clip_def Let_def info_ok_s32 split: if_splits)
  have "0 \<le> ?l" "?l < ?r" "?r \<le> 640" "0 \<le> ?t" "?t < ?b" "?b \<le> 640" using w f by simp_all
  then have "i32 (?r - ?l) = ?r - ?l" "i32 (?b - ?t) = ?b - ?t" by (intro i32_id; linarith)+
  moreover have "(if r_x r < 0 then 0 else r_x r) = ?l" "(if r_y r < 0 then 0 else r_y r) = ?t"
      "(if r_x r + r_width r > ?w then ?w else r_x r + r_width r) = ?r"
      "(if r_y r + r_height r > ?h then ?h else r_y r + r_height r) = ?b" by auto
  ultimately have c: "c = rect4 ?l ?t (?r - ?l) (?b - ?t)" and p: "0 < ?r - ?l" "0 < ?b - ?t"
    using assms(1) unfolding rect_clip_def Let_def by (auto split: if_splits simp del: max.absorb_iff1)
  show "in_rect c x y \<longleftrightarrow> in_rect r x y \<and> on_screen g x y"
    unfolding c in_rect4 in_rect_def on_screen_def by auto
  show i: "rect_inside c ?w ?h" using p unfolding c rect_inside_def by simp
  show "rect_fits c" using i w by (auto intro: rect_inside_fits)
qed

lemma rect_clip_None:
  assumes "rect_clip g r = None" "info_ok g" "on_screen g x y"
  shows "\<not> in_rect r x y"
proof
  assume r: "in_rect r x y"
  let ?w = "uint (i_width g)" and ?h = "uint (i_height g)"
  let ?l = "max 0 (r_x r)" and ?t = "max 0 (r_y r)" and ?r = "min (r_x r + r_width r) ?w" and ?b = "min (r_y r + r_height r) ?h"
  have e: "(if r_x r < 0 then 0 else r_x r) = ?l" "(if r_y r < 0 then 0 else r_y r) = ?t"
      "(if r_x r + r_width r > ?w then ?w else r_x r + r_width r) = ?r"
      "(if r_y r + r_height r > ?h then ?h else r_y r + r_height r) = ?b" by auto
  have b: "?l \<le> x" "x < ?r" "?t \<le> y" "y < ?b" "?w \<le> 640" "?h \<le> 480"
    using r assms(2,3) by (auto simp: in_rect_def on_screen_def info_ok_def)
  then have w: "i32 (?r - ?l) = ?r - ?l" "i32 (?b - ?t) = ?b - ?t" by (auto intro!: i32_id)
  have "0 < r_width r" "0 < r_height r" "0 < r_x r + r_width r" "0 < r_y r + r_height r" "r_x r < ?w" "r_y r < ?h"
    using r assms(3) by (auto simp: in_rect_def on_screen_def)
  moreover have "0 < ?r - ?l" "0 < ?b - ?t" using b(1-4) by linarith+
  ultimately have "rect_clip g r \<noteq> None"
    unfolding rect_clip_def Let_def e w by (simp add: info_ok_s32 assms(2))
  with assms(1) show False by simp
qed

lemma mark_damage_frame [simp]:
  "fb_info (mark_damage r s) = fb_info s" "fb_backbuffer (mark_damage r s) = fb_backbuffer s"
  "fb_scanout (mark_damage r s) = fb_scanout s" "fb_enabled (mark_damage r s) = fb_enabled s"
  "fb_cursor_x (mark_damage r s) = fb_cursor_x s" "fb_cursor_y (mark_damage r s) = fb_cursor_y s"
  "fb_cursor_visible (mark_damage r s) = fb_cursor_visible s" "fb_cursor_icon_index (mark_damage r s) = fb_cursor_icon_index s"
  by (simp_all add: mark_damage_def split: option.split)

lemma mark_damage_covers:
  assumes "fb_shape s"
  shows "fb_shape (mark_damage r s)"
    and "on_screen (fb_info s) x y \<Longrightarrow> unscanned s x y \<or> in_rect r x y \<Longrightarrow> unscanned (mark_damage r s) x y"
proof -
  let ?w = "uint (i_width (fb_info s))" and ?h = "uint (i_height (fb_info s))"
  have g: "info_ok (fb_info s)" and d: "fb_dirty s \<Longrightarrow> rect_inside (fb_damage s) ?w ?h" using assms by (auto simp: fb_shape_def)
  have w: "?w \<le> 32767" "?h \<le> 32767" using info_ok_small [OF g] by auto
  note c = rect_clip_Some [OF _ g]
  show "fb_shape (mark_damage r s)"
    using assms c(2) rect_union_covers(1) [OF c(2) _ w]
    by (auto simp: mark_damage_def fb_shape_def split: option.split)
  assume o: "on_screen (fb_info s) x y" and p: "unscanned s x y \<or> in_rect r x y"
  show "unscanned (mark_damage r s) x y"
  proof (cases "rect_clip (fb_info s) r")
    case None
    with rect_clip_None [OF None g o] p show ?thesis by (simp add: mark_damage_def)
  next
    case (Some k)
    show ?thesis
    proof (cases "fb_dirty s")
      case True
      with p have "in_rect k x y \<or> in_rect (fb_damage s) x y" using c(1) [OF Some, of x y] o by (auto simp: unscanned_def)
      from rect_union_covers(2) [OF c(2) [OF Some] d [OF True] w this] True
      show ?thesis by (simp add: unscanned_def mark_damage_def Some)
    next
      case False
      with p o c(1) [OF Some, of x y] show ?thesis by (auto simp: unscanned_def mark_damage_def Some)
    qed
  qed
qed

text \<open>
  The step every drawing operation takes: the back buffer changes at most inside \<open>r\<close>, and \<open>r\<close> is added to the damage.
\<close>

lemma active_cursor_frame [simp]:
  "active_cursor_pixels A (s\<lparr>fb_backbuffer := m\<rparr>) = active_cursor_pixels A s"
  "active_cursor_pixels A (s\<lparr>fb_scanout := k\<rparr>) = active_cursor_pixels A s"
  "active_cursor_pixels A (mark_damage r s) = active_cursor_pixels A s"
  "active_cursor_pixels A (s\<lparr>fb_dirty := d\<rparr>) = active_cursor_pixels A s"
  "active_cursor_pixels A (s\<lparr>fb_cursor_x := cx, fb_cursor_y := cy, fb_cursor_visible := v, fb_cursor_update_count := n\<rparr>) = active_cursor_pixels A s"
  "active_cursor_pixels A (s\<lparr>fb_cursor_visible := v\<rparr>) = active_cursor_pixels A s"
  by (simp_all add: active_cursor_pixels_def)

lemma shown_cases:
  "shown A s x y =
    (if fb_cursor_visible s \<and> in_rect (cursor_box s) x y \<and> active_cursor_pixels A s \<noteq> None
     then fb_blend (array_get (screen s) x y (fb_backbuffer s))
       (the (active_cursor_pixels A s) (nat (y - fb_cursor_y s) * 16 + nat (x - fb_cursor_x s)))
     else array_get (screen s) x y (fb_backbuffer s))"
  by (simp add: shown_def Let_def split: option.split)

lemma shown_cong:
  "array_get (screen s) x y m = array_get (screen s) x y (fb_backbuffer s) \<Longrightarrow>
   shown A (s\<lparr>fb_backbuffer := m\<rparr>) x y = shown A s x y"
  by (cases "active_cursor_pixels A s") (simp_all add: shown_cases cursor_box_def)

lemma shown_mark [simp]: "shown A (mark_damage r s) = shown A s"
  by (intro ext, cases "active_cursor_pixels A s") (simp_all add: shown_cases cursor_box_def)

lemma draw_step:
  assumes "fb_inv A s"
    and "\<And>x y. on_screen (fb_info s) x y \<Longrightarrow> \<not> in_rect r x y \<Longrightarrow> array_get (screen s) x y m = array_get (screen s) x y (fb_backbuffer s)"
  shows "fb_inv A (mark_damage r (s\<lparr>fb_backbuffer := m\<rparr>))"
proof -
  let ?t = "s\<lparr>fb_backbuffer := m\<rparr>"
  have t: "fb_shape ?t" using assms(1) by (auto simp: fb_inv_def fb_shape_def)
  have p: "unscanned ?t x y = unscanned s x y" for x y by (simp add: unscanned_def)
  have "scan_get (fb_info s) x y (fb_scanout s) = scan_enc (fb_info s) (shown A ?t x y)"
    if o: "on_screen (fb_info s) x y" and n: "\<not> unscanned (mark_damage r ?t) x y" for x y
  proof -
    have "\<not> unscanned s x y" "\<not> in_rect r x y" using mark_damage_covers(2) [OF t, of x y r] o n p by auto
    with assms(1) o shown_cong [OF assms(2) [OF o], of A] show ?thesis by (simp add: fb_inv_def in_sync_def)
  qed
  then show ?thesis using mark_damage_covers(1) [OF t] by (simp add: fb_inv_def in_sync_def)
qed

lemma screen_valid: "on_screen (fb_info s) x y \<longleftrightarrow> array_valid (screen s) x y"
  by (simp add: on_screen_def array_valid_def)

text \<open>A loop over a clipped rectangle that stores one pixel per step, and what it leaves.\<close>

lemma clip_loop_get:
  assumes "info_ok (fb_info s)" "rect_clip (fb_info s) r = Some c" "on_screen (fb_info s) a b"
  shows "array_get (screen s) a b (for_rect c (\<lambda>x y m. m(pixel_index (i_width (fb_info s)) y x := f x y (m (pixel_index (i_width (fb_info s)) y x)))) m) =
    (if in_rect r a b then f a b (array_get (screen s) a b m) else array_get (screen s) a b m)"
proof -
  note c = rect_clip_Some [OF assms(2,1)]
  have "array_get (screen s) a b (for_rect c (\<lambda>x y m. if True then array_put (screen s) x y (f x y (array_get (screen s) x y m)) m else m) m) =
      (if in_rect c a b \<and> True then f a b (array_get (screen s) a b m) else array_get (screen s) a b m)"
    by (rule px.get_for_rect) (use c assms(3) in \<open>auto simp: screen_valid\<close>)
  then show ?thesis using c(1) [of a b] assms(3) by (simp add: array_put_def array_get_def)
qed

lemma framebuffer_fill_rect_keeps [fb_keeps]: "fb_inv A s \<Longrightarrow> fb_inv A (framebuffer_fill_rect r argb s)"
proof -
  assume i: "fb_inv A s"
  then have g: "info_ok (fb_info s)" "fb_enabled s" by (auto simp: fb_inv_def fb_shape_def)
  show ?thesis
  proof (cases "rect_clip (fb_info s) r")
    case (Some c)
    have "fb_inv A (mark_damage c (s\<lparr>fb_backbuffer := for_rect c (\<lambda>x y m. m(pixel_index (i_width (fb_info s)) y x := argb)) (fb_backbuffer s)\<rparr>))"
      by (rule draw_step [OF i]) (use clip_loop_get [OF g(1) Some, of _ _ "\<lambda>_ _ _. argb"] rect_clip_Some(1) [OF Some g(1)] in auto)
    then show ?thesis by (simp add: framebuffer_fill_rect_def g Some)
  qed (simp add: framebuffer_fill_rect_def i)
qed

lemma framebuffer_blit_keeps [fb_keeps]: "fb_inv A s \<Longrightarrow> fb_inv A (framebuffer_blit x y px w h pitch s)"
proof -
  assume i: "fb_inv A s"
  then have g: "info_ok (fb_info s)" "fb_enabled s" by (auto simp: fb_inv_def fb_shape_def)
  show ?thesis
  proof (cases "rect_clip (fb_info s) (rect4 x y (s32 w) (s32 h))")
    case (Some c)
    let ?src = "\<lambda>dx dy. px (unat (ucast (u32_of (i32 (dy - y))) * ucast pitch + ucast (u32_of (i32 (dx - x))) :: u64))"
    have "fb_inv A (mark_damage c (s\<lparr>fb_backbuffer :=
        for_rect c (\<lambda>dx dy m. m(pixel_index (i_width (fb_info s)) dy dx := fb_blend (m (pixel_index (i_width (fb_info s)) dy dx)) (?src dx dy)))
          (fb_backbuffer s)\<rparr>))"
      by (rule draw_step [OF i])
        (use clip_loop_get [OF g(1) Some, of _ _ "\<lambda>dx dy d. fb_blend d (?src dx dy)"] rect_clip_Some(1) [OF Some g(1)] in auto)
    then show ?thesis using i by (simp add: framebuffer_blit_def g Some Let_def)
  qed (use i in \<open>simp add: framebuffer_blit_def\<close>)
qed

lemma framebuffer_pixel_keeps [fb_keeps]: "fb_inv A s \<Longrightarrow> fb_inv A (framebuffer_pixel x y argb s)"
proof -
  assume i: "fb_inv A s"
  then have g: "info_ok (fb_info s)" by (auto simp: fb_inv_def fb_shape_def)
  show ?thesis
  proof (cases "fb_enabled s \<and> on_screen (fb_info s) x y")
    case True
    have "fb_inv A (mark_damage (rect4 x y 1 1) (s\<lparr>fb_backbuffer := array_put (screen s) x y argb (fb_backbuffer s)\<rparr>))"
      using True by (intro draw_step [OF i]) (auto simp: px.get_put screen_valid in_rect4)
    with True show ?thesis by (auto simp: framebuffer_pixel_def array_put_def on_screen_def info_ok_s32 [OF g])
  qed (use i in \<open>auto simp: framebuffer_pixel_def on_screen_def info_ok_s32 [OF g]\<close>)
qed

lemma framebuffer_mark_dirty_keeps [fb_keeps]: "fb_inv A s \<Longrightarrow> fb_inv A (framebuffer_mark_dirty r s)"
  using draw_step [of A s r "fb_backbuffer s"] by (simp add: framebuffer_mark_dirty_def)

lemma framebuffer_clear_keeps [fb_keeps]: "fb_inv A s \<Longrightarrow> fb_inv A (framebuffer_clear argb s)"
  by (simp add: framebuffer_clear_def fb_keeps)

lemma framebuffer_border_rect_keeps [fb_keeps]: "fb_inv A s \<Longrightarrow> fb_inv A (framebuffer_border_rect r argb s)"
  by (simp add: framebuffer_border_rect_def Let_def fb_keeps)

lemma fold_keeps: "(\<And>x t. P t \<Longrightarrow> P (f x t)) \<Longrightarrow> P s \<Longrightarrow> P (fold f xs s)"
  by (induction xs arbitrary: s) auto

lemma framebuffer_text_keeps [fb_keeps]: "fb_inv A s \<Longrightarrow> fb_inv A (framebuffer_text x y cs scale argb s)"
proof -
  have "fb_inv A s \<Longrightarrow> fb_inv A (framebuffer_text_loop x y cs scale argb s)" for s
    by (induction x y cs scale argb s rule: framebuffer_text_loop.induct) (simp_all add: fold_keeps fb_keeps)
  then show "fb_inv A s \<Longrightarrow> ?thesis" by (simp add: framebuffer_text_def)
qed

lemma framebuffer_text_compact_keeps [fb_keeps]: "fb_inv A s \<Longrightarrow> fb_inv A (framebuffer_text_compact x y cs scale argb s)"
proof -
  have "fb_inv A s \<Longrightarrow> fb_inv A (framebuffer_compact_loop x y cs scale argb s)" for s
    by (induction x y cs scale argb s rule: framebuffer_compact_loop.induct) (simp_all add: fold_keeps fb_keeps)
  then show "fb_inv A s \<Longrightarrow> ?thesis" by (simp add: framebuffer_text_compact_def)
qed

lemma framebuffer_line_keeps:
  assumes "small_coord x0" "small_coord y0" "small_coord x1" "small_coord y1" "fb_inv A s"
  shows "\<exists>s'. framebuffer_line x0 y0 x1 y1 argb s = Some s' \<and> fb_inv A s'"
proof -
  obtain ps where "framebuffer_line x0 y0 x1 y1 argb s = Some (fold (\<lambda>(x, y). framebuffer_pixel x y argb) ps s)"
    using line_from_runs [OF assms(1-4), of "\<lambda>x y. framebuffer_pixel x y argb" s] 
    by (elim exE conjE) (simp only: framebuffer_line_def that)
  moreover have "fb_inv A (fold (\<lambda>(x, y). framebuffer_pixel x y argb) ps s)"
    by (rule fold_keeps [where P = "fb_inv A"]) (use assms(5) in \<open>auto simp: fb_keeps\<close>)
  ultimately show ?thesis by blast
qed

text \<open>What copying a rectangle to the scan-out, and drawing the cursor over it, leave at a pixel.\<close>

lemma scanout_rect_frame [simp]:
  "fb_info (scanout_backbuffer_rect r s) = fb_info s" "fb_backbuffer (scanout_backbuffer_rect r s) = fb_backbuffer s"
  "fb_enabled (scanout_backbuffer_rect r s) = fb_enabled s" "fb_dirty (scanout_backbuffer_rect r s) = fb_dirty s"
  "fb_damage (scanout_backbuffer_rect r s) = fb_damage s" "fb_cursor_x (scanout_backbuffer_rect r s) = fb_cursor_x s"
  "fb_cursor_y (scanout_backbuffer_rect r s) = fb_cursor_y s" "fb_cursor_visible (scanout_backbuffer_rect r s) = fb_cursor_visible s"
  "fb_cursor_icon_index (scanout_backbuffer_rect r s) = fb_cursor_icon_index s"
  by (simp_all add: scanout_backbuffer_rect_def split: option.split)

lemma overlay_frame [simp]:
  "fb_info (scanout_cursor_overlay A s) = fb_info s" "fb_backbuffer (scanout_cursor_overlay A s) = fb_backbuffer s"
  "fb_enabled (scanout_cursor_overlay A s) = fb_enabled s" "fb_dirty (scanout_cursor_overlay A s) = fb_dirty s"
  "fb_damage (scanout_cursor_overlay A s) = fb_damage s" "fb_cursor_x (scanout_cursor_overlay A s) = fb_cursor_x s"
  "fb_cursor_y (scanout_cursor_overlay A s) = fb_cursor_y s" "fb_cursor_visible (scanout_cursor_overlay A s) = fb_cursor_visible s"
  "fb_cursor_icon_index (scanout_cursor_overlay A s) = fb_cursor_icon_index s"
  by (simp_all add: scanout_cursor_overlay_def split: option.split)

lemma restore_frame [simp]:
  "fb_info (restore_under_cursor s) = fb_info s" "fb_backbuffer (restore_under_cursor s) = fb_backbuffer s"
  "fb_enabled (restore_under_cursor s) = fb_enabled s" "fb_dirty (restore_under_cursor s) = fb_dirty s"
  "fb_damage (restore_under_cursor s) = fb_damage s" "fb_cursor_icon_index (restore_under_cursor s) = fb_cursor_icon_index s"
  "fb_cursor_x (restore_under_cursor s) = fb_cursor_x s" "fb_cursor_y (restore_under_cursor s) = fb_cursor_y s"
  "fb_cursor_visible (restore_under_cursor s) = fb_cursor_visible s"
  by (simp_all add: restore_under_cursor_def)

lemma scanout_rect_get:
  assumes "fb_shape s" "on_screen (fb_info s) x y"
  shows "scan_get (fb_info s) x y (fb_scanout (scanout_backbuffer_rect r s)) =
    (if in_rect r x y then scan_enc (fb_info s) (array_get (screen s) x y (fb_backbuffer s))
     else scan_get (fb_info s) x y (fb_scanout s))"
proof -
  have g: "info_ok (fb_info s)" "fb_enabled s" using assms(1) by (auto simp: fb_shape_def)
  show ?thesis
  proof (cases "rect_clip (fb_info s) r")
    case None
    with rect_clip_None [OF None g(1) assms(2)] show ?thesis by (simp add: scanout_backbuffer_rect_def g)
  next
    case (Some c)
    note c = rect_clip_Some [OF Some g(1)]
    have "scan_get (fb_info s) x y (for_rect c (\<lambda>x y m. if True then scanout_pixel (fb_info s) x y
          (fb_backbuffer s (pixel_index (i_width (fb_info s)) y x)) m else m) (fb_scanout s)) =
        (if in_rect c x y \<and> True then scan_enc (fb_info s) (fb_backbuffer s (pixel_index (i_width (fb_info s)) y x))
         else scan_get (fb_info s) x y (fb_scanout s))"
      by (rule scan.get_for_rect) (use c g assms(2) in \<open>auto simp: scan_valid_def\<close>)
    then show ?thesis using c(1) [of x y] assms(2) by (simp add: scanout_backbuffer_rect_def g Some array_get_def)
  qed
qed

lemma set_cursor_cells: "set cursor_cells = {(ix, iy). ix < 16 \<and> iy < 24}"
  by (auto simp: cursor_cells_def)

lemma distinct_cursor_cells: "distinct cursor_cells"
proof -
  have "distinct (concat (map (\<lambda>iy. map (\<lambda>ix. (ix, iy)) [0 ..< n]) ys))" if "distinct ys" for n and ys :: "nat list"
    using that by (induction ys) (auto simp: distinct_map inj_on_def)
  then show ?thesis by (simp add: cursor_cells_def)
qed

lemma cursor_cell_on_box:
  "in_rect (cursor_box s) x y \<longleftrightarrow> (x, y) \<in> set (map (\<lambda>(ix, iy). (fb_cursor_x s + int ix, fb_cursor_y s + int iy)) cursor_cells)"
proof -
  have "in_rect (cursor_box s) x y \<Longrightarrow> \<exists>ix < 16. \<exists>iy < 24. x = fb_cursor_x s + int ix \<and> y = fb_cursor_y s + int iy"
    by (rule exI [of _ "nat (x - fb_cursor_x s)"], intro conjI exI [of _ "nat (y - fb_cursor_y s)"]) (auto simp: cursor_box_def in_rect4)
  then show ?thesis by (auto simp: set_cursor_cells cursor_box_def in_rect4)
qed

lemma overlay_get:
  assumes "fb_shape s" "on_screen (fb_info s) x y"
  shows "scan_get (fb_info s) x y (fb_scanout (scanout_cursor_overlay A s)) =
    (if fb_cursor_visible s \<and> in_rect (cursor_box s) x y \<and> active_cursor_pixels A s \<noteq> None then scan_enc (fb_info s) (shown A s x y)
     else scan_get (fb_info s) x y (fb_scanout s))"
proof (cases "fb_cursor_visible s \<and> active_cursor_pixels A s \<noteq> None")
  case False
  then show ?thesis by (auto simp: scanout_cursor_overlay_def)
next
  case True
  then obtain icon where icon: "active_cursor_pixels A s = Some icon" and v: "fb_cursor_visible s" by auto
  let ?g = "fb_info s" and ?cx = "fb_cursor_x s" and ?cy = "fb_cursor_y s"
  have g: "info_ok ?g" "fb_enabled s" and cur: "on_screen ?g ?cx ?cy" using assms(1) v by (auto simp: fb_shape_def)
  let ?f = "\<lambda>x y. fb_blend (array_get (screen s) x y (fb_backbuffer s)) (icon (nat (y - ?cy) * 16 + nat (x - ?cx)))"
  let ?ps = "map (\<lambda>(ix, iy). (?cx + int ix, ?cy + int iy)) cursor_cells"
  have cell: "overlay_cell icon s c m =
      (\<lambda>(x, y) m. if on_screen ?g x y then scanout_pixel ?g x y (?f x y) m else m) ((\<lambda>(ix, iy). (?cx + int ix, ?cy + int iy)) c) m"
    if "c \<in> set cursor_cells" for c m
  proof -
    obtain ix iy where c: "c = (ix, iy)" "ix < 16" "iy < 24" using \<open>c \<in> set cursor_cells\<close> by (auto simp: set_cursor_cells)
    have "i32 (?cx + int ix) = ?cx + int ix" "i32 (?cy + int iy) = ?cy + int iy"
      using cur g(1) c by (auto simp: on_screen_def info_ok_def intro!: i32_id)
    then show ?thesis
      by (auto simp: overlay_cell_def Let_def c on_screen_def info_ok_s32 [OF g(1)] array_get_def)
  qed
  have "fold (overlay_cell icon s) cursor_cells m =
      fold (\<lambda>(x, y) m. if on_screen ?g x y then scanout_pixel ?g x y (?f x y) m else m) ?ps m" for m
    unfolding fold_map comp_def by (rule fold_cong) (auto simp: cell)
  moreover have "scan_get ?g x y (fold (\<lambda>(x, y) m. if on_screen ?g x y then scanout_pixel ?g x y (?f x y) m else m) ?ps m) =
      (if (x, y) \<in> set ?ps \<and> on_screen ?g x y then scan_enc ?g (?f x y) else scan_get ?g x y m)" for m
  proof (rule scan.get_fold_put)
    show "distinct ?ps" using distinct_cursor_cells by (auto simp: distinct_map inj_on_def)
  qed (use g assms(2) in \<open>auto simp: scan_valid_def\<close>)
  ultimately have "scan_get ?g x y (fb_scanout (scanout_cursor_overlay A s)) =
      (if in_rect (cursor_box s) x y then scan_enc ?g (?f x y) else scan_get ?g x y (fb_scanout s))"
    using assms(2) by (simp add: scanout_cursor_overlay_def g v icon cursor_cell_on_box)
  then show ?thesis by (simp add: icon v shown_cases)
qed

lemma in_syncI:
  "(\<And>x y. on_screen (fb_info s) x y \<Longrightarrow> \<not> unscanned s x y \<Longrightarrow>
     scan_get (fb_info s) x y (fb_scanout s) = scan_enc (fb_info s) (shown A s x y)) \<Longrightarrow> in_sync A s"
  by (simp add: in_sync_def)

lemma in_syncD:
  "in_sync A s \<Longrightarrow> on_screen (fb_info s) x y \<Longrightarrow> \<not> unscanned s x y \<Longrightarrow>
     scan_get (fb_info s) x y (fb_scanout s) = scan_enc (fb_info s) (shown A s x y)"
  by (simp add: in_sync_def)

lemma shown_scene:
  "\<not> (fb_cursor_visible s \<and> in_rect (cursor_box s) x y \<and> active_cursor_pixels A s \<noteq> None) \<Longrightarrow>
   shown A s x y = array_get (screen s) x y (fb_backbuffer s)"
  by (cases "active_cursor_pixels A s") (auto simp: shown_cases)

lemma shown_frame:
  "active_cursor_pixels A t = active_cursor_pixels A s \<Longrightarrow> fb_cursor_visible t = fb_cursor_visible s \<Longrightarrow> fb_cursor_x t = fb_cursor_x s \<Longrightarrow>
   fb_cursor_y t = fb_cursor_y s \<Longrightarrow> fb_info t = fb_info s \<Longrightarrow> fb_backbuffer t = fb_backbuffer s \<Longrightarrow> shown A t = shown A s"
  by (intro ext, cases "active_cursor_pixels A s") (simp_all add: shown_cases cursor_box_def)

lemma active_cursor_scanout [simp]:
  "active_cursor_pixels A (scanout_backbuffer_rect r s) = active_cursor_pixels A s"
  "active_cursor_pixels A (scanout_cursor_overlay A s) = active_cursor_pixels A s"
  "active_cursor_pixels A (restore_under_cursor s) = active_cursor_pixels A s"
  by (simp_all add: active_cursor_pixels_def)

lemma present_shows:
  assumes "fb_inv A s" "on_screen (fb_info s) x y"
  shows "scan_get (fb_info s) x y (fb_scanout (framebuffer_present A s)) = scan_enc (fb_info s) (shown A s x y)"
proof (cases "fb_dirty s")
  case False
  then show ?thesis
    using in_syncD [of A s x y] assms by (simp add: framebuffer_present_def fb_inv_def unscanned_def)
next
  case True
  let ?t = "scanout_backbuffer_rect (fb_damage s) s"
  have sh: "fb_shape s" and en: "fb_enabled s" using assms(1) by (auto simp: fb_inv_def fb_shape_def)
  have t: "fb_shape ?t" using sh by (simp add: fb_shape_def)
  have box: "cursor_box ?t = cursor_box s" by (simp add: cursor_box_def)
  have st: "shown A ?t = shown A s" by (rule shown_frame) simp_all
  have o: "on_screen (fb_info ?t) x y" using assms(2) by simp
  have old: "\<not> in_rect (fb_damage s) x y \<Longrightarrow> scan_get (fb_info s) x y (fb_scanout s) = scan_enc (fb_info s) (shown A s x y)"
    using in_syncD [of A s x y] assms by (simp add: fb_inv_def unscanned_def)
  have "scan_get (fb_info s) x y (fb_scanout (scanout_cursor_overlay A ?t)) = scan_enc (fb_info s) (shown A s x y)"
    using overlay_get [OF t o, of A] scanout_rect_get [OF sh assms(2), of "fb_damage s"] old shown_scene [of s x y A]
    by (auto simp: box st split: if_splits)
  then show ?thesis by (simp add: framebuffer_present_def en True)
qed

lemma framebuffer_present_frame [simp]:
  "fb_info (framebuffer_present A s) = fb_info s" "fb_backbuffer (framebuffer_present A s) = fb_backbuffer s"
  "fb_enabled (framebuffer_present A s) = fb_enabled s" "fb_cursor_x (framebuffer_present A s) = fb_cursor_x s"
  "fb_cursor_y (framebuffer_present A s) = fb_cursor_y s" "fb_cursor_visible (framebuffer_present A s) = fb_cursor_visible s"
  "active_cursor_pixels A (framebuffer_present A s) = active_cursor_pixels A s"
  by (simp_all add: framebuffer_present_def)

lemma framebuffer_present_keeps [fb_keeps]: "fb_inv A s \<Longrightarrow> fb_inv A (framebuffer_present A s)"
proof -
  assume i: "fb_inv A s"
  have "shown A (framebuffer_present A s) = shown A s" by (rule shown_frame) simp_all
  then have "in_sync A (framebuffer_present A s)" using present_shows [OF i] by (intro in_syncI) simp
  moreover have "fb_shape (framebuffer_present A s)"
    using i by (auto simp: fb_inv_def fb_shape_def framebuffer_present_def)
  ultimately show ?thesis by (simp add: fb_inv_def)
qed

text \<open>The scene is restored under the old cursor, so nothing of it is left when the cursor moves, changes or goes.\<close>

lemma restore_get:
  assumes "fb_inv A s" "on_screen (fb_info s) x y" "\<not> unscanned s x y"
  shows "scan_get (fb_info s) x y (fb_scanout (restore_under_cursor s)) = scan_enc (fb_info s) (array_get (screen s) x y (fb_backbuffer s))"
  using scanout_rect_get [of s x y "cursor_box s"] in_syncD [of A s x y] shown_scene [of s x y A] assms
  by (auto simp: restore_under_cursor_def fb_inv_def split: if_splits)

lemma cursor_change_keeps:
  assumes "fb_inv A s" "fb_shape t" "fb_info t = fb_info s" "fb_backbuffer t = fb_backbuffer s" "fb_dirty t = fb_dirty s"
    and "fb_damage t = fb_damage s" "fb_scanout t = fb_scanout (restore_under_cursor s)"
  shows "fb_inv A (scanout_cursor_overlay A t)"
proof -
  have box: "cursor_box (scanout_cursor_overlay A t) = cursor_box t" by (simp add: cursor_box_def)
  have sh: "shown A (scanout_cursor_overlay A t) = shown A t" by (rule shown_frame) simp_all
  have "scan_get (fb_info t) x y (fb_scanout (scanout_cursor_overlay A t)) = scan_enc (fb_info t) (shown A t x y)"
    if o: "on_screen (fb_info t) x y" and n: "\<not> unscanned t x y" for x y
  proof -
    have "\<not> unscanned s x y" "on_screen (fb_info s) x y" using o n assms(3,5,6) by (auto simp: unscanned_def)
    with restore_get [OF assms(1)] overlay_get [OF assms(2) o, of A] shown_scene [of t x y A] assms(3,4,7)
    show ?thesis by (auto split: if_splits)
  qed
  then have "in_sync A (scanout_cursor_overlay A t)" by (intro in_syncI) (simp add: sh unscanned_def)
  moreover have "fb_shape (scanout_cursor_overlay A t)" using assms(2) by (simp add: fb_shape_def)
  ultimately show ?thesis by (simp add: fb_inv_def)
qed

lemma framebuffer_cursor_move_keeps [fb_keeps]: "fb_inv A s \<Longrightarrow> fb_inv A (snd (framebuffer_cursor_move A x y s))"
proof -
  assume i: "fb_inv A s"
  then have g: "info_ok (fb_info s)" by (simp add: fb_inv_def fb_shape_def)
  have w: "0 < uint (i_width (fb_info s))" "uint (i_width (fb_info s)) \<le> 640" "0 < uint (i_height (fb_info s))" "uint (i_height (fb_info s)) \<le> 480"
    using g by (auto simp: info_ok_def)
  have "fb_inv A (scanout_cursor_overlay A ((restore_under_cursor s)\<lparr>fb_cursor_x := a, fb_cursor_y := b,
       fb_cursor_visible := True, fb_cursor_update_count := n\<rparr>))" if "on_screen (fb_info s) a b" for a b n
    using that i by (intro cursor_change_keeps [OF i]) (auto simp: fb_inv_def fb_shape_def)
  moreover have "on_screen (fb_info s) (if a < 0 then 0 else if a \<ge> uint (i_width (fb_info s)) then i32 (uint (i_width (fb_info s)) - 1) else a)
      (if b < 0 then 0 else if b \<ge> uint (i_height (fb_info s)) then i32 (uint (i_height (fb_info s)) - 1) else b)" for a b
    using w by (auto simp: on_screen_def i32_id)
  ultimately show ?thesis
    using i by (simp add: framebuffer_cursor_move_def Let_def info_ok_s32 [OF g])
qed

lemma framebuffer_cursor_set_icon_keeps [fb_keeps]: "fb_inv A s \<Longrightarrow> fb_inv A (framebuffer_cursor_set_icon A icon s)"
proof -
  assume i: "fb_inv A s"
  let ?t = "(restore_under_cursor s)\<lparr>fb_cursor_icon_index := icon\<rparr>"
  have "fb_inv A (scanout_cursor_overlay A ?t)"
    using i by (intro cursor_change_keeps [OF i]) (auto simp: fb_inv_def fb_shape_def)
  moreover have "\<not> fb_cursor_visible s \<Longrightarrow> scanout_cursor_overlay A ?t = ?t" by (simp add: scanout_cursor_overlay_def)
  ultimately show ?thesis using i by (simp add: framebuffer_cursor_set_icon_def Let_def) metis
qed

lemma framebuffer_cursor_hide_keeps [fb_keeps]: "fb_inv A s \<Longrightarrow> fb_inv A (framebuffer_cursor_hide s)"
proof -
  assume i: "fb_inv A s"
  show ?thesis
  proof (cases "fb_cursor_visible s")
    case True
    let ?t = "(restore_under_cursor s)\<lparr>fb_cursor_visible := False\<rparr>"
    have "fb_inv A (scanout_cursor_overlay A ?t)"
      using i by (intro cursor_change_keeps [OF i]) (auto simp: fb_inv_def fb_shape_def)
    then show ?thesis by (simp add: framebuffer_cursor_hide_def restore_under_cursor_def True scanout_cursor_overlay_def)
  qed (simp add: framebuffer_cursor_hide_def i)
qed

section \<open>Reachable states of the display driver\<close>

lemma discover_info_ok:
  assumes "framebuffer_discover t s = (True, s')"
  shows "info_ok (fb_info s')"
proof -
  have a: "tag_acceptable t" and s': "fb_info s' = info_of_tag t"
    using assms by (auto simp: framebuffer_discover_def split: if_splits)
  have w: "tag_width t \<noteq> 0" "tag_height t \<noteq> 0" "tag_width t \<le> 640" "tag_height t \<le> 480" "tag_pitch t \<le> 16384"
    and b: "tag_bits_per_pixel t = 24 \<or> tag_bits_per_pixel t = 32"
    using a by (auto simp: tag_acceptable_def Let_def not_less)
  have p: "\<not> (ucast (tag_pitch t) < ucast (tag_width t) * ((ucast (tag_bits_per_pixel t) + 7) div 8 :: u64))"
    using a by (auto simp: tag_acceptable_def Let_def)
  have "uint (tag_width t) \<le> 640" "uint (tag_height t) \<le> 480" "unat (tag_pitch t) \<le> 16384" "unat (tag_width t) \<le> 640"
    using w(3,4) word_le_nat_alt [THEN iffD1, OF w(5)] word_le_nat_alt [THEN iffD1, OF w(3)] by (simp_all add: word_le_def)
  note u = this
  have z: "0 < uint (tag_width t)" "0 < uint (tag_height t)"
    using w(1,2) by (metis uint_ge_0 uint_0_iff order_le_less)+
  have m: "unat (ucast (tag_width t) * 3 :: u64) = unat (tag_width t) * 3" "unat (ucast (tag_width t) * 4 :: u64) = unat (tag_width t) * 4"
    using u(4) by (subst unat_mult_lem [THEN iffD1]; simp)+
  have "unat (tag_width t) * unat (bytes_per_pixel (info_of_tag t)) \<le> unat (tag_pitch t)"
    using b p m by (auto simp: bytes_per_pixel_def info_of_tag_def word_less_nat_alt not_less)
  with u z b show ?thesis unfolding s' by (simp add: info_ok_def info_of_tag_def)
qed

lemma enable_inv:
  assumes "framebuffer_discover t (framebuffer_reset s0) = (True, s1)"
    and "framebuffer_enable pd base capacity memory s1 tables = (True, s2, tables')"
  shows "fb_inv A s2"
proof -
  let ?s = "s1\<lparr>fb_backbuffer := memory, fb_enabled := True, fb_dirty := False\<rparr>"
  have g: "info_ok (fb_info s1)" using discover_info_ok [OF assms(1)] .
  have v: "\<not> fb_cursor_visible s1"
    using assms(1) by (auto simp: framebuffer_discover_def framebuffer_reset_def split: if_splits)
  let ?r = "rect4 0 0 (uint (i_width (fb_info s1))) (uint (i_height (fb_info s1)))"
  have s2: "s2 = framebuffer_fill_rect ?r 0xFF000000 ?s"
    using assms(2) by (auto simp: framebuffer_enable_def Let_def framebuffer_clear_def info_ok_s32 [OF g] split: if_splits)
  have sh: "fb_shape ?s" using g v by (simp add: fb_shape_def)
  obtain c where c: "rect_clip (fb_info s1) ?r = Some c"
    using rect_clip_None [of "fb_info s1" ?r 0 0] g by (cases "rect_clip (fb_info s1) ?r") (auto simp: on_screen_def in_rect4 info_ok_def)
  let ?t = "?s\<lparr>fb_backbuffer := for_rect c (\<lambda>x y m. m(pixel_index (i_width (fb_info s1)) y x := 0xFF000000)) memory\<rparr>"
  have t: "fb_shape ?t" using sh by (simp add: fb_shape_def)
  have e: "s2 = mark_damage c ?t" by (simp add: s2 framebuffer_fill_rect_def c)
  have "unscanned s2 x y" if "on_screen (fb_info s1) x y" for x y
    using mark_damage_covers(2) [OF t, of x y c] rect_clip_Some(1) [OF c g, of x y] that
    by (simp add: e in_rect4 on_screen_def)
  moreover have "fb_info s2 = fb_info s1" by (simp add: e)
  ultimately show ?thesis using mark_damage_covers(1) [OF t, of c] by (auto simp: fb_inv_def in_sync_def e)
qed

inductive fb_reachable :: "assets \<Rightarrow> fb_state \<Rightarrow> bool" for A where
  enabled: "framebuffer_discover t (framebuffer_reset s0) = (True, s1) \<Longrightarrow>
    framebuffer_enable pd base capacity memory s1 tables = (True, s2, tables') \<Longrightarrow> fb_reachable A s2"
| pixel: "fb_reachable A s \<Longrightarrow> fb_reachable A (framebuffer_pixel x y argb s)"
| fill: "fb_reachable A s \<Longrightarrow> fb_reachable A (framebuffer_fill_rect r argb s)"
| clear: "fb_reachable A s \<Longrightarrow> fb_reachable A (framebuffer_clear argb s)"
| border: "fb_reachable A s \<Longrightarrow> fb_reachable A (framebuffer_border_rect r argb s)"
| line: "fb_reachable A s \<Longrightarrow> small_coord x0 \<Longrightarrow> small_coord y0 \<Longrightarrow> small_coord x1 \<Longrightarrow> small_coord y1 \<Longrightarrow>
    framebuffer_line x0 y0 x1 y1 argb s = Some s' \<Longrightarrow> fb_reachable A s'"
| blit: "fb_reachable A s \<Longrightarrow> fb_reachable A (framebuffer_blit x y px w h pitch s)"
| label: "fb_reachable A s \<Longrightarrow> fb_reachable A (framebuffer_text x y cs scale argb s)"
| compact: "fb_reachable A s \<Longrightarrow> fb_reachable A (framebuffer_text_compact x y cs scale argb s)"
| dirty: "fb_reachable A s \<Longrightarrow> fb_reachable A (framebuffer_mark_dirty r s)"
| present: "fb_reachable A s \<Longrightarrow> fb_reachable A (framebuffer_present A s)"
| move: "fb_reachable A s \<Longrightarrow> fb_reachable A (snd (framebuffer_cursor_move A x y s))"
| icon: "fb_reachable A s \<Longrightarrow> fb_reachable A (framebuffer_cursor_set_icon A i s)"
| hide: "fb_reachable A s \<Longrightarrow> fb_reachable A (framebuffer_cursor_hide s)"

lemma fb_reachable_inv: "fb_reachable A s \<Longrightarrow> fb_inv A s"
proof (induction rule: fb_reachable.induct)
  case (enabled t s0 s1 pd base capacity memory tables s2 tables')
  then show ?case by (rule enable_inv)
next
  case (line s x0 y0 x1 y1 argb s')
  then show ?case using framebuffer_line_keeps [OF line(2-5,7), of argb] by auto
qed (simp_all add: fb_keeps)


text \<open>
  The cursor is an overlay. Moving it, changing its image and hiding it never change the back buffer or the
  damage; they change the screen only inside the old and the new footprint of the cursor, and where the cursor
  was, the screen shows the scene again.
\<close>

theorem cursor_is_overlay:
  assumes "fb_reachable A s" "framebuffer_cursor_move A x y s = (True, s')"
  shows "fb_backbuffer s' = fb_backbuffer s \<and> fb_dirty s' = fb_dirty s \<and> fb_damage s' = fb_damage s \<and>
    (\<forall>a b. on_screen (fb_info s) a b \<and> \<not> (fb_cursor_visible s \<and> in_rect (cursor_box s) a b) \<and> \<not> in_rect (cursor_box s') a b \<longrightarrow>
       scan_get (fb_info s) a b (fb_scanout s') = scan_get (fb_info s) a b (fb_scanout s)) \<and>
    (\<forall>a b. on_screen (fb_info s) a b \<and> fb_cursor_visible s \<and> in_rect (cursor_box s) a b \<and> \<not> in_rect (cursor_box s') a b \<longrightarrow>
       scan_get (fb_info s) a b (fb_scanout s') = scan_enc (fb_info s) (array_get (screen s) a b (fb_backbuffer s)))"
proof -
  have i: "fb_inv A s" using fb_reachable_inv [OF assms(1)] .
  then have sh: "fb_shape s" by (simp add: fb_inv_def)
  obtain cx cy where s': "s' = scanout_cursor_overlay A ((restore_under_cursor s)\<lparr>fb_cursor_x := cx, fb_cursor_y := cy,
      fb_cursor_visible := True, fb_cursor_update_count := fb_cursor_update_count s + 1\<rparr>)" (is "_ = scanout_cursor_overlay A ?t")
    using assms(2) by (auto simp: framebuffer_cursor_move_def Let_def split: if_splits)
  have "fb_shape s'" using framebuffer_cursor_move_keeps [OF i, of x y] assms(2) by (simp add: fb_inv_def)
  then have t: "fb_shape ?t" by (simp add: s' fb_shape_def)
  have box: "cursor_box s' = cursor_box ?t" by (simp add: s' cursor_box_def)
  have restored: "scan_get (fb_info s) a b (fb_scanout s') = scan_get (fb_info s) a b (fb_scanout (restore_under_cursor s))"
    if "on_screen (fb_info s) a b" "\<not> in_rect (cursor_box s') a b" for a b
    using overlay_get [OF t, of a b A] that by (simp add: s' box [unfolded s'])
  show ?thesis
    using restored scanout_rect_get [OF sh, of _ _ "cursor_box s"]
    by (auto simp: restore_under_cursor_def s')
qed

text \<open>A 16 by 4 display, as the boot loader would report it.\<close>

definition tag_example :: multiboot2_tag_framebuffer where
  "tag_example = \<lparr>tag_size = 38, tag_address = 0xFD000000, tag_pitch = 64, tag_width = 16, tag_height = 4, tag_bits_per_pixel = 32,
     tag_framebuffer_type = 1, tag_red_position = 16, tag_red_mask_size = 8, tag_green_position = 8, tag_green_mask_size = 8,
     tag_blue_position = 0, tag_blue_mask_size = 8\<rparr>"

definition fb_zero :: fb_state where
  "fb_zero = \<lparr>fb_info = info_zero, fb_backbuffer = (\<lambda>_. 0), fb_scanout = (\<lambda>_. 0), fb_discovered = False, fb_enabled = False,
     fb_dirty = False, fb_damage = rect4 0 0 0 0, fb_cursor_x = 0, fb_cursor_y = 0, fb_cursor_visible = False,
     fb_cursor_update_count = 0, fb_cursor_icon_index = 0\<rparr>"

definition fb_tables_zero :: fb_tables where
  "fb_tables_zero = \<lparr>pt_pdpt = (\<lambda>_. 0), pt_low_pd = (\<lambda>_. 0), pt_fb_pd = (\<lambda>_. 0)\<rparr>"

definition fb_boot :: fb_state where
  "fb_boot = fst (snd (framebuffer_enable 0x2000 0x3000 0x1000 (\<lambda>_. 0) (snd (framebuffer_discover tag_example (framebuffer_reset fb_zero))) fb_tables_zero))"

definition assets_example :: assets where
  "assets_example = \<lparr>a_mouse = replicate 1536 0, a_wallpaper = [], a_cursor_icons = [], a_ui_icons = [], a_start_logo = [], a_shell_icons = []\<rparr>"

lemma tag_example_ok: "tag_acceptable tag_example" "tag_mappable tag_example"
  by code_simp+

lemma discover_example:
  "framebuffer_discover tag_example s = (True, s\<lparr>fb_info := info_of_tag tag_example, fb_discovered := True\<rparr>)"
  by (simp add: framebuffer_discover_def tag_example_ok)

lemma example_size: "i_width (info_of_tag tag_example) = 16" "i_height (info_of_tag tag_example) = 4"
  by (simp_all add: info_of_tag_def tag_example_def)

lemma fb_boot_reachable: "fb_reachable A fb_boot"
proof -
  let ?s = "framebuffer_reset fb_zero"
  have d: "framebuffer_discover tag_example ?s = (True, snd (framebuffer_discover tag_example ?s))"
    by (simp add: discover_example)
  have "fst (framebuffer_enable 0x2000 0x3000 0x1000 (\<lambda>_. 0) (snd (framebuffer_discover tag_example ?s)) fb_tables_zero)"
    by (simp add: framebuffer_enable_def discover_example framebuffer_backbuffer_bytes_def example_size Let_def)
  then have "framebuffer_enable 0x2000 0x3000 0x1000 (\<lambda>_. 0) (snd (framebuffer_discover tag_example ?s)) fb_tables_zero =
      (True, fb_boot, snd (snd (framebuffer_enable 0x2000 0x3000 0x1000 (\<lambda>_. 0) (snd (framebuffer_discover tag_example ?s)) fb_tables_zero)))"
    by (simp add: fb_boot_def prod_eq_iff)
  with d show ?thesis by (rule fb_reachable.enabled)
qed

lemma fill_rect_frame [simp]:
  "fb_info (framebuffer_fill_rect r argb s) = fb_info s" "fb_cursor_visible (framebuffer_fill_rect r argb s) = fb_cursor_visible s"
  "fb_enabled (framebuffer_fill_rect r argb s) = fb_enabled s"
  by (simp_all add: framebuffer_fill_rect_def split: option.split)

lemma fb_boot_facts: "fb_info fb_boot = info_of_tag tag_example" "fb_enabled fb_boot" "\<not> fb_cursor_visible fb_boot"
  by (simp_all add: fb_boot_def framebuffer_enable_def discover_example framebuffer_backbuffer_bytes_def
      example_size Let_def framebuffer_clear_def framebuffer_reset_def)


theorem cursor_is_overlay_witness:
  "fb_backbuffer (snd (framebuffer_cursor_move assets_example 3 2 fb_boot)) = fb_backbuffer fb_boot"
proof -
  have "active_cursor_pixels assets_example fb_boot \<noteq> None"
    by (auto simp: active_cursor_pixels_def demon_mouse_cursor_pixels_def assets_example_def split: option.split)
  then have "framebuffer_cursor_move assets_example 3 2 fb_boot = (True, snd (framebuffer_cursor_move assets_example 3 2 fb_boot))"
    by (simp add: framebuffer_cursor_move_def Let_def fb_boot_facts)
  from cursor_is_overlay [OF fb_boot_reachable this] show ?thesis by simp
qed

end
