(* ===== verification/Display.thy ===== *)
theory Display
  imports Framebuffer
begin

text \<open>
  The display service of \<open>src/display.c\<close>, through which processes reach the framebuffer, and the part of
  \<open>src/arch/x86_64/userspace.c\<close> that copies a process's image to it in chunks through a kernel buffer. The theorems say
  that a chunked submission shows exactly the submitted image, for every accepted request, and that the
  effects keep the screen in step with the scene whenever the region they mark covers what they draw.
\<close>

section \<open>Requests and state\<close>

abbreviation (input) DISPLAY_TRANSFER_MAX_PIXELS :: u64 where "DISPLAY_TRANSFER_MAX_PIXELS \<equiv> 4096"
abbreviation (input) DISPLAY_BOUNCE_PIXELS :: u64 where "DISPLAY_BOUNCE_PIXELS \<equiv> 640"
abbreviation (input) DISPLAY_SUBMIT_PRESENT :: u64 where "DISPLAY_SUBMIT_PRESENT \<equiv> 1"
abbreviation (input) INT32_MAX_U64 :: u64 where "INT32_MAX_U64 \<equiv> 0x7FFFFFFF"
abbreviation (input) UINT32_MAX_U64 :: u64 where "UINT32_MAX_U64 \<equiv> 0xFFFFFFFF"

record display_user_info =
  di_width :: u64
  di_height :: u64
  di_stride_pixels :: u64
  di_format :: u64
  di_max_transfer_pixels :: u64

record display_user_submit =
  ds_x :: u64
  ds_y :: u64
  ds_width :: u64
  ds_height :: u64
  ds_pixels :: u64
  ds_flags :: u64

record display_user_effect =
  de_kind :: u64
  de_x :: u64
  de_y :: u64
  de_width :: u64
  de_height :: u64
  de_radius :: u64
  de_arg1 :: u64
  de_arg2 :: u64
  de_arg3 :: u64
  de_flags :: u64

text \<open>The statistics of \<open>display.c\<close>, the framebuffer, and the transfer buffer \<open>display_bounce\<close> of \<open>userspace.c\<close>.\<close>

record display_state =
  dp_fb :: fb_state
  dp_frames :: u64
  dp_pixels :: u64
  dp_last_present_tick :: u64
  dp_minimum_present_interval :: u64
  dp_compositor_window_count :: u64
  dp_compositor_focused_window :: u64
  dp_compositor_report_count :: u64
  dp_bounce :: "nat \<Rightarrow> u32"

definition display_describe :: "display_state \<Rightarrow> display_user_info option" where
  "display_describe s =
    (if \<not> fb_enabled (dp_fb s) then None
     else Some \<lparr>di_width = ucast (i_width (fb_info (dp_fb s))), di_height = ucast (i_height (fb_info (dp_fb s))),
       di_stride_pixels = ucast (i_width (fb_info (dp_fb s))), di_format = 1, di_max_transfer_pixels = DISPLAY_TRANSFER_MAX_PIXELS\<rparr>)"

text \<open>The presenting step of \<open>display_submit\<close> and of \<open>display_submit_effect\<close>; \<open>now\<close> is the timer tick.\<close>

definition present_frame :: "assets \<Rightarrow> u64 \<Rightarrow> display_state \<Rightarrow> display_state" where
  "present_frame A now s =
    (let s = s\<lparr>dp_fb := framebuffer_present A (dp_fb s)\<rparr>;
         interval = now - dp_last_present_tick s;
         s = (if dp_frames s \<noteq> 0 \<and> interval < dp_minimum_present_interval s then s\<lparr>dp_minimum_present_interval := interval\<rparr> else s)
     in s\<lparr>dp_last_present_tick := now, dp_frames := dp_frames s + 1\<rparr>)"

definition submit_refused :: "display_user_submit \<Rightarrow> display_state \<Rightarrow> bool" where
  "submit_refused q s \<longleftrightarrow> \<not> fb_enabled (dp_fb s) \<or> ds_width q = 0 \<or> ds_height q = 0 \<or> ds_width q > UINT32_MAX_U64 \<or>
     ds_height q > UINT32_MAX_U64 \<or> ds_x q > INT32_MAX_U64 \<or> ds_y q > INT32_MAX_U64 \<or>
     ds_flags q AND NOT DISPLAY_SUBMIT_PRESENT \<noteq> 0 \<or> ds_width q > DISPLAY_TRANSFER_MAX_PIXELS div ds_height q"

text \<open>\<open>(int32_t)\<close> of a 64-bit unsigned value.\<close>

definition s64_32 :: "u64 \<Rightarrow> int" where
  "s64_32 v = i32 (uint v)"

definition display_submit :: "assets \<Rightarrow> u64 \<Rightarrow> display_user_submit \<Rightarrow> (nat \<Rightarrow> u32) \<Rightarrow> display_state \<Rightarrow> bool \<times> display_state" where
  "display_submit A now q source s =
    (if submit_refused q s then (False, s)
     else
       let s = s\<lparr>dp_fb := framebuffer_blit (s64_32 (ds_x q)) (s64_32 (ds_y q)) source
             (ucast (ds_width q)) (ucast (ds_height q)) (ucast (ds_width q)) (dp_fb s)\<rparr>;
           s = (if ds_flags q AND DISPLAY_SUBMIT_PRESENT \<noteq> 0 then present_frame A now s else s)
       in (True, s\<lparr>dp_pixels := dp_pixels s + ds_width q * ds_height q\<rparr>))"

section \<open>Submitting a process's image in chunks\<close>

text \<open>
  \<open>display_submit_from_user\<close>. \<open>user\<close> is the process's image, read as 32-bit pixels from \<open>request->pixels\<close> on, and \<open>row\<close> the
  variable \<open>source_row\<close>. The loop ends only because a chunk has at least one row; \<open>None\<close> would be its not ending.
\<close>

definition user_submit_refused :: "display_user_submit \<Rightarrow> display_state \<Rightarrow> bool" where
  "user_submit_refused q s = (case display_describe s of
      None \<Rightarrow> True
    | Some info \<Rightarrow> ds_width q = 0 \<or> ds_height q = 0 \<or> ds_width q > di_width info \<or> ds_width q > DISPLAY_BOUNCE_PIXELS \<or>
        ds_x q > INT32_MAX_U64 \<or> ds_y q > INT32_MAX_U64 \<or> ds_height q > UINT32_MAX_U64 \<or>
        ds_height q > INT32_MAX_U64 + 1 - ds_y q \<or> ds_flags q AND NOT DISPLAY_SUBMIT_PRESENT \<noteq> 0)"

definition submit_chunk :: "assets \<Rightarrow> u64 \<Rightarrow> display_user_submit \<Rightarrow> (nat \<Rightarrow> u32) \<Rightarrow> u64 \<Rightarrow> u64 \<Rightarrow> display_state \<Rightarrow> bool \<times> display_state" where
  "submit_chunk A now q user row rows s =
    (let pixel_count = ds_width q * rows;
         source = (\<lambda>i. user (unat (row * ds_width q) + i));
         s = s\<lparr>dp_bounce := mem_copy (dp_bounce s) 0 (map source [0 ..< unat pixel_count])\<rparr>;
         final_chunk = (row + rows = ds_height q)
     in display_submit A now
          \<lparr>ds_x = ds_x q, ds_y = ds_y q + row, ds_width = ds_width q, ds_height = rows, ds_pixels = 0,
           ds_flags = (if final_chunk then ds_flags q else 0)\<rparr> (dp_bounce s) s)"

partial_function (option) submit_chunks ::
  "assets \<Rightarrow> u64 \<Rightarrow> display_user_submit \<Rightarrow> (nat \<Rightarrow> u32) \<Rightarrow> u64 \<Rightarrow> display_state \<Rightarrow> (bool \<times> display_state) option"
where
  "submit_chunks A now q user row s =
    (if row < ds_height q then
       let rows_per_chunk = DISPLAY_BOUNCE_PIXELS div ds_width q;
           rows = ds_height q - row;
           rows = (if rows > rows_per_chunk then rows_per_chunk else rows);
           (submitted, s') = submit_chunk A now q user row rows s
       in if \<not> submitted then Some (False, s') else submit_chunks A now q user (row + rows) s'
     else Some (True, s))"

definition display_submit_from_user :: "assets \<Rightarrow> u64 \<Rightarrow> display_user_submit \<Rightarrow> (nat \<Rightarrow> u32) \<Rightarrow> display_state \<Rightarrow> (bool \<times> display_state) option" where
  "display_submit_from_user A now q user s =
    (if user_submit_refused q s then Some (False, s) else submit_chunks A now q user 0 s)"

section \<open>Effects\<close>

definition effect_refused :: "display_user_effect \<Rightarrow> display_state \<Rightarrow> bool" where
  "effect_refused q s \<longleftrightarrow> \<not> fb_enabled (dp_fb s) \<or> de_width q = 0 \<or> de_height q = 0 \<or>
     de_width q > INT32_MAX_U64 \<or> de_height q > INT32_MAX_U64 \<or> de_x q > INT32_MAX_U64 \<or> de_y q > INT32_MAX_U64 \<or>
     de_flags q AND NOT DISPLAY_SUBMIT_PRESENT \<noteq> 0 \<or> de_kind q > 7"

definition effect_rect :: "display_user_effect \<Rightarrow> rect" where
  "effect_rect q = rect4 (s64_32 (de_x q)) (s64_32 (de_y q)) (s64_32 (de_width q)) (s64_32 (de_height q))"

definition wallpaper_span :: "u64 \<Rightarrow> u64 \<Rightarrow> u64 \<Rightarrow> u32 \<Rightarrow> u64" where
  "wallpaper_span start len limit surface_limit =
    (let finish = start + len;
         finish = (if finish > limit then limit else finish)
     in if finish > ucast surface_limit then ucast surface_limit else finish)"

definition draw_wallpaper :: "display_user_effect \<Rightarrow> (nat \<Rightarrow> u32) \<Rightarrow> graphics_surface \<Rightarrow> graphics_surface" where
  "draw_wallpaper q wallpaper g =
    (let end_x = wallpaper_span (de_x q) (de_width q) (2 * 320) (g_width g);
         end_y = wallpaper_span (de_y q) (de_height q) (2 * 240) (g_height g)
     in g\<lparr>g_pixels :=
       fold (\<lambda>dy. fold (\<lambda>dx m. m(unat (of_nat dy * ucast (g_stride g) + of_nat dx :: u64) :=
                 wallpaper (dy div 2 * DEMON_WALLPAPER_WIDTH + dx div 2)))
           [unat (de_x q) ..< unat end_x]) [unat (de_y q) ..< unat end_y] (g_pixels g)\<rparr>)"

definition draw_image :: "display_user_effect \<Rightarrow> (nat \<Rightarrow> u32) option \<Rightarrow> u32 \<Rightarrow> u32 \<Rightarrow> graphics_surface \<Rightarrow> graphics_surface option" where
  "draw_image q pixels w h g =
    map_option (\<lambda>px. graphics_blit (s64_32 (de_x q)) (s64_32 (de_y q)) px w h w g) pixels"

text \<open>The \<open>switch\<close> on the kind of effect; \<open>None\<close> is the early \<open>return false\<close>.\<close>

definition draw_effect :: "assets \<Rightarrow> display_user_effect \<Rightarrow> graphics_surface \<Rightarrow> graphics_surface option" where
  "draw_effect A q g =
    (let r = effect_rect q; radius = ucast (de_radius q) :: u32 in
     if de_kind q = 0 then Some (graphics_rounded_rect r radius (ucast (de_arg1 q)) g)
     else if de_kind q = 1 then Some (graphics_rounded_border r radius (ucast (de_arg1 q)) (ucast (de_arg2 q)) (ucast (de_arg3 q)) g)
     else if de_kind q = 2 then Some (graphics_gradient_vertical r (ucast (de_arg1 q)) (ucast (de_arg2 q)) g)
     else if de_kind q = 3 then Some (graphics_shadow r radius (ucast (de_arg2 q)) (ucast (de_arg1 q)) g)
     else if de_kind q = 4 then map_option (\<lambda>wallpaper. draw_wallpaper q wallpaper g) (demon_wallpaper_pixels A)
     else if de_kind q = 5 then
       (if de_arg1 q \<ge> 6 then None else draw_image q (demon_ui_icon_pixels (de_arg1 q) A) 10 10 g)
     else if de_kind q = 6 then draw_image q (demon_start_logo_pixels A) 22 22 g
     else (if de_arg1 q \<ge> 9 then None else draw_image q (demon_shell_icon_pixels (de_arg1 q) A) 22 22 g))"

definition effect_mark :: "display_user_effect \<Rightarrow> rect" where
  "effect_mark q =
    (let r = effect_rect q in
     if de_kind q = 3 then
       let spread = s64_32 (de_arg2 q);
           spread = (if spread > 32 then 32 else spread)
       in rect4 (i32 (r_x r - spread)) (i32 (r_y r - spread)) (i32 (r_width r + i32 (2 * spread))) (i32 (r_height r + i32 (2 * spread)))
     else r)"

definition display_submit_effect :: "assets \<Rightarrow> u64 \<Rightarrow> display_user_effect \<Rightarrow> display_state \<Rightarrow> bool \<times> display_state" where
  "display_submit_effect A now q s =
    (if effect_refused q s then (False, s)
     else case framebuffer_backbuffer_surface (dp_fb s) of
       None \<Rightarrow> (False, s)
     | Some g \<Rightarrow>
         (case draw_effect A q g of
            None \<Rightarrow> (False, s)
          | Some g' \<Rightarrow>
              let s = s\<lparr>dp_fb := framebuffer_mark_dirty (effect_mark q) ((dp_fb s)\<lparr>fb_backbuffer := g_pixels g'\<rparr>)\<rparr>
              in (True, if de_flags q AND DISPLAY_SUBMIT_PRESENT \<noteq> 0 then present_frame A now s else s)))"

definition display_min_present_interval :: "display_state \<Rightarrow> u64" where
  "display_min_present_interval s = (if dp_frames s < 2 then 0 else dp_minimum_present_interval s)"

definition display_compositor_report :: "u64 \<Rightarrow> u64 \<Rightarrow> display_state \<Rightarrow> display_state" where
  "display_compositor_report window_count focused_window_id s =
    s\<lparr>dp_compositor_window_count := window_count, dp_compositor_focused_window := focused_window_id,
      dp_compositor_report_count := dp_compositor_report_count s + 1\<rparr>"

section \<open>A chunked submission shows the image\<close>

lemma uint_of_unat: "unat w \<le> k \<Longrightarrow> uint w \<le> int k"
  by (metis of_nat_le_iff uint_nat)

lemma unat_u32_of: "0 \<le> v \<Longrightarrow> v < 4294967296 \<Longrightarrow> unat (u32_of v) = nat v"
  unfolding u32_of_def by (metis (no_types) nat_0_le of_int_of_nat_eq unat_of_nat_u32 nat_less_iff of_nat_numeral)

lemma blit_get:
  assumes "fb_shape s" "on_screen (fb_info s) a b" "0 < unat w" "unat w \<le> 32767" "0 < unat h" "unat h \<le> 32767"
  shows "array_get (screen s) a b (fb_backbuffer (framebuffer_blit x y px w h w s)) =
    (if x \<le> a \<and> a < x + int (unat w) \<and> y \<le> b \<and> b < y + int (unat h)
     then fb_blend (array_get (screen s) a b (fb_backbuffer s)) (px (nat (b - y) * unat w + nat (a - x)))
     else array_get (screen s) a b (fb_backbuffer s))"
proof -
  have g: "info_ok (fb_info s)" "fb_enabled s" using assms(1) by (auto simp: fb_shape_def)
  have w: "w \<noteq> 0" "h \<noteq> 0" "\<not> w < w" using assms(3,5) by (auto simp: unat_gt_0)
  have s: "s32 w = int (unat w)" "s32 h = int (unat h)" using uint_of_unat [OF assms(4)] uint_of_unat [OF assms(6)] by (simp_all add: s32_small)
  let ?r = "rect4 x y (int (unat w)) (int (unat h))"
  show ?thesis
  proof (cases "rect_clip (fb_info s) ?r")
    case None
    with rect_clip_None [OF None g(1) assms(2)] show ?thesis
      by (auto simp: framebuffer_blit_def g w s in_rect4)
  next
    case (Some c)
    have i: "unat (ucast (u32_of (i32 (b - y))) * ucast w + ucast (u32_of (i32 (a - x))) :: u64) = nat (b - y) * unat w + nat (a - x)"
      if "in_rect ?r a b"
    proof -
      have ab: "0 \<le> b - y" "b - y < 32767" "0 \<le> a - x" "a - x < 32767" using that uint_of_unat [OF assms(4)] uint_of_unat [OF assms(6)] by (auto simp: in_rect4)
      then have e: "i32 (b - y) = b - y" "i32 (a - x) = a - x" by (intro i32_id; linarith)+
      have u: "unat (u32_of (i32 (b - y))) = nat (b - y)" "unat (u32_of (i32 (a - x))) = nat (a - x)"
        unfolding e using ab by (intro unat_u32_of; linarith)+
      have p: "nat (b - y) * unat w \<le> 32767 * 32767" by (rule mult_le_mono) (use ab assms(4) in auto)
      have "unat (ucast (u32_of (i32 (b - y))) * ucast w :: u64) = nat (b - y) * unat w"
        using p by (subst unat_mult_lem [THEN iffD1]) (simp_all add: u)
      with p ab u show ?thesis by (simp add: unat_add_small)
    qed
    have "fb_backbuffer (framebuffer_blit x y px w h w s) =
        for_rect c (\<lambda>dx dy m. m(pixel_index (i_width (fb_info s)) dy dx := fb_blend (m (pixel_index (i_width (fb_info s)) dy dx))
          (px (unat (ucast (u32_of (i32 (dy - y))) * ucast w + ucast (u32_of (i32 (dx - x))) :: u64))))) (fb_backbuffer s)"
      using Some by (simp add: framebuffer_blit_def g w s Let_def)
    with clip_loop_get [OF g(1) Some assms(2), of "\<lambda>dx dy d. fb_blend d (px (unat (ucast (u32_of (i32 (dy - y))) * ucast w +
          ucast (u32_of (i32 (dx - x))) :: u64)))" "fb_backbuffer s"] i
    show ?thesis by (simp add: in_rect4)
  qed
qed

lemma present_frame_fb [simp]: "dp_fb (present_frame A now s) = framebuffer_present A (dp_fb s)"
  by (simp add: present_frame_def Let_def)

lemma framebuffer_blit_frame [simp]:
  "fb_info (framebuffer_blit x y px w h p s) = fb_info s" "fb_enabled (framebuffer_blit x y px w h p s) = fb_enabled s"
  by (simp_all add: framebuffer_blit_def split: option.split)

lemma chunk_rows:
  fixes width height row :: u64
  assumes "width \<noteq> 0" "unat width \<le> 640" "row < height"
  defines "rows \<equiv> (if height - row > 640 div width then 640 div width else height - row)"
  shows "0 < unat rows" "unat rows * unat width \<le> 640" "unat rows \<le> 640" "unat row + unat rows \<le> unat height"
proof -
  have w: "0 < unat width" using assms(1) by (simp add: unat_gt_0)
  have d: "unat (640 div width) = 640 div unat width" by (simp add: unat_div_distrib)
  have s: "unat (height - row) = unat height - unat row" using assms(3) by (intro unat_sub) simp
  have l: "unat row < unat height" using assms(3) by (simp add: word_less_nat_alt)
  have u: "unat rows = min (640 div unat width) (unat height - unat row)"
    by (auto simp: rows_def d s word_less_nat_alt)
  have "0 < 640 div unat width" using w assms(2) by (simp add: div_greater_zero_iff)
  then show "0 < unat rows" using u l by simp
  have "unat rows * unat width \<le> 640 div unat width * unat width" using u by (intro mult_le_mono1) simp
  then show "unat rows * unat width \<le> 640" using div_times_less_eq_dividend le_trans by blast
  then show "unat rows \<le> 640" using w by (cases "unat width") auto
  show "unat row + unat rows \<le> unat height" using u l by simp
qed

text \<open>The image after the rows from \<open>row\<close> on were drawn.\<close>

definition image_from :: "display_user_submit \<Rightarrow> (nat \<Rightarrow> u32) \<Rightarrow> nat \<Rightarrow> fb_state \<Rightarrow> int \<Rightarrow> int \<Rightarrow> u32" where
  "image_from q user row s a b =
    (let x = int (unat (ds_x q)); y = int (unat (ds_y q)) in
     if x \<le> a \<and> a < x + int (unat (ds_width q)) \<and> y + int row \<le> b \<and> b < y + int (unat (ds_height q))
     then fb_blend (array_get (screen s) a b (fb_backbuffer s)) (user (nat (b - y) * unat (ds_width q) + nat (a - x)))
     else array_get (screen s) a b (fb_backbuffer s))"

definition submit_fits :: "display_user_submit \<Rightarrow> bool" where
  "submit_fits q \<longleftrightarrow> 0 < unat (ds_width q) \<and> unat (ds_width q) \<le> 640 \<and> 0 < unat (ds_height q) \<and> unat (ds_x q) < 2147483648 \<and>
     unat (ds_y q) + unat (ds_height q) \<le> 2147483648 \<and> ds_flags q AND NOT DISPLAY_SUBMIT_PRESENT = 0"

lemma ucast_small: "unat v \<le> 640 \<Longrightarrow> unat (ucast v :: u32) = unat v" for v :: u64
  by (rule unat_ucast_narrow32) simp

lemma s64_32_small: "unat v < 2147483648 \<Longrightarrow> s64_32 v = int (unat v)"
proof -
  assume "unat v < 2147483648"
  then have "uint v \<le> 2147483647" using uint_of_unat [of v 2147483647] by simp
  then have "i32 (uint v) = uint v" by (intro i32_id; use uint_ge_0 [of v] in linarith)
  then show ?thesis by (simp add: s64_32_def)
qed

lemma nat_shift: "y + int r \<le> b \<Longrightarrow> nat (b - y) = r + nat (b - (y + int r))"
  by simp

lemma submit_chunk_draws:
  assumes "fb_inv A (dp_fb s)" "submit_fits q" "0 < unat rows" "unat rows * unat (ds_width q) \<le> 640" "unat rows \<le> 640"
    and "unat row + unat rows \<le> unat (ds_height q)"
  obtains s' where "submit_chunk A now q user row rows s = (True, s')" "fb_inv A (dp_fb s')" "fb_info (dp_fb s') = fb_info (dp_fb s)"
    "\<And>a b. on_screen (fb_info (dp_fb s)) a b \<Longrightarrow> array_get (screen (dp_fb s)) a b (fb_backbuffer (dp_fb s')) =
      (let x = int (unat (ds_x q)); y = int (unat (ds_y q)) in
       if x \<le> a \<and> a < x + int (unat (ds_width q)) \<and> y + int (unat row) \<le> b \<and> b < y + int (unat row) + int (unat rows)
       then fb_blend (array_get (screen (dp_fb s)) a b (fb_backbuffer (dp_fb s))) (user (nat (b - y) * unat (ds_width q) + nat (a - x)))
       else array_get (screen (dp_fb s)) a b (fb_backbuffer (dp_fb s)))"
proof -
  let ?w = "unat (ds_width q)" and ?x = "int (unat (ds_x q))" and ?y = "int (unat (ds_y q))"
  let ?src = "\<lambda>i. user (unat (row * ds_width q) + i)"
  let ?m = "mem_copy (dp_bounce s) 0 (map ?src [0 ..< unat (ds_width q * rows)])"
  let ?t = "s\<lparr>dp_bounce := ?m\<rparr>"
  let ?q = "\<lparr>ds_x = ds_x q, ds_y = ds_y q + row, ds_width = ds_width q, ds_height = rows, ds_pixels = 0,
      ds_flags = (if row + rows = ds_height q then ds_flags q else 0)\<rparr>"
  have q: "0 < ?w" "?w \<le> 640" "unat (ds_x q) < 2147483648" "unat (ds_y q) + unat (ds_height q) \<le> 2147483648"
      "ds_flags q AND NOT 1 = 0" using assms(2) by (auto simp: submit_fits_def)
  have sh: "fb_shape (dp_fb s)" and en: "fb_enabled (dp_fb s)" using assms(1) by (auto simp: fb_inv_def fb_shape_def)
  have yr: "unat (ds_y q + row) = unat (ds_y q) + unat row" using q(4) assms(3,6) by (intro unat_add_small) simp
  have row_w: "unat (row * ds_width q) = unat row * ?w"
  proof -
    have "unat row * ?w \<le> 2147483648 * 640" by (rule mult_le_mono) (use q assms(6) in auto)
    then show ?thesis by (subst unat_mult_lem [THEN iffD1]) simp_all
  qed
  have cnt: "unat (ds_width q * rows) = ?w * unat rows"
    using assms(4) by (subst unat_mult_lem [THEN iffD1]) (simp_all add: mult.commute)
  have bounce: "?m i = user (unat row * ?w + i)" if "i < ?w * unat rows" for i
    using that by (simp add: mem_copy_apply cnt row_w)
  have nr: "\<not> submit_refused ?q ?t"
  proof -
    have "?w \<le> 4096 div unat rows"
      using assms(3,4) by (simp add: less_eq_div_iff_mult_less_eq mult.commute)
    then show ?thesis
      using q assms(3,5,6) yr en
      by (auto simp: submit_refused_def word_less_nat_alt unat_div_distrib unat_eq_zero)
  qed
  let ?b = "framebuffer_blit (s64_32 (ds_x q)) (s64_32 (ds_y q + row)) ?m (ucast (ds_width q)) (ucast rows) (ucast (ds_width q)) (dp_fb s)"
  let ?s1 = "?t\<lparr>dp_fb := ?b\<rparr>"
  let ?s2 = "if ds_flags ?q AND 1 \<noteq> 0 then present_frame A now ?s1 else ?s1"
  have run: "submit_chunk A now q user row rows s = (True, ?s2\<lparr>dp_pixels := dp_pixels ?s2 + ds_width q * rows\<rparr>)" (is "_ = (True, ?s')")
    using nr by (simp add: submit_chunk_def Let_def display_submit_def)
  have fbs: "dp_fb ?s' = (if ds_flags ?q AND 1 \<noteq> 0 then framebuffer_present A ?b else ?b)" by simp
  have bi: "fb_inv A ?b" using assms(1) by (simp add: fb_keeps)
  have i: "fb_inv A (dp_fb ?s')" unfolding fbs using bi framebuffer_present_keeps [OF bi] by simp
  have info: "fb_info (dp_fb ?s') = fb_info (dp_fb s)" unfolding fbs by simp
  have bb: "fb_backbuffer (dp_fb ?s') = fb_backbuffer ?b" unfolding fbs by simp
  have xs: "s64_32 (ds_x q) = ?x" "s64_32 (ds_y q + row) = ?y + int (unat row)"
    using q(3,4) assms(3,6) yr by (auto simp: s64_32_small)
  have "array_get (screen (dp_fb s)) a b (fb_backbuffer (dp_fb ?s')) =
      (if ?x \<le> a \<and> a < ?x + int ?w \<and> ?y + int (unat row) \<le> b \<and> b < ?y + int (unat row) + int (unat rows)
       then fb_blend (array_get (screen (dp_fb s)) a b (fb_backbuffer (dp_fb s))) (user (nat (b - ?y) * ?w + nat (a - ?x)))
       else array_get (screen (dp_fb s)) a b (fb_backbuffer (dp_fb s)))" if o: "on_screen (fb_info (dp_fb s)) a b" for a b
  proof -
    have "?m (nat (b - (?y + int (unat row))) * ?w + nat (a - ?x)) = user (nat (b - ?y) * ?w + nat (a - ?x))"
      if "?x \<le> a" "a < ?x + int ?w" "?y + int (unat row) \<le> b" "b < ?y + int (unat row) + int (unat rows)"
    proof -
      have lt: "nat (b - (?y + int (unat row))) * ?w + nat (a - ?x) < unat rows * ?w"
        using that by (intro row_major_less) (auto simp: nat_less_iff)
      have "nat (b - ?y) = unat row + nat (b - (?y + int (unat row)))" using that(3) by (rule nat_shift)
      then show ?thesis using bounce [of "nat (b - (?y + int (unat row))) * ?w + nat (a - ?x)"] lt
        by (simp add: mult.commute [of ?w] distrib_right add.assoc)
    qed
    with blit_get [OF sh o, of "ucast (ds_width q)" "ucast rows" "s64_32 (ds_x q)" "s64_32 (ds_y q + row)" ?m] q assms(3,5)
    show ?thesis unfolding bb by (simp add: ucast_small xs)
  qed
  with run i info show thesis by (intro that [of ?s']) (simp_all only: Let_def)
qed

lemma submit_chunks_draws:
  assumes "submit_fits q" "fb_inv A (dp_fb s)" "unat row \<le> unat (ds_height q)"
  shows "\<exists>s'. submit_chunks A now q user row s = Some (True, s') \<and> fb_inv A (dp_fb s') \<and> fb_info (dp_fb s') = fb_info (dp_fb s) \<and>
    (\<forall>a b. on_screen (fb_info (dp_fb s)) a b \<longrightarrow>
       array_get (screen (dp_fb s)) a b (fb_backbuffer (dp_fb s')) = image_from q user (unat row) (dp_fb s) a b)"
  using assms(2,3)
proof (induction "unat (ds_height q) - unat row" arbitrary: row s rule: less_induct)
  case less
  have w: "ds_width q \<noteq> 0" "unat (ds_width q) \<le> 640" using assms(1) by (auto simp: submit_fits_def unat_gt_0)
  show ?case
  proof (cases "row < ds_height q")
    case False
    then have "unat row = unat (ds_height q)" using less.prems(2) by (simp add: word_less_nat_alt)
    with less.prems False show ?thesis
      by (subst submit_chunks.simps) (auto simp: image_from_def Let_def)
  next
    case True
    define rows where "rows = (if ds_height q - row > 640 div ds_width q then 640 div ds_width q else ds_height q - row)"
    note cr = chunk_rows [OF w True, folded rows_def]
    obtain t where t: "submit_chunk A now q user row rows s = (True, t)" "fb_inv A (dp_fb t)" "fb_info (dp_fb t) = fb_info (dp_fb s)"
        "\<And>a b. on_screen (fb_info (dp_fb s)) a b \<Longrightarrow> array_get (screen (dp_fb s)) a b (fb_backbuffer (dp_fb t)) =
          (let x = int (unat (ds_x q)); y = int (unat (ds_y q)) in
           if x \<le> a \<and> a < x + int (unat (ds_width q)) \<and> y + int (unat row) \<le> b \<and> b < y + int (unat row) + int (unat rows)
           then fb_blend (array_get (screen (dp_fb s)) a b (fb_backbuffer (dp_fb s))) (user (nat (b - y) * unat (ds_width q) + nat (a - x)))
           else array_get (screen (dp_fb s)) a b (fb_backbuffer (dp_fb s)))"
      using submit_chunk_draws [OF less.prems(1) assms(1) cr(1-4), of now user] by blast
    have hb: "unat (ds_height q) \<le> 2147483648" using assms(1) by (auto simp: submit_fits_def)
    have nxt: "unat (row + rows) = unat row + unat rows" using cr(4) hb by (intro unat_add_small) simp
    have "\<exists>s'. submit_chunks A now q user (row + rows) t = Some (True, s') \<and> fb_inv A (dp_fb s') \<and> fb_info (dp_fb s') = fb_info (dp_fb t) \<and>
        (\<forall>a b. on_screen (fb_info (dp_fb t)) a b \<longrightarrow>
           array_get (screen (dp_fb t)) a b (fb_backbuffer (dp_fb s')) = image_from q user (unat (row + rows)) (dp_fb t) a b)"
      using cr nxt t(2) by (intro less.hyps) auto
    then obtain s' where s': "submit_chunks A now q user (row + rows) t = Some (True, s')" "fb_inv A (dp_fb s')" "fb_info (dp_fb s') = fb_info (dp_fb s)"
        "\<And>a b. on_screen (fb_info (dp_fb s)) a b \<Longrightarrow>
           array_get (screen (dp_fb s)) a b (fb_backbuffer (dp_fb s')) = image_from q user (unat (row + rows)) (dp_fb t) a b"
      using t(3) by auto
    have "image_from q user (unat (row + rows)) (dp_fb t) a b = image_from q user (unat row) (dp_fb s) a b"
      if "on_screen (fb_info (dp_fb s)) a b" for a b
    proof -
      have "int (unat row) + int (unat rows) \<le> int (unat (ds_height q))" "0 \<le> int (unat rows)" using cr(4) by linarith+
      then show ?thesis using t(4) [OF that] unfolding image_from_def Let_def nxt t(3) of_nat_add by (smt (verit))
    qed
    moreover have "submit_chunks A now q user row s = submit_chunks A now q user (row + rows) t"
      using True t(1) by (subst submit_chunks.simps) (simp add: rows_def Let_def)
    ultimately show ?thesis using s' by auto
  qed
qed

lemma user_submit_accepted:
  assumes "\<not> user_submit_refused q s" "fb_inv A (dp_fb s)"
  shows "submit_fits q"
proof -
  obtain info where i: "display_describe s = Some info" using assms(1) by (cases "display_describe s") (auto simp: user_submit_refused_def)
  have r: "ds_width q \<noteq> 0" "ds_height q \<noteq> 0" "ds_width q \<le> 640" "ds_x q \<le> 0x7FFFFFFF" "ds_y q \<le> 0x7FFFFFFF"
      "ds_height q \<le> 0x80000000 - ds_y q" "ds_flags q AND NOT 1 = 0"
    using assms(1) by (auto simp: user_submit_refused_def i not_less)
  have y: "unat (ds_y q) \<le> 2147483647" using word_le_nat_alt [THEN iffD1, OF r(5)] by simp
  have "unat (0x80000000 - ds_y q) = 2147483648 - unat (ds_y q)"
    using y by (subst unat_sub) (simp_all add: word_le_nat_alt)
  then have "unat (ds_y q) + unat (ds_height q) \<le> 2147483648"
    using word_le_nat_alt [THEN iffD1, OF r(6)] y by simp
  then show ?thesis
    using r(1,2,7) word_le_nat_alt [THEN iffD1, OF r(3)] word_le_nat_alt [THEN iffD1, OF r(4)]
    by (simp add: submit_fits_def unat_gt_0)
qed


section \<open>Effects draw inside the region they mark\<close>

definition draws :: "rect \<Rightarrow> graphics_surface \<Rightarrow> graphics_surface \<Rightarrow> bool" where
  "draws r s s' \<longleftrightarrow> gfx_ok s' \<and> g_stride s' = g_stride s \<and> g_clip s' = g_clip s \<and>
     (\<forall>k. g_pixels s' k \<noteq> g_pixels s k \<longrightarrow> (\<exists>x y. in_rect (g_clip s) x y \<and> in_rect r x y \<and> k = pixel_index (g_stride s) y x))"

lemma draws_refl: "gfx_ok s \<Longrightarrow> draws r s s"
  by (simp add: draws_def)

lemma draws_trans: "draws r s t \<Longrightarrow> draws r t u \<Longrightarrow> draws r s u"
  unfolding draws_def by metis

lemma draws_mono:
  "draws r s s' \<Longrightarrow> (\<And>x y. in_rect (g_clip s) x y \<Longrightarrow> in_rect r x y \<Longrightarrow> in_rect r' x y) \<Longrightarrow> draws r' s s'"
  unfolding draws_def by blast

lemma draws_fold:
  assumes "\<And>x t. x \<in> set xs \<Longrightarrow> gfx_ok t \<Longrightarrow> g_clip t = g_clip s \<Longrightarrow> draws r t (f x t)" "gfx_ok s"
  shows "draws r s (fold f xs s)"
  using assms
proof (induction xs arbitrary: s)
  case (Cons x xs)
  have d: "draws r s (f x s)" using Cons.prems by simp
  then have t: "gfx_ok (f x s)" "g_clip (f x s) = g_clip s" by (auto simp: draws_def)
  have "draws r (f x s) (fold f xs (f x s))" using Cons.prems(1) t by (intro Cons.IH) auto
  with d show ?case using draws_trans by simp
qed (simp add: draws_refl)

lemma clipped_loop_draws:
  assumes "gfx_ok s" "intersect r (g_clip s) = Some c" "\<And>x y m k. f x y m k \<noteq> m k \<Longrightarrow> k = pixel_index (g_stride s) y x"
  shows "draws r s (damage c (s\<lparr>g_pixels := for_rect c f (g_pixels s)\<rparr>))"
proof -
  have "\<exists>x y. in_rect (g_clip s) x y \<and> in_rect r x y \<and> k = pixel_index (g_stride s) y x"
    if k: "for_rect c f (g_pixels s) k \<noteq> g_pixels s k" for k
  proof -
    obtain x y where "in_rect c x y" "k = pixel_index (g_stride s) y x"
      using for_rect_changes [of c f k "g_stride s" "g_pixels s"] clip_intersect(2) [OF assms(1,2)] assms(3) k by blast
    with clip_intersect(1) [OF assms(1,2)] show ?thesis by blast
  qed
  then show ?thesis
    using painted_ok [OF clipped_loop_paints [of s r c f, OF assms]] by (simp add: draws_def)
qed

lemma fill_rect_draws: "gfx_ok s \<Longrightarrow> draws r s (graphics_fill_rect r argb s)"
  using clipped_loop_draws [OF _ _ blend_at_changes]
  by (auto simp: graphics_fill_rect_def fill_rect_loop draws_refl split: option.split)

lemma rounded_rect_draws: "gfx_ok s \<Longrightarrow> draws r s (graphics_rounded_rect r radius argb s)"
  using blend_at_changes
  by (force simp: graphics_rounded_rect_def draws_refl split: option.split if_splits intro!: clipped_loop_draws)

lemma blit_draws: "gfx_ok s \<Longrightarrow> draws (rect4 x y (s32 w) (s32 h)) s (graphics_blit x y px w h st s)"
  using blend_at_changes
  by (force simp: graphics_blit_def draws_refl split: option.split intro!: clipped_loop_draws)

lemma clip_nonneg: "gfx_ok s \<Longrightarrow> in_rect (g_clip s) x y \<Longrightarrow> 0 \<le> x \<and> 0 \<le> y \<and> x < 32767 \<and> y < 32767"
  by (auto simp: gfx_ok_def rect_inside_def in_rect_def)

text \<open>The rectangle of a request: coordinates up to \<open>INT32_MAX\<close> and a positive extent.\<close>

definition request_rect :: "rect \<Rightarrow> bool" where
  "request_rect r \<longleftrightarrow> 0 \<le> r_x r \<and> r_x r \<le> 2147483647 \<and> 0 \<le> r_y r \<and> r_y r \<le> 2147483647 \<and>
     0 < r_width r \<and> r_width r \<le> 2147483647 \<and> 0 < r_height r \<and> r_height r \<le> 2147483647"

lemma i32_big:
  assumes "2147483648 \<le> v" "v < 6442450944"
  shows "i32 v = v - 4294967296"
proof -
  have "(v + 2147483648) mod 4294967296 = ((v - 2147483648) + 4294967296) mod 4294967296" by (simp add: add.commute)
  also have "\<dots> = v - 2147483648" using assms unfolding mod_add_self2 by (intro mod_pos_pos_trivial) auto
  finally show ?thesis by (simp add: i32_def)
qed

lemma i32_wrap: "0 \<le> v \<Longrightarrow> v < 4294967296 \<Longrightarrow> i32 v = v \<or> i32 v < 0"
  by (cases "v < 2147483648") (auto simp: i32_id i32_big)

lemma gradient_draws:
  assumes "gfx_ok s" "request_rect r"
  shows "draws r s (graphics_gradient_vertical r c0 c1 s)"
proof -
  have "draws r t (graphics_fill_rect (rect4 (r_x r) (i32 (r_y r + k)) (r_width r) 1) c t)"
    if "k \<in> set [0 .. r_height r - 1]" "gfx_ok t" for k c t
  proof (rule draws_mono [OF fill_rect_draws [OF that(2)]])
    fix x y assume c: "in_rect (g_clip t) x y" and "in_rect (rect4 (r_x r) (i32 (r_y r + k)) (r_width r) 1) x y"
    moreover have "i32 (r_y r + k) = r_y r + k \<or> i32 (r_y r + k) < 0" using that(1) assms(2) by (intro i32_wrap) (auto simp: request_rect_def)
    ultimately show "in_rect r x y" using clip_nonneg [OF that(2) c] that(1) unfolding in_rect_def by auto
  qed
  then show ?thesis
    using assms by (auto simp: graphics_gradient_vertical_def Let_def draws_refl intro!: draws_fold)
qed

lemma rounded_border_draws:
  assumes "gfx_ok s" "request_rect r" "unat th < 1073741824"
  shows "draws r s (graphics_rounded_border r radius th b f s)"
proof -
  let ?s = "graphics_rounded_rect r radius b s"
  have rr: "0 \<le> r_x r" "r_x r \<le> 2147483647" "0 \<le> r_y r" "r_y r \<le> 2147483647" "r_width r \<le> 2147483647" "r_height r \<le> 2147483647"
    using assms(2) by (auto simp: request_rect_def)
  let ?inner = "rect4 (i32 (r_x r + s32 th)) (i32 (r_y r + s32 th)) (i32 (r_width r - s32 (2 * th))) (i32 (r_height r - s32 (2 * th)))"
  have d: "draws r s ?s" using rounded_rect_draws [OF assms(1)] .
  then have ok: "gfx_ok ?s" by (simp add: draws_def)
  have t: "0 \<le> uint th" "uint th < 1073741824" using uint_of_unat [of th 1073741823] assms(3) by simp_all
  have t2: "unat (2 * th) = 2 * unat th" using assms(3) unat_mult_lem [THEN iffD1, of 2 th] by simp
  then have u2: "uint (2 * th) = 2 * uint th" by (metis of_nat_mult of_nat_numeral uint_nat)
  have s: "s32 th = uint th" "s32 (2 * th) = 2 * uint th" unfolding s32_def u2 by (rule i32_id; use t in linarith)+
  have "draws r ?s (graphics_rounded_rect ?inner rad f ?s)" if w: "\<not> th * 2 \<ge> u32_of (r_width r)" "\<not> th * 2 \<ge> u32_of (r_height r)" for rad
  proof (rule draws_mono [OF rounded_rect_draws [OF ok]])
    fix x y assume c: "in_rect (g_clip ?s) x y" and i: "in_rect ?inner x y"
    have u: "unat (u32_of (r_width r)) = nat (r_width r)" "unat (u32_of (r_height r)) = nat (r_height r)"
      using assms(2) by (auto simp: request_rect_def intro!: unat_u32_of)
    have lt: "2 * uint th < r_width r" "2 * uint th < r_height r"
    proof -
      have "2 * unat th < nat (r_width r)" "2 * unat th < nat (r_height r)"
        using w u t2 by (simp_all add: not_le word_less_nat_alt mult.commute)
      then have "int (2 * unat th) < r_width r" "int (2 * unat th) < r_height r" by linarith+
      then show "2 * uint th < r_width r" "2 * uint th < r_height r" by simp_all
    qed
    have e: "i32 (r_width r - 2 * uint th) = r_width r - 2 * uint th" "i32 (r_height r - 2 * uint th) = r_height r - 2 * uint th"
      by (rule i32_id; use lt t rr in linarith)+
    have b: "i32 (r_x r + uint th) \<le> x" "x < i32 (r_x r + uint th) + (r_width r - 2 * uint th)"
        "i32 (r_y r + uint th) \<le> y" "y < i32 (r_y r + uint th) + (r_height r - 2 * uint th)" "0 \<le> x" "0 \<le> y"
      using i clip_nonneg [OF ok c] unfolding s e in_rect4 by simp_all
    have small: "i32 (v + uint th) = v + uint th"
      if "0 \<le> v" "v \<le> 2147483647" "0 < i32 (v + uint th) + (n - 2 * uint th)" "n \<le> 2147483647" for v n
    proof (cases "v + uint th < 2147483648")
      case True
      then show ?thesis by (intro i32_id; use that t in linarith)
    next
      case False
      then have "i32 (v + uint th) = v + uint th - 4294967296" by (intro i32_big; use that t in linarith)
      with that t show ?thesis by linarith
    qed
    have "i32 (r_x r + uint th) = r_x r + uint th" by (rule small [of _ "r_width r"]) (use rr b in linarith)+
    moreover have "i32 (r_y r + uint th) = r_y r + uint th" by (rule small [of _ "r_height r"]) (use rr b in linarith)+
    ultimately show "in_rect r x y" using b t(1) unfolding in_rect_def by (intro conjI; linarith)
  qed
  with d show ?thesis
    unfolding graphics_rounded_border_def Let_def using draws_trans by (auto simp: draws_refl)
qed

lemma i32_mod: "i32 (v mod 4294967296) = i32 v"
  by (simp add: i32_def mod_add_left_eq)

lemma s64_32_ucast: "s64_32 v = s32 (ucast v)"
  by (simp add: s64_32_def s32_def unsigned_ucast_eq take_bit_eq_mod i32_mod)

lemma shadow_layer_le:
  fixes spread layers :: u32
  assumes "unat spread \<le> 32" "k < unat layers" "unat layers \<le> 3"
  shows "unat (spread - spread * of_nat k div layers) \<le> unat spread"
proof -
  have k: "unat (of_nat k :: u32) = k" using assms(2,3) by (intro unat_of_nat_u32) simp
  have "unat spread * k \<le> 32 * 2" by (rule mult_le_mono) (use assms in auto)
  then have "unat (spread * of_nat k) = unat spread * k" using unat_mult_lem [THEN iffD1, of spread "of_nat k"] k by simp
  moreover have "unat spread * k \<le> unat spread * unat layers" using assms(2) by simp
  ultimately have "unat (spread * of_nat k div layers) \<le> unat spread"
    using assms(2) by (simp add: unat_div_distrib div_le_mono [of _ "unat spread * unat layers" "unat layers", THEN order_trans])
  then show ?thesis by (subst unat_sub) (simp_all add: word_le_nat_alt)
qed

lemma shadow_draws:
  fixes spread :: u32
  assumes "gfx_ok s" "request_rect r" "r_width r \<le> 2147483583" "r_height r \<le> 2147483583"
  defines "m \<equiv> min (uint spread) 32"
  shows "draws (rect4 (r_x r - m) (r_y r - m) (r_width r + 2 * m) (r_height r + 2 * m)) s (graphics_shadow r radius spread argb s)"
proof -
  define sp where "sp = (if spread > 32 then 32 else spread)"
  define layers where "layers = (if sp < 3 then sp else 3)"
  have sp: "unat sp \<le> 32" "unat layers \<le> 3" by (auto simp: sp_def layers_def word_less_nat_alt not_less)
  have m: "uint sp \<le> m" by (auto simp: sp_def m_def word_less_def not_less)
  have rr: "0 \<le> r_x r" "r_x r \<le> 2147483647" "0 \<le> r_y r" "r_y r \<le> 2147483647" using assms(2) by (auto simp: request_rect_def)
  have "draws (rect4 (r_x r - m) (r_y r - m) (r_width r + 2 * m) (r_height r + 2 * m)) t
      (graphics_rounded_rect (rect4 (i32 (r_x r - s32 i)) (i32 (r_y r - s32 i)) (i32 (r_width r + s32 (2 * i))) (i32 (r_height r + s32 (2 * i)))) rad c t)"
    if "gfx_ok t" and iu: "unat i \<le> unat sp" for i rad c t
  proof (rule draws_mono [OF rounded_rect_draws [OF that(1)]])
    fix x y assume i: "in_rect (rect4 (i32 (r_x r - s32 i)) (i32 (r_y r - s32 i)) (i32 (r_width r + s32 (2 * i))) (i32 (r_height r + s32 (2 * i)))) x y"
    have u: "0 \<le> uint i" "uint i \<le> uint sp" "uint i \<le> 32"
      using iu uint_of_unat [OF order_trans [OF iu sp(1)]] by (simp_all add: word_le_nat_alt [symmetric] word_le_def)
    have "unat (2 * i) = 2 * unat i" using iu sp(1) unat_mult_lem [THEN iffD1, of 2 i] by simp
    then have u2: "uint (2 * i) = 2 * uint i" by (metis of_nat_mult of_nat_numeral uint_nat)
    have s: "s32 i = uint i" "s32 (2 * i) = 2 * uint i" unfolding s32_def u2 by (rule i32_id; use u in linarith)+
    have w: "0 < r_width r" "0 < r_height r" using assms(2) by (auto simp: request_rect_def)
    have e: "i32 (r_x r - uint i) = r_x r - uint i" "i32 (r_y r - uint i) = r_y r - uint i"
        "i32 (r_width r + 2 * uint i) = r_width r + 2 * uint i" "i32 (r_height r + 2 * uint i) = r_height r + 2 * uint i"
      by (rule i32_id; use u rr w assms(3,4) in linarith)+
    have "r_x r - uint i \<le> x" "x < r_x r - uint i + (r_width r + 2 * uint i)" "r_y r - uint i \<le> y" "y < r_y r - uint i + (r_height r + 2 * uint i)"
      using i unfolding s e in_rect4 by simp_all
    then show "in_rect (rect4 (r_x r - m) (r_y r - m) (r_width r + 2 * m) (r_height r + 2 * m)) x y"
      unfolding in_rect4 using u m by (intro conjI; linarith)
  qed
  note layer = this
  show ?thesis
    unfolding graphics_shadow_def Let_def sp_def [symmetric] layers_def [symmetric]
    by (intro draws_fold [OF _ assms(1)] layer shadow_layer_le [OF sp(1) _ sp(2)]) auto
qed

lemma wallpaper_draws:
  assumes "gfx_ok g" "g_clip g = bounds g" "unat (de_x q) \<le> 2147483647" "unat (de_y q) \<le> 2147483647"
    and "unat (de_width q) \<le> 2147483647" "unat (de_height q) \<le> 2147483647"
  shows "draws (effect_rect q) g (draw_wallpaper q wallpaper g)"
proof -
  let ?ex = "wallpaper_span (de_x q) (de_width q) (2 * 320) (g_width g)" and ?ey = "wallpaper_span (de_y q) (de_height q) (2 * 240) (g_height g)"
  let ?put = "\<lambda>dy dx m. m(unat (of_nat dy * ucast (g_stride g) + of_nat dx :: u64) := wallpaper (dy div 2 * 320 + dx div 2))"
  have sum: "unat (de_x q + de_width q) = unat (de_x q) + unat (de_width q)" "unat (de_y q + de_height q) = unat (de_y q) + unat (de_height q)"
    using assms(3-6) by (simp_all add: unat_add_small)
  have ends: "unat ?ex \<le> unat (g_width g)" "unat ?ex \<le> unat (de_x q) + unat (de_width q)"
      "unat ?ey \<le> unat (g_height g)" "unat ?ey \<le> unat (de_y q) + unat (de_height q)"
    by (auto simp: wallpaper_span_def Let_def word_less_nat_alt not_less sum)
  have eff: "effect_rect q = rect4 (int (unat (de_x q))) (int (unat (de_y q))) (int (unat (de_width q))) (int (unat (de_height q)))"
    using assms(3-6) by (simp add: effect_rect_def s64_32_small)
  have "\<exists>x y. in_rect (g_clip g) x y \<and> in_rect (effect_rect q) x y \<and> k = pixel_index (g_stride g) y x"
    if k: "fold (\<lambda>dy. fold (?put dy) [unat (de_x q) ..< unat ?ex]) [unat (de_y q) ..< unat ?ey] m k \<noteq> m k" for k m
  proof -
    have "\<exists>dy \<in> set [unat (de_y q) ..< unat ?ey]. \<exists>dx \<in> set [unat (de_x q) ..< unat ?ex]. k = unat (of_nat dy * ucast (g_stride g) + of_nat dx :: u64)"
    proof (rule ccontr)
      assume n: "\<not> ?thesis"
      have row: "fold (?put dy) xs m k = m k"
        if "dy \<in> set [unat (de_y q) ..< unat ?ey]" "set xs \<subseteq> set [unat (de_x q) ..< unat ?ex]" for dy xs m
        using that n by (induction xs arbitrary: m) auto
      have "fold (\<lambda>dy. fold (?put dy) [unat (de_x q) ..< unat ?ex]) ys m k = m k" if "set ys \<subseteq> set [unat (de_y q) ..< unat ?ey]" for ys m
        using that row [OF _ subset_refl] by (induction ys arbitrary: m) auto
      with k show False by blast
    qed
    then obtain dy dx where d: "unat (de_y q) \<le> dy" "dy < unat ?ey" "unat (de_x q) \<le> dx" "dx < unat ?ex"
        "k = unat (of_nat dy * ucast (g_stride g) + of_nat dx :: u64)" by auto
    have "int dx < int (unat (g_width g))" "int dy < int (unat (g_height g))" using d ends by linarith+
    then have "in_rect (g_clip g) (int dx) (int dy)" unfolding assms(2) bounds_ok [OF assms(1)] by (simp add: in_rect4)
    moreover have "in_rect (effect_rect q) (int dx) (int dy)" using d ends unfolding eff in_rect4 by (intro conjI) linarith+
    moreover have "k = pixel_index (g_stride g) (int dy) (int dx)" using d(5) by (simp add: pixel_index_def)
    ultimately show ?thesis by blast
  qed
  then show ?thesis
    using assms(1) unfolding draws_def draw_wallpaper_def Let_def by (auto simp: gfx_ok_def)
qed

text \<open>
  A request whose marked region covers what it draws. The other requests are the ones the code gets wrong: an
  image drawn at its own size although a smaller rectangle was requested and marked, a spread or thickness that
  is negative as a signed number, and a shadow whose widened rectangle overflows.
\<close>

definition effect_covered :: "display_user_effect \<Rightarrow> bool" where
  "effect_covered q \<longleftrightarrow>
     (de_kind q = 1 \<longrightarrow> unat (ucast (de_arg1 q) :: u32) < 1073741824) \<and>
     (de_kind q = 3 \<longrightarrow> unat (ucast (de_arg2 q) :: u32) < 2147483648 \<and> unat (de_width q) \<le> 2147483583 \<and> unat (de_height q) \<le> 2147483583) \<and>
     (de_kind q = 5 \<longrightarrow> 10 \<le> de_width q \<and> 10 \<le> de_height q) \<and>
     (6 \<le> de_kind q \<longrightarrow> 22 \<le> de_width q \<and> 22 \<le> de_height q)"

lemma effect_accepted:
  assumes "\<not> effect_refused q s"
  shows "unat (de_x q) \<le> 2147483647" "unat (de_y q) \<le> 2147483647" "unat (de_width q) \<le> 2147483647" "unat (de_height q) \<le> 2147483647"
    "0 < unat (de_width q)" "0 < unat (de_height q)" "de_kind q \<le> 7"
  using assms by (auto simp: effect_refused_def not_less word_le_nat_alt unat_gt_0)

lemma effect_rect_nat:
  assumes "\<not> effect_refused q s"
  shows "effect_rect q = rect4 (uint (de_x q)) (uint (de_y q)) (uint (de_width q)) (uint (de_height q))" "request_rect (effect_rect q)"
proof -
  note a = effect_accepted [OF assms]
  show e: "effect_rect q = rect4 (uint (de_x q)) (uint (de_y q)) (uint (de_width q)) (uint (de_height q))"
    using a by (simp add: effect_rect_def s64_32_small)
  have "0 < uint (de_width q)" "0 < uint (de_height q)" using a(5,6) by (metis of_nat_0_less_iff uint_nat)+
  then show "request_rect (effect_rect q)"
    unfolding e request_rect_def using uint_of_unat [OF a(1)] uint_of_unat [OF a(2)] uint_of_unat [OF a(3)] uint_of_unat [OF a(4)] by simp
qed

lemma image_draws:
  assumes "draw_image q px w h g = Some g'" "gfx_ok g" "\<not> effect_refused q s" "uint w \<le> 32767" "uint h \<le> 32767"
    and "uint w \<le> uint (de_width q)" "uint h \<le> uint (de_height q)"
  shows "draws (effect_rect q) g g'"
proof -
  note a = effect_accepted [OF assms(3)]
  obtain pix where g': "g' = graphics_blit (s64_32 (de_x q)) (s64_32 (de_y q)) pix w h w g"
    using assms(1) by (auto simp: draw_image_def)
  show ?thesis
    unfolding g' by (rule draws_mono [OF blit_draws [OF assms(2)]])
      (use assms(4-7) a in \<open>auto simp: effect_rect_nat(1) [OF assms(3)] in_rect4 s64_32_small s32_small\<close>)
qed

lemma shadow_effect_draws:
  assumes "de_kind q = 3" "effect_covered q" "gfx_ok g" "\<not> effect_refused q s"
  shows "draws (effect_mark q) g (graphics_shadow (effect_rect q) radius (ucast (de_arg2 q)) argb g)"
proof -
  let ?sp = "ucast (de_arg2 q) :: u32" and ?r = "effect_rect q"
  note e = effect_rect_nat [OF assms(4)]
  have c: "unat ?sp \<le> 2147483647" "unat (de_width q) \<le> 2147483583" "unat (de_height q) \<le> 2147483583"
    using assms(1,2) by (auto simp: effect_covered_def)
  have wd: "r_width ?r \<le> 2147483583" "r_height ?r \<le> 2147483583"
    using uint_of_unat [OF c(2)] uint_of_unat [OF c(3)] unfolding e by simp_all
  have "uint ?sp \<le> 2147483647" using uint_of_unat [OF c(1)] by simp
  then have sp: "s64_32 (de_arg2 q) = uint ?sp"
    unfolding s64_32_ucast s32_def by (intro i32_id; use uint_ge_0 [of ?sp] in linarith)
  define m where "m = min (uint ?sp) 32"
  have m: "(if uint ?sp > 32 then 32 else uint ?sp) = m" "0 \<le> m" "m \<le> 32" by (auto simp: m_def)
  have rr: "0 \<le> r_x ?r" "r_x ?r \<le> 2147483647" "0 \<le> r_y ?r" "r_y ?r \<le> 2147483647" "0 < r_width ?r" "0 < r_height ?r"
    using e(2) by (auto simp: request_rect_def)
  have i: "i32 (r_x ?r - m) = r_x ?r - m" "i32 (r_y ?r - m) = r_y ?r - m" "i32 (2 * m) = 2 * m"
      "i32 (r_width ?r + 2 * m) = r_width ?r + 2 * m" "i32 (r_height ?r + 2 * m) = r_height ?r + 2 * m"
    by (rule i32_id; use m rr wd in linarith)+
  have "effect_mark q = rect4 (r_x ?r - m) (r_y ?r - m) (r_width ?r + 2 * m) (r_height ?r + 2 * m)"
    unfolding effect_mark_def Let_def sp m(1) i by (simp add: assms(1))
  then show ?thesis using shadow_draws [OF assms(3) e(2) wd, of ?sp radius argb] by (simp add: m_def)
qed

lemma draw_effect_draws:
  assumes "draw_effect A q g = Some g'" "effect_covered q" "gfx_ok g" "g_clip g = bounds g" "\<not> effect_refused q s"
  shows "draws (effect_mark q) g g'"
proof -
  note a = effect_accepted [OF assms(5)] and e = effect_rect_nat [OF assms(5)]
  have w: "uint (ten :: u32) \<le> uint (de_width q) \<and> uint ten \<le> uint (de_height q)" if "ucast ten \<le> de_width q" "ucast ten \<le> de_height q" for ten
    using that by (simp add: word_le_def unsigned_ucast_eq take_bit_int_eq_self [OF uint_ge_0] less_trans [OF uint_lt2p])
  consider "de_kind q = 0" | "de_kind q = 1" | "de_kind q = 2" | "de_kind q = 3" | "de_kind q = 4" | "de_kind q = 5" | "6 \<le> de_kind q"
  proof -
    have "unat (de_kind q) < 8" using a(7) by (simp add: word_le_nat_alt)
    then have "unat (de_kind q) = 0 \<or> unat (de_kind q) = 1 \<or> unat (de_kind q) = 2 \<or> unat (de_kind q) = 3 \<or> unat (de_kind q) = 4 \<or>
        unat (de_kind q) = 5 \<or> 6 \<le> unat (de_kind q)" by linarith
    then show thesis using that by (auto simp: word_unat_eq_iff word_le_nat_alt)
  qed
  then show ?thesis
  proof cases
    case 1
    with assms(1) rounded_rect_draws [OF assms(3)] show ?thesis by (auto simp: draw_effect_def effect_mark_def Let_def)
  next
    case 2
    with assms(1,2) rounded_border_draws [OF assms(3) e(2)] show ?thesis by (auto simp: draw_effect_def effect_mark_def Let_def effect_covered_def)
  next
    case 3
    with assms(1) gradient_draws [OF assms(3) e(2)] show ?thesis by (auto simp: draw_effect_def effect_mark_def Let_def)
  next
    case 4
    with assms(1) shadow_effect_draws [OF 4 assms(2,3,5)] show ?thesis by (auto simp: draw_effect_def Let_def)
  next
    case 5
    with assms(1) wallpaper_draws [OF assms(3,4) a(1-4)] show ?thesis by (auto simp: draw_effect_def effect_mark_def Let_def)
  next
    case 6
    then have d: "draw_image q (demon_ui_icon_pixels (de_arg1 q) A) 10 10 g = Some g'"
      using assms(1) by (auto simp: draw_effect_def Let_def split: if_splits)
    from 6 assms(2) image_draws [OF d assms(3,5)] w [of 10] show ?thesis by (simp add: effect_mark_def effect_covered_def)
  next
    case 7
    then have k: "de_kind q \<noteq> 0" "de_kind q \<noteq> 1" "de_kind q \<noteq> 2" "de_kind q \<noteq> 3" "de_kind q \<noteq> 4" "de_kind q \<noteq> 5"
      by (auto simp: word_le_nat_alt)
    then obtain px where d: "draw_image q px 22 22 g = Some g'"
      using assms(1) by (auto simp: draw_effect_def Let_def split: if_splits)
    from 7 k assms(2) image_draws [OF d assms(3,5)] w [of 22] show ?thesis by (simp add: effect_mark_def effect_covered_def)
  qed
qed

text \<open>
  An effect keeps the screen in step. If the region an effect request marks covers what it draws, then after
  \<open>display_submit_effect\<close>, whether or not it presented, the screen still shows the scene with the cursor over it
  everywhere outside the damage; when it presented, everywhere.
\<close>

theorem effect_keeps_screen:
  assumes "fb_inv A (dp_fb s)" "effect_covered q" "display_submit_effect A now q s = (ok, s')"
  shows "fb_inv A (dp_fb s') \<and> fb_info (dp_fb s') = fb_info (dp_fb s) \<and> (ok \<and> de_flags q = 1 \<longrightarrow> \<not> fb_dirty (dp_fb s'))"
proof (cases "\<exists>g g'. \<not> effect_refused q s \<and> framebuffer_backbuffer_surface (dp_fb s) = Some g \<and> draw_effect A q g = Some g'")
  case False
  then show ?thesis using assms(1,3) by (auto simp: display_submit_effect_def split: if_splits option.splits)
next
  case True
  then obtain g g' where r: "\<not> effect_refused q s" and g: "framebuffer_backbuffer_surface (dp_fb s) = Some g" and g': "draw_effect A q g = Some g'" by blast
  let ?fb = "dp_fb s"
  have io: "info_ok (fb_info ?fb)" using assms(1) by (simp add: fb_inv_def fb_shape_def)
  have gd: "g_pixels g = fb_backbuffer ?fb" "g_stride g = i_width (fb_info ?fb)" "g_width g = i_width (fb_info ?fb)"
      "g_height g = i_height (fb_info ?fb)" "g_clip g = bounds g" "\<not> g_dirty g"
    using g by (auto simp: framebuffer_backbuffer_surface_def graphics_surface_init_def bounds_def split: if_splits)
  have ok: "gfx_ok g"
    using io bounds_inside [of "g\<lparr>g_clip := rect4 0 0 0 0\<rparr>"] info_ok_small [OF io]
    by (simp add: gfx_ok_def gd bounds_def rect_inside_def s32_small)
  have d: "draws (effect_mark q) g g'" using draw_effect_draws [OF g' assms(2) ok gd(5) r] .
  let ?t = "framebuffer_mark_dirty (effect_mark q) (?fb\<lparr>fb_backbuffer := g_pixels g'\<rparr>)"
  have t: "fb_inv A ?t"
    unfolding framebuffer_mark_dirty_def
  proof (rule draw_step [OF assms(1)])
    fix x y assume o: "on_screen (fb_info ?fb) x y" and n: "\<not> in_rect (effect_mark q) x y"
    show "array_get (screen ?fb) x y (g_pixels g') = array_get (screen ?fb) x y (fb_backbuffer ?fb)"
    proof (rule ccontr)
      assume "\<not> ?thesis"
      then obtain x' y' where xy: "in_rect (g_clip g) x' y'" "in_rect (effect_mark q) x' y'"
          "pixel_index (i_width (fb_info ?fb)) y x = pixel_index (i_width (fb_info ?fb)) y' x'"
        using d by (auto simp: draws_def array_get_def gd)
      have "array_valid (screen ?fb) x' y'" using clip_valid [OF ok xy(1)] by (simp add: gd)
      with array_index_inj [of "screen ?fb" x y x' y'] o xy(2,3) n show False by (auto simp: screen_valid)
    qed
  qed
  have s': "dp_fb s' = (if de_flags q AND 1 \<noteq> 0 then framebuffer_present A ?t else ?t)"
    using assms(3) by (auto simp: display_submit_effect_def r g g' Let_def)
  have "fb_inv A (dp_fb s')" unfolding s' using t framebuffer_present_keeps [OF t] by simp
  moreover have "fb_info (dp_fb s') = fb_info ?fb" unfolding s' by (simp add: framebuffer_mark_dirty_def)
  moreover have "\<not> fb_dirty (framebuffer_present A ?t)" using t by (simp add: framebuffer_present_def fb_inv_def fb_shape_def)
  ultimately show ?thesis by (auto simp: s')
qed

definition display_boot :: display_state where
  "display_boot = \<lparr>dp_fb = fb_boot, dp_frames = 0, dp_pixels = 0, dp_last_present_tick = 0, dp_minimum_present_interval = UINT64_MAX,
     dp_compositor_window_count = 0, dp_compositor_focused_window = 0, dp_compositor_report_count = 0, dp_bounce = (\<lambda>_. 0)\<rparr>"

lemma display_boot_inv: "fb_inv A (dp_fb display_boot)"
  using fb_reachable_inv [OF fb_boot_reachable] by (simp add: display_boot_def)


theorem effect_keeps_screen_witness:
  "fb_inv assets_example (dp_fb (snd (display_submit_effect assets_example 9
     \<lparr>de_kind = 3, de_x = 4, de_y = 1, de_width = 6, de_height = 2, de_radius = 1, de_arg1 = 0x58000000, de_arg2 = 40, de_arg3 = 0, de_flags = 1\<rparr>
     display_boot)))"
  using effect_keeps_screen [OF display_boot_inv, of "\<lparr>de_kind = 3, de_x = 4, de_y = 1, de_width = 6, de_height = 2, de_radius = 1,
      de_arg1 = 0x58000000, de_arg2 = 40, de_arg3 = 0, de_flags = 1\<rparr>" assets_example 9]
  by (simp add: effect_covered_def) (metis prod.collapse)

end
