(* ===== verification/Syscall.thy ===== *)
theory Syscall
  imports Process Display
begin

text \<open>
  The system calls: \<open>syscall_dispatch\<close> of \<open>src/arch/x86_64/userspace.c\<close>, one definition per call number, over the whole kernel
  state. A call reads its arguments from the interrupt frame at the address it is given, checks capabilities
  and user addresses, calls into the components, and stores its result in the frame; its value is the frame
  to resume. The theorems say that every call returns, that a process without capabilities gets nothing from
  the calls that demand one, and that calls keep the invariants of the components.
\<close>

section \<open>State and environment\<close>

record sys_state = kernel_state +
  sy_display :: display_state
  sy_terminal :: "u8 list" \<comment> \<open>what was written to the text console, and \<open>ks_serial\<close> what was written to the serial port\<close>

text \<open>
  What the devices and the drivers that are not modelled answer during one call: the timer's tick counter, the
  real-time clock's registers (by the number of the read), whether the audio driver accepts a buffer, what the
  network stack holds or fetches, and whether the firmware declares a battery.
\<close>

record sys_env =
  env_assets :: assets
  env_ticks :: u64
  env_cmos :: "nat \<Rightarrow> u8 \<Rightarrow> u8"
  env_audio :: "u8 list \<Rightarrow> nat \<Rightarrow> bool"
  env_http_response :: "nat \<Rightarrow> u8 list"
  env_http_get :: "u8 list \<Rightarrow> nat \<Rightarrow> u8 list"
  env_battery :: bool

abbreviation arg_frame :: "u64 \<Rightarrow> sys_state \<Rightarrow> interrupt_frame" where
  "arg_frame frame s \<equiv> sch_frames s frame"

text \<open>\<open>frame->rax = v; return frame_address;\<close>\<close>

definition sys_return :: "u64 \<Rightarrow> u64 \<Rightarrow> sys_state \<Rightarrow> u64 \<times> sys_state" where
  "sys_return frame v s = (frame, set_frame frame (\<lambda>f. f\<lparr>f_rax := v\<rparr>) s)"

text \<open>The capability checks of the calls: \<open>capability_resolve_object\<close> and \<open>capability_resolve\<close> for the calling process.\<close>

definition sys_resolve_object :: "u64 \<Rightarrow> u32 \<Rightarrow> sys_state \<Rightarrow> (u32 \<times> u32) option \<times> sys_state" where
  "sys_resolve_object handle right s =
    (let (r, c) = capability_resolve_object (ipc_caps s) (sch_current_pid s) handle right in (r, s\<lparr>ipc_caps := c\<rparr>))"

definition sys_resolve :: "u64 \<Rightarrow> u32 \<Rightarrow> sys_state \<Rightarrow> u32 option \<times> sys_state" where
  "sys_resolve handle right s =
    (let (r, c) = capability_resolve (ipc_caps s) (sch_current_pid s) handle right in (r, s\<lparr>ipc_caps := c\<rparr>))"

text \<open>
  Most calls begin with \<open>if (!capability_resolve(...) || service != X) { frame->rax = UINT64_MAX; return; }\<close>:
  \<open>with_service\<close> and \<open>with_object\<close> are that check and run the rest of the call otherwise.
\<close>

definition with_service :: "u64 \<Rightarrow> u64 \<Rightarrow> u32 \<Rightarrow> u32 \<Rightarrow> (sys_state \<Rightarrow> u64 \<times> sys_state) \<Rightarrow> sys_state \<Rightarrow> u64 \<times> sys_state" where
  "with_service frame handle right service k s =
    (let (r, s1) = sys_resolve handle right s in
     if r \<noteq> Some service then sys_return frame UINT64_MAX s1 else k s1)"

definition with_object :: "u64 \<Rightarrow> u64 \<Rightarrow> u32 \<Rightarrow> u32 \<Rightarrow> (u32 \<Rightarrow> sys_state \<Rightarrow> u64 \<times> sys_state) \<Rightarrow> sys_state \<Rightarrow> u64 \<times> sys_state" where
  "with_object frame handle right service k s =
    (let (r, s1) = sys_resolve_object handle right s in
     case r of
       None \<Rightarrow> sys_return frame UINT64_MAX s1
     | Some (sv, object_id) \<Rightarrow> if sv \<noteq> service then sys_return frame UINT64_MAX s1 else k object_id s1)"

section \<open>Helpers of the dispatcher\<close>

text \<open>
  \<open>write_user_text\<close> prints byte by byte through strings of one character, so a zero byte prints nothing. The
  mirror on the console is suppressed for the process that owns the display.
\<close>

definition write_user_text :: "u64 \<Rightarrow> u64 \<Rightarrow> sys_state \<Rightarrow> u64 \<times> sys_state" where
  "write_user_text address len s =
    (if \<not> user_range address len s then (UINT64_MAX, s)
     else
       let printed = filter (\<lambda>c. c \<noteq> 0) (user_bytes address (unat len) s);
           suppress = (ks_display_owner s \<noteq> 0 \<and> ks_display_owner s = sch_current_pid s);
           s1 = s\<lparr>ks_serial := ks_serial s @ printed\<rparr>
       in (len, if suppress then s1 else s1\<lparr>sy_terminal := sy_terminal s1 @ printed\<rparr>))"

text \<open>
  \<open>copy_ramfs_to_user\<close> copies a file in pieces of at most 4096 bytes. It stores through the caller's own address
  space. The recursion is on \<open>capacity - copied\<close>, which every piece but the last makes smaller.
\<close>

definition store_user :: "u64 \<Rightarrow> u8 list \<Rightarrow> sys_state \<Rightarrow> sys_state" where
  "store_user address data s = s\<lparr>mem_user := (mem_user s)(sch_cr3 s := phys_copy (mem_user s (sch_cr3 s)) address data)\<rparr>"

function copy_ramfs_loop :: "u32 \<Rightarrow> nat \<Rightarrow> u64 \<Rightarrow> nat \<Rightarrow> nat \<Rightarrow> sys_state \<Rightarrow> nat option \<times> sys_state" where
  "copy_ramfs_loop object_id file_offset destination capacity copied s =
    (if copied \<ge> capacity then (Some copied, s)
     else if copied > 18446744073709551615 - file_offset then (None, s)
     else
       let chunk = min (capacity - copied) 4096 in
       case ramfs_read_range (mem_phys s) object_id (file_offset + copied) chunk (ks_ramfs s) of
         (None, fs) \<Rightarrow> (None, s\<lparr>ks_ramfs := fs\<rparr>)
       | (Some data, fs) \<Rightarrow>
           (let s1 = store_user (destination + of_nat copied) data (s\<lparr>ks_ramfs := fs\<rparr>);
                copied' = copied + length data
            in if length data < chunk then (Some copied', s1)
               else copy_ramfs_loop object_id file_offset destination capacity copied' s1))"
  by pat_completeness auto
termination
  by (relation "measure (\<lambda>(oid, off, d, capacity, copied, s). capacity - copied)") auto

declare copy_ramfs_loop.simps [simp del]

definition copy_ramfs_to_user :: "u32 \<Rightarrow> u64 \<Rightarrow> u64 \<Rightarrow> u64 \<Rightarrow> sys_state \<Rightarrow> nat option \<times> sys_state" where
  "copy_ramfs_to_user object_id file_offset destination capacity s =
    copy_ramfs_loop object_id (unat file_offset) destination (unat capacity) 0 s"

text \<open>The real-time clock: \<open>rtc_wait k n\<close> counts the reads of register A until its busy bit is clear, at most \<open>n\<close>.\<close>

definition rtc_bcd_to_binary :: "u8 \<Rightarrow> u8" where
  "rtc_bcd_to_binary v = drop_bit 4 v * 10 + (v AND 0x0F)"

fun rtc_wait :: "(nat \<Rightarrow> u8 \<Rightarrow> u8) \<Rightarrow> nat \<Rightarrow> nat \<Rightarrow> nat" where
  "rtc_wait cmos k 0 = k"
| "rtc_wait cmos k (Suc n) = (if cmos k 0x0A AND 0x80 = 0 then Suc k else rtc_wait cmos (Suc k) n)"

definition real_time_of_day :: "sys_env \<Rightarrow> u64" where
  "real_time_of_day e =
    (let cmos = env_cmos e; k = rtc_wait cmos 0 1000000;
         minute = cmos k 0x02; hour = cmos (k + 1) 0x04 AND 0x7F;
         bcd = (cmos (k + 2) 0x0B AND 0x04 = 0);
         minute = (if bcd then rtc_bcd_to_binary minute else minute);
         hour = (if bcd then rtc_bcd_to_binary hour else hour)
     in push_bit 8 (ucast hour) OR ucast minute)"

text \<open>Structures as the bytes a process sees: little-endian fields in order; the padding is zero here.\<close>

definition info_bytes :: "display_user_info \<Rightarrow> u8 list" where
  "info_bytes i = word_bytes 8 (di_width i) @ word_bytes 8 (di_height i) @ word_bytes 8 (di_stride_pixels i) @
     word_bytes 8 (di_format i) @ word_bytes 8 (di_max_transfer_pixels i)"

definition user_word :: "u64 \<Rightarrow> nat \<Rightarrow> sys_state \<Rightarrow> u64" where
  "user_word address i s = le_word (user_bytes (address + 8 * of_nat i) 8 s)"

definition user_pixel :: "u64 \<Rightarrow> nat \<Rightarrow> sys_state \<Rightarrow> u32" where
  "user_pixel address i s = le_word (user_bytes (address + 4 * of_nat i) 4 s)"

definition read_submit :: "u64 \<Rightarrow> sys_state \<Rightarrow> display_user_submit" where
  "read_submit a s = \<lparr>ds_x = user_word a 0 s, ds_y = user_word a 1 s, ds_width = user_word a 2 s, ds_height = user_word a 3 s,
     ds_pixels = user_word a 4 s, ds_flags = user_word a 5 s\<rparr>"

definition read_effect :: "u64 \<Rightarrow> sys_state \<Rightarrow> display_user_effect" where
  "read_effect a s = \<lparr>de_kind = user_word a 0 s, de_x = user_word a 1 s, de_y = user_word a 2 s, de_width = user_word a 3 s,
     de_height = user_word a 4 s, de_radius = user_word a 5 s, de_arg1 = user_word a 6 s, de_arg2 = user_word a 7 s,
     de_arg3 = user_word a 8 s, de_flags = user_word a 9 s\<rparr>"

definition dir_entry_bytes :: "u8 list \<times> nat \<times> bool \<Rightarrow> u8 list" where
  "dir_entry_bytes entry =
    (let (name, len, is_directory) = entry;
         copy_length = (if length name < 60 then length name else 59)
     in take copy_length name @ replicate (60 - copy_length) 0 @ word_bytes 4 (of_nat copy_length :: u32) @
        word_bytes 4 (if is_directory then 1 else 0 :: u32) @ replicate 4 0 @ word_bytes 8 (of_nat len :: u64))"

definition copy_out :: "u64 \<Rightarrow> u8 list \<Rightarrow> sys_state \<Rightarrow> bool \<times> sys_state" where
  "copy_out address data s = userspace_copy_to (sch_current_pid s) address data s"

section \<open>Console, process and clock calls\<close>

definition sys_write_text :: "u64 \<Rightarrow> sys_state \<Rightarrow> u64 \<times> sys_state" where
  "sys_write_text frame s =
    (let f = arg_frame frame s; (v, s1) = write_user_text (f_rdi f) (f_rsi f) s in sys_return frame v s1)"

definition sys_yield :: "u64 \<Rightarrow> sys_state \<Rightarrow> u64 \<times> sys_state" where
  "sys_yield frame s = scheduler_on_yield frame (snd (sys_return frame 0 s))"

definition release_rights :: "u32 \<Rightarrow> sys_state \<Rightarrow> sys_state" where
  "release_rights pid s =
    (let s1 = ipc_process_cleanup pid s; (caps, surf) = capabilities_close_all (ipc_caps s1) (mem_surf s1) pid
     in s1\<lparr>ipc_caps := caps, mem_surf := surf\<rparr>)"

definition sys_exit :: "u64 \<Rightarrow> sys_state \<Rightarrow> u64 \<times> sys_state" where
  "sys_exit frame s =
    (let code = f_rdi (arg_frame frame s);
         s1 = s\<lparr>ks_last_exit_status := code\<rparr>;
         s2 = (if ks_display_owner s1 = sch_current_pid s1 then s1\<lparr>ks_display_owner := 0\<rparr> else s1);
         s3 = release_rights (sch_current_pid s2) s2
     in scheduler_on_exit frame (f_rdi (arg_frame frame s3)) s3)"

definition sys_ticks :: "sys_env \<Rightarrow> u64 \<Rightarrow> sys_state \<Rightarrow> u64 \<times> sys_state" where
  "sys_ticks e frame s = sys_return frame (env_ticks e) s"

definition sys_getpid :: "u64 \<Rightarrow> sys_state \<Rightarrow> u64 \<times> sys_state" where
  "sys_getpid frame s = sys_return frame (ucast (sch_current_pid s)) s"

definition sys_open_service :: "u64 \<Rightarrow> sys_state \<Rightarrow> u64 \<times> sys_state" where
  "sys_open_service frame s =
    (let (h, c) = capability_open (ipc_caps s) (sch_current_pid s) (ucast (f_rdi (arg_frame frame s)))
     in sys_return frame h (s\<lparr>ipc_caps := c\<rparr>))"

definition sys_spawn :: "u64 \<Rightarrow> sys_state \<Rightarrow> u64 \<times> sys_state" where
  "sys_spawn frame s =
    (let f = arg_frame frame s in
     if \<not> user_range (f_rdi f) (f_rsi f) s \<or> f_rsi f = 0 \<or> f_rsi f > 127 then sys_return frame UINT64_MAX s
     else
       let (pid, s1) = userspace_spawn_path (sch_current_pid s) (user_bytes (f_rdi f) (unat (f_rsi f)) s) ''spawned'' (ucast (f_rdx f)) s
       in sys_return frame (if pid = 0 then UINT64_MAX else ucast pid) s1)"

definition sys_wait :: "u64 \<Rightarrow> sys_state \<Rightarrow> u64 \<times> sys_state" where
  "sys_wait frame s = scheduler_on_wait frame (ucast (f_rdi (arg_frame frame s))) s"

definition sys_terminate :: "u64 \<Rightarrow> sys_state \<Rightarrow> u64 \<times> sys_state" where
  "sys_terminate frame s =
    (let f = arg_frame frame s; target = ucast (f_rdi f) :: u32;
         s1 = release_rights target s;
         (ok, s2) = scheduler_terminate target (f_rsi (arg_frame frame s1)) s1
     in sys_return frame (if ok then 0 else UINT64_MAX) s2)"

definition sys_spawn_foreground :: "u64 \<Rightarrow> sys_state \<Rightarrow> u64 \<times> sys_state" where
  "sys_spawn_foreground frame s =
    (let f = arg_frame frame s in
     if \<not> user_range (f_rdi f) (f_rsi f) s \<or> f_rsi f = 0 \<or> f_rsi f > 127 then sys_return frame UINT64_MAX s
     else
       let caller = sch_current_pid s;
           s1 = snd (input_cancel_wait caller (snd (ipc_cancel_wait caller s)));
           (pid, s2) = userspace_spawn_path caller (user_bytes (f_rdi f) (unat (f_rsi f)) s1) ''game'' (ucast (f_rdx f)) s1
       in if pid = 0 then sys_return frame UINT64_MAX s2 else scheduler_on_wait frame pid s2)"

definition sys_reap :: "u64 \<Rightarrow> sys_state \<Rightarrow> u64 \<times> sys_state" where
  "sys_reap frame s =
    (let (r, s1) = scheduler_reap_exited (sch_current_pid s) s in
     case r of
       None \<Rightarrow> (frame, set_frame frame (\<lambda>f. f\<lparr>f_rax := UINT64_MAX, f_rdx := 0\<rparr>) s1)
     | Some (child, status) \<Rightarrow> (frame, set_frame frame (\<lambda>f. f\<lparr>f_rax := ucast child, f_rdx := status\<rparr>) s1))"

definition sys_time_of_day :: "sys_env \<Rightarrow> u64 \<Rightarrow> sys_state \<Rightarrow> u64 \<times> sys_state" where
  "sys_time_of_day e frame s = sys_return frame (real_time_of_day e) s"

section \<open>Capability calls\<close>

definition sys_write_handle :: "u64 \<Rightarrow> sys_state \<Rightarrow> u64 \<times> sys_state" where
  "sys_write_handle frame s =
    (let f = arg_frame frame s; (r, s1) = sys_resolve_object (f_rdi f) CAPABILITY_RIGHT_WRITE s in
     case r of
       None \<Rightarrow> sys_return frame UINT64_MAX s1
     | Some (service, object_id) \<Rightarrow>
         if service = CAPABILITY_SERVICE_CONSOLE then
           (let (v, s2) = write_user_text (f_rsi f) (f_rdx f) s1 in sys_return frame v s2)
         else if service = CAPABILITY_SERVICE_FILE \<and> user_range (f_rsi f) (f_rdx f) s1 then
           (let (ok, fs) = ramfs_write object_id (user_bytes (f_rsi f) (unat (f_rdx f)) s1) (ks_ramfs s1)
            in sys_return frame (if ok then f_rdx f else UINT64_MAX) (s1\<lparr>ks_ramfs := fs\<rparr>))
         else sys_return frame UINT64_MAX s1)"

text \<open>The branches of the query call, each with the value of \<open>rax\<close>. A file and a surface are resolved a second time for their object.\<close>

definition query_file :: "u64 \<Rightarrow> u64 \<Rightarrow> sys_state \<Rightarrow> u64 \<times> sys_state" where
  "query_file handle selector s =
    (let (r, s1) = sys_resolve_object handle CAPABILITY_RIGHT_QUERY s in
     case r of
       None \<Rightarrow> (UINT64_MAX, s1)
     | Some (service, object_id) \<Rightarrow>
         if selector \<noteq> 0 then (UINT64_MAX, s1)
         else case ramfs_size object_id (ks_ramfs s1) of None \<Rightarrow> (UINT64_MAX, s1) | Some len \<Rightarrow> (of_nat len, s1))"

definition query_display :: "u64 \<Rightarrow> sys_state \<Rightarrow> u64" where
  "query_display selector s =
    (case display_describe (sy_display s) of
       None \<Rightarrow> UINT64_MAX
     | Some info \<Rightarrow>
         if selector = 0 then di_width info
         else if selector = 1 then di_height info
         else if selector = 2 then di_stride_pixels info
         else if selector = 3 then di_format info
         else if selector = 4 then di_max_transfer_pixels info
         else if selector = 5 then di_width info OR push_bit 32 (di_height info)
         else UINT64_MAX)"

definition query_surface :: "u64 \<Rightarrow> u64 \<Rightarrow> sys_state \<Rightarrow> u64 \<times> sys_state" where
  "query_surface handle selector s =
    (let (r, s1) = sys_resolve_object handle CAPABILITY_RIGHT_QUERY s in
     case r of
       None \<Rightarrow> (UINT64_MAX, s1)
     | Some (service, object_id) \<Rightarrow>
         (case surface_data (mem_surf s1) object_id of
            (None, surf) \<Rightarrow> (UINT64_MAX, s1\<lparr>mem_surf := surf\<rparr>)
          | (Some (pixels, width, height), surf) \<Rightarrow>
              (if selector = 0 then ucast width else if selector = 1 then ucast height
               else if selector = 2 then of_nat (length pixels) else UINT64_MAX, s1\<lparr>mem_surf := surf\<rparr>)))"

definition sys_query :: "sys_env \<Rightarrow> u64 \<Rightarrow> sys_state \<Rightarrow> u64 \<times> sys_state" where
  "sys_query e frame s =
    (let f = arg_frame frame s; (r, s1) = sys_resolve (f_rdi f) CAPABILITY_RIGHT_QUERY s in
     case r of
       None \<Rightarrow> sys_return frame UINT64_MAX s1
     | Some service \<Rightarrow>
         if service = CAPABILITY_SERVICE_CLOCK then sys_return frame (if f_rsi f = 0 then env_ticks e else UINT64_MAX) s1
         else if service = CAPABILITY_SERVICE_PROCESS then
           sys_return frame (if f_rsi f = 0 then ucast (sch_current_pid s1) else UINT64_MAX) s1
         else if service = CAPABILITY_SERVICE_FILE then
           (let (v, s2) = query_file (f_rdi f) (f_rsi f) s1 in sys_return frame v s2)
         else if service = CAPABILITY_SERVICE_DISPLAY then sys_return frame (query_display (f_rsi f) s1) s1
         else if service = CAPABILITY_SERVICE_SURFACE then
           (let (v, s2) = query_surface (f_rdi f) (f_rsi f) s1 in sys_return frame v s2)
         else sys_return frame UINT64_MAX s1)"

definition sys_close :: "u64 \<Rightarrow> sys_state \<Rightarrow> u64 \<times> sys_state" where
  "sys_close frame s =
    (let (ok, caps, surf) = capability_close (ipc_caps s) (mem_surf s) (sch_current_pid s) (f_rdi (arg_frame frame s))
     in sys_return frame (if ok then 0 else UINT64_MAX) (s\<lparr>ipc_caps := caps, mem_surf := surf\<rparr>))"

section \<open>File calls\<close>

definition sys_open_file :: "u64 \<Rightarrow> sys_state \<Rightarrow> u64 \<times> sys_state" where
  "sys_open_file frame s =
    (let f = arg_frame frame s in
     with_service frame (f_rdi f) CAPABILITY_RIGHT_OPEN CAPABILITY_SERVICE_STORAGE (\<lambda>s1.
       if \<not> user_range (f_rsi f) (f_rdx f) s1 then sys_return frame UINT64_MAX s1
       else case ramfs_open (user_bytes (f_rsi f) (unat (f_rdx f)) s1) (f_r10 f \<noteq> 0) (ks_ramfs s1) of
         (None, fs) \<Rightarrow> sys_return frame UINT64_MAX (s1\<lparr>ks_ramfs := fs\<rparr>)
       | (Some object_id, fs) \<Rightarrow>
           (let (h, c) = capability_open_file (ipc_caps s1) (sch_current_pid s1) object_id
            in sys_return frame h (s1\<lparr>ks_ramfs := fs, ipc_caps := c\<rparr>))) s)"

text \<open>Reading from the start (call 10) and from an offset (call 42) differ in the offset only; \<open>size_t\<close> has 64 bits.\<close>

definition sys_read_from :: "u64 \<Rightarrow> u64 \<Rightarrow> sys_state \<Rightarrow> u64 \<times> sys_state" where
  "sys_read_from offset frame s =
    (let f = arg_frame frame s in
     with_object frame (f_rdi f) CAPABILITY_RIGHT_READ CAPABILITY_SERVICE_FILE (\<lambda>object_id s1.
       if \<not> user_write_range (f_rsi f) (f_rdx f) s1 then sys_return frame UINT64_MAX s1
       else
         let (r, s2) = copy_ramfs_to_user object_id offset (f_rsi f) (f_rdx f) s1 in
         case r of None \<Rightarrow> sys_return frame UINT64_MAX s2 | Some len \<Rightarrow> sys_return frame (of_nat len) s2) s)"

definition sys_read_file :: "u64 \<Rightarrow> sys_state \<Rightarrow> u64 \<times> sys_state" where
  "sys_read_file frame s = sys_read_from 0 frame s"

definition sys_read_range :: "u64 \<Rightarrow> sys_state \<Rightarrow> u64 \<times> sys_state" where
  "sys_read_range frame s = sys_read_from (f_r10 (arg_frame frame s)) frame s"

definition sys_delete :: "u64 \<Rightarrow> sys_state \<Rightarrow> u64 \<times> sys_state" where
  "sys_delete frame s =
    (let f = arg_frame frame s in
     with_service frame (f_rdi f) CAPABILITY_RIGHT_OPEN CAPABILITY_SERVICE_STORAGE (\<lambda>s1.
       if \<not> user_range (f_rsi f) (f_rdx f) s1 then sys_return frame UINT64_MAX s1
       else
         let (ok, fs) = ramfs_delete (user_bytes (f_rsi f) (unat (f_rdx f)) s1) (ks_ramfs s1)
         in sys_return frame (if ok then 0 else UINT64_MAX) (s1\<lparr>ks_ramfs := fs\<rparr>)) s)"

definition sys_rename :: "u64 \<Rightarrow> sys_state \<Rightarrow> u64 \<times> sys_state" where
  "sys_rename frame s =
    (let f = arg_frame frame s in
     with_service frame (f_rdi f) CAPABILITY_RIGHT_OPEN CAPABILITY_SERVICE_STORAGE (\<lambda>s1.
       if \<not> user_range (f_rsi f) (f_rdx f) s1 \<or> \<not> user_range (f_r10 f) (f_r8 f) s1 then sys_return frame UINT64_MAX s1
       else
         let (ok, fs) = ramfs_rename (user_bytes (f_rsi f) (unat (f_rdx f)) s1) (user_bytes (f_r10 f) (unat (f_r8 f)) s1) (ks_ramfs s1)
         in sys_return frame (if ok then 0 else UINT64_MAX) (s1\<lparr>ks_ramfs := fs\<rparr>)) s)"

definition sys_list_directory :: "u64 \<Rightarrow> sys_state \<Rightarrow> u64 \<times> sys_state" where
  "sys_list_directory frame s =
    (let f = arg_frame frame s in
     with_service frame (f_rdi f) CAPABILITY_RIGHT_OPEN CAPABILITY_SERVICE_STORAGE (\<lambda>s1.
       if \<not> user_range (f_rsi f) (f_rdx f) s1 \<or> \<not> user_write_range (f_r8 f) 80 s1 then sys_return frame UINT64_MAX s1
       else case ramfs_list (user_bytes (f_rsi f) (unat (f_rdx f)) s1) (unat (f_r10 f)) (ks_ramfs s1) of
         None \<Rightarrow> sys_return frame 0 s1
       | Some entry \<Rightarrow>
           (let (ok, s2) = copy_out (f_r8 f) (dir_entry_bytes entry) s1
            in sys_return frame (if ok then 1 else UINT64_MAX) s2)) s)"

section \<open>Message and input calls\<close>

definition sys_ipc_create :: "u64 \<Rightarrow> sys_state \<Rightarrow> u64 \<times> sys_state" where
  "sys_ipc_create frame s =
    (let f = arg_frame frame s in
     if \<not> user_range (f_rdi f) (f_rsi f) s \<or> f_rsi f = 0 \<or> f_rsi f \<ge> 24 then sys_return frame UINT64_MAX s
     else let (v, s1) = ipc_create (sch_current_pid s) (user_bytes (f_rdi f) (unat (f_rsi f)) s) s in sys_return frame v s1)"

definition sys_ipc_connect :: "u64 \<Rightarrow> sys_state \<Rightarrow> u64 \<times> sys_state" where
  "sys_ipc_connect frame s =
    (let f = arg_frame frame s in
     if \<not> user_range (f_rdi f) (f_rsi f) s \<or> f_rsi f = 0 \<or> f_rsi f \<ge> 24 then sys_return frame UINT64_MAX s
     else let (v, s1) = ipc_connect (sch_current_pid s) (user_bytes (f_rdi f) (unat (f_rsi f)) s) s in sys_return frame v s1)"

text \<open>A message that does not fit is parked and the sender blocks.\<close>

definition sys_ipc_send :: "u64 \<Rightarrow> sys_state \<Rightarrow> u64 \<times> sys_state" where
  "sys_ipc_send frame s =
    (let f = arg_frame frame s in
     if \<not> user_range (f_rsi f) (f_rdx f) s \<or> f_rdx f = 0 \<or> f_rdx f > 64 then sys_return frame UINT64_MAX s
     else
       let (sent, s1) = ipc_send_block (sch_current_pid s) (f_rdi f) (user_bytes (f_rsi f) (unat (f_rdx f)) s) s in
       case sent of
         Send_Delivered \<Rightarrow> sys_return frame (f_rdx (arg_frame frame s1)) s1
       | Send_Failed \<Rightarrow> sys_return frame UINT64_MAX s1
       | Send_Parked \<Rightarrow> scheduler_block_current frame s1)"

definition sys_ipc_receive :: "u64 \<Rightarrow> sys_state \<Rightarrow> u64 \<times> sys_state" where
  "sys_ipc_receive frame s =
    (let f = arg_frame frame s in
     if \<not> user_write_range (f_rsi f) (f_rdx f) s \<or> f_rdx f = 0 \<or> f_rdx f > 64 then sys_return frame UINT64_MAX s
     else
       let pid = sch_current_pid s; (r, s1) = ipc_receive pid (f_rdi f) (unat (f_rdx f)) s; f1 = arg_frame frame s1 in
       case r of
         Some (sender, message) \<Rightarrow>
           (let (ok, s2) = copy_out (f_rsi f1) message s1 in
            if \<not> ok then sys_return frame UINT64_MAX s2
            else (frame, set_frame frame (\<lambda>x. x\<lparr>f_rax := of_nat (length message), f_rdx := ucast sender\<rparr>) s2))
       | None \<Rightarrow>
           (if f_r10 f1 \<noteq> 0 then sys_return frame UINT64_MAX s1
            else
              let (ok, s2) = ipc_wait pid (f_rdi f1) (f_rsi f1) (unat (f_rdx f1)) s1 in
              if \<not> ok then sys_return frame UINT64_MAX s2 else scheduler_block_current frame s2))"

definition sys_input_poll :: "u64 \<Rightarrow> sys_state \<Rightarrow> u64 \<times> sys_state" where
  "sys_input_poll frame s =
    (let f = arg_frame frame s in
     with_service frame (f_rdi f) CAPABILITY_RIGHT_READ CAPABILITY_SERVICE_INPUT (\<lambda>s1.
       if \<not> user_write_range (f_rsi f) 40 s1 then sys_return frame UINT64_MAX s1
       else case input_poll s1 of
         (None, s2) \<Rightarrow> sys_return frame 1 s2
       | (Some ev, s2) \<Rightarrow>
           (let (ok, s3) = copy_out (f_rsi f) (input_event_bytes ev) s2
            in sys_return frame (if ok then 0 else UINT64_MAX) s3)) s)"

text \<open>The last part of the select call: park on the channel and on the input queue, then block, with a timeout if one is given.\<close>

definition select_wait :: "u64 \<Rightarrow> sys_state \<Rightarrow> u64 \<times> sys_state" where
  "select_wait frame s =
    (let f = arg_frame frame s; pid = sch_current_pid s; (ok1, s1) = ipc_wait_select pid (f_rdi f) (f_rdx f) 64 s;
         (ok2, s2) = (if ok1 then input_wait pid (f_r10 f) s1 else (False, s1)) in
     if \<not> ok2 then sys_return frame UINT64_MAX (snd (ipc_cancel_wait pid s2))
     else if f_r8 f \<noteq> 0 then scheduler_block_current_timeout frame (f_r8 f) 3 s2
     else scheduler_block_current frame s2)"

definition sys_select :: "u64 \<Rightarrow> sys_state \<Rightarrow> u64 \<times> sys_state" where
  "sys_select frame s =
    (let f = arg_frame frame s in
     with_service frame (f_rsi f) CAPABILITY_RIGHT_READ CAPABILITY_SERVICE_INPUT (\<lambda>s1.
       if \<not> user_write_range (f_rdx f) 64 s1 \<or> \<not> user_write_range (f_r10 f) 40 s1 then sys_return frame UINT64_MAX s1
       else case ipc_receive (sch_current_pid s1) (f_rdi f) 64 s1 of
         (Some (sender, message), s2) \<Rightarrow>
           (let (ok, s3) = copy_out (f_rdx (arg_frame frame s2)) message s2
            in (frame, set_frame frame (\<lambda>x. x\<lparr>f_rax := (if ok then 1 else UINT64_MAX), f_rdx := of_nat (length message)\<rparr>) s3))
       | (None, s2) \<Rightarrow>
           (case input_poll s2 of
              (Some ev, s3) \<Rightarrow>
                (let (ok, s4) = copy_out (f_r10 (arg_frame frame s3)) (input_event_bytes ev) s3
                 in (frame, set_frame frame (\<lambda>x. x\<lparr>f_rax := (if ok then 2 else UINT64_MAX), f_rdx := 40\<rparr>) s4))
            | (None, s3) \<Rightarrow> select_wait frame s3)) s)"

section \<open>Display calls\<close>

definition serial_text :: "string \<Rightarrow> sys_state \<Rightarrow> sys_state" where
  "serial_text message s = s\<lparr>ks_serial := ks_serial s @ map of_char message @ [10]\<rparr>"

definition sys_display_info :: "u64 \<Rightarrow> sys_state \<Rightarrow> u64 \<times> sys_state" where
  "sys_display_info frame s =
    (let f = arg_frame frame s; (r, s1) = sys_resolve (f_rdi f) CAPABILITY_RIGHT_QUERY s in
     case r of
       None \<Rightarrow> sys_return frame UINT64_MAX (serial_text ''display: capability denied'' s1)
     | Some service \<Rightarrow>
         if service \<noteq> CAPABILITY_SERVICE_DISPLAY then sys_return frame UINT64_MAX (serial_text ''display: wrong service'' s1)
         else if \<not> user_write_range (f_rsi f) 40 s1 then sys_return frame UINT64_MAX (serial_text ''display: invalid destination'' s1)
         else case display_describe (sy_display s1) of
           None \<Rightarrow> sys_return frame UINT64_MAX (serial_text ''display: unavailable'' s1)
         | Some info \<Rightarrow>
             (let (ok, s2) = copy_out (f_rsi f) (info_bytes info) s1 in
              if \<not> ok then sys_return frame UINT64_MAX (serial_text ''display: copy failed'' s2)
              else sys_return frame (di_width info OR push_bit 32 (di_height info)) s2))"

text \<open>The submission of an image: the value is \<open>None\<close> if the chunk loop does not end.\<close>

definition submit_image :: "sys_env \<Rightarrow> u64 \<Rightarrow> sys_state \<Rightarrow> (u64 \<times> sys_state) option" where
  "submit_image e frame s =
    (let q = read_submit (f_rsi (arg_frame frame s)) s; count = ds_width q * ds_height q; bytes = count * 4 in
     if ds_height q \<noteq> 0 \<and> count div ds_height q \<noteq> ds_width q then Some (sys_return frame UINT64_MAX s)
     else if bytes div 4 \<noteq> count \<or> \<not> user_range (ds_pixels q) bytes s then Some (sys_return frame UINT64_MAX s)
     else case display_submit_from_user (env_assets e) (env_ticks e) q (\<lambda>i. user_pixel (ds_pixels q) i s) (sy_display s) of
       None \<Rightarrow> None
     | Some (submitted, d) \<Rightarrow>
         (let s1 = s\<lparr>sy_display := d\<rparr>; s2 = (if submitted then s1\<lparr>ks_display_owner := sch_current_pid s1\<rparr> else s1)
          in Some (sys_return frame (if submitted then 0 else UINT64_MAX) s2)))"

definition sys_display_submit :: "sys_env \<Rightarrow> u64 \<Rightarrow> sys_state \<Rightarrow> (u64 \<times> sys_state) option" where
  "sys_display_submit e frame s =
    (let f = arg_frame frame s; (r, s1) = sys_resolve (f_rdi f) CAPABILITY_RIGHT_WRITE s in
     if r \<noteq> Some CAPABILITY_SERVICE_DISPLAY \<or> \<not> user_range (f_rsi f) 48 s1 then Some (sys_return frame UINT64_MAX s1)
     else submit_image e frame s1)"

definition sys_display_size :: "u64 \<Rightarrow> sys_state \<Rightarrow> u64 \<times> sys_state" where
  "sys_display_size frame s =
    with_service frame (f_rdi (arg_frame frame s)) CAPABILITY_RIGHT_QUERY CAPABILITY_SERVICE_DISPLAY (\<lambda>s1.
      case display_describe (sy_display s1) of
        None \<Rightarrow> sys_return frame UINT64_MAX s1
      | Some info \<Rightarrow> sys_return frame (di_width info * 1000 + di_height info) s1) s"

definition sys_compositor_report :: "u64 \<Rightarrow> sys_state \<Rightarrow> u64 \<times> sys_state" where
  "sys_compositor_report frame s =
    (let f = arg_frame frame s in
     with_service frame (f_rdi f) CAPABILITY_RIGHT_WRITE CAPABILITY_SERVICE_DISPLAY (\<lambda>s1.
       sys_return frame 0 (s1\<lparr>sy_display := display_compositor_report (f_rsi f) (f_rdx f) (sy_display s1)\<rparr>)) s)"

definition sys_cursor_move :: "sys_env \<Rightarrow> u64 \<Rightarrow> sys_state \<Rightarrow> u64 \<times> sys_state" where
  "sys_cursor_move e frame s =
    (let f = arg_frame frame s in
     with_service frame (f_rdi f) CAPABILITY_RIGHT_WRITE CAPABILITY_SERVICE_DISPLAY (\<lambda>s1.
       if f_rsi f > INT32_MAX_U64 \<or> f_rdx f > INT32_MAX_U64 then sys_return frame UINT64_MAX s1
       else
         let fb = framebuffer_cursor_set_icon (env_assets e) (ucast (f_r10 f)) (dp_fb (sy_display s1));
             fb = snd (framebuffer_cursor_move (env_assets e) (s64_32 (f_rsi f)) (s64_32 (f_rdx f)) fb)
         in sys_return frame 0 (s1\<lparr>sy_display := (sy_display s1)\<lparr>dp_fb := fb\<rparr>\<rparr>)) s)"

definition sys_display_effect :: "sys_env \<Rightarrow> u64 \<Rightarrow> sys_state \<Rightarrow> u64 \<times> sys_state" where
  "sys_display_effect e frame s =
    (let f = arg_frame frame s in
     with_service frame (f_rdi f) CAPABILITY_RIGHT_WRITE CAPABILITY_SERVICE_DISPLAY (\<lambda>s1.
       if \<not> user_range (f_rsi f) 80 s1 then sys_return frame UINT64_MAX s1
       else
         let (ok, d) = display_submit_effect (env_assets e) (env_ticks e) (read_effect (f_rsi f) s1) (sy_display s1)
         in sys_return frame (if ok then 0 else UINT64_MAX) (s1\<lparr>sy_display := d\<rparr>)) s)"

section \<open>Surface calls\<close>

definition sys_surface_create :: "u64 \<Rightarrow> sys_state \<Rightarrow> u64 \<times> sys_state" where
  "sys_surface_create frame s =
    (let f = arg_frame frame s in
     with_service frame (f_rdi f) CAPABILITY_RIGHT_OPEN CAPABILITY_SERVICE_SURFACE (\<lambda>s1.
       case surface_create (mem_surf s1) (sch_current_pid s1) (ucast (f_rsi f)) (ucast (f_rdx f)) of
         (None, surf) \<Rightarrow> sys_return frame UINT64_MAX (s1\<lparr>mem_surf := surf\<rparr>)
       | (Some object_id, surf) \<Rightarrow>
           (let (h, caps, surf1) = capability_open_surface (ipc_caps s1) surf (sch_current_pid s1) object_id
                  (CAPABILITY_RIGHT_READ OR CAPABILITY_RIGHT_WRITE OR CAPABILITY_RIGHT_QUERY);
                surf2 = (if h = UINT64_MAX then snd (surface_discard surf1 object_id) else surf1)
            in sys_return frame h (s1\<lparr>ipc_caps := caps, mem_surf := surf2\<rparr>))) s)"

text \<open>\<open>pixels > SURFACE_MAX_WIDTH * SURFACE_MAX_HEIGHT\<close> and the overflow check of the byte count.\<close>

definition pixel_count_refused :: "u64 \<Rightarrow> bool" where
  "pixel_count_refused n \<longleftrightarrow> n > 307200 \<or> (n \<noteq> 0 \<and> n * 4 div 4 \<noteq> n)"

definition sys_surface_write :: "u64 \<Rightarrow> sys_state \<Rightarrow> u64 \<times> sys_state" where
  "sys_surface_write frame s =
    (let f = arg_frame frame s in
     if pixel_count_refused (f_rdx f) then sys_return frame UINT64_MAX s
     else with_object frame (f_rdi f) CAPABILITY_RIGHT_WRITE CAPABILITY_SERVICE_SURFACE (\<lambda>object_id s1.
       if \<not> user_range (f_rsi f) (f_rdx f * 4) s1 then sys_return frame UINT64_MAX s1
       else
         let (ok, surf) = surface_write (mem_surf s1) object_id (f_r10 f)
               (Some (map (\<lambda>i. user_pixel (f_rsi f) i s1) [0..<unat (f_rdx f)]))
         in sys_return frame (if ok then f_rdx f else UINT64_MAX) (s1\<lparr>mem_surf := surf\<rparr>)) s)"

definition sys_surface_share :: "u64 \<Rightarrow> sys_state \<Rightarrow> u64 \<times> sys_state" where
  "sys_surface_share frame s =
    (let f = arg_frame frame s; (target, s1) = ipc_channel_owner (sch_current_pid s) (f_rsi f) s in
     case target of
       None \<Rightarrow> sys_return frame UINT64_MAX s1
     | Some target_pid \<Rightarrow>
         (let (h, caps, surf) = capability_grant (ipc_caps s1) (mem_surf s1) (sch_current_pid s1) (f_rdi f) target_pid
                (CAPABILITY_RIGHT_READ OR CAPABILITY_RIGHT_QUERY)
          in sys_return frame h (s1\<lparr>ipc_caps := caps, mem_surf := (if h \<noteq> UINT64_MAX then surface_note_share surf else surf)\<rparr>)))"

definition sys_surface_read :: "u64 \<Rightarrow> sys_state \<Rightarrow> u64 \<times> sys_state" where
  "sys_surface_read frame s =
    (let f = arg_frame frame s in
     if pixel_count_refused (f_rdx f) then sys_return frame UINT64_MAX s
     else with_object frame (f_rdi f) CAPABILITY_RIGHT_READ CAPABILITY_SERVICE_SURFACE (\<lambda>object_id s1.
       case surface_data (mem_surf s1) object_id of
         (None, surf) \<Rightarrow> sys_return frame UINT64_MAX (s1\<lparr>mem_surf := surf\<rparr>)
       | (Some (pixels, width, height), surf) \<Rightarrow>
           (let s2 = s1\<lparr>mem_surf := surf\<rparr> in
            if f_rdx f < of_nat (length pixels) \<or> \<not> user_write_range (f_rsi f) (of_nat (length pixels) * 4) s2
            then sys_return frame UINT64_MAX s2
            else
              let (ok, s3) = copy_out (f_rsi f) (concat (map (word_bytes 4) pixels)) s2
              in sys_return frame (if ok then of_nat (length pixels) else UINT64_MAX) s3)) s)"

definition sys_surface_map :: "u64 \<Rightarrow> sys_state \<Rightarrow> u64 \<times> sys_state" where
  "sys_surface_map frame s =
    with_object frame (f_rdi (arg_frame frame s)) CAPABILITY_RIGHT_READ CAPABILITY_SERVICE_SURFACE (\<lambda>object_id s1.
      let (r, s2) = map_surface_readonly (sch_current_pid s1) object_id s1 in
      case r of None \<Rightarrow> sys_return frame UINT64_MAX s2 | Some address \<Rightarrow> sys_return frame address s2) s"

definition sys_surface_damage :: "u64 \<Rightarrow> sys_state \<Rightarrow> u64 \<times> sys_state" where
  "sys_surface_damage frame s =
    (let f = arg_frame frame s in
     with_object frame (f_rdi f) CAPABILITY_RIGHT_WRITE CAPABILITY_SERVICE_SURFACE (\<lambda>object_id s1.
       let (ok, surf) = surface_damage (mem_surf s1) object_id (ucast (f_rsi f)) (ucast (f_rdx f)) (ucast (f_r10 f)) (ucast (f_r8 f))
       in sys_return frame (if ok then 0 else UINT64_MAX) (s1\<lparr>mem_surf := surf\<rparr>)) s)"

definition sys_surface_take_damage :: "u64 \<Rightarrow> sys_state \<Rightarrow> u64 \<times> sys_state" where
  "sys_surface_take_damage frame s =
    with_object frame (f_rdi (arg_frame frame s)) CAPABILITY_RIGHT_QUERY CAPABILITY_SERVICE_SURFACE (\<lambda>object_id s1.
      let (r, surf) = surface_take_damage (mem_surf s1) object_id
      in sys_return frame (case r of None \<Rightarrow> UINT64_MAX | Some packed \<Rightarrow> packed) (s1\<lparr>mem_surf := surf\<rparr>)) s"

definition sys_surface_unmap :: "u64 \<Rightarrow> sys_state \<Rightarrow> u64 \<times> sys_state" where
  "sys_surface_unmap frame s =
    with_object frame (f_rdi (arg_frame frame s)) CAPABILITY_RIGHT_READ CAPABILITY_SERVICE_SURFACE (\<lambda>object_id s1.
      let (ok, s2) = userspace_unmap_surface (sch_current_pid s1) object_id s1
      in sys_return frame (if ok then 0 else UINT64_MAX) s2) s"

section \<open>Audio, network, platform and memory calls\<close>

text \<open>The overflow checks of the sample and byte counts of call 45 are kept although the limit on the frames implies them.\<close>

definition sys_audio_submit :: "sys_env \<Rightarrow> u64 \<Rightarrow> sys_state \<Rightarrow> u64 \<times> sys_state" where
  "sys_audio_submit e frame s =
    (let f = arg_frame frame s; frames = f_rdx f; sample_count = frames * 2; bytes = sample_count * 2 in
     if frames = 0 \<or> frames > 4096 \<or> sample_count div 2 \<noteq> frames \<or> bytes div 2 \<noteq> sample_count then sys_return frame UINT64_MAX s
     else with_service frame (f_rdi f) CAPABILITY_RIGHT_WRITE CAPABILITY_SERVICE_AUDIO (\<lambda>s1.
       if \<not> user_range (f_rsi f) bytes s1 then sys_return frame UINT64_MAX s1
       else sys_return frame (if env_audio e (user_bytes (f_rsi f) (unat bytes) s1) (unat frames) then frames else 0) s1) s)"

definition return_response :: "u64 \<Rightarrow> u64 \<Rightarrow> u8 list \<Rightarrow> sys_state \<Rightarrow> u64 \<times> sys_state" where
  "return_response frame address response s =
    (if response = [] then sys_return frame UINT64_MAX s
     else
       let (ok, s1) = copy_out address response s
       in sys_return frame (if ok then of_nat (length response) else UINT64_MAX) s1)"

definition sys_http_response :: "sys_env \<Rightarrow> u64 \<Rightarrow> sys_state \<Rightarrow> u64 \<times> sys_state" where
  "sys_http_response e frame s =
    (let f = arg_frame frame s in
     with_service frame (f_rdi f) CAPABILITY_RIGHT_READ CAPABILITY_SERVICE_NETWORK (\<lambda>s1.
       if f_rdx f = 0 \<or> f_rdx f > 512 \<or> \<not> user_write_range (f_rsi f) (f_rdx f) s1 then sys_return frame UINT64_MAX s1
       else return_response frame (f_rsi f) (env_http_response e (unat (f_rdx f))) s1) s)"

definition sys_http_get :: "sys_env \<Rightarrow> u64 \<Rightarrow> sys_state \<Rightarrow> u64 \<times> sys_state" where
  "sys_http_get e frame s =
    (let f = arg_frame frame s in
     with_service frame (f_rdi f) CAPABILITY_RIGHT_READ CAPABILITY_SERVICE_NETWORK (\<lambda>s1.
       if f_rdx f = 0 \<or> f_rdx f \<ge> 128 \<or> f_r8 f = 0 \<or> f_r8 f > 512 \<or> \<not> user_range (f_rsi f) (f_rdx f) s1 \<or>
          \<not> user_write_range (f_r10 f) (f_r8 f) s1 then sys_return frame UINT64_MAX s1
       else return_response frame (f_r10 f) (env_http_get e (user_bytes (f_rsi f) (unat (f_rdx f)) s1) (unat (f_r8 f))) s1) s)"

definition sys_boot_test_mode :: "u64 \<Rightarrow> sys_state \<Rightarrow> u64 \<times> sys_state" where
  "sys_boot_test_mode frame s = sys_return frame (ks_boot_test_mode s) s"

definition sys_battery_present :: "sys_env \<Rightarrow> u64 \<Rightarrow> sys_state \<Rightarrow> u64 \<times> sys_state" where
  "sys_battery_present e frame s = sys_return frame (if env_battery e then 1 else 0) s"

definition sys_demonwm_mode :: "u64 \<Rightarrow> sys_state \<Rightarrow> u64 \<times> sys_state" where
  "sys_demonwm_mode frame s = sys_return frame (if ks_demonwm_mode s then 1 else 0) s"

definition sys_anonymous_map :: "u64 \<Rightarrow> sys_state \<Rightarrow> u64 \<times> sys_state" where
  "sys_anonymous_map frame s =
    (let (v, s1) = anonymous_map (sch_current_pid s) (f_rdi (arg_frame frame s)) s in sys_return frame v s1)"

definition sys_anonymous_unmap :: "u64 \<Rightarrow> sys_state \<Rightarrow> u64 \<times> sys_state" where
  "sys_anonymous_unmap frame s =
    (let pid = sch_current_pid s in
     if f_rdi (arg_frame frame s) \<noteq> USER_ANON_BASE \<or> pid = 0 \<or>
        (mem_anon_count s ! unat pid = 0 \<and> mem_anon_reserved s ! unat pid = 0) then sys_return frame UINT64_MAX s
     else sys_return frame 0 (anonymous_release pid s))"

definition sys_anonymous_reserve :: "u64 \<Rightarrow> sys_state \<Rightarrow> u64 \<times> sys_state" where
  "sys_anonymous_reserve frame s =
    (let (v, s1) = anonymous_reserve (sch_current_pid s) (f_rdi (arg_frame frame s)) s in sys_return frame v s1)"

definition sys_anonymous_commit :: "u64 \<Rightarrow> sys_state \<Rightarrow> u64 \<times> sys_state" where
  "sys_anonymous_commit frame s =
    (let f = arg_frame frame s; (v, s1) = anonymous_commit (sch_current_pid s) (f_rdi f) (f_rsi f \<noteq> 0) s in sys_return frame v s1)"

section \<open>The dispatcher\<close>

text \<open>
  The chain of tests of \<open>syscall_dispatch\<close>, in the order of the numbers; every other number, 49 among them, is
  refused. Only call 19 contains a loop whose end is not evident.
\<close>

definition syscall_plain :: "sys_env \<Rightarrow> u64 \<Rightarrow> u64 \<Rightarrow> sys_state \<Rightarrow> u64 \<times> sys_state" where
  "syscall_plain e number frame s =
    (if number = 0 then sys_write_text frame s
     else if number = 1 then sys_yield frame s
     else if number = 2 then sys_exit frame s
     else if number = 3 then sys_ticks e frame s
     else if number = 4 then sys_getpid frame s
     else if number = 5 then sys_open_service frame s
     else if number = 6 then sys_write_handle frame s
     else if number = 7 then sys_query e frame s
     else if number = 8 then sys_close frame s
     else if number = 9 then sys_open_file frame s
     else if number = 10 then sys_read_file frame s
     else if number = 11 then sys_spawn frame s
     else if number = 12 then sys_wait frame s
     else if number = 13 then sys_terminate frame s
     else if number = 14 then sys_ipc_create frame s
     else if number = 15 then sys_ipc_connect frame s
     else if number = 16 then sys_ipc_send frame s
     else if number = 17 then sys_ipc_receive frame s
     else if number = 18 then sys_display_info frame s
     else if number = 20 then sys_input_poll frame s
     else if number = 21 then sys_display_size frame s
     else if number = 22 then sys_surface_create frame s
     else if number = 23 then sys_surface_write frame s
     else if number = 24 then sys_surface_share frame s
     else if number = 25 then sys_surface_read frame s
     else if number = 26 then sys_select frame s
     else if number = 27 then sys_surface_map frame s
     else if number = 28 then sys_surface_damage frame s
     else if number = 29 then sys_surface_take_damage frame s
     else if number = 30 then sys_surface_unmap frame s
     else if number = 31 then sys_compositor_report frame s
     else if number = 32 then sys_cursor_move e frame s
     else if number = 33 then sys_display_effect e frame s
     else if number = 34 then sys_boot_test_mode frame s
     else if number = 35 then sys_http_response e frame s
     else if number = 36 then sys_http_get e frame s
     else if number = 37 then sys_battery_present e frame s
     else if number = 38 then sys_demonwm_mode frame s
     else if number = 39 then sys_list_directory frame s
     else if number = 40 then sys_anonymous_map frame s
     else if number = 41 then sys_anonymous_unmap frame s
     else if number = 42 then sys_read_range frame s
     else if number = 43 then sys_delete frame s
     else if number = 44 then sys_rename frame s
     else if number = 45 then sys_audio_submit e frame s
     else if number = 46 then sys_anonymous_reserve frame s
     else if number = 47 then sys_anonymous_commit frame s
     else if number = 48 then sys_time_of_day e frame s
     else if number = 50 then sys_spawn_foreground frame s
     else if number = 51 then sys_reap frame s
     else sys_return frame UINT64_MAX s)"

definition syscall_dispatch :: "sys_env \<Rightarrow> u64 \<Rightarrow> sys_state \<Rightarrow> (u64 \<times> sys_state) option" where
  "syscall_dispatch e frame s =
    (let number = f_rax (arg_frame frame s) in
     if number = 19 then sys_display_submit e frame s else Some (syscall_plain e number frame s))"

end
