(* ===== verification/Kernel_Inv.thy ===== *)
theory Kernel_Inv
  imports Process
begin

text \<open>
  The invariant of the whole kernel below the system calls, and that every operation of the scheduler, the
  memory manager, the channels, the input queue and the process loader keeps it. Beside the invariants of
  the single components it says that reference counting is exact across them: the count of every surface is
  the number of open handles on it plus the number of slots in which some process has it mapped, and no
  surface without a reference is live.
\<close>

section \<open>What the scheduler and the memory manager leave alone\<close>

text \<open>Everything but the scheduler's part and the bookkeeping of frames and page tables.\<close>

definition above :: "'a mem_state_scheme \<Rightarrow> 'a \<times> surface_state \<times> u32 list list" where
  "above s = (mem_state.more s, mem_surf s, mem_mapped_surface s)"

lemma above_more: "sched_state.more s' = sched_state.more s \<Longrightarrow> above s' = above s"
  by (cases s; cases s') (simp add: above_def)

lemma above_fields:
  assumes "above s' = above s"
  shows "ipc_channels s' = ipc_channels s" "ipc_caps s' = ipc_caps s" "mem_surf s' = mem_surf s"
    "mem_mapped_surface s' = mem_mapped_surface s" "in_queue s' = in_queue s" "input_state.more s' = input_state.more s"
    "in_waiter s' = in_waiter s"
  using assms by (cases s; cases s'; simp add: above_def)+

lemma above_updates [simp]:
  "above (s\<lparr>mem_phys := a\<rparr>) = above s" "above (s\<lparr>mem_user := b\<rparr>) = above s" "above (s\<lparr>mem_used := c\<rparr>) = above s"
  "above (s\<lparr>mem_free_frames := d\<rparr>) = above s" "above (s\<lparr>mem_frame_next := d\<rparr>) = above s"
  "above (s\<lparr>mem_anon_count := e\<rparr>) = above s" "above (s\<lparr>mem_anon_reserved := e\<rparr>) = above s"
  "above (s\<lparr>mem_large_frames := g\<rparr>) = above s" "above (s\<lparr>mem_large_count := e\<rparr>) = above s"
  "above (s\<lparr>mem_large_table := e\<rparr>) = above s" "above (s\<lparr>mem_surface_table := g\<rparr>) = above s"
  by (simp_all add: above_def)

lemma above_sched [simp]:
  "above (set_task p f s) = above s" "above (set_frame a g s) = above s" "above (snd (dispatch p s)) = above s"
  "above (snd (return_idle s)) = above s"
  by (rule above_more, simp)+

lemma above_reschedule [simp]: "above (snd (reschedule frame s)) = above s"
  by (simp add: reschedule_def Let_def)

lemma above_switches [simp]:
  "above (snd (scheduler_on_yield frame s)) = above s" "above (snd (scheduler_block_current frame s)) = above s"
  "above (snd (scheduler_block_current_timeout frame delay result s)) = above s"
  by (simp_all add: scheduler_on_yield_def scheduler_block_current_def scheduler_block_current_timeout_def)

lemma above_wake [simp]: "above (snd (scheduler_wake p r d s)) = above s"
  by (simp add: scheduler_wake_def)

lemma above_create_user [simp]: "above (snd (scheduler_create_user parent name entry stack root s)) = above s"
  by (rule above_more) (auto simp: scheduler_create_user_def prepare_frame_def Let_def split: option.splits prod.splits)

lemma above_frame_release [simp]: "above (anonymous_frame_release f s) = above s"
  by (simp add: anonymous_frame_release_def)

lemma above_frame_take [simp]: "above (snd (anonymous_frame_take s)) = above s"
  by (simp add: anonymous_frame_take_def mako_frame_allocate_def Let_def)

lemma above_large_release_pages [simp]: "above (large_release_pages ps pid s) = above s"
  by (induction ps pid s rule: large_release_pages.induct) simp_all

lemma above_large_code_release [simp]: "above (large_code_release pid s) = above s"
  by (simp add: large_code_release_def Let_def)

lemma above_large_take_pages [simp]: "above (snd (large_take_pages ps pid t s)) = above s"
  by (induction ps pid t s rule: large_take_pages.induct) (simp_all add: Let_def case_prod_beta)

lemma above_large_code_load [simp]: "above (snd (large_code_load pid img layout s)) = above s"
  by (simp add: large_code_load_def Let_def case_prod_beta split: option.splits prod.splits)

lemma above_anon_release_pages [simp]: "above (anon_release_pages ps t s) = above s"
  by (induction ps t s rule: anon_release_pages.induct) (simp_all add: Let_def)

lemma above_anon_release_tables [simp]: "above (anon_release_tables ts pid s) = above s"
  by (induction ts pid s rule: anon_release_tables.induct) (simp_all add: Let_def)

lemma above_anonymous_release [simp]: "above (anonymous_release pid s) = above s"
  by (simp add: anonymous_release_def Let_def)

lemma above_commit_pages [simp]: "above (snd (anonymous_commit_pages ps pid w s)) = above s"
  by (induction ps arbitrary: s) (simp_all add: Let_def case_prod_beta)

lemma above_anonymous [simp]:
  "above (snd (anonymous_map pid n s)) = above s" "above (snd (anonymous_reserve pid n s)) = above s"
  "above (snd (anonymous_commit pid n w s)) = above s"
  by (simp_all add: anonymous_map_def anonymous_reserve_def anonymous_commit_def Let_def case_prod_beta)

lemma above_copy_to [simp]: "above (snd (userspace_copy_to pid a d s)) = above s"
  by (simp add: userspace_copy_to_def Let_def)

lemma above_edit_ptes [simp]: "above (snd (edit_surface_ptes pid slot a n p s)) = above s"
  by (simp add: edit_surface_ptes_def Let_def case_prod_beta)

lemma above_release_surface_tables [simp]: "above (release_surface_tables slots pid s) = above s"
  by (induction slots pid s rule: release_surface_tables.induct) (simp_all add: Let_def)

lemma above_load_image [simp]: "above (snd (load_image pid memory img s)) = above s"
  by (simp add: load_image_def split: option.splits prod.splits)

section \<open>What the channels leave alone\<close>

text \<open>The surfaces and their mappings, the event queue, and all that lies above the input queue.\<close>

definition held :: "'a input_state_scheme \<Rightarrow> surface_state \<times> u32 list list \<times> input_queue \<times> 'a" where
  "held s = (mem_surf s, mem_mapped_surface s, in_queue s, input_state.more s)"

lemma held_above: "above s' = above s \<Longrightarrow> held s' = held s"
  using above_fields [of s' s] by (simp add: held_def)

lemma held_updates [simp]:
  "held (s\<lparr>ipc_caps := c\<rparr>) = held s" "held (s\<lparr>ipc_channels := d\<rparr>) = held s" "held (s\<lparr>ipc_sent_count := n\<rparr>) = held s"
  "held (s\<lparr>ipc_received_count := n\<rparr>) = held s" "held (s\<lparr>ipc_dropped_count := n\<rparr>) = held s" "held (s\<lparr>in_waiter := w\<rparr>) = held s"
  by (simp_all add: held_def)

lemma held_steps [simp]:
  "held (snd (scheduler_wake p r d s)) = held s" "held (snd (userspace_copy_to p a x s)) = held s"
  by (rule held_above, simp)+

lemma held_channel [simp]:
  "held (set_channel i f s) = held s" "held (snd (input_cancel_wait p s)) = held s" "held (snd (ipc_cancel_wait p s)) = held s"
  by (simp_all add: set_channel_def input_cancel_wait_def ipc_cancel_wait_def split: option.splits)

lemma held_resolve [simp]: "held (snd (ipc_resolve pid h r s)) = held s"
  by (simp add: ipc_resolve_state)

lemma held_handover [simp]: "held (ipc_handover i s) = held s"
  by (simp add: ipc_handover_def Let_def)

lemma held_receive [simp]: "held (snd (ipc_receive pid h n s)) = held s"
  using held_resolve [of pid h CAPABILITY_RIGHT_RECEIVE s]
  by (auto simp: ipc_receive_def Let_def simp del: held_resolve split: prod.splits option.splits)

lemma held_deliver [simp]: "held (snd (ipc_deliver pid i d s)) = held s"
  by (simp add: ipc_deliver_def Let_def case_prod_beta)

lemma held_send [simp]: "held (snd (ipc_send_impl pid h d b s)) = held s"
  using held_resolve [of pid h CAPABILITY_RIGHT_SEND s]
  by (auto simp: ipc_send_impl_def Let_def simp del: held_resolve split: prod.splits option.splits)

lemma held_wait [simp]: "held (snd (ipc_wait_as mx pid h a n s)) = held s"
  using held_resolve [of pid h CAPABILITY_RIGHT_RECEIVE s]
  by (auto simp: ipc_wait_as_def simp del: held_resolve split: prod.splits option.splits)

lemma held_create [simp]: "held (snd (ipc_create owner name s)) = held s" "held (snd (ipc_connect owner name s)) = held s"
  by (simp_all add: ipc_create_def ipc_connect_def Let_def case_prod_beta split: option.splits)

lemma held_cleanup_channel [simp]: "held (cleanup_channel pid i s) = held s"
  by (simp add: cleanup_channel_def cleanup_wake_def Let_def)

lemma held_cleanup [simp]: "held (ipc_process_cleanup pid s) = held s"
proof -
  have "held (fold (cleanup_channel pid) is s) = held s" for "is" and s :: "'a input_state_scheme"
    by (induction "is" arbitrary: s) simp_all
  then show ?thesis by (simp add: ipc_process_cleanup_def)
qed

section \<open>Channel operations and the scheduler\<close>

lemma truncate_more_fields [simp]:
  "sched_state.truncate (s\<lparr>mem_user := b\<rparr>) = sched_state.truncate s"
  "sched_state.truncate (t\<lparr>ipc_sent_count := n\<rparr>) = sched_state.truncate t"
  "sched_state.truncate (t\<lparr>ipc_received_count := n\<rparr>) = sched_state.truncate t"
  "sched_state.truncate (t\<lparr>ipc_dropped_count := n\<rparr>) = sched_state.truncate t"
  by (simp_all add: sched_state.defs)

lemma truncate_copy_to [simp]: "sched_state.truncate (snd (userspace_copy_to p a d s)) = sched_state.truncate s"
  by (simp add: userspace_copy_to_def Let_def)

lemma truncate_ipc_resolve [simp]: "sched_state.truncate (snd (ipc_resolve pid h r s)) = sched_state.truncate s"
  by (simp add: ipc_resolve_state)

lemma woken_step: "sched_state.truncate s1 = sched_state.truncate s \<Longrightarrow> woken s1 s2 \<Longrightarrow> woken s s2"
  using woken_trans [OF woken_truncate] .

lemma handover_woken: "woken s (ipc_handover i s)"
  by (auto simp: ipc_handover_def Let_def woken_refl intro!: woken_step [OF truncate_set_channel scheduler_wake_woken])

lemma ipc_receive_woken: "woken s (snd (ipc_receive pid h n s))"
proof (cases "ipc_resolve pid h CAPABILITY_RIGHT_RECEIVE s")
  case (Pair q s1)
  have t: "sched_state.truncate s1 = sched_state.truncate s"
    using truncate_ipc_resolve [of pid h CAPABILITY_RIGHT_RECEIVE s] Pair by simp
  have "woken s (ipc_handover i (s1\<lparr>ipc_channels := ch, ipc_received_count := m\<rparr>))" for i ch m
    by (rule woken_step [OF _ handover_woken]) (simp add: t)
  then show ?thesis
    using Pair woken_truncate [OF t] by (auto simp: ipc_receive_def Let_def set_channel_def split: option.splits)
qed

lemma ipc_deliver_woken: "woken s (snd (ipc_deliver pid i d s))"
proof -
  have w: "woken s (snd (scheduler_wake p r x s1))" if "sched_state.truncate s1 = sched_state.truncate s"
    for p r x and s1 :: "'a input_state_scheme"
    using woken_step [OF that scheduler_wake_woken] .
  have d: "woken s (s1\<lparr>ipc_dropped_count := m\<rparr>) = woken s s1" "woken s (s1\<lparr>ipc_sent_count := m, ipc_received_count := k\<rparr>) = woken s s1"
    for s1 :: "'a input_state_scheme" and m k
    by (simp_all add: woken_def frames_kept_def)
  show ?thesis
    unfolding ipc_deliver_def Let_def case_prod_beta
    by (simp add: d w woken_truncate)
qed

lemma ipc_send_woken: "woken s (snd (ipc_send_impl pid h d b s))"
proof (cases "ipc_resolve pid h CAPABILITY_RIGHT_SEND s")
  case (Pair q s1)
  have t: "sched_state.truncate s1 = sched_state.truncate s"
    using truncate_ipc_resolve [of pid h CAPABILITY_RIGHT_SEND s] Pair by simp
  show ?thesis
    using Pair by (simp add: ipc_send_impl_def Let_def t woken_truncate woken_step [OF t ipc_deliver_woken] split: option.splits)
qed

lemma truncate_ipc_ops [simp]:
  "sched_state.truncate (snd (ipc_wait_as mx pid h a n s)) = sched_state.truncate s"
  "sched_state.truncate (snd (ipc_create pid name s)) = sched_state.truncate s"
  "sched_state.truncate (snd (ipc_connect pid name s)) = sched_state.truncate s"
proof -
  show "sched_state.truncate (snd (ipc_wait_as mx pid h a n s)) = sched_state.truncate s"
    using truncate_ipc_resolve [of pid h CAPABILITY_RIGHT_RECEIVE s]
    by (auto simp: ipc_wait_as_def simp del: truncate_ipc_resolve split: prod.splits option.splits)
qed (simp_all add: ipc_create_def ipc_connect_def Let_def case_prod_beta split: option.splits)

section \<open>The invariant\<close>

definition map_refs :: "u32 list list \<Rightarrow> u32 \<Rightarrow> nat" where
  "map_refs rows oid = (if oid = 0 then 0 else sum_list (map (count_if (\<lambda>x. x = oid)) rows))"

definition maps_shape :: "u32 list list \<Rightarrow> bool" where
  "maps_shape rows \<longleftrightarrow> length rows = SCHEDULER_PROCESS_LIMIT \<and> (\<forall>row \<in> set rows. length row = USER_SURFACE_MAP_SLOTS)"

definition refs_exact :: "'a ipc_state_scheme \<Rightarrow> bool" where
  "refs_exact s \<longleftrightarrow> maps_shape (mem_mapped_surface s) \<and>
     caps_ok (ipc_caps s) (mem_surf s) (map_refs (mem_mapped_surface s)) \<and> surfaces_referenced (mem_surf s)"

definition kernel_inv :: "'a input_state_scheme \<Rightarrow> bool" where
  "kernel_inv s \<longleftrightarrow> sched_inv s \<and> ipc_inv s \<and> queue_inv (in_queue s) \<and> refs_exact s"

lemma kernel_invD:
  assumes "kernel_inv s"
  shows "sched_inv s" "ipc_inv s" "queue_inv (in_queue s)" "refs_exact s"
  using assms by (simp_all add: kernel_inv_def)

text \<open>Operations of the scheduler and of the memory manager.\<close>

lemma kernel_inv_above:
  assumes "above s' = above s" "sched_inv s'" "kernel_inv s"
  shows "kernel_inv s'"
  using assms(2,3) ipc_inv_cong [OF above_fields(1) [OF assms(1)]]
  by (simp add: kernel_inv_def refs_exact_def above_fields [OF assms(1)])

lemma kernel_inv_memory:
  "above s' = above s \<Longrightarrow> sched_state.truncate s' = sched_state.truncate s \<Longrightarrow> kernel_inv s \<Longrightarrow> kernel_inv s'"
  using kernel_inv_above sched_inv_truncate kernel_invD(1) by blast

text \<open>Operations on capabilities and surfaces.\<close>

lemma refs_exact_caps:
  assumes "refs_exact s" "mem_mapped_surface s' = mem_mapped_surface s"
    and "caps_ok (ipc_caps s') (mem_surf s') (map_refs (mem_mapped_surface s))" "surfaces_referenced (mem_surf s')"
  shows "refs_exact s'"
  using assms by (simp add: refs_exact_def)

lemma refs_exactD:
  assumes "refs_exact s"
  shows "caps_ok (ipc_caps s) (mem_surf s) (map_refs (mem_mapped_surface s))" "surfaces_referenced (mem_surf s)"
    "surface_inv (mem_surf s)" "surface_refs (mem_surf s) x = cap_refs (ipc_caps s) x + map_refs (mem_mapped_surface s) x"
  using assms by (simp_all add: refs_exact_def caps_ok_def refs_agree_def)

lemma kernel_inv_caps:
  assumes "kernel_inv s" "caps_ok c f (map_refs (mem_mapped_surface s)) \<and> surfaces_referenced f"
  shows "kernel_inv (s\<lparr>ipc_caps := c, mem_surf := f\<rparr>)"
proof -
  have "sched_inv (s\<lparr>ipc_caps := c, mem_surf := f\<rparr>) = sched_inv s" by (rule sched_inv_truncate) simp
  with assms ipc_inv_cong [of "s\<lparr>ipc_caps := c, mem_surf := f\<rparr>" s] show ?thesis
    by (simp add: kernel_inv_def refs_exact_def)
qed

lemma kernel_inv_caps_only:
  assumes "kernel_inv s" "caps_ok c (mem_surf s) (map_refs (mem_mapped_surface s))"
  shows "kernel_inv (s\<lparr>ipc_caps := c\<rparr>)"
  using kernel_inv_caps [OF assms(1), of c "mem_surf s"] assms refs_exactD(2) [OF kernel_invD(4) [OF assms(1)]] by simp

lemma kernel_inv_surf_only:
  assumes "kernel_inv s" "caps_ok (ipc_caps s) f (map_refs (mem_mapped_surface s)) \<and> surfaces_referenced f"
  shows "kernel_inv (s\<lparr>mem_surf := f\<rparr>)"
  using kernel_inv_caps [OF assms(1), of "ipc_caps s" f] assms by simp

text \<open>Operations on channels: they wake tasks and touch the capability table, and nothing else of the other components.\<close>

lemma kernel_inv_ipc:
  assumes "kernel_inv s" "held s' = held s" "woken s s'" "ipc_inv s'"
    and "\<And>extra. caps_ok (ipc_caps s) (mem_surf s) extra \<Longrightarrow> caps_ok (ipc_caps s') (mem_surf s) extra"
  shows "kernel_inv s'"
  using assms woken_inv [OF assms(3)] by (simp add: kernel_inv_def refs_exact_def held_def)

lemma caps_ok_open_ipc:
  "caps_ok c f extra \<Longrightarrow> caps_ok (snd (capability_open_ipc c pid i rights)) f extra"
  using allocate_slot_other [OF _ _ _ surjective_pairing, of c f extra pid CAPABILITY_SERVICE_IPC i rights]
  by (simp add: capability_open_ipc_def Let_def not_le)

lemma ipc_caps_resolve [simp]: "caps_ok (ipc_caps (snd (ipc_resolve pid h r s))) f x = caps_ok (ipc_caps s) f x"
  by (simp add: ipc_resolve_state capability_resolve_object_ok)

lemma ipc_caps_handover [simp]: "ipc_caps (ipc_handover i s) = ipc_caps s"
  by (simp add: ipc_handover_def Let_def)

lemma ipc_caps_deliver [simp]: "ipc_caps (snd (ipc_deliver pid i d s)) = ipc_caps s"
  by (simp add: ipc_deliver_def Let_def case_prod_beta)

lemma ipc_caps_ops:
  "caps_ok (ipc_caps s) f x \<Longrightarrow> caps_ok (ipc_caps (snd (ipc_receive pid h n s))) f x"
  "caps_ok (ipc_caps s) f x \<Longrightarrow> caps_ok (ipc_caps (snd (ipc_send_impl pid h d b s))) f x"
  "caps_ok (ipc_caps s) f x \<Longrightarrow> caps_ok (ipc_caps (snd (ipc_wait_as mx pid h a n s))) f x"
  using ipc_caps_resolve [of pid h CAPABILITY_RIGHT_RECEIVE s f x] ipc_caps_resolve [of pid h CAPABILITY_RIGHT_SEND s f x]
  by (auto simp: ipc_receive_def ipc_send_impl_def ipc_wait_as_def Let_def simp del: ipc_caps_resolve split: prod.splits option.splits)

lemma ipc_caps_open:
  "caps_ok (ipc_caps s) f x \<Longrightarrow> caps_ok (ipc_caps (snd (ipc_create pid name s))) f x"
  "caps_ok (ipc_caps s) f x \<Longrightarrow> caps_ok (ipc_caps (snd (ipc_connect pid name s))) f x"
  by (simp_all add: ipc_create_def ipc_connect_def Let_def case_prod_beta caps_ok_open_ipc split: option.splits)

lemma ipc_caps_cleanup_channel [simp]: "ipc_caps (cleanup_channel pid i s) = ipc_caps s"
  by (simp add: cleanup_channel_def cleanup_wake_def Let_def)

lemma ipc_caps_cleanup [simp]: "ipc_caps (ipc_process_cleanup pid s) = ipc_caps s"
proof -
  have "ipc_caps (fold (cleanup_channel pid) is s) = ipc_caps s" for "is" and s :: "'a input_state_scheme"
    by (induction "is" arbitrary: s) simp_all
  then show ?thesis by (simp add: ipc_process_cleanup_def)
qed

lemma ipc_caps_cancel [simp]: "ipc_caps (snd (ipc_cancel_wait pid s)) = ipc_caps s"
  by (simp add: ipc_cancel_wait_def split: option.splits)

lemma kernel_inv_channels:
  assumes "kernel_inv s"
  shows "kernel_inv (snd (ipc_receive pid h n s))" "kernel_inv (snd (ipc_send_impl pid h d b s))"
    "kernel_inv (snd (ipc_wait_as mx pid h a n s))" "kernel_inv (snd (ipc_create pid name s))"
    "kernel_inv (snd (ipc_connect pid name s))" "kernel_inv (snd (ipc_resolve pid h r s))"
    "kernel_inv (snd (ipc_cancel_wait pid s))" "kernel_inv (snd (input_cancel_wait pid s))" "kernel_inv (ipc_process_cleanup pid s)"
  using kernel_invD(2) [OF assms] ipc_inv_cong [of "snd (ipc_resolve pid h r s)" s] ipc_inv_cong [of "snd (input_cancel_wait pid s)" s]
  by (auto intro!: kernel_inv_ipc [OF assms] ipc_receive_woken ipc_send_woken woken_truncate ipc_process_cleanup_woken
      simp: ipc_ops_inv intro: ipc_caps_ops ipc_caps_open)

section \<open>Surface mappings\<close>

lemma map_refs_update:
  assumes "maps_shape rows" "p < 8" "slot < 4"
  shows "map_refs (rows[p := (rows ! p)[slot := v]]) x + (if x \<noteq> 0 \<and> rows ! p ! slot = x then 1 else 0) =
    map_refs rows x + (if x \<noteq> 0 \<and> v = x then 1 else 0)"
proof -
  let ?f = "count_if (\<lambda>y. y = x)"
  have l: "p < length rows" "slot < length (rows ! p)" using assms by (auto simp: maps_shape_def)
  have "map ?f (rows[p := (rows ! p)[slot := v]]) = (map ?f rows)[p := ?f ((rows ! p)[slot := v])]" by (simp add: map_update)
  then have "sum_list (map ?f (rows[p := (rows ! p)[slot := v]])) + ?f (rows ! p) = sum_list (map ?f rows) + ?f ((rows ! p)[slot := v])"
    using l elem_le_sum_list [of p "map ?f rows"] by (simp add: sum_list_update)
  with count_if_update [OF l(2), of "\<lambda>y. y = x" v] show ?thesis by (auto simp: map_refs_def split: if_splits)
qed

lemma maps_shape_update: "maps_shape rows \<Longrightarrow> maps_shape (rows[p := (rows ! p)[slot := v]])"
  by (auto simp: maps_shape_def all_set_conv_all_nth nth_update)

lemma map_refs_pos:
  assumes "maps_shape rows" "p < 8" "slot < 4" "rows ! p ! slot = x" "x \<noteq> 0"
  shows "map_refs rows x > 0"
  using map_refs_update [OF assms(1-3), of 0 x] assms(4,5) by auto

lemma drop_surface_slot_ok:
  assumes s: "refs_exact s" and "unat pid < 8" "slot < 4" "mem_mapped_surface s ! unat pid ! slot = oid" "oid \<noteq> 0"
  shows "refs_exact (drop_surface_slot pid slot oid s)"
proof -
  let ?rows = "mem_mapped_surface s" and ?s1 = "snd (edit_surface_ptes pid slot 0 0 False s)"
  have sh: "maps_shape ?rows" using s by (simp add: refs_exact_def)
  have a: "above ?s1 = above s" by simp
  note f = refs_exactD [OF s]
  have pos: "surface_refs (mem_surf s) oid > 0"
    using map_refs_pos [OF sh assms(2-5)] f(4) [of oid] by simp
  note rel = surface_release_live [OF f(3) pos] surface_release_referenced [OF f(3) pos f(2)]
  have "surface_refs (snd (surface_release (mem_surf s) oid)) x =
      cap_refs (ipc_caps s) x + map_refs (?rows[unat pid := (?rows ! unat pid)[slot := 0]]) x" for x
    using rel(1) [of x] f(4) [of x] map_refs_update [OF sh assms(2,3), of 0 x] assms(4,5) by (auto split: if_splits)
  moreover have "ipc_caps ?s1 = ipc_caps s" "mem_surf ?s1 = mem_surf s" "mem_mapped_surface ?s1 = mem_mapped_surface s"
    using a by (cases s; cases ?s1; simp add: above_def)+
  ultimately show ?thesis
    using s rel(3,4) maps_shape_update [OF sh]
    by (simp add: drop_surface_slot_def set_mapped_surface_def Let_def refs_exact_def caps_ok_def refs_agree_def)
qed

text \<open>The parts that a drop of a mapping leaves alone.\<close>

lemma above_rest: "above s' = above s \<Longrightarrow> mem_state.more s' = mem_state.more s"
  by (simp add: above_def)

lemma more_drop [simp]: "mem_state.more (drop_surface_slot pid slot oid s) = mem_state.more s"
  using above_rest [OF above_edit_ptes, of pid slot 0 0 False s]
  by (simp add: drop_surface_slot_def set_mapped_surface_def Let_def)

lemma more_unmap_slots [simp]: "mem_state.more (unmap_surface_slots slots pid s) = mem_state.more s"
  by (induction slots pid s rule: unmap_surface_slots.induct) (simp_all add: Let_def)

lemma more_fields_mem:
  assumes "mem_state.more s' = mem_state.more s"
  shows "ipc_channels s' = ipc_channels s" "in_queue s' = in_queue s" "input_state.more s' = input_state.more s"
    "ipc_caps s' = ipc_caps s"
  using assms by (cases s; cases s'; simp)+

lemma unmap_surface_slots_ok:
  "refs_exact s \<Longrightarrow> unat pid < 8 \<Longrightarrow> set slots \<subseteq> {..<4} \<Longrightarrow> refs_exact (unmap_surface_slots slots pid s)"
  by (induction slots pid s rule: unmap_surface_slots.induct) (auto simp: Let_def drop_surface_slot_ok)

lemma refs_exact_above: 
  assumes "above s' = above s" shows "refs_exact s' = refs_exact s"
proof -
  have "ipc_caps s' = ipc_caps s" "mem_surf s' = mem_surf s" "mem_mapped_surface s' = mem_mapped_surface s"
    using assms by (cases s; cases s'; simp add: above_def)+
  then show ?thesis by (simp add: refs_exact_def)
qed

lemma unmap_surface_ok: "refs_exact s \<Longrightarrow> refs_exact (unmap_surface pid s)"
  using unmap_surface_slots_ok [of s pid "[0..<4]"] refs_exact_above [OF above_release_surface_tables]
  by (auto simp: unmap_surface_def not_le atLeast0LessThan)

lemma unmap_surface_id_ok: "refs_exact s \<Longrightarrow> refs_exact (snd (unmap_surface_id pid oid s))"
proof (cases "pid = 0 \<or> unat pid \<ge> 8 \<or> oid = 0 \<or> first_index (\<lambda>x. x = oid) (mem_mapped_surface s ! unat pid) = None")
  case False
  assume s: "refs_exact s"
  from False obtain slot where f: "first_index (\<lambda>x. x = oid) (mem_mapped_surface s ! unat pid) = Some slot" by auto
  note d = first_index_SomeD [OF f]
  have "length (mem_mapped_surface s ! unat pid) = 4" using s False by (auto simp: refs_exact_def maps_shape_def)
  with drop_surface_slot_ok [OF s, of pid slot oid] d False f show ?thesis
    by (simp add: unmap_surface_id_def)
qed (auto simp: unmap_surface_id_def split: option.splits)

text \<open>Reading a surface's data counts the read and changes nothing else.\<close>

lemma refs_counters:
  assumes "surf_objects f' = surf_objects f"
  shows "surface_refs f' x = surface_refs f x" "surface_resolve f' x = surface_resolve f x"
    "surfaces_referenced f' = surfaces_referenced f"
  using assms by (simp_all add: surface_refs_def surface_resolve_def surfaces_referenced_def)

lemma map_surface_readonly_ok:
  assumes s: "refs_exact s"
  shows "refs_exact (snd (map_surface_readonly pid oid s))"
proof (cases "\<not> (pid = 0 \<or> unat pid \<ge> 8 \<or> \<not> mem_used s ! unat pid)")
  case False
  with s show ?thesis by (simp add: map_surface_readonly_def)
next
  case True
  then have pid: "unat pid < 8" by simp
  have sh: "maps_shape (mem_mapped_surface s)" using s by (simp add: refs_exact_def)
  note f = refs_exactD [OF s]
  obtain r f1 where m: "surface_mapping_data (mem_surf s) oid = (r, f1)" by (metis surj_pair)
  have ob: "surf_objects f1 = surf_objects (mem_surf s)"
    using m by (auto simp: surface_mapping_data_def Let_def split: option.splits)
  have f1: "surface_inv f1" using surface_mapping_data_inv [OF f(3), of oid] m by simp
  have ok1: "refs_exact (s\<lparr>mem_surf := f1\<rparr>)"
    using s f1 refs_counters [OF ob] by (simp add: refs_exact_def caps_ok_def refs_agree_def)
  obtain b f2 where rt: "surface_retain f1 oid = (b, f2)" by (metis surj_pair)
  show ?thesis
  proof (cases "scan_surface_slots oid (mem_mapped_surface s ! unat pid) 0 None")
    case (Inl slot)
    with True s show ?thesis by (simp add: map_surface_readonly_def)
  next
    case sc: (Inr k)
    show ?thesis
    proof (cases "k \<noteq> None \<and> r \<noteq> None \<and> b")
      case False
      have "\<not> b \<Longrightarrow> f2 = f1" using rt surface_retain_False [of f1 oid] by auto
      with True False sc m rt s ok1 show ?thesis
        by (auto simp: map_surface_readonly_def split: option.splits)
    next
      case t: True
      then obtain slot d where k: "k = Some slot" "r = Some d" by auto
      obtain physical pages where d: "d = (physical, pages)" by (metis surj_pair)
      have len: "length (mem_mapped_surface s ! unat pid) = 4" using sh pid by (auto simp: maps_shape_def)
      have slot: "slot < 4" "mem_mapped_surface s ! unat pid ! slot = 0" "oid \<noteq> 0"
        using scan_surface_slots_free [OF sc [unfolded k] refl] len surface_retain_nonzero rt t by auto
      note ret = surface_retain_True [OF f1 rt [unfolded t [THEN conjunct2, THEN conjunct2, THEN eqTrueI]]]
      let ?s2 = "s\<lparr>mem_surf := f2\<rparr>" and ?rows = "mem_mapped_surface s"
      obtain e s1 where e: "edit_surface_ptes pid slot physical (unat pages) True ?s2 = (e, s1)" by (metis surj_pair)
      have a: "above s1 = above ?s2" using above_edit_ptes [of pid slot physical "unat pages" True ?s2] e by simp
      have a1: "ipc_caps s1 = ipc_caps s" "mem_surf s1 = f2" "mem_mapped_surface s1 = ?rows"
        using a by (cases s; cases s1; simp add: above_def)+
      have ref2: "surfaces_referenced f2"
        using f(2) ret(1,2) refs_counters [OF ob] by (auto simp: surfaces_referenced_def)
      have pos: "surface_refs f2 oid > 0" using ret(1) [of oid] by simp
      note rel = surface_release_live [OF ret(3) pos] surface_release_referenced [OF ret(3) pos ref2]
      have rolled: "refs_exact (s1\<lparr>mem_surf := snd (surface_release (mem_surf s1) oid)\<rparr>)"
        using s a1 rel(3,4) rel(1) ret(1) refs_counters(1) [OF ob] f(4)
        by (auto simp: refs_exact_def caps_ok_def refs_agree_def)
      have "surface_refs f2 x = cap_refs (ipc_caps s) x + map_refs (?rows[unat pid := (?rows ! unat pid)[slot := oid]]) x" for x
        using ret(1) [of x] refs_counters(1) [OF ob, of x] f(4) [of x] map_refs_update [OF sh pid slot(1), of oid x] slot(2,3)
        by (auto split: if_splits)
      then have fwd: "refs_exact (set_mapped_surface pid slot oid s1)"
        using s a1 ret(3) ref2 maps_shape_update [OF sh]
        by (simp add: set_mapped_surface_def refs_exact_def caps_ok_def refs_agree_def)
      show ?thesis
        using True sc k d m rt t e s ok1 rolled fwd by (auto simp: map_surface_readonly_def)
    qed
  qed
qed

section \<open>Processes\<close>

text \<open>A state whose channels, queue and upper part are kept.\<close>

lemma kernel_inv_mapping:
  assumes "kernel_inv s" "mem_state.more s' = mem_state.more s" "sched_state.truncate s' = sched_state.truncate s" "refs_exact s'"
  shows "kernel_inv s'"
proof -
  have "ipc_channels s' = ipc_channels s" "in_queue s' = in_queue s" using more_fields_mem [OF assms(2)] by auto
  then show ?thesis
    using assms ipc_inv_cong [of s' s] sched_inv_truncate [OF assms(3)] by (simp add: kernel_inv_def)
qed

lemma more_release_surface_tables [simp]: "mem_state.more (release_surface_tables slots pid s) = mem_state.more s"
  by (rule above_rest) simp

lemma more_unmap [simp]: "mem_state.more (unmap_surface pid s) = mem_state.more s"
  by (simp add: unmap_surface_def)

lemma unmap_id_frame [simp]:
  "mem_state.more (snd (unmap_surface_id pid oid s)) = mem_state.more s"
  "sched_state.truncate (snd (unmap_surface_id pid oid s)) = sched_state.truncate s"
  by (simp_all add: unmap_surface_id_def split: option.splits)

lemma kernel_inv_unmap_id: "kernel_inv s \<Longrightarrow> kernel_inv (snd (unmap_surface_id pid oid s))"
  by (rule kernel_inv_mapping) (simp_all add: unmap_surface_id_ok kernel_invD)

lemma more_edit_ptes [simp]: "mem_state.more (snd (edit_surface_ptes pid slot a n p s)) = mem_state.more s"
  by (rule above_rest) simp

lemma more_map_surface [simp]: "mem_state.more (snd (map_surface_readonly pid oid s)) = mem_state.more s"
  by (simp add: map_surface_readonly_def set_mapped_surface_def Let_def case_prod_beta split: sum.splits option.splits prod.splits bool.splits)

lemma truncate_map_surface [simp]: "sched_state.truncate (snd (map_surface_readonly pid oid s)) = sched_state.truncate s"
  by (simp add: map_surface_readonly_def set_mapped_surface_def Let_def case_prod_beta split: sum.splits option.splits prod.splits bool.splits)

lemma kernel_inv_map: "kernel_inv s \<Longrightarrow> kernel_inv (snd (map_surface_readonly pid oid s))"
  by (rule kernel_inv_mapping) (simp_all add: map_surface_readonly_ok kernel_invD)

lemma kernel_inv_close_all:
  assumes "kernel_inv s" "capabilities_close_all (ipc_caps s) (mem_surf s) pid = (c, f)"
  shows "kernel_inv (s\<lparr>ipc_caps := c, mem_surf := f\<rparr>)"
  using kernel_inv_caps [OF assms(1)] capabilities_close_all_ok [OF refs_exactD(1) [OF kernel_invD(4) [OF assms(1)]] assms(2)]
    refs_exactD(2) [OF kernel_invD(4) [OF assms(1)]] by blast

lemma kernel_inv_memory_ops:
  assumes "kernel_inv s"
  shows "kernel_inv (anonymous_release pid s)" "kernel_inv (large_code_release pid s)" "kernel_inv (s\<lparr>mem_used := u\<rparr>)"
    "kernel_inv (s\<lparr>mem_phys := m\<rparr>)" "kernel_inv (snd (userspace_copy_to pid a d s))"
  by (rule kernel_inv_memory [OF _ _ assms]; simp)+

text \<open>
  Exits, waits and terminations: the release of the child is the only step that reaches the other components.
  \<open>parts_inv\<close> is the invariant without the scheduler's, which does not hold in the middle of a switch.
\<close>

definition parts_inv :: "'a input_state_scheme \<Rightarrow> bool" where
  "parts_inv s \<longleftrightarrow> ipc_inv s \<and> queue_inv (in_queue s) \<and> refs_exact s"

lemma parts_inv_above: "above s' = above s \<Longrightarrow> parts_inv s' = parts_inv s"
  using above_fields [of s' s] ipc_inv_cong [of s' s] by (simp add: parts_inv_def refs_exact_def)

lemma parts_inv_sched [simp]:
  "parts_inv (set_task p f s) = parts_inv s" "parts_inv (set_frame a g s) = parts_inv s"
  "parts_inv (snd (dispatch p s)) = parts_inv s" "parts_inv (snd (return_idle s)) = parts_inv s"
  "parts_inv (snd (reschedule frame s)) = parts_inv s"
  by (rule parts_inv_above, simp)+

lemma kernel_inv_parts: "kernel_inv s \<longleftrightarrow> sched_inv s \<and> parts_inv s"
  by (auto simp: kernel_inv_def parts_inv_def)

text \<open>A release needs nothing of the scheduler's invariant.\<close>

lemma parts_inv_release:
  assumes "parts_inv s"
  shows "parts_inv (userspace_release_process pid s)"
proof -
  let ?s1 = "ipc_process_cleanup pid s"
  obtain c f where cf: "capabilities_close_all (ipc_caps ?s1) (mem_surf ?s1) pid = (c, f)"
    by (metis surj_pair)
  let ?s2 = "?s1\<lparr>ipc_caps := c, mem_surf := f\<rparr>"
  have h: "mem_surf ?s1 = mem_surf s" "mem_mapped_surface ?s1 = mem_mapped_surface s" "in_queue ?s1 = in_queue s"
    using held_cleanup [of pid s] by (simp_all add: held_def)
  have r: "refs_exact ?s1" using assms h by (simp add: parts_inv_def refs_exact_def)
  have i: "ipc_inv ?s1" using assms ipc_process_cleanup_inv [of s pid] by (simp add: parts_inv_def)
  have "refs_exact ?s2"
    using capabilities_close_all_ok [OF refs_exactD(1) [OF r] cf] refs_exactD(2) [OF r] r by (simp add: refs_exact_def)
  moreover have "ipc_inv ?s2" using i ipc_inv_cong [of ?s2 ?s1] by simp
  ultimately have "parts_inv (unmap_surface pid ?s2)"
    using unmap_surface_ok [of ?s2 pid] more_fields_mem [OF more_unmap, of pid ?s2] ipc_inv_cong [of "unmap_surface pid ?s2" ?s2] assms h(3)
    by (simp add: parts_inv_def)
  then have "parts_inv ((large_code_release pid (anonymous_release pid (unmap_surface pid ?s2)))\<lparr>mem_used := u\<rparr>)" for u
    by (simp add: parts_inv_above [of "(large_code_release pid (anonymous_release pid (unmap_surface pid ?s2)))\<lparr>mem_used := u\<rparr>" "unmap_surface pid ?s2"])
  with assms cf show ?thesis by (simp add: userspace_release_process_def Let_def)
qed

lemma parts_inv_wake_parent: "parts_inv s \<Longrightarrow> parts_inv (wake_waiting_parent child s)"
  by (simp add: wake_waiting_parent_def Let_def parts_inv_release)

lemma kernel_inv_exit: "kernel_inv s \<Longrightarrow> kernel_inv (snd (scheduler_on_exit frame code s))"
  by (auto simp: kernel_inv_parts scheduler_on_exit_inv) (simp add: scheduler_on_exit_def Let_def parts_inv_wake_parent)

lemma parts_inv_reap: "parts_inv s \<Longrightarrow> parts_inv (snd (scheduler_reap parent child s))"
  by (simp add: scheduler_reap_def parts_inv_release)

lemma kernel_inv_wait: "kernel_inv s \<Longrightarrow> sch_users_running s \<Longrightarrow> kernel_inv (snd (scheduler_on_wait frame child s))"
  using parts_inv_reap [of s "sch_current_pid s" child]
  by (auto simp: kernel_inv_parts scheduler_on_wait_inv) (auto simp: scheduler_on_wait_def Let_def split: prod.splits option.splits)

lemma kernel_inv_terminate: "kernel_inv s \<Longrightarrow> kernel_inv (snd (scheduler_terminate pid code s))"
  by (auto simp: kernel_inv_parts scheduler_terminate_inv) (simp add: scheduler_terminate_def parts_inv_wake_parent)

lemma parts_inv_reap_first: "parts_inv s \<Longrightarrow> parts_inv (snd (reap_first children parent s))"
proof (induction children parent s rule: reap_first.induct)
  case (2 child children parent s)
  then show ?case using parts_inv_reap [of s parent child] by (auto split: prod.splits option.splits)
qed simp

lemma kernel_inv_reap_exited: "kernel_inv s \<Longrightarrow> kernel_inv (snd (scheduler_reap_exited parent s))"
  by (auto simp: kernel_inv_parts scheduler_reap_exited_inv) (simp add: scheduler_reap_exited_def parts_inv_reap_first del: reap_first.simps)

lemma kernel_inv_switches:
  assumes "kernel_inv s"
  shows "kernel_inv (snd (scheduler_on_yield frame s))" "kernel_inv (snd (scheduler_block_current frame s))"
    "kernel_inv (snd (scheduler_block_current_timeout frame delay result s))" "kernel_inv (set_frame a g s)"
  using kernel_invD(1) [OF assms]
  by (auto intro!: kernel_inv_above [OF _ _ assms] scheduler_on_yield_inv scheduler_block_current_inv scheduler_block_current_timeout_inv)

text \<open>Loading: the capability table changes only in the service mask of the new process.\<close>

lemma refs_exact_assign:
  "refs_exact s \<Longrightarrow> refs_exact (s\<lparr>ipc_caps := snd (capability_assign_services (ipc_caps s) pid services)\<rparr>)"
  by (simp add: refs_exact_def capability_assign_services_def caps_ok_assigned)

lemma parts_inv_assign:
  "parts_inv s \<Longrightarrow> parts_inv (s\<lparr>ipc_caps := snd (capability_assign_services (ipc_caps s) pid services)\<rparr>)"
  using ipc_inv_cong [of "s\<lparr>ipc_caps := snd (capability_assign_services (ipc_caps s) pid services)\<rparr>" s] refs_exact_assign [of s pid services]
  by (simp add: parts_inv_def)

lemma parts_inv_memory [simp]:
  "parts_inv (s\<lparr>mem_phys := m\<rparr>) = parts_inv s" "parts_inv (s\<lparr>mem_used := u\<rparr>) = parts_inv s"
  "parts_inv (large_code_release pid s) = parts_inv s" "parts_inv (snd (load_image pid memory img s)) = parts_inv s"
  "parts_inv (snd (scheduler_create_user parent name entry stack root s)) = parts_inv s"
  by (rule parts_inv_above, simp)+

lemma load_process_parts: "parts_inv s \<Longrightarrow> parts_inv (snd (load_process pid parent name memory img services s))"
proof -
  assume s: "parts_inv s"
  have l: "parts_inv s1" if "load_image pid memory img (s\<lparr>mem_phys := m\<rparr>) = (r, s1)" for m r s1
    using parts_inv_memory(4) [of pid memory img "s\<lparr>mem_phys := m\<rparr>"] s that by simp
  have c: "parts_inv s2" if "scheduler_create_user parent nm entry stack root (s1\<lparr>mem_phys := m\<rparr>) = (p, s2)" "parts_inv s1"
    for nm entry stack root s1 m p s2
    using parts_inv_memory(5) [of parent nm entry stack root "s1\<lparr>mem_phys := m\<rparr>"] that by simp
  have a: "parts_inv (s2\<lparr>ipc_caps := caps\<rparr>)" if "capability_assign_services (ipc_caps s2) p services = (ok, caps)" "parts_inv s2"
    for s2 p ok caps
    using parts_inv_assign [of s2 p services] that by simp
  show ?thesis
    unfolding load_process_def Let_def
    by (auto simp: s split: prod.splits option.splits dest!: l c a)
qed

lemma kernel_inv_load: "kernel_inv s \<Longrightarrow> kernel_inv (snd (load_process pid parent name memory img services s))"
  by (simp add: kernel_inv_parts load_process_parts load_process_sched_inv)

lemma kernel_inv_spawn_slots: "kernel_inv s \<Longrightarrow> kernel_inv (snd (spawn_in_slots slots parent name img services s))"
proof (induction slots arbitrary: s)
  case (Cons slot slots)
  obtain ok s1 where l: "load_process slot parent name (mem_process s ! unat slot) img services s = (ok, s1)" by (metis surj_pair)
  have "kernel_inv s1"
    using kernel_inv_load [OF Cons.prems, of slot parent name "mem_process s ! unat slot" img services] l by simp
  with Cons show ?case by (simp add: Let_def l)
qed simp

section \<open>Surfaces and input\<close>

text \<open>Writing, damage and reads leave the reference counts alone.\<close>

lemma refs_same:
  assumes "surface_inv f'" "caps_ok c f x \<and> surfaces_referenced f"
    and "\<And>oid. surface_resolve f' oid = surface_resolve f oid" "\<And>oid. surface_refs f' oid = surface_refs f oid"
  shows "caps_ok c f' x \<and> surfaces_referenced f'"
  using assms(1,2) unfolding caps_ok_def refs_agree_def surfaces_referenced_def assms(3,4) by blast

lemma refs_fields [simp]:
  "surface_refs (f\<lparr>surf_read_count := n\<rparr>) x = surface_refs f x" "surface_resolve (f\<lparr>surf_read_count := n\<rparr>) x = surface_resolve f x"
  "surface_refs (f\<lparr>surf_write_count := n\<rparr>) x = surface_refs f x" "surface_resolve (f\<lparr>surf_write_count := n\<rparr>) x = surface_resolve f x"
  "surface_refs (f\<lparr>surf_share_count := n\<rparr>) x = surface_refs f x" "surface_resolve (f\<lparr>surf_share_count := n\<rparr>) x = surface_resolve f x"
  "surface_refs (f\<lparr>surf_arena := a\<rparr>) x = surface_refs f x" "surface_resolve (f\<lparr>surf_arena := a\<rparr>) x = surface_resolve f x"
  by (simp_all add: surface_refs_def surface_resolve_def)

lemma objects_refs:
  assumes "\<And>i. so_active (surf_objects f' ! i) = so_active (surf_objects f ! i)"
    and "\<And>i. so_references (surf_objects f' ! i) = so_references (surf_objects f ! i)"
  shows "surface_resolve f' oid = surface_resolve f oid" "surface_refs f' oid = surface_refs f oid"
  using assms by (simp_all add: surface_refs_def surface_resolve_def)

lemma update_refs:
  assumes "so_active v = so_active (surf_objects f ! i)" "so_references v = so_references (surf_objects f ! i)"
  shows "so_active ((surf_objects f)[i := v] ! j) = so_active (surf_objects f ! j)"
    "so_references ((surf_objects f)[i := v] ! j) = so_references (surf_objects f ! j)"
  using assms by (metis list_update_beyond nth_list_update_eq nth_list_update_neq not_le)+

lemma surface_ops_refs:
  fixes f :: surface_state
  assumes f: "surface_inv f" "caps_ok c f x \<and> surfaces_referenced f"
  shows "caps_ok c (snd (surface_data f oid)) x \<and> surfaces_referenced (snd (surface_data f oid))"
    "caps_ok c (snd (surface_write f oid off px)) x \<and> surfaces_referenced (snd (surface_write f oid off px))"
    "caps_ok c (snd (surface_damage f oid a b w h)) x \<and> surfaces_referenced (snd (surface_damage f oid a b w h))"
    "caps_ok c (snd (surface_take_damage f oid)) x \<and> surfaces_referenced (snd (surface_take_damage f oid))"
    "caps_ok c (surface_note_share f) x \<and> surfaces_referenced (surface_note_share f)"
proof -
  show "caps_ok c (snd (surface_data f oid)) x \<and> surfaces_referenced (snd (surface_data f oid))"
    by (rule refs_same [OF surface_data_inv [OF f(1)] f(2)])
      (auto simp: surface_data_def Let_def split: option.splits)
  show "caps_ok c (snd (surface_write f oid off px)) x \<and> surfaces_referenced (snd (surface_write f oid off px))"
    by (rule refs_same [OF surface_write_inv [OF f(1)] f(2)])
      (auto simp: surface_write_def Let_def split: option.splits)
  show "caps_ok c (snd (surface_damage f oid a b w h)) x \<and> surfaces_referenced (snd (surface_damage f oid a b w h))"
    by (rule refs_same [OF surface_damage_inv [OF f(1)] f(2)])
      (auto simp: surface_damage_def Let_def update_refs split: option.splits intro!: objects_refs)
  show "caps_ok c (snd (surface_take_damage f oid)) x \<and> surfaces_referenced (snd (surface_take_damage f oid))"
    by (rule refs_same [OF surface_take_damage_inv [OF f(1)] f(2)])
      (auto simp: surface_take_damage_def Let_def update_refs split: option.splits intro!: objects_refs)
  show "caps_ok c (surface_note_share f) x \<and> surfaces_referenced (surface_note_share f)"
    by (rule refs_same [OF surface_note_share_inv [OF f(1)] f(2)]) (simp_all add: surface_note_share_def)
qed

text \<open>
  Creating a surface and opening the first handle on it, as system call 22 does: the new surface has no reference until
  the handle is open, and is discarded when no handle is to be had.
\<close>

definition referenced_but :: "u32 \<Rightarrow> surface_state \<Rightarrow> bool" where
  "referenced_but oid f \<longleftrightarrow> (\<forall>x. x \<noteq> oid \<and> surface_resolve f x \<noteq> None \<longrightarrow> surface_refs f x > 0)"

lemma referenced_but_iff:
  "surfaces_referenced f \<longleftrightarrow> referenced_but oid f \<and> (surface_resolve f oid \<noteq> None \<longrightarrow> surface_refs f oid > 0)"
  unfolding surfaces_referenced_def referenced_but_def by metis

lemma surface_index_neq:
  fixes x :: u32
  assumes "x \<noteq> of_nat i + 1" "x \<noteq> 0"
  shows "unat x - 1 \<noteq> i"
proof
  assume "unat x - 1 = i"
  with assms(2) have "Suc i = unat x" by (auto simp: unat_gt_0 Suc_leI)
  then have "of_nat (Suc i) = x" by simp
  with assms(1) show False by (simp add: add.commute)
qed

lemma surface_create_refs:
  assumes f: "surface_inv f" "surfaces_referenced f" and c: "surface_create f owner w h = (Some oid, f1)"
  shows "surface_refs f1 x = surface_refs f x" "referenced_but oid f1" "surface_refs f1 oid = 0" "surface_inv f1"
proof -
  from c obtain i off where i: "first_index (\<lambda>obj. \<not> so_active obj) (surf_objects f) = Some i" "oid = of_nat i + 1"
    and f1: "surf_objects f1 = (surf_objects f)[i := surface_object_zero\<lparr>so_owner_pid := owner, so_width := w, so_height := h,
      so_offset_pixels := of_nat off, so_capacity_pixels := ucast (surface_capacity w h), so_active := True\<rparr>]"
    by (rule surface_create_Some) simp
  have il: "i < length (surf_objects f)" "\<not> so_active (surf_objects f ! i)" "length (surf_objects f) = SURFACE_LIMIT"
    using first_index_SomeD [OF i(1)] f(1) by auto
  have other: "surface_resolve f1 x = surface_resolve f x \<and> surface_refs f1 x = surface_refs f x" if "x \<noteq> oid" for x
  proof -
    have "unat x - 1 \<noteq> i" if "x \<noteq> 0"
      using surface_index_neq that \<open>x \<noteq> oid\<close> i(2) by blast
    then show ?thesis by (auto simp: surface_resolve_def surface_refs_def f1)
  qed
  have "surface_resolve f oid = None"
    using il i(2) by (auto simp: surface_resolve_None of_nat_inj_u32)
  then have old: "surface_refs f oid = 0" by (simp add: surface_refs_def)
  show z: "surface_refs f1 oid = 0"
    using il by (auto simp: surface_refs_def f1 surface_object_zero_def surface_resolve_Some i(2) of_nat_inj_u32 split: option.splits)
  show "surface_refs f1 x = surface_refs f x" using other [of x] z old by (cases "x = oid") auto
  show "referenced_but oid f1" using other f(2) by (auto simp: referenced_but_def surfaces_referenced_def)
  show "surface_inv f1" using surface_create_inv [OF f(1), of owner w h] c by simp
qed

lemma discard_fresh:
  assumes "surface_inv f" "referenced_but oid f" "surface_refs f oid = 0"
  shows "surface_refs (snd (surface_discard f oid)) x = surface_refs f x" "surfaces_referenced (snd (surface_discard f oid))"
proof -
  let ?d = "snd (surface_discard f oid)"
  have "surface_resolve ?d x = (if x = oid then None else surface_resolve f x) \<and> surface_refs ?d x = surface_refs f x" for x
  proof (cases "surface_resolve f oid")
    case None
    then show ?thesis using assms(3) by (auto simp: surface_discard_def)
  next
    case (Some i)
    have il: "i < length (surf_objects f)" "oid = of_nat i + 1" using Some assms(1) by (auto simp: surface_resolve_Some)
    have "so_references (surf_objects f ! i) = 0" using Some assms(3) by (simp add: surface_refs_def unat_eq_0)
    then have d: "surf_objects ?d = (surf_objects f)[i := surface_object_zero]"
      using Some by (simp add: surface_discard_def clear_object_def Let_def)
    have "unat oid - 1 = i" using Some by (auto simp: surface_resolve_def split: if_splits)
    then have n: "surface_resolve ?d oid = None"
      using il(1) by (simp add: surface_resolve_def d surface_object_zero_def)
    have "unat x - 1 \<noteq> i" if "x \<noteq> oid" "x \<noteq> 0"
      using surface_index_neq that il(2) by blast
    then have "x \<noteq> oid \<Longrightarrow> surface_resolve ?d x = surface_resolve f x \<and> surface_refs ?d x = surface_refs f x"
      by (auto simp: surface_resolve_def surface_refs_def d)
    with n assms(3) show ?thesis by (cases "x = oid") (auto simp: surface_refs_def)
  qed
  then show "surface_refs ?d x = surface_refs f x" "surfaces_referenced ?d"
    using assms(2) by (auto simp: surfaces_referenced_def referenced_but_def)
qed

lemma create_then_open_refs:
  assumes c: "caps_ok c f x \<and> surfaces_referenced f" and cr: "surface_create f owner w h = (Some oid, f1)"
    and opn: "capability_open_surface c f1 pid oid rights = (hn, c', f2)"
    and f3: "f3 = (if hn = UINT64_MAX then snd (surface_discard f2 oid) else f2)"
  shows "caps_ok c' f3 x \<and> surfaces_referenced f3"
proof -
  have f: "surface_inv f" "surfaces_referenced f" using c by (simp_all add: caps_ok_def)
  note k = surface_create_refs [OF f cr]
  have ok1: "caps_ok c f1 x" using c k(1,4) by (simp add: caps_ok_def refs_agree_def)
  have ok2: "caps_ok c' f2 x" using capability_open_surface_ok [OF ok1 opn] by blast
  have inv2: "surface_inv f2" using ok2 by (simp add: caps_ok_def)
  have fin: ?thesis if "f3 = snd (surface_discard f2 oid)" "referenced_but oid f2" "surface_refs f2 oid = 0"
    using discard_fresh [OF inv2 that(2,3)] surface_discard_inv [OF inv2, of oid] ok2 that(1)
    by (simp add: caps_ok_def refs_agree_def)
  show ?thesis
  proof (cases "surface_retain f1 oid")
    case (Pair b g)
    have rt: "b \<Longrightarrow> surface_retain f1 oid = (True, g)" using Pair by simp
    consider (same) "f2 = f1" "hn = UINT64_MAX" | (opened) "b" "f2 = g" "hn \<noteq> UINT64_MAX"
      | (full) "b" "f2 = snd (surface_release g oid)" "hn = UINT64_MAX"
      using opn Pair surface_retain_False [of f1 oid g]
      by (cases b) (auto simp: capability_open_surface_def retain_and_allocate_def Let_def split: if_splits prod.splits)
    then show ?thesis
    proof cases
      case same
      with fin k f3 show ?thesis by simp
    next
      case opened
      note r = surface_retain_True [OF k(4) rt [OF opened(1)]]
      have "surfaces_referenced f2"
        using k(2) r(1,2) unfolding opened(2) referenced_but_iff [of g oid] by (auto simp: referenced_but_def)
      with opened f3 ok2 show ?thesis by simp
    next
      case full
      note r = surface_retain_True [OF k(4) rt [OF full(1)]]
      have one: "surface_refs g oid = 1" using r(1) [of oid] k(3) by simp
      note l = surface_release_live [OF r(3), of oid, unfolded one, simplified]
      have "referenced_but oid f2" "surface_refs f2 oid = 0"
        using l(1,2) r(1,2) k(2) one by (auto simp: full(2) referenced_but_def)
      with fin full f3 show ?thesis by simp
    qed
  qed
qed

lemma kernel_inv_input:
  assumes "kernel_inv s"
  shows "kernel_inv (snd (input_poll s))" "kernel_inv (snd (input_wait pid a s))"
proof -
  have q: "kernel_inv (s\<lparr>in_queue := q\<rparr>)" if "queue_inv q" for q
  proof -
    have "sched_inv (s\<lparr>in_queue := q\<rparr>) = sched_inv s" by (rule sched_inv_truncate) (simp add: sched_state.defs)
    with assms that ipc_inv_cong [of "s\<lparr>in_queue := q\<rparr>" s] show ?thesis by (simp add: kernel_inv_def refs_exact_def)
  qed
  show "kernel_inv (snd (input_poll s))"
    using assms q queue_deq_elems [OF kernel_invD(3) [OF assms]] by (auto simp: input_poll_def split: option.splits)
  have "sched_inv (s\<lparr>in_waiter := w\<rparr>) = sched_inv s" for w by (rule sched_inv_truncate) simp
  with assms ipc_inv_cong [of "s\<lparr>in_waiter := w\<rparr>" s for w] show "kernel_inv (snd (input_wait pid a s))"
    by (simp add: input_wait_def kernel_inv_def refs_exact_def)
qed

text \<open>Handles: every operation on the capability table keeps the reference counts exact.\<close>

lemma kernel_inv_handles:
  assumes s: "kernel_inv s"
  shows "kernel_inv (s\<lparr>ipc_caps := snd (capability_resolve_object (ipc_caps s) pid h r)\<rparr>)"
    "kernel_inv (s\<lparr>ipc_caps := snd (capability_open (ipc_caps s) pid service)\<rparr>)"
    "kernel_inv (s\<lparr>ipc_caps := snd (capability_open_file (ipc_caps s) pid oid)\<rparr>)"
    "capability_close (ipc_caps s) (mem_surf s) pid h = (b, c, f) \<Longrightarrow> kernel_inv (s\<lparr>ipc_caps := c, mem_surf := f\<rparr>)"
    "capability_grant (ipc_caps s) (mem_surf s) pid h target r = (hn, c, f) \<Longrightarrow> kernel_inv (s\<lparr>ipc_caps := c, mem_surf := f\<rparr>)"
proof -
  note k = refs_exactD [OF kernel_invD(4) [OF s]]
  show "kernel_inv (s\<lparr>ipc_caps := snd (capability_resolve_object (ipc_caps s) pid h r)\<rparr>)"
    using k(1) by (intro kernel_inv_caps_only [OF s]) (simp add: capability_resolve_object_ok)
  have "caps_ok (snd (capability_open (ipc_caps s) pid service)) (mem_surf s) (map_refs (mem_mapped_surface s))"
    using k(1) allocate_slot_other [OF k(1) _ _ surjective_pairing, of pid service 0 "service_rights service"]
    by (simp add: capability_open_def Let_def not_le)
  then show "kernel_inv (s\<lparr>ipc_caps := snd (capability_open (ipc_caps s) pid service)\<rparr>)" by (rule kernel_inv_caps_only [OF s])
  have "caps_ok (snd (capability_open_file (ipc_caps s) pid oid)) (mem_surf s) (map_refs (mem_mapped_surface s))"
    using k(1) allocate_slot_other [OF k(1) _ _ surjective_pairing, of pid CAPABILITY_SERVICE_FILE oid]
    by (simp add: capability_open_file_def not_le)
  then show "kernel_inv (s\<lparr>ipc_caps := snd (capability_open_file (ipc_caps s) pid oid)\<rparr>)" by (rule kernel_inv_caps_only [OF s])
  show "capability_close (ipc_caps s) (mem_surf s) pid h = (b, c, f) \<Longrightarrow> kernel_inv (s\<lparr>ipc_caps := c, mem_surf := f\<rparr>)"
    using kernel_inv_caps [OF s] capability_close_ok [OF k(1)] k(2) by blast
  show "capability_grant (ipc_caps s) (mem_surf s) pid h target r = (hn, c, f) \<Longrightarrow> kernel_inv (s\<lparr>ipc_caps := c, mem_surf := f\<rparr>)"
    using kernel_inv_caps [OF s] capability_grant_ok [OF k(1)] k(2) by blast
qed

lemma kernel_inv_surfaces:
  assumes s: "kernel_inv s"
  shows "kernel_inv (s\<lparr>mem_surf := snd (surface_data (mem_surf s) oid)\<rparr>)"
    "kernel_inv (s\<lparr>mem_surf := snd (surface_write (mem_surf s) oid off px)\<rparr>)"
    "kernel_inv (s\<lparr>mem_surf := snd (surface_damage (mem_surf s) oid a b w h)\<rparr>)"
    "kernel_inv (s\<lparr>mem_surf := snd (surface_take_damage (mem_surf s) oid)\<rparr>)"
    "kernel_inv (s\<lparr>mem_surf := surface_note_share (mem_surf s)\<rparr>)"
  using refs_exactD [OF kernel_invD(4) [OF s]]
  by (auto intro!: kernel_inv_surf_only [OF s] surface_ops_refs)

section \<open>What stays above the input queue\<close>

lemma upper_held: "held s' = held s \<Longrightarrow> input_state.more s' = input_state.more s"
  by (simp add: held_def)

lemma upper_above: "above s' = above s \<Longrightarrow> input_state.more s' = input_state.more s"
  using above_fields(6) .

lemma upper_mem: "mem_state.more s' = mem_state.more s \<Longrightarrow> input_state.more s' = input_state.more s"
  using more_fields_mem(3) .

lemma upper_updates [simp]:
  "input_state.more (s\<lparr>ipc_caps := c\<rparr>) = input_state.more s" "input_state.more (s\<lparr>mem_surf := f\<rparr>) = input_state.more s"
  "input_state.more (s\<lparr>mem_used := u\<rparr>) = input_state.more s" "input_state.more (s\<lparr>mem_phys := m\<rparr>) = input_state.more s"
  "input_state.more (s\<lparr>mem_user := v\<rparr>) = input_state.more s"
  by simp_all

lemma upper_steps [simp]:
  "input_state.more (set_task p f s) = input_state.more s" "input_state.more (set_frame a g s) = input_state.more s"
  "input_state.more (snd (dispatch p s)) = input_state.more s" "input_state.more (snd (return_idle s)) = input_state.more s"
  "input_state.more (snd (reschedule frame s)) = input_state.more s"
  "input_state.more (snd (scheduler_on_yield frame s)) = input_state.more s"
  "input_state.more (snd (scheduler_block_current frame s)) = input_state.more s"
  "input_state.more (snd (scheduler_block_current_timeout frame delay result s)) = input_state.more s"
  "input_state.more (snd (scheduler_create_user parent name entry stack root s)) = input_state.more s"
  "input_state.more (large_code_release pid s) = input_state.more s" "input_state.more (anonymous_release pid s) = input_state.more s"
  "input_state.more (snd (anonymous_map pid n s)) = input_state.more s"
  "input_state.more (snd (anonymous_reserve pid n s)) = input_state.more s"
  "input_state.more (snd (anonymous_commit pid n w s)) = input_state.more s"
  "input_state.more (snd (userspace_copy_to pid a d s)) = input_state.more s"
  "input_state.more (snd (load_image pid memory img s)) = input_state.more s"
  by (rule upper_above, simp)+

lemma upper_channels [simp]:
  "input_state.more (snd (ipc_receive pid h n s)) = input_state.more s"
  "input_state.more (snd (ipc_send_impl pid h d b s)) = input_state.more s"
  "input_state.more (snd (ipc_wait_as mx pid h a n s)) = input_state.more s"
  "input_state.more (snd (ipc_create pid name s)) = input_state.more s"
  "input_state.more (snd (ipc_connect pid name s)) = input_state.more s"
  "input_state.more (snd (ipc_resolve pid h r s)) = input_state.more s"
  "input_state.more (snd (ipc_cancel_wait pid s)) = input_state.more s"
  "input_state.more (snd (input_cancel_wait pid s)) = input_state.more s"
  "input_state.more (ipc_process_cleanup pid s) = input_state.more s"
  by (rule upper_held, simp)+

lemma upper_maps [simp]:
  "input_state.more (unmap_surface pid s) = input_state.more s"
  "input_state.more (snd (unmap_surface_id pid oid s)) = input_state.more s"
  "input_state.more (snd (map_surface_readonly pid oid s)) = input_state.more s"
  by (rule upper_mem, simp)+

lemma upper_release [simp]: "input_state.more (userspace_release_process pid s) = input_state.more s"
  by (simp add: userspace_release_process_def Let_def case_prod_beta)

lemma upper_wake_parent [simp]: "input_state.more (wake_waiting_parent child s) = input_state.more s"
  by (simp add: wake_waiting_parent_def Let_def)

lemma upper_processes [simp]:
  "input_state.more (snd (scheduler_on_exit frame code s)) = input_state.more s"
  "input_state.more (snd (scheduler_reap parent child s)) = input_state.more s"
  "input_state.more (snd (scheduler_terminate pid code s)) = input_state.more s"
  by (simp_all add: scheduler_on_exit_def scheduler_reap_def scheduler_terminate_def Let_def)

lemma upper_wait [simp]: "input_state.more (snd (scheduler_on_wait frame child s)) = input_state.more s"
  using upper_processes(2) [of "sch_current_pid s" child s]
  by (auto simp: scheduler_on_wait_def Let_def simp del: upper_processes split: prod.splits option.splits)

lemma upper_reap_first [simp]: "input_state.more (snd (reap_first children parent s)) = input_state.more s"
proof (induction children parent s rule: reap_first.induct)
  case (2 child children parent s)
  then show ?case using upper_processes(2) [of parent child s] by (auto simp del: upper_processes split: prod.splits option.splits)
qed simp

lemma upper_reap_exited [simp]: "input_state.more (snd (scheduler_reap_exited parent s)) = input_state.more s"
  by (simp add: scheduler_reap_exited_def del: reap_first.simps)

lemma upper_load [simp]: "input_state.more (snd (load_process pid parent name memory img services s)) = input_state.more s"
proof -
  have l: "input_state.more s1 = input_state.more s" if "load_image pid memory img (s\<lparr>mem_phys := m\<rparr>) = (r, s1)" for m r s1
    using upper_steps(16) [of pid memory img "s\<lparr>mem_phys := m\<rparr>"] that by simp
  have c: "input_state.more s2 = input_state.more s1"
    if "scheduler_create_user parent nm entry stack root (s1\<lparr>mem_phys := m\<rparr>) = (p, s2)" for nm entry stack root s1 m p s2
    using upper_steps(9) [of parent nm entry stack root "s1\<lparr>mem_phys := m\<rparr>"] that by simp
  show ?thesis
    unfolding load_process_def Let_def by (auto split: prod.splits option.splits dest!: l c)
qed

lemma upper_spawn_slots [simp]: "input_state.more (snd (spawn_in_slots slots parent name img services s)) = input_state.more s"
proof (induction slots arbitrary: s)
  case (Cons slot slots)
  then show ?case
    using upper_load [of slot parent name "mem_process s ! unat slot" img services s]
    by (auto simp: Let_def case_prod_beta simp del: upper_load)
qed simp

section \<open>Interrupts and start\<close>

lemma parts_inv_expire: "parts_inv s \<Longrightarrow> parts_inv (expire_wait pid s)"
proof -
  assume s: "parts_inv s"
  let ?t = "snd (input_cancel_wait pid (snd (ipc_cancel_wait pid s)))"
  have h: "held ?t = held s" "ipc_caps ?t = ipc_caps s" by simp_all
  have "ipc_inv ?t"
    using s ipc_cancel_wait_inv [of s pid] ipc_inv_cong [OF input_cancel_wait_frame(1), of pid "snd (ipc_cancel_wait pid s)"]
    by (simp add: parts_inv_def)
  with s h have "parts_inv ?t" by (simp add: parts_inv_def refs_exact_def held_def)
  with s show ?thesis by (simp add: expire_wait_def Let_def)
qed

lemma parts_inv_fold_expire: "parts_inv s \<Longrightarrow> parts_inv (fold expire_wait pids s)"
  by (induction pids arbitrary: s) (simp_all add: parts_inv_expire)

lemma kernel_inv_tick: "kernel_inv s \<Longrightarrow> kernel_inv (snd (scheduler_on_timer_tick frame s))"
proof -
  assume s: "kernel_inv s"
  have "parts_inv (s\<lparr>sch_ticks := n\<rparr>)" for n
    using s parts_inv_above [OF above_more, of "s\<lparr>sch_ticks := n\<rparr>" s] by (simp add: kernel_inv_parts)
  then have "parts_inv (snd (scheduler_on_timer_tick frame s))"
    using s parts_inv_fold_expire [of "s\<lparr>sch_ticks := sch_ticks s + 1\<rparr>" "[1, 2, 3, 4, 5, 6, 7]"]
    by (simp add: scheduler_on_timer_tick_def Let_def kernel_inv_parts del: fold.simps)
  with s show ?thesis by (simp add: kernel_inv_parts scheduler_on_timer_tick_inv)
qed

lemma kernel_inv_start: "kernel_inv s \<Longrightarrow> kernel_inv (snd (scheduler_start_users s))"
proof (rule kernel_inv_above)
  show "above (snd (scheduler_start_users s)) = above s"
    by (rule above_more) (simp add: scheduler_start_users_def Let_def)
qed (simp_all add: scheduler_start_users_inv kernel_invD)

lemma kernel_inv_enqueue: "kernel_inv s \<Longrightarrow> kernel_inv (snd (input_enqueue ev s))"
proof -
  assume s: "kernel_inv s"
  have q: "queue_inv (in_queue (snd (input_enqueue ev s)))"
    using s queue_enq_elems [OF kernel_invD(3) [OF s]]
    by (auto simp: input_enqueue_def Let_def kernel_inv_def queue_inv_def split: option.splits)
  have f: "sched_state.truncate (snd (input_enqueue ev s)) = sched_state.truncate s"
    "ipc_channels (snd (input_enqueue ev s)) = ipc_channels s" "ipc_caps (snd (input_enqueue ev s)) = ipc_caps s"
    "mem_surf (snd (input_enqueue ev s)) = mem_surf s" "mem_mapped_surface (snd (input_enqueue ev s)) = mem_mapped_surface s"
    by (simp_all add: input_enqueue_def Let_def sched_state.defs split: option.splits)
  show ?thesis
    using s q ipc_inv_cong [OF f(2)] sched_inv_truncate [OF f(1)] by (simp add: kernel_inv_def refs_exact_def f)
qed

lemma kernel_inv_publish: "kernel_inv s \<Longrightarrow> kernel_inv (snd (input_publish ev s))"
proof -
  assume s: "kernel_inv s"
  let ?w = "in_waiter s"
  let ?s0 = "s\<lparr>in_waiter := ?w\<lparr>inw_active := False\<rparr>\<rparr>"
  have "sched_inv ?s0 = sched_inv s" by (rule sched_inv_truncate) simp
  then have k0: "kernel_inv ?s0"
    using s ipc_inv_cong [of ?s0 s] by (simp add: kernel_inv_def refs_exact_def)
  let ?s1 = "snd (ipc_cancel_wait (inw_pid ?w) ?s0)"
  let ?s2 = "snd (userspace_copy_to (inw_pid ?w) (inw_address ?w) (input_event_bytes ev) ?s1)"
  let ?s3 = "snd (scheduler_wake (inw_pid ?w) 2 40 ?s2)"
  have k2: "kernel_inv ?s2" using kernel_inv_memory_ops(5) [OF kernel_inv_channels(7) [OF k0]] .
  have k3: "kernel_inv ?s3" by (rule kernel_inv_above [OF _ scheduler_wake_inv k2]) (simp_all add: kernel_invD [OF k2])
  have "sched_inv (?s3\<lparr>in_userspace_deliveries := n\<rparr>) = sched_inv ?s3" for n by (rule sched_inv_truncate) (simp add: sched_state.defs)
  then have "kernel_inv (?s3\<lparr>in_userspace_deliveries := n\<rparr>)" for n
    using k3 ipc_inv_cong [of "?s3\<lparr>in_userspace_deliveries := n\<rparr>" ?s3] by (simp add: kernel_inv_def refs_exact_def)
  with s k2 k3 show ?thesis
    by (simp add: input_publish_def Let_def case_prod_beta kernel_inv_enqueue)
qed

lemma upper_interrupts [simp]:
  "input_state.more (snd (scheduler_start_users s)) = input_state.more s"
  "input_state.more (snd (input_enqueue ev s)) = input_state.more s"
  by (simp_all add: scheduler_start_users_def input_enqueue_def Let_def split: option.splits)

lemma upper_publish [simp]: "input_state.more (snd (input_publish ev s)) = input_state.more s"
proof -
  have "input_state.more (snd (scheduler_wake p r d t)) = input_state.more t" for p r d and t :: "'a input_state_scheme"
    by (rule upper_above) simp
  then show ?thesis by (simp add: input_publish_def Let_def case_prod_beta)
qed

lemma upper_tick [simp]: "input_state.more (snd (scheduler_on_timer_tick frame s)) = input_state.more s"
proof -
  have "input_state.more (fold expire_wait pids t) = input_state.more t" for pids and t :: "'a input_state_scheme"
    by (induction pids arbitrary: t) (simp_all add: expire_wait_def Let_def)
  then show ?thesis by (simp add: scheduler_on_timer_tick_def Let_def del: fold.simps)
qed

end
