(* ===== verification/Syscall_Inv.thy ===== *)
theory Syscall_Inv
  imports Syscall Kernel_Inv
begin

text \<open>
  Every system call keeps the invariant of the kernel: the scheduler's, the channels', the event queue's, the file
  system's, and the exact reference counts of the surfaces. One lemma per call, collected in \<open>sys_keeps\<close>, and the dispatcher by cases.
\<close>

section \<open>The invariant\<close>

definition sys_inv :: "sys_state \<Rightarrow> bool" where
  "sys_inv s \<longleftrightarrow> kernel_inv s \<and> ramfs_inv (ks_ramfs s)"

named_theorems sys_keeps "operations that keep the invariant of the system-call state"

lemma kernel_inv_upper [simp]:
  "kernel_inv (s\<lparr>ks_ramfs := a\<rparr>) = kernel_inv s" "kernel_inv (s\<lparr>ks_last_exit_status := b\<rparr>) = kernel_inv s"
  "kernel_inv (s\<lparr>ks_display_owner := c\<rparr>) = kernel_inv s" "kernel_inv (s\<lparr>ks_serial := d\<rparr>) = kernel_inv s"
  "kernel_inv (t\<lparr>sy_display := e\<rparr>) = kernel_inv t" "kernel_inv (t\<lparr>sy_terminal := d\<rparr>) = kernel_inv t"
  by (simp_all add: kernel_inv_def refs_exact_def ipc_inv_def sched_inv_def sched_shape_def)

lemma sys_inv_fields [simp]:
  "sys_inv (s\<lparr>ks_last_exit_status := b\<rparr>) = sys_inv s" "sys_inv (s\<lparr>ks_display_owner := c\<rparr>) = sys_inv s"
  "sys_inv (s\<lparr>ks_serial := d\<rparr>) = sys_inv s" "sys_inv (s\<lparr>sy_display := e\<rparr>) = sys_inv s" "sys_inv (s\<lparr>sy_terminal := d\<rparr>) = sys_inv s"
  by (simp_all add: sys_inv_def)

lemma upper_fields:
  fixes s s' :: sys_state
  assumes "input_state.more s' = input_state.more s"
  shows "ks_ramfs s' = ks_ramfs s" "sy_display s' = sy_display s" "ks_display_owner s' = ks_display_owner s"
  using assms by (cases s; cases s'; simp)+

lemma sys_lower: "sys_inv s \<Longrightarrow> (kernel_inv s \<Longrightarrow> kernel_inv s') \<Longrightarrow> input_state.more s' = input_state.more s \<Longrightarrow> sys_inv s'"
  using upper_fields(1) [of s' s] by (simp add: sys_inv_def)

lemma sys_ramfs: "sys_inv s \<Longrightarrow> ramfs_inv fs \<Longrightarrow> sys_inv (s\<lparr>ks_ramfs := fs\<rparr>)"
  by (simp add: sys_inv_def)

lemma sys_ramfs_ops [sys_keeps]:
  assumes "sys_inv s"
  shows "sys_inv (s\<lparr>ks_ramfs := snd (ramfs_write i d (ks_ramfs s))\<rparr>)" "sys_inv (s\<lparr>ks_ramfs := snd (ramfs_open n c (ks_ramfs s))\<rparr>)"
    "sys_inv (s\<lparr>ks_ramfs := snd (ramfs_delete n (ks_ramfs s))\<rparr>)" "sys_inv (s\<lparr>ks_ramfs := snd (ramfs_rename n m (ks_ramfs s))\<rparr>)"
    "sys_inv (s\<lparr>ks_ramfs := snd (ramfs_read_range ph i a k (ks_ramfs s))\<rparr>)"
  using assms by (auto simp: sys_inv_def ramfs_write_inv ramfs_open_inv ramfs_delete_inv ramfs_rename_inv ramfs_read_range_inv)

lemma kernel_inv_set_frame [simp]: "kernel_inv (set_frame a g s) = kernel_inv s"
  by (simp add: kernel_inv_parts)

lemma sys_inv_set_frame [simp]: "sys_inv (set_frame a g s) = sys_inv s"
  using upper_fields(1) [OF upper_steps(2)] by (simp add: sys_inv_def)

lemma sys_inv_return [simp]: "sys_inv (snd (sys_return frame v s)) = sys_inv s"
  by (simp add: sys_return_def)

lemma sys_lower_ops [sys_keeps]:
  assumes "sys_inv s"
  shows "sys_inv (snd (ipc_receive pid h n s))" "sys_inv (snd (ipc_send_impl pid h d b s))" "sys_inv (snd (ipc_wait_as mx pid h a n s))"
    "sys_inv (snd (ipc_create pid name s))" "sys_inv (snd (ipc_connect pid name s))" "sys_inv (snd (ipc_resolve pid h r s))"
    "sys_inv (snd (ipc_cancel_wait pid s))" "sys_inv (snd (input_cancel_wait pid s))" "sys_inv (ipc_process_cleanup pid s)"
    "sys_inv (snd (scheduler_on_yield frame s))" "sys_inv (snd (scheduler_block_current frame s))"
    "sys_inv (snd (scheduler_block_current_timeout frame delay result s))" "sys_inv (snd (scheduler_on_exit frame code s))"
    "sys_inv (snd (scheduler_terminate pid code s))" "sys_inv (snd (scheduler_reap_exited pid s))"
    "sys_inv (snd (map_surface_readonly pid oid s))" "sys_inv (snd (unmap_surface_id pid oid s))"
    "sys_inv (snd (userspace_copy_to pid a d s))" "sys_inv (anonymous_release pid s)"
    "sys_inv (snd (spawn_in_slots slots parent nm img services s))"
  by (rule sys_lower [OF assms]; simp add: kernel_inv_channels kernel_inv_switches kernel_inv_exit kernel_inv_terminate
      kernel_inv_reap_exited kernel_inv_map kernel_inv_unmap_id kernel_inv_memory_ops kernel_inv_spawn_slots)+

lemma sys_wait_keeps [sys_keeps]: "sys_inv s \<Longrightarrow> sch_users_running s \<Longrightarrow> sys_inv (snd (scheduler_on_wait frame child s))"
  by (rule sys_lower) (simp_all add: kernel_inv_wait)

lemma truncate_commit_pages [simp]: "sched_state.truncate (snd (anonymous_commit_pages ps pid w s)) = sched_state.truncate s"
  by (induction ps arbitrary: s) (simp_all add: Let_def case_prod_beta)

lemma sys_anonymous_keeps [sys_keeps]:
  assumes "sys_inv s"
  shows "sys_inv (snd (anonymous_map pid n s))" "sys_inv (snd (anonymous_reserve pid n s))" "sys_inv (snd (anonymous_commit pid n w s))"
proof -
  have t: "sched_state.truncate (snd (anonymous_map pid n s)) = sched_state.truncate s"
    "sched_state.truncate (snd (anonymous_reserve pid n s)) = sched_state.truncate s"
    "sched_state.truncate (snd (anonymous_commit pid n w s)) = sched_state.truncate s"
    by (simp_all add: anonymous_map_def anonymous_reserve_def anonymous_commit_def Let_def case_prod_beta)
  show "sys_inv (snd (anonymous_map pid n s))" by (rule sys_lower [OF assms kernel_inv_memory [OF _ t(1)]]; simp)
  show "sys_inv (snd (anonymous_reserve pid n s))" by (rule sys_lower [OF assms kernel_inv_memory [OF _ t(2)]]; simp)
  show "sys_inv (snd (anonymous_commit pid n w s))" by (rule sys_lower [OF assms kernel_inv_memory [OF _ t(3)]]; simp)
qed

lemma sys_input_keeps [sys_keeps]:
  assumes "sys_inv s"
  shows "sys_inv (snd (input_poll s))" "sys_inv (snd (input_wait pid a s))"
proof -
  show "sys_inv (snd (input_poll s))"
    by (rule sys_lower [OF assms kernel_inv_input(1)]) (simp_all add: input_poll_def split: option.splits)
  show "sys_inv (snd (input_wait pid a s))"
    by (rule sys_lower [OF assms kernel_inv_input(2)]) (simp_all add: input_wait_def)
qed

lemma sys_handles_keep [sys_keeps]:
  assumes "sys_inv s"
  shows "sys_inv (s\<lparr>ipc_caps := snd (capability_resolve_object (ipc_caps s) pid h r)\<rparr>)"
    "sys_inv (s\<lparr>ipc_caps := snd (capability_open (ipc_caps s) pid service)\<rparr>)"
    "sys_inv (s\<lparr>ipc_caps := snd (capability_open_file (ipc_caps s) pid oid)\<rparr>)"
  by (rule sys_lower [OF assms]; simp add: kernel_inv_handles)+

lemma sys_surfaces_keep [sys_keeps]:
  assumes "sys_inv s"
  shows "sys_inv (s\<lparr>mem_surf := snd (surface_data (mem_surf s) oid)\<rparr>)"
    "sys_inv (s\<lparr>mem_surf := snd (surface_write (mem_surf s) oid off px)\<rparr>)"
    "sys_inv (s\<lparr>mem_surf := snd (surface_damage (mem_surf s) oid a b w h)\<rparr>)"
    "sys_inv (s\<lparr>mem_surf := snd (surface_take_damage (mem_surf s) oid)\<rparr>)"
    "sys_inv (s\<lparr>mem_surf := surface_note_share (mem_surf s)\<rparr>)"
  by (rule sys_lower [OF assms]; simp add: kernel_inv_surfaces)+

section \<open>The helpers\<close>

lemma sys_resolve_object_state:
  "snd (sys_resolve_object h r s) = s\<lparr>ipc_caps := snd (capability_resolve_object (ipc_caps s) (sch_current_pid s) h r)\<rparr>"
  "fst (sys_resolve_object h r s) = fst (capability_resolve_object (ipc_caps s) (sch_current_pid s) h r)"
  by (simp_all add: sys_resolve_object_def case_prod_beta Let_def)

lemma sys_resolve_state:
  "snd (sys_resolve h r s) = s\<lparr>ipc_caps := snd (capability_resolve_object (ipc_caps s) (sch_current_pid s) h r)\<rparr>"
  "fst (sys_resolve h r s) = map_option fst (fst (capability_resolve_object (ipc_caps s) (sch_current_pid s) h r))"
  by (simp_all add: sys_resolve_def capability_resolve_def case_prod_beta Let_def)

lemma sys_resolve_keeps [sys_keeps]:
  assumes "sys_inv s"
  shows "sys_inv (snd (sys_resolve_object h r s))" "sys_inv (snd (sys_resolve h r s))"
  using sys_handles_keep(1) [OF assms] by (simp_all add: sys_resolve_object_state sys_resolve_state)

lemma with_service_keeps:
  assumes "sys_inv s" "\<And>s1. sys_inv s1 \<Longrightarrow> sys_inv (snd (k s1))"
  shows "sys_inv (snd (with_service frame h r sv k s))"
  using assms by (simp add: with_service_def Let_def case_prod_beta sys_keeps)

lemma with_object_keeps:
  assumes "sys_inv s" "\<And>oid s1. sys_inv s1 \<Longrightarrow> sys_inv (snd (k oid s1))"
  shows "sys_inv (snd (with_object frame h r sv k s))"
  using assms by (simp add: with_object_def Let_def case_prod_beta sys_keeps split: option.splits)

lemma write_user_text_keeps [sys_keeps]: "sys_inv s \<Longrightarrow> sys_inv (snd (write_user_text a n s))"
  by (simp add: write_user_text_def Let_def)

lemma store_user_keeps [sys_keeps]: "sys_inv s \<Longrightarrow> sys_inv (store_user a d s)"
  by (rule sys_lower) (auto simp: store_user_def intro: kernel_inv_memory)

lemma copy_ramfs_loop_keeps: "sys_inv s \<Longrightarrow> sys_inv (snd (copy_ramfs_loop oid off dst cap n s))"
proof (induction "cap - n" arbitrary: n s rule: less_induct)
  case less
  let ?c = "min (cap - n) 4096"
  obtain x fs where rd: "ramfs_read_range (mem_phys s) oid (off + n) ?c (ks_ramfs s) = (x, fs)" by (metis surj_pair)
  have k: "sys_inv (s\<lparr>ks_ramfs := fs\<rparr>)"
    using sys_ramfs_ops(5) [OF less.prems, of "mem_phys s" oid "off + n" ?c] rd by simp
  show ?case
  proof (cases "cap \<le> n \<or> n > 18446744073709551615 - off \<or> x = None")
    case True
    then show ?thesis using less.prems k rd by (subst copy_ramfs_loop.simps) (auto simp: Let_def)
  next
    case False
    then obtain d where d: "x = Some d" by auto
    let ?s = "store_user (dst + of_nat n) d (s\<lparr>ks_ramfs := fs\<rparr>)"
    have "sys_inv ?s" using k by (rule store_user_keeps)
    moreover have "\<not> length d < ?c \<Longrightarrow> cap - (n + length d) < cap - n" using False by auto
    ultimately show ?thesis
      using False less.hyps [of "n + length d" ?s] rd d by (subst copy_ramfs_loop.simps) (auto simp: Let_def)
  qed
qed

lemma copy_ramfs_to_user_keeps [sys_keeps]: "sys_inv s \<Longrightarrow> sys_inv (snd (copy_ramfs_to_user oid off dst cap s))"
  by (simp add: copy_ramfs_to_user_def copy_ramfs_loop_keeps)

lemma copy_out_keeps [sys_keeps]: "sys_inv s \<Longrightarrow> sys_inv (snd (copy_out a d s))"
  by (simp add: copy_out_def sys_keeps)

lemma release_rights_keeps [sys_keeps]: "sys_inv s \<Longrightarrow> sys_inv (release_rights pid s)"
proof -
  assume s: "sys_inv s"
  let ?s = "ipc_process_cleanup pid s"
  have k: "kernel_inv ?s" using sys_lower_ops(9) [OF s, of pid] by (simp add: sys_inv_def)
  show ?thesis
    by (rule sys_lower [OF s]) (use kernel_inv_close_all [OF k surjective_pairing, of pid] in \<open>simp_all add: release_rights_def Let_def case_prod_beta\<close>)
qed

lemma spawn_path_keeps [sys_keeps]: "sys_inv s \<Longrightarrow> sys_inv (snd (userspace_spawn_path parent path name services s))"
proof -
  assume s: "sys_inv s"
  have "sys_inv (s\<lparr>ks_ramfs := fs\<rparr>)" if "ramfs_open path False (ks_ramfs s) = (x, fs)" for x fs
    using sys_ramfs_ops(2) [OF s, of path False] that by simp
  with s show ?thesis
    by (auto simp: userspace_spawn_path_def Let_def sys_lower_ops(20) simp del: spawn_in_slots.simps split: prod.splits option.splits)
qed

text \<open>Loading a process does not stop the users.\<close>

lemma load_process_running: "sch_users_running (snd (load_process pid parent name memory img services s)) = sch_users_running s"
proof -
  have l: "sch_users_running s1 = sch_users_running s" if "load_image pid memory img (s\<lparr>mem_phys := m\<rparr>) = (r, s1)" for m r s1
    using truncate_tasks(4) [OF truncate_load_image, of pid memory img "s\<lparr>mem_phys := m\<rparr>"] that by simp
  have c: "sch_users_running s2 = sch_users_running s1"
    if "scheduler_create_user parent nm entry stack root (s1\<lparr>mem_phys := m\<rparr>) = (p, s2)" for nm entry stack root s1 m p s2
    using that by (auto simp: scheduler_create_user_def prepare_frame_def Let_def split: option.splits prod.splits if_splits)
  show ?thesis
    unfolding load_process_def Let_def
    by (auto split: prod.splits option.splits simp: truncate_tasks(4) [OF truncate_large_code_release] dest!: l c)
qed

lemma spawn_running [simp]:
  "sch_users_running (snd (spawn_in_slots slots parent name img services s)) = sch_users_running s"
proof (induction slots arbitrary: s)
  case (Cons slot slots)
  then show ?case
    using load_process_running [of slot parent name "mem_process s ! unat slot" img services s]
    by (auto simp: Let_def case_prod_beta)
qed simp

lemma spawn_path_running [simp]:
  "sch_users_running (snd (userspace_spawn_path parent path name services s)) = sch_users_running s"
  by (simp add: userspace_spawn_path_def Let_def case_prod_beta del: spawn_in_slots.simps split: option.splits)

section \<open>The calls\<close>


lemma console_calls_keep [sys_keeps]:
  assumes "sys_inv s"
  shows "sys_inv (snd (sys_write_text frame s))" "sys_inv (snd (sys_yield frame s))" "sys_inv (snd (sys_exit frame s))"
    "sys_inv (snd (sys_ticks e frame s))" "sys_inv (snd (sys_getpid frame s))" "sys_inv (snd (sys_open_service frame s))"
  using assms by (simp_all add: sys_write_text_def sys_yield_def sys_exit_def sys_ticks_def sys_getpid_def sys_open_service_def
      sys_keeps Let_def case_prod_beta)

lemma process_calls_keep [sys_keeps]:
  assumes "sys_inv s"
  shows "sys_inv (snd (sys_spawn frame s))" "sch_users_running s \<Longrightarrow> sys_inv (snd (sys_wait frame s))"
    "sys_inv (snd (sys_terminate frame s))" "sys_inv (snd (sys_reap frame s))" "sys_inv (snd (sys_time_of_day e frame s))"
  using assms by (simp_all add: sys_spawn_def sys_wait_def sys_terminate_def sys_reap_def sys_time_of_day_def sys_keeps Let_def case_prod_beta split: option.splits)

lemma spawn_foreground_keeps [sys_keeps]:
  assumes "sys_inv s" "sch_users_running s"
  shows "sys_inv (snd (sys_spawn_foreground frame s))"
proof -
  have "sch_users_running (snd (input_cancel_wait p (snd (ipc_cancel_wait p s)))) = sch_users_running s" for p
    by (simp add: truncate_tasks(4) [OF truncate_input_cancel_wait] truncate_tasks(4) [OF truncate_ipc_cancel_wait])
  then show ?thesis using assms by (simp add: sys_spawn_foreground_def sys_keeps Let_def case_prod_beta)
qed

lemma query_keeps [sys_keeps]:
  assumes "sys_inv s"
  shows "sys_inv (snd (query_file h x s))" "sys_inv (snd (query_surface h x s))"
  using assms by (simp_all add: query_file_def query_surface_def sys_keeps Let_def case_prod_beta split: option.splits)

lemma handle_calls_keep [sys_keeps]:
  assumes "sys_inv s"
  shows "sys_inv (snd (sys_write_handle frame s))" "sys_inv (snd (sys_query e frame s))"
  using assms by (simp_all add: sys_write_handle_def sys_query_def sys_keeps Let_def case_prod_beta split: option.splits)

lemma close_keeps [sys_keeps]: "sys_inv s \<Longrightarrow> sys_inv (snd (sys_close frame s))"
proof -
  assume s: "sys_inv s"
  obtain b c f where k: "capability_close (ipc_caps s) (mem_surf s) (sch_current_pid s) (f_rdi (arg_frame frame s)) = (b, c, f)"
    by (metis prod_cases3)
  have "sys_inv (s\<lparr>ipc_caps := c, mem_surf := f\<rparr>)"
    by (rule sys_lower [OF s kernel_inv_handles(4) [OF _ k]]) simp_all
  then show ?thesis by (simp add: sys_close_def k)
qed

lemma open_file_keeps [sys_keeps]: "sys_inv s \<Longrightarrow> sys_inv (snd (sys_open_file frame s))"
proof -
  have "sys_inv (s1\<lparr>ks_ramfs := fs, ipc_caps := snd (capability_open_file (ipc_caps s1) pid oid)\<rparr>)"
    if "sys_inv s1" "ramfs_inv fs" for s1 :: sys_state and fs pid oid
    using sys_handles_keep(3) [OF sys_ramfs [OF that], of pid oid] by simp
  moreover have "ramfs_inv (snd (ramfs_open n c (ks_ramfs s1)))" if "sys_inv s1" for n c s1
    using that ramfs_open_inv by (simp add: sys_inv_def)
  ultimately show "sys_inv s \<Longrightarrow> ?thesis"
    unfolding sys_open_file_def Let_def by (intro with_service_keeps) (simp_all add: sys_keeps Let_def case_prod_beta split: option.splits)
qed

lemma file_calls_keep [sys_keeps]:
  assumes "sys_inv s"
  shows "sys_inv (snd (sys_read_from off frame s))" "sys_inv (snd (sys_delete frame s))" "sys_inv (snd (sys_rename frame s))"
    "sys_inv (snd (sys_list_directory frame s))"
  unfolding sys_read_from_def sys_delete_def sys_rename_def sys_list_directory_def Let_def
  by (intro with_service_keeps with_object_keeps; simp add: assms sys_keeps Let_def case_prod_beta split: option.splits)+

lemma read_calls_keep [sys_keeps]:
  assumes "sys_inv s"
  shows "sys_inv (snd (sys_read_file frame s))" "sys_inv (snd (sys_read_range frame s))"
  using assms by (simp_all add: sys_read_file_def sys_read_range_def sys_keeps)

lemma channel_calls_keep [sys_keeps]:
  assumes "sys_inv s"
  shows "sys_inv (snd (sys_ipc_create frame s))" "sys_inv (snd (sys_ipc_connect frame s))" "sys_inv (snd (sys_ipc_send frame s))"
    "sys_inv (snd (sys_ipc_receive frame s))"
  using assms
  by (simp_all add: sys_ipc_create_def sys_ipc_connect_def sys_ipc_send_def sys_ipc_receive_def ipc_send_block_def ipc_wait_def
      sys_keeps Let_def case_prod_beta split: option.splits ipc_send_result.splits)

lemma select_wait_keeps [sys_keeps]: "sys_inv s \<Longrightarrow> sys_inv (snd (select_wait frame s))"
  by (simp add: select_wait_def ipc_wait_select_def sys_keeps Let_def case_prod_beta)

lemma input_calls_keep [sys_keeps]:
  assumes "sys_inv s"
  shows "sys_inv (snd (sys_input_poll frame s))" "sys_inv (snd (sys_select frame s))"
  unfolding sys_input_poll_def sys_select_def Let_def
  by (intro with_service_keeps; simp add: assms sys_keeps Let_def case_prod_beta split: option.splits)+

lemma serial_text_keeps [sys_keeps]: "sys_inv s \<Longrightarrow> sys_inv (serial_text m s)"
  by (simp add: serial_text_def)

lemma display_info_keeps [sys_keeps]: "sys_inv s \<Longrightarrow> sys_inv (snd (sys_display_info frame s))"
  by (simp add: sys_display_info_def sys_keeps Let_def case_prod_beta split: option.splits)

lemma submit_keeps: "sys_inv s \<Longrightarrow> sys_display_submit e frame s = Some (frame', s') \<Longrightarrow> sys_inv s'"
  using sys_resolve_keeps(2) [of s "f_rdi (arg_frame frame s)" CAPABILITY_RIGHT_WRITE]
  by (auto simp: sys_display_submit_def submit_image_def sys_return_def Let_def split: prod.splits option.splits if_splits)

lemma display_calls_keep [sys_keeps]:
  assumes "sys_inv s"
  shows "sys_inv (snd (sys_display_size frame s))" "sys_inv (snd (sys_compositor_report frame s))"
    "sys_inv (snd (sys_cursor_move e frame s))" "sys_inv (snd (sys_display_effect e frame s))"
  unfolding sys_display_size_def sys_compositor_report_def sys_cursor_move_def sys_display_effect_def Let_def
  by (intro with_service_keeps; simp add: assms sys_keeps Let_def case_prod_beta split: option.splits)+

lemma surface_create_keeps [sys_keeps]: "sys_inv s \<Longrightarrow> sys_inv (snd (sys_surface_create frame s))"
proof -
  have k: "sys_inv (s1\<lparr>ipc_caps := c, mem_surf := if hn = UINT64_MAX then snd (surface_discard f2 oid) else f2\<rparr>)"
    if s1: "sys_inv s1" and cr: "surface_create (mem_surf s1) p w h = (Some oid, f1)"
      and op: "capability_open_surface (ipc_caps s1) f1 p oid r = (hn, c, f2)" for s1 p w h oid f1 hn c f2 r
  proof -
    have "refs_exact s1" using s1 by (simp add: sys_inv_def kernel_inv_def)
    from create_then_open_refs [OF conjI [OF refs_exactD(1,2) [OF this]] cr op refl] show ?thesis
      by (intro sys_lower [OF s1] kernel_inv_caps) simp_all
  qed
  have n: "f1 = mem_surf s1" if "surface_create (mem_surf s1) p w h = (None, f1)" for s1 :: sys_state and p w h f1
    using that by (auto simp: surface_create_def Let_def split: if_splits option.splits)
  show "sys_inv s \<Longrightarrow> ?thesis"
    unfolding sys_surface_create_def Let_def
    by (intro with_service_keeps) (auto split: prod.splits option.splits dest!: n dest: k)
qed

lemma surface_share_keeps [sys_keeps]: "sys_inv s \<Longrightarrow> sys_inv (snd (sys_surface_share frame s))"
proof -
  assume s: "sys_inv s"
  have o: "sys_inv s1" if "ipc_channel_owner p h s = (t, s1)" for p h t s1
    using sys_lower_ops(6) [OF s, of p h CAPABILITY_RIGHT_QUERY] that by (auto simp: ipc_channel_owner_def split: prod.splits option.splits)
  have g: "sys_inv (s1\<lparr>ipc_caps := c, mem_surf := f\<rparr>)"
    if "sys_inv s1" "capability_grant (ipc_caps s1) (mem_surf s1) p h t r = (hn, c, f)" for s1 p h t r hn c f
    by (rule sys_lower [OF that(1) kernel_inv_handles(5) [OF _ that(2)]]) simp_all
  have g': "sys_inv (s1\<lparr>ipc_caps := c, mem_surf := surface_note_share f\<rparr>)"
    if "sys_inv s1" "capability_grant (ipc_caps s1) (mem_surf s1) p h t r = (hn, c, f)" for s1 p h t r hn c f
    using sys_surfaces_keep(5) [OF g [OF that]] by simp
  show ?thesis
    unfolding sys_surface_share_def Let_def by (auto split: prod.splits option.splits dest: o g g')
qed

lemma surface_calls_keep [sys_keeps]:
  assumes "sys_inv s"
  shows "sys_inv (snd (sys_surface_map frame s))" "sys_inv (snd (sys_surface_damage frame s))"
    "sys_inv (snd (sys_surface_take_damage frame s))" "sys_inv (snd (sys_surface_unmap frame s))"
  unfolding sys_surface_map_def sys_surface_damage_def sys_surface_take_damage_def sys_surface_unmap_def Let_def
  by (intro with_object_keeps; simp add: assms userspace_unmap_surface_def sys_keeps Let_def case_prod_beta split: option.splits)+

lemma surface_data_calls_keep [sys_keeps]:
  assumes "sys_inv s"
  shows "sys_inv (snd (sys_surface_write frame s))" "sys_inv (snd (sys_surface_read frame s))"
proof -
  show "sys_inv (snd (sys_surface_write frame s))"
    using assms unfolding sys_surface_write_def Let_def
    by (auto intro!: with_object_keeps simp: sys_keeps case_prod_beta)
  show "sys_inv (snd (sys_surface_read frame s))"
    using assms unfolding sys_surface_read_def Let_def
    by (auto intro!: with_object_keeps simp: sys_keeps case_prod_beta split: option.splits)
qed

lemma device_calls_keep [sys_keeps]:
  assumes "sys_inv s"
  shows "sys_inv (snd (sys_audio_submit e frame s))" "sys_inv (snd (sys_http_response e frame s))" "sys_inv (snd (sys_http_get e frame s))"
  using assms unfolding sys_audio_submit_def sys_http_response_def sys_http_get_def Let_def
  by (auto intro!: with_service_keeps simp: sys_keeps return_response_def case_prod_beta)

lemma memory_calls_keep [sys_keeps]:
  assumes "sys_inv s"
  shows "sys_inv (snd (sys_anonymous_map frame s))" "sys_inv (snd (sys_anonymous_unmap frame s))"
    "sys_inv (snd (sys_anonymous_reserve frame s))" "sys_inv (snd (sys_anonymous_commit frame s))"
    "sys_inv (snd (sys_boot_test_mode frame s))" "sys_inv (snd (sys_battery_present e frame s))" "sys_inv (snd (sys_demonwm_mode frame s))"
  using assms by (simp_all add: sys_anonymous_map_def sys_anonymous_unmap_def sys_anonymous_reserve_def sys_anonymous_commit_def
      sys_boot_test_mode_def sys_battery_present_def sys_demonwm_mode_def sys_keeps Let_def case_prod_beta)

section \<open>The dispatcher\<close>

lemma syscall_plain_keeps: "sys_inv s \<Longrightarrow> sch_users_running s \<Longrightarrow> sys_inv (snd (syscall_plain e number frame s))"
  by (simp add: syscall_plain_def sys_keeps, simp add: process_calls_keep(4))

section \<open>Reachable states of the system\<close>

text \<open>
  The initialisation calls of \<open>kernel_main\<close>, without the self tests and the seeding of files between them: the
  tables, and later the arena of the surfaces, where \<open>None\<close> is the halt after an arena that does not fit.
  The static variables start as \<open>static_state\<close> says.
\<close>

definition boot_tables :: "u64 \<Rightarrow> sys_state \<Rightarrow> sys_state" where
  "boot_tables pml4 s =
    (let s1 = scheduler_init pml4 s;
         s2 = s1\<lparr>ipc_caps := capabilities_init\<rparr>;
         s3 = ipc_init s2
     in s3\<lparr>ks_ramfs := ramfs_init (ks_ramfs s3)\<rparr>)"

definition boot_surfaces :: "u64 \<Rightarrow> u64 \<Rightarrow> sys_state \<Rightarrow> sys_state option" where
  "boot_surfaces arena arena_bytes s =
    (let (ok, surf) = surfaces_init (mem_surf s) arena arena_bytes
     in if arena = 0 \<or> arena + arena_bytes > 0x40000000 \<or> \<not> ok then None else Some (s\<lparr>mem_surf := surf\<rparr>))"

definition sys_boot :: "u64 \<Rightarrow> u64 \<Rightarrow> u64 \<Rightarrow> sys_state \<Rightarrow> sys_state option" where
  "sys_boot pml4 arena arena_bytes s = boot_surfaces arena arena_bytes (boot_tables pml4 s)"

definition static_state :: "sys_state \<Rightarrow> bool" where
  "static_state s \<longleftrightarrow> queue_inv (in_queue s) \<and>
     mem_mapped_surface s = replicate SCHEDULER_PROCESS_LIMIT (replicate USER_SURFACE_MAP_SLOTS 0)"

text \<open>
  A process runs between its system calls: it changes its own memory and the frames in which its registers are
  saved. The timer and the input devices interrupt it.
\<close>

inductive sys_reachable :: "sys_state \<Rightarrow> bool" where
  boot: "static_state s \<Longrightarrow> unat arena_bytes < 17179869184 \<Longrightarrow> sys_boot pml4 arena arena_bytes s = Some s' \<Longrightarrow> sys_reachable s'"
| load: "sys_reachable s \<Longrightarrow> sys_reachable (snd (load_process pid parent name memory img services s))"
| start: "sys_reachable s \<Longrightarrow> sys_reachable (snd (scheduler_start_users s))"
| call: "sys_reachable s \<Longrightarrow> sch_users_running s \<Longrightarrow> syscall_dispatch e frame s = Some (frame', s') \<Longrightarrow> sys_reachable s'"
| tick: "sys_reachable s \<Longrightarrow> sys_reachable (snd (scheduler_on_timer_tick frame s))"
| event: "sys_reachable s \<Longrightarrow> sys_reachable (snd (input_publish ev s))"
| run: "sys_reachable s \<Longrightarrow> sys_reachable (s\<lparr>mem_user := user, sch_frames := frames, sch_cpu_fpu := fpu\<rparr>)"

lemma surfaces_init_refs:
  assumes "surfaces_init f arena bytes = (True, f')" "unat bytes < 17179869184"
  shows "caps_ok capabilities_init f' (map_refs (replicate 8 (replicate 4 0))) \<and> surfaces_referenced f'"
proof -
  have "surf_objects f' = replicate SURFACE_LIMIT surface_object_zero" using assms(1) by (auto simp: surfaces_init_def split: if_splits)
  then have r: "surface_resolve f' x = None" for x
    by (auto simp: surface_resolve_None surface_object_zero_def)
  have "map_refs (replicate 8 (replicate 4 0)) x = 0" for x :: u32 by (simp add: map_refs_def eval_nat_numeral)
  moreover have "cap_refs capabilities_init x = 0" for x
    by (simp add: cap_refs_def capabilities_init_def slot_table_new_def is_surface_ref_def count_if_def sum_list_replicate)
  ultimately show ?thesis
    using r surfaces_init_inv [OF assms] capabilities_init_inv
    by (simp add: caps_ok_def refs_agree_def surfaces_referenced_def surface_refs_def)
qed

lemma sys_boot_inv:
  assumes "static_state s" "unat arena_bytes < 17179869184" "sys_boot pml4 arena arena_bytes s = Some s'"
  shows "sys_inv s'"
proof -
  let ?s4 = "(ipc_init ((scheduler_init pml4 s)\<lparr>ipc_caps := capabilities_init\<rparr>))\<lparr>ks_ramfs := ramfs_init (ks_ramfs s)\<rparr>"
  have k: "ks_ramfs (ipc_init ((scheduler_init pml4 s)\<lparr>ipc_caps := capabilities_init\<rparr>)) = ks_ramfs s"
    "mem_surf ?s4 = mem_surf s" "mem_mapped_surface ?s4 = mem_mapped_surface s" "ipc_caps ?s4 = capabilities_init" "in_queue ?s4 = in_queue s"
    by (simp_all add: ipc_init_def scheduler_init_def)
  from assms(3) obtain f where f: "surfaces_init (mem_surf s) arena arena_bytes = (True, f)" and s': "s' = ?s4\<lparr>mem_surf := f\<rparr>"
    by (auto simp: sys_boot_def boot_surfaces_def boot_tables_def Let_def k(1) k(2) [simplified] split: prod.splits if_splits)
  have "sched_inv s' = sched_inv (scheduler_init pml4 s)"
    by (rule sched_inv_truncate) (simp add: s' ipc_init_def sched_state.defs)
  then have "sched_inv s'" by (simp add: scheduler_init_inv)
  moreover have "ipc_inv s' = ipc_inv (ipc_init s)" by (rule ipc_inv_cong) (simp add: s' ipc_init_def)
  then have "ipc_inv s'" by (simp add: ipc_init_inv)
  moreover have "refs_exact s'"
    using surfaces_init_refs [OF f assms(2)] assms(1) by (simp add: refs_exact_def s' k [simplified] static_state_def maps_shape_def)
  ultimately show ?thesis
    using assms(1) by (simp add: sys_inv_def kernel_inv_def s' k [simplified] static_state_def ramfs_init_inv)
qed

lemma sys_run_inv: "sys_inv s \<Longrightarrow> sys_inv (s\<lparr>mem_user := user, sch_frames := frames, sch_cpu_fpu := fpu\<rparr>)"
  by (simp add: sys_inv_def kernel_inv_def refs_exact_def ipc_inv_def sched_inv_def sched_shape_def)

lemma dispatch_keeps:
  "sys_inv s \<Longrightarrow> sch_users_running s \<Longrightarrow> syscall_dispatch e frame s = Some (frame', s') \<Longrightarrow> sys_inv s'"
  using syscall_plain_keeps [of s e _ frame] submit_keeps [of s e frame frame' s']
  by (auto simp: syscall_dispatch_def Let_def split: if_splits) (metis snd_conv)

text \<open>
  Claim C1: the kernel as a whole keeps its invariant. In every state the system reaches from its boot through system
  calls of arbitrary processes with arbitrary arguments, timer and input interrupts, loading of processes and the
  computation of the processes themselves: exactly the current task is running, every channel's ring is well
  formed, the event queue's indices are in range, the names of the files are unique and valid and their extents
  disjoint, and every surface's reference count is exactly the number of open handles on it plus the number of
  slots in which a process has it mapped, with no live surface unreferenced.
\<close>

theorem system_invariant: "sys_reachable s \<Longrightarrow> sys_inv s"
proof (induction rule: sys_reachable.induct)
  case (boot s arena_bytes pml4 arena s')
  then show ?case by (rule sys_boot_inv)
next
  case (call s e frame frame' s')
  then show ?case using dispatch_keeps by blast
next
  case (run s user frames fpu)
  then show ?case by (simp only: sys_run_inv)
qed (auto intro: sys_lower kernel_inv_load kernel_inv_start kernel_inv_tick kernel_inv_publish)

section \<open>Every call returns\<close>

lemma submit_chunks_total:
  assumes w: "ds_width q \<noteq> 0" "unat (ds_width q) \<le> 640"
  shows "\<exists>r. submit_chunks A now q user row s = Some r"
proof (induction "unat (ds_height q) - unat row" arbitrary: row s rule: less_induct)
  case less
  show ?case
  proof (cases "row < ds_height q")
    case False
    then have "submit_chunks A now q user row s = Some (True, s)" by (subst submit_chunks.simps) simp
    then show ?thesis ..
  next
    case True
    define rows where "rows = (if ds_height q - row > 640 div ds_width q then 640 div ds_width q else ds_height q - row)"
    note cr = chunk_rows [OF w True, folded rows_def]
    obtain b t where t: "submit_chunk A now q user row rows s = (b, t)" by (metis surj_pair)
    have "unat (row + rows) = unat row + unat rows"
      using cr(4) unsigned_less [of "ds_height q", where ?'a = nat] by (intro unat_add_small) simp
    then have "\<exists>r. submit_chunks A now q user (row + rows) t = Some r"
      using cr(1,4) by (intro less.hyps) linarith
    then show ?thesis
      using True t by (subst submit_chunks.simps) (auto simp: rows_def Let_def)
  qed
qed


text \<open>The static variables before boot, with a display that was found and enabled.\<close>

definition sys_static :: sys_state where
  "sys_static = kernel_state.extend
     (input_state.extend (input_state_example\<lparr>mem_mapped_surface := replicate 8 (replicate 4 0)\<rparr>)
        (kernel_state.fields ramfs_example False 0 0 0 False []))
     (sys_state.fields display_boot [])"

lemma sys_static_facts: "static_state sys_static"
  by (simp add: static_state_def sys_static_def kernel_state.defs input_state.defs sys_state.defs input_state_example_simps input_example_inv)

theorem system_invariant_witness:
  "\<exists>s. sys_boot 0x1000 0x400000 0x1000000 sys_static = Some s \<and> sys_inv (snd (scheduler_on_timer_tick 0 s))"
proof -
  obtain s where s: "sys_boot 0x1000 0x400000 0x1000000 sys_static = Some s"
    by (auto simp: sys_boot_def boot_surfaces_def boot_tables_def surfaces_init_def Let_def)
  have "sys_reachable (snd (scheduler_on_timer_tick 0 s))"
    by (intro sys_reachable.tick sys_reachable.boot [OF sys_static_facts _ s]) simp
  with s system_invariant show ?thesis by blast
qed

end
