(* ===== verification/Syscall_Authority.thy ===== *)
theory Syscall_Authority
  imports Syscall_Inv
begin

text \<open>
  Complete mediation: what a system call may change outside the caller depends on a capability the caller presents.
  The display changes only through a handle with the right to write to the display, the files only through a handle on a file with the
  right to write or a handle on the storage service. \<open>world\<close> is the display and the files; the lemmas of \<open>sys_world\<close>
  say which operations leave it alone.
\<close>

section \<open>Rights and the world\<close>

definition may :: "u64 \<Rightarrow> u32 \<Rightarrow> u32 \<Rightarrow> sys_state \<Rightarrow> bool" where
  "may handle service right s \<longleftrightarrow>
     map_option fst (fst (capability_resolve_object (ipc_caps s) (sch_current_pid s) handle right)) = Some service"

definition files :: "sys_state \<Rightarrow> ramfs_payload bounded_table \<times> (nat \<Rightarrow> u8)" where
  "files s = (rf_table (ks_ramfs s), rf_storage (ks_ramfs s))"

definition world :: "sys_state \<Rightarrow> display_state \<times> ramfs_payload bounded_table \<times> (nat \<Rightarrow> u8)" where
  "world s = (sy_display s, files s)"

named_theorems sys_world "operations that leave the display and the files alone"

lemma world_upper: "input_state.more s' = input_state.more s \<Longrightarrow> world s' = world s"
  using upper_fields [of s' s] by (simp add: world_def files_def)

lemma world_updates [simp]:
  "world (s\<lparr>ipc_caps := c\<rparr>) = world s" "world (s\<lparr>mem_surf := f\<rparr>) = world s" "world (s\<lparr>mem_user := m\<rparr>) = world s"
  "world (s\<lparr>ks_serial := d\<rparr>) = world s" "world (s\<lparr>sy_terminal := d\<rparr>) = world s" "world (s\<lparr>ks_display_owner := p\<rparr>) = world s"
  "world (s\<lparr>ks_last_exit_status := v\<rparr>) = world s" "world (s\<lparr>in_queue := q\<rparr>) = world s" "world (s\<lparr>in_waiter := w\<rparr>) = world s"
  by (simp_all add: world_def files_def)

lemma world_frame [simp]: "world (set_frame a g s) = world s"
  by (rule world_upper) simp

lemma world_return [simp]: "world (snd (sys_return frame v s)) = world s"
  by (simp add: sys_return_def)

lemma world_lower [sys_world]:
  "world (snd (ipc_receive pid h n s)) = world s" "world (snd (ipc_send_impl pid h d b s)) = world s"
  "world (snd (ipc_wait_as mx pid h a n s)) = world s" "world (snd (ipc_create pid name s)) = world s"
  "world (snd (ipc_connect pid name s)) = world s" "world (snd (ipc_resolve pid h r s)) = world s"
  "world (snd (ipc_cancel_wait pid s)) = world s" "world (snd (input_cancel_wait pid s)) = world s"
  "world (ipc_process_cleanup pid s) = world s" "world (snd (scheduler_on_yield frame s)) = world s"
  "world (snd (scheduler_block_current frame s)) = world s"
  "world (snd (scheduler_block_current_timeout frame delay result s)) = world s"
  "world (snd (scheduler_on_exit frame code s)) = world s" "world (snd (scheduler_terminate pid code s)) = world s"
  "world (snd (scheduler_reap_exited pid s)) = world s" "world (snd (scheduler_on_wait frame child s)) = world s"
  "world (snd (map_surface_readonly pid oid s)) = world s" "world (snd (unmap_surface_id pid oid s)) = world s"
  "world (snd (userspace_copy_to pid a d s)) = world s" "world (anonymous_release pid s) = world s"
  "world (snd (anonymous_map pid z s)) = world s" "world (snd (anonymous_reserve pid z s)) = world s"
  "world (snd (anonymous_commit pid z w s)) = world s" "world (snd (spawn_in_slots slots parent nm img services s)) = world s"
  by (rule world_upper, simp)+

lemma world_input [sys_world]: "world (snd (input_poll s)) = world s" "world (snd (input_wait pid a s)) = world s"
  by (simp_all add: input_poll_def input_wait_def split: option.splits)

lemma world_resolve [sys_world]: "world (snd (sys_resolve_object h r s)) = world s" "world (snd (sys_resolve h r s)) = world s"
  by (simp_all add: sys_resolve_object_state sys_resolve_state)

lemma world_text [sys_world]: "world (snd (write_user_text a n s)) = world s" "world (serial_text m s) = world s"
  by (simp_all add: write_user_text_def serial_text_def Let_def)

lemma world_read [sys_world]: "world (s\<lparr>ks_ramfs := snd (ramfs_read_range ph i a k (ks_ramfs s))\<rparr>) = world s"
  by (simp add: world_def files_def ramfs_read_range_def Let_def split: option.splits)

lemma world_store [sys_world]: "world (store_user a d s) = world s"
  by (simp add: store_user_def)

lemma world_copy_loop: "world (snd (copy_ramfs_loop oid off dst cap n s)) = world s"
proof (induction "cap - n" arbitrary: n s rule: less_induct)
  case less
  let ?c = "min (cap - n) 4096"
  obtain x fs where rd: "ramfs_read_range (mem_phys s) oid (off + n) ?c (ks_ramfs s) = (x, fs)" by (metis surj_pair)
  have k: "world (s\<lparr>ks_ramfs := fs\<rparr>) = world s"
    using world_read [where s = s and ph = "mem_phys s" and i = oid and a = "off + n" and k = ?c] rd by simp
  show ?case
  proof (cases "cap \<le> n \<or> n > 18446744073709551615 - off \<or> x = None")
    case True
    then show ?thesis using k rd by (subst copy_ramfs_loop.simps) (auto simp: Let_def)
  next
    case False
    then obtain d where d: "x = Some d" by auto
    let ?s = "store_user (dst + of_nat n) d (s\<lparr>ks_ramfs := fs\<rparr>)"
    have "world ?s = world s" using k by (simp add: world_store)
    moreover have "\<not> length d < ?c \<Longrightarrow> cap - (n + length d) < cap - n" using False by auto
    ultimately show ?thesis
      using False less.hyps [of "n + length d" ?s] rd d by (subst copy_ramfs_loop.simps) (auto simp: Let_def)
  qed
qed

lemma world_helpers [sys_world]:
  "world (snd (copy_ramfs_to_user oid off dst cap s)) = world s" "world (snd (copy_out a d s)) = world s"
  "world (release_rights pid s) = world s"
  by (simp_all add: copy_ramfs_to_user_def world_copy_loop copy_out_def release_rights_def Let_def case_prod_beta sys_world)

text \<open>Opening an existing file, as a spawn does, leaves the table alone.\<close>

lemma ramfs_open_existing: "snd (ramfs_open name False fs) = fs"
  by (auto simp: ramfs_open_def bt_open_def split: option.splits)

lemma world_spawn [sys_world]: "world (snd (userspace_spawn_path parent path name services s)) = world s"
  using ramfs_open_existing [of path "ks_ramfs s"]
  by (auto simp: userspace_spawn_path_def Let_def sys_world simp del: spawn_in_slots.simps split: prod.splits option.splits)

section \<open>Guarded calls\<close>

lemma with_service_may:
  "world (snd (with_service frame h r sv k s)) \<noteq> world s \<Longrightarrow>
   may h sv r s \<and> snd (with_service frame h r sv k s) = snd (k (snd (sys_resolve h r s)))"
  by (auto simp: with_service_def may_def Let_def case_prod_beta sys_world sys_resolve_state(2) split: if_splits)

lemma with_service_world:
  assumes "\<And>s1. world (snd (k s1)) = world s1"
  shows "world (snd (with_service frame h r sv k s)) = world s"
  using assms by (simp add: with_service_def Let_def case_prod_beta sys_world)

lemma with_object_world:
  assumes "\<And>oid s1. world (snd (k oid s1)) = world s1"
  shows "world (snd (with_object frame h r sv k s)) = world s"
  using assms by (simp add: with_object_def Let_def case_prod_beta sys_world split: option.splits)

section \<open>Calls that leave the world alone\<close>

lemma console_calls_world [sys_world]:
  "world (snd (sys_write_text frame s)) = world s" "world (snd (sys_yield frame s)) = world s" "world (snd (sys_exit frame s)) = world s"
  "world (snd (sys_ticks e frame s)) = world s" "world (snd (sys_getpid frame s)) = world s" "world (snd (sys_open_service frame s)) = world s"
  by (simp_all add: sys_write_text_def sys_yield_def sys_exit_def sys_ticks_def sys_getpid_def sys_open_service_def
      Let_def case_prod_beta sys_world)

lemma process_calls_world [sys_world]:
  "world (snd (sys_spawn frame s)) = world s" "world (snd (sys_wait frame s)) = world s" "world (snd (sys_terminate frame s)) = world s"
  "world (snd (sys_spawn_foreground frame s)) = world s" "world (snd (sys_reap frame s)) = world s"
  "world (snd (sys_time_of_day e frame s)) = world s"
  by (simp_all add: sys_spawn_def sys_wait_def sys_terminate_def sys_spawn_foreground_def sys_reap_def sys_time_of_day_def
      Let_def case_prod_beta sys_world split: option.splits)

lemma query_world [sys_world]: "world (snd (query_file h x s)) = world s" "world (snd (query_surface h x s)) = world s"
  by (simp_all add: query_file_def query_surface_def Let_def case_prod_beta sys_world split: option.splits)

lemma handle_calls_world [sys_world]: "world (snd (sys_query e frame s)) = world s" "world (snd (sys_close frame s)) = world s"
  by (simp_all add: sys_query_def sys_close_def Let_def case_prod_beta sys_world split: option.splits)

lemma read_calls_world [sys_world]:
  "world (snd (sys_read_from off frame s)) = world s" "world (snd (sys_list_directory frame s)) = world s"
  unfolding sys_read_from_def sys_list_directory_def Let_def
  by (intro with_service_world with_object_world; simp add: case_prod_beta sys_world split: option.splits)+

lemma read_file_world [sys_world]: "world (snd (sys_read_file frame s)) = world s" "world (snd (sys_read_range frame s)) = world s"
  by (simp_all add: sys_read_file_def sys_read_range_def sys_world)

lemma channel_calls_world [sys_world]:
  "world (snd (sys_ipc_create frame s)) = world s" "world (snd (sys_ipc_connect frame s)) = world s"
  "world (snd (sys_ipc_send frame s)) = world s" "world (snd (sys_ipc_receive frame s)) = world s" "world (snd (select_wait frame s)) = world s"
  by (simp_all add: sys_ipc_create_def sys_ipc_connect_def sys_ipc_send_def sys_ipc_receive_def select_wait_def ipc_send_block_def
      ipc_wait_def ipc_wait_select_def Let_def case_prod_beta sys_world split: option.splits ipc_send_result.splits)

lemma input_calls_world [sys_world]: "world (snd (sys_input_poll frame s)) = world s" "world (snd (sys_select frame s)) = world s"
  unfolding sys_input_poll_def sys_select_def Let_def
  by (intro with_service_world; simp add: case_prod_beta sys_world split: option.splits)+

lemma display_info_world [sys_world]: "world (snd (sys_display_info frame s)) = world s" "world (snd (sys_display_size frame s)) = world s"
proof -
  show "world (snd (sys_display_info frame s)) = world s"
    by (simp add: sys_display_info_def Let_def case_prod_beta sys_world split: option.splits)
  show "world (snd (sys_display_size frame s)) = world s"
    unfolding sys_display_size_def by (intro with_service_world) (simp split: option.splits)
qed

lemma surface_calls_world [sys_world]:
  "world (snd (sys_surface_map frame s)) = world s" "world (snd (sys_surface_damage frame s)) = world s"
  "world (snd (sys_surface_take_damage frame s)) = world s" "world (snd (sys_surface_unmap frame s)) = world s"
  unfolding sys_surface_map_def sys_surface_damage_def sys_surface_take_damage_def sys_surface_unmap_def Let_def
  by (intro with_object_world; simp add: userspace_unmap_surface_def case_prod_beta sys_world split: option.splits)+

lemma surface_data_calls_world [sys_world]:
  "world (snd (sys_surface_create frame s)) = world s" "world (snd (sys_surface_write frame s)) = world s"
  "world (snd (sys_surface_read frame s)) = world s" "world (snd (sys_surface_share frame s)) = world s"
proof -
  show "world (snd (sys_surface_create frame s)) = world s"
    unfolding sys_surface_create_def Let_def by (intro with_service_world) (simp add: case_prod_beta split: option.splits)
  show "world (snd (sys_surface_write frame s)) = world s" "world (snd (sys_surface_read frame s)) = world s"
    unfolding sys_surface_write_def sys_surface_read_def Let_def
    by (auto intro!: with_object_world simp: case_prod_beta sys_world split: option.splits)
  have "world (snd (ipc_channel_owner p h s)) = world s" for p h
    using world_lower(6) [of p h CAPABILITY_RIGHT_QUERY s] by (auto simp: ipc_channel_owner_def split: prod.splits option.splits)
  then show "world (snd (sys_surface_share frame s)) = world s"
    by (simp add: sys_surface_share_def Let_def case_prod_beta split: option.splits)
qed

lemma device_calls_world [sys_world]:
  "world (snd (sys_audio_submit e frame s)) = world s" "world (snd (sys_http_response e frame s)) = world s"
  "world (snd (sys_http_get e frame s)) = world s"
  unfolding sys_audio_submit_def sys_http_response_def sys_http_get_def Let_def
  by (auto intro!: with_service_world simp: return_response_def case_prod_beta sys_world)

lemma memory_calls_world [sys_world]:
  "world (snd (sys_anonymous_map frame s)) = world s" "world (snd (sys_anonymous_unmap frame s)) = world s"
  "world (snd (sys_anonymous_reserve frame s)) = world s" "world (snd (sys_anonymous_commit frame s)) = world s"
  "world (snd (sys_boot_test_mode frame s)) = world s" "world (snd (sys_battery_present e frame s)) = world s"
  "world (snd (sys_demonwm_mode frame s)) = world s"
  by (simp_all add: sys_anonymous_map_def sys_anonymous_unmap_def sys_anonymous_reserve_def sys_anonymous_commit_def
      sys_boot_test_mode_def sys_battery_present_def sys_demonwm_mode_def Let_def case_prod_beta sys_world)

section \<open>Calls that change the world\<close>

lemma world_files: "world s' = world s \<longleftrightarrow> sy_display s' = sy_display s \<and> files s' = files s"
  by (auto simp: world_def)

text \<open>The calls on the display: the files stay.\<close>

lemma display_calls_may:
  "may (f_rdi (arg_frame frame s)) CAPABILITY_SERVICE_DISPLAY CAPABILITY_RIGHT_WRITE s \<and> files (snd (sys_compositor_report frame s)) = files s
     \<or> world (snd (sys_compositor_report frame s)) = world s"
  "may (f_rdi (arg_frame frame s)) CAPABILITY_SERVICE_DISPLAY CAPABILITY_RIGHT_WRITE s \<and> files (snd (sys_cursor_move e frame s)) = files s
     \<or> world (snd (sys_cursor_move e frame s)) = world s"
  "may (f_rdi (arg_frame frame s)) CAPABILITY_SERVICE_DISPLAY CAPABILITY_RIGHT_WRITE s \<and> files (snd (sys_display_effect e frame s)) = files s
     \<or> world (snd (sys_display_effect e frame s)) = world s"
proof -
  have f: "files (set_frame a g t) = files t" "files (snd (sys_return frame v t)) = files t" "files (snd (sys_resolve h r t)) = files t"
    "files (t\<lparr>sy_display := d\<rparr>) = files t" for a g v h r d and t :: sys_state
    using world_frame [of a g t] world_return [of frame v t] world_resolve(2) [of h r t] by (auto simp: world_def files_def)
  show "may (f_rdi (arg_frame frame s)) CAPABILITY_SERVICE_DISPLAY CAPABILITY_RIGHT_WRITE s \<and> files (snd (sys_compositor_report frame s)) = files s
     \<or> world (snd (sys_compositor_report frame s)) = world s"
    unfolding sys_compositor_report_def Let_def by (rule disjCI, drule with_service_may) (simp add: f)
  show "may (f_rdi (arg_frame frame s)) CAPABILITY_SERVICE_DISPLAY CAPABILITY_RIGHT_WRITE s \<and> files (snd (sys_cursor_move e frame s)) = files s
     \<or> world (snd (sys_cursor_move e frame s)) = world s"
    unfolding sys_cursor_move_def Let_def by (rule disjCI, drule with_service_may) (simp add: f)
  show "may (f_rdi (arg_frame frame s)) CAPABILITY_SERVICE_DISPLAY CAPABILITY_RIGHT_WRITE s \<and> files (snd (sys_display_effect e frame s)) = files s
     \<or> world (snd (sys_display_effect e frame s)) = world s"
    unfolding sys_display_effect_def Let_def by (rule disjCI, drule with_service_may) (simp add: f case_prod_beta)
qed

lemma submit_may:
  assumes "sys_display_submit e frame s = Some (frame', s')"
  shows "may (f_rdi (arg_frame frame s)) CAPABILITY_SERVICE_DISPLAY CAPABILITY_RIGHT_WRITE s \<and> files s' = files s \<or> world s' = world s"
proof -
  let ?s1 = "snd (sys_resolve (f_rdi (arg_frame frame s)) CAPABILITY_RIGHT_WRITE s)"
  have w: "world ?s1 = world s" by (simp add: sys_world)
  show ?thesis
  proof (cases "may (f_rdi (arg_frame frame s)) CAPABILITY_SERVICE_DISPLAY CAPABILITY_RIGHT_WRITE s")
    case False
    then have "s' = snd (sys_return frame UINT64_MAX ?s1)"
      using assms by (auto simp: sys_display_submit_def may_def sys_resolve_state(2) case_prod_beta Let_def split: if_splits)
    with w show ?thesis by simp
  next
    case True
    have u: "files (t\<lparr>sy_display := d\<rparr>) = files t" "files (t\<lparr>ks_display_owner := p\<rparr>) = files t" for t d p by (simp_all add: files_def)
    have r: "files (snd (sys_return frame v t)) = files t" for v t using world_return [of frame v t] by (simp add: world_def)
    have "s' = snd (sys_return frame UINT64_MAX ?s1) \<or>
        (\<exists>v d. s' = snd (sys_return frame v (?s1\<lparr>sy_display := d\<rparr>)) \<or>
           s' = snd (sys_return frame v (?s1\<lparr>sy_display := d, ks_display_owner := sch_current_pid ?s1\<rparr>)))"
      using assms by (auto simp: sys_display_submit_def submit_image_def case_prod_beta Let_def sys_return_def split: if_splits option.splits)
    then have "files s' = files ?s1" by (auto simp: r u)
    with w True show ?thesis by (simp add: world_def)
  qed
qed

text \<open>The calls on files: the display stays.\<close>

lemma file_calls_may:
  "may (f_rdi (arg_frame frame s)) CAPABILITY_SERVICE_STORAGE CAPABILITY_RIGHT_OPEN s \<and> sy_display (snd (sys_open_file frame s)) = sy_display s
     \<or> world (snd (sys_open_file frame s)) = world s"
  "may (f_rdi (arg_frame frame s)) CAPABILITY_SERVICE_STORAGE CAPABILITY_RIGHT_OPEN s \<and> sy_display (snd (sys_delete frame s)) = sy_display s
     \<or> world (snd (sys_delete frame s)) = world s"
  "may (f_rdi (arg_frame frame s)) CAPABILITY_SERVICE_STORAGE CAPABILITY_RIGHT_OPEN s \<and> sy_display (snd (sys_rename frame s)) = sy_display s
     \<or> world (snd (sys_rename frame s)) = world s"
proof -
  have f: "sy_display (snd (sys_return frame v t)) = sy_display t" "sy_display (snd (sys_resolve h r t)) = sy_display t"
    for v h r and t :: sys_state
    using world_return [of frame v t] world_resolve(2) [of h r t] by (auto simp: world_def)
  show "may (f_rdi (arg_frame frame s)) CAPABILITY_SERVICE_STORAGE CAPABILITY_RIGHT_OPEN s \<and> sy_display (snd (sys_open_file frame s)) = sy_display s
     \<or> world (snd (sys_open_file frame s)) = world s"
    unfolding sys_open_file_def Let_def by (rule disjCI, drule with_service_may) (simp add: f case_prod_beta split: option.splits)
  show "may (f_rdi (arg_frame frame s)) CAPABILITY_SERVICE_STORAGE CAPABILITY_RIGHT_OPEN s \<and> sy_display (snd (sys_delete frame s)) = sy_display s
     \<or> world (snd (sys_delete frame s)) = world s"
    unfolding sys_delete_def Let_def by (rule disjCI, drule with_service_may) (simp add: f case_prod_beta)
  show "may (f_rdi (arg_frame frame s)) CAPABILITY_SERVICE_STORAGE CAPABILITY_RIGHT_OPEN s \<and> sy_display (snd (sys_rename frame s)) = sy_display s
     \<or> world (snd (sys_rename frame s)) = world s"
    unfolding sys_rename_def Let_def by (rule disjCI, drule with_service_may) (simp add: f case_prod_beta)
qed

lemma write_handle_may:
  "may (f_rdi (arg_frame frame s)) CAPABILITY_SERVICE_FILE CAPABILITY_RIGHT_WRITE s \<and> sy_display (snd (sys_write_handle frame s)) = sy_display s
     \<or> world (snd (sys_write_handle frame s)) = world s"
proof -
  have f: "sy_display (snd (sys_return frame v t)) = sy_display t" "sy_display (snd (sys_resolve_object h r t)) = sy_display t"
    for v h r and t :: sys_state
    using world_return [of frame v t] world_resolve(1) [of h r t] by (auto simp: world_def)
  show ?thesis
    by (auto simp: sys_write_handle_def Let_def case_prod_beta may_def sys_resolve_object_state(2) f sys_world split: option.splits)
qed


text \<open>Process 0 of the boot state, without any handle, reports a window count to the compositor's statistics.\<close>

definition env_example :: sys_env where
  "env_example = \<lparr>env_assets = assets_example, env_ticks = 100, env_cmos = (\<lambda>_ _. 0), env_audio = (\<lambda>_ _. False),
     env_http_response = (\<lambda>_. []), env_http_get = (\<lambda>_ _. []), env_battery = False\<rparr>"

definition report_example :: sys_state where
  "report_example = sys_static\<lparr>ipc_caps := capabilities_init, sch_current_pid := 0, sch_frames := (\<lambda>_. interrupt_frame_zero\<lparr>f_rax := 31, f_rdi := 0x30201, f_rsi := 7\<rparr>)\<rparr>"


section \<open>A caller without handles\<close>

definition no_handles :: "sys_state \<Rightarrow> bool" where
  "no_handles s \<longleftrightarrow> list_all (\<lambda>e. \<not> se_open e) (cs_tables (ipc_caps s) ! unat (sch_current_pid s))"

text \<open>A refused call: \<open>rax\<close> is set to all ones, refusals are counted, and a message may have gone to the serial port.\<close>

definition denied :: "sys_state \<Rightarrow> sys_state \<Rightarrow> bool" where
  "denied s t \<longleftrightarrow> (\<exists>n messages. t = s\<lparr>ipc_caps := (ipc_caps s)\<lparr>cs_denied_count := n\<rparr>, ks_serial := messages\<rparr>)"

definition refused :: "u64 \<Rightarrow> sys_state \<Rightarrow> u64 \<times> sys_state \<Rightarrow> bool" where
  "refused frame s r \<longleftrightarrow> (\<exists>t. denied s t \<and> r = sys_return frame UINT64_MAX t)"

lemma denied_refl [simp]: "denied s s"
  unfolding denied_def by (rule exI [of _ "cs_denied_count (ipc_caps s)"], rule exI [of _ "ks_serial s"]) simp

lemma denied_deny: "denied s t \<Longrightarrow> denied s (t\<lparr>ipc_caps := cap_deny (ipc_caps t)\<rparr>)"
proof -
  assume "denied s t"
  then obtain n m where "t = s\<lparr>ipc_caps := (ipc_caps s)\<lparr>cs_denied_count := n\<rparr>, ks_serial := m\<rparr>"
    unfolding denied_def by blast
  then show ?thesis
    unfolding denied_def cap_deny_def by (intro exI [of _ "n + 1"] exI [of _ m]) simp
qed

lemma denied_serial: "denied s t \<Longrightarrow> denied s (serial_text m t)"
proof -
  assume "denied s t"
  then obtain n l where "t = s\<lparr>ipc_caps := (ipc_caps s)\<lparr>cs_denied_count := n\<rparr>, ks_serial := l\<rparr>"
    unfolding denied_def by blast
  then show ?thesis
    unfolding denied_def serial_text_def by (intro exI [of _ n] exI [of _ "ks_serial (serial_text m t)"]) (simp add: serial_text_def)
qed

lemma denied_no_handles: "denied s t \<Longrightarrow> no_handles s \<Longrightarrow> no_handles t \<and> sch_current_pid t = sch_current_pid s \<and> sch_frames t = sch_frames s"
  by (auto simp: denied_def no_handles_def)

lemma no_handle_resolve:
  "no_handles s \<Longrightarrow> capability_resolve_object (ipc_caps s) (sch_current_pid s) h r = (None, cap_deny (ipc_caps s))"
  by (auto simp: capability_resolve_object_def no_handles_def slot_resolve_def list_all_length split: option.splits)

lemma no_handle_sys_resolve:
  assumes "no_handles s"
  shows "sys_resolve h r s = (None, s\<lparr>ipc_caps := cap_deny (ipc_caps s)\<rparr>)"
    "sys_resolve_object h r s = (None, s\<lparr>ipc_caps := cap_deny (ipc_caps s)\<rparr>)"
    "ipc_resolve (sch_current_pid s) h r s = (None, s\<lparr>ipc_caps := cap_deny (ipc_caps s)\<rparr>)"
  using no_handle_resolve [OF assms, of h r]
  by (simp_all add: sys_resolve_def sys_resolve_object_def capability_resolve_def ipc_resolve_def)

lemma refused_now: "refused frame s (sys_return frame UINT64_MAX s)"
  unfolding refused_def by (rule exI [of _ s]) simp

lemma refused_deny: "refused frame s (sys_return frame UINT64_MAX (s\<lparr>ipc_caps := cap_deny (ipc_caps s)\<rparr>))"
  unfolding refused_def
  by (rule exI [of _ "s\<lparr>ipc_caps := cap_deny (ipc_caps s)\<rparr>"], rule conjI [OF denied_deny [OF denied_refl] refl])

lemma no_handle_guards:
  assumes "no_handles s"
  shows "refused frame s (with_service frame h r sv k s)" "refused frame s (with_object frame h r sv k' s)"
  using refused_deny [of frame s] by (simp_all add: with_service_def with_object_def no_handle_sys_resolve [OF assms])

definition guarded_calls :: "u64 list" where
  "guarded_calls = [6, 7, 8, 9, 10, 16, 17, 18, 19, 20, 21, 22, 23, 24, 25, 26, 27, 28, 29, 30, 31, 32, 33, 35, 36, 39, 42, 43, 44, 45]"

lemma no_handle_direct:
  assumes n: "no_handles s"
  shows "refused frame s (sys_write_handle frame s)" "refused frame s (sys_query e frame s)" "refused frame s (sys_close frame s)"
    "refused frame s (sys_surface_share frame s)" "refused frame s (sys_ipc_send frame s)"
    "sys_display_submit e frame s = Some r \<Longrightarrow> refused frame s r"
  using refused_deny [of frame s] refused_now [of frame s] no_handle_resolve [OF n]
  by (auto simp: sys_write_handle_def sys_query_def sys_close_def capability_close_def capability_resolve_def sys_surface_share_def
      ipc_channel_owner_def sys_ipc_send_def ipc_send_block_def ipc_send_impl_def sys_display_submit_def Let_def no_handle_sys_resolve [OF n])

lemma no_handle_receive:
  assumes n: "no_handles s"
  shows "refused frame s (sys_ipc_receive frame s)"
proof -
  let ?s1 = "s\<lparr>ipc_caps := cap_deny (ipc_caps s)\<rparr>"
  let ?s2 = "?s1\<lparr>ipc_caps := cap_deny (ipc_caps ?s1)\<rparr>"
  have d: "denied s ?s1" by (rule denied_deny) simp
  then have n1: "no_handles ?s1" using denied_no_handles n by blast
  have w: "ipc_wait_as mx (sch_current_pid s) h a k ?s1 = (False, ?s2)" for mx h a k
    using no_handle_sys_resolve(3) [OF n1, of h CAPABILITY_RIGHT_RECEIVE] by (simp add: ipc_wait_as_def)
  have "refused frame s (sys_return frame UINT64_MAX ?s2)"
    unfolding refused_def by (rule exI [of _ ?s2], rule conjI [OF denied_deny [OF d] refl])
  with refused_now [of frame s] refused_deny [of frame s] show ?thesis
    by (simp add: sys_ipc_receive_def ipc_receive_def ipc_wait_def Let_def w no_handle_sys_resolve [OF n])
qed

lemma no_handle_info: "no_handles s \<Longrightarrow> refused frame s (sys_display_info frame s)"
proof -
  assume n: "no_handles s"
  let ?t = "serial_text ''display: capability denied'' (s\<lparr>ipc_caps := cap_deny (ipc_caps s)\<rparr>)"
  have "refused frame s (sys_return frame UINT64_MAX ?t)"
    unfolding refused_def by (rule exI [of _ ?t], rule conjI [OF denied_serial [OF denied_deny [OF denied_refl]] refl])
  then show ?thesis by (simp add: sys_display_info_def Let_def no_handle_sys_resolve [OF n])
qed

text \<open>
  Claim C4: a process that holds no handle gets nothing from any of the thirty calls that ask for one. The call is
  refused with all ones in \<open>rax\<close> and the caller goes on; of the whole kernel state only the counter of refusals
  and the log on the serial port may have changed.
\<close>

theorem no_handle_refused:
  assumes "no_handles s" "f_rax (arg_frame frame s) \<in> set guarded_calls" "syscall_dispatch e frame s = Some r"
  shows "refused frame s r"
proof (cases "f_rax (arg_frame frame s) = 19")
  case True
  with assms no_handle_direct(6) show ?thesis by (simp add: syscall_dispatch_def)
next
  case False
  note n = assms(1)
  have g: "refused frame s (sys_open_file frame s)" "refused frame s (sys_read_file frame s)" "refused frame s (sys_read_range frame s)"
    "refused frame s (sys_delete frame s)" "refused frame s (sys_rename frame s)" "refused frame s (sys_list_directory frame s)"
    "refused frame s (sys_input_poll frame s)" "refused frame s (sys_select frame s)" "refused frame s (sys_display_size frame s)"
    "refused frame s (sys_compositor_report frame s)" "refused frame s (sys_cursor_move e frame s)" "refused frame s (sys_display_effect e frame s)"
    "refused frame s (sys_surface_create frame s)" "refused frame s (sys_surface_map frame s)" "refused frame s (sys_surface_damage frame s)"
    "refused frame s (sys_surface_take_damage frame s)" "refused frame s (sys_surface_unmap frame s)"
    "refused frame s (sys_http_response e frame s)" "refused frame s (sys_http_get e frame s)"
    unfolding sys_open_file_def sys_read_file_def sys_read_range_def sys_read_from_def sys_delete_def sys_rename_def sys_list_directory_def
      sys_input_poll_def sys_select_def sys_display_size_def sys_compositor_report_def sys_cursor_move_def sys_display_effect_def
      sys_surface_create_def sys_surface_map_def sys_surface_damage_def sys_surface_take_damage_def sys_surface_unmap_def
      sys_http_response_def sys_http_get_def Let_def
    by (rule no_handle_guards [OF n])+
  have c: "refused frame s (sys_surface_write frame s)" "refused frame s (sys_surface_read frame s)" "refused frame s (sys_audio_submit e frame s)"
    unfolding sys_surface_write_def sys_surface_read_def sys_audio_submit_def Let_def
    using no_handle_guards [OF n] refused_now by auto
  have "list_all (\<lambda>number. number = 19 \<or> refused frame s (syscall_plain e number frame s)) guarded_calls"
    unfolding guarded_calls_def list.pred_inject
    by (intro conjI; simp only: syscall_plain_def) (simp_all add: g c no_handle_direct [OF n] no_handle_receive [OF n] no_handle_info [OF n])
  with assms(2) False have "refused frame s (syscall_plain e (f_rax (arg_frame frame s)) frame s)" by (auto simp: list_all_iff)
  then show ?thesis using assms(3) False by (simp add: syscall_dispatch_def)
qed

text \<open>Process 0 of the boot state again: its report is refused.\<close>

theorem no_handle_refused_witness: "\<exists>r. syscall_dispatch env_example 0 report_example = Some r \<and> refused 0 report_example r"
proof -
  have n: "no_handles report_example"
    by (simp add: no_handles_def report_example_def capabilities_init_def slot_table_new_def list_all_length)
  have rax: "f_rax (arg_frame 0 report_example) = 31" by (simp add: report_example_def)
  then obtain r where d: "syscall_dispatch env_example 0 report_example = Some r" by (auto simp: syscall_dispatch_def)
  from no_handle_refused [OF n _ d] rax d show ?thesis by (simp add: guarded_calls_def)
qed

end
