(* ===== verification/Net_Checksum.thy ===== *)
theory Net_Checksum
  imports Demon_Prelude "HOL-Library.Monad_Syntax"
begin

text \<open>
  Packets as the network code of \<open>src/src/network.c\<close> reads and writes them: a packet is the list of the bytes its
  pointer and length describe, a read outside it is the value \<open>None\<close>, so that a bounds error of the code would be
  visible; the big-endian accessors; and the Internet checksum in the two forms the code has (folding
  after every word, and folding at the end). The main fact is the one a receiver relies on: a block that carries its own
  checksum in an aligned field sums to zero.
\<close>

section \<open>Reading\<close>

definition rd8 :: "u8 list \<Rightarrow> nat \<Rightarrow> u8 option" where
  "rd8 p i = (if i < length p then Some (p ! i) else None)"

text \<open>\<open>&packet[i]\<close> handed on with the length \<open>n\<close>.\<close>

definition sub_packet :: "u8 list \<Rightarrow> nat \<Rightarrow> nat \<Rightarrow> u8 list option" where
  "sub_packet p i n = (if i + n \<le> length p then Some (take n (drop i p)) else None)"

text \<open>The difference of two lengths; a difference that would wrap around is \<open>None\<close>.\<close>

definition len_sub :: "nat \<Rightarrow> nat \<Rightarrow> nat option" where
  "len_sub a b = (if b \<le> a then Some (a - b) else None)"

definition be16 :: "u8 \<Rightarrow> u8 \<Rightarrow> u16" where
  "be16 a b = push_bit 8 (ucast a) OR ucast b"

definition be32 :: "u8 \<Rightarrow> u8 \<Rightarrow> u8 \<Rightarrow> u8 \<Rightarrow> u32" where
  "be32 a b c d = push_bit 24 (ucast a) OR push_bit 16 (ucast b) OR push_bit 8 (ucast c) OR ucast d"

definition read_be16 :: "u8 list \<Rightarrow> nat \<Rightarrow> u16 option" where
  "read_be16 p i = do { a \<leftarrow> rd8 p i; b \<leftarrow> rd8 p (i + 1); Some (be16 a b) }"

definition read_be32 :: "u8 list \<Rightarrow> nat \<Rightarrow> u32 option" where
  "read_be32 p i = do { a \<leftarrow> rd8 p i; b \<leftarrow> rd8 p (i + 1); c \<leftarrow> rd8 p (i + 2); d \<leftarrow> rd8 p (i + 3); Some (be32 a b c d) }"

lemma rd8_in [simp]: "i < length p \<Longrightarrow> rd8 p i = Some (p ! i)"
  by (simp add: rd8_def)

lemma sub_packet_in [simp]: "i + n \<le> length p \<Longrightarrow> sub_packet p i n = Some (take n (drop i p))"
  by (simp add: sub_packet_def)

lemma len_sub_in [simp]: "b \<le> a \<Longrightarrow> len_sub a b = Some (a - b)"
  by (simp add: len_sub_def)

lemma read_be16_in [simp]: "i + 1 < length p \<Longrightarrow> read_be16 p i = Some (be16 (p ! i) (p ! (i + 1)))"
  by (simp add: read_be16_def)

lemma read_be32_in [simp]:
  "i + 3 < length p \<Longrightarrow> read_be32 p i = Some (be32 (p ! i) (p ! (i + 1)) (p ! (i + 2)) (p ! (i + 3)))"
  by (simp add: read_be32_def)

section \<open>Writing\<close>

definition be16_bytes :: "u16 \<Rightarrow> u8 list" where
  "be16_bytes v = [ucast (drop_bit 8 v), ucast v]"

definition be32_bytes :: "u32 \<Rightarrow> u8 list" where
  "be32_bytes v = [ucast (drop_bit 24 v), ucast (drop_bit 16 v), ucast (drop_bit 8 v), ucast v]"

definition write_be16 :: "nat \<Rightarrow> u16 \<Rightarrow> (nat \<Rightarrow> u8) \<Rightarrow> (nat \<Rightarrow> u8)" where
  "write_be16 off v m = mem_copy m off (be16_bytes v)"

definition write_be32 :: "nat \<Rightarrow> u32 \<Rightarrow> (nat \<Rightarrow> u8) \<Rightarrow> (nat \<Rightarrow> u8)" where
  "write_be32 off v m = mem_copy m off (be32_bytes v)"

lemma be16_of_bytes [simp]: "be16 (ucast (drop_bit 8 v)) (ucast v) = v"
  by (rule bit_word_eqI) (auto simp: be16_def bit_simps)

lemma be32_of_bytes [simp]:
  "be32 (ucast (drop_bit 24 v)) (ucast (drop_bit 16 v)) (ucast (drop_bit 8 v)) (ucast v) = v"
proof (rule bit_word_eqI)
  fix n
  assume "n < LENGTH(32)"
  then consider "n < 8" | "8 \<le> n" "n < 16" | "16 \<le> n" "n < 24" | "24 \<le> n" "n < 32" by fastforce
  then show "bit (be32 (ucast (drop_bit 24 v)) (ucast (drop_bit 16 v)) (ucast (drop_bit 8 v)) (ucast v)) n = bit v n"
    by cases (auto simp: be32_def bit_simps)
qed

lemma write_be16_apply: "write_be16 off v m i =
    (if i = off then ucast (drop_bit 8 v) else if i = off + 1 then ucast v else m i)"
  by (simp add: write_be16_def be16_bytes_def)

lemma write_be32_apply: "write_be32 off v m i =
    (if i = off then ucast (drop_bit 24 v) else if i = off + 1 then ucast (drop_bit 16 v)
     else if i = off + 2 then ucast (drop_bit 8 v) else if i = off + 3 then ucast v else m i)"
  by (simp add: write_be32_def be32_bytes_def)

section \<open>The checksum\<close>

function fold16 :: "u32 \<Rightarrow> u32" where
  "fold16 acc = (if acc > 0xFFFF then fold16 ((acc AND 0xFFFF) + drop_bit 16 acc) else acc)"
  by auto

lemma unat_fold_step: "unat ((acc AND 0xFFFF) + drop_bit 16 (acc :: u32)) = unat acc mod 65536 + unat acc div 65536"
proof -
  have m: "unat (acc AND 0xFFFF) = unat acc mod 65536"
    using unat_and_mask [of acc 16] by (simp add: mask_eq_exp_minus_1)
  have d: "unat (drop_bit 16 acc) = unat acc div 65536"
    by (simp add: drop_bit_eq_div unat_div)
  have "unat acc < 4294967296" using unsigned_less [of acc] by simp
  then have "unat (acc AND 0xFFFF) + unat (drop_bit 16 acc) < 2 ^ 32" unfolding m d by simp
  then show ?thesis using m d by (simp add: unat_add_small)
qed

termination fold16
proof (relation "measure unat")
  fix acc :: u32
  assume "acc > 0xFFFF"
  then have "unat acc > 65535" by (simp add: word_less_nat_alt)
  moreover from this have "unat acc div 65536 \<ge> 1" by (simp add: div_greater_zero_iff Suc_le_eq)
  ultimately have "unat acc mod 65536 + unat acc div 65536 < unat acc"
    using div_mult_mod_eq [of "unat acc" 65536] by linarith
  then show "((acc AND 0xFFFF) + drop_bit 16 acc, acc) \<in> measure unat"
    by (simp only: in_measure unat_fold_step)
qed simp

declare fold16.simps [simp del]

text \<open>\<open>folded r n\<close>: \<open>r\<close> is the one's-complement residue of the sum \<open>n\<close>.\<close>

definition folded :: "u32 \<Rightarrow> nat \<Rightarrow> bool" where
  "folded r n \<longleftrightarrow> unat r \<le> 65535 \<and> unat r mod 65535 = n mod 65535 \<and> (unat r = 0 \<longleftrightarrow> n = 0)"

lemma fold16_folded: "folded (fold16 acc) (unat acc)"
proof (induction acc rule: fold16.induct)
  case (1 acc)
  show ?case
  proof (cases "acc > 0xFFFF")
    case True
    let ?n = "unat acc"
    have "(?n mod 65536 + ?n div 65536) mod 65535 = ?n mod 65535"
    proof -
      have "?n = 65535 * (?n div 65536) + (?n mod 65536 + ?n div 65536)"
        using div_mult_mod_eq [of ?n 65536] by linarith
      then show ?thesis by (metis mod_mult_self4)
    qed
    moreover have "?n mod 65536 + ?n div 65536 \<noteq> 0"
      using True div_mult_mod_eq [of ?n 65536] by (auto simp: word_less_nat_alt)
    moreover have "?n \<noteq> 0" using True by (auto simp: word_less_nat_alt)
    ultimately have "folded r (?n mod 65536 + ?n div 65536) \<Longrightarrow> folded r ?n" for r by (simp add: folded_def)
    with 1 [OF True] True show ?thesis
      by (subst fold16.simps) (simp only: unat_fold_step if_True)
  next
    case False
    then show ?thesis by (subst fold16.simps) (auto simp: folded_def word_less_nat_alt)
  qed
qed

text \<open>The sum of the big-endian words of a block, an odd last byte padded with zero.\<close>

fun word_sum :: "u8 list \<Rightarrow> nat" where
  "word_sum (a # b # bs) = 256 * unat a + unat b + word_sum bs"
| "word_sum [a] = 256 * unat a"
| "word_sum [] = 0"

fun ipv4_sum :: "u32 \<Rightarrow> u8 list \<Rightarrow> u32" where
  "ipv4_sum acc (a # b # bs) = ipv4_sum (fold16 (acc + ucast (be16 a b))) bs"
| "ipv4_sum acc _ = acc"

definition network_ipv4_checksum :: "u8 list \<Rightarrow> u16" where
  "network_ipv4_checksum header =
     (if length header < 20 \<or> length header > 60 \<or> odd (length header) then 0xFFFF
      else NOT (ucast (ipv4_sum 0 header)))"

fun checksum_loop :: "u32 \<Rightarrow> u8 list \<Rightarrow> u32" where
  "checksum_loop acc (a # b # bs) = checksum_loop (acc + ucast (be16 a b)) bs"
| "checksum_loop acc [a] = acc + push_bit 8 (ucast a)"
| "checksum_loop acc [] = acc"

definition checksum_add :: "u32 \<Rightarrow> u8 list \<Rightarrow> u32" where
  "checksum_add acc bytes = fold16 (checksum_loop acc bytes)"

definition pseudo_header :: "u32 \<Rightarrow> u32 \<Rightarrow> u8 \<Rightarrow> nat \<Rightarrow> u8 list" where
  "pseudo_header source destination protocol len =
     be32_bytes source @ be32_bytes destination @ [0, protocol] @ be16_bytes (of_nat len)"

definition transport_checksum :: "u32 \<Rightarrow> u32 \<Rightarrow> u8 \<Rightarrow> u8 list \<Rightarrow> u16" where
  "transport_checksum source destination protocol packet =
     NOT (ucast (checksum_add (checksum_add 0 (pseudo_header source destination protocol (length packet))) packet))"

lemma unat_be16: "unat (be16 a b) = 256 * unat a + unat b"
proof -
  have "be16 a b = push_bit 8 (ucast a) + ucast b"
    unfolding be16_def by (rule disjunctive_add_eq_or [symmetric]) (rule bit_word_eqI, auto simp: bit_simps dest: bit_imp_le_length)
  moreover have "unat a < 256" "unat b < 256" using unsigned_less [of a] unsigned_less [of b] by simp_all
  ultimately show ?thesis
    by (simp add: push_bit_eq_mult unat_word_ariths unat_add_small)
qed

lemma unat_add_word16:
  assumes "unat acc + (256 * unat a + unat b) < 4294967296"
  shows "unat (acc + (ucast (be16 a b) :: u32)) = unat acc + (256 * unat a + unat b)"
  using assms unat_add_small [of acc "ucast (be16 a b)"] by (simp add: unat_be16)

lemma word_sum_bound: "word_sum bs \<le> 65535 * ((length bs + 1) div 2)"
proof (induction bs rule: word_sum.induct)
  case (1 a b bs)
  have "unat a < 256" "unat b < 256" using unsigned_less [of a] unsigned_less [of b] by simp_all
  with 1 show ?case by simp
next
  case (2 a)
  have "unat a < 256" using unsigned_less [of a] by simp
  then show ?case by simp
qed simp

lemma checksum_loop_sum:
  "unat acc + word_sum bs < 4294967296 \<Longrightarrow> unat (checksum_loop acc bs) = unat acc + word_sum bs"
proof (induction acc bs rule: checksum_loop.induct)
  case (1 acc a b bs)
  then show ?case by (simp add: unat_add_word16)
next
  case (2 acc a)
  then show ?case by (simp add: unat_add_small push_bit_eq_mult unat_word_ariths)
qed simp

lemma folded_trans: "folded r n \<Longrightarrow> folded r' (unat r + k) \<Longrightarrow> folded r' (n + k)"
  by (auto simp: folded_def) (metis mod_add_cong)+

lemma checksum_add_folded:
  assumes "folded acc n" "length bs \<le> 65536"
  shows "folded (checksum_add acc bs) (n + word_sum bs)"
proof -
  have "65535 * ((length bs + 1) div 2) \<le> 65535 * 32768" using assms(2) by (intro mult_le_mono2) simp
  with word_sum_bound [of bs] assms(1) have "unat acc + word_sum bs < 4294967296" by (simp add: folded_def)
  then have "unat (checksum_loop acc bs) = unat acc + word_sum bs" by (rule checksum_loop_sum)
  with fold16_folded [of "checksum_loop acc bs"] have "folded (checksum_add acc bs) (unat acc + word_sum bs)"
    by (simp add: checksum_add_def)
  with folded_trans [OF assms(1)] show ?thesis by blast
qed

lemma folded_0 [simp]: "folded 0 0"
  by (simp add: folded_def)

lemma ipv4_sum_folded: "folded acc n \<Longrightarrow> even (length bs) \<Longrightarrow> folded (ipv4_sum acc bs) (n + word_sum bs)"
proof (induction acc bs arbitrary: n rule: ipv4_sum.induct)
  case (1 acc a b bs)
  have "unat a < 256" "unat b < 256" using unsigned_less [of a] unsigned_less [of b] by simp_all
  with 1(2) have "unat (acc + ucast (be16 a b)) = unat acc + (256 * unat a + unat b)"
    by (intro unat_add_word16) (simp add: folded_def)
  with fold16_folded [of "acc + ucast (be16 a b)"] folded_trans [OF 1(2)]
  have "folded (fold16 (acc + ucast (be16 a b))) (n + (256 * unat a + unat b))" by simp
  from 1(1) [OF this] 1(3) show ?case by (simp add: add.assoc)
qed auto

text \<open>A sum that is a positive multiple of 65535 has the complement zero, and adding the complement makes it one.\<close>

lemma complement_zero: "folded r n \<Longrightarrow> 0 < n \<Longrightarrow> n mod 65535 = 0 \<Longrightarrow> NOT (ucast r :: u16) = 0"
proof -
  assume a: "folded r n" "0 < n" "n mod 65535 = 0"
  then have "unat r = 65535" by (auto simp: folded_def dest: dvd_imp_le)
  then have "r = 0xFFFF" by (metis of_nat_numeral word_nat_of_unat)
  then show ?thesis by simp
qed

lemma unat_complement: "folded r n \<Longrightarrow> unat (NOT (ucast r :: u16)) = 65535 - unat r"
proof -
  assume "folded r n"
  then have "unat (ucast r :: u16) = unat r" by (simp add: folded_def unsigned_ucast_eq take_bit_nat_eq_self_iff)
  moreover have "NOT (ucast r :: u16) = 0xFFFF - ucast r" by (simp add: not_eq_complement)
  ultimately show ?thesis using unat_sub [of "ucast r :: u16" "0xFFFF"] \<open>folded r n\<close> by (simp add: folded_def word_le_nat_alt)
qed

lemma complement_sum:
  assumes "folded r n"
  shows "(n + unat (NOT (ucast r :: u16))) mod 65535 = 0 \<and> (n = 0 \<longrightarrow> unat (NOT (ucast r :: u16)) \<noteq> 0)"
proof -
  have "(unat r + (65535 - unat r)) mod 65535 = 0" using assms by (simp add: folded_def)
  moreover have "(n + (65535 - unat r)) mod 65535 = (unat r + (65535 - unat r)) mod 65535"
    by (rule mod_add_cong) (use assms in \<open>simp_all add: folded_def\<close>)
  ultimately show ?thesis using assms unfolding unat_complement [OF assms] by (auto simp: folded_def)
qed

section \<open>A block that carries its checksum\<close>

definition byte_weight :: "nat \<Rightarrow> nat" where
  "byte_weight k = (if even k then 256 else 1)"

lemma word_sum_update:
  "k < length bs \<Longrightarrow> word_sum (bs[k := x]) + byte_weight k * unat (bs ! k) = word_sum bs + byte_weight k * unat x"
proof (induction bs arbitrary: k rule: word_sum.induct)
  case (1 a b bs)
  consider "k = 0" | "k = 1" | j where "k = Suc (Suc j)" by (metis One_nat_def not0_implies_Suc)
  then show ?case
  proof cases
    case 3
    with 1(1) [of j] 1(2) show ?thesis by (simp add: byte_weight_def)
  qed (simp_all add: byte_weight_def)
qed (simp_all add: byte_weight_def)

lemma word_sum_field:
  assumes "k + 1 < length bs" "even k" "bs ! k = 0" "bs ! (k + 1) = 0"
  shows "word_sum (bs[k := ucast (drop_bit 8 v), k + 1 := ucast v]) = word_sum bs + unat (v :: u16)"
proof -
  let ?h = "ucast (drop_bit 8 v) :: u8" and ?l = "ucast v :: u8"
  have "256 * unat ?h + unat ?l = unat (be16 ?h ?l)" by (simp only: unat_be16)
  then show ?thesis
    using word_sum_update [of k bs ?h] word_sum_update [of "k + 1" "bs[k := ?h]" ?l] assms
    by (simp add: byte_weight_def)
qed

lemma ipv4_checksum_carried:
  assumes "length bs = 20" "bs ! 10 = 0" "bs ! 11 = 0" "v = network_ipv4_checksum bs"
  shows "network_ipv4_checksum (bs[10 := ucast (drop_bit 8 v), 11 := ucast v]) = 0"
proof -
  let ?bs = "bs[10 := ucast (drop_bit 8 v), 11 := ucast v]"
  have f: "folded (ipv4_sum 0 bs) (word_sum bs)" using ipv4_sum_folded [of 0 0 bs] assms(1) by simp
  have v: "v = NOT (ucast (ipv4_sum 0 bs))" using assms(1,4) by (simp add: network_ipv4_checksum_def)
  have w: "word_sum ?bs = word_sum bs + unat v" using word_sum_field [of 10 bs v] assms(1-3) by simp
  have "folded (ipv4_sum 0 ?bs) (word_sum bs + unat v)" using ipv4_sum_folded [of 0 0 ?bs] assms(1) w by simp
  from complement_zero [OF this] complement_sum [OF f] show ?thesis
    using assms(1) unfolding v by (auto simp: network_ipv4_checksum_def)
qed

lemma transport_checksum_carried:
  assumes "17 < length bs" "length bs \<le> 65536" "bs ! 16 = 0" "bs ! 17 = 0" "v = transport_checksum source destination protocol bs"
  shows "transport_checksum source destination protocol (bs[16 := ucast (drop_bit 8 v), 17 := ucast v]) = 0"
proof -
  let ?bs = "bs[16 := ucast (drop_bit 8 v), 17 := ucast v]" and ?p = "pseudo_header source destination protocol (length bs)"
  have "length ?p = 12" by (simp add: pseudo_header_def be32_bytes_def be16_bytes_def)
  then have p: "folded (checksum_add 0 ?p) (word_sum ?p)" using checksum_add_folded [of 0 0 ?p] by simp
  have f: "folded (checksum_add (checksum_add 0 ?p) bs) (word_sum ?p + word_sum bs)"
    by (rule checksum_add_folded [OF p assms(2)])
  have v: "v = NOT (ucast (checksum_add (checksum_add 0 ?p) bs))" using assms(5) by (simp add: transport_checksum_def)
  have w: "word_sum ?bs = word_sum bs + unat v" using word_sum_field [of 16 bs v] assms(1,3,4) by simp
  have "folded (checksum_add (checksum_add 0 ?p) ?bs) (word_sum ?p + word_sum bs + unat v)"
    using checksum_add_folded [OF p, of ?bs] assms(2) w by (simp add: add.assoc)
  then have "NOT (ucast (checksum_add (checksum_add 0 ?p) ?bs) :: u16) = 0"
    using complement_sum [OF f] by (intro complement_zero) (auto simp: v)
  then show ?thesis by (simp only: transport_checksum_def length_list_update)
qed

end
