(* ===== verification/Network.thy ===== *)
theory Network
  imports Net_Checksum
begin

text \<open>
  The network stack of \<open>src/src/network.c\<close>: the receive path from an Ethernet frame to the ARP cache and the pending
  DHCP, DNS and TCP answers, the frames the kernel sends, and the document of the last HTTP answer. A received packet is
  the list of its bytes; a function of the receive path has the value \<open>None\<close> if the code would read outside the packet it was
  given or a difference of lengths would wrap around, and the result with the new state otherwise. A frame that is built
  is a function from the index to the byte, so that a store outside the frame would be visible.
\<close>

section \<open>State\<close>

abbreviation (input) ETHERNET_MIN_FRAME_BYTES :: nat where "ETHERNET_MIN_FRAME_BYTES \<equiv> 60"
abbreviation (input) ETHER_TYPE_ARP :: u16 where "ETHER_TYPE_ARP \<equiv> 0x0806"
abbreviation (input) ETHER_TYPE_IPV4 :: u16 where "ETHER_TYPE_IPV4 \<equiv> 0x0800"
abbreviation (input) ARP_CACHE_LIMIT :: nat where "ARP_CACHE_LIMIT \<equiv> 4"
abbreviation (input) IP_PROTOCOL_UDP :: u8 where "IP_PROTOCOL_UDP \<equiv> 17"
abbreviation (input) IP_PROTOCOL_TCP :: u8 where "IP_PROTOCOL_TCP \<equiv> 6"
abbreviation (input) DHCP_CLIENT_PORT :: u16 where "DHCP_CLIENT_PORT \<equiv> 68"
abbreviation (input) DHCP_SERVER_PORT :: u16 where "DHCP_SERVER_PORT \<equiv> 67"
abbreviation (input) DHCP_FIXED_BYTES :: nat where "DHCP_FIXED_BYTES \<equiv> 240"
abbreviation (input) DNS_SERVER_PORT :: u16 where "DNS_SERVER_PORT \<equiv> 53"
abbreviation (input) DNS_CLIENT_PORT :: u16 where "DNS_CLIENT_PORT \<equiv> 49152"
abbreviation (input) TCP_FLAG_FIN :: u8 where "TCP_FLAG_FIN \<equiv> 1"
abbreviation (input) TCP_FLAG_SYN :: u8 where "TCP_FLAG_SYN \<equiv> 2"
abbreviation (input) TCP_FLAG_PSH :: u8 where "TCP_FLAG_PSH \<equiv> 8"
abbreviation (input) TCP_FLAG_ACK :: u8 where "TCP_FLAG_ACK \<equiv> 16"
abbreviation (input) TCP_RECEIVE_LIMIT :: nat where "TCP_RECEIVE_LIMIT \<equiv> 4096"
abbreviation (input) HTTP_DOCUMENT_LIMIT :: nat where "HTTP_DOCUMENT_LIMIT \<equiv> 1024"

datatype network_link_state = NETWORK_LINK_NO_DEVICE | NETWORK_LINK_DOWN | NETWORK_LINK_UP

record network_snapshot =
  ns_link :: network_link_state
  ns_mac :: "u8 list"
  ns_ipv4_address :: u32
  ns_received_frames :: u64
  ns_transmitted_frames :: u64
  ns_dropped_frames :: u64
  ns_arp_entries :: u64

record arp_entry =
  ae_address :: u32
  ae_mac :: "u8 list"
  ae_valid :: bool

record network_dhcp_offer =
  do_address :: u32
  do_server :: u32
  do_gateway :: u32
  do_dns :: u32
  do_subnet_mask :: u32

record network_dns_answer =
  na_address :: u32
  na_ttl_seconds :: u32

record network_tcp_syn_ack =
  sa_remote_sequence :: u32
  sa_receive_window :: u16

record network_route =
  nr_gateway :: u32
  nr_dns :: u32
  nr_gateway_mac :: "u8 list"

record net_state =
  n_state :: network_snapshot
  n_arp_cache :: "arp_entry list"
  n_arp_replace :: nat
  n_offer :: network_dhcp_offer
  n_offer_transaction :: u32
  n_offer_valid :: bool
  n_ack :: network_dhcp_offer
  n_ack_transaction :: u32
  n_ack_valid :: bool
  n_dns_answer :: network_dns_answer
  n_dns_transaction :: u16
  n_dns_valid :: bool
  n_syn_ack :: network_tcp_syn_ack
  n_tcp_address :: u32
  n_tcp_acknowledgment :: u32
  n_tcp_local_port :: u16
  n_tcp_remote_port :: u16
  n_tcp_valid :: bool
  n_data :: "nat \<Rightarrow> u8"
  n_data_length :: nat
  n_data_next_sequence :: u32
  n_data_address :: u32
  n_data_local_port :: u16
  n_data_remote_port :: u16
  n_fin :: bool
  n_fin_address :: u32
  n_fin_next_sequence :: u32
  n_fin_local_port :: u16
  n_fin_remote_port :: u16
  n_http_document :: "nat \<Rightarrow> u8"
  n_http_length :: nat
  n_http_reads :: u64
  n_route :: network_route
  n_route_valid :: bool

definition mac_zero :: "u8 list" where
  "mac_zero = replicate 6 0"

definition arp_entry_zero :: arp_entry where
  "arp_entry_zero = \<lparr>ae_address = 0, ae_mac = mac_zero, ae_valid = False\<rparr>"

definition dhcp_offer_zero :: network_dhcp_offer where
  "dhcp_offer_zero = \<lparr>do_address = 0, do_server = 0, do_gateway = 0, do_dns = 0, do_subnet_mask = 0\<rparr>"

definition network_init :: "net_state \<Rightarrow> net_state" where
  "network_init s = s\<lparr>
     n_state := \<lparr>ns_link = NETWORK_LINK_NO_DEVICE, ns_mac = mac_zero, ns_ipv4_address = 0, ns_received_frames = 0,
       ns_transmitted_frames = 0, ns_dropped_frames = 0, ns_arp_entries = 0\<rparr>,
     n_arp_cache := replicate ARP_CACHE_LIMIT arp_entry_zero, n_arp_replace := 0,
     n_offer := dhcp_offer_zero, n_offer_transaction := 0, n_offer_valid := False,
     n_ack := dhcp_offer_zero, n_ack_transaction := 0, n_ack_valid := False,
     n_dns_answer := \<lparr>na_address = 0, na_ttl_seconds = 0\<rparr>, n_dns_transaction := 0, n_dns_valid := False,
     n_syn_ack := \<lparr>sa_remote_sequence = 0, sa_receive_window = 0\<rparr>, n_tcp_address := 0, n_tcp_acknowledgment := 0,
     n_tcp_local_port := 0, n_tcp_remote_port := 0, n_tcp_valid := False,
     n_data_length := 0, n_data_next_sequence := 0, n_data_address := 0, n_data_local_port := 0, n_data_remote_port := 0,
     n_fin := False, n_http_length := 0, n_http_reads := 0,
     n_route := \<lparr>nr_gateway = 0, nr_dns = 0, nr_gateway_mac = mac_zero\<rparr>, n_route_valid := False\<rparr>"

definition network_set_device :: "u8 list \<Rightarrow> net_state \<Rightarrow> net_state" where
  "network_set_device mac s = s\<lparr>n_state := (n_state s)\<lparr>ns_mac := mac, ns_link := NETWORK_LINK_DOWN\<rparr>\<rparr>"

definition network_set_link :: "bool \<Rightarrow> net_state \<Rightarrow> net_state" where
  "network_set_link up s =
     (if ns_link (n_state s) = NETWORK_LINK_NO_DEVICE then s
      else s\<lparr>n_state := (n_state s)\<lparr>ns_link := (if up then NETWORK_LINK_UP else NETWORK_LINK_DOWN)\<rparr>\<rparr>)"

definition network_set_ipv4 :: "u32 \<Rightarrow> net_state \<Rightarrow> net_state" where
  "network_set_ipv4 a s = s\<lparr>n_state := (n_state s)\<lparr>ns_ipv4_address := a\<rparr>\<rparr>"

section \<open>The ARP cache\<close>

definition arp_hit :: "u32 \<Rightarrow> arp_entry \<Rightarrow> bool" where
  "arp_hit a entry \<longleftrightarrow> ae_valid entry \<and> ae_address entry = a"

definition learn_arp :: "u32 \<Rightarrow> u8 list \<Rightarrow> net_state \<Rightarrow> net_state" where
  "learn_arp a mac s =
     (case first_index (arp_hit a) (n_arp_cache s) of
        Some i \<Rightarrow> s\<lparr>n_arp_cache := (n_arp_cache s)[i := (n_arp_cache s ! i)\<lparr>ae_mac := mac\<rparr>]\<rparr>
      | None \<Rightarrow>
          (let r = n_arp_replace s in
           s\<lparr>n_arp_cache := (n_arp_cache s)[r := \<lparr>ae_address = a, ae_mac = mac, ae_valid = True\<rparr>],
             n_state := (n_state s)\<lparr>ns_arp_entries := ns_arp_entries (n_state s) + (if ae_valid (n_arp_cache s ! r) then 0 else 1)\<rparr>,
             n_arp_replace := (r + 1) mod ARP_CACHE_LIMIT\<rparr>))"

definition network_arp_lookup :: "u32 \<Rightarrow> net_state \<Rightarrow> u8 list option" where
  "network_arp_lookup a s = map_option (\<lambda>i. ae_mac (n_arp_cache s ! i)) (first_index (arp_hit a) (n_arp_cache s))"

section \<open>Receiving\<close>

text \<open>The result of a receive function: \<open>None\<close> is an access outside the packet.\<close>

type_synonym received = "(bool \<times> net_state) option"

definition receive_arp :: "u8 list \<Rightarrow> net_state \<Rightarrow> received" where
  "receive_arp p s =
     (if length p < 28 then Some (False, s)
      else do {
        hardware \<leftarrow> read_be16 p 0; protocol \<leftarrow> read_be16 p 2; hlen \<leftarrow> rd8 p 4; plen \<leftarrow> rd8 p 5;
        if hardware \<noteq> 1 \<or> protocol \<noteq> ETHER_TYPE_IPV4 \<or> hlen \<noteq> 6 \<or> plen \<noteq> 4 then Some (False, s)
        else do {
          operation \<leftarrow> read_be16 p 6;
          if operation \<noteq> 1 \<and> operation \<noteq> 2 then Some (False, s)
          else do { a \<leftarrow> read_be32 p 14; mac \<leftarrow> sub_packet p 8 6; Some (True, learn_arp a mac s) } } })"

text \<open>One DHCP option, its value at \<open>off\<close>, and the loop over the options; an inner \<open>None\<close> is the return of false.\<close>

definition dhcp_option :: "u8 list \<Rightarrow> u8 \<Rightarrow> nat \<Rightarrow> nat \<Rightarrow> u8 \<times> network_dhcp_offer \<Rightarrow> (u8 \<times> network_dhcp_offer) option" where
  "dhcp_option p opt len off r =
     (let (ty, offer) = r in
      if opt = 53 \<and> len = 1 then do { v \<leftarrow> rd8 p off; Some (v, offer) }
      else if opt = 54 \<and> len = 4 then do { v \<leftarrow> read_be32 p off; Some (ty, offer\<lparr>do_server := v\<rparr>) }
      else if opt = 3 \<and> len \<ge> 4 then do { v \<leftarrow> read_be32 p off; Some (ty, offer\<lparr>do_gateway := v\<rparr>) }
      else if opt = 6 \<and> len \<ge> 4 then do { v \<leftarrow> read_be32 p off; Some (ty, offer\<lparr>do_dns := v\<rparr>) }
      else if opt = 1 \<and> len = 4 then do { v \<leftarrow> read_be32 p off; Some (ty, offer\<lparr>do_subnet_mask := v\<rparr>) }
      else Some r)"

function dhcp_options :: "u8 list \<Rightarrow> nat \<Rightarrow> u8 \<times> network_dhcp_offer \<Rightarrow> (u8 \<times> network_dhcp_offer) option option" where
  "dhcp_options p off r =
     (if off \<ge> length p then Some (Some r)
      else case rd8 p off of None \<Rightarrow> None | Some opt \<Rightarrow>
        if opt = 0 then dhcp_options p (off + 1) r
        else if opt = 255 then Some (Some r)
        else if off + 1 \<ge> length p then Some None
        else case rd8 p (off + 1) of None \<Rightarrow> None | Some len \<Rightarrow>
          case len_sub (length p) (off + 2) of None \<Rightarrow> None | Some rest \<Rightarrow>
            if unat len > rest then Some None
            else case dhcp_option p opt (unat len) (off + 2) r of None \<Rightarrow> None | Some r' \<Rightarrow>
              dhcp_options p (off + 2 + unat len) r')"
  by auto
termination by (relation "measure (\<lambda>(p, off, r). length p - off)") auto

declare dhcp_options.simps [simp del]

definition receive_dhcp :: "u8 list \<Rightarrow> net_state \<Rightarrow> received" where
  "receive_dhcp p s =
     (if length p < DHCP_FIXED_BYTES then Some (False, s)
      else do {
        op \<leftarrow> rd8 p 0; htype \<leftarrow> rd8 p 1; hlen \<leftarrow> rd8 p 2; magic \<leftarrow> read_be32 p 236; mac \<leftarrow> sub_packet p 28 6;
        if op \<noteq> 2 \<or> htype \<noteq> 1 \<or> hlen \<noteq> 6 \<or> magic \<noteq> 0x63825363 \<or> mac \<noteq> ns_mac (n_state s) then Some (False, s)
        else do {
          a \<leftarrow> read_be32 p 16; transaction \<leftarrow> read_be32 p 4;
          r \<leftarrow> dhcp_options p DHCP_FIXED_BYTES (0, dhcp_offer_zero\<lparr>do_address := a\<rparr>);
          case r of
            None \<Rightarrow> Some (False, s)
          | Some (message_type, offer) \<Rightarrow>
              if message_type \<noteq> 2 \<and> message_type \<noteq> 5 \<or> do_address offer = 0 \<or> do_server offer = 0 then Some (False, s)
              else if message_type = 2 then Some (True, s\<lparr>n_offer := offer, n_offer_transaction := transaction, n_offer_valid := True\<rparr>)
              else Some (True, s\<lparr>n_ack := offer, n_ack_transaction := transaction, n_ack_valid := True\<rparr>) } })"

text \<open>The offset behind a name, 0 for a malformed one.\<close>

function dns_skip_name :: "u8 list \<Rightarrow> nat \<Rightarrow> nat option" where
  "dns_skip_name p off =
     (if off < length p
      then case rd8 p off of None \<Rightarrow> None | Some label \<Rightarrow>
        if label = 0 then Some (off + 1)
        else if label AND 0xC0 = 0xC0 then Some (if off + 1 < length p then off + 2 else 0)
        else case len_sub (length p) (off + 1) of None \<Rightarrow> None | Some rest \<Rightarrow>
          if label > 63 \<or> unat label > rest then Some 0
          else dns_skip_name p (off + 1 + unat label)
      else Some 0)"
  by auto
termination by (relation "measure (\<lambda>(p, off). length p - off)") auto

declare dns_skip_name.simps [simp del]

fun dns_questions :: "u8 list \<Rightarrow> nat \<Rightarrow> nat \<Rightarrow> nat option option" where
  "dns_questions p 0 off = Some (Some off)"
| "dns_questions p (Suc n) off = do {
     off' \<leftarrow> dns_skip_name p off;
     if off' = 0 then Some None
     else do { rest \<leftarrow> len_sub (length p) off'; if rest < 4 then Some None else dns_questions p n (off' + 4) } }"

fun dns_answers :: "u8 list \<Rightarrow> nat \<Rightarrow> nat \<Rightarrow> network_dns_answer option option" where
  "dns_answers p 0 off = Some None"
| "dns_answers p (Suc n) off = do {
     off' \<leftarrow> dns_skip_name p off;
     if off' = 0 then Some None
     else do {
       rest \<leftarrow> len_sub (length p) off';
       if rest < 10 then Some None
       else do {
         ty \<leftarrow> read_be16 p off'; class_code \<leftarrow> read_be16 p (off' + 2); ttl \<leftarrow> read_be32 p (off' + 4);
         data_length \<leftarrow> read_be16 p (off' + 8);
         rest' \<leftarrow> len_sub (length p) (off' + 10);
         if unat data_length > rest' then Some None
         else if ty = 1 \<and> class_code = 1 \<and> data_length = 4
         then do { a \<leftarrow> read_be32 p (off' + 10); Some (Some \<lparr>na_address = a, na_ttl_seconds = ttl\<rparr>) }
         else dns_answers p n (off' + 10 + unat data_length) } } }"

definition receive_dns :: "u8 list \<Rightarrow> net_state \<Rightarrow> received" where
  "receive_dns p s =
     (if length p < 12 then Some (False, s)
      else do {
        flags \<leftarrow> read_be16 p 2;
        if flags AND 0x800F \<noteq> 0x8000 then Some (False, s)
        else do {
          transaction \<leftarrow> read_be16 p 0; questions \<leftarrow> read_be16 p 4; answers \<leftarrow> read_be16 p 6;
          r \<leftarrow> dns_questions p (unat questions) 12;
          case r of
            None \<Rightarrow> Some (False, s)
          | Some off \<Rightarrow> do {
              r' \<leftarrow> dns_answers p (unat answers) off;
              case r' of
                None \<Rightarrow> Some (False, s)
              | Some answer \<Rightarrow> Some (True, s\<lparr>n_dns_answer := answer, n_dns_transaction := transaction, n_dns_valid := True\<rparr>) } } })"

definition receive_udp :: "u8 list \<Rightarrow> net_state \<Rightarrow> received" where
  "receive_udp p s =
     (if length p < 8 then Some (False, s)
      else do {
        source_port \<leftarrow> read_be16 p 0; destination_port \<leftarrow> read_be16 p 2; udp_length \<leftarrow> read_be16 p 4;
        if unat udp_length < 8 \<or> unat udp_length > length p then Some (False, s)
        else if source_port = DHCP_SERVER_PORT \<and> destination_port = DHCP_CLIENT_PORT
        then do { q \<leftarrow> sub_packet p 8 (unat udp_length - 8); receive_dhcp q s }
        else if source_port = DNS_SERVER_PORT \<and> destination_port = DNS_CLIENT_PORT
        then do { q \<leftarrow> sub_packet p 8 (unat udp_length - 8); receive_dns q s }
        else Some (True, s) })"

text \<open>The steps of \<open>receive_tcp\<close>: a FIN is noted, the data is appended in order, and a SYN/ACK is noted.\<close>

definition tcp_note_fin :: "u16 \<Rightarrow> u16 \<Rightarrow> u32 \<Rightarrow> u32 \<Rightarrow> nat \<Rightarrow> net_state \<Rightarrow> net_state" where
  "tcp_note_fin remote_port local_port source sequence data_length s =
     s\<lparr>n_fin := True, n_fin_address := source, n_fin_remote_port := remote_port, n_fin_local_port := local_port,
       n_fin_next_sequence := sequence + of_nat data_length + 1\<rparr>"

definition tcp_append :: "u16 \<Rightarrow> u16 \<Rightarrow> u32 \<Rightarrow> u32 \<Rightarrow> u8 list \<Rightarrow> bool \<Rightarrow> net_state \<Rightarrow> bool \<times> net_state" where
  "tcp_append remote_port local_port source sequence data fin s =
     (let s1 = (if n_data_length s = 0
                then s\<lparr>n_data_address := source, n_data_remote_port := remote_port, n_data_local_port := local_port,
                       n_data_next_sequence := sequence\<rparr>
                else s)
      in if n_data_address s1 \<noteq> source \<or> n_data_remote_port s1 \<noteq> remote_port \<or> n_data_local_port s1 \<noteq> local_port \<or>
            n_data_next_sequence s1 \<noteq> sequence \<or> length data > TCP_RECEIVE_LIMIT - n_data_length s1
         then (False, s1)
         else (True, s1\<lparr>n_data := mem_copy (n_data s1) (n_data_length s1) data,
                 n_data_length := n_data_length s1 + length data,
                 n_data_next_sequence := n_data_next_sequence s1 + of_nat (length data) + (if fin then 1 else 0)\<rparr>))"

definition receive_tcp :: "u8 list \<Rightarrow> u32 \<Rightarrow> u32 \<Rightarrow> net_state \<Rightarrow> received" where
  "receive_tcp p source destination s =
     (if length p < 20 \<or> transport_checksum source destination IP_PROTOCOL_TCP p \<noteq> 0 then Some (False, s)
      else do {
        offset_byte \<leftarrow> rd8 p 12;
        let header_length = unat (drop_bit 4 offset_byte) * 4 in
        if header_length < 20 \<or> header_length > length p then Some (False, s)
        else do {
          flags \<leftarrow> rd8 p 13; remote_port \<leftarrow> read_be16 p 0; local_port \<leftarrow> read_be16 p 2; sequence \<leftarrow> read_be32 p 4;
          acknowledgment \<leftarrow> read_be32 p 8; window \<leftarrow> read_be16 p 14;
          data \<leftarrow> sub_packet p header_length (length p - header_length);
          let fin = flags AND TCP_FLAG_FIN \<noteq> 0;
              s1 = (if fin then tcp_note_fin remote_port local_port source sequence (length data) s else s);
              (ok, s2) = (if length data \<noteq> 0 then tcp_append remote_port local_port source sequence data fin s1 else (True, s1)) in
          if \<not> ok then Some (False, s2)
          else if flags AND (TCP_FLAG_SYN OR TCP_FLAG_ACK) \<noteq> (TCP_FLAG_SYN OR TCP_FLAG_ACK) then Some (True, s2)
          else Some (True, s2\<lparr>n_tcp_remote_port := remote_port, n_tcp_local_port := local_port,
                 n_syn_ack := \<lparr>sa_remote_sequence = sequence, sa_receive_window = window\<rparr>,
                 n_tcp_acknowledgment := acknowledgment, n_tcp_address := source, n_tcp_valid := True\<rparr>) } })"

definition receive_ipv4 :: "u8 list \<Rightarrow> net_state \<Rightarrow> received" where
  "receive_ipv4 p s =
     (if length p < 20 then Some (False, s)
      else do {
        version \<leftarrow> rd8 p 0;
        if drop_bit 4 version \<noteq> 4 then Some (False, s)
        else do {
          total \<leftarrow> read_be16 p 2;
          let header_length = unat (version AND 0x0F) * 4; total_length = unat total in
          if header_length < 20 \<or> header_length > 60 \<or> header_length > length p \<or> total_length < header_length \<or> total_length > length p
          then Some (False, s)
          else do {
            header \<leftarrow> sub_packet p 0 header_length; fragment \<leftarrow> read_be16 p 6; protocol \<leftarrow> rd8 p 9;
            if network_ipv4_checksum header \<noteq> 0 then Some (False, s)
            else if fragment AND 0x3FFF \<noteq> 0 then Some (False, s)
            else if protocol = IP_PROTOCOL_UDP
            then do { q \<leftarrow> sub_packet p header_length (total_length - header_length); receive_udp q s }
            else if protocol = IP_PROTOCOL_TCP
            then do { q \<leftarrow> sub_packet p header_length (total_length - header_length); source \<leftarrow> read_be32 p 12;
                      destination \<leftarrow> read_be32 p 16; receive_tcp q source destination s }
            else Some (True, s) } } })"

definition count_frame :: "bool \<Rightarrow> net_state \<Rightarrow> net_state" where
  "count_frame accepted s = s\<lparr>n_state :=
     (if accepted then (n_state s)\<lparr>ns_received_frames := ns_received_frames (n_state s) + 1\<rparr>
      else (n_state s)\<lparr>ns_dropped_frames := ns_dropped_frames (n_state s) + 1\<rparr>)\<rparr>"

definition network_receive_ethernet :: "u8 list \<Rightarrow> net_state \<Rightarrow> received" where
  "network_receive_ethernet frame s =
     (if length frame < ETHERNET_MIN_FRAME_BYTES \<or> ns_link (n_state s) \<noteq> NETWORK_LINK_UP then Some (False, count_frame False s)
      else do {
        ty \<leftarrow> read_be16 frame 12;
        payload \<leftarrow> sub_packet frame 14 (length frame - 14);
        (accepted, s1) \<leftarrow> (if ty = ETHER_TYPE_ARP then receive_arp payload s
                            else if ty = ETHER_TYPE_IPV4 then receive_ipv4 payload s
                            else Some (False, s));
        Some (accepted, count_frame accepted s1) })"

section \<open>Invariant\<close>

definition arp_inv :: "net_state \<Rightarrow> bool" where
  "arp_inv s \<longleftrightarrow> length (n_arp_cache s) = ARP_CACHE_LIMIT \<and> n_arp_replace s < ARP_CACHE_LIMIT \<and>
     (\<forall>i < ARP_CACHE_LIMIT. \<forall>j < ARP_CACHE_LIMIT. ae_valid (n_arp_cache s ! i) \<longrightarrow> ae_valid (n_arp_cache s ! j) \<longrightarrow>
        ae_address (n_arp_cache s ! i) = ae_address (n_arp_cache s ! j) \<longrightarrow> i = j) \<and>
     ns_arp_entries (n_state s) = of_nat (count_if ae_valid (n_arp_cache s))"

definition net_inv :: "net_state \<Rightarrow> bool" where
  "net_inv s \<longleftrightarrow> arp_inv s \<and> n_data_length s \<le> TCP_RECEIVE_LIMIT \<and> n_http_length s \<le> HTTP_DOCUMENT_LIMIT"

lemma network_init_inv: "net_inv (network_init s)"
  by (simp add: network_init_def net_inv_def arp_inv_def arp_entry_zero_def count_if_def)

lemma arp_lookup_hit:
  assumes "arp_inv s" "i < ARP_CACHE_LIMIT" "arp_hit a (n_arp_cache s ! i)"
  shows "network_arp_lookup a s = Some (ae_mac (n_arp_cache s ! i))"
proof -
  have "first_index (arp_hit a) (n_arp_cache s) = Some i"
    using assms by (intro first_index_unique) (auto simp: arp_inv_def arp_hit_def)
  then show ?thesis by (simp add: network_arp_lookup_def)
qed

lemma learn_arp_inv:
  assumes i: "arp_inv s"
  shows "arp_inv (learn_arp a mac s)"
proof (cases "first_index (arp_hit a) (n_arp_cache s)")
  case None
  let ?r = "n_arp_replace s" and ?e = "\<lparr>ae_address = a, ae_mac = mac, ae_valid = True\<rparr>"
  have r: "?r < length (n_arp_cache s)" using i by (simp add: arp_inv_def)
  have n: "ae_valid (n_arp_cache s ! j) \<Longrightarrow> ae_address (n_arp_cache s ! j) \<noteq> a" if "j < ARP_CACHE_LIMIT" for j
    using first_index_nth_None [OF None] that i by (auto simp: arp_hit_def arp_inv_def)
  have c: "count_if ae_valid ((n_arp_cache s)[?r := ?e]) + (if ae_valid (n_arp_cache s ! ?r) then 1 else 0) =
      count_if ae_valid (n_arp_cache s) + 1"
    using count_if_update [OF r, of ae_valid ?e] by simp
  have "ae_address (n_arp_cache s ! j) = a \<Longrightarrow> ae_valid (n_arp_cache s ! j) \<Longrightarrow> j < ARP_CACHE_LIMIT \<Longrightarrow> False" for j using n by blast
  moreover have "ns_arp_entries (n_state (learn_arp a mac s)) = of_nat (count_if ae_valid ((n_arp_cache s)[?r := ?e]))"
    using i c None by (cases "ae_valid (n_arp_cache s ! ?r)") (auto simp: learn_arp_def Let_def arp_inv_def)
  ultimately show ?thesis
    using i None by (auto simp: learn_arp_def Let_def arp_inv_def nth_list_update)
next
  case (Some i')
  note f = first_index_SomeD [OF Some]
  then have "count_if ae_valid ((n_arp_cache s)[i' := (n_arp_cache s ! i')\<lparr>ae_mac := mac\<rparr>]) = count_if ae_valid (n_arp_cache s)"
    using count_if_update [of i' "n_arp_cache s" ae_valid "(n_arp_cache s ! i')\<lparr>ae_mac := mac\<rparr>"] by (simp split: if_splits)
  with i Some f show ?thesis by (auto simp: learn_arp_def arp_inv_def nth_list_update arp_hit_def)
qed

section \<open>The receive path stays inside the packet\<close>

lemma dhcp_option_some: "off + len \<le> length p \<Longrightarrow> \<exists>r'. dhcp_option p opt len off r = Some r'"
  by (auto simp: dhcp_option_def Let_def split: prod.splits)

lemma dhcp_options_some: "\<exists>r'. dhcp_options p off r = Some r'"
proof (induction p off r rule: dhcp_options.induct)
  case (1 p off r)
  show ?case
  proof (cases "off + 1 < length p \<and> p ! off \<noteq> 0 \<and> p ! off \<noteq> 255 \<and> unat (p ! (off + 1)) \<le> length p - (off + 2)")
    case True
    then have "off + 2 + unat (p ! (off + 1)) \<le> length p" by linarith
    then obtain r' where r': "dhcp_option p (p ! off) (unat (p ! (off + 1))) (off + 2) r = Some r'"
      using dhcp_option_some by blast
    with True 1(2) [of "p ! off" "p ! (off + 1)" "length p - (off + 2)" r'] show ?thesis
      by (subst dhcp_options.simps) simp
  next
    case False
    then show ?thesis using 1(1) [of 0] by (subst dhcp_options.simps) auto
  qed
qed

lemma dns_skip_name_some: "\<exists>n \<le> length p. dns_skip_name p off = Some n"
proof (induction p off rule: dns_skip_name.induct)
  case (1 p off)
  then show ?case by (subst dns_skip_name.simps) (auto simp: Suc_le_eq)
qed

lemma dns_questions_some: "\<exists>r. dns_questions p n off = Some r"
proof (induction n arbitrary: off)
  case (Suc n)
  with dns_skip_name_some [of p off] show ?case by (auto simp: not_less)
qed simp

lemma dns_answers_some: "\<exists>r. dns_answers p n off = Some r"
proof (induction n arbitrary: off)
  case (Suc n)
  obtain k where k: "k \<le> length p" "dns_skip_name p off = Some k" using dns_skip_name_some by blast
  with Suc show ?case by (cases "length p - k < 10") (auto simp: not_less)
qed simp

text \<open>
  A receive function is sound when it stays inside its packet, keeps the invariant, and leaves the device's data and the
  frame counters to its caller.
\<close>

definition device_part :: "net_state \<Rightarrow> network_snapshot" where
  "device_part s = (n_state s)\<lparr>ns_arp_entries := 0\<rparr>"

definition sound :: "net_state \<Rightarrow> received \<Rightarrow> bool" where
  "sound s r \<longleftrightarrow> (\<exists>ok s'. r = Some (ok, s') \<and> net_inv s' \<and> device_part s' = device_part s)"

lemma sound_same: "net_inv s \<Longrightarrow> sound s (Some (ok, s))"
  by (simp add: sound_def)

lemma soundI: "net_inv t \<Longrightarrow> device_part t = device_part s \<Longrightarrow> sound s (Some (ok, t))"
  unfolding sound_def by blast

lemma sound_if: "(b \<Longrightarrow> sound s x) \<Longrightarrow> (\<not> b \<Longrightarrow> sound s y) \<Longrightarrow> sound s (if b then x else y)"
  by simp

lemma sound_reads:
  "i < length p \<Longrightarrow> sound s (k1 (p ! i)) \<Longrightarrow> sound s (rd8 p i \<bind> k1)"
  "i + 1 < length p \<Longrightarrow> sound s (k2 (be16 (p ! i) (p ! (i + 1)))) \<Longrightarrow> sound s (read_be16 p i \<bind> k2)"
  "i + 3 < length p \<Longrightarrow> sound s (k3 (be32 (p ! i) (p ! (i + 1)) (p ! (i + 2)) (p ! (i + 3)))) \<Longrightarrow> sound s (read_be32 p i \<bind> k3)"
  "i + n \<le> length p \<Longrightarrow> sound s (k4 (take n (drop i p))) \<Longrightarrow> sound s (sub_packet p i n \<bind> k4)"
  by simp_all

lemmas sound_intros = sound_if sound_reads sound_same

lemma receive_arp_sound: "net_inv s \<Longrightarrow> sound s (receive_arp p s)"
proof -
  assume i: "net_inv s"
  have "net_inv (learn_arp a mac s)" for a mac
  proof -
    have "n_data_length (learn_arp a mac s) = n_data_length s" "n_http_length (learn_arp a mac s) = n_http_length s"
      by (simp_all add: learn_arp_def Let_def split: option.splits)
    with i learn_arp_inv show ?thesis by (simp add: net_inv_def)
  qed
  moreover have "device_part (learn_arp a mac s) = device_part s" for a mac
    by (simp add: learn_arp_def Let_def device_part_def split: option.splits)
  ultimately have "sound s (Some (True, learn_arp a mac s))" for a mac by (simp add: soundI)
  with i show ?thesis unfolding receive_arp_def by (intro sound_intros) (linarith | assumption)+
qed

lemma receive_dhcp_sound: "net_inv s \<Longrightarrow> sound s (receive_dhcp p s)"
proof -
  assume i: "net_inv s"
  have "\<exists>r. dhcp_options p 240 x = Some r" for x by (rule dhcp_options_some)
  then obtain f where f: "dhcp_options p 240 x = Some (f x)" for x by metis
  have "sound s (Some (True, s\<lparr>n_offer := a, n_offer_transaction := b, n_offer_valid := True\<rparr>))"
    "sound s (Some (True, s\<lparr>n_ack := a, n_ack_transaction := b, n_ack_valid := True\<rparr>))" for a b
    using i by (auto intro!: soundI simp: net_inv_def arp_inv_def device_part_def)
  with i show ?thesis
    unfolding receive_dhcp_def f Option.bind.bind_lunit
    by (intro sound_intros) (linarith | simp add: sound_same split: option.splits)+
qed

lemma receive_dns_sound: "net_inv s \<Longrightarrow> sound s (receive_dns p s)"
proof -
  assume i: "net_inv s"
  obtain f where f: "dns_questions p n off = Some (f n off)" for n off using dns_questions_some [of p] by metis
  obtain g where g: "dns_answers p n off = Some (g n off)" for n off using dns_answers_some [of p] by metis
  have "sound s (Some (True, s\<lparr>n_dns_answer := a, n_dns_transaction := b, n_dns_valid := True\<rparr>))" for a b
    using i by (auto intro!: soundI simp: net_inv_def arp_inv_def device_part_def)
  with i show ?thesis
    unfolding receive_dns_def f g by (intro sound_intros) (linarith | simp add: sound_same split: option.splits)+
qed

lemma receive_udp_sound: "net_inv s \<Longrightarrow> sound s (receive_udp p s)"
  unfolding receive_udp_def by (intro sound_intros receive_dhcp_sound receive_dns_sound) (linarith | assumption)+

lemma tcp_append_inv:
  "net_inv s \<Longrightarrow> net_inv (snd (tcp_append rp lp src q d fin s)) \<and> device_part (snd (tcp_append rp lp src q d fin s)) = device_part s"
  by (auto simp: tcp_append_def Let_def net_inv_def arp_inv_def device_part_def)

lemma receive_tcp_sound: "net_inv s \<Longrightarrow> sound s (receive_tcp p src dst s)"
proof -
  assume i: "net_inv s"
  have n: "net_inv t \<and> device_part t = device_part s \<Longrightarrow> sound s (Some (ok, t))" for ok t by (simp add: soundI)
  have f: "net_inv (tcp_note_fin rp lp src q n s) \<and> device_part (tcp_note_fin rp lp src q n s) = device_part s" for rp lp q n
    using i by (simp add: tcp_note_fin_def net_inv_def arp_inv_def device_part_def)
  have a: "net_inv t \<and> device_part t = device_part s \<Longrightarrow>
      net_inv (snd (if b then tcp_append rp lp src q d fin t else (True, t))) \<and>
      device_part (snd (if b then tcp_append rp lp src q d fin t else (True, t))) = device_part s" for b rp lp q d fin t
    using tcp_append_inv [of t rp lp src q d fin] by simp
  have h: "net_inv t \<and> device_part t = device_part s \<Longrightarrow>
      net_inv (t\<lparr>n_tcp_remote_port := rp, n_tcp_local_port := lp, n_syn_ack := sa, n_tcp_acknowledgment := ak, n_tcp_address := ad, n_tcp_valid := True\<rparr>) \<and>
      device_part (t\<lparr>n_tcp_remote_port := rp, n_tcp_local_port := lp, n_syn_ack := sa, n_tcp_acknowledgment := ak, n_tcp_address := ad, n_tcp_valid := True\<rparr>) =
        device_part s" for t rp lp sa ak ad
    by (simp add: net_inv_def arp_inv_def device_part_def)
  have t: "net_inv (if b then tcp_note_fin rp lp src q n s else s) \<and>
      device_part (if b then tcp_note_fin rp lp src q n s else s) = device_part s" for b rp lp q n
    using f i by simp
  show ?thesis
    unfolding receive_tcp_def Let_def case_prod_beta
    by (intro sound_if sound_reads) (rule sound_same [OF i] | (rule n, rule a, rule t) | (rule n, rule h, rule a, rule t) | force)+
qed

lemma receive_ipv4_sound: "net_inv s \<Longrightarrow> sound s (receive_ipv4 p s)"
  unfolding receive_ipv4_def Let_def by (intro sound_intros receive_udp_sound receive_tcp_sound) (linarith | assumption)+

section \<open>Receiving a frame\<close>

definition dns_answer_zero :: network_dns_answer where
  "dns_answer_zero = \<lparr>na_address = 0, na_ttl_seconds = 0\<rparr>"

definition syn_ack_zero :: network_tcp_syn_ack where
  "syn_ack_zero = \<lparr>sa_remote_sequence = 0, sa_receive_window = 0\<rparr>"

text \<open>The zeroed static variables, a machine with address 10.0.2.15 on them, and an ARP reply from 10.0.2.2 to it.\<close>

definition net_blank :: net_state where
  "net_blank = \<lparr>
     n_state = \<lparr>ns_link = NETWORK_LINK_NO_DEVICE, ns_mac = mac_zero, ns_ipv4_address = 0, ns_received_frames = 0,
       ns_transmitted_frames = 0, ns_dropped_frames = 0, ns_arp_entries = 0\<rparr>,
     n_arp_cache = replicate ARP_CACHE_LIMIT arp_entry_zero, n_arp_replace = 0,
     n_offer = dhcp_offer_zero, n_offer_transaction = 0, n_offer_valid = False,
     n_ack = dhcp_offer_zero, n_ack_transaction = 0, n_ack_valid = False,
     n_dns_answer = dns_answer_zero, n_dns_transaction = 0, n_dns_valid = False,
     n_syn_ack = syn_ack_zero, n_tcp_address = 0, n_tcp_acknowledgment = 0,
     n_tcp_local_port = 0, n_tcp_remote_port = 0, n_tcp_valid = False,
     n_data = (\<lambda>_. 0), n_data_length = 0, n_data_next_sequence = 0, n_data_address = 0, n_data_local_port = 0, n_data_remote_port = 0,
     n_fin = False, n_fin_address = 0, n_fin_next_sequence = 0, n_fin_local_port = 0, n_fin_remote_port = 0,
     n_http_document = (\<lambda>_. 0), n_http_length = 0, n_http_reads = 0,
     n_route = \<lparr>nr_gateway = 0, nr_dns = 0, nr_gateway_mac = mac_zero\<rparr>, n_route_valid = False\<rparr>"

definition net_example :: "u32 \<Rightarrow> net_state" where
  "net_example a = network_set_ipv4 a (network_set_link True (network_set_device [0x52, 0x54, 0, 0x12, 0x34, 0x56] (network_init net_blank)))"

definition arp_frame_example :: "u8 list" where
  "arp_frame_example = replicate 6 0xFF @ [0x52, 0x54, 0, 0xAB, 0xCD, 0xEF, 8, 6, 0, 1, 8, 0, 6, 4, 0, 2,
     0x52, 0x54, 0, 0xAB, 0xCD, 0xEF, 10, 0, 2, 2, 0x52, 0x54, 0, 0x12, 0x34, 0x56, 10, 0, 2, 15] @ replicate 18 0"

lemma net_example_inv: "net_inv (net_example a)"
  by (simp add: net_example_def network_set_ipv4_def network_set_link_def network_set_device_def network_init_def net_inv_def arp_inv_def
      arp_entry_zero_def count_if_def)

text \<open>
  Claim C5: the receive path is memory safe and total. Whatever bytes arrive, no function from the Ethernet header
  down to the DHCP options, the DNS names and the TCP data reads outside the part of the frame it was given or lets
  a difference of lengths wrap around; all loops end; the bounds of the ARP cache and the TCP buffer are kept, and the
  frame is counted exactly once, as received or as dropped.
\<close>

theorem receive_in_bounds:
  assumes "net_inv s"
  shows "\<exists>accepted s'. network_receive_ethernet frame s = Some (accepted, s') \<and> net_inv s' \<and>
    ns_received_frames (n_state s') = ns_received_frames (n_state s) + (if accepted then 1 else 0) \<and>
    ns_dropped_frames (n_state s') = ns_dropped_frames (n_state s) + (if accepted then 0 else 1)"
proof (cases "length frame < ETHERNET_MIN_FRAME_BYTES \<or> ns_link (n_state s) \<noteq> NETWORK_LINK_UP")
  case True
  then show ?thesis using assms
    by (intro exI [of _ False] exI [of _ "count_frame False s"])
      (auto simp: network_receive_ethernet_def count_frame_def net_inv_def arp_inv_def)
next
  case False
  let ?p = "drop 14 frame" and ?ty = "be16 (frame ! 12) (frame ! 13)"
  let ?r = "if ?ty = ETHER_TYPE_ARP then receive_arp ?p s else if ?ty = ETHER_TYPE_IPV4 then receive_ipv4 ?p s else Some (False, s)"
  have "sound s ?r" using assms by (intro sound_intros receive_arp_sound receive_ipv4_sound)
  then obtain accepted s1 where r: "?r = Some (accepted, s1)" and i: "net_inv s1" "device_part s1 = device_part s"
    unfolding sound_def by blast
  have f: "network_receive_ethernet frame s = Some (accepted, count_frame accepted s1)"
    using False r by (simp add: network_receive_ethernet_def)
  have d: "ns_received_frames (n_state s1) = ns_received_frames (n_state s)" "ns_dropped_frames (n_state s1) = ns_dropped_frames (n_state s)"
    using i(2) unfolding device_part_def by (metis network_snapshot.select_convs(4,6) network_snapshot.surjective network_snapshot.update_convs(7))+
  have "net_inv (count_frame accepted s1)" using i(1) by (auto simp: count_frame_def net_inv_def arp_inv_def)
  with f d show ?thesis by (auto simp: count_frame_def)
qed

theorem receive_in_bounds_witness:
  "\<exists>s'. network_receive_ethernet arp_frame_example (net_example 0x0A00020F) = Some (True, s') \<and> net_inv s' \<and>
     network_arp_lookup 0x0A000202 s' = Some [0x52, 0x54, 0, 0xAB, 0xCD, 0xEF]"
proof -
  have "map_option (\<lambda>(accepted, s'). (accepted, network_arp_lookup 0x0A000202 s')) (network_receive_ethernet arp_frame_example (net_example 0x0A00020F)) =
      Some (True, Some [0x52, 0x54, 0, 0xAB, 0xCD, 0xEF])"
    by code_simp
  with receive_in_bounds [OF net_example_inv, of arp_frame_example "0x0A00020F"] show ?thesis by auto
qed

end
