(* ===== verification/Net_Send.thy ===== *)
theory Net_Send
  imports Network
begin

text \<open>
  The sending half of \<open>src/src/network.c\<close>: the frames the kernel builds, and what callers read back of the pending answers.
  A builder takes the caller's frame buffer as a function from the index to the byte and returns the length (0 for a
  refusal), the buffer and the new state. The main theorem is that a data segment that is built is understood by the
  receive path of a peer: both checksums verify and exactly the data arrives.
\<close>

section \<open>Building frames\<close>

type_synonym built = "nat \<times> (nat \<Rightarrow> u8) \<times> net_state"

text \<open>
  The steps all builders of IPv4 frames share: the two Ethernet addresses, the type, and the IPv4 header with its
  checksum computed last. The frame is cleared before, so a field that is not written is zero.
\<close>

definition put_ipv4 :: "u8 list \<Rightarrow> u8 list \<Rightarrow> nat \<Rightarrow> u16 \<Rightarrow> u8 \<Rightarrow> u32 \<Rightarrow> u32 \<Rightarrow> (nat \<Rightarrow> u8) \<Rightarrow> (nat \<Rightarrow> u8)" where
  "put_ipv4 destination_mac source_mac ip_length ident protocol source destination m =
    (let m = mem_copy m 0 destination_mac;
         m = mem_copy m 6 source_mac;
         m = write_be16 12 ETHER_TYPE_IPV4 m;
         m = m(14 := 0x45);
         m = write_be16 16 (of_nat ip_length) m;
         m = write_be16 18 ident m;
         m = m(22 := 64, 23 := protocol);
         m = write_be32 26 source m;
         m = write_be32 30 destination m
     in write_be16 24 (network_ipv4_checksum (mem_read m 14 20)) m)"

definition put_udp :: "u16 \<Rightarrow> u16 \<Rightarrow> nat \<Rightarrow> (nat \<Rightarrow> u8) \<Rightarrow> (nat \<Rightarrow> u8)" where
  "put_udp source_port destination_port udp_length m =
     write_be16 38 (of_nat udp_length) (write_be16 36 destination_port (write_be16 34 source_port m))"

definition network_build_arp_request :: "(nat \<Rightarrow> u8) \<Rightarrow> nat \<Rightarrow> u32 \<Rightarrow> net_state \<Rightarrow> built" where
  "network_build_arp_request frame capacity target s =
    (if capacity < ETHERNET_MIN_FRAME_BYTES \<or> ns_link (n_state s) \<noteq> NETWORK_LINK_UP \<or> ns_ipv4_address (n_state s) = 0
     then (0, frame, s)
     else let mac = ns_mac (n_state s);
              m = mem_fill frame 0 ETHERNET_MIN_FRAME_BYTES 0;
              m = mem_copy (mem_fill m 0 6 0xFF) 6 mac;
              m = write_be16 12 ETHER_TYPE_ARP m;
              m = write_be16 16 ETHER_TYPE_IPV4 (write_be16 14 1 m);
              m = m(18 := 6, 19 := 4);
              m = write_be16 20 1 m;
              m = mem_copy m 22 mac;
              m = write_be32 38 target (write_be32 28 (ns_ipv4_address (n_state s)) m)
          in (ETHERNET_MIN_FRAME_BYTES, m, s))"

definition dhcp_start :: "net_state \<Rightarrow> nat \<Rightarrow> u16 \<Rightarrow> u32 \<Rightarrow> (nat \<Rightarrow> u8) \<Rightarrow> (nat \<Rightarrow> u8)" where
  "dhcp_start s dhcp_length ident transaction_id m =
    (let mac = ns_mac (n_state s);
         m = mem_fill m 0 (42 + dhcp_length) 0;
         m = put_ipv4 (replicate 6 0xFF) mac (28 + dhcp_length) ident IP_PROTOCOL_UDP 0 0xFFFFFFFF m;
         m = put_udp DHCP_CLIENT_PORT DHCP_SERVER_PORT (8 + dhcp_length) m;
         m = m(42 := 1, 43 := 1, 44 := 6);
         m = write_be32 46 transaction_id m;
         m = write_be16 52 0x8000 m;
         m = mem_copy m 70 mac
     in write_be32 278 0x63825363 m)"

definition network_build_dhcp_discover :: "(nat \<Rightarrow> u8) \<Rightarrow> nat \<Rightarrow> u32 \<Rightarrow> net_state \<Rightarrow> built" where
  "network_build_dhcp_discover frame capacity transaction_id s =
    (if capacity < 292 \<or> ns_link (n_state s) \<noteq> NETWORK_LINK_UP \<or> transaction_id = 0 then (0, frame, s)
     else (292, mem_copy (dhcp_start s 250 1 transaction_id frame) 282 [53, 1, 1, 55, 3, 1, 3, 6, 255], s\<lparr>n_offer_valid := False\<rparr>))"

definition network_build_dhcp_request :: "(nat \<Rightarrow> u8) \<Rightarrow> nat \<Rightarrow> u32 \<Rightarrow> u32 \<Rightarrow> u32 \<Rightarrow> net_state \<Rightarrow> built" where
  "network_build_dhcp_request frame capacity transaction_id requested server s =
    (if capacity < 303 \<or> ns_link (n_state s) \<noteq> NETWORK_LINK_UP \<or> transaction_id = 0 \<or> requested = 0 \<or> server = 0 then (0, frame, s)
     else let m = mem_copy (dhcp_start s 261 2 transaction_id frame) 282 [53, 1, 3, 50, 4];
              m = write_be32 287 requested m;
              m = mem_copy m 291 [54, 4];
              m = write_be32 293 server m
          in (303, mem_copy m 297 [55, 3, 1, 3, 6, 255], s\<lparr>n_ack_valid := False\<rparr>))"

text \<open>
  The labels of a host name, separated by dots, each behind its length; a dot at the end is skipped. The flag is
  false where the code returns 0 for an empty or too long label, with the labels written before it.
\<close>

function dns_encode :: "u8 list \<Rightarrow> u8 list \<times> bool" where
  "dns_encode name =
    (if name = [] then ([], True)
     else let label = takeWhile (\<lambda>c. c \<noteq> 46) name; rest = dropWhile (\<lambda>c. c \<noteq> 46) name in
       if label = [] \<or> length label > 63 then ([], False)
       else let (bytes, ok) = dns_encode (tl rest) in (of_nat (length label) # label @ bytes, ok))"
  by auto
termination
proof (relation "measure length")
  fix name :: "u8 list" and label rest
  assume "name \<noteq> []" and rest: "rest = dropWhile (\<lambda>c. c \<noteq> 46) name"
  then have "0 < length name" "length rest \<le> length name" by (simp_all add: length_dropWhile_le)
  then have "length rest - 1 < length name" by linarith
  then have "length (tl rest) < length name" by simp
  then show "(tl rest, name) \<in> measure length" by simp
qed simp

declare dns_encode.simps [simp del]

definition network_build_dns_query ::
  "(nat \<Rightarrow> u8) \<Rightarrow> nat \<Rightarrow> u8 list \<Rightarrow> u32 \<Rightarrow> u16 \<Rightarrow> u8 list \<Rightarrow> net_state \<Rightarrow> built" where
  "network_build_dns_query frame capacity destination_mac dns_address transaction_id hostname s =
    (let hostname_length = length hostname; dns_length = 12 + hostname_length + 2 + 4; frame_length = 42 + dns_length;
         st = n_state s in
     if ns_link st \<noteq> NETWORK_LINK_UP \<or> ns_ipv4_address st = 0 \<or> dns_address = 0 \<or> transaction_id = 0 \<or>
        hostname_length = 0 \<or> hostname_length > 253 \<or> capacity < frame_length
     then (0, frame, s)
     else let m = mem_fill frame 0 frame_length 0;
              m = put_ipv4 destination_mac (ns_mac st) (28 + dns_length) 3 IP_PROTOCOL_UDP (ns_ipv4_address st) dns_address m;
              m = put_udp DNS_CLIENT_PORT DNS_SERVER_PORT (8 + dns_length) m;
              m = write_be16 46 1 (write_be16 44 0x0100 (write_be16 42 transaction_id m))
          in case dns_encode hostname of
               (name, False) \<Rightarrow> (0, mem_copy m 54 name, s)
             | (name, True) \<Rightarrow>
                 (let m = mem_copy m 54 (name @ [0]);
                      m = write_be16 (54 + length name + 1) 1 m;
                      m = write_be16 (54 + length name + 3) 1 m
                  in (frame_length, m, s\<lparr>n_dns_valid := False\<rparr>)))"

text \<open>The TCP header; \<open>tcp\<close> is the region that is summed, its checksum field still zero.\<close>

definition put_tcp :: "u32 \<Rightarrow> u32 \<Rightarrow> u16 \<Rightarrow> u16 \<Rightarrow> u32 \<Rightarrow> u32 \<Rightarrow> u8 \<Rightarrow> u8 list \<Rightarrow> (nat \<Rightarrow> u8) \<Rightarrow> (nat \<Rightarrow> u8)" where
  "put_tcp source destination local_port remote_port sequence acknowledgment flags data m =
    (let m = write_be16 36 remote_port (write_be16 34 local_port m);
         m = write_be32 42 acknowledgment (write_be32 38 sequence m);
         m = m(46 := 0x50, 47 := flags);
         m = write_be16 48 16384 m;
         m = mem_copy m 54 data
     in write_be16 50 (transport_checksum source destination IP_PROTOCOL_TCP (mem_read m 34 (20 + length data))) m)"

definition build_tcp_frame ::
  "(nat \<Rightarrow> u8) \<Rightarrow> nat \<Rightarrow> u8 list \<Rightarrow> u32 \<Rightarrow> u16 \<Rightarrow> u16 \<Rightarrow> u32 \<Rightarrow> u32 \<Rightarrow> u8 \<Rightarrow> net_state \<Rightarrow> built" where
  "build_tcp_frame frame capacity destination_mac remote_address local_port remote_port sequence acknowledgment flags s =
    (let st = n_state s in
     if capacity < ETHERNET_MIN_FRAME_BYTES \<or> ns_link st \<noteq> NETWORK_LINK_UP \<or> ns_ipv4_address st = 0 \<or>
        remote_address = 0 \<or> local_port = 0 \<or> remote_port = 0
     then (0, frame, s)
     else let m = mem_fill frame 0 ETHERNET_MIN_FRAME_BYTES 0;
              m = put_ipv4 destination_mac (ns_mac st) 40 4 IP_PROTOCOL_TCP (ns_ipv4_address st) remote_address m
          in (ETHERNET_MIN_FRAME_BYTES,
              put_tcp (ns_ipv4_address st) remote_address local_port remote_port sequence acknowledgment flags [] m, s))"

definition network_build_tcp_syn where
  "network_build_tcp_syn frame capacity destination_mac remote_address local_port remote_port initial_sequence s =
     build_tcp_frame frame capacity destination_mac remote_address local_port remote_port initial_sequence 0 TCP_FLAG_SYN (s\<lparr>n_tcp_valid := False\<rparr>)"

definition network_build_tcp_ack where
  "network_build_tcp_ack frame capacity destination_mac remote_address local_port remote_port local_sequence remote_sequence s =
     build_tcp_frame frame capacity destination_mac remote_address local_port remote_port local_sequence remote_sequence TCP_FLAG_ACK s"

definition network_build_tcp_fin where
  "network_build_tcp_fin frame capacity destination_mac remote_address local_port remote_port local_sequence remote_sequence s =
     build_tcp_frame frame capacity destination_mac remote_address local_port remote_port local_sequence remote_sequence
       (TCP_FLAG_FIN OR TCP_FLAG_ACK) s"

definition network_build_tcp_data ::
  "(nat \<Rightarrow> u8) \<Rightarrow> nat \<Rightarrow> u8 list \<Rightarrow> u32 \<Rightarrow> u16 \<Rightarrow> u16 \<Rightarrow> u32 \<Rightarrow> u32 \<Rightarrow> u8 list \<Rightarrow> net_state \<Rightarrow> built" where
  "network_build_tcp_data frame capacity destination_mac remote_address local_port remote_port local_sequence remote_sequence data s =
    (let st = n_state s; frame_length = 54 + length data in
     if length data = 0 \<or> length data > 1400 \<or> capacity < frame_length \<or> ns_link st \<noteq> NETWORK_LINK_UP \<or>
        ns_ipv4_address st = 0 \<or> remote_address = 0 \<or> local_port = 0 \<or> remote_port = 0
     then (0, frame, s)
     else let m = mem_fill frame 0 frame_length 0;
              m = put_ipv4 destination_mac (ns_mac st) (40 + length data) 5 IP_PROTOCOL_TCP (ns_ipv4_address st) remote_address m
          in (frame_length,
              put_tcp (ns_ipv4_address st) remote_address local_port remote_port local_sequence remote_sequence
                (TCP_FLAG_PSH OR TCP_FLAG_ACK) data m,
              s\<lparr>n_data_length := 0, n_fin := False\<rparr>))"

section \<open>Reading the answers\<close>

definition network_dhcp_offer_get :: "u32 \<Rightarrow> net_state \<Rightarrow> network_dhcp_offer option" where
  "network_dhcp_offer_get transaction_id s =
     (if \<not> n_offer_valid s \<or> n_offer_transaction s \<noteq> transaction_id then None else Some (n_offer s))"

definition network_dhcp_ack :: "u32 \<Rightarrow> net_state \<Rightarrow> network_dhcp_offer option" where
  "network_dhcp_ack transaction_id s =
     (if \<not> n_ack_valid s \<or> n_ack_transaction s \<noteq> transaction_id then None else Some (n_ack s))"

definition network_dns_answer_get :: "u16 \<Rightarrow> net_state \<Rightarrow> network_dns_answer option" where
  "network_dns_answer_get transaction_id s =
     (if \<not> n_dns_valid s \<or> n_dns_transaction s \<noteq> transaction_id then None else Some (n_dns_answer s))"

definition network_tcp_syn_ack_get :: "u32 \<Rightarrow> u16 \<Rightarrow> u16 \<Rightarrow> u32 \<Rightarrow> net_state \<Rightarrow> network_tcp_syn_ack option" where
  "network_tcp_syn_ack_get remote_address local_port remote_port initial_sequence s =
     (if \<not> n_tcp_valid s \<or> n_tcp_address s \<noteq> remote_address \<or> n_tcp_local_port s \<noteq> local_port \<or>
         n_tcp_remote_port s \<noteq> remote_port \<or> n_tcp_acknowledgment s \<noteq> initial_sequence + 1
      then None else Some (n_syn_ack s))"

definition network_tcp_remote_fin :: "u32 \<Rightarrow> u16 \<Rightarrow> u16 \<Rightarrow> net_state \<Rightarrow> u32 option" where
  "network_tcp_remote_fin remote_address local_port remote_port s =
     (if \<not> n_fin s \<or> n_fin_address s \<noteq> remote_address \<or> n_fin_local_port s \<noteq> local_port \<or> n_fin_remote_port s \<noteq> remote_port
      then None else Some (n_fin_next_sequence s))"

text \<open>The data with the next sequence number; \<open>None\<close> for the result 0.\<close>

definition network_tcp_receive :: "u32 \<Rightarrow> u16 \<Rightarrow> u16 \<Rightarrow> nat \<Rightarrow> net_state \<Rightarrow> (u8 list \<times> u32) option \<times> net_state" where
  "network_tcp_receive remote_address local_port remote_port capacity s =
     (if n_data_length s = 0 \<or> n_data_address s \<noteq> remote_address \<or> n_data_local_port s \<noteq> local_port \<or>
         n_data_remote_port s \<noteq> remote_port
      then (None, s)
      else (Some (mem_read (n_data s) 0 (min (n_data_length s) capacity), n_data_next_sequence s), s\<lparr>n_data_length := 0\<rparr>))"

text \<open>The body behind the first empty line; \<open>None\<close> when the loop finds none.\<close>

fun http_body :: "u8 list \<Rightarrow> u8 list option" where
  "http_body (a # b # c # d # bs) =
     (if a = 13 \<and> b = 10 \<and> c = 13 \<and> d = 10 then Some bs else http_body (b # c # d # bs))"
| "http_body _ = None"

definition network_publish_http_response :: "u8 list \<Rightarrow> net_state \<Rightarrow> net_state" where
  "network_publish_http_response response s =
     (case http_body response of
        None \<Rightarrow> s\<lparr>n_http_length := 0\<rparr>
      | Some body \<Rightarrow>
          (if length body \<le> 3 then s\<lparr>n_http_length := 0\<rparr>
           else s\<lparr>n_http_document := mem_copy (n_http_document s) 0 (take HTTP_DOCUMENT_LIMIT body),
                  n_http_length := min (length body) HTTP_DOCUMENT_LIMIT\<rparr>))"

definition network_http_response :: "nat \<Rightarrow> net_state \<Rightarrow> u8 list \<times> net_state" where
  "network_http_response capacity s =
     (if capacity = 0 \<or> n_http_length s = 0 then ([], s)
      else (mem_read (n_http_document s) 0 (min (n_http_length s) capacity), s\<lparr>n_http_reads := n_http_reads s + 1\<rparr>))"

definition network_set_route :: "u32 \<Rightarrow> u32 \<Rightarrow> u8 list \<Rightarrow> net_state \<Rightarrow> net_state" where
  "network_set_route gateway dns gateway_mac s =
     (if gateway = 0 \<or> dns = 0 then s\<lparr>n_route_valid := False\<rparr>
      else s\<lparr>n_route := \<lparr>nr_gateway = gateway, nr_dns = dns, nr_gateway_mac = gateway_mac\<rparr>, n_route_valid := True\<rparr>)"

definition network_route_get :: "net_state \<Rightarrow> network_route option" where
  "network_route_get s = (if n_route_valid s then Some (n_route s) else None)"

section \<open>A built segment is received\<close>

lemma be16_0: "be16 0 0 = 0"
  by (simp add: be16_def)

lemma unat_of_nat_u16: "n < 65536 \<Longrightarrow> unat (of_nat n :: u16) = n"
  by (simp add: unat_of_nat take_bit_nat_eq_self)

lemma drop_mem_read [simp]: "drop i (mem_read m a n) = mem_read m (a + i) (n - i)"
  by (rule nth_equalityI) (auto simp: add.assoc)

lemma take_mem_read [simp]: "take i (mem_read m a n) = mem_read m a (min i n)"
  by (rule nth_equalityI) auto

lemma mem_read_write_be16:
  assumes "a \<le> off" "off + 1 < a + n"
  shows "mem_read (write_be16 off v m) a n =
    (mem_read m a n)[off - a := ucast (drop_bit 8 v), (off - a) + 1 := ucast v]"
  using assms by (intro nth_equalityI) (auto simp: write_be16_apply nth_list_update)

lemma mem_read_write_be16_disjoint: "off + 1 < a \<or> a + n \<le> off \<Longrightarrow> mem_read (write_be16 off v m) a n = mem_read m a n"
  by (rule mem_read_cong) (auto simp: write_be16_apply)

text \<open>The IPv4 header of a frame: what a receiver checks of it.\<close>

definition ipv4_ok :: "(nat \<Rightarrow> u8) \<Rightarrow> nat \<Rightarrow> u32 \<Rightarrow> u32 \<Rightarrow> bool" where
  "ipv4_ok m ip_length source destination \<longleftrightarrow>
     m 12 = 8 \<and> m 13 = 0 \<and> m 14 = 0x45 \<and> be16 (m 16) (m 17) = of_nat ip_length \<and>
     be16 (m 20) (m 21) = 0 \<and> m 23 = IP_PROTOCOL_TCP \<and> be32 (m 26) (m 27) (m 28) (m 29) = source \<and>
     be32 (m 30) (m 31) (m 32) (m 33) = destination \<and> network_ipv4_checksum (mem_read m 14 20) = 0"

lemma receive_tcp_frame:
  assumes "ipv4_ok m (20 + n) source destination" "60 \<le> len" "34 + n \<le> len" "n < 60000" "ns_link (n_state t) = NETWORK_LINK_UP"
  shows "network_receive_ethernet (mem_read m 0 len) t =
    map_option (\<lambda>(a, s1). (a, count_frame a s1)) (receive_tcp (mem_read m 34 n) source destination t)"
proof -
  have u: "unat (20 + word_of_nat n :: u16) = 20 + n" using assms(4) unat_of_nat_u16 [of "20 + n"] by simp
  have ty: "be16 8 0 = 0x0800" by (simp add: be16_def push_bit_eq_mult)
  have z: "(0 :: u16) AND 0x3FFF = 0" by simp
  have ip: "receive_ipv4 (mem_read m 14 (len - 14)) t = receive_tcp (mem_read m 34 n) source destination t"
  proof -
    have "\<not> len - 14 < 20 + n" using assms(3) by simp
    then show ?thesis using assms(1-4) u by (simp add: receive_ipv4_def ipv4_ok_def Let_def)
  qed
  show ?thesis
    using assms(1-3,5) ty ip
    by (simp add: network_receive_ethernet_def ipv4_ok_def option.map_comp split_def) (simp add: map_conv_bind_option split_def comp_def)
qed

lemma put_ipv4_ok:
  assumes "length destination_mac = 6" "length source_mac = 6" "ip_length < 60000" "m 20 = 0" "m 21 = 0" "m 24 = 0" "m 25 = 0"
  shows "ipv4_ok (put_ipv4 destination_mac source_mac ip_length ident IP_PROTOCOL_TCP source destination m) ip_length source destination"
proof -
  define m1 where "m1 = mem_copy (mem_copy m 0 destination_mac) 6 source_mac"
  define m2 where "m2 = (write_be16 18 ident (write_be16 16 (of_nat ip_length) ((write_be16 12 ETHER_TYPE_IPV4 m1)(14 := 0x45))))
    (22 := 64, 23 := IP_PROTOCOL_TCP)"
  define m3 where "m3 = write_be32 30 destination (write_be32 26 source m2)"
  define v where "v = network_ipv4_checksum (mem_read m3 14 20)"
  have p: "put_ipv4 destination_mac source_mac ip_length ident IP_PROTOCOL_TCP source destination m = write_be16 24 v m3"
    by (simp add: put_ipv4_def Let_def m1_def m2_def m3_def v_def)
  have c: "i \<ge> 12 \<Longrightarrow> m1 i = m i" for i using assms(1,2) by (simp add: m1_def mem_copy_apply)
  have "m3 24 = 0" "m3 25 = 0" using assms by (simp_all add: m3_def m2_def write_be16_apply write_be32_apply c)
  then have "network_ipv4_checksum (mem_read (write_be16 24 v m3) 14 20) = 0"
    using ipv4_checksum_carried [of "mem_read m3 14 20" v] by (subst mem_read_write_be16) (simp_all add: v_def)
  then show ?thesis
    using assms unfolding p ipv4_ok_def by (simp add: write_be16_apply write_be32_apply m3_def m2_def c be16_0)
qed

text \<open>The TCP segment of a frame.\<close>

definition tcp_ok :: "(nat \<Rightarrow> u8) \<Rightarrow> u32 \<Rightarrow> u32 \<Rightarrow> u16 \<Rightarrow> u16 \<Rightarrow> u32 \<Rightarrow> u8 \<Rightarrow> u8 list \<Rightarrow> bool" where
  "tcp_ok m source destination local_port remote_port sequence flags data \<longleftrightarrow>
     transport_checksum source destination IP_PROTOCOL_TCP (mem_read m 34 (20 + length data)) = 0 \<and>
     be16 (m 34) (m 35) = local_port \<and> be16 (m 36) (m 37) = remote_port \<and> be32 (m 38) (m 39) (m 40) (m 41) = sequence \<and>
     m 46 = 0x50 \<and> m 47 = flags \<and> mem_read m 54 (length data) = data"

lemma put_tcp_ok:
  assumes "length data \<le> 1400" "m 50 = 0" "m 51 = 0"
  shows "tcp_ok (put_tcp source destination local_port remote_port sequence acknowledgment flags data m)
    source destination local_port remote_port sequence flags data"
proof -
  define m1 where "m1 = write_be16 48 16384 ((write_be32 42 acknowledgment (write_be32 38 sequence
    (write_be16 36 remote_port (write_be16 34 local_port m))))(46 := 0x50, 47 := flags))"
  define m2 where "m2 = mem_copy m1 54 data"
  define v where "v = transport_checksum source destination IP_PROTOCOL_TCP (mem_read m2 34 (20 + length data))"
  have p: "put_tcp source destination local_port remote_port sequence acknowledgment flags data m = write_be16 50 v m2"
    by (simp add: put_tcp_def Let_def m1_def m2_def v_def)
  have "m2 50 = 0" "m2 51 = 0" using assms(2,3) by (simp_all add: m2_def m1_def mem_copy_apply write_be16_apply write_be32_apply)
  then have "transport_checksum source destination IP_PROTOCOL_TCP (mem_read (write_be16 50 v m2) 34 (20 + length data)) = 0"
    using transport_checksum_carried [of "mem_read m2 34 (20 + length data)" v] assms(1) by (subst mem_read_write_be16) (simp_all add: v_def)
  moreover have "mem_read (write_be16 50 v m2) 54 (length data) = data"
    by (simp add: mem_read_write_be16_disjoint m2_def mem_read_copy_same)
  ultimately show ?thesis
    unfolding p tcp_ok_def by (simp add: write_be16_apply write_be32_apply mem_copy_apply m2_def m1_def)
qed

lemma put_tcp_ipv4: "ipv4_ok m n source destination \<Longrightarrow>
  ipv4_ok (put_tcp source' destination' local_port remote_port sequence acknowledgment flags data m) n source destination"
proof -
  have "put_tcp source' destination' local_port remote_port sequence acknowledgment flags data m i = m i" if "i < 34" for i
    using that by (simp add: put_tcp_def Let_def write_be16_apply write_be32_apply mem_copy_apply)
  moreover from this have "mem_read (put_tcp source' destination' local_port remote_port sequence acknowledgment flags data m) 14 20 = mem_read m 14 20"
    by (intro mem_read_cong) simp
  ultimately show "ipv4_ok m n source destination \<Longrightarrow> ?thesis" by (simp add: ipv4_ok_def)
qed

text \<open>What \<open>receive_tcp\<close> does with a sound segment: the FIN is noted, and data appended.\<close>

lemma receive_tcp_ok:
  assumes "tcp_ok m source destination local_port remote_port sequence flags data"
    and "flags AND (TCP_FLAG_SYN OR TCP_FLAG_ACK) \<noteq> (TCP_FLAG_SYN OR TCP_FLAG_ACK)"
  shows "receive_tcp (mem_read m 34 (20 + length data)) source destination t =
    (let fin = flags AND TCP_FLAG_FIN \<noteq> 0;
         t1 = (if fin then tcp_note_fin local_port remote_port source sequence (length data) t else t)
     in Some (if data \<noteq> [] then tcp_append local_port remote_port source sequence data fin t1 else (True, t1)))"
proof -
  have "unat (drop_bit 4 (0x50 :: u8)) = 5" by simp
  then show ?thesis
    using assms unfolding receive_tcp_def tcp_ok_def by (simp add: Let_def case_prod_beta prod_eq_iff)
qed

lemma build_tcp_data_ok:
  assumes "network_build_tcp_data frame capacity destination_mac remote_address local_port remote_port sequence acknowledgment data s = (len, m, s')"
    and "len \<noteq> 0" "length destination_mac = 6" "length (ns_mac (n_state s)) = 6"
  shows "len = 54 + length data \<and> 0 < length data \<and> length data \<le> 1400 \<and> len \<le> capacity \<and>
    ipv4_ok m (40 + length data) (ns_ipv4_address (n_state s)) remote_address \<and>
    tcp_ok m (ns_ipv4_address (n_state s)) remote_address local_port remote_port sequence (TCP_FLAG_PSH OR TCP_FLAG_ACK) data"
proof -
  let ?st = "n_state s" and ?n = "length data"
  define m1 where "m1 = put_ipv4 destination_mac (ns_mac ?st) (40 + ?n) 5 IP_PROTOCOL_TCP (ns_ipv4_address ?st) remote_address (mem_fill frame 0 (54 + ?n) 0)"
  have g: "0 < ?n" "?n \<le> 1400" "54 + ?n \<le> capacity" "len = 54 + ?n"
    "m = put_tcp (ns_ipv4_address ?st) remote_address local_port remote_port sequence acknowledgment (TCP_FLAG_PSH OR TCP_FLAG_ACK) data m1"
    using assms(1,2) by (auto simp: network_build_tcp_data_def Let_def m1_def split: if_splits)
  have "ipv4_ok m1 (40 + ?n) (ns_ipv4_address ?st) remote_address"
    unfolding m1_def using assms(3,4) g(2) by (intro put_ipv4_ok) (simp_all add: mem_fill_apply)
  moreover have "m1 50 = 0" "m1 51 = 0"
    using assms(3,4) by (simp_all add: m1_def put_ipv4_def Let_def write_be16_apply write_be32_apply mem_copy_apply mem_fill_apply)
  ultimately show ?thesis using g put_tcp_ok [OF g(2)] put_tcp_ipv4 by simp
qed



end
