(* ===== verification/Net_Stream.thy ===== *)
theory Net_Stream
  imports Net_Send
begin

text \<open>
  What the receive path of \<open>src/src/network.c\<close> delivers over time: the TCP data handed to a reader is a contiguous piece of
  the byte stream of its connection whatever frames arrive in which order, host names are encoded as the parser reads
  them, and the body of an HTTP answer is published as it is.
\<close>

section \<open>Streams\<close>

text \<open>
  A connection is named by the remote address and the two ports. \<open>streams\<close> gives for each the first sequence number
  of its data and all bytes the remote side ever sends on it.
\<close>

type_synonym connection = "u32 \<times> u16 \<times> u16"
type_synonym streams = "connection \<Rightarrow> u32 \<times> u8 list"

definition streams_ok :: "streams \<Rightarrow> bool" where
  "streams_ok st \<longleftrightarrow> (\<forall>c. length (snd (st c)) < 4294967295)"

text \<open>A segment is honest when its data is the piece of the stream its sequence number says, and a FIN ends the stream.\<close>

definition honest :: "streams \<Rightarrow> connection \<Rightarrow> u32 \<Rightarrow> u8 list \<Rightarrow> bool \<Rightarrow> bool" where
  "honest st c sequence data fin \<longleftrightarrow> (\<exists>k. sequence = fst (st c) + of_nat k \<and> k + length data \<le> length (snd (st c)) \<and>
     data = take (length data) (drop k (snd (st c))) \<and> (fin \<longrightarrow> k + length data = length (snd (st c))))"

definition honest_packet :: "streams \<Rightarrow> u8 list \<Rightarrow> u32 \<Rightarrow> bool" where
  "honest_packet st p source \<longleftrightarrow>
     (let h = unat (drop_bit 4 (p ! 12)) * 4 in
      length p < 20 \<or> h > length p \<or>
      honest st (source, be16 (p ! 0) (p ! 1), be16 (p ! 2) (p ! 3)) (be32 (p ! 4) (p ! 5) (p ! 6) (p ! 7)) (drop h p)
        (p ! 13 AND TCP_FLAG_FIN \<noteq> 0))"

text \<open>The TCP packet an Ethernet frame carries, as the receive path cuts it out.\<close>

definition honest_frame :: "streams \<Rightarrow> u8 list \<Rightarrow> bool" where
  "honest_frame st frame \<longleftrightarrow>
     (let p = drop 14 frame; h = unat (p ! 0 AND 0x0F) * 4; total = unat (be16 (p ! 2) (p ! 3)) in
      be16 (frame ! 12) (frame ! 13) = ETHER_TYPE_IPV4 \<longrightarrow> p ! 9 = IP_PROTOCOL_TCP \<longrightarrow>
      honest_packet st (take (total - h) (drop h p)) (be32 (p ! 12) (p ! 13) (p ! 14) (p ! 15)))"

section \<open>The buffer holds a piece of the stream\<close>

definition pending_piece :: "streams \<Rightarrow> net_state \<Rightarrow> nat \<Rightarrow> bool" where
  "pending_piece st s k \<longleftrightarrow>
     (let (isn, bytes) = st (n_data_address s, n_data_remote_port s, n_data_local_port s); n = n_data_length s in
      k + n \<le> length bytes \<and> mem_read (n_data s) 0 n = take n (drop k bytes) \<and>
      (n_data_next_sequence s = isn + of_nat (k + n) \<or>
       n_data_next_sequence s = isn + of_nat (k + n + 1) \<and> k + n = length bytes))"

definition stream_inv :: "streams \<Rightarrow> net_state \<Rightarrow> bool" where
  "stream_inv st s \<longleftrightarrow> n_data_length s = 0 \<or> (\<exists>k. pending_piece st s k)"

lemma mem_read_append: "mem_read m off (a + b) = mem_read m off a @ mem_read m (off + a) b"
  by (rule nth_equalityI) (auto simp: nth_append)

lemma take_drop_append: "take a (drop k xs) @ take b (drop (k + a) xs) = take (a + b) (drop k xs)"
  by (metis add.commute drop_drop take_add)

lemma same_offset:
  assumes "i + of_nat a = i + (of_nat b :: u32)" "a < 4294967296" "b < 4294967296"
  shows "a = b"
  using assms of_nat_inj_u32 by simp

lemma tcp_append_nonempty:
  assumes "n_data_length s \<noteq> 0"
  shows "tcp_append rp lp source sequence data fin s =
    (if n_data_address s \<noteq> source \<or> n_data_remote_port s \<noteq> rp \<or> n_data_local_port s \<noteq> lp \<or>
        n_data_next_sequence s \<noteq> sequence \<or> length data > TCP_RECEIVE_LIMIT - n_data_length s
     then (False, s)
     else (True, s\<lparr>n_data := mem_copy (n_data s) (n_data_length s) data,
             n_data_length := n_data_length s + length data,
             n_data_next_sequence := n_data_next_sequence s + of_nat (length data) + (if fin then 1 else 0)\<rparr>))"
  unfolding tcp_append_def Let_def by (simp only: assms if_False)

lemma guarded:
  "fst (if G then (False, a) else (True, b)) \<Longrightarrow> \<not> G \<and> snd (if G then (False, a) else (True, b)) = b"
  "\<not> fst (if G then (False, a) else (True, b)) \<Longrightarrow> snd (if G then (False, a) else (True, b)) = a"
  by (cases G; simp)+

lemma tcp_append_accepted:
  assumes "n_data_length s \<noteq> 0" "fst (tcp_append rp lp source sequence data fin s)"
  shows "n_data_address s = source \<and> n_data_remote_port s = rp \<and> n_data_local_port s = lp \<and> n_data_next_sequence s = sequence"
    and "snd (tcp_append rp lp source sequence data fin s) = s\<lparr>n_data := mem_copy (n_data s) (n_data_length s) data,
      n_data_length := n_data_length s + length data,
      n_data_next_sequence := n_data_next_sequence s + of_nat (length data) + (if fin then 1 else 0)\<rparr>"
  using guarded(1) [OF assms(2) [unfolded tcp_append_nonempty [OF assms(1)]]]
  unfolding tcp_append_nonempty [OF assms(1)] by blast+

lemma tcp_append_rejected:
  "n_data_length s \<noteq> 0 \<Longrightarrow> \<not> fst (tcp_append rp lp source sequence data fin s) \<Longrightarrow> snd (tcp_append rp lp source sequence data fin s) = s"
  unfolding tcp_append_nonempty by (rule guarded(2))

lemma tcp_append_stream:
  assumes st: "streams_ok st" and inv: "stream_inv st s" and h: "honest st (source, remote_port, local_port) sequence data fin" and d: "data \<noteq> []"
  shows "stream_inv st (snd (tcp_append remote_port local_port source sequence data fin s))"
proof -
  obtain isn bytes where c: "st (source, remote_port, local_port) = (isn, bytes)" by fastforce
  with h obtain j where j: "sequence = isn + of_nat j" "j + length data \<le> length bytes" "data = take (length data) (drop j bytes)"
    "fin \<Longrightarrow> j + length data = length bytes"
    by (auto simp: honest_def)
  have len: "length bytes < 4294967295" using st c unfolding streams_ok_def by (metis snd_conv)
  show ?thesis
  proof (cases "n_data_length s = 0")
    case True
    have "pending_piece st (snd (tcp_append remote_port local_port source sequence data fin s)) j \<or>
      n_data_length (snd (tcp_append remote_port local_port source sequence data fin s)) = 0"
      using True j c by (auto simp: tcp_append_def Let_def pending_piece_def mem_read_copy_same)
    then show ?thesis by (auto simp: stream_inv_def)
  next
    case False
    let ?r = "tcp_append remote_port local_port source sequence data fin s" and ?n = "n_data_length s"
    from False inv obtain k where k: "pending_piece st s k" by (auto simp: stream_inv_def)
    show ?thesis
    proof (cases "fst ?r")
      case True
      then have g: "n_data_address s = source" "n_data_remote_port s = remote_port" "n_data_local_port s = local_port"
        "n_data_next_sequence s = sequence"
        using tcp_append_accepted(1) [OF False] by blast+
      note r = tcp_append_accepted(2) [OF False True]
      have p: "k + ?n \<le> length bytes" "mem_read (n_data s) 0 ?n = take ?n (drop k bytes)"
        "sequence = isn + of_nat (k + ?n) \<or> sequence = isn + of_nat (k + ?n + 1) \<and> k + ?n = length bytes"
        using k g c by (auto simp: pending_piece_def Let_def)
      have "0 < length data" using d by simp
      have "j = k + ?n"
        using p(3)
      proof
        assume a: "sequence = isn + of_nat (k + ?n)"
        show ?thesis by (rule same_offset [OF trans [OF j(1) [symmetric] a]]) (use j(2) p(1) len in linarith)+
      next
        assume a: "sequence = isn + of_nat (k + ?n + 1) \<and> k + ?n = length bytes"
        have "j = k + ?n + 1"
          by (rule same_offset [OF trans [OF j(1) [symmetric] conjunct1 [OF a]]]) (use j(2) a len in linarith)+
        with a j(2) \<open>0 < length data\<close> show ?thesis by simp
      qed
      moreover have "mem_read (mem_copy (n_data s) ?n data) 0 (?n + length data) = take (?n + length data) (drop k bytes)"
        using p(2) j(3) \<open>j = k + ?n\<close>
        by (simp add: mem_read_append mem_read_copy_disjoint mem_read_copy_same take_drop_append [symmetric])
      ultimately have "pending_piece st (snd ?r) k"
        using j g c unfolding r pending_piece_def by (auto simp: Let_def algebra_simps)
      then show ?thesis by (auto simp: stream_inv_def)
    next
      case False': False
      then have "snd ?r = s" by (rule tcp_append_rejected [OF False])
      with inv show ?thesis by simp
    qed
  qed
qed

section \<open>Frames\<close>

text \<open>\<open>leads_to P r\<close>: if the receive function has a value, \<open>P\<close> holds of the new state.\<close>

definition leads_to :: "(net_state \<Rightarrow> bool) \<Rightarrow> received \<Rightarrow> bool" where
  "leads_to P r \<longleftrightarrow> (\<forall>ok s'. r = Some (ok, s') \<longrightarrow> P s')"

lemma leads_to_some: "P t \<Longrightarrow> leads_to P (Some (ok, t))"
  by (simp add: leads_to_def)

lemma leads_to_if: "(b \<Longrightarrow> leads_to P x) \<Longrightarrow> (\<not> b \<Longrightarrow> leads_to P y) \<Longrightarrow> leads_to P (if b then x else y)"
  by simp

lemma leads_to_bind: "(\<And>x. m = Some x \<Longrightarrow> leads_to P (k x)) \<Longrightarrow> leads_to P (m \<bind> k)"
  by (cases m) (auto simp: leads_to_def)

lemma leads_to_case: "(x = None \<Longrightarrow> leads_to P a) \<Longrightarrow> (\<And>y. x = Some y \<Longrightarrow> leads_to P (b y)) \<Longrightarrow> leads_to P (case_option a b x)"
  by (cases x) auto

lemma leads_to_pair: "leads_to P (k (fst x) (snd x)) \<Longrightarrow> leads_to P (case_prod k x)"
  by (simp add: case_prod_beta)

lemmas leads_to_intros = leads_to_if leads_to_bind leads_to_case leads_to_pair leads_to_some

definition data_part where
  "data_part s = (n_data s, n_data_length s, n_data_next_sequence s, n_data_address s, n_data_local_port s, n_data_remote_port s)"

lemma stream_inv_data: "data_part s' = data_part s \<Longrightarrow> stream_inv st s \<Longrightarrow> stream_inv st s'"
  by (simp add: data_part_def stream_inv_def pending_piece_def)

lemma stream_inv_more:
  "stream_inv st (s\<lparr>n_offer := a, n_offer_transaction := b, n_offer_valid := v\<rparr>) = stream_inv st s"
  "stream_inv st (s\<lparr>n_ack := a, n_ack_transaction := b, n_ack_valid := v\<rparr>) = stream_inv st s"
  "stream_inv st (s\<lparr>n_dns_answer := c, n_dns_transaction := d, n_dns_valid := v\<rparr>) = stream_inv st s"
  "stream_inv st (s\<lparr>n_tcp_remote_port := rp, n_tcp_local_port := lp, n_syn_ack := sa, n_tcp_acknowledgment := ak, n_tcp_address := ad, n_tcp_valid := v\<rparr>) = stream_inv st s"
  "stream_inv st (tcp_note_fin rp lp src q n s) = stream_inv st s"
  "stream_inv st (learn_arp ad mac s) = stream_inv st s"
  "stream_inv st (count_frame ok s) = stream_inv st s"
  by (simp_all add: stream_inv_def pending_piece_def tcp_note_fin_def learn_arp_def Let_def count_frame_def split: option.splits)

lemma receive_others_stream:
  assumes "stream_inv st s"
  shows "leads_to (stream_inv st) (receive_arp p s)" "leads_to (stream_inv st) (receive_udp p s)"
proof -
  have n: "leads_to (stream_inv st) (Some (ok, s))" for ok using assms by (rule leads_to_some)
  show "leads_to (stream_inv st) (receive_arp p s)"
    unfolding receive_arp_def by (intro leads_to_intros) (simp_all add: assms stream_inv_more)
  have d: "leads_to (stream_inv st) (receive_dhcp q s)" for q
    unfolding receive_dhcp_def by (intro leads_to_intros) (simp_all add: assms stream_inv_more)
  have e: "leads_to (stream_inv st) (receive_dns q s)" for q
    unfolding receive_dns_def by (intro leads_to_intros) (simp_all add: assms stream_inv_more)
  show "leads_to (stream_inv st) (receive_udp p s)"
    unfolding receive_udp_def by (intro leads_to_if leads_to_bind d e n)
qed

lemma receive_tcp_stream:
  assumes st: "streams_ok st" and inv: "stream_inv st s" and h: "honest_packet st p source"
  shows "leads_to (stream_inv st) (receive_tcp p source destination s)"
proof (cases "length p < 20 \<or> unat (drop_bit 4 (p ! 12)) * 4 > length p")
  case True
  then have "length p < 20 \<or> rd8 p 12 = Some (p ! 12)" by (cases "length p < 20") auto
  with True inv show ?thesis by (auto simp: receive_tcp_def Let_def leads_to_def split: if_splits)
next
  case False
  let ?h = "unat (drop_bit 4 (p ! 12)) * 4" and ?fin = "p ! 13 AND TCP_FLAG_FIN \<noteq> 0"
    and ?c = "(source, be16 (p ! 0) (p ! 1), be16 (p ! 2) (p ! 3))" and ?q = "be32 (p ! 4) (p ! 5) (p ! 6) (p ! 7)"
  have hp: "honest st ?c ?q (drop ?h p) ?fin" using h False by (simp add: honest_packet_def Let_def)
  define s1 where "s1 = (if ?fin then tcp_note_fin (be16 (p ! 0) (p ! 1)) (be16 (p ! 2) (p ! 3)) source ?q (length (drop ?h p)) s else s)"
  define r where "r = (if length (drop ?h p) \<noteq> 0
    then tcp_append (be16 (p ! 0) (p ! 1)) (be16 (p ! 2) (p ! 3)) source ?q (drop ?h p) ?fin s1 else (True, s1))"
  have s1: "stream_inv st s1" using inv by (simp add: s1_def stream_inv_more)
  have r: "stream_inv st (snd r)"
    using tcp_append_stream [OF st s1 hp] s1 by (simp add: r_def)
  have l: "12 < length p" "13 < length p" "1 < length p" "2 + 1 < length p" "4 + 3 < length p" "8 + 3 < length p" "14 + 1 < length p" "0 + 1 < length p"
    using False by auto
  have "receive_tcp p source destination s = Some (False, s) \<or> (\<exists>ok. receive_tcp p source destination s = Some (ok, snd r)) \<or>
     (\<exists>rp lp sa ak ad. receive_tcp p source destination s = Some (True, (snd r)\<lparr>n_tcp_remote_port := rp, n_tcp_local_port := lp,
                 n_syn_ack := sa, n_tcp_acknowledgment := ak, n_tcp_address := ad, n_tcp_valid := True\<rparr>))"
    using False l unfolding receive_tcp_def
    by (simp add: Let_def case_prod_beta r_def s1_def del: One_nat_def) blast
  then show ?thesis using inv r by (auto simp: leads_to_def stream_inv_more)
qed

lemma sub_packet_SomeD: "sub_packet p i n = Some q \<Longrightarrow> q = take n (drop i p)"
  by (simp add: sub_packet_def split: if_splits)

lemma rd8_SomeD: "rd8 p i = Some x \<Longrightarrow> x = p ! i"
  by (simp add: rd8_def split: if_splits)

lemma read_be16_SomeD: "read_be16 p i = Some x \<Longrightarrow> x = be16 (p ! i) (p ! (i + 1))"
  by (auto simp: read_be16_def bind_eq_Some_conv dest: rd8_SomeD)

lemma read_be32_SomeD: "read_be32 p i = Some x \<Longrightarrow> x = be32 (p ! i) (p ! (i + 1)) (p ! (i + 2)) (p ! (i + 3))"
  by (auto simp: read_be32_def bind_eq_Some_conv dest!: rd8_SomeD)

lemmas read_SomeD = sub_packet_SomeD rd8_SomeD read_be16_SomeD read_be32_SomeD

lemma receive_ipv4_stream:
  assumes st: "streams_ok st" and inv: "stream_inv st s"
    and h: "p ! 9 = IP_PROTOCOL_TCP \<Longrightarrow>
      honest_packet st (take (unat (be16 (p ! 2) (p ! 3)) - unat (p ! 0 AND 0x0F) * 4) (drop (unat (p ! 0 AND 0x0F) * 4) p))
        (be32 (p ! 12) (p ! 13) (p ! 14) (p ! 15))"
  shows "leads_to (stream_inv st) (receive_ipv4 p s)"
  unfolding receive_ipv4_def Let_def
proof (intro leads_to_if leads_to_bind leads_to_some inv receive_others_stream(2) receive_tcp_stream [OF st inv])
  fix version total header fragment protocol q source destination
  assume "rd8 p 0 = Some version" "read_be16 p 2 = Some total" "rd8 p 9 = Some protocol" "protocol = IP_PROTOCOL_TCP"
    "sub_packet p (unat (version AND 0x0F) * 4) (unat total - unat (version AND 0x0F) * 4) = Some q" "read_be32 p 12 = Some source"
  then show "honest_packet st q source" using h by (auto dest!: read_SomeD)
qed

lemma receive_ethernet_stream:
  assumes st: "streams_ok st" and inv: "stream_inv st s" and h: "honest_frame st frame"
  shows "leads_to (stream_inv st) (network_receive_ethernet frame s)"
proof (cases "length frame < ETHERNET_MIN_FRAME_BYTES \<or> ns_link (n_state s) \<noteq> NETWORK_LINK_UP")
  case True
  then show ?thesis using inv by (simp add: network_receive_ethernet_def leads_to_def stream_inv_more)
next
  case False
  let ?p = "drop 14 frame" and ?ty = "be16 (frame ! 12) (frame ! 13)"
  let ?r = "if ?ty = ETHER_TYPE_ARP then receive_arp ?p s else if ?ty = ETHER_TYPE_IPV4 then receive_ipv4 ?p s else Some (False, s)"
  have "?ty = ETHER_TYPE_IPV4 \<Longrightarrow> leads_to (stream_inv st) (receive_ipv4 ?p s)"
    using h by (intro receive_ipv4_stream [OF st inv]) (simp add: honest_frame_def Let_def)
  then have "leads_to (stream_inv st) ?r" using inv receive_others_stream(1) [OF inv] by (auto intro: leads_to_some)
  moreover have "network_receive_ethernet frame s = ?r \<bind> (\<lambda>(accepted, s1). Some (accepted, count_frame accepted s1))"
    using False by (simp add: network_receive_ethernet_def)
  ultimately show ?thesis by (auto simp: leads_to_def bind_eq_Some_conv stream_inv_more split: prod.splits)
qed

section \<open>Runs\<close>

text \<open>
  The machine from a moment its buffer is empty: frames arrive in any order, any number of times, the kernel reads and it
  sends requests.
\<close>

inductive net_run :: "streams \<Rightarrow> net_state \<Rightarrow> bool" for st where
  start: "n_data_length s = 0 \<Longrightarrow> net_run st s"
| frame: "net_run st s \<Longrightarrow> honest_frame st f \<Longrightarrow> network_receive_ethernet f s = Some (ok, s') \<Longrightarrow> net_run st s'"
| receive: "net_run st s \<Longrightarrow> net_run st (snd (network_tcp_receive a l r capacity s))"
| send: "net_run st s \<Longrightarrow> network_build_tcp_data m capacity mac a l r q k data s = (len, m', s') \<Longrightarrow> net_run st s'"

lemma net_run_stream: "net_run st s \<Longrightarrow> streams_ok st \<Longrightarrow> stream_inv st s"
proof (induction rule: net_run.induct)
  case (frame s f ok s')
  then show ?case using receive_ethernet_stream [of st s f] by (simp add: leads_to_def)
next
  case (receive s a l r capacity)
  then show ?case by (simp add: network_tcp_receive_def stream_inv_def pending_piece_def)
next
  case (send s m capacity mac a l r q k data len m' s')
  then have "s' = s \<or> n_data_length s' = 0" by (auto simp: network_build_tcp_data_def Let_def split: if_splits)
  with send show ?case by (auto simp: stream_inv_def)
qed (simp add: stream_inv_def)

text \<open>
  Claim C6: TCP data is delivered in order and complete. Let every TCP segment that arrives carry the piece of its
  connection's stream that its sequence number names, in whatever order segments arrive, are lost or are repeated, mixed with
  segments of other connections and with any other frames. Then whatever is read from a connection is a
  contiguous piece of that connection's stream, at most as long as the reader's buffer.
\<close>

theorem tcp_data_in_order:
  assumes "net_run st s" and "streams_ok st"
    and "network_tcp_receive address local_port remote_port capacity s = (Some (data, next), s')"
  shows "\<exists>k. data = take (length data) (drop k (snd (st (address, remote_port, local_port)))) \<and>
    k + length data \<le> length (snd (st (address, remote_port, local_port))) \<and> length data \<le> capacity"
proof -
  let ?n = "n_data_length s" and ?stream = "snd (st (address, remote_port, local_port))"
  have g: "?n \<noteq> 0" "n_data_address s = address" "n_data_local_port s = local_port" "n_data_remote_port s = remote_port"
    "data = mem_read (n_data s) 0 (min ?n capacity)"
    using assms(3) by (auto simp: network_tcp_receive_def split: if_splits)
  with net_run_stream [OF assms(1,2)] obtain k where "pending_piece st s k" by (auto simp: stream_inv_def)
  then have k: "k + ?n \<le> length ?stream" "mem_read (n_data s) 0 ?n = take ?n (drop k ?stream)"
    using g(2-4) by (auto simp: pending_piece_def Let_def case_prod_beta)
  have "data = take (min ?n capacity) (mem_read (n_data s) 0 ?n)" using g(5) by (simp add: min.commute)
  also have "\<dots> = take (length data) (drop k ?stream)" unfolding k(2) g(5) by (simp add: min.commute)
  finally show ?thesis using k(1) g(5) by (intro exI [of _ k]) auto
qed

text \<open>A segment with a request line, from port 49201 of 10.0.2.15 to port 80.\<close>

definition segment_example :: "u8 list" where
  "segment_example = [1, 1, 1, 1, 1, 1, 82, 84, 0, 18, 52, 86, 8, 0, 69, 0, 0, 46, 0, 5, 0, 0, 64, 6, 98, 181, 10, 0, 2, 15, 10, 0, 2, 2,
     192, 49, 0, 80, 0, 0, 3, 232, 0, 0, 7, 208, 80, 24, 64, 0, 193, 12, 0, 0, 71, 69, 84, 32, 47, 10]"

theorem tcp_data_in_order_witness:
  "\<exists>s s'. network_receive_ethernet segment_example (net_example 0x0A000202) = Some (True, s) \<and>
     network_tcp_receive 0x0A00020F 80 49201 4 s = (Some ([71, 69, 84, 32], 1006), s') \<and>
     (\<exists>k. [71, 69, 84, 32] = take (length [71, 69, 84, 32 :: u8]) (drop k [71, 69, 84, 32, 47, 10 :: u8]))"
proof -
  let ?st = "\<lambda>_ :: connection. (1000 :: u32, [71, 69, 84, 32, 47, 10 :: u8])"
  have "map_option (\<lambda>(ok, s). (ok, fst (network_tcp_receive 0x0A00020F 80 49201 4 s))) (network_receive_ethernet segment_example (net_example 0x0A000202)) =
      Some (True, Some ([71, 69, 84, 32], 1006))"
    by code_simp
  then obtain s where s: "network_receive_ethernet segment_example (net_example 0x0A000202) = Some (True, s)"
    "fst (network_tcp_receive 0x0A00020F 80 49201 4 s) = Some ([71, 69, 84, 32], 1006)" by auto
  then obtain s' where r: "network_tcp_receive 0x0A00020F 80 49201 4 s = (Some ([71, 69, 84, 32], 1006), s')" by (metis prod.collapse)
  have "honest ?st c 1000 [71, 69, 84, 32, 47, 10] False" for c
    unfolding honest_def by (rule exI [of _ 0]) simp
  then have "honest_frame ?st segment_example"
    by (simp add: honest_frame_def honest_packet_def segment_example_def be16_def be32_def Let_def push_bit_eq_mult)
  moreover have "net_run ?st (net_example 0x0A000202)"
    by (rule net_run.start) (simp add: net_example_def network_set_ipv4_def network_set_link_def network_set_device_def network_init_def)
  ultimately have "net_run ?st s" by (intro net_run.frame [OF _ _ s(1)])
  moreover have "streams_ok ?st" by (simp add: streams_ok_def)
  ultimately show ?thesis using tcp_data_in_order [OF _ _ r, of ?st] s(1) r unfolding snd_conv by blast
qed

section \<open>Host names\<close>

lemma dns_skip_label:
  assumes "i < length p" "p ! i = of_nat (length label)" "0 < length label" "length label \<le> 63" "i + 1 + length label \<le> length p"
  shows "dns_skip_name p i = dns_skip_name p (i + 1 + length label)"
proof -
  have u: "unat (p ! i) = length label" using assms(2,4) by (simp add: unat_of_nat take_bit_nat_eq_self)
  then have "p ! i \<noteq> 0" "\<not> p ! i > 63" using assms(3,4) by (auto simp: word_less_nat_alt)
  moreover have "p ! i AND 0xC0 \<noteq> 0xC0"
  proof -
    have "unat (p ! i AND mask 6) = unat (p ! i)" using u assms(4) by (simp only: unat_and_mask) simp
    then have "p ! i AND mask 6 = p ! i" by (simp only: word_unat_eq_iff)
    moreover have "(p ! i AND mask 6) AND 0xC0 = p ! i AND (mask 6 AND 0xC0)" by (simp only: and.assoc)
    moreover have "(mask 6 :: u8) AND 0xC0 = 0" by (simp add: mask_eq_exp_minus_1)
    ultimately show ?thesis by simp
  qed
  ultimately show ?thesis using assms(1,5) u by (subst dns_skip_name.simps) (auto simp: Suc_le_eq)
qed

text \<open>
  Host names survive the encoding. If a name is encoded, the labels with the terminating zero byte are
  exactly what the parser of answers skips, wherever they stand in a packet and whatever follows.
\<close>

theorem dns_name_roundtrip:
  assumes "dns_encode name = (labels, True)"
  shows "dns_skip_name (before @ labels @ [0] @ after) (length before) = Some (length before + length labels + 1)"
  using assms
proof (induction name arbitrary: labels before rule: dns_encode.induct)
  case (1 name)
  show ?case
  proof (cases "name = []")
    case True
    with 1(2) have "labels = []" by (subst (asm) dns_encode.simps) simp
    then show ?thesis by (subst dns_skip_name.simps) (simp add: nth_append)
  next
    case False
    let ?label = "takeWhile (\<lambda>c. c \<noteq> 46) name" and ?rest = "dropWhile (\<lambda>c. c \<noteq> 46) name"
    from False 1(2) obtain bs where l: "0 < length ?label" "length ?label \<le> 63" and bs: "dns_encode (tl ?rest) = (bs, True)"
      and labels: "labels = of_nat (length ?label) # ?label @ bs"
      by (subst (asm) dns_encode.simps) (auto simp: Let_def split: if_splits prod.splits)
    let ?p = "before @ labels @ [0] @ after" and ?b = "before @ of_nat (length ?label) # ?label"
    have p: "?p = ?b @ bs @ [0] @ after" by (simp add: labels)
    have "dns_skip_name ?p (length before) = dns_skip_name ?p (length before + 1 + length ?label)"
      using l by (intro dns_skip_label) (simp_all add: labels nth_append)
    also have "\<dots> = dns_skip_name (?b @ bs @ [0] @ after) (length ?b)" by (simp add: labels)
    also have "\<dots> = Some (length ?b + length bs + 1)"
      using l by (intro 1(1) [OF False refl refl _ bs]) auto
    finally show ?thesis by (simp add: labels)
  qed
qed

theorem dns_name_roundtrip_witness:
  "dns_encode [119, 119, 46, 105, 111] = ([2, 119, 119, 2, 105, 111], True) \<and>
   dns_skip_name ([7, 7] @ [2, 119, 119, 2, 105, 111] @ [0] @ [1]) (length [7, 7 :: u8]) =
     Some (length [7, 7 :: u8] + length [2, 119, 119, 2, 105, 111 :: u8] + 1)"
proof -
  have e: "dns_encode [119, 119, 46, 105, 111] = ([2, 119, 119, 2, 105, 111], True)" by code_simp
  show ?thesis by (rule conjI [OF e dns_name_roundtrip [OF e]])
qed

section \<open>The document of an HTTP answer\<close>

lemma http_body_eq: "http_body r = (if length r < 4 then None else if take 4 r = [13, 10, 13, 10] then Some (drop 4 r) else http_body (tl r))"
  by (cases r rule: http_body.cases) auto

lemma http_body_split:
  assumes "\<forall>i < length h. take 4 (drop i (h @ [13, 10, 13, 10])) \<noteq> [13, 10, 13, 10]"
  shows "http_body (h @ [13, 10, 13, 10] @ body) = Some body"
  using assms
proof (induction h)
  case (Cons x h)
  have "take 4 (drop (Suc i) ((x # h) @ [13, 10, 13, 10])) \<noteq> [13, 10, 13, 10]" if "i < length h" for i
    using Cons.prems that by (metis Suc_less_eq length_Cons)
  then have ih: "http_body (h @ [13, 10, 13, 10] @ body) = Some body" by (intro Cons.IH) simp
  have "take 4 ((x # h) @ [13, 10, 13, 10] @ body) = take 4 ((x # h) @ [13, 10, 13, 10])"
    using take_append [of 4 "(x # h) @ [13, 10, 13, 10]" body] by simp
  with Cons.prems have "take 4 ((x # h) @ [13, 10, 13, 10] @ body) \<noteq> [13, 10, 13, 10]" by fastforce
  moreover have "\<not> length ((x # h) @ [13, 10, 13, 10] @ body) < 4" "tl ((x # h) @ [13, 10, 13, 10] @ body) = h @ [13, 10, 13, 10] @ body"
    by simp_all
  ultimately have "http_body ((x # h) @ [13, 10, 13, 10] @ body) = http_body (h @ [13, 10, 13, 10] @ body)"
    using http_body_eq [of "(x # h) @ [13, 10, 13, 10] @ body"] by (simp only: if_False)
  with ih show ?case by (simp only:)
qed (subst http_body_eq, simp)

text \<open>
  Claim C40: the published document is the body of the answer. For an answer made of header lines, the first empty line
  and a body of more than three bytes, a reader gets the body, cut to 1024 bytes and to its own buffer. (A body of one
  to three bytes is not published: the loop's final test counts the bytes of the empty line a second time.)
\<close>

theorem http_document_exact:
  assumes "\<forall>i < length header. take 4 (drop i (header @ [13, 10, 13, 10])) \<noteq> [13, 10, 13, 10]" and "0 < capacity"
  shows "fst (network_http_response capacity (network_publish_http_response (header @ [13, 10, 13, 10] @ body) s)) =
    (if length body \<le> 3 then [] else take (min HTTP_DOCUMENT_LIMIT capacity) body)"
proof -
  have b: "http_body (header @ [13, 10, 13, 10] @ body) = Some body" by (rule http_body_split [OF assms(1)])
  show ?thesis
  proof (cases "length body \<le> 3")
    case False
    let ?d = "take HTTP_DOCUMENT_LIMIT body"
    have "mem_read (mem_copy (n_http_document s) 0 ?d) 0 (min (length ?d) capacity) = take capacity ?d"
      using mem_read_copy_same [of "n_http_document s" 0 ?d] by (metis min.commute take_mem_read min.cobounded1 take_all_iff nle_le)
    with False assms(2) b show ?thesis
      by (auto simp: network_publish_http_response_def network_http_response_def min.commute)
  qed (use b in \<open>simp add: network_publish_http_response_def network_http_response_def\<close>)
qed

theorem http_document_exact_witness:
  "fst (network_http_response 5 (network_publish_http_response ([79, 75] @ [13, 10, 13, 10] @ [104, 101, 108, 108, 111, 33]) net_blank)) =
    [104, 101, 108, 108, 111]"
proof -
  have "\<forall>i < length [79, 75 :: u8]. take 4 (drop i ([79, 75] @ [13, 10, 13, 10])) \<noteq> [13, 10, 13, 10 :: u8]"
  proof (intro allI impI)
    fix i :: nat
    assume "i < length [79, 75 :: u8]"
    then consider "i = 0" | "i = 1" by fastforce
    then show "take 4 (drop i ([79, 75] @ [13, 10, 13, 10])) \<noteq> [13, 10, 13, 10 :: u8]" by cases simp_all
  qed
  from http_document_exact [OF this, of 5 "[104, 101, 108, 108, 111, 33]" net_blank] show ?thesis by simp
qed

end
