(* ===== verification/Git.thy ===== *)
theory Git
  imports Ramfs
begin

text \<open>
  The project store of \<open>src/src/git.c\<close>: a set of tracked file names and a list of commits, each a snapshot of the
  contents of all tracked files, over the RAM file system. The main facts are that a commit records exactly what the files
  hold, that earlier commits never change, and that the repository is dirty exactly when a tracked file differs
  from its last snapshot.
\<close>

section \<open>State\<close>

abbreviation (input) GIT_MAX_TRACKED :: nat where "GIT_MAX_TRACKED \<equiv> 8"
abbreviation (input) GIT_MAX_COMMITS :: nat where "GIT_MAX_COMMITS \<equiv> 16"
abbreviation (input) GIT_NAME_MAX :: nat where "GIT_NAME_MAX \<equiv> 63"
abbreviation (input) GIT_MESSAGE_MAX :: nat where "GIT_MESSAGE_MAX \<equiv> 79"
abbreviation (input) GIT_SNAPSHOT_ARENA_BYTES :: nat where "GIT_SNAPSHOT_ARENA_BYTES \<equiv> 8192"

record git_file_snapshot =
  gf_name :: "u8 list"
  gf_offset :: nat
  gf_length :: nat

record git_commit_record =
  gc_hash :: u64
  gc_parent_hash :: u64
  gc_message :: "u8 list"
  gc_files :: "git_file_snapshot list"

text \<open>\<open>g_tracked\<close> and \<open>g_commits\<close> are the entries of the two arrays below their counts.\<close>

record git_state =
  g_initialized :: bool
  g_tracked :: "u8 list list"
  g_commits :: "git_commit_record list"
  g_arena :: "nat \<Rightarrow> u8"
  g_used :: nat

definition git_init :: "git_state \<Rightarrow> git_state" where
  "git_init s = s\<lparr>g_initialized := False, g_tracked := [], g_commits := [], g_used := 0\<rparr>"

definition git_repository_init :: "git_state \<Rightarrow> git_state" where
  "git_repository_init s = s\<lparr>g_initialized := True, g_tracked := [], g_commits := [], g_used := 0\<rparr>"

definition git_is_tracked :: "u8 list \<Rightarrow> git_state \<Rightarrow> bool" where
  "git_is_tracked name s \<longleftrightarrow> list_ex (\<lambda>n. n = name) (g_tracked s)"

definition git_add :: "u8 list \<Rightarrow> ramfs_state \<Rightarrow> git_state \<Rightarrow> bool \<times> git_state" where
  "git_add name fs s =
     (if \<not> g_initialized s \<or> length name = 0 \<or> length name > GIT_NAME_MAX then (False, s)
      else case fst (ramfs_open name False fs) of
        None \<Rightarrow> (False, s)
      | Some _ \<Rightarrow>
          (if git_is_tracked name s then (True, s)
           else if length (g_tracked s) \<ge> GIT_MAX_TRACKED then (False, s)
           else (True, s\<lparr>g_tracked := g_tracked s @ [name]\<rparr>)))"

definition git_tracked_entry :: "nat \<Rightarrow> git_state \<Rightarrow> u8 list option" where
  "git_tracked_entry index s = (if index \<ge> length (g_tracked s) then None else Some (g_tracked s ! index))"

definition hash_bytes :: "u64 \<Rightarrow> u8 list \<Rightarrow> u64" where
  "hash_bytes h data = foldl (\<lambda>h b. (h XOR ucast b) * 1099511628211) h data"

text \<open>The bytes of a snapshot, and the snapshot of a name in one commit: the first that matches.\<close>

definition snapshot_bytes :: "git_state \<Rightarrow> git_file_snapshot \<Rightarrow> u8 list" where
  "snapshot_bytes s f = mem_read (g_arena s) (gf_offset f) (gf_length f)"

definition commit_lookup :: "git_state \<Rightarrow> git_commit_record \<Rightarrow> u8 list \<Rightarrow> u8 list option" where
  "commit_lookup s c name = map_option (snapshot_bytes s) (find (\<lambda>f. gf_name f = name) (gc_files c))"

definition head_snapshot :: "git_state \<Rightarrow> u8 list \<Rightarrow> u8 list option" where
  "head_snapshot s name = (if g_commits s = [] then None else commit_lookup s (last (g_commits s)) name)"

text \<open>\<open>ramfs_open\<close> without creation followed by \<open>ramfs_view\<close> or \<open>ramfs_size\<close>.\<close>

definition tracked_view :: "memory \<Rightarrow> ramfs_state \<Rightarrow> u8 list \<Rightarrow> u8 list option" where
  "tracked_view m fs name = Option.bind (fst (ramfs_open name False fs)) (\<lambda>i. ramfs_view m i fs)"

definition tracked_size :: "ramfs_state \<Rightarrow> u8 list \<Rightarrow> nat option" where
  "tracked_size fs name = Option.bind (fst (ramfs_open name False fs)) (\<lambda>i. ramfs_size i fs)"

definition git_repository_dirty :: "memory \<Rightarrow> ramfs_state \<Rightarrow> git_state \<Rightarrow> bool" where
  "git_repository_dirty m fs s \<longleftrightarrow>
     (if \<not> g_initialized s then False
      else if length (g_tracked s) > 0 \<and> g_commits s = [] then True
      else list_ex (\<lambda>name. case tracked_view m fs name of
             None \<Rightarrow> True
           | Some current \<Rightarrow> (case head_snapshot s name of
               None \<Rightarrow> True
             | Some head \<Rightarrow> length current \<noteq> length head \<or> current \<noteq> head)) (g_tracked s))"

section \<open>Committing\<close>

text \<open>The measuring loop; \<open>None\<close> when a file cannot be opened.\<close>

fun total_bytes :: "ramfs_state \<Rightarrow> u8 list list \<Rightarrow> nat option" where
  "total_bytes fs [] = Some 0"
| "total_bytes fs (name # names) =
     (case tracked_size fs name of None \<Rightarrow> None
      | Some len \<Rightarrow> map_option (\<lambda>rest. len + rest) (total_bytes fs names))"

text \<open>The copying loop: the arena, its fill and the hash go along; the flag is false when a file cannot be opened.\<close>

fun copy_snapshots ::
  "memory \<Rightarrow> ramfs_state \<Rightarrow> u8 list list \<Rightarrow> (nat \<Rightarrow> u8) \<Rightarrow> nat \<Rightarrow> u64 \<Rightarrow> bool \<times> git_file_snapshot list \<times> (nat \<Rightarrow> u8) \<times> nat \<times> u64" where
  "copy_snapshots m fs [] arena used h = (True, [], arena, used, h)"
| "copy_snapshots m fs (name # names) arena used h =
     (case tracked_view m fs name of
        None \<Rightarrow> (False, [], arena, used, h)
      | Some data \<Rightarrow>
          (let (ok, files, r) = copy_snapshots m fs names (mem_copy arena used data) (used + length data) (hash_bytes (hash_bytes h name) data)
           in (ok, \<lparr>gf_name = name, gf_offset = used, gf_length = length data\<rparr> # files, r)))"

definition git_head_hash :: "git_state \<Rightarrow> u64" where
  "git_head_hash s = (if g_commits s = [] then 0 else gc_hash (last (g_commits s)))"

definition git_commit :: "u8 list \<Rightarrow> memory \<Rightarrow> ramfs_state \<Rightarrow> git_state \<Rightarrow> u64 option \<times> git_state" where
  "git_commit message m fs s =
     (if \<not> g_initialized s \<or> length (g_tracked s) = 0 then (None, s)
      else let message = take GIT_MESSAGE_MAX message in
        if length (g_commits s) \<ge> GIT_MAX_COMMITS then (None, s)
        else case total_bytes fs (g_tracked s) of
          None \<Rightarrow> (None, s)
        | Some amount \<Rightarrow>
            (if amount > GIT_SNAPSHOT_ARENA_BYTES - g_used s then (None, s)
             else let parent_hash = git_head_hash s;
                      h = hash_bytes (hash_bytes 1469598103934665603 (word_bytes 8 parent_hash)) message;
                      (ok, files, arena, used, h) = copy_snapshots m fs (g_tracked s) (g_arena s) (g_used s) h;
                      s1 = s\<lparr>g_arena := arena, g_used := used\<rparr>
                  in if \<not> ok then (None, s1)
                     else (Some h, s1\<lparr>g_commits := g_commits s @
                             [\<lparr>gc_hash = h, gc_parent_hash = parent_hash, gc_message = message, gc_files = files\<rparr>]\<rparr>)))"

section \<open>Reading the history\<close>

text \<open>Commits are counted from the newest.\<close>

definition git_log_entry :: "nat \<Rightarrow> git_state \<Rightarrow> (u64 \<times> u64 \<times> u8 list) option" where
  "git_log_entry index_from_head s =
     (if index_from_head \<ge> length (g_commits s) then None
      else let c = g_commits s ! (length (g_commits s) - 1 - index_from_head)
           in Some (gc_hash c, gc_parent_hash c, gc_message c))"

definition git_find_commit :: "u64 \<Rightarrow> git_state \<Rightarrow> nat option" where
  "git_find_commit h s = map_option (\<lambda>i. length (g_commits s) - 1 - i) (first_index (\<lambda>c. gc_hash c = h) (g_commits s))"

definition git_commit_file :: "nat \<Rightarrow> u8 list \<Rightarrow> git_state \<Rightarrow> u8 list option" where
  "git_commit_file commit_index name s =
     (if commit_index \<ge> length (g_commits s) then None
      else commit_lookup s (g_commits s ! (length (g_commits s) - 1 - commit_index)) name)"

definition git_tracked_bytes :: "ramfs_state \<Rightarrow> git_state \<Rightarrow> nat" where
  "git_tracked_bytes fs s = sum_list (map (\<lambda>name. case tracked_size fs name of None \<Rightarrow> 0 | Some len \<Rightarrow> len) (g_tracked s))"

section \<open>Invariant\<close>

definition git_inv :: "git_state \<Rightarrow> bool" where
  "git_inv s \<longleftrightarrow> length (g_tracked s) \<le> GIT_MAX_TRACKED \<and> distinct (g_tracked s) \<and> length (g_commits s) \<le> GIT_MAX_COMMITS \<and>
     g_used s \<le> GIT_SNAPSHOT_ARENA_BYTES \<and>
     (\<forall>c \<in> set (g_commits s). \<forall>f \<in> set (gc_files c). gf_offset f + gf_length f \<le> g_used s)"

lemma tracked_view_files:
  assumes "ramfs_inv fs"
  shows "tracked_view m fs name = ramfs_files m fs name"
proof (cases "bt_find kRamfsNameMax (rf_table fs) name")
  case None
  then have "fst (ramfs_open name False fs) = None" by (simp add: ramfs_open_def bt_open_def)
  with None show ?thesis by (simp add: tracked_view_def ramfs_files_def)
next
  case (Some i)
  then have "valid_name name" using assms by (auto simp: ramfs_inv_def)
  with Some have "fst (ramfs_open name False fs) = Some i" by (simp add: ramfs_open_def bt_open_def)
  with Some show ?thesis by (simp add: tracked_view_def ramfs_files_def)
qed

lemma length_file_bytes [simp]: "length (file_bytes m fs f off n) = n"
  by (simp add: file_bytes_def)

lemma tracked_size_view: "tracked_size fs name = map_option length (tracked_view m fs name)"
  by (cases "fst (ramfs_open name False fs)") (auto simp: tracked_size_def tracked_view_def ramfs_size_def ramfs_view_def option.map_comp comp_def)

lemma total_bytes_Some:
  "total_bytes fs names = Some amount \<Longrightarrow> \<exists>datas. map (tracked_view m fs) names = map Some datas \<and> amount = length (concat datas)"
proof (induction names arbitrary: amount)
  case (Cons name names)
  then obtain len rest where "tracked_size fs name = Some len" "total_bytes fs names = Some rest" "amount = len + rest"
    by (auto split: option.splits)
  moreover from this obtain data where "tracked_view m fs name = Some data" "len = length data"
    by (auto simp: tracked_size_view [where m = m])
  moreover from Cons.IH [OF \<open>total_bytes fs names = Some rest\<close>] obtain datas where
    "map (tracked_view m fs) names = map Some datas" "rest = length (concat datas)" by blast
  ultimately show ?case by (intro exI [of _ "data # datas"]) simp
qed simp

text \<open>What the copying loop builds from the contents of the files.\<close>

fun snapshots :: "u8 list list \<Rightarrow> u8 list list \<Rightarrow> nat \<Rightarrow> git_file_snapshot list" where
  "snapshots (name # names) (data # datas) used =
     \<lparr>gf_name = name, gf_offset = used, gf_length = length data\<rparr> # snapshots names datas (used + length data)"
| "snapshots _ _ used = []"

lemma mem_copy_append: "mem_copy m off (xs @ ys) = mem_copy (mem_copy m off xs) (off + length xs) ys"
  by (induction xs arbitrary: m off) auto

lemma copy_snapshots_ok:
  "map (tracked_view m fs) names = map Some datas \<Longrightarrow>
   \<exists>h'. copy_snapshots m fs names arena used h =
     (True, snapshots names datas used, mem_copy arena used (concat datas), used + length (concat datas), h')"
proof (induction names arbitrary: datas arena used h)
  case (Cons name names)
  then obtain data rest where d: "datas = data # rest" "tracked_view m fs name = Some data" "map (tracked_view m fs) names = map Some rest"
    by (cases datas) auto
  from Cons.IH [OF d(3)] obtain h' where
    "copy_snapshots m fs names (mem_copy arena used data) (used + length data) (hash_bytes (hash_bytes h name) data) =
      (True, snapshots names rest (used + length data), mem_copy (mem_copy arena used data) (used + length data) (concat rest),
       used + length data + length (concat rest), h')" by blast
  with d show ?case by (simp add: mem_copy_append add.assoc)
qed simp

lemma snapshots_lookup:
  "length names = length datas \<Longrightarrow> distinct names \<Longrightarrow> i < length names \<Longrightarrow>
   \<exists>f. find (\<lambda>f. gf_name f = names ! i) (snapshots names datas used) = Some f \<and>
     mem_read (mem_copy arena used (concat datas)) (gf_offset f) (gf_length f) = datas ! i"
proof (induction names datas used arbitrary: arena i rule: snapshots.induct)
  case (1 name names data datas used)
  show ?case
  proof (cases i)
    case 0
    have "mem_read (mem_copy (mem_copy arena used data) (used + length data) (concat datas)) used (length data) = data"
      by (simp add: mem_read_copy_disjoint mem_read_copy_same)
    with 0 show ?thesis by (simp add: mem_copy_append)
  next
    case (Suc j)
    then have "name \<noteq> names ! j" using 1(3,4) by auto
    with 1(1) [of j "mem_copy arena used data"] 1(2-4) Suc show ?thesis by (simp add: mem_copy_append)
  qed
qed simp_all

lemma snapshots_bound: "f \<in> set (snapshots names datas used) \<Longrightarrow> gf_offset f + gf_length f \<le> used + length (concat datas)"
  by (induction names datas used rule: snapshots.induct) auto

text \<open>A successful commit, taken apart.\<close>

lemma git_commit_Some:
  assumes "git_commit message m fs s = (Some h, s')"
  obtains datas c where "map (tracked_view m fs) (g_tracked s) = map Some datas"
    "g_used s + length (concat datas) \<le> GIT_SNAPSHOT_ARENA_BYTES \<or> GIT_SNAPSHOT_ARENA_BYTES < g_used s"
    "c = \<lparr>gc_hash = h, gc_parent_hash = git_head_hash s, gc_message = take GIT_MESSAGE_MAX message, gc_files = snapshots (g_tracked s) datas (g_used s)\<rparr>"
    "s' = s\<lparr>g_arena := mem_copy (g_arena s) (g_used s) (concat datas), g_used := g_used s + length (concat datas), g_commits := g_commits s @ [c]\<rparr>"
    "length (g_commits s) < GIT_MAX_COMMITS" "g_initialized s" "g_tracked s \<noteq> []"
proof -
  let ?h = "hash_bytes (hash_bytes 1469598103934665603 (word_bytes 8 (git_head_hash s))) (take GIT_MESSAGE_MAX message)"
  from assms obtain amount where g: "g_initialized s" "g_tracked s \<noteq> []" "length (g_commits s) < GIT_MAX_COMMITS"
    "total_bytes fs (g_tracked s) = Some amount" "\<not> amount > GIT_SNAPSHOT_ARENA_BYTES - g_used s"
    by (auto simp: git_commit_def Let_def split: if_splits option.splits)
  from total_bytes_Some [OF g(4), of m] obtain datas where d: "map (tracked_view m fs) (g_tracked s) = map Some datas"
    "amount = length (concat datas)" by blast
  from copy_snapshots_ok [OF d(1)] obtain h' where c: "copy_snapshots m fs (g_tracked s) (g_arena s) (g_used s) ?h =
    (True, snapshots (g_tracked s) datas (g_used s), mem_copy (g_arena s) (g_used s) (concat datas), g_used s + length (concat datas), h')"
    by blast
  show ?thesis
    using assms g c d(2) by (intro that [OF d(1) _ refl]) (auto simp: git_commit_def Let_def)
qed

lemma commit_lookup_frame:
  assumes "\<forall>f \<in> set (gc_files c). gf_offset f + gf_length f \<le> g_used s" "g_arena s' = mem_copy (g_arena s) (g_used s) data"
  shows "commit_lookup s' c name = commit_lookup s c name"
proof -
  have "snapshot_bytes s' f = snapshot_bytes s f" if "find (\<lambda>f. gf_name f = name) (gc_files c) = Some f" for f
  proof -
    have "f \<in> set (gc_files c)" using that by (auto simp: find_Some_iff)
    then show ?thesis using assms by (simp add: snapshot_bytes_def mem_read_copy_disjoint)
  qed
  then show ?thesis by (cases "find (\<lambda>f. gf_name f = name) (gc_files c)") (simp_all add: commit_lookup_def)
qed

text \<open>
  Claim C37: commits are exact and history does not change. A successful commit records, under every tracked name, exactly
  the contents the file system has for it, heads the log with its hash, its parent's and its message, and leaves the
  repository clean; every file of every earlier commit reads as before, one place further from the head; and the store's
  bounds are kept.
\<close>

theorem git_commit_exact:
  assumes "git_inv s" "ramfs_inv fs" "git_commit message m fs s = (Some h, s')"
  shows "(\<forall>name \<in> set (g_tracked s). ramfs_files m fs name \<noteq> None \<and> git_commit_file 0 name s' = ramfs_files m fs name) \<and>
    (\<forall>k name. git_commit_file (k + 1) name s' = git_commit_file k name s) \<and>
    git_log_entry 0 s' = Some (h, git_head_hash s, take GIT_MESSAGE_MAX message) \<and>
    \<not> git_repository_dirty m fs s' \<and> git_inv s'"
proof -
  from git_commit_Some [OF assms(3)] obtain datas c where d: "map (tracked_view m fs) (g_tracked s) = map Some datas"
    and cap: "g_used s + length (concat datas) \<le> GIT_SNAPSHOT_ARENA_BYTES \<or> GIT_SNAPSHOT_ARENA_BYTES < g_used s"
    and c: "c = \<lparr>gc_hash = h, gc_parent_hash = git_head_hash s, gc_message = take GIT_MESSAGE_MAX message,
        gc_files = snapshots (g_tracked s) datas (g_used s)\<rparr>"
    and s': "s' = s\<lparr>g_arena := mem_copy (g_arena s) (g_used s) (concat datas), g_used := g_used s + length (concat datas), g_commits := g_commits s @ [c]\<rparr>"
    and n: "length (g_commits s) < GIT_MAX_COMMITS" "g_initialized s" "g_tracked s \<noteq> []" by blast
  have len: "length (g_tracked s) = length datas" using d by (metis length_map)
  have view: "tracked_view m fs name = ramfs_files m fs name" for name by (rule tracked_view_files [OF assms(2)])
  have head: "commit_lookup s' c name = ramfs_files m fs name \<and> ramfs_files m fs name \<noteq> None" if "name \<in> set (g_tracked s)" for name
  proof -
    from that obtain i where i: "i < length (g_tracked s)" "name = g_tracked s ! i" by (auto simp: in_set_conv_nth)
    then have "ramfs_files m fs name = Some (datas ! i)" using d len view by (metis nth_map)
    with snapshots_lookup [OF len _ i(1), of "g_used s" "g_arena s"] assms(1) show ?thesis
      by (auto simp: commit_lookup_def snapshot_bytes_def c s' i(2) git_inv_def)
  qed
  have old: "commit_lookup s' b name = commit_lookup s b name" if "b \<in> set (g_commits s)" for b name
    using that assms(1) by (intro commit_lookup_frame [where data = "concat datas"]) (auto simp: git_inv_def s')
  have 2: "git_commit_file (k + 1) name s' = git_commit_file k name s" for k name
  proof (cases "k < length (g_commits s)")
    case True
    then have "g_commits s ! (length (g_commits s) - 1 - k) \<in> set (g_commits s)" by simp
    moreover have "length (g_commits s) - Suc k < length (g_commits s)" using True by linarith
    ultimately show ?thesis using True old by (simp add: git_commit_file_def s' nth_append)
  qed (simp add: git_commit_file_def s')
  have 4: "\<not> git_repository_dirty m fs s'"
    using head by (auto simp: git_repository_dirty_def head_snapshot_def s' list_ex_iff view split: option.splits)
  have "git_inv s'" using assms(1) n cap snapshots_bound [of _ "g_tracked s" datas "g_used s"]
    by (fastforce simp: git_inv_def s' c)
  with head 2 4 show ?thesis by (auto simp: git_commit_file_def git_log_entry_def s' c)
qed

text \<open>A repository that tracks the file of \<open>ramfs_example\<close>.\<close>

definition git_blank :: git_state where
  "git_blank = \<lparr>g_initialized = False, g_tracked = [], g_commits = [], g_arena = (\<lambda>_. 0), g_used = 0\<rparr>"

definition git_example :: git_state where
  "git_example = (git_repository_init git_blank)\<lparr>g_tracked := [[0x61]]\<rparr>"

lemma ramfs_example_view: "tracked_view (\<lambda>_. 0) ramfs_example [0x61] = Some [1, 2, 3]"
  by (simp add: tracked_view_files [OF ramfs_example_inv] ramfs_example_files)

lemma git_example_added: "git_add [0x61] ramfs_example (git_repository_init git_blank) = (True, git_example)"
  by (simp add: git_add_def git_is_tracked_def git_example_def git_repository_init_def git_blank_def ramfs_open_def bt_open_def
      ramfs_example_files valid_name_def valid_segment_def allowed_char_def)

theorem git_commit_exact_witness:
  "\<exists>h s'. git_commit [104, 105] (\<lambda>_. 0) ramfs_example git_example = (Some h, s') \<and>
     git_commit_file 0 [0x61] s' = Some [1, 2, 3] \<and> \<not> git_repository_dirty (\<lambda>_. 0) ramfs_example s'"
proof -
  have "fst (git_commit [104, 105] (\<lambda>_. 0) ramfs_example git_example) \<noteq> None"
    by (simp add: git_commit_def git_example_def git_repository_init_def git_blank_def tracked_size_view [where m = "\<lambda>_. 0"]
        ramfs_example_view Let_def)
  then obtain h s' where c: "git_commit [104, 105] (\<lambda>_. 0) ramfs_example git_example = (Some h, s')" by (metis option.exhaust prod.collapse)
  have "git_inv git_example" by (simp add: git_inv_def git_example_def git_repository_init_def git_blank_def)
  from git_commit_exact [OF this ramfs_example_inv c]
  have "git_commit_file 0 [0x61] s' = ramfs_files (\<lambda>_. 0) ramfs_example [0x61]" "\<not> git_repository_dirty (\<lambda>_. 0) ramfs_example s'"
    by (simp_all add: git_example_def)
  then show ?thesis using c by (simp add: ramfs_example_files)
qed

text \<open>
  The repository is dirty exactly when it has no commit yet or some tracked file is gone or differs from
  the contents the newest commit recorded for it.
\<close>

theorem git_dirty_exact:
  assumes "ramfs_inv fs" "g_initialized s" "g_tracked s \<noteq> []"
  shows "git_repository_dirty m fs s \<longleftrightarrow> g_commits s = [] \<or>
    (\<exists>name \<in> set (g_tracked s). ramfs_files m fs name = None \<or> ramfs_files m fs name \<noteq> git_commit_file 0 name s)"
proof -
  have h: "g_commits s \<noteq> [] \<Longrightarrow> head_snapshot s name = git_commit_file 0 name s" for name
    by (simp add: head_snapshot_def git_commit_file_def last_conv_nth)
  have c: "(case a of None \<Rightarrow> True | Some x \<Rightarrow> (case b of None \<Rightarrow> True | Some y \<Rightarrow> length x \<noteq> length y \<or> x \<noteq> y)) \<longleftrightarrow>
      a = None \<or> a \<noteq> b" for a b :: "u8 list option"
    by (auto split: option.splits)
  show ?thesis
    using assms by (cases "g_commits s = []")
      (simp_all add: git_repository_dirty_def tracked_view_files [OF assms(1)] list_ex_iff h c)
qed

theorem git_dirty_exact_witness: "git_repository_dirty (\<lambda>_. 0) ramfs_example git_example"
  using git_dirty_exact [OF ramfs_example_inv, of git_example "\<lambda>_. 0"]
  by (simp add: git_example_def git_repository_init_def git_blank_def)

text \<open>
  The hash does not mark where a name ends and the contents begin: moving bytes between the two keeps it, although the
  comment in the code says that commits have equal hashes only if all of this is identical.
\<close>

lemma hash_bytes_boundary: "hash_bytes (hash_bytes h (name @ extra)) data = hash_bytes (hash_bytes h name) (extra @ data)"
  by (simp add: hash_bytes_def)

end
