(* ===== verification/Init_System.thy ===== *)
theory Init_System
  imports Scheduler
begin

text \<open>
  The service manager of \<open>src/src/init.c\<close>: ten units with a state, counters and at most one dependency each. A unit is
  started after its dependency; the unit of the compositor becomes active only while its process lives. Only one unit may be
  stopped and restarted. The functions take the state of the scheduler, which they read.
\<close>

section \<open>Units\<close>

datatype init_unit_state = INIT_UNIT_INACTIVE | INIT_UNIT_WAITING | INIT_UNIT_ACTIVE | INIT_UNIT_FAILED

abbreviation (input) NO_DEPENDENCY :: nat where "NO_DEPENDENCY \<equiv> 255"

record init_unit =
  iu_name :: cstring
  iu_description :: cstring
  iu_dependency :: nat
  iu_state :: init_unit_state
  iu_mutable :: bool
  iu_starts :: u64
  iu_stops :: u64
  iu_process_id :: u32

definition unit_of :: "cstring \<Rightarrow> cstring \<Rightarrow> nat \<Rightarrow> bool \<Rightarrow> init_unit" where
  "unit_of name description dependency mutable = \<lparr>iu_name = name, iu_description = description, iu_dependency = dependency, iu_state = INIT_UNIT_INACTIVE, iu_mutable = mutable,
     iu_starts = 0, iu_stops = 0, iu_process_id = 0\<rparr>"

definition units_initial :: "init_unit list" where
  "units_initial =
    [unit_of ''kernel.target'' ''Core kernel facilities'' NO_DEPENDENCY False,
     unit_of ''hardware.target'' ''Interrupt, timer, and keyboard drivers'' 0 False,
     unit_of ''project-store.service'' ''RAM project filesystem'' 0 False,
     unit_of ''userspace.target'' ''ELF loader and isolated process runtime'' 2 False,
     unit_of ''project-host.service'' ''Portable MKO project host'' 3 True,
     unit_of ''app-manager.service'' ''Installed application catalog'' 4 False,
     unit_of ''console.service'' ''MakoBox interactive console'' 1 False,
     unit_of ''default.target'' ''Multi-user MAKO system'' 5 False,
     unit_of ''desktop-compositor.service'' ''Persistent ring-3 MKO display server'' 7 False,
     unit_of ''desktop.target'' ''Native MAKO graphical session'' 8 False]"

record init_state =
  is_units :: "init_unit list"
  is_transactions :: u64
  is_graphical_boot :: bool

definition set_unit :: "nat \<Rightarrow> (init_unit \<Rightarrow> init_unit) \<Rightarrow> init_state \<Rightarrow> init_state" where
  "set_unit i f s = s\<lparr>is_units := (is_units s)[i := f (is_units s ! i)]\<rparr>"

definition find_unit :: "cstring \<Rightarrow> init_state \<Rightarrow> nat option" where
  "find_unit name s = first_index (\<lambda>u. iu_name u = name) (is_units s)"

section \<open>Operations\<close>

text \<open>Whether the compositor's process is alive as a service.\<close>

definition compositor_alive :: "u32 \<Rightarrow> 'a sched_state_scheme \<Rightarrow> bool" where
  "compositor_alive pid sched \<longleftrightarrow> pid \<noteq> 0 \<and>
     (case scheduler_snapshot (unat pid) sched of
        None \<Rightarrow> False
      | Some process \<Rightarrow> (snap_state process = SCHEDULER_TASK_BLOCKED \<or> snap_state process = SCHEDULER_TASK_READY) \<and>
          snap_name process = ''compositor'')"

function start_index :: "'a sched_state_scheme \<Rightarrow> nat \<Rightarrow> nat \<Rightarrow> init_state \<Rightarrow> bool \<times> init_state" where
  "start_index sched i depth s =
     (if i \<ge> length units_initial \<or> depth > length units_initial then (False, s)
      else if iu_state (is_units s ! i) = INIT_UNIT_ACTIVE then (True, s)
      else let s1 = set_unit i (\<lambda>u. u\<lparr>iu_state := INIT_UNIT_WAITING\<rparr>) s;
               dependency = iu_dependency (is_units s ! i);
               (ok, s2) = (if dependency \<noteq> NO_DEPENDENCY then start_index sched dependency (depth + 1) s1 else (True, s1))
           in if \<not> ok \<or> (i = 8 \<and> \<not> compositor_alive (iu_process_id (is_units s2 ! i)) sched)
              then (False, set_unit i (\<lambda>u. u\<lparr>iu_state := INIT_UNIT_FAILED\<rparr>) s2)
              else (True, (set_unit i (\<lambda>u. u\<lparr>iu_state := INIT_UNIT_ACTIVE, iu_starts := iu_starts u + 1\<rparr>) s2)
                     \<lparr>is_transactions := is_transactions s2 + 1\<rparr>))"
  by pat_completeness auto
termination by (relation "measure (\<lambda>(sched, i, depth, s). length units_initial + 1 - depth)") auto

declare start_index.simps [simp del]

definition init_system_init :: "init_state \<Rightarrow> init_state" where
  "init_system_init s = \<lparr>is_units = map (\<lambda>u. u\<lparr>iu_state := INIT_UNIT_INACTIVE, iu_starts := 0, iu_stops := 0, iu_process_id := 0\<rparr>) (is_units s),
     is_transactions = 0, is_graphical_boot = False\<rparr>"

definition init_system_reach_boot_target :: "'a sched_state_scheme \<Rightarrow> u32 \<Rightarrow> init_state \<Rightarrow> bool \<times> init_state" where
  "init_system_reach_boot_target sched compositor_pid s =
     (let (ok1, s1) = start_index sched 7 0 s in
      if \<not> ok1 then (False, s1)
      else let (ok2, s2) = start_index sched 6 0 s1 in
        if \<not> ok2 then (False, s2)
        else if compositor_pid = 0 then (True, s2)
        else start_index sched 9 0 ((set_unit 8 (\<lambda>u. u\<lparr>iu_process_id := compositor_pid\<rparr>) s2)\<lparr>is_graphical_boot := True\<rparr>))"

record init_unit_snapshot =
  ius_name :: cstring
  ius_description :: cstring
  ius_state :: init_unit_state
  ius_mutable :: bool
  ius_starts :: u64
  ius_stops :: u64
  ius_process_id :: u32

definition init_system_snapshot :: "nat \<Rightarrow> init_state \<Rightarrow> init_unit_snapshot option" where
  "init_system_snapshot i s =
     (if i \<ge> length (is_units s) then None
      else let u = is_units s ! i in
        Some \<lparr>ius_name = iu_name u, ius_description = iu_description u, ius_state = iu_state u, ius_mutable = iu_mutable u,
          ius_starts = iu_starts u, ius_stops = iu_stops u, ius_process_id = iu_process_id u\<rparr>)"

definition init_system_state_name :: "init_unit_state \<Rightarrow> cstring" where
  "init_system_state_name st =
     (if st = INIT_UNIT_ACTIVE then ''active'' else if st = INIT_UNIT_WAITING then ''waiting''
      else if st = INIT_UNIT_FAILED then ''failed'' else ''inactive'')"

definition init_system_start :: "'a sched_state_scheme \<Rightarrow> cstring \<Rightarrow> init_state \<Rightarrow> bool \<times> init_state" where
  "init_system_start sched name s =
     (case find_unit name s of
        None \<Rightarrow> (False, s)
      | Some i \<Rightarrow> if \<not> iu_mutable (is_units s ! i) then (False, s) else start_index sched i 0 s)"

definition init_system_stop :: "cstring \<Rightarrow> init_state \<Rightarrow> bool \<times> init_state" where
  "init_system_stop name s =
     (case find_unit name s of
        None \<Rightarrow> (False, s)
      | Some i \<Rightarrow>
          if \<not> iu_mutable (is_units s ! i) \<or> iu_state (is_units s ! i) \<noteq> INIT_UNIT_ACTIVE then (False, s)
          else (True, (set_unit i (\<lambda>u. u\<lparr>iu_state := INIT_UNIT_INACTIVE, iu_stops := iu_stops u + 1\<rparr>) s)
                 \<lparr>is_transactions := is_transactions s + 1\<rparr>))"

definition init_system_restart :: "'a sched_state_scheme \<Rightarrow> cstring \<Rightarrow> init_state \<Rightarrow> bool \<times> init_state" where
  "init_system_restart sched name s =
     (case find_unit name s of
        None \<Rightarrow> (False, s)
      | Some i \<Rightarrow>
          if \<not> iu_mutable (is_units s ! i) then (False, s)
          else let (ok, s1) = (if iu_state (is_units s ! i) = INIT_UNIT_ACTIVE then init_system_stop name s else (True, s)) in
            if \<not> ok then (False, s1) else init_system_start sched name s1)"

definition init_system_active_count :: "init_state \<Rightarrow> nat" where
  "init_system_active_count s = count_if (\<lambda>u. iu_state u = INIT_UNIT_ACTIVE) (is_units s)"

definition init_system_desktop_active :: "'a sched_state_scheme \<Rightarrow> init_state \<Rightarrow> bool" where
  "init_system_desktop_active sched s \<longleftrightarrow> is_graphical_boot s \<and>
     iu_state (is_units s ! 8) = INIT_UNIT_ACTIVE \<and> iu_state (is_units s ! 9) = INIT_UNIT_ACTIVE \<and>
     (case scheduler_snapshot (unat (iu_process_id (is_units s ! 8))) sched of
        None \<Rightarrow> False
      | Some process \<Rightarrow> snap_state process = SCHEDULER_TASK_BLOCKED \<or> snap_state process = SCHEDULER_TASK_READY)"

definition init_system_self_test :: "'a sched_state_scheme \<Rightarrow> init_state \<Rightarrow> bool \<times> init_state" where
  "init_system_self_test sched s =
     (let expected_active = (if is_graphical_boot s then 10 else 8) in
      if init_system_active_count s \<noteq> expected_active \<or> is_transactions s \<noteq> of_nat expected_active \<or>
         (is_graphical_boot s \<and> \<not> init_system_desktop_active sched s)
      then (False, s)
      else let (ok, s1) = init_system_restart sched ''project-host.service'' s in
        if \<not> ok then (False, s1)
        else (init_system_active_count s1 = expected_active \<and> iu_starts (is_units s1 ! 4) = 2 \<and> iu_stops (is_units s1 ! 4) = 1 \<and>
                is_transactions s1 = of_nat expected_active + 2, s1))"

section \<open>Invariant\<close>

text \<open>The names, dependencies and the mutable flag never change; every dependency has a smaller index.\<close>

definition unit_config :: "init_unit \<Rightarrow> cstring \<times> nat \<times> bool" where
  "unit_config u = (iu_name u, iu_dependency u, iu_mutable u)"

definition transactions_agree :: "init_state \<Rightarrow> bool" where
  "transactions_agree s \<longleftrightarrow> is_transactions s = sum_list (map (\<lambda>u. iu_starts u + iu_stops u) (is_units s))"

definition dependencies_active :: "init_state \<Rightarrow> bool" where
  "dependencies_active s \<longleftrightarrow> (\<forall>i < 10. iu_state (is_units s ! i) = INIT_UNIT_ACTIVE \<longrightarrow>
     (let d = iu_dependency (is_units s ! i) in
      d = NO_DEPENDENCY \<or> iu_state (is_units s ! d) = INIT_UNIT_ACTIVE \<or> iu_mutable (is_units s ! d)))"

definition init_base :: "init_state \<Rightarrow> bool" where
  "init_base s \<longleftrightarrow> map unit_config (is_units s) = map unit_config units_initial \<and> transactions_agree s \<and> dependencies_active s"

lemma units_initial_facts:
  "length units_initial = 10" "i < 10 \<Longrightarrow> iu_dependency (units_initial ! i) = NO_DEPENDENCY \<or> iu_dependency (units_initial ! i) < i"
  by (simp_all add: units_initial_def unit_of_def numeral_eq_Suc less_Suc_eq_0_disj) auto

lemma units_mutable_name: "list_all (\<lambda>u. iu_mutable u \<longrightarrow> iu_name u = ''project-host.service'') units_initial"
  by (simp add: units_initial_def unit_of_def)

lemma init_base_length: "init_base s \<Longrightarrow> length (is_units s) = 10"
  by (metis init_base_def length_map units_initial_facts(1))

lemma init_base_dependency:
  assumes "init_base s" "i < 10"
  shows "iu_dependency (is_units s ! i) = iu_dependency (units_initial ! i)"
proof -
  have "map unit_config (is_units s) ! i = map unit_config units_initial ! i" using assms(1) by (simp add: init_base_def)
  then show ?thesis using assms init_base_length [OF assms(1)] units_initial_facts(1) by (simp add: unit_config_def)
qed

lemma init_base_smaller:
  "init_base s \<Longrightarrow> i < 10 \<Longrightarrow> iu_dependency (is_units s ! i) \<noteq> NO_DEPENDENCY \<Longrightarrow> iu_dependency (is_units s ! i) < i"
  using units_initial_facts(2) [of i] by (simp add: init_base_dependency)

lemma set_unit_simps [simp]:
  "is_transactions (set_unit i f s) = is_transactions s" "length (is_units (set_unit i f s)) = length (is_units s)"
  "i < length (is_units s) \<Longrightarrow> is_units (set_unit i f s) ! j = (if i = j then f (is_units s ! j) else is_units s ! j)"
  by (auto simp: set_unit_def)

lemma map_update_same: "i < length xs \<Longrightarrow> g (f (xs ! i)) = g (xs ! i) \<Longrightarrow> map g (xs[i := f (xs ! i)]) = map g xs"
  by (simp add: map_update list_update_same_conv)

lemma sum_list_replace: "i < length xs \<Longrightarrow> sum_list (map g (xs[i := x])) = sum_list (map g xs) - g (xs ! i) + (g x :: u64)"
proof (induction xs arbitrary: i)
  case (Cons y ys)
  then show ?case by (cases i) (simp_all add: algebra_simps)
qed simp

text \<open>Changing the state of a unit that is not active, or making it active when its dependency is.\<close>

lemma set_unit_base:
  assumes "init_base s" "i < 10" "\<And>u. unit_config (f u) = unit_config u"
    and "iu_starts (f (is_units s ! i)) + iu_stops (f (is_units s ! i)) = iu_starts (is_units s ! i) + iu_stops (is_units s ! i) + n"
    and "iu_state (f (is_units s ! i)) = INIT_UNIT_ACTIVE \<Longrightarrow> iu_state (is_units s ! i) = INIT_UNIT_ACTIVE \<or>
      iu_dependency (is_units s ! i) = NO_DEPENDENCY \<or> iu_state (is_units s ! iu_dependency (is_units s ! i)) = INIT_UNIT_ACTIVE"
    and "iu_state (is_units s ! i) = INIT_UNIT_ACTIVE \<Longrightarrow> iu_state (f (is_units s ! i)) = INIT_UNIT_ACTIVE \<or> iu_mutable (is_units s ! i)"
  shows "init_base ((set_unit i f s)\<lparr>is_transactions := is_transactions s + n\<rparr>)"
proof -
  have l: "length (is_units s) = 10" by (rule init_base_length [OF assms(1)])
  have c: "iu_dependency (f u) = iu_dependency u" "iu_mutable (f u) = iu_mutable u" for u
    using assms(3) [of u] by (simp_all add: unit_config_def)
  have "map unit_config ((is_units s)[i := f (is_units s ! i)]) = map unit_config (is_units s)"
    using assms(2,3) l by (intro map_update_same) simp_all
  moreover have "transactions_agree ((set_unit i f s)\<lparr>is_transactions := is_transactions s + n\<rparr>)"
    using assms(1,2,4) l by (simp add: transactions_agree_def init_base_def set_unit_def sum_list_replace algebra_simps)
  moreover have "dependencies_active ((set_unit i f s)\<lparr>is_transactions := is_transactions s + n\<rparr>)"
    unfolding dependencies_active_def
  proof (intro allI impI)
    fix j :: nat
    let ?s = "(set_unit i f s)\<lparr>is_transactions := is_transactions s + n\<rparr>" and ?d = "iu_dependency (is_units s ! j)"
    assume j: "j < 10" and a: "iu_state (is_units ?s ! j) = INIT_UNIT_ACTIVE"
    have u: "is_units ?s ! k = (if i = k then f (is_units s ! k) else is_units s ! k)" for k using assms(2) l by simp
    have d: "iu_dependency (is_units ?s ! j) = ?d" unfolding u by (simp add: c)
    have old: "iu_state (is_units s ! j) = INIT_UNIT_ACTIVE \<Longrightarrow> ?d = NO_DEPENDENCY \<or> iu_state (is_units s ! ?d) = INIT_UNIT_ACTIVE \<or> iu_mutable (is_units s ! ?d)"
      using assms(1) j by (auto simp: init_base_def dependencies_active_def Let_def)
    have a': "iu_state (if i = j then f (is_units s ! j) else is_units s ! j) = INIT_UNIT_ACTIVE" using a unfolding u .
    from a' old assms(5) have "?d = NO_DEPENDENCY \<or> iu_state (is_units s ! ?d) = INIT_UNIT_ACTIVE \<or> iu_mutable (is_units s ! ?d)"
      by (cases "i = j") auto
    with assms(6) show "let d = iu_dependency (is_units ?s ! j) in d = NO_DEPENDENCY \<or> iu_state (is_units ?s ! d) = INIT_UNIT_ACTIVE \<or> iu_mutable (is_units ?s ! d)"
      unfolding d Let_def u by (cases "i = ?d") (auto simp: c)
  qed
  ultimately show ?thesis using assms(1) by (simp add: init_base_def set_unit_def)
qed

lemma set_unit_base_state:
  assumes "init_base s" "i < 10" "iu_state (is_units s ! i) \<noteq> INIT_UNIT_ACTIVE" "st \<noteq> INIT_UNIT_ACTIVE"
  shows "init_base (set_unit i (\<lambda>u. u\<lparr>iu_state := st\<rparr>) s)"
  using set_unit_base [OF assms(1,2), of "\<lambda>u. u\<lparr>iu_state := st\<rparr>" 0] assms(3,4) by (simp add: unit_config_def set_unit_def)

lemma start_index_spec:
  "init_base s \<Longrightarrow> i < 10 \<Longrightarrow> start_index sched i depth s = (ok, s') \<Longrightarrow>
   init_base s' \<and> (\<forall>j. i < j \<longrightarrow> is_units s' ! j = is_units s ! j) \<and> (ok \<longrightarrow> iu_state (is_units s' ! i) = INIT_UNIT_ACTIVE) \<and>
   (\<forall>j < 10. iu_state (is_units s ! j) = INIT_UNIT_ACTIVE \<longrightarrow> iu_state (is_units s' ! j) = INIT_UNIT_ACTIVE) \<and>
   (\<forall>j < 10. iu_state (is_units s' ! j) = INIT_UNIT_WAITING \<longrightarrow> iu_state (is_units s ! j) = INIT_UNIT_WAITING)"
proof (induction sched i depth s arbitrary: ok s' rule: start_index.induct)
  case (1 sched i depth s)
  show ?case
  proof (cases "depth > length units_initial \<or> iu_state (is_units s ! i) = INIT_UNIT_ACTIVE")
    case True
    with 1(2-4) show ?thesis by (subst (asm) start_index.simps) (auto split: if_splits)
  next
    case False
    let ?d = "iu_dependency (is_units s ! i)"
    define s1 where "s1 = set_unit i (\<lambda>u. u\<lparr>iu_state := INIT_UNIT_WAITING\<rparr>) s"
    obtain ok2 s2 where r: "(if ?d \<noteq> NO_DEPENDENCY then start_index sched ?d (depth + 1) s1 else (True, s1)) = (ok2, s2)" by fastforce
    have l: "length (is_units s) = 10" by (rule init_base_length [OF 1(2)])
    have b1: "init_base s1" unfolding s1_def using 1(2,3) False by (intro set_unit_base_state) simp_all
    have u1: "is_units s1 ! j = (if i = j then (is_units s ! j)\<lparr>iu_state := INIT_UNIT_WAITING\<rparr> else is_units s ! j)" for j
      using l 1(3) by (simp add: s1_def)
    have g: "\<not> (i \<ge> length units_initial \<or> depth > length units_initial)" using False 1(3) by (simp add: units_initial_facts(1))
    have ih: "init_base s2 \<and> (\<forall>j. i \<le> j \<longrightarrow> is_units s2 ! j = is_units s1 ! j) \<and>
        (?d \<noteq> NO_DEPENDENCY \<longrightarrow> ok2 \<longrightarrow> iu_state (is_units s2 ! ?d) = INIT_UNIT_ACTIVE) \<and>
        (\<forall>j < 10. iu_state (is_units s1 ! j) = INIT_UNIT_ACTIVE \<longrightarrow> iu_state (is_units s2 ! j) = INIT_UNIT_ACTIVE) \<and>
        (\<forall>j < 10. iu_state (is_units s2 ! j) = INIT_UNIT_WAITING \<longrightarrow> iu_state (is_units s1 ! j) = INIT_UNIT_WAITING)"
    proof (cases "?d = NO_DEPENDENCY")
      case True
      with r b1 show ?thesis by simp
    next
      case d: False
      have lt: "?d < i" using init_base_smaller [OF 1(2,3) d] .
      with r d have c: "start_index sched ?d (depth + 1) s1 = (ok2, s2)" by simp
      have "iu_state (is_units s ! i) \<noteq> INIT_UNIT_ACTIVE" "?d < 10" using False lt 1(3) by simp_all
      from 1(1) [OF g this(1) s1_def refl d b1 this(2) c] lt show ?thesis by (auto simp: less_le_trans)
    qed
    have u2: "iu_state (is_units s2 ! i) = INIT_UNIT_WAITING" "iu_dependency (is_units s2 ! i) = ?d" using ih by (simp_all add: u1)
    have l2: "length (is_units s2) = 10" using ih init_base_length by blast
    have e: "start_index sched i depth s =
      (if \<not> ok2 \<or> (i = 8 \<and> \<not> compositor_alive (iu_process_id (is_units s2 ! i)) sched)
       then (False, set_unit i (\<lambda>u. u\<lparr>iu_state := INIT_UNIT_FAILED\<rparr>) s2)
       else (True, (set_unit i (\<lambda>u. u\<lparr>iu_state := INIT_UNIT_ACTIVE, iu_starts := iu_starts u + 1\<rparr>) s2)\<lparr>is_transactions := is_transactions s2 + 1\<rparr>))"
    proof -
      have "(i \<ge> length units_initial \<or> depth > length units_initial) = False" "(iu_state (is_units s ! i) = INIT_UNIT_ACTIVE) = False"
        using g False by simp_all
      then show ?thesis
        by (subst start_index.simps) (simp only: if_False Let_def s1_def [symmetric] r case_prod_conv)
    qed
    have m: "iu_state (is_units s2 ! j) = INIT_UNIT_ACTIVE" if "j < 10" "iu_state (is_units s ! j) = INIT_UNIT_ACTIVE" for j
    proof -
      have "j \<noteq> i" using that False by blast
      with that(2) have "iu_state (is_units s1 ! j) = INIT_UNIT_ACTIVE" by (simp add: u1)
      with ih that(1) show ?thesis by blast
    qed
    have w: "iu_state (is_units s ! j) = INIT_UNIT_WAITING" if "j < 10" "j \<noteq> i" "iu_state (is_units s2 ! j) = INIT_UNIT_WAITING" for j
    proof -
      have "iu_state (is_units s1 ! j) = INIT_UNIT_WAITING" using ih that(1,3) by blast
      with that(2) show ?thesis by (simp add: u1)
    qed
    have k: "is_units s2 ! j = is_units s ! j" if "i < j" for j using ih that u1 by simp
    have step: ?thesis if "init_base s'" "\<And>j. j \<noteq> i \<Longrightarrow> is_units s' ! j = is_units s2 ! j"
      "iu_state (is_units s' ! i) = (if ok then INIT_UNIT_ACTIVE else INIT_UNIT_FAILED)"
    proof (intro conjI allI impI)
      fix j :: nat
      show "is_units s' ! j = is_units s ! j" if "i < j" using that k [OF that] \<open>\<And>j. j \<noteq> i \<Longrightarrow> is_units s' ! j = is_units s2 ! j\<close> by simp
      show "iu_state (is_units s' ! j) = INIT_UNIT_ACTIVE" if h: "j < 10" "iu_state (is_units s ! j) = INIT_UNIT_ACTIVE"
      proof -
        have "j \<noteq> i" using h False by blast
        then show ?thesis using m [OF h] \<open>\<And>j. j \<noteq> i \<Longrightarrow> is_units s' ! j = is_units s2 ! j\<close> by simp
      qed
      show "iu_state (is_units s ! j) = INIT_UNIT_WAITING" if h: "j < 10" "iu_state (is_units s' ! j) = INIT_UNIT_WAITING"
      proof -
        have "j \<noteq> i" using h(2) \<open>iu_state (is_units s' ! i) = _\<close> by (auto split: if_splits)
        then show ?thesis using w [OF h(1)] h(2) \<open>\<And>j. j \<noteq> i \<Longrightarrow> is_units s' ! j = is_units s2 ! j\<close> by simp
      qed
    qed (use that in simp_all)
    show ?thesis
    proof (cases "\<not> ok2 \<or> (i = 8 \<and> \<not> compositor_alive (iu_process_id (is_units s2 ! i)) sched)")
      case True
      then have s': "ok = False" "s' = set_unit i (\<lambda>u. u\<lparr>iu_state := INIT_UNIT_FAILED\<rparr>) s2"
        using trans [OF 1(4) [symmetric] e] unfolding if_P [OF True] by simp_all
      have "init_base s'" unfolding s' using ih 1(3) u2 by (intro set_unit_base_state) simp_all
      moreover have "is_units s' ! j = (if i = j then (is_units s2 ! j)\<lparr>iu_state := INIT_UNIT_FAILED\<rparr> else is_units s2 ! j)" for j
        using l2 1(3) by (simp add: s')
      ultimately show ?thesis by (intro step) (simp_all add: s')
    next
      case ok: False
      then have s': "ok = True" "s' = (set_unit i (\<lambda>u. u\<lparr>iu_state := INIT_UNIT_ACTIVE, iu_starts := iu_starts u + 1\<rparr>) s2)\<lparr>is_transactions := is_transactions s2 + 1\<rparr>"
        using trans [OF 1(4) [symmetric] e] unfolding if_not_P [OF ok] by simp_all
      have dep: "?d = NO_DEPENDENCY \<or> iu_state (is_units s2 ! ?d) = INIT_UNIT_ACTIVE" using ih ok by blast
      have "init_base s2" using ih by blast
      then have "init_base s'" unfolding s' using 1(3)
        by (rule set_unit_base) (use u2 dep in \<open>simp_all add: unit_config_def\<close>)
      moreover have "is_units s' ! j = (if i = j then (is_units s2 ! j)\<lparr>iu_state := INIT_UNIT_ACTIVE, iu_starts := iu_starts (is_units s2 ! j) + 1\<rparr> else is_units s2 ! j)" for j
        using l2 1(3) by (simp add: s')
      ultimately show ?thesis by (intro step) (simp_all add: s')
    qed
  qed
qed

section \<open>Reachable states\<close>

text \<open>The scheduler may be in any state whenever the manager runs.\<close>

inductive init_reachable :: "init_state \<Rightarrow> bool" where
  init: "init_reachable (init_system_init \<lparr>is_units = units_initial, is_transactions = t, is_graphical_boot = g\<rparr>)"
| boot: "init_reachable s \<Longrightarrow> init_reachable (snd (init_system_reach_boot_target (sched :: sched_state) pid s))"
| start: "init_reachable s \<Longrightarrow> init_reachable (snd (init_system_start (sched :: sched_state) name s))"
| stop: "init_reachable s \<Longrightarrow> init_reachable (snd (init_system_stop name s))"
| restart: "init_reachable s \<Longrightarrow> init_reachable (snd (init_system_restart (sched :: sched_state) name s))"

definition init_inv :: "init_state \<Rightarrow> bool" where
  "init_inv s \<longleftrightarrow> init_base s \<and> (\<forall>i < 10. iu_state (is_units s ! i) \<noteq> INIT_UNIT_WAITING)"

lemma start_index_inv: "init_inv s \<Longrightarrow> i < 10 \<Longrightarrow> init_inv (snd (start_index sched i depth s))"
  using start_index_spec [of s i sched depth _ "snd (start_index sched i depth s)"] unfolding init_inv_def
  by (metis prod.collapse)

lemma find_unit_bound: "init_base s \<Longrightarrow> find_unit name s = Some i \<Longrightarrow> i < 10"
  using first_index_SomeD init_base_length by (fastforce simp: find_unit_def)

lemma init_start_inv: "init_inv s \<Longrightarrow> init_inv (snd (init_system_start sched name s))"
  using find_unit_bound [of s name] start_index_inv [of s _ sched 0] by (auto simp: init_system_start_def init_inv_def split: option.splits)

lemma init_stop_inv:
  assumes "init_inv s"
  shows "init_inv (snd (init_system_stop name s))"
proof (cases "find_unit name s")
  case (Some i)
  have b: "init_base s" "i < 10" using assms find_unit_bound [OF _ Some] by (simp_all add: init_inv_def)
  let ?f = "\<lambda>u. u\<lparr>iu_state := INIT_UNIT_INACTIVE, iu_stops := iu_stops u + 1\<rparr>"
  have "init_base ((set_unit i ?f s)\<lparr>is_transactions := is_transactions s + 1\<rparr>)" if "iu_mutable (is_units s ! i)"
    using b that by (intro set_unit_base) (simp_all add: unit_config_def)
  with assms Some b init_base_length [OF b(1)] show ?thesis by (auto simp: init_system_stop_def init_inv_def)
qed (use assms in \<open>simp add: init_system_stop_def\<close>)

lemma set_process_inv: "init_inv s \<Longrightarrow> init_inv ((set_unit 8 (\<lambda>u. u\<lparr>iu_process_id := pid\<rparr>) s)\<lparr>is_graphical_boot := b\<rparr>)"
proof -
  assume i: "init_inv s"
  then have "init_base ((set_unit 8 (\<lambda>u. u\<lparr>iu_process_id := pid\<rparr>) s)\<lparr>is_transactions := is_transactions s + 0\<rparr>)"
    by (intro set_unit_base) (simp_all add: init_inv_def unit_config_def)
  moreover have "init_base (t\<lparr>is_graphical_boot := b\<rparr>) = init_base t" for t
    by (simp add: init_base_def transactions_agree_def dependencies_active_def)
  ultimately show ?thesis using i init_base_length [of s] by (auto simp: init_inv_def set_unit_def nth_list_update)
qed

lemma init_boot_inv: "init_inv s \<Longrightarrow> init_inv (snd (init_system_reach_boot_target sched pid s))"
proof -
  assume i: "init_inv s"
  obtain ok1 s1 where 1: "start_index sched 7 0 s = (ok1, s1)" by fastforce
  obtain ok2 s2 where 2: "start_index sched 6 0 s1 = (ok2, s2)" by fastforce
  have i1: "init_inv s1" using start_index_inv [OF i, of 7 sched 0] 1 by simp
  have i2: "init_inv s2" using start_index_inv [OF i1, of 6 sched 0] 2 by simp
  show ?thesis using i1 i2 start_index_inv [OF set_process_inv [OF i2], of 9 sched 0] by (simp add: init_system_reach_boot_target_def 1 2)
qed

lemma init_restart_inv: "init_inv s \<Longrightarrow> init_inv (snd (init_system_restart sched name s))"
proof -
  assume i: "init_inv s"
  obtain ok s1 where 1: "init_system_stop name s = (ok, s1)" by fastforce
  have "init_inv s1" using init_stop_inv [OF i, of name] 1 by simp
  with i init_start_inv [of _ sched name] show ?thesis by (auto simp: init_system_restart_def 1 split: option.splits)
qed

lemma init_init_inv: "init_inv (init_system_init \<lparr>is_units = units_initial, is_transactions = t, is_graphical_boot = g\<rparr>)"
proof -
  let ?s = "init_system_init \<lparr>is_units = units_initial, is_transactions = t, is_graphical_boot = g\<rparr>"
  have "iu_state (is_units ?s ! i) = INIT_UNIT_INACTIVE" if "i < 10" for i
    using that by (simp add: init_system_init_def units_initial_facts(1))
  moreover have "map unit_config (is_units ?s) = map unit_config units_initial"
    by (simp add: init_system_init_def unit_config_def comp_def)
  moreover have "transactions_agree ?s" by (simp add: transactions_agree_def init_system_init_def units_initial_def)
  ultimately show ?thesis by (simp add: init_inv_def init_base_def dependencies_active_def)
qed

text \<open>
  Claim C38: services start in order. In every reachable state of the service manager an active unit's dependency is active, unless
  the dependency is the one unit that may be stopped by hand; no unit is left waiting; the units are the ten of the
  table; and the number of transactions is the number of starts and stops of all units.
\<close>

theorem init_units_consistent:
  assumes "init_reachable s"
  shows "(\<forall>i < 10. iu_state (is_units s ! i) = INIT_UNIT_ACTIVE \<longrightarrow>
       (let d = iu_dependency (is_units s ! i) in
        d = NO_DEPENDENCY \<or> iu_state (is_units s ! d) = INIT_UNIT_ACTIVE \<or> iu_name (is_units s ! d) = ''project-host.service'')) \<and>
    (\<forall>i < 10. iu_state (is_units s ! i) \<noteq> INIT_UNIT_WAITING) \<and>
    map iu_name (is_units s) = map iu_name units_initial \<and>
    is_transactions s = sum_list (map (\<lambda>u. iu_starts u + iu_stops u) (is_units s))"
proof -
  have i: "init_inv s" using assms
    by (induction rule: init_reachable.induct) (simp_all add: init_init_inv init_boot_inv init_start_inv init_stop_inv init_restart_inv)
  then have b: "map unit_config (is_units s) = map unit_config units_initial" by (simp add: init_inv_def init_base_def)
  have l: "length (is_units s) = 10" using i init_base_length by (simp add: init_inv_def)
  have n: "map iu_name (is_units s) = map iu_name units_initial"
    using arg_cong [OF b, of "map fst"] by (simp add: unit_config_def comp_def)
  have m: "iu_name (is_units s ! d) = ''project-host.service''" if "d < 10" "iu_mutable (is_units s ! d)" for d
  proof -
    have "unit_config (is_units s ! d) = unit_config (units_initial ! d)"
      using b l that(1) units_initial_facts(1) by (metis nth_map)
    then have e: "iu_mutable (units_initial ! d)" "iu_name (is_units s ! d) = iu_name (units_initial ! d)"
      using that(2) by (simp_all add: unit_config_def)
    have "iu_name (units_initial ! d) = ''project-host.service''"
      by (rule units_mutable_name [THEN iffD1 [OF list_all_length], rule_format])
        (use e(1) that(1) units_initial_facts(1) in \<open>simp_all only:\<close>)
    with e(2) show ?thesis by simp
  qed
  have "iu_dependency (is_units s ! j) < 10" if "j < 10" "iu_dependency (is_units s ! j) \<noteq> NO_DEPENDENCY" for j
    using init_base_smaller [of s j] i that by (simp add: init_inv_def)
  with m have m': "iu_name (is_units s ! iu_dependency (is_units s ! j)) = ''project-host.service''"
    if "j < 10" "iu_dependency (is_units s ! j) \<noteq> NO_DEPENDENCY" "iu_mutable (is_units s ! iu_dependency (is_units s ! j))" for j
    using that by blast
  have d: "dependencies_active s" "transactions_agree s" "\<forall>i < 10. iu_state (is_units s ! i) \<noteq> INIT_UNIT_WAITING"
    using i by (simp_all add: init_inv_def init_base_def)
  show ?thesis
  proof (intro conjI)
    show "\<forall>i < 10. iu_state (is_units s ! i) = INIT_UNIT_ACTIVE \<longrightarrow>
       (let d = iu_dependency (is_units s ! i) in
        d = NO_DEPENDENCY \<or> iu_state (is_units s ! d) = INIT_UNIT_ACTIVE \<or> iu_name (is_units s ! d) = ''project-host.service'')"
      using d(1) m' unfolding dependencies_active_def Let_def by blast
  qed (use d n in \<open>simp_all only: transactions_agree_def\<close>)
qed

theorem init_units_consistent_witness:
  "init_reachable (snd (init_system_stop ''project-host.service'' (snd (init_system_reach_boot_target sched_blank 0
      (init_system_init \<lparr>is_units = units_initial, is_transactions = 0, is_graphical_boot = False\<rparr>))))) \<and>
   is_transactions (snd (init_system_stop ''project-host.service'' (snd (init_system_reach_boot_target sched_blank 0
      (init_system_init \<lparr>is_units = units_initial, is_transactions = 0, is_graphical_boot = False\<rparr>))))) = 9"
proof -
  let ?s = "snd (init_system_stop ''project-host.service'' (snd (init_system_reach_boot_target sched_blank 0
      (init_system_init \<lparr>is_units = units_initial, is_transactions = 0, is_graphical_boot = False\<rparr>))))"
  have r: "init_reachable ?s" by (intro init_reachable.intros)
  have "sum_list (map (\<lambda>u. iu_starts u + iu_stops u) (is_units ?s)) = 9" by code_simp
  with init_units_consistent [OF r] r show ?thesis by simp
qed

section \<open>Boot\<close>

definition init_boot_state :: init_state where
  "init_boot_state = init_system_init \<lparr>is_units = units_initial, is_transactions = 0, is_graphical_boot = False\<rparr>"

text \<open>The units after a boot that started the first n of them; the compositor's unit carries its process.\<close>

definition booted_units :: "nat \<Rightarrow> init_unit_state \<Rightarrow> u32 \<Rightarrow> init_unit list" where
  "booted_units n st pid = map (\<lambda>(i, u). if i < n then u\<lparr>iu_state := INIT_UNIT_ACTIVE, iu_starts := 1, iu_process_id := if i = 8 then pid else 0\<rparr>
     else u\<lparr>iu_state := st, iu_process_id := if i = 8 then pid else 0\<rparr>) (enumerate 0 units_initial)"

lemma boot_text_exact:
  "init_system_reach_boot_target sched 0 init_boot_state =
   (True, \<lparr>is_units = booted_units 8 INIT_UNIT_INACTIVE 0, is_transactions = 8, is_graphical_boot = False\<rparr>)"
  by code_simp

lemma boot_text_start:
  "start_index sched 7 0 init_boot_state = (True, snd (start_index sched 7 0 init_boot_state))"
  "start_index sched 6 0 (snd (start_index sched 7 0 init_boot_state)) =
   (True, \<lparr>is_units = booted_units 8 INIT_UNIT_INACTIVE 0, is_transactions = 8, is_graphical_boot = False\<rparr>)"
  by code_simp+

lemma set_process_boot: 
  "(set_unit 8 (\<lambda>u. u\<lparr>iu_process_id := pid\<rparr>) \<lparr>is_units = booted_units 8 INIT_UNIT_INACTIVE 0, is_transactions = 8, is_graphical_boot = False\<rparr>)
     \<lparr>is_graphical_boot := True\<rparr> = \<lparr>is_units = booted_units 8 INIT_UNIT_INACTIVE pid, is_transactions = 8, is_graphical_boot = True\<rparr>"
  by code_simp

lemma boot_desktop:
  "start_index sched 9 0 \<lparr>is_units = booted_units 8 INIT_UNIT_INACTIVE pid, is_transactions = 8, is_graphical_boot = True\<rparr> =
   (if compositor_alive pid sched then
     (True, \<lparr>is_units = booted_units 10 INIT_UNIT_INACTIVE pid, is_transactions = 10, is_graphical_boot = True\<rparr>)
    else (False, \<lparr>is_units = booted_units 8 INIT_UNIT_FAILED pid, is_transactions = 8, is_graphical_boot = True\<rparr>))"
  by (simp add: start_index.simps set_unit_def booted_units_def units_initial_def unit_of_def)

lemma length_booted: "length (booted_units n st pid) = 10"
  by (simp add: booted_units_def units_initial_facts(1))

lemma failed_active_count:
  "init_system_active_count \<lparr>is_units = booted_units 8 INIT_UNIT_FAILED pid, is_transactions = t, is_graphical_boot = b\<rparr> = 8"
  by code_simp

lemma self_test_text:
  "fst (init_system_self_test sched \<lparr>is_units = booted_units 8 INIT_UNIT_INACTIVE 0, is_transactions = 8, is_graphical_boot = False\<rparr>)"
  by code_simp

lemma desktop_active_booted:
  "init_system_desktop_active sched \<lparr>is_units = booted_units 10 INIT_UNIT_INACTIVE pid, is_transactions = 10, is_graphical_boot = True\<rparr> =
   (case scheduler_snapshot (unat pid) sched of None \<Rightarrow> False
    | Some process \<Rightarrow> snap_state process = SCHEDULER_TASK_BLOCKED \<or> snap_state process = SCHEDULER_TASK_READY)"
  by (simp add: init_system_desktop_active_def booted_units_def units_initial_def unit_of_def)

lemma desktop_restart:
  "init_system_restart sched ''project-host.service''
     \<lparr>is_units = booted_units 10 INIT_UNIT_INACTIVE pid, is_transactions = 10, is_graphical_boot = True\<rparr> =
   (True, \<lparr>is_units = (booted_units 10 INIT_UNIT_INACTIVE pid)[4 := (booted_units 10 INIT_UNIT_INACTIVE pid ! 4)\<lparr>iu_starts := 2, iu_stops := 1\<rparr>],
     is_transactions = 12, is_graphical_boot = True\<rparr>)"
  by code_simp

lemma desktop_active_count:
  "init_system_active_count \<lparr>is_units = booted_units 10 INIT_UNIT_INACTIVE pid, is_transactions = t, is_graphical_boot = b\<rparr> = 10"
  "init_system_active_count \<lparr>is_units = (booted_units 10 INIT_UNIT_INACTIVE pid)[4 := (booted_units 10 INIT_UNIT_INACTIVE pid ! 4)\<lparr>iu_starts := 2, iu_stops := 1\<rparr>],
     is_transactions = t, is_graphical_boot = b\<rparr> = 10"
  by code_simp+

lemma self_test_desktop:
  "compositor_alive pid sched \<Longrightarrow>
   fst (init_system_self_test sched \<lparr>is_units = booted_units 10 INIT_UNIT_INACTIVE pid, is_transactions = 10, is_graphical_boot = True\<rparr>)"
  by (auto simp: init_system_self_test_def desktop_active_booted desktop_restart desktop_active_count compositor_alive_def Let_def
      length_booted split: option.splits)

text \<open>
  Claim C39: the boot of the service manager. From its initial state the manager reaches its boot target exactly when no compositor
  was asked for or the compositor's process is alive, whatever the scheduler holds; it then passes its own self
  test, which stops and restarts the project host; and with a compositor the desktop counts as active.
\<close>

theorem init_boot_complete:
  "let (ok, s) = init_system_reach_boot_target sched pid init_boot_state in
   ok = (pid = 0 \<or> compositor_alive pid sched) \<and> ok = fst (init_system_self_test sched s) \<and>
   init_system_desktop_active sched s = compositor_alive pid sched"
proof (cases "pid = 0")
  case True
  then show ?thesis
    using self_test_text [of sched] by (simp add: boot_text_exact compositor_alive_def init_system_desktop_active_def)
next
  case False
  then have b: "init_system_reach_boot_target sched pid init_boot_state =
    (if compositor_alive pid sched then
       (True, \<lparr>is_units = booted_units 10 INIT_UNIT_INACTIVE pid, is_transactions = 10, is_graphical_boot = True\<rparr>)
     else (False, \<lparr>is_units = booted_units 8 INIT_UNIT_FAILED pid, is_transactions = 8, is_graphical_boot = True\<rparr>))"
  proof -
    obtain s1 where s1: "start_index sched 7 0 init_boot_state = (True, s1)" using boot_text_start(1) [of sched] by blast
    with boot_text_start(2) [of sched] False show ?thesis
      by (simp add: init_system_reach_boot_target_def set_process_boot boot_desktop)
  qed
  have "\<not> init_system_desktop_active sched \<lparr>is_units = booted_units 8 INIT_UNIT_FAILED pid, is_transactions = 8, is_graphical_boot = True\<rparr>"
    by (simp add: init_system_desktop_active_def booted_units_def units_initial_def unit_of_def)
  with False self_test_desktop [of pid sched] show ?thesis unfolding b
    by (auto simp: init_system_self_test_def failed_active_count desktop_active_booted compositor_alive_def split: option.splits)
qed

end
