(* ===== verification/Interrupts.thy ===== *)
theory Interrupts
  imports Process Raster
begin

unbundle bit_operations_syntax

text \<open>
  The interrupt side of the kernel: \<open>src/src/arch/x86_64/interrupts.c\<close> (descriptor table, keyboard and mouse behind the PS/2
  controller, timer) and the polling of the USB tablet in \<open>src/src/usb_uhci.c\<close>. The machine's ports are a parameter of
  the definitions that read or write them.
\<close>

section \<open>Ports\<close>

text \<open>What reading a port answers and what reading and writing do to the devices, whose state has the type \<open>'d\<close>.\<close>

record 'd io_ports =
  port_in :: "u16 \<Rightarrow> 'd \<Rightarrow> u8 \<times> 'd"
  port_out :: "u16 \<Rightarrow> u8 \<Rightarrow> 'd \<Rightarrow> 'd"

section \<open>State\<close>

text \<open>
  The static variables of both files. \<open>dv_devices\<close> is the state behind the ports and \<open>dv_kernel\<close> the rest of the kernel, which the
  handlers reach through \<open>input_publish\<close> and the scheduler. The report buffer and the status word of the USB
  transfer are memory the controller writes.
\<close>

record ('d, 'k) drv_state =
  dv_devices :: 'd
  dv_kernel :: 'k
  dv_timer_ticks :: u64
  dv_breakpoint_count :: u64
  kb_buffer :: "u8 list"
  kb_read :: u8
  kb_write :: u8
  kb_irqs :: u64
  kb_characters :: u64
  kb_ready :: bool
  kb_shift :: bool
  kb_caps_lock :: bool
  kb_alt :: bool
  kb_super :: bool
  kb_ctrl :: bool
  kb_extended :: bool
  ms_irqs :: u64
  ms_packets :: u64
  ms_ready :: bool
  ms_wheel :: bool
  ms_packet :: "u8 list"
  ms_packet_index :: u8
  ms_button_state :: u8
  pointer_x :: int
  pointer_y :: int
  pointer_max_x :: int
  pointer_max_y :: int
  us_present :: bool
  us_poll_active :: bool
  us_report_buffer :: "u8 list"
  us_report_toggle :: u8
  us_td_control_status :: u32
  us_td_token :: u32
  us_bound_x :: u32
  us_bound_y :: u32

definition in8 :: "'d io_ports \<Rightarrow> u16 \<Rightarrow> ('d, 'k) drv_state \<Rightarrow> u8 \<times> ('d, 'k) drv_state" where
  "in8 io port s = (let (value, d) = port_in io port (dv_devices s) in (value, s\<lparr>dv_devices := d\<rparr>))"

definition out8 :: "'d io_ports \<Rightarrow> u16 \<Rightarrow> u8 \<Rightarrow> ('d, 'k) drv_state \<Rightarrow> ('d, 'k) drv_state" where
  "out8 io port value s = s\<lparr>dv_devices := port_out io port value (dv_devices s)\<rparr>"

section \<open>The PS/2 controller\<close>

text \<open>Steps that may fail, one after the other: the conjunctions of calls in the code.\<close>

fun all_of :: "('s \<Rightarrow> bool \<times> 's) list \<Rightarrow> 's \<Rightarrow> bool \<times> 's" where
  "all_of [] s = (True, s)"
| "all_of (f # fs) s = (let (ok, s1) = f s in if ok then all_of fs s1 else (False, s1))"

text \<open>The two waiting loops of at most 100000 reads of the status port.\<close>

fun poll_status :: "'d io_ports \<Rightarrow> (u8 \<Rightarrow> bool) \<Rightarrow> nat \<Rightarrow> ('d, 'k) drv_state \<Rightarrow> bool \<times> ('d, 'k) drv_state" where
  "poll_status io done 0 s = (False, s)"
| "poll_status io done (Suc n) s =
     (let (status, s1) = in8 io 0x64 s in if done status then (True, s1) else poll_status io done n s1)"

definition ps2_wait_input_empty :: "'d io_ports \<Rightarrow> ('d, 'k) drv_state \<Rightarrow> bool \<times> ('d, 'k) drv_state" where
  "ps2_wait_input_empty io = poll_status io (\<lambda>status. status AND 0x02 = 0) 100000"

definition ps2_wait_output_full :: "'d io_ports \<Rightarrow> ('d, 'k) drv_state \<Rightarrow> bool \<times> ('d, 'k) drv_state" where
  "ps2_wait_output_full io = poll_status io (\<lambda>status. status AND 0x01 \<noteq> 0) 100000"

definition ps2_command :: "'d io_ports \<Rightarrow> u8 \<Rightarrow> ('d, 'k) drv_state \<Rightarrow> bool \<times> ('d, 'k) drv_state" where
  "ps2_command io command s =
     (let (ok, s1) = ps2_wait_input_empty io s in if \<not> ok then (False, s1) else (True, out8 io 0x64 command s1))"

definition ps2_data :: "'d io_ports \<Rightarrow> u8 \<Rightarrow> ('d, 'k) drv_state \<Rightarrow> bool \<times> ('d, 'k) drv_state" where
  "ps2_data io value s =
     (let (ok, s1) = ps2_wait_input_empty io s in if \<not> ok then (False, s1) else (True, out8 io 0x60 value s1))"

definition ps2_read :: "'d io_ports \<Rightarrow> ('d, 'k) drv_state \<Rightarrow> u8 option \<times> ('d, 'k) drv_state" where
  "ps2_read io s =
     (let (ok, s1) = ps2_wait_output_full io s in
      if \<not> ok then (None, s1) else let (value, s2) = in8 io 0x60 s1 in (Some value, s2))"

text \<open>Without and with the address of a reply.\<close>

definition ps2_mouse_command :: "'d io_ports \<Rightarrow> u8 \<Rightarrow> ('d, 'k) drv_state \<Rightarrow> bool \<times> ('d, 'k) drv_state" where
  "ps2_mouse_command io command s =
     (let (ok, s1) = all_of [ps2_command io 0xD4, ps2_data io command] s in
      if \<not> ok then (False, s1) else let (response, s2) = ps2_read io s1 in (response = Some 0xFA, s2))"

definition ps2_mouse_command_reply :: "'d io_ports \<Rightarrow> u8 \<Rightarrow> ('d, 'k) drv_state \<Rightarrow> u8 option \<times> ('d, 'k) drv_state" where
  "ps2_mouse_command_reply io command s =
     (let (ok, s1) = ps2_mouse_command io command s in if \<not> ok then (None, s1) else ps2_read io s1)"

fun flush_reads :: "'d io_ports \<Rightarrow> nat \<Rightarrow> ('d, 'k) drv_state \<Rightarrow> ('d, 'k) drv_state" where
  "flush_reads io 0 s = s"
| "flush_reads io (Suc n) s =
     (let (status, s1) = in8 io 0x64 s in if status AND 0x01 \<noteq> 0 then flush_reads io n (snd (in8 io 0x60 s1)) else s1)"

definition ps2_flush_output :: "'d io_ports \<Rightarrow> ('d, 'k) drv_state \<Rightarrow> ('d, 'k) drv_state" where
  "ps2_flush_output io s = flush_reads io 32 s"

definition ps2_keyboard_start :: "'d io_ports \<Rightarrow> ('d, 'k) drv_state \<Rightarrow> bool \<times> ('d, 'k) drv_state" where
  "ps2_keyboard_start io s =
     (let (ok, s1) = all_of [ps2_command io 0xAD, ps2_command io 0xA7] s in
      if \<not> ok then (False, s1)
      else let (ok, s2) = all_of [ps2_command io 0x20, ps2_wait_output_full io] (ps2_flush_output io s1) in
        if \<not> ok then (False, s2)
        else let (configuration, s3) = in8 io 0x60 s2;
                 (ok, s4) = all_of [ps2_command io 0x60, ps2_data io ((configuration OR 0x43) AND NOT 0x30), ps2_command io 0xAE,
                   ps2_command io 0xA8, ps2_data io 0xF4, ps2_wait_output_full io] s3 in
          if \<not> ok then (False, s4)
          else let (reply, s5) = in8 io 0x60 s4 in
            if reply \<noteq> 0xFA then (False, s5)
            else (True, s5\<lparr>kb_read := 0, kb_write := 0, kb_shift := False, kb_caps_lock := False, kb_alt := False,
                   kb_super := False, kb_ctrl := False, kb_extended := False\<rparr>))"

definition ps2_mouse_rate :: "'d io_ports \<Rightarrow> u8 \<Rightarrow> ('d, 'k) drv_state \<Rightarrow> bool \<times> ('d, 'k) drv_state" where
  "ps2_mouse_rate io rate = all_of [ps2_mouse_command io 0xF3, ps2_mouse_command io rate]"

text \<open>The query for a wheel; when a step fails, the wheel flag keeps its value.\<close>

definition mouse_negotiate :: "'d io_ports \<Rightarrow> ('d, 'k) drv_state \<Rightarrow> ('d, 'k) drv_state" where
  "mouse_negotiate io s =
     (let (ok, s1) = all_of [ps2_mouse_rate io 200, ps2_mouse_rate io 100, ps2_mouse_rate io 80] s in
      if \<not> ok then s1
      else case ps2_mouse_command_reply io 0xF2 s1 of
        (None, s2) \<Rightarrow> s2
      | (Some device_id, s2) \<Rightarrow> s2\<lparr>ms_wheel := device_id = 3 \<or> device_id = 4\<rparr>)"

definition ps2_mouse_start :: "'d io_ports \<Rightarrow> ('d, 'k) drv_state \<Rightarrow> bool \<times> ('d, 'k) drv_state" where
  "ps2_mouse_start io s =
     (let (ok, s1) = ps2_mouse_command io 0xF6 s in
      if \<not> ok then (False, s1)
      else let (ok, s2) = all_of [ps2_mouse_command io 0xE6, ps2_mouse_rate io 200, ps2_mouse_command io 0xF4] (mouse_negotiate io s1) in
        if \<not> ok then (False, s2)
        else (True, s2\<lparr>ms_packet_index := 0, ms_button_state := 0, pointer_x := pointer_max_x s2 div 2, pointer_y := pointer_max_y s2 div 2\<rparr>))"

section \<open>Keyboard\<close>

definition unshifted_table :: "(u8 \<times> u8) list" where
  "unshifted_table =
    [(0x02, 49), (0x03, 50), (0x04, 51), (0x05, 52), (0x06, 53), (0x07, 54), (0x08, 55), (0x09, 56), (0x0A, 57), (0x0B, 48), 
     (0x0C, 45), (0x0D, 61), (0x0E, 8), (0x0F, 9), (0x10, 113), (0x11, 119), (0x12, 101), (0x13, 114), (0x14, 116), 
     (0x15, 121), (0x16, 117), (0x17, 105), (0x18, 111), (0x19, 112), (0x1A, 91), (0x1B, 93), (0x1C, 10), (0x1E, 97), 
     (0x1F, 115), (0x20, 100), (0x21, 102), (0x22, 103), (0x23, 104), (0x24, 106), (0x25, 107), (0x26, 108), (0x27, 59), 
     (0x28, 39), (0x29, 96), (0x2B, 92), (0x2C, 122), (0x2D, 120), (0x2E, 99), (0x2F, 118), (0x30, 98), (0x31, 110), 
     (0x32, 109), (0x33, 44), (0x34, 46), (0x35, 47), (0x39, 32)]"

definition shifted_table :: "(u8 \<times> u8) list" where
  "shifted_table =
    [(0x02, 33), (0x03, 64), (0x04, 35), (0x05, 36), (0x06, 37), (0x07, 94), (0x08, 38), (0x09, 42), (0x0A, 40), (0x0B, 41), 
     (0x0C, 95), (0x0D, 43), (0x0E, 8), (0x0F, 9), (0x10, 81), (0x11, 87), (0x12, 69), (0x13, 82), (0x14, 84), (0x15, 89), 
     (0x16, 85), (0x17, 73), (0x18, 79), (0x19, 80), (0x1A, 123), (0x1B, 125), (0x1C, 10), (0x1E, 65), (0x1F, 83), 
     (0x20, 68), (0x21, 70), (0x22, 71), (0x23, 72), (0x24, 74), (0x25, 75), (0x26, 76), (0x27, 58), (0x28, 34), 
     (0x29, 126), (0x2B, 124), (0x2C, 90), (0x2D, 88), (0x2E, 67), (0x2F, 86), (0x30, 66), (0x31, 78), (0x32, 77), 
     (0x33, 60), (0x34, 62), (0x35, 63), (0x39, 32)]"

text \<open>The two arrays of 128 characters; keys that are not listed have the value 0.\<close>

definition char_of_key :: "(u8 \<times> u8) list \<Rightarrow> u8 \<Rightarrow> u8" where
  "char_of_key table code = (case map_of table code of None \<Rightarrow> 0 | Some c \<Rightarrow> c)"

definition unshifted :: "u8 \<Rightarrow> u8" where "unshifted = char_of_key unshifted_table"

definition shifted :: "u8 \<Rightarrow> u8" where "shifted = char_of_key shifted_table"

abbreviation (input) KEYBOARD_CHAR_HISTORY_UP :: u8 where "KEYBOARD_CHAR_HISTORY_UP \<equiv> 0x11"
abbreviation (input) KEYBOARD_CHAR_HISTORY_DOWN :: u8 where "KEYBOARD_CHAR_HISTORY_DOWN \<equiv> 0x12"
abbreviation (input) KEYBOARD_CHAR_LEFT :: u8 where "KEYBOARD_CHAR_LEFT \<equiv> 0x1E"
abbreviation (input) KEYBOARD_CHAR_RIGHT :: u8 where "KEYBOARD_CHAR_RIGHT \<equiv> 0x1F"
abbreviation (input) KEYBOARD_CHAR_HOME :: u8 where "KEYBOARD_CHAR_HOME \<equiv> 0x1B"
abbreviation (input) KEYBOARD_CHAR_END :: u8 where "KEYBOARD_CHAR_END \<equiv> 0x1C"
abbreviation (input) KEYBOARD_CHAR_DELETE :: u8 where "KEYBOARD_CHAR_DELETE \<equiv> 0x7F"

definition modifier_bits :: "('d, 'k) drv_state \<Rightarrow> u32" where
  "modifier_bits s = (if kb_shift s then 1 else 0) OR (if kb_caps_lock s then 2 else 0) OR (if kb_alt s then 4 else 0) OR
     (if kb_super s then 8 else 0) OR (if kb_ctrl s then 16 else 0)"

definition publish :: "input_event \<Rightarrow> ('d, 'a input_state_scheme) drv_state \<Rightarrow> ('d, 'a input_state_scheme) drv_state" where
  "publish e s = s\<lparr>dv_kernel := snd (input_publish e (dv_kernel s))\<rparr>"

definition publish_key :: "u16 \<Rightarrow> bool \<Rightarrow> u8 \<Rightarrow> ('d, 'a input_state_scheme) drv_state \<Rightarrow> ('d, 'a input_state_scheme) drv_state" where
  "publish_key code released character s =
     publish (input_event_zero\<lparr>ev_timestamp := dv_timer_ticks s, ev_type := if released then 2 else 1, ev_code := code,
       ev_value := ucast character, ev_modifiers := modifier_bits s\<rparr>) s"

definition keyboard_queue_char :: "u8 \<Rightarrow> ('d, 'k) drv_state \<Rightarrow> ('d, 'k) drv_state" where
  "keyboard_queue_char character s =
     (let next = (kb_write s + 1) mod 64 in
      if next = kb_read s then s
      else s\<lparr>kb_buffer := (kb_buffer s)[unat (kb_write s) := character], kb_write := next, kb_characters := kb_characters s + 1\<rparr>)"

text \<open>The part of the handler for a code that follows the prefix \<open>0xE0\<close>.\<close>

definition keyboard_extended_key :: "u8 \<Rightarrow> ('d, 'a input_state_scheme) drv_state \<Rightarrow> ('d, 'a input_state_scheme) drv_state" where
  "keyboard_extended_key scan s =
     (let released = scan AND 0x80 \<noteq> 0; code = scan AND 0x7F;
          s = s\<lparr>kb_extended := False\<rparr>;
          s = (if code = 0x5B \<or> code = 0x5C then s\<lparr>kb_super := \<not> released\<rparr> else s);
          s = (if code = 0x38 then s\<lparr>kb_alt := \<not> released\<rparr> else s);
          s = (if code = 0x1D then s\<lparr>kb_ctrl := \<not> released\<rparr> else s);
          queue = (\<lambda>key character s. if \<not> released \<and> code = key then keyboard_queue_char character s else s);
          s = queue 0x48 KEYBOARD_CHAR_HISTORY_UP s;
          s = queue 0x50 KEYBOARD_CHAR_HISTORY_DOWN s;
          s = queue 0x4B KEYBOARD_CHAR_LEFT s;
          s = queue 0x4D KEYBOARD_CHAR_RIGHT s;
          s = queue 0x47 KEYBOARD_CHAR_HOME s;
          s = queue 0x4F KEYBOARD_CHAR_END s;
          s = queue 0x53 KEYBOARD_CHAR_DELETE s
      in publish_key (0x100 OR ucast code) released 0 s)"

definition is_letter :: "u8 \<Rightarrow> bool" where
  "is_letter code \<longleftrightarrow> unshifted code \<ge> 97 \<and> unshifted code \<le> 122"

text \<open>The character a pressed key stands for, under the modifiers.\<close>

definition key_character :: "u8 \<Rightarrow> ('d, 'k) drv_state \<Rightarrow> u8" where
  "key_character code s =
     (let letter = is_letter code; use_shift = (if letter then kb_shift s \<noteq> kb_caps_lock s else kb_shift s);
          character = (if use_shift then shifted code else unshifted code)
      in if kb_ctrl s \<and> letter then unshifted code - 97 + 1 else character)"

definition keyboard_plain_key :: "u8 \<Rightarrow> ('d, 'a input_state_scheme) drv_state \<Rightarrow> ('d, 'a input_state_scheme) drv_state" where
  "keyboard_plain_key scan s =
     (let released = scan AND 0x80 \<noteq> 0; code = scan AND 0x7F in
      if code = 0x2A \<or> code = 0x36 then publish_key (ucast code) released 0 (s\<lparr>kb_shift := \<not> released\<rparr>)
      else if code = 0x38 then publish_key (ucast code) released 0 (s\<lparr>kb_alt := \<not> released\<rparr>)
      else if code = 0x1D then publish_key (ucast code) released 0 (s\<lparr>kb_ctrl := \<not> released\<rparr>)
      else let s1 = (if code = 0x3A \<and> \<not> released then s\<lparr>kb_caps_lock := \<not> kb_caps_lock s\<rparr> else s) in
        if \<not> released \<and> unshifted code \<noteq> 0
        then let character = key_character code s1
             in publish_key (ucast code) released character (keyboard_queue_char character s1)
        else publish_key (ucast code) released 0 s1)"

definition keyboard_scan :: "u8 \<Rightarrow> ('d, 'a input_state_scheme) drv_state \<Rightarrow> ('d, 'a input_state_scheme) drv_state" where
  "keyboard_scan scan s =
     (if scan = 0xE0 then s\<lparr>kb_extended := True\<rparr>
      else if kb_extended s then keyboard_extended_key scan s
      else keyboard_plain_key scan s)"

text \<open>Every path of the handler ends with the end-of-interrupt write.\<close>

definition interrupt_keyboard_handler ::
  "'d io_ports \<Rightarrow> ('d, 'a input_state_scheme) drv_state \<Rightarrow> ('d, 'a input_state_scheme) drv_state" where
  "interrupt_keyboard_handler io s =
     (let (status, s1) = in8 io 0x64 (s\<lparr>kb_irqs := kb_irqs s + 1\<rparr>) in
      if status AND 0x01 = 0 then out8 io 0x20 0x20 s1
      else let (scan, s2) = in8 io 0x60 s1 in out8 io 0x20 0x20 (keyboard_scan scan s2))"

definition keyboard_read_char :: "('d, 'k) drv_state \<Rightarrow> u8 option \<times> ('d, 'k) drv_state" where
  "keyboard_read_char s =
     (if kb_read s = kb_write s then (None, s)
      else (Some (kb_buffer s ! unat (kb_read s)), s\<lparr>kb_read := (kb_read s + 1) mod 64\<rparr>))"

definition keyboard_discard_chars :: "('d, 'k) drv_state \<Rightarrow> ('d, 'k) drv_state" where
  "keyboard_discard_chars s = s\<lparr>kb_read := kb_write s\<rparr>"

section \<open>Pointer\<close>

definition clamp_axis :: "int \<Rightarrow> int \<Rightarrow> int" where
  "clamp_axis bound v = (if v < 0 then 0 else if v > bound then bound else v)"

definition publish_mouse_button ::
  "u8 \<Rightarrow> u16 \<Rightarrow> u8 \<Rightarrow> ('d, 'a input_state_scheme) drv_state \<Rightarrow> ('d, 'a input_state_scheme) drv_state" where
  "publish_mouse_button bits code buttons s =
     (let was_down = ms_button_state s AND bits \<noteq> 0; is_down = buttons AND bits \<noteq> 0 in
      if was_down = is_down then s
      else publish (input_event_zero\<lparr>ev_timestamp := dv_timer_ticks s, ev_type := if is_down then 4 else 5, ev_code := code,
             ev_x := of_int (pointer_x s), ev_y := of_int (pointer_y s), ev_value := if is_down then 1 else 0\<rparr>) s)"

definition publish_buttons :: "u8 \<Rightarrow> ('d, 'a input_state_scheme) drv_state \<Rightarrow> ('d, 'a input_state_scheme) drv_state" where
  "publish_buttons buttons s =
     (publish_mouse_button 4 3 buttons (publish_mouse_button 2 2 buttons (publish_mouse_button 1 1 buttons s)))\<lparr>ms_button_state := buttons\<rparr>"

definition move_pointer ::
  "int \<Rightarrow> int \<Rightarrow> int \<Rightarrow> int \<Rightarrow> ('d, 'a input_state_scheme) drv_state \<Rightarrow> ('d, 'a input_state_scheme) drv_state" where
  "move_pointer x y dx dy s =
     publish (input_event_zero\<lparr>ev_timestamp := dv_timer_ticks s, ev_type := INPUT_MOUSE_MOVE, ev_x := of_int x, ev_y := of_int y,
       ev_delta_x := of_int dx, ev_delta_y := of_int dy\<rparr>) (s\<lparr>pointer_x := x, pointer_y := y\<rparr>)"

text \<open>The acceleration: by the larger of the two distances.\<close>

definition mouse_scale :: "int \<Rightarrow> int \<Rightarrow> int" where
  "mouse_scale dx dy =
     (let magnitude = max \<bar>dx\<bar> \<bar>dy\<bar> in if magnitude \<ge> 7 then 3 else if magnitude \<ge> 2 then 2 else 1)"

definition packet_refused :: "u8 list \<Rightarrow> bool" where
  "packet_refused p \<longleftrightarrow> p ! 0 AND 0xC0 \<noteq> 0 \<or>
     (p ! 0 AND 0x10 \<noteq> 0) \<noteq> (p ! 1 AND 0x80 \<noteq> 0) \<or> (p ! 0 AND 0x20 \<noteq> 0) \<noteq> (p ! 2 AND 0x80 \<noteq> 0)"

text \<open>The wheel is the low half of the fourth byte, with its sign.\<close>

definition packet_scroll :: "u8 list \<Rightarrow> int" where
  "packet_scroll p = sint (push_bit 4 (p ! 3)) div 16"

definition publish_scroll :: "u8 list \<Rightarrow> ('d, 'a input_state_scheme) drv_state \<Rightarrow> ('d, 'a input_state_scheme) drv_state" where
  "publish_scroll p s =
     (if ms_wheel s \<and> packet_scroll p \<noteq> 0
      then publish (input_event_zero\<lparr>ev_timestamp := dv_timer_ticks s, ev_type := INPUT_MOUSE_SCROLL,
             ev_x := of_int (pointer_x s), ev_y := of_int (pointer_y s), ev_value := of_int (packet_scroll p)\<rparr>) s
      else s)"

definition decode_mouse_packet :: "('d, 'a input_state_scheme) drv_state \<Rightarrow> ('d, 'a input_state_scheme) drv_state" where
  "decode_mouse_packet s =
     (let p = ms_packet s in
      if packet_refused p then s
      else let dx0 = sint (p ! 1); dy0 = - sint (p ! 2); scale = mouse_scale dx0 dy0;
               dx = dx0 * scale; dy = dy0 * scale;
               next_x = clamp_axis (pointer_max_x s) (i32 (pointer_x s + dx));
               next_y = clamp_axis (pointer_max_y s) (i32 (pointer_y s + dy));
               s1 = (if dx \<noteq> 0 \<or> dy \<noteq> 0 then move_pointer next_x next_y dx dy s else s);
               s2 = publish_scroll p (publish_buttons (p ! 0 AND 0x07) s1)
           in s2\<lparr>ms_packets := ms_packets s2 + 1\<rparr>)"

definition mouse_report_absolute ::
  "int \<Rightarrow> int \<Rightarrow> u8 \<Rightarrow> ('d, 'a input_state_scheme) drv_state \<Rightarrow> ('d, 'a input_state_scheme) drv_state" where
  "mouse_report_absolute x0 y0 buttons s =
     (let x = clamp_axis (pointer_max_x s) x0; y = clamp_axis (pointer_max_y s) y0;
          s1 = (if x \<noteq> pointer_x s \<or> y \<noteq> pointer_y s
                then move_pointer x y (i32 (x - pointer_x s)) (i32 (y - pointer_y s)) s else s)
      in publish_buttons buttons s1)"

text \<open>
  One byte of the mouse: a byte that cannot start a packet is skipped, and a full packet is decoded. An index outside the
  packet would be a write outside the array; the invariant below excludes it.
\<close>

definition mouse_byte :: "u8 \<Rightarrow> ('d, 'a input_state_scheme) drv_state \<Rightarrow> ('d, 'a input_state_scheme) drv_state" where
  "mouse_byte byte s =
     (if ms_packet_index s \<noteq> 0 \<or> byte AND 0x08 \<noteq> 0
      then let s1 = s\<lparr>ms_packet := (ms_packet s)[unat (ms_packet_index s) := byte], ms_packet_index := ms_packet_index s + 1\<rparr> in
        if ms_packet_index s1 = (if ms_wheel s1 then 4 else 3)
        then decode_mouse_packet (s1\<lparr>ms_packet_index := 0\<rparr>)
        else s1
      else s)"

fun drain_mouse_bytes :: "'d io_ports \<Rightarrow> nat \<Rightarrow> ('d, 'a input_state_scheme) drv_state \<Rightarrow> ('d, 'a input_state_scheme) drv_state" where
  "drain_mouse_bytes io 0 s = s"
| "drain_mouse_bytes io (Suc limit) s =
     (let (status, s1) = in8 io 0x64 s in
      if status AND 0x01 = 0 \<or> status AND 0x20 = 0 then s1
      else let (byte, s2) = in8 io 0x60 s1 in drain_mouse_bytes io limit (mouse_byte byte s2))"

definition interrupt_mouse_handler ::
  "'d io_ports \<Rightarrow> ('d, 'a input_state_scheme) drv_state \<Rightarrow> ('d, 'a input_state_scheme) drv_state" where
  "interrupt_mouse_handler io s =
     out8 io 0x20 0x20 (out8 io 0xA0 0x20 (drain_mouse_bytes io 32 (s\<lparr>ms_irqs := ms_irqs s + 1\<rparr>)))"

definition mouse_set_bounds :: "u32 \<Rightarrow> u32 \<Rightarrow> ('d, 'k) drv_state \<Rightarrow> ('d, 'k) drv_state" where
  "mouse_set_bounds width height s =
     (if width = 0 \<or> height = 0 \<or> width > 32768 \<or> height > 32768 then s
      else let mx = uint width - 1; my = uint height - 1 in
        s\<lparr>pointer_max_x := mx, pointer_max_y := my,
          pointer_x := if pointer_x s > mx then mx else pointer_x s, pointer_y := if pointer_y s > my then my else pointer_y s\<rparr>)"

section \<open>The USB tablet\<close>

definition make_token :: "u8 \<Rightarrow> u8 \<Rightarrow> u8 \<Rightarrow> u8 \<Rightarrow> u16 \<Rightarrow> u32" where
  "make_token packet_id device endpoint toggle len =
     ucast packet_id OR push_bit 8 (ucast device) OR push_bit 15 (ucast endpoint) OR push_bit 19 (ucast (toggle AND 1)) OR
     push_bit 21 (if len = 0 then 0x7FF else ucast len - 1)"

definition make_control_status :: "bool \<Rightarrow> u32" where
  "make_control_status low_speed = 0x800000 OR 0x20000000 OR 0x18000000 OR (if low_speed then 0x4000000 else 0)"

definition scale_axis :: "u16 \<Rightarrow> u32 \<Rightarrow> int" where
  "scale_axis raw bound = i32 (uint (ucast raw * bound div 0x7FFF))"

definition usb_uhci_poll :: "('d, 'a input_state_scheme) drv_state \<Rightarrow> ('d, 'a input_state_scheme) drv_state" where
  "usb_uhci_poll s =
     (if \<not> us_present s \<or> \<not> us_poll_active s then s
      else let status = us_td_control_status s in
        if status AND 0x800000 \<noteq> 0 then s
        else let s1 =
            (if status AND 0x760000 = 0
             then let r = us_report_buffer s; raw_x = ucast (r ! 1) OR push_bit 8 (ucast (r ! 2)); raw_y = ucast (r ! 3) OR push_bit 8 (ucast (r ! 4));
                      s1 = mouse_report_absolute (scale_axis raw_x (us_bound_x s)) (scale_axis raw_y (us_bound_y s)) (r ! 0 AND 0x07) s
                  in s1\<lparr>us_report_toggle := us_report_toggle s1 XOR 1\<rparr>
             else s)
          in s1\<lparr>us_td_token := make_token 0x69 1 1 (us_report_toggle s1) 8, us_td_control_status := make_control_status False\<rparr>)"

section \<open>Timer, start and descriptor table\<close>

definition interrupt_timer_handler ::
  "'d io_ports \<Rightarrow> u64 \<Rightarrow> ('d, 'a input_state_scheme) drv_state \<Rightarrow> u64 \<times> ('d, 'a input_state_scheme) drv_state" where
  "interrupt_timer_handler io frame_address s =
     (let s1 = usb_uhci_poll (drain_mouse_bytes io 8 (s\<lparr>dv_timer_ticks := dv_timer_ticks s + 1\<rparr>));
          (next_frame, k) = scheduler_on_timer_tick frame_address (dv_kernel s1)
      in (next_frame, out8 io 0x20 0x20 (s1\<lparr>dv_kernel := k\<rparr>)))"

definition interrupt_breakpoint_handler :: "('d, 'k) drv_state \<Rightarrow> ('d, 'k) drv_state" where
  "interrupt_breakpoint_handler s = s\<lparr>dv_breakpoint_count := dv_breakpoint_count s + 1\<rparr>"

definition out_all :: "'d io_ports \<Rightarrow> (u16 \<times> u8) list \<Rightarrow> ('d, 'k) drv_state \<Rightarrow> ('d, 'k) drv_state" where
  "out_all io writes s = fold (\<lambda>(port, value). out8 io port value) writes s"

text \<open>\<open>io_wait\<close> writes port \<open>0x80\<close>.\<close>

definition pic_remap :: "'d io_ports \<Rightarrow> ('d, 'k) drv_state \<Rightarrow> ('d, 'k) drv_state" where
  "pic_remap io = out_all io
     [(0x20, 0x11), (0x80, 0), (0xA0, 0x11), (0x80, 0), (0x21, 0x20), (0x80, 0), (0xA1, 0x28), (0x80, 0),
      (0x21, 0x04), (0x80, 0), (0xA1, 0x02), (0x80, 0), (0x21, 0x01), (0x80, 0), (0xA1, 0x01), (0x80, 0),
      (0x21, 0xF8), (0xA1, 0xEF)]"

definition pit_start_100hz :: "'d io_ports \<Rightarrow> ('d, 'k) drv_state \<Rightarrow> ('d, 'k) drv_state" where
  "pit_start_100hz io = (let divisor = 11932 :: u16 in out_all io [(0x43, 0x36), (0x40, ucast divisor), (0x40, ucast (drop_bit 8 divisor))])"

text \<open>Waiting for the first tick; \<open>halt\<close> is what the interrupts do while the processor is halted.\<close>

fun await_tick :: "(('d, 'k) drv_state \<Rightarrow> ('d, 'k) drv_state) \<Rightarrow> u64 \<Rightarrow> nat \<Rightarrow> ('d, 'k) drv_state \<Rightarrow> ('d, 'k) drv_state" where
  "await_tick halt before 0 s = s"
| "await_tick halt before (Suc n) s = (if dv_timer_ticks s = before then await_tick halt before n (halt s) else s)"

definition interrupts_hardware_start ::
  "'d io_ports \<Rightarrow> (('d, 'a input_state_scheme) drv_state \<Rightarrow> ('d, 'a input_state_scheme) drv_state) \<Rightarrow>
   ('d, 'a input_state_scheme) drv_state \<Rightarrow> bool \<times> ('d, 'a input_state_scheme) drv_state" where
  "interrupts_hardware_start io halt s =
     (let s1 = pic_remap io s;
          (keyboard, s2) = ps2_keyboard_start io (s1\<lparr>dv_kernel := input_init (dv_kernel s1)\<rparr>);
          s3 = s2\<lparr>kb_ready := keyboard\<rparr> in
      if \<not> keyboard then (False, s3)
      else let (mouse, s4) = ps2_mouse_start io s3;
               s5 = pit_start_100hz io (s4\<lparr>ms_ready := mouse\<rparr>);
               before = dv_timer_ticks s5;
               s6 = await_tick halt before 8 s5
           in (dv_timer_ticks s6 > before, s6))"

text \<open>An entry of the interrupt descriptor table; the addresses of the handlers' entry code are a parameter.\<close>

record idt_entry =
  idt_offset_low :: u16
  idt_selector :: u16
  idt_ist :: u8
  idt_attributes :: u8
  idt_offset_middle :: u16
  idt_offset_high :: u32
  idt_reserved :: u32

definition idt_zero :: idt_entry where
  "idt_zero = \<lparr>idt_offset_low = 0, idt_selector = 0, idt_ist = 0, idt_attributes = 0, idt_offset_middle = 0, idt_offset_high = 0,
     idt_reserved = 0\<rparr>"

record interrupt_stubs =
  stub_breakpoint :: u64
  stub_page_fault :: u64
  stub_timer :: u64
  stub_keyboard :: u64
  stub_mouse :: u64
  stub_syscall :: u64

definition set_gate_with_attributes :: "u8 \<Rightarrow> u64 \<Rightarrow> u8 \<Rightarrow> idt_entry list \<Rightarrow> idt_entry list" where
  "set_gate_with_attributes vector address attributes idt =
     idt[unat vector := \<lparr>idt_offset_low = ucast address, idt_selector = 0x08, idt_ist = 0, idt_attributes = attributes,
       idt_offset_middle = ucast (drop_bit 16 address), idt_offset_high = ucast (drop_bit 32 address), idt_reserved = 0\<rparr>]"

definition set_gate :: "u8 \<Rightarrow> u64 \<Rightarrow> idt_entry list \<Rightarrow> idt_entry list" where
  "set_gate vector address idt = set_gate_with_attributes vector address 0x8E idt"

definition interrupts_init :: "interrupt_stubs \<Rightarrow> idt_entry list \<Rightarrow> idt_entry list" where
  "interrupts_init stubs idt =
     set_gate_with_attributes 128 (stub_syscall stubs) 0xEE
       (set_gate 44 (stub_mouse stubs)
         (set_gate 33 (stub_keyboard stubs)
           (set_gate 32 (stub_timer stubs)
             (set_gate 14 (stub_page_fault stubs)
               (set_gate 3 (stub_breakpoint stubs) (map (\<lambda>_. idt_zero) idt))))))"

section \<open>The invariant of the drivers\<close>

text \<open>The ring of the keyboard: one slot always stays free.\<close>

definition kb_inv :: "('d, 'k) drv_state \<Rightarrow> bool" where
  "kb_inv s \<longleftrightarrow> length (kb_buffer s) = 64 \<and> unat (kb_read s) < 64 \<and> unat (kb_write s) < 64"

definition kb_elems :: "('d, 'k) drv_state \<Rightarrow> u8 list" where
  "kb_elems s = ring_list 64 (kb_buffer s) (unat (kb_read s)) (unat (kb_write s))"

text \<open>The pointer is on the screen, and a partial packet leaves room for the next byte.\<close>

definition pointer_inv :: "('d, 'k) drv_state \<Rightarrow> bool" where
  "pointer_inv s \<longleftrightarrow> 0 \<le> pointer_x s \<and> pointer_x s \<le> pointer_max_x s \<and> pointer_max_x s < 32768 \<and>
     0 \<le> pointer_y s \<and> pointer_y s \<le> pointer_max_y s \<and> pointer_max_y s < 32768 \<and>
     length (ms_packet s) = 4 \<and> unat (ms_packet_index s) < (if ms_wheel s then 4 else 3)"

text \<open>The state before the devices are started, over a device type and a kernel.\<close>

definition drv_static :: "'d \<Rightarrow> 'k \<Rightarrow> ('d, 'k) drv_state" where
  "drv_static d k = \<lparr>dv_devices = d, dv_kernel = k, dv_timer_ticks = 0, dv_breakpoint_count = 0, kb_buffer = replicate 64 0,
     kb_read = 0, kb_write = 0, kb_irqs = 0, kb_characters = 0, kb_ready = False, kb_shift = False, kb_caps_lock = False,
     kb_alt = False, kb_super = False, kb_ctrl = False, kb_extended = False, ms_irqs = 0, ms_packets = 0, ms_ready = False,
     ms_wheel = False, ms_packet = replicate 4 0, ms_packet_index = 0, ms_button_state = 0, pointer_x = 0, pointer_y = 0,
     pointer_max_x = 639, pointer_max_y = 479, us_present = False, us_poll_active = False, us_report_buffer = replicate 8 0,
     us_report_toggle = 0, us_td_control_status = 0, us_td_token = 0, us_bound_x = 639, us_bound_y = 479\<rparr>"

end
