(* ===== verification/Interrupt_Input.thy ===== *)
theory Interrupt_Input
  imports Interrupts
begin

unbundle bit_operations_syntax

text \<open>
  What the handlers of \<open>Interrupts\<close> make of the bytes of the devices: the keyboard buffer is a bounded queue and typed text
  arrives in it, the packets of the mouse are decoded, the report of the tablet is scaled to the screen, and the
  descriptor table has one entry that processes may raise.
\<close>

section \<open>The keyboard buffer\<close>

text \<open>The keyboard buffer is a bounded queue of 63 characters.\<close>

definition kb_enq :: "u8 \<Rightarrow> ('d, 'k) drv_state \<Rightarrow> ('d, 'k) drv_state option" where
  "kb_enq character s = (if (kb_write s + 1) mod 64 = kb_read s then None else Some (keyboard_queue_char character s))"

definition kb_deq :: "('d, 'k) drv_state \<Rightarrow> (u8 \<times> ('d, 'k) drv_state) option" where
  "kb_deq s = (case keyboard_read_char s of (None, _) \<Rightarrow> None | (Some c, s') \<Rightarrow> Some (c, s'))"

lemma unat_kb_next: "unat i < 64 \<Longrightarrow> unat ((i + 1) mod 64 :: u8) = Suc (unat i) mod 64"
  by (simp add: unat_mod unat_add_small)

lemma kb_full: "kb_inv s \<Longrightarrow> (kb_write s + 1) mod 64 = kb_read s \<longleftrightarrow> length (kb_elems s) = 63"
  using ring_full [of "unat (kb_read s)" 64 "unat (kb_write s)"]
  by (simp add: kb_inv_def kb_elems_def unat_kb_next word_unat_eq_iff)

lemma keyboard_queue_char_elems:
  assumes "kb_inv s"
  shows "kb_inv (keyboard_queue_char c s)"
    and "kb_elems (keyboard_queue_char c s) = (if length (kb_elems s) = 63 then kb_elems s else kb_elems s @ [c])"
proof -
  have b: "unat (kb_read s) < 64" "unat (kb_write s) < 64" "length (kb_buffer s) = 64" using assms by (auto simp: kb_inv_def)
  show "kb_inv (keyboard_queue_char c s)" using b by (simp add: keyboard_queue_char_def kb_inv_def unat_kb_next Let_def)
  show "kb_elems (keyboard_queue_char c s) = (if length (kb_elems s) = 63 then kb_elems s else kb_elems s @ [c])"
  proof (cases "(kb_write s + 1) mod 64 = kb_read s")
    case True
    then show ?thesis using kb_full [OF assms] by (simp add: keyboard_queue_char_def)
  next
    case False
    then have "Suc (unat (kb_write s)) mod 64 \<noteq> unat (kb_read s)" using unat_kb_next [OF b(2)] by (simp add: word_unat_eq_iff)
    from ring_list_put [OF b this, of c] False show ?thesis
      using kb_full [OF assms] b by (simp add: keyboard_queue_char_def kb_elems_def unat_kb_next)
  qed
qed

lemma keyboard_read_char_elems:
  assumes "kb_inv s" "keyboard_read_char s = (r, s')"
  shows "kb_inv s'" and "case r of None \<Rightarrow> kb_elems s = [] \<and> s' = s | Some c \<Rightarrow> kb_elems s = c # kb_elems s'"
proof -
  have b: "unat (kb_read s) < 64" "unat (kb_write s) < 64" using assms(1) by (auto simp: kb_inv_def)
  show "kb_inv s'" using assms by (auto simp: keyboard_read_char_def kb_inv_def unat_kb_next split: if_splits)
  show "case r of None \<Rightarrow> kb_elems s = [] \<and> s' = s | Some c \<Rightarrow> kb_elems s = c # kb_elems s'"
  proof (cases "kb_read s = kb_write s")
    case True
    with assms(2) show ?thesis by (auto simp: keyboard_read_char_def kb_elems_def ring_list_def ring_size_def)
  next
    case False
    then have "unat (kb_read s) \<noteq> unat (kb_write s)" by (simp add: word_unat_eq_iff)
    from ring_list_take [OF b this, of "kb_buffer s"] False assms(2) b show ?thesis
      by (auto simp: keyboard_read_char_def kb_elems_def unat_kb_next)
  qed
qed

interpretation kbq: bounded_fifo kb_inv kb_elems 63 kb_enq kb_deq "\<lambda>_. True"
proof (unfold_locales, goal_cases)
  case (1 s c s')
  then show ?case using keyboard_queue_char_elems [of s c] kb_full [of s] by (auto simp: kb_enq_def split: if_splits)
next
  case (2 s c)
  then show ?case using kb_full [of s] by (simp add: kb_enq_def)
next
  case (3 s c s')
  then show ?case using keyboard_read_char_elems [of s "Some c" s'] by (auto simp: kb_deq_def split: prod.splits option.splits)
next
  case (4 s)
  then show ?case
    using keyboard_read_char_elems [OF 4, of "fst (keyboard_read_char s)" "snd (keyboard_read_char s)"]
    by (auto simp: kb_deq_def split: prod.splits option.splits)
next
  case (5 s)
  then show ?case using ring_size_less [of "unat (kb_read s)" 64 "unat (kb_write s)"] by (simp add: kb_elems_def kb_inv_def)
qed

section \<open>Typing\<close>

text \<open>The scan codes of a character: the key, pressed and released, with the shift key around it where it is needed.\<close>

definition keystrokes :: "u8 \<Rightarrow> u8 list" where
  "keystrokes c =
     (case find (\<lambda>(k, v). v = c) unshifted_table of
        Some (k, _) \<Rightarrow> [k, k OR 0x80]
      | None \<Rightarrow> (case find (\<lambda>(k, v). v = c) shifted_table of
          Some (k, _) \<Rightarrow> [0x2A, k, k OR 0x80, 0xAA]
        | None \<Rightarrow> []))"

definition typable :: "u8 \<Rightarrow> bool" where
  "typable c \<longleftrightarrow> list_ex (\<lambda>(k, v). v = c) (unshifted_table @ shifted_table)"

text \<open>What is needed of the key of a table entry.\<close>

definition plain_key :: "u8 \<Rightarrow> bool" where
  "plain_key k \<longleftrightarrow> k AND 0x80 = 0 \<and> k AND 0x7F = k \<and> k OR 0x80 \<noteq> 0xE0 \<and> (k OR 0x80) AND 0x80 \<noteq> 0 \<and> (k OR 0x80) AND 0x7F = k \<and>
     k \<noteq> 0xE0 \<and> k \<noteq> 0x2A \<and> k \<noteq> 0x36 \<and> k \<noteq> 0x38 \<and> k \<noteq> 0x1D \<and> k \<noteq> 0x3A \<and> unshifted k \<noteq> 0"

lemma table_keys:
  "list_all (\<lambda>(k, v). plain_key k \<and> unshifted k = v) unshifted_table"
  "list_all (\<lambda>(k, v). plain_key k \<and> shifted k = v) shifted_table"
  by code_simp+

definition mods_clear :: "('d, 'k) drv_state \<Rightarrow> bool" where
  "mods_clear s \<longleftrightarrow> \<not> kb_extended s \<and> \<not> kb_shift s \<and> \<not> kb_caps_lock s \<and> \<not> kb_ctrl s"

lemma publish_keeps [simp]:
  "kb_elems (publish e s) = kb_elems s" "kb_inv (publish e s) = kb_inv s" "pointer_inv (publish e s) = pointer_inv s"
  "kb_extended (publish e s) = kb_extended s" "kb_shift (publish e s) = kb_shift s" "kb_caps_lock (publish e s) = kb_caps_lock s"
  "kb_ctrl (publish e s) = kb_ctrl s" "dv_devices (publish e s) = dv_devices s" "ms_wheel (publish e s) = ms_wheel s"
  "ms_packet (publish e s) = ms_packet s" "ms_packet_index (publish e s) = ms_packet_index s" "ms_packets (publish e s) = ms_packets s"
  "ms_button_state (publish e s) = ms_button_state s" "pointer_x (publish e s) = pointer_x s" "pointer_y (publish e s) = pointer_y s"
  "pointer_max_x (publish e s) = pointer_max_x s" "pointer_max_y (publish e s) = pointer_max_y s"
  by (simp_all add: publish_def kb_elems_def kb_inv_def pointer_inv_def)

lemma publish_key_keeps [simp]:
  "kb_elems (publish_key code r c s) = kb_elems s" "kb_inv (publish_key code r c s) = kb_inv s"
  "kb_extended (publish_key code r c s) = kb_extended s" "kb_shift (publish_key code r c s) = kb_shift s"
  "kb_caps_lock (publish_key code r c s) = kb_caps_lock s" "kb_ctrl (publish_key code r c s) = kb_ctrl s"
  by (simp_all add: publish_key_def)

lemma queue_char_keeps [simp]:
  "kb_extended (keyboard_queue_char c s) = kb_extended s" "kb_shift (keyboard_queue_char c s) = kb_shift s"
  "kb_caps_lock (keyboard_queue_char c s) = kb_caps_lock s" "kb_ctrl (keyboard_queue_char c s) = kb_ctrl s"
  by (simp_all add: keyboard_queue_char_def Let_def)

lemma kb_updates [simp]:
  "kb_elems (s\<lparr>kb_shift := b\<rparr>) = kb_elems s" "kb_inv (s\<lparr>kb_shift := b\<rparr>) = kb_inv s"
  "kb_elems (s\<lparr>kb_extended := b\<rparr>) = kb_elems s" "kb_inv (s\<lparr>kb_extended := b\<rparr>) = kb_inv s"
  "kb_elems (s\<lparr>dv_devices := d\<rparr>) = kb_elems s" "kb_inv (s\<lparr>dv_devices := d\<rparr>) = kb_inv s"
  by (simp_all add: kb_elems_def kb_inv_def)

text \<open>One key, with the shift key held or not.\<close>

lemma scan_press:
  assumes "plain_key k" "kb_inv s" "length (kb_elems s) < 63" "\<not> kb_extended s" "\<not> kb_caps_lock s" "\<not> kb_ctrl s"
  shows "kb_elems (keyboard_scan k s) = kb_elems s @ [if kb_shift s then shifted k else unshifted k]"
    and "kb_inv (keyboard_scan k s)" "kb_shift (keyboard_scan k s) = kb_shift s"
    and "\<not> kb_extended (keyboard_scan k s)" "\<not> kb_caps_lock (keyboard_scan k s)" "\<not> kb_ctrl (keyboard_scan k s)"
  using assms keyboard_queue_char_elems [OF assms(2), of "if kb_shift s then shifted k else unshifted k"]
  by (auto simp: keyboard_scan_def keyboard_plain_key_def key_character_def plain_key_def Let_def)

lemma scan_release:
  assumes "plain_key k" "kb_inv s" "\<not> kb_extended s"
  shows "kb_elems (keyboard_scan (k OR 0x80) s) = kb_elems s" "kb_inv (keyboard_scan (k OR 0x80) s)"
    and "kb_shift (keyboard_scan (k OR 0x80) s) = kb_shift s" "\<not> kb_extended (keyboard_scan (k OR 0x80) s)"
    and "kb_caps_lock (keyboard_scan (k OR 0x80) s) = kb_caps_lock s" "kb_ctrl (keyboard_scan (k OR 0x80) s) = kb_ctrl s"
  using assms by (auto simp: keyboard_scan_def keyboard_plain_key_def plain_key_def Let_def)

lemma scan_shift:
  assumes "kb_inv s" "\<not> kb_extended s" "scan = 0x2A \<or> scan = 0xAA"
  shows "kb_elems (keyboard_scan scan s) = kb_elems s" "kb_inv (keyboard_scan scan s)"
    and "kb_shift (keyboard_scan scan s) = (scan = 0x2A)" "\<not> kb_extended (keyboard_scan scan s)"
    and "kb_caps_lock (keyboard_scan scan s) = kb_caps_lock s" "kb_ctrl (keyboard_scan scan s) = kb_ctrl s"
  using assms by (auto simp: keyboard_scan_def keyboard_plain_key_def)

lemma find_key:
  "find (\<lambda>(k, v). v = c) xs = Some e \<Longrightarrow> \<exists>k. e = (k, c) \<and> (k, c) \<in> set xs"
  "list_ex (\<lambda>(k, v). v = c) xs \<Longrightarrow> \<exists>k. find (\<lambda>(k, v). v = c) xs = Some (k, c) \<and> (k, c) \<in> set xs"
  by (induction xs) (auto split: if_splits)

lemma keystrokes_typed:
  assumes "typable c" "kb_inv s" "mods_clear s" "length (kb_elems s) < 63"
  shows "kb_inv (fold keyboard_scan (keystrokes c) s) \<and> mods_clear (fold keyboard_scan (keystrokes c) s) \<and>
    kb_elems (fold keyboard_scan (keystrokes c) s) = kb_elems s @ [c]"
proof (cases "find (\<lambda>(k, v). v = c) unshifted_table")
  case (Some e)
  obtain k where k: "e = (k, c)" "(k, c) \<in> set unshifted_table" using find_key(1) [OF Some] by blast
  have p: "plain_key k" "unshifted k = c"
    using table_keys(1) [unfolded list_all_iff, THEN bspec, OF k(2)] by (simp_all only: prod.case)
  have "keystrokes c = [k, k OR 0x80]" using Some k(1) by (simp add: keystrokes_def)
  then show ?thesis
    using assms(3) scan_press [OF p(1) assms(2,4)] scan_release [OF p(1), of "keyboard_scan k s"] p(2) by (simp add: mods_clear_def)
next
  case None
  with assms(1) have "list_ex (\<lambda>(k, v). v = c) shifted_table" by (auto simp: typable_def list_ex_iff find_None_iff)
  from find_key(2) [OF this]
  obtain k where f: "find (\<lambda>(k, v). v = c) shifted_table = Some (k, c)" "(k, c) \<in> set shifted_table" by blast
  have p: "plain_key k" "shifted k = c"
    using table_keys(2) [unfolded list_all_iff, THEN bspec, OF f(2)] by (simp_all only: prod.case)
  have "keystrokes c = [0x2A, k, k OR 0x80, 0xAA]" using None f(1) by (simp add: keystrokes_def)
  then show ?thesis
    using assms(2-4) scan_shift [of s "0x2A"] scan_press [OF p(1), of "keyboard_scan 0x2A s"]
      scan_release [OF p(1), of "keyboard_scan k (keyboard_scan 0x2A s)"]
      scan_shift [of "keyboard_scan (k OR 0x80) (keyboard_scan k (keyboard_scan 0x2A s))" "0xAA"] p(2)
    by (simp add: mods_clear_def)
qed


lemma drv_static_inv: "kb_inv (drv_static d k)" "pointer_inv (drv_static d k)" "mods_clear (drv_static d k)" "kb_elems (drv_static d k) = []"
  by (simp_all add: drv_static_def kb_inv_def pointer_inv_def mods_clear_def kb_elems_def ring_list_def ring_size_def)


text \<open>
  Two keys share a character with a control combination: the console cannot tell the arrow up from control-Q, nor the arrow
  down from control-R.
\<close>

lemma history_keys_ambiguous:
  assumes "\<not> kb_extended s" "kb_ctrl s"
  shows "key_character 0x10 s = KEYBOARD_CHAR_HISTORY_UP" "key_character 0x13 s = KEYBOARD_CHAR_HISTORY_DOWN"
proof -
  have "is_letter 0x10" "is_letter 0x13" "unshifted 0x10 - 97 + 1 = KEYBOARD_CHAR_HISTORY_UP" "unshifted 0x13 - 97 + 1 = KEYBOARD_CHAR_HISTORY_DOWN"
    by code_simp+
  with assms show "key_character 0x10 s = KEYBOARD_CHAR_HISTORY_UP" "key_character 0x13 s = KEYBOARD_CHAR_HISTORY_DOWN"
    by (simp_all add: key_character_def)
qed

section \<open>The mouse\<close>

text \<open>
  The packet of a mouse: buttons, motion to the right and upwards in the range of one signed byte, and, for a mouse with a wheel, the
  steps of the wheel. A move that is no larger than this sets neither overflow bit.
\<close>

definition mouse_packet_bytes :: "bool \<Rightarrow> u8 \<times> int \<times> int \<times> int \<Rightarrow> u8 list" where
  "mouse_packet_bytes wheel = (\<lambda>(buttons, dx, dy, dz).
     [0x08 OR buttons OR (if dx < 0 then 0x10 else 0) OR (if dy < 0 then 0x20 else 0), of_int dx, of_int dy] @
     (if wheel then [of_int dz] else []))"

definition packet_valid :: "u8 \<times> int \<times> int \<times> int \<Rightarrow> bool" where
  "packet_valid = (\<lambda>(buttons, dx, dy, dz). buttons < 8 \<and> -128 \<le> dx \<and> dx < 128 \<and> -128 \<le> dy \<and> dy < 128 \<and> -8 \<le> dz \<and> dz < 8)"

text \<open>What a packet does to the pointer: accelerated motion, kept on the screen.\<close>

definition pointer_step :: "int \<Rightarrow> int \<Rightarrow> u8 \<times> int \<times> int \<times> int \<Rightarrow> int \<times> int \<Rightarrow> int \<times> int" where
  "pointer_step mx my = (\<lambda>(buttons, dx, dy, dz) (x, y).
     (clamp_axis mx (x + dx * mouse_scale dx dy), clamp_axis my (y - dy * mouse_scale dx dy)))"

text \<open>A motion of 200 counts to the right, which the nine bits of the protocol can carry, is refused.\<close>

lemma fast_motion_refused: "packet_refused [0x08, 200, 0, 0]" "packet_refused [0x08, 0, 200, 0]"
  by code_simp+

lemma sint_of_small_int: "-128 \<le> v \<Longrightarrow> v < 128 \<Longrightarrow> sint (of_int v :: u8) = v"
  by (simp add: signed_of_int signed_take_bit_int_eq_self)

lemma sign_bit: "-128 \<le> v \<Longrightarrow> v < 128 \<Longrightarrow> (of_int v AND 0x80 \<noteq> (0 :: u8)) = (v < 0)"
  using and_exp_eq_0_iff_not_bit [of "of_int v :: u8" 7] bit_last_iff [of "of_int v :: u8"] sint_of_small_int [of v] by simp

lemma packet_flags:
  assumes "b < (8 :: u8)"
  shows "(0x08 OR b OR (if p then 0x10 else 0) OR (if q then 0x20 else 0)) AND 0x07 = b"
    and "(0x08 OR b OR (if p then 0x10 else 0) OR (if q then 0x20 else 0)) AND 0xC0 = 0"
    and "((0x08 OR b OR (if p then 0x10 else 0) OR (if q then 0x20 else 0)) AND 0x10 \<noteq> 0) = p"
    and "((0x08 OR b OR (if p then 0x10 else 0) OR (if q then 0x20 else 0)) AND 0x20 \<noteq> 0) = q"
    and "(0x08 OR b OR (if p then 0x10 else 0) OR (if q then 0x20 else 0)) AND 0x08 \<noteq> 0"
proof -
  have "b = 0 \<or> b = 1 \<or> b = 2 \<or> b = 3 \<or> b = 4 \<or> b = 5 \<or> b = 6 \<or> b = 7"
  proof -
    have "unat b < 8" using assms by (simp add: word_less_nat_alt)
    then have "unat b = 0 \<or> unat b = 1 \<or> unat b = 2 \<or> unat b = 3 \<or> unat b = 4 \<or> unat b = 5 \<or> unat b = 6 \<or> unat b = 7" by arith
    then show ?thesis by (simp add: word_unat_eq_iff)
  qed
  then show "(0x08 OR b OR (if p then 0x10 else 0) OR (if q then 0x20 else 0)) AND 0x07 = b"
    "(0x08 OR b OR (if p then 0x10 else 0) OR (if q then 0x20 else 0)) AND 0xC0 = 0"
    "((0x08 OR b OR (if p then 0x10 else 0) OR (if q then 0x20 else 0)) AND 0x10 \<noteq> 0) = p"
    "((0x08 OR b OR (if p then 0x10 else 0) OR (if q then 0x20 else 0)) AND 0x20 \<noteq> 0) = q"
    "(0x08 OR b OR (if p then 0x10 else 0) OR (if q then 0x20 else 0)) AND 0x08 \<noteq> 0"
    by (elim disjE; simp)+
qed

lemma scroll_nibble: "-8 \<le> v \<Longrightarrow> v < 8 \<Longrightarrow> sint (push_bit 4 (of_int v :: u8)) div 16 = v"
proof -
  assume v: "-8 \<le> v" "v < 8"
  have "push_bit 4 (of_int v :: u8) = of_int (16 * v)" by (simp add: push_bit_eq_mult)
  with v show ?thesis by (simp add: sint_of_small_int del: of_int_mult)
qed

lemma i32_small: "-2147483648 \<le> v \<Longrightarrow> v < 2147483648 \<Longrightarrow> i32 v = v"
  by (simp add: i32_def)

lemma publish_button_keeps [simp]:
  "ms_button_state (publish_mouse_button m c b s) = ms_button_state s" "ms_packet_index (publish_mouse_button m c b s) = ms_packet_index s"
  "ms_packets (publish_mouse_button m c b s) = ms_packets s" "ms_wheel (publish_mouse_button m c b s) = ms_wheel s"
  "ms_packet (publish_mouse_button m c b s) = ms_packet s" "pointer_x (publish_mouse_button m c b s) = pointer_x s"
  "pointer_y (publish_mouse_button m c b s) = pointer_y s" "pointer_max_x (publish_mouse_button m c b s) = pointer_max_x s"
  "pointer_max_y (publish_mouse_button m c b s) = pointer_max_y s" "dv_devices (publish_mouse_button m c b s) = dv_devices s"
  by (simp_all add: publish_mouse_button_def Let_def)

lemma publish_buttons_keeps [simp]:
  "ms_button_state (publish_buttons b s) = b" "ms_packet_index (publish_buttons b s) = ms_packet_index s"
  "ms_packets (publish_buttons b s) = ms_packets s" "ms_wheel (publish_buttons b s) = ms_wheel s"
  "ms_packet (publish_buttons b s) = ms_packet s" "pointer_x (publish_buttons b s) = pointer_x s"
  "pointer_y (publish_buttons b s) = pointer_y s" "pointer_max_x (publish_buttons b s) = pointer_max_x s"
  "pointer_max_y (publish_buttons b s) = pointer_max_y s" "dv_devices (publish_buttons b s) = dv_devices s"
  by (simp_all add: publish_buttons_def)

lemma move_pointer_keeps [simp]:
  "pointer_x (move_pointer x y dx dy s) = x" "pointer_y (move_pointer x y dx dy s) = y"
  "ms_packet_index (move_pointer x y dx dy s) = ms_packet_index s" "ms_packets (move_pointer x y dx dy s) = ms_packets s"
  "ms_wheel (move_pointer x y dx dy s) = ms_wheel s" "ms_packet (move_pointer x y dx dy s) = ms_packet s"
  "pointer_max_x (move_pointer x y dx dy s) = pointer_max_x s" "pointer_max_y (move_pointer x y dx dy s) = pointer_max_y s"
  "dv_devices (move_pointer x y dx dy s) = dv_devices s"
  by (simp_all add: move_pointer_def)

lemma publish_scroll_keeps [simp]:
  "ms_button_state (publish_scroll p s) = ms_button_state s" "ms_packet_index (publish_scroll p s) = ms_packet_index s"
  "ms_packets (publish_scroll p s) = ms_packets s" "ms_wheel (publish_scroll p s) = ms_wheel s"
  "ms_packet (publish_scroll p s) = ms_packet s" "pointer_x (publish_scroll p s) = pointer_x s"
  "pointer_y (publish_scroll p s) = pointer_y s" "pointer_max_x (publish_scroll p s) = pointer_max_x s"
  "pointer_max_y (publish_scroll p s) = pointer_max_y s" "dv_devices (publish_scroll p s) = dv_devices s"
  by (simp_all add: publish_scroll_def)

lemma clamp_axis_range: "0 \<le> bound \<Longrightarrow> 0 \<le> clamp_axis bound v \<and> clamp_axis bound v \<le> bound"
  by (simp add: clamp_axis_def)

lemma clamp_axis_same: "0 \<le> v \<Longrightarrow> v \<le> bound \<Longrightarrow> clamp_axis bound v = v"
  by (simp add: clamp_axis_def)

lemma mouse_scale_range: "1 \<le> mouse_scale dx dy \<and> mouse_scale dx dy \<le> 3" "mouse_scale dx (- dy) = mouse_scale dx dy"
  by (auto simp: mouse_scale_def Let_def)

lemma scaled_bounds: "-128 \<le> d \<Longrightarrow> d \<le> 128 \<Longrightarrow> 1 \<le> k \<Longrightarrow> k \<le> 3 \<Longrightarrow> -384 \<le> d * k \<and> d * k \<le> (384 :: int)"
proof -
  assume a: "-128 \<le> d" "d \<le> 128" "1 \<le> k" "k \<le> 3"
  then have "k = 1 \<or> k = 2 \<or> k = 3" by arith
  with a show ?thesis by auto
qed

text \<open>A full packet in the collected bytes.\<close>

lemma decode_packet:
  assumes p: "pointer_inv s" "packet_valid (b, dx, dy, dz)"
    and m: "ms_packet s ! 0 = hd (mouse_packet_bytes True (b, dx, dy, dz))" "ms_packet s ! 1 = of_int dx" "ms_packet s ! 2 = of_int dy"
  shows "(pointer_x (decode_mouse_packet s), pointer_y (decode_mouse_packet s)) =
      pointer_step (pointer_max_x s) (pointer_max_y s) (b, dx, dy, dz) (pointer_x s, pointer_y s)"
    and "ms_button_state (decode_mouse_packet s) = b" "ms_packets (decode_mouse_packet s) = ms_packets s + 1"
    and "ms_packet_index (decode_mouse_packet s) = ms_packet_index s" "ms_wheel (decode_mouse_packet s) = ms_wheel s"
    and "ms_packet (decode_mouse_packet s) = ms_packet s" "pointer_max_x (decode_mouse_packet s) = pointer_max_x s"
    and "pointer_max_y (decode_mouse_packet s) = pointer_max_y s" "dv_devices (decode_mouse_packet s) = dv_devices s"
proof -
  have v: "b < 8" "-128 \<le> dx" "dx < 128" "-128 \<le> dy" "dy < 128" using p(2) by (auto simp: packet_valid_def)
  have f: "ms_packet s ! 0 = 0x08 OR b OR (if dx < 0 then 0x10 else 0) OR (if dy < 0 then 0x20 else 0)"
    using m(1) by (simp add: mouse_packet_bytes_def)
  have nr: "packet_refused (ms_packet s) = False"
    unfolding packet_refused_def f m(2,3) using sign_bit v packet_flags(2-4) [OF v(1), of "dx < 0" "dy < 0"] by simp
  have b: "ms_packet s ! 0 AND 0x07 = b" unfolding f by (rule packet_flags(1) [OF v(1)])
  let ?k = "mouse_scale dx dy"
  have small: "-384 \<le> dx * ?k" "dx * ?k \<le> 384" "-384 \<le> dy * ?k" "dy * ?k \<le> 384"
    using scaled_bounds [of dx ?k] scaled_bounds [of dy ?k] mouse_scale_range(1) [of dx dy] v by auto
  let ?x = "clamp_axis (pointer_max_x s) (i32 (pointer_x s + dx * ?k))" and ?y = "clamp_axis (pointer_max_y s) (i32 (pointer_y s - dy * ?k))"
  have e: "?x = clamp_axis (pointer_max_x s) (pointer_x s + dx * ?k)" "?y = clamp_axis (pointer_max_y s) (pointer_y s - dy * ?k)"
    using p(1) small by (simp_all add: pointer_inv_def i32_small)
  have still: "?x = pointer_x s \<and> ?y = pointer_y s" if "dx * ?k = 0" "dy * ?k = 0"
    using p(1) unfolding that by (simp add: pointer_inv_def clamp_axis_same i32_small)
  let ?s1 = "if dx * ?k \<noteq> 0 \<or> - dy * ?k \<noteq> 0 then move_pointer ?x ?y (dx * ?k) (- dy * ?k) s else s"
  have d: "decode_mouse_packet s = (let s2 = publish_scroll (ms_packet s) (publish_buttons b ?s1) in s2\<lparr>ms_packets := ms_packets s2 + 1\<rparr>)"
    unfolding decode_mouse_packet_def Let_def nr b m(2,3) sint_of_small_int [OF v(2,3)] sint_of_small_int [OF v(4,5)] mouse_scale_range(2)
    by simp
  show "(pointer_x (decode_mouse_packet s), pointer_y (decode_mouse_packet s)) =
      pointer_step (pointer_max_x s) (pointer_max_y s) (b, dx, dy, dz) (pointer_x s, pointer_y s)"
    unfolding d Let_def pointer_step_def using still e by simp
  show "ms_button_state (decode_mouse_packet s) = b" "ms_packets (decode_mouse_packet s) = ms_packets s + 1"
    "ms_packet_index (decode_mouse_packet s) = ms_packet_index s" "ms_wheel (decode_mouse_packet s) = ms_wheel s"
    "ms_packet (decode_mouse_packet s) = ms_packet s" "pointer_max_x (decode_mouse_packet s) = pointer_max_x s"
    "pointer_max_y (decode_mouse_packet s) = pointer_max_y s" "dv_devices (decode_mouse_packet s) = dv_devices s"
    by (simp_all add: d Let_def)
qed

text \<open>The bytes of one packet, from a state between packets.\<close>

lemma mouse_bytes_packet:
  assumes p: "pointer_inv s" "packet_valid (b, dx, dy, dz)" "ms_packet_index s = 0"
    and s': "s' = fold mouse_byte (mouse_packet_bytes (ms_wheel s) (b, dx, dy, dz)) s"
  shows "pointer_inv s'" "ms_packet_index s' = 0" "ms_wheel s' = ms_wheel s" "ms_button_state s' = b" "ms_packets s' = ms_packets s + 1"
    and "(pointer_x s', pointer_y s') = pointer_step (pointer_max_x s) (pointer_max_y s) (b, dx, dy, dz) (pointer_x s, pointer_y s)"
    and "pointer_max_x s' = pointer_max_x s" "pointer_max_y s' = pointer_max_y s" "dv_devices s' = dv_devices s"
proof -
  let ?f = "0x08 OR b OR (if dx < 0 then 0x10 else 0) OR (if dy < 0 then 0x20 else 0) :: u8"
  have b: "b < 8" using p(2) by (simp add: packet_valid_def)
  have l: "length (ms_packet s) = 4" using p(1) by (simp add: pointer_inv_def)
  define q where "q = (if ms_wheel s then (ms_packet s)[0 := ?f, 1 := of_int dx, 2 := of_int dy, 3 := of_int dz]
    else (ms_packet s)[0 := ?f, 1 := of_int dx, 2 := of_int dy])"
  let ?t = "s\<lparr>ms_packet := q, ms_packet_index := 0\<rparr>"
  have first: "?f AND 0x08 \<noteq> 0" by (rule packet_flags(5) [OF b])
  have "s' = decode_mouse_packet ?t"
  proof (cases "ms_wheel s")
    case True
    then have "mouse_packet_bytes (ms_wheel s) (b, dx, dy, dz) = [?f, of_int dx, of_int dy, of_int dz]"
      by (simp add: mouse_packet_bytes_def)
    with first p(3) True show ?thesis unfolding s' q_def by (simp add: mouse_byte_def Let_def del: of_int_numeral)
  next
    case False
    then have "mouse_packet_bytes (ms_wheel s) (b, dx, dy, dz) = [?f, of_int dx, of_int dy]"
      by (simp add: mouse_packet_bytes_def)
    with first p(3) False show ?thesis unfolding s' q_def by (simp add: mouse_byte_def Let_def del: of_int_numeral)
  qed
  moreover have t: "pointer_inv ?t" using p(1) by (simp add: pointer_inv_def q_def)
  moreover have "ms_packet ?t ! 0 = hd (mouse_packet_bytes True (b, dx, dy, dz))" "ms_packet ?t ! 1 = of_int dx" "ms_packet ?t ! 2 = of_int dy"
    using l by (simp_all add: q_def mouse_packet_bytes_def)
  ultimately have d: "(pointer_x s', pointer_y s') = pointer_step (pointer_max_x s) (pointer_max_y s) (b, dx, dy, dz) (pointer_x s, pointer_y s)"
    "ms_button_state s' = b" "ms_packets s' = ms_packets s + 1" "ms_packet_index s' = 0" "ms_wheel s' = ms_wheel s" "ms_packet s' = q"
    "pointer_max_x s' = pointer_max_x s" "pointer_max_y s' = pointer_max_y s" "dv_devices s' = dv_devices s"
    using decode_packet [OF t p(2)] by simp_all
  show "pointer_inv s'"
  proof -
    have xy: "pointer_x s' = clamp_axis (pointer_max_x s) (pointer_x s + dx * mouse_scale dx dy)"
      "pointer_y s' = clamp_axis (pointer_max_y s) (pointer_y s - dy * mouse_scale dx dy)"
      using d(1) by (simp_all add: pointer_step_def)
    have "length q = 4" using l by (simp add: q_def)
    then show ?thesis
      using p(1) clamp_axis_range [of "pointer_max_x s"] clamp_axis_range [of "pointer_max_y s"]
      unfolding pointer_inv_def xy d(4-8) by simp
  qed
  show "ms_packet_index s' = 0" "ms_wheel s' = ms_wheel s" "ms_button_state s' = b" "ms_packets s' = ms_packets s + 1"
    "(pointer_x s', pointer_y s') = pointer_step (pointer_max_x s) (pointer_max_y s) (b, dx, dy, dz) (pointer_x s, pointer_y s)"
    "pointer_max_x s' = pointer_max_x s" "pointer_max_y s' = pointer_max_y s" "dv_devices s' = dv_devices s"
    using d by simp_all
qed

lemma mouse_bytes_packets:
  assumes "pointer_inv s" "list_all packet_valid ps" "ms_packet_index s = 0"
  shows "let s' = fold mouse_byte (concat (map (mouse_packet_bytes (ms_wheel s)) ps)) s in
    pointer_inv s' \<and> ms_packet_index s' = 0 \<and> ms_packets s' = ms_packets s + of_nat (length ps) \<and>
    (pointer_x s', pointer_y s') = fold (pointer_step (pointer_max_x s) (pointer_max_y s)) ps (pointer_x s, pointer_y s) \<and>
    ms_button_state s' = (if ps = [] then ms_button_state s else fst (last ps))"
  using assms
proof (induction ps arbitrary: s)
  case (Cons m ps)
  obtain b dx dy dz where m: "m = (b, dx, dy, dz)" by (cases m)
  define t where "t = fold mouse_byte (mouse_packet_bytes (ms_wheel s) m) s"
  from Cons.prems m have v: "packet_valid (b, dx, dy, dz)" "list_all packet_valid ps" by simp_all
  note t = mouse_bytes_packet [OF Cons.prems(1) v(1) Cons.prems(3) t_def [unfolded m]]
  have f: "fold mouse_byte (concat (map (mouse_packet_bytes (ms_wheel s)) (m # ps))) s =
    fold mouse_byte (concat (map (mouse_packet_bytes (ms_wheel t)) ps)) t"
    by (simp add: t(3) t_def [symmetric])
  show ?case using Cons.IH [OF t(1) v(2) t(2)] t(4-8) unfolding f Let_def
    by (cases "ps = []") (simp_all add: m)
qed simp

text \<open>A controller whose auxiliary port holds a list of bytes, and nothing else.\<close>

definition mouse_port :: "u8 list io_ports" where
  "mouse_port = \<lparr>port_in = (\<lambda>port d. if port = 0x64 then (if d = [] then 0 else 0x21, d)
      else if port = 0x60 then (case d of [] \<Rightarrow> (0, []) | b # bs \<Rightarrow> (b, bs)) else (0, d)),
    port_out = (\<lambda>port value d. d)\<rparr>"

lemma publish_devices:
  "publish e (s\<lparr>dv_devices := d\<rparr>) = (publish e s)\<lparr>dv_devices := d\<rparr>"
  "publish_mouse_button m c b (s\<lparr>dv_devices := d\<rparr>) = (publish_mouse_button m c b s)\<lparr>dv_devices := d\<rparr>"
  by (simp_all add: publish_def publish_mouse_button_def Let_def)

lemma pointer_devices:
  "publish_buttons b (s\<lparr>dv_devices := d\<rparr>) = (publish_buttons b s)\<lparr>dv_devices := d\<rparr>"
  "move_pointer x y dx dy (s\<lparr>dv_devices := d\<rparr>) = (move_pointer x y dx dy s)\<lparr>dv_devices := d\<rparr>"
  "publish_scroll p (s\<lparr>dv_devices := d\<rparr>) = (publish_scroll p s)\<lparr>dv_devices := d\<rparr>"
  by (simp_all add: publish_def publish_buttons_def move_pointer_def publish_scroll_def publish_devices)

lemma decode_devices: "decode_mouse_packet (s\<lparr>dv_devices := d\<rparr>) = (decode_mouse_packet s)\<lparr>dv_devices := d\<rparr>"
  by (simp add: decode_mouse_packet_def Let_def pointer_devices)

lemma mouse_byte_devices: "mouse_byte b (s\<lparr>dv_devices := d\<rparr>) = (mouse_byte b s)\<lparr>dv_devices := d\<rparr>"
proof -
  have "decode_mouse_packet (s\<lparr>dv_devices := d, ms_packet := p, ms_packet_index := i\<rparr>) =
    (decode_mouse_packet (s\<lparr>ms_packet := p, ms_packet_index := i\<rparr>))\<lparr>dv_devices := d\<rparr>" for p i
  proof -
    have eq: "s\<lparr>dv_devices := d, ms_packet := p, ms_packet_index := i\<rparr> = s\<lparr>ms_packet := p, ms_packet_index := i, dv_devices := d\<rparr>"
      by (cases s) simp
    show ?thesis unfolding eq by (rule decode_devices)
  qed
  then show ?thesis by (simp add: mouse_byte_def Let_def)
qed

lemma drain_queue:
  "drain_mouse_bytes mouse_port n (s\<lparr>dv_devices := d\<rparr>) = (fold mouse_byte (take n d) s)\<lparr>dv_devices := drop n d\<rparr>"
proof (induction n arbitrary: s d)
  case (Suc n)
  show ?case
  proof (cases d)
    case (Cons b bs)
    have "in8 mouse_port 0x64 (s\<lparr>dv_devices := d\<rparr>) = (0x21, s\<lparr>dv_devices := d\<rparr>)"
      "in8 mouse_port 0x60 (s\<lparr>dv_devices := d\<rparr>) = (b, s\<lparr>dv_devices := bs\<rparr>)"
      using Cons by (simp_all add: in8_def mouse_port_def)
    with Suc [of bs "mouse_byte b s"] Cons show ?thesis by (simp add: mouse_byte_devices)
  qed (simp add: in8_def mouse_port_def)
qed simp



section \<open>The tablet\<close>

lemma report_axis: "(ucast (of_nat (n mod 256) :: u8) OR push_bit 8 (ucast (of_nat (n div 256) :: u8)) :: u16) = of_nat n"
proof (rule bit_word_eqI)
  fix k :: nat
  assume "k < LENGTH(16)"
  moreover have "n mod 256 = take_bit 8 n" "n div 256 = drop_bit 8 n" by (simp_all add: take_bit_eq_mod drop_bit_eq_div)
  ultimately show "bit (ucast (of_nat (n mod 256) :: u8) OR push_bit 8 (ucast (of_nat (n div 256) :: u8)) :: u16) k = bit (of_nat n :: u16) k"
    by (auto simp: bit_simps)
qed

lemma scale_axis_exact:
  assumes "n \<le> 32767" "unat bound < 32768"
  shows "scale_axis (of_nat n) bound = int (n * unat bound div 32767)"
    and "n * unat bound div 32767 \<le> unat bound"
proof -
  have u: "unat (ucast (of_nat n :: u16) :: u32) = n"
  proof -
    have "take_bit 16 n = n" "take_bit 32 n = n" using assms(1) by (simp_all add: take_bit_nat_eq_self_iff)
    with assms(1) show ?thesis by (simp add: unsigned_of_nat unsigned_ucast_eq)
  qed
  have m: "n * unat bound \<le> 32767 * 32767" using assms by (intro mult_mono) auto
  then have "unat (ucast (of_nat n :: u16) * bound) = n * unat bound"
    using u by (subst unat_mult_lem [THEN iffD1]) (auto simp: u)
  then have "unat (ucast (of_nat n :: u16) * bound div 0x7FFF) = n * unat bound div 32767" by (simp add: unat_div)
  moreover have d: "n * unat bound div 32767 \<le> unat bound"
    using assms(1) div_le_mono [of "n * unat bound" "32767 * unat bound" 32767] by simp
  ultimately show "scale_axis (of_nat n) bound = int (n * unat bound div 32767)" "n * unat bound div 32767 \<le> unat bound"
    using assms(2) unfolding scale_axis_def uint_nat by (simp_all add: i32_small)
qed

lemma token_bits: "make_token 0x69 1 1 t 8 = (if t AND 1 = 0 then 0xE08169 else 0xE88169)"
proof -
  have "t AND 1 = 0 \<or> t AND 1 = 1" by (simp add: and_one_eq mod2_eq_if)
  then show ?thesis by (auto simp: make_token_def)
qed

lemma pointer_keeps_others [simp]:
  "us_report_toggle (publish e s) = us_report_toggle s" "us_report_toggle (publish_mouse_button m c b s) = us_report_toggle s"
  "us_report_toggle (publish_buttons b s) = us_report_toggle s" "us_report_toggle (move_pointer x y dx dy s) = us_report_toggle s"
  "kb_inv (publish_mouse_button m c b s) = kb_inv s" "kb_inv (publish_buttons b s) = kb_inv s"
  "kb_inv (move_pointer x y dx dy s) = kb_inv s" "kb_inv (publish_scroll p s) = kb_inv s"
  by (simp_all add: publish_def publish_mouse_button_def publish_buttons_def move_pointer_def publish_scroll_def kb_inv_def Let_def)

lemma report_absolute:
  assumes "pointer_inv s"
  shows "pointer_x (mouse_report_absolute x y b s) = clamp_axis (pointer_max_x s) x"
    and "pointer_y (mouse_report_absolute x y b s) = clamp_axis (pointer_max_y s) y"
    and "ms_button_state (mouse_report_absolute x y b s) = b" "us_report_toggle (mouse_report_absolute x y b s) = us_report_toggle s"
    and "pointer_inv (mouse_report_absolute x y b s)" "kb_inv (mouse_report_absolute x y b s) = kb_inv s"
proof -
  show xy: "pointer_x (mouse_report_absolute x y b s) = clamp_axis (pointer_max_x s) x"
    "pointer_y (mouse_report_absolute x y b s) = clamp_axis (pointer_max_y s) y"
    "ms_button_state (mouse_report_absolute x y b s) = b" "us_report_toggle (mouse_report_absolute x y b s) = us_report_toggle s"
    "kb_inv (mouse_report_absolute x y b s) = kb_inv s"
    by (simp_all add: mouse_report_absolute_def Let_def)
  have "pointer_max_x (mouse_report_absolute x y b s) = pointer_max_x s" "pointer_max_y (mouse_report_absolute x y b s) = pointer_max_y s"
    "ms_packet (mouse_report_absolute x y b s) = ms_packet s" "ms_packet_index (mouse_report_absolute x y b s) = ms_packet_index s"
    "ms_wheel (mouse_report_absolute x y b s) = ms_wheel s"
    by (simp_all add: mouse_report_absolute_def Let_def)
  then show "pointer_inv (mouse_report_absolute x y b s)"
    using assms clamp_axis_range [of "pointer_max_x s" x] clamp_axis_range [of "pointer_max_y s" y] by (simp add: pointer_inv_def xy)
qed

text \<open>
  Claim C11: the tablet's position. When a report has arrived, the next poll puts the pointer exactly at the tablet's position scaled to
  the screen, which is on the screen without clamping, sets the buttons, flips the data toggle and arms the next transfer with it;
  while the transfer is in flight the poll changes nothing.
\<close>

theorem tablet_position_exact:
  assumes "us_present s" "us_poll_active s" "pointer_inv s"
    and report: "us_report_buffer s = [b, of_nat (x mod 256), of_nat (x div 256), of_nat (y mod 256), of_nat (y div 256)] @ rest"
    and range: "x \<le> 32767" "y \<le> 32767" "int (unat (us_bound_x s)) = pointer_max_x s" "int (unat (us_bound_y s)) = pointer_max_y s"
  shows "(us_td_control_status s AND 0x800000 \<noteq> 0 \<longrightarrow> usb_uhci_poll s = s) \<and>
    (us_td_control_status s AND 0x800000 = 0 \<longrightarrow> us_td_control_status s AND 0x760000 = 0 \<longrightarrow>
      (let s' = usb_uhci_poll s in
       pointer_x s' = int (x * nat (pointer_max_x s) div 32767) \<and> pointer_y s' = int (y * nat (pointer_max_y s) div 32767) \<and>
       ms_button_state s' = b AND 0x07 \<and> us_report_toggle s' = us_report_toggle s XOR 1 \<and>
       us_td_control_status s' AND 0x800000 \<noteq> 0 \<and>
       us_td_token s' = (if us_report_toggle s' AND 1 = 0 then 0xE08169 else 0xE88169) \<and> pointer_inv s'))"
proof (intro conjI impI)
  assume "us_td_control_status s AND 0x800000 \<noteq> 0"
  then show "usb_uhci_poll s = s" by (simp add: usb_uhci_poll_def Let_def)
next
  assume st: "us_td_control_status s AND 0x800000 = 0" "us_td_control_status s AND 0x760000 = 0"
  have n: "nat (pointer_max_x s) = unat (us_bound_x s)" "nat (pointer_max_y s) = unat (us_bound_y s)"
    unfolding range(3,4) [symmetric] nat_int by (rule refl)+
  have mx: "unat (us_bound_x s) < 32768" "unat (us_bound_y s) < 32768"
    "nat (pointer_max_x s) = unat (us_bound_x s)" "nat (pointer_max_y s) = unat (us_bound_y s)"
    using assms(3) n unfolding pointer_inv_def by linarith+
  let ?x = "int (x * unat (us_bound_x s) div 32767)" and ?y = "int (y * unat (us_bound_y s) div 32767)"
  define s1 where "s1 = mouse_report_absolute ?x ?y (b AND 0x07) s"
  have clamp: "clamp_axis (pointer_max_x s) ?x = ?x" "clamp_axis (pointer_max_y s) ?y = ?y"
    unfolding range(3,4) [symmetric]
    using scale_axis_exact(2) [OF range(1) mx(1)] scale_axis_exact(2) [OF range(2) mx(2)]
    by (simp_all only: clamp_axis_same of_nat_0_le_iff of_nat_le_iff)
  note r = report_absolute [OF assms(3), of ?x ?y "b AND 0x07", folded s1_def, unfolded clamp]
  have "usb_uhci_poll s = (let s2 = s1\<lparr>us_report_toggle := us_report_toggle s1 XOR 1\<rparr> in
    s2\<lparr>us_td_token := make_token 0x69 1 1 (us_report_toggle s2) 8, us_td_control_status := make_control_status False\<rparr>)"
    unfolding usb_uhci_poll_def Let_def s1_def report scale_axis_exact(1) [OF range(1) mx(1), symmetric]
      scale_axis_exact(1) [OF range(2) mx(2), symmetric] report_axis [symmetric]
    using assms(1,2) st by simp
  moreover have "pointer_inv (t\<lparr>us_report_toggle := a, us_td_token := c, us_td_control_status := d\<rparr>) = pointer_inv t" for t :: "('a, 'b input_state_scheme) drv_state" and a c d
    by (simp add: pointer_inv_def)
  ultimately show "let s' = usb_uhci_poll s in
       pointer_x s' = int (x * nat (pointer_max_x s) div 32767) \<and> pointer_y s' = int (y * nat (pointer_max_y s) div 32767) \<and>
       ms_button_state s' = b AND 0x07 \<and> us_report_toggle s' = us_report_toggle s XOR 1 \<and>
       us_td_control_status s' AND 0x800000 \<noteq> 0 \<and>
       us_td_token s' = (if us_report_toggle s' AND 1 = 0 then 0xE08169 else 0xE88169) \<and> pointer_inv s'"
    using r mx(3,4) by (simp add: Let_def token_bits make_control_status_def)
qed

theorem tablet_position_exact_witness:
  "let s = (drv_static () input_state_example)\<lparr>us_present := True, us_poll_active := True, us_report_buffer := [1, 0xFF, 0x7F, 0, 0, 0, 0, 0]\<rparr>;
       s' = usb_uhci_poll s in pointer_x s' = 639 \<and> pointer_y s' = 0 \<and> ms_button_state s' = 1"
proof -
  define s :: "(unit, input_state) drv_state" where
    "s = (drv_static () input_state_example)\<lparr>us_present := True, us_poll_active := True, us_report_buffer := [1, 0xFF, 0x7F, 0, 0, 0, 0, 0]\<rparr>"
  have "us_present s" "us_poll_active s" "pointer_inv s" "int (unat (us_bound_x s)) = pointer_max_x s" "int (unat (us_bound_y s)) = pointer_max_y s"
    "us_td_control_status s = 0" "pointer_max_x s = 639" "pointer_max_y s = 479"
    "us_report_buffer s = [1, of_nat (32767 mod 256), of_nat (32767 div 256), of_nat (0 mod 256), of_nat (0 div 256)] @ [0, 0, 0]"
    by (simp_all add: s_def drv_static_def pointer_inv_def)
  then show ?thesis using tablet_position_exact [of s 1 32767 0 "[0, 0, 0]"] unfolding s_def [symmetric] by (simp add: Let_def)
qed

section \<open>The descriptor table\<close>

definition gate_address :: "idt_entry \<Rightarrow> u64" where
  "gate_address e = ucast (idt_offset_low e) OR push_bit 16 (ucast (idt_offset_middle e)) OR push_bit 32 (ucast (idt_offset_high e))"

text \<open>The privilege a caller needs to raise the vector with an instruction, and whether the entry is present.\<close>

definition gate_dpl :: "idt_entry \<Rightarrow> nat" where "gate_dpl e = unat (drop_bit 5 (idt_attributes e) AND 3)"

definition gate_present :: "idt_entry \<Rightarrow> bool" where "gate_present e \<longleftrightarrow> bit (idt_attributes e) 7"

lemma split_address: "(ucast (ucast a :: u16) OR push_bit 16 (ucast (ucast (drop_bit 16 a) :: u16)) OR
    push_bit 32 (ucast (ucast (drop_bit 32 a) :: u32)) :: u64) = a"
proof (rule bit_word_eqI)
  fix k :: nat
  assume "k < LENGTH(64)"
  then show "bit (ucast (ucast a :: u16) OR push_bit 16 (ucast (ucast (drop_bit 16 a) :: u16)) OR
    push_bit 32 (ucast (ucast (drop_bit 32 a) :: u32)) :: u64) k = bit a k"
    by (cases "k < 16"; cases "k < 32") (auto simp: bit_simps)
qed

text \<open>
  Claim C12: the only door. After the table is set up every present entry leads to the code of its handler and runs in
  the kernel's code segment, vector 128 is the only one a process can raise by an instruction, and exactly the six handled
  vectors are present.
\<close>

theorem idt_gates:
  assumes "length idt = 256" "v < 256"
  shows "let e = interrupts_init stubs idt ! v in
    (gate_present e \<longleftrightarrow> v \<in> {3, 14, 32, 33, 44, 128}) \<and> (gate_present e \<longrightarrow> (gate_dpl e = 3 \<longleftrightarrow> v = 128) \<and> idt_selector e = 8) \<and>
    (v = 3 \<longrightarrow> gate_address e = stub_breakpoint stubs) \<and> (v = 14 \<longrightarrow> gate_address e = stub_page_fault stubs) \<and>
    (v = 32 \<longrightarrow> gate_address e = stub_timer stubs) \<and> (v = 33 \<longrightarrow> gate_address e = stub_keyboard stubs) \<and>
    (v = 44 \<longrightarrow> gate_address e = stub_mouse stubs) \<and> (v = 128 \<longrightarrow> gate_address e = stub_syscall stubs)"
proof -
  have e: "interrupts_init stubs idt ! v =
    (if v = 128 then \<lparr>idt_offset_low = ucast (stub_syscall stubs), idt_selector = 8, idt_ist = 0, idt_attributes = 0xEE,
        idt_offset_middle = ucast (drop_bit 16 (stub_syscall stubs)), idt_offset_high = ucast (drop_bit 32 (stub_syscall stubs)), idt_reserved = 0\<rparr>
     else if v \<in> {3, 14, 32, 33, 44} then
       (let a = (if v = 3 then stub_breakpoint else if v = 14 then stub_page_fault else if v = 32 then stub_timer
          else if v = 33 then stub_keyboard else stub_mouse) stubs in
        \<lparr>idt_offset_low = ucast a, idt_selector = 8, idt_ist = 0, idt_attributes = 0x8E,
          idt_offset_middle = ucast (drop_bit 16 a), idt_offset_high = ucast (drop_bit 32 a), idt_reserved = 0\<rparr>)
     else idt_zero)"
    using assms by (simp add: interrupts_init_def set_gate_def set_gate_with_attributes_def nth_list_update Let_def)
  have "bit (0xEE :: u8) 7" "bit (0x8E :: u8) 7" "unat (drop_bit 5 (0xEE :: u8) AND 3) = 3" "unat (drop_bit 5 (0x8E :: u8) AND 3) = 0"
    by code_simp+
  then show ?thesis unfolding e
    by (simp add: Let_def gate_present_def gate_dpl_def gate_address_def split_address idt_zero_def)
qed

theorem idt_gates_witness:
  "let e = interrupts_init \<lparr>stub_breakpoint = 1, stub_page_fault = 2, stub_timer = 3, stub_keyboard = 4, stub_mouse = 5,
      stub_syscall = 0x123456789ABCDEF\<rparr> (replicate 256 idt_zero) ! 128
   in gate_present e \<and> gate_dpl e = 3 \<and> gate_address e = 0x123456789ABCDEF"
  using idt_gates [of "replicate 256 idt_zero" 128] by (simp add: Let_def)

end
