(* ===== verification/Interrupt_Inv.thy ===== *)
theory Interrupt_Inv
  imports Interrupt_Input Syscall_Inv
begin

unbundle bit_operations_syntax

text \<open>
  The interrupts and the rest of the kernel. Whatever the devices do, the handlers keep the pointer on the screen and the keyboard
  buffer and the packet buffer within their bounds, and they change the kernel only by steps of the transition system
  of \<open>Syscall_Inv\<close>. The contract is the locale \<open>interrupt_client\<close>: a property of the kernel that
  publishing an event and a tick of the scheduler keep.
\<close>

section \<open>Talking to the controller\<close>

text \<open>
  A fact about the drivers that does not depend on the devices survives every exchange with the PS/2 controller.
\<close>

locale port_client =
  fixes keep :: "('d, 'k) drv_state \<Rightarrow> bool"
  assumes keep_devices: "keep (s\<lparr>dv_devices := d\<rparr>) \<longleftrightarrow> keep s"
begin

lemma in8_keep [simp]: "keep s \<Longrightarrow> keep (snd (in8 io p s))"
  by (simp add: in8_def keep_devices split: prod.splits)

lemma out8_keep [simp]: "keep s \<Longrightarrow> keep (out8 io p v s)"
  by (simp add: out8_def keep_devices)

lemma out_all_keep [simp]: "keep s \<Longrightarrow> keep (out_all io ws s)"
  unfolding out_all_def by (induction ws arbitrary: s) (auto split: prod.splits)

lemma all_of_keep [simp]: "list_all (\<lambda>f. \<forall>t. keep t \<longrightarrow> keep (snd (f t))) fs \<Longrightarrow> keep s \<Longrightarrow> keep (snd (all_of fs s))"
proof (induction fs arbitrary: s)
  case (Cons f fs)
  obtain ok t where f: "f s = (ok, t)" by fastforce
  have "keep (snd (f s))" using Cons.prems by simp
  with Cons f show ?case by simp
qed simp

lemma poll_keep [simp]: "keep s \<Longrightarrow> keep (snd (poll_status io cond n s))"
  by (induction n arbitrary: s) (simp_all add: Let_def case_prod_beta)

lemma flush_reads_keep [simp]: "keep s \<Longrightarrow> keep (flush_reads io n s)"
  by (induction n arbitrary: s) (simp_all add: Let_def case_prod_beta)

lemma ps2_keep [simp]:
  "keep s \<Longrightarrow> keep (snd (ps2_wait_input_empty io s))" "keep s \<Longrightarrow> keep (snd (ps2_wait_output_full io s))"
  "keep s \<Longrightarrow> keep (snd (ps2_command io v s))" "keep s \<Longrightarrow> keep (snd (ps2_data io v s))" "keep s \<Longrightarrow> keep (snd (ps2_read io s))"
  "keep s \<Longrightarrow> keep (ps2_flush_output io s)"
  by (simp_all add: ps2_wait_input_empty_def ps2_wait_output_full_def ps2_command_def ps2_data_def ps2_read_def ps2_flush_output_def
      Let_def case_prod_beta)

lemma mouse_command_keep [simp]:
  "keep s \<Longrightarrow> keep (snd (ps2_mouse_command io v s))" "keep s \<Longrightarrow> keep (snd (ps2_mouse_command_reply io v s))"
  "keep s \<Longrightarrow> keep (snd (ps2_mouse_rate io v s))"
  by (simp_all add: ps2_mouse_command_def ps2_mouse_command_reply_def ps2_mouse_rate_def Let_def case_prod_beta del: all_of.simps)

lemma keyboard_start_keep:
  assumes "keep s" "\<And>t. keep t \<Longrightarrow> keep (t\<lparr>kb_read := 0, kb_write := 0, kb_shift := False, kb_caps_lock := False, kb_alt := False,
    kb_super := False, kb_ctrl := False, kb_extended := False\<rparr>)"
  shows "keep (snd (ps2_keyboard_start io s))"
  using assms(1) by (simp add: ps2_keyboard_start_def Let_def case_prod_beta assms(2) del: all_of.simps)

lemma mouse_start_keep:
  assumes "keep s" "\<And>t w. keep t \<Longrightarrow> keep (t\<lparr>ms_wheel := w\<rparr>)"
    and "\<And>t. keep t \<Longrightarrow> keep (t\<lparr>ms_packet_index := 0, ms_button_state := 0, pointer_x := pointer_max_x t div 2, pointer_y := pointer_max_y t div 2\<rparr>)"
  shows "keep (snd (ps2_mouse_start io s))"
proof -
  have n: "keep (mouse_negotiate io t)" if "keep t" for t
    using that by (simp add: mouse_negotiate_def Let_def case_prod_beta assms(2) del: all_of.simps split: option.split)
  show ?thesis using assms(1) by (simp add: ps2_mouse_start_def Let_def case_prod_beta assms(3) n del: all_of.simps)
qed

end

section \<open>The contract with the kernel\<close>

text \<open>The drivers are within their bounds, and the kernel has a property.\<close>

definition drv_ok :: "('k \<Rightarrow> bool) \<Rightarrow> ('d, 'k) drv_state \<Rightarrow> bool" where
  "drv_ok safe s \<longleftrightarrow> kb_inv s \<and> pointer_inv s \<and> safe (dv_kernel s)"

lemma drv_ok_devices: "drv_ok safe (s\<lparr>dv_devices := d\<rparr>) = drv_ok safe s"
  by (simp add: drv_ok_def kb_inv_def pointer_inv_def)

lemma drv_ok_fields [simp]:
  "drv_ok safe (s\<lparr>kb_irqs := n\<rparr>) = drv_ok safe s" "drv_ok safe (s\<lparr>ms_irqs := n\<rparr>) = drv_ok safe s"
  "drv_ok safe (s\<lparr>dv_timer_ticks := n\<rparr>) = drv_ok safe s" "drv_ok safe (s\<lparr>kb_extended := b\<rparr>) = drv_ok safe s"
  "drv_ok safe (s\<lparr>kb_super := b\<rparr>) = drv_ok safe s" "drv_ok safe (s\<lparr>kb_alt := b\<rparr>) = drv_ok safe s"
  "drv_ok safe (s\<lparr>kb_ctrl := b\<rparr>) = drv_ok safe s" "drv_ok safe (s\<lparr>kb_shift := b\<rparr>) = drv_ok safe s"
  "drv_ok safe (s\<lparr>kb_caps_lock := b\<rparr>) = drv_ok safe s" "drv_ok safe (s\<lparr>ms_button_state := v\<rparr>) = drv_ok safe s"
  "drv_ok safe (s\<lparr>ms_packets := n\<rparr>) = drv_ok safe s" "drv_ok safe (s\<lparr>us_report_toggle := v\<rparr>) = drv_ok safe s"
  "drv_ok safe (s\<lparr>us_td_token := t, us_td_control_status := c\<rparr>) = drv_ok safe s"
  by (simp_all add: drv_ok_def kb_inv_def pointer_inv_def)

interpretation drvp: port_client "drv_ok safe"
  by unfold_locales (rule drv_ok_devices)

locale interrupt_client =
  fixes safe :: "'a input_state_scheme \<Rightarrow> bool"
  assumes publish_safe: "safe k \<Longrightarrow> safe (snd (input_publish e k))"
    and tick_safe: "safe k \<Longrightarrow> safe (snd (scheduler_on_timer_tick frame k))"
begin

lemma publish_ok [simp]: "drv_ok safe s \<Longrightarrow> drv_ok safe (publish e s)" "drv_ok safe s \<Longrightarrow> drv_ok safe (publish_key code r c s)"
  by (simp_all add: drv_ok_def publish_key_def publish_safe publish_def kb_inv_def pointer_inv_def)

lemma queue_char_ok [simp]: "drv_ok safe s \<Longrightarrow> drv_ok safe (keyboard_queue_char c s)"
proof -
  assume s: "drv_ok safe s"
  then have "kb_inv (keyboard_queue_char c s)" using keyboard_queue_char_elems(1) [of s c] by (simp add: drv_ok_def)
  moreover have "pointer_inv (keyboard_queue_char c s) = pointer_inv s" "dv_kernel (keyboard_queue_char c s) = dv_kernel s"
    by (simp_all add: keyboard_queue_char_def pointer_inv_def Let_def)
  ultimately show ?thesis using s by (simp add: drv_ok_def)
qed

lemma keyboard_scan_ok [simp]: "drv_ok safe s \<Longrightarrow> drv_ok safe (keyboard_scan scan s)"
  by (simp add: keyboard_scan_def keyboard_extended_key_def keyboard_plain_key_def Let_def)

lemma keyboard_handler_ok: "drv_ok safe s \<Longrightarrow> drv_ok safe (interrupt_keyboard_handler io s)"
  by (simp add: interrupt_keyboard_handler_def Let_def case_prod_beta)

lemma button_ok [simp]: "drv_ok safe s \<Longrightarrow> drv_ok safe (publish_mouse_button m c b s)"
  by (simp add: publish_mouse_button_def Let_def)

lemma buttons_ok [simp]: "drv_ok safe s \<Longrightarrow> drv_ok safe (publish_buttons b s)" "drv_ok safe s \<Longrightarrow> drv_ok safe (publish_scroll p s)"
  by (simp_all add: publish_buttons_def publish_scroll_def)

lemma move_ok:
  assumes "drv_ok safe s" "0 \<le> x" "x \<le> pointer_max_x s" "0 \<le> y" "y \<le> pointer_max_y s"
  shows "drv_ok safe (move_pointer x y dx dy s)"
proof -
  have "drv_ok safe (s\<lparr>pointer_x := x, pointer_y := y\<rparr>)" using assms by (simp add: drv_ok_def kb_inv_def pointer_inv_def)
  then show ?thesis by (simp add: move_pointer_def)
qed

lemma drv_ok_bounds: "drv_ok safe s \<Longrightarrow> 0 \<le> pointer_max_x s \<and> 0 \<le> pointer_max_y s"
  by (auto simp: drv_ok_def pointer_inv_def)

lemma clamped_move_ok: "drv_ok safe s \<Longrightarrow> drv_ok safe (move_pointer (clamp_axis (pointer_max_x s) x) (clamp_axis (pointer_max_y s) y) dx dy s)"
  using drv_ok_bounds [of s] clamp_axis_range by (intro move_ok) auto

lemma decode_ok: "drv_ok safe s \<Longrightarrow> drv_ok safe (decode_mouse_packet s)"
  by (simp add: decode_mouse_packet_def Let_def clamped_move_ok)

lemma absolute_ok: "drv_ok safe s \<Longrightarrow> drv_ok safe (mouse_report_absolute x y b s)"
  by (simp add: mouse_report_absolute_def Let_def clamped_move_ok)

lemma usb_ok: "drv_ok safe s \<Longrightarrow> drv_ok safe (usb_uhci_poll s)"
  by (simp add: usb_uhci_poll_def Let_def absolute_ok)

lemma mouse_byte_ok: "drv_ok safe s \<Longrightarrow> drv_ok safe (mouse_byte b s)"
proof -
  assume s: "drv_ok safe s"
  let ?i = "ms_packet_index s" and ?len = "if ms_wheel s then 4 else 3 :: u8"
  have i: "unat ?i < unat ?len" using s by (simp add: drv_ok_def pointer_inv_def split: if_splits)
  then have suc: "unat (?i + 1) = Suc (unat ?i)" by (intro unat_add_small [of ?i 1, simplified]) (simp split: if_splits)
  have n: "unat (?i + 1) < unat ?len" if "?i + 1 \<noteq> ?len"
  proof -
    have "unat (?i + 1) \<noteq> unat ?len" using that unfolding word_unat_eq_iff .
    with suc i show ?thesis by linarith
  qed
  have u: "drv_ok safe (s\<lparr>ms_packet := (ms_packet s)[unat ?i := b], ms_packet_index := j\<rparr>)" if "unat j < unat ?len" for j
    using s that by (simp add: drv_ok_def kb_inv_def pointer_inv_def split: if_splits)
  then show ?thesis using s n by (simp add: mouse_byte_def Let_def decode_ok)
qed

lemma drain_ok: "drv_ok safe s \<Longrightarrow> drv_ok safe (drain_mouse_bytes io n s)"
  by (induction n arbitrary: s) (simp_all add: Let_def case_prod_beta mouse_byte_ok)

lemma handlers_ok:
  assumes "drv_ok safe s"
  shows "drv_ok safe (interrupt_mouse_handler io s)" "drv_ok safe (snd (interrupt_timer_handler io frame s))"
proof -
  show "drv_ok safe (interrupt_mouse_handler io s)" using assms by (simp add: interrupt_mouse_handler_def drain_ok)
  let ?s = "usb_uhci_poll (drain_mouse_bytes io 8 (s\<lparr>dv_timer_ticks := dv_timer_ticks s + 1\<rparr>))"
  have "drv_ok safe ?s" using assms by (simp add: usb_ok drain_ok)
  then have "drv_ok safe (?s\<lparr>dv_kernel := snd (scheduler_on_timer_tick frame (dv_kernel ?s))\<rparr>)"
    by (simp add: drv_ok_def kb_inv_def pointer_inv_def tick_safe)
  then show "drv_ok safe (snd (interrupt_timer_handler io frame s))" by (simp add: interrupt_timer_handler_def Let_def case_prod_beta)
qed

end

interpretation system_client: interrupt_client sys_reachable
  by unfold_locales (auto intro: sys_reachable.event sys_reachable.tick)

section \<open>Reachable states of the drivers\<close>

text \<open>
  The drivers between boot and the arrival of interrupts. Before the first process runs the kernel may be in any state while the
  devices are started; afterwards it is one that the system reaches.
\<close>

definition boot_ok :: "('d, 'k) drv_state \<Rightarrow> bool" where
  "boot_ok s \<longleftrightarrow> kb_inv s \<and> pointer_inv s \<and> ms_packet_index s = 0"

interpretation bootp: port_client boot_ok
  by unfold_locales (simp add: boot_ok_def kb_inv_def pointer_inv_def)

text \<open>An interrupt taken while the start waits for the first tick.\<close>

definition interrupt_step ::
  "'d io_ports \<Rightarrow> ('d, 'a input_state_scheme) drv_state \<Rightarrow> ('d, 'a input_state_scheme) drv_state \<Rightarrow> bool" where
  "interrupt_step io s t \<longleftrightarrow> (\<exists>frame. t = snd (interrupt_timer_handler io frame s)) \<or> t = interrupt_keyboard_handler io s \<or>
     t = interrupt_mouse_handler io s \<or> t = interrupt_breakpoint_handler s"

interpretation any_client: interrupt_client "\<lambda>_. True"
  by unfold_locales simp_all

text \<open>
  After the start: interrupts, the readers of the keyboard buffer, the bounds of the screen, the memory the USB controller writes, and the
  steps of the rest of the system.
\<close>

inductive drv_reachable :: "'d io_ports \<Rightarrow> ('d, sys_state) drv_state \<Rightarrow> bool" for io where
  start: "(\<And>t. interrupt_step io t (halt t)) \<Longrightarrow> interrupts_hardware_start io halt (drv_static d k0) = (True, s) \<Longrightarrow>
    sys_reachable k \<Longrightarrow> drv_reachable io (s\<lparr>dv_kernel := k\<rparr>)"
| interrupt: "drv_reachable io s \<Longrightarrow> interrupt_step io s t \<Longrightarrow> drv_reachable io t"
| read: "drv_reachable io s \<Longrightarrow> drv_reachable io (snd (keyboard_read_char s))"
| discard: "drv_reachable io s \<Longrightarrow> drv_reachable io (keyboard_discard_chars s)"
| bounds: "drv_reachable io s \<Longrightarrow> drv_reachable io (mouse_set_bounds w h s)"
| usb: "drv_reachable io s \<Longrightarrow> length r = 8 \<Longrightarrow>
    drv_reachable io (s\<lparr>us_present := p, us_poll_active := a, us_report_buffer := r, us_td_control_status := c, us_bound_x := bx, us_bound_y := by\<rparr>)"
| devices: "drv_reachable io s \<Longrightarrow> drv_reachable io (s\<lparr>dv_devices := d\<rparr>)"
| system: "drv_reachable io s \<Longrightarrow> sys_reachable k \<Longrightarrow> drv_reachable io (s\<lparr>dv_kernel := k\<rparr>)"

lemma drv_ok_plain [simp]:
  "drv_ok safe (s\<lparr>dv_breakpoint_count := n\<rparr>) = drv_ok safe s" "drv_ok safe (s\<lparr>kb_ready := b\<rparr>) = drv_ok safe s"
  "drv_ok safe (s\<lparr>ms_ready := b\<rparr>) = drv_ok safe s"
  "drv_ok safe (s\<lparr>dv_kernel := k\<rparr>) \<longleftrightarrow> drv_ok (\<lambda>_. True) s \<and> safe k"
  by (auto simp: drv_ok_def kb_inv_def pointer_inv_def)

lemma boot_ok_plain [simp]:
  "boot_ok (s\<lparr>dv_kernel := k\<rparr>) = boot_ok s" "boot_ok (s\<lparr>kb_ready := b\<rparr>) = boot_ok s" "boot_ok (s\<lparr>ms_ready := b\<rparr>) = boot_ok s"
  by (simp_all add: boot_ok_def kb_inv_def pointer_inv_def)

context interrupt_client
begin

lemma interrupt_step_ok: "drv_ok safe s \<Longrightarrow> interrupt_step io s t \<Longrightarrow> drv_ok safe t"
  using handlers_ok keyboard_handler_ok unfolding interrupt_step_def interrupt_breakpoint_handler_def by auto

end

lemma await_tick_ok:
  assumes "\<And>t. interrupt_step io t (halt t)"
  shows "drv_ok (\<lambda>_. True) s \<Longrightarrow> drv_ok (\<lambda>_. True) (await_tick halt before n s)"
  by (induction n arbitrary: s) (simp_all add: any_client.interrupt_step_ok [OF _ assms])

lemma hardware_start_ok:
  assumes "\<And>t. interrupt_step io t (halt t)"
  shows "drv_ok (\<lambda>_. True) (snd (interrupts_hardware_start io halt (drv_static d k)))"
proof -
  let ?s1 = "pic_remap io (drv_static d k)"
  let ?s2 = "?s1\<lparr>dv_kernel := input_init (dv_kernel ?s1)\<rparr>"
  have "boot_ok (drv_static d k)" using drv_static_inv [of d k] by (simp add: boot_ok_def drv_static_def)
  then have b: "boot_ok ?s2" by (simp add: pic_remap_def)
  obtain kb s3 where 3: "ps2_keyboard_start io ?s2 = (kb, s3)" by fastforce
  have "boot_ok (snd (ps2_keyboard_start io ?s2))"
    by (rule bootp.keyboard_start_keep [OF b]) (simp add: boot_ok_def kb_inv_def pointer_inv_def)
  then have b3: "boot_ok (s3\<lparr>kb_ready := kb\<rparr>)" by (simp add: 3)
  obtain ms s4 where 4: "ps2_mouse_start io (s3\<lparr>kb_ready := kb\<rparr>) = (ms, s4)" by fastforce
  have half: "0 \<le> m \<Longrightarrow> m div 2 \<le> m" for m :: int by linarith
  have "boot_ok (snd (ps2_mouse_start io (s3\<lparr>kb_ready := kb\<rparr>)))"
    by (rule bootp.mouse_start_keep [OF b3]) (auto simp: boot_ok_def kb_inv_def pointer_inv_def intro!: half)
  then have "boot_ok (pit_start_100hz io (s4\<lparr>ms_ready := ms\<rparr>))" by (simp add: 4 pit_start_100hz_def)
  then have "drv_ok (\<lambda>_. True) (pit_start_100hz io (s4\<lparr>ms_ready := ms\<rparr>))" "drv_ok (\<lambda>_. True) (s3\<lparr>kb_ready := kb\<rparr>)"
    using b3 by (simp_all add: boot_ok_def drv_ok_def)
  moreover have "ps2_mouse_start io (s3\<lparr>kb_ready := True\<rparr>) = (ms, s4)" if kb using 4 that by simp
  ultimately show ?thesis using await_tick_ok [OF assms]
    by (cases kb) (simp_all add: interrupts_hardware_start_def 3 Let_def)
qed

lemma reader_ok:
  assumes "drv_ok safe s"
  shows "drv_ok safe (snd (keyboard_read_char s))" "drv_ok safe (keyboard_discard_chars s)" "drv_ok safe (mouse_set_bounds w h s)"
proof -
  have "kb_inv (snd (keyboard_read_char s))"
    using assms keyboard_read_char_elems(1) [of s "fst (keyboard_read_char s)" "snd (keyboard_read_char s)"] by (simp add: drv_ok_def)
  then show "drv_ok safe (snd (keyboard_read_char s))"
    using assms by (simp add: drv_ok_def pointer_inv_def keyboard_read_char_def)
  show "drv_ok safe (keyboard_discard_chars s)"
    using assms by (simp add: drv_ok_def kb_inv_def pointer_inv_def keyboard_discard_chars_def)
  show "drv_ok safe (mouse_set_bounds w h s)"
  proof (cases "w = 0 \<or> h = 0 \<or> w > 32768 \<or> h > 32768")
    case True
    with assms show ?thesis by (simp add: mouse_set_bounds_def)
  next
    case False
    have r: "0 \<le> uint v - 1 \<and> uint v - 1 < 32768" if "v \<noteq> 0" "\<not> v > 32768" for v :: u32
    proof -
      have "uint v \<noteq> 0" "\<not> uint v > 32768" using that by (simp_all add: word_less_alt word_uint_eq_iff)
      then show ?thesis using uint_ge_0 [of v] by linarith
    qed
    have "mouse_set_bounds w h s = s\<lparr>pointer_max_x := uint w - 1, pointer_max_y := uint h - 1,
        pointer_x := if pointer_x s > uint w - 1 then uint w - 1 else pointer_x s,
        pointer_y := if pointer_y s > uint h - 1 then uint h - 1 else pointer_y s\<rparr>"
      using False by (simp add: mouse_set_bounds_def Let_def)
    with assms r [of w] r [of h] False show ?thesis by (simp add: drv_ok_def kb_inv_def pointer_inv_def)
  qed
qed

lemma drv_reachable_ok: "drv_reachable io s \<Longrightarrow> drv_ok sys_reachable s"
proof (induction rule: drv_reachable.induct)
  case (start halt d k0 s k)
  then show ?case using hardware_start_ok [OF start(1), of d k0] by simp
next
  case (interrupt s t)
  then show ?case using system_client.interrupt_step_ok by blast
next
  case (usb s r p a c bx "by")
  then show ?case by (simp add: drv_ok_def kb_inv_def pointer_inv_def)
next
  case (system s k)
  then show ?case by (simp add: drv_ok_def kb_inv_def pointer_inv_def)
qed (simp_all add: reader_ok drv_ok_devices)

text \<open>
  Claim C8: the drivers are safe whatever the devices answer. In every state they reach, from the start of the controller through any
  interleaving of timer, keyboard and mouse interrupts, reports of the tablet, readers of the keyboard and steps of the system, the
  pointer is on the screen, the index of a packet is inside the packet buffer, the keyboard buffer holds at most 63
  characters with both indices inside it, and the rest of the kernel is in a state that the system itself reaches.
\<close>

theorem drivers_safe:
  assumes "drv_reachable io s"
  shows "0 \<le> pointer_x s \<and> pointer_x s \<le> pointer_max_x s \<and> 0 \<le> pointer_y s \<and> pointer_y s \<le> pointer_max_y s \<and>
    unat (ms_packet_index s) < (if ms_wheel s then 4 else 3) \<and> length (ms_packet s) = 4 \<and>
    unat (kb_read s) < length (kb_buffer s) \<and> unat (kb_write s) < length (kb_buffer s) \<and> length (kb_elems s) \<le> 63 \<and>
    sys_reachable (dv_kernel s)"
proof -
  have "drv_ok sys_reachable s" using drv_reachable_ok [OF assms] .
  then have "kb_inv s" "pointer_inv s" "sys_reachable (dv_kernel s)" by (simp_all add: drv_ok_def)
  then show ?thesis using kbq.elems_le_cap [of s] by (simp add: kb_inv_def pointer_inv_def)
qed

text \<open>A controller that always has the byte \<open>0xFA\<close> ready, which acknowledges every command.\<close>

definition ack_ports :: "unit io_ports" where
  "ack_ports = \<lparr>port_in = (\<lambda>port d. (if port = 0x64 then 0x01 else 0xFA, d)), port_out = (\<lambda>port value d. d)\<rparr>"

lemma ack_io [simp]: "in8 ack_ports p s = (if p = 0x64 then 0x01 else 0xFA, s)" "out8 ack_ports p v s = s"
  by (simp_all add: in8_def out8_def ack_ports_def)

lemma ack_writes [simp]: "out_all ack_ports ws s = s"
  unfolding out_all_def by (induction ws) auto

lemma ack_poll: "cond 0x01 \<Longrightarrow> 0 < n \<Longrightarrow> poll_status ack_ports cond n s = (True, s)"
  by (cases n) simp_all

lemma ack_flush: "flush_reads ack_ports n s = s"
  by (induction n) simp_all

lemma ack_commands [simp]:
  "ps2_wait_input_empty ack_ports s = (True, s)" "ps2_wait_output_full ack_ports s = (True, s)"
  "ps2_command ack_ports v s = (True, s)" "ps2_data ack_ports v s = (True, s)" "ps2_read ack_ports s = (Some 0xFA, s)"
  by (simp_all add: ps2_wait_input_empty_def ps2_wait_output_full_def ack_poll ps2_command_def ps2_data_def ps2_read_def)

lemma ack_mouse [simp]:
  "ps2_mouse_command ack_ports v s = (True, s)" "ps2_mouse_command_reply ack_ports v s = (Some 0xFA, s)"
  "ps2_mouse_rate ack_ports v s = (True, s)"
  by (simp_all add: ps2_mouse_command_def ps2_mouse_command_reply_def ps2_mouse_rate_def)

lemma ack_tick: 
  assumes "\<not> us_present s"
  shows "snd (interrupt_timer_handler ack_ports 0 s) = s\<lparr>dv_timer_ticks := dv_timer_ticks s + 1, dv_kernel := snd (scheduler_on_timer_tick 0 (dv_kernel s))\<rparr>"
proof -
  have "drain_mouse_bytes ack_ports n t = t" for n and t :: "(unit, 'a input_state_scheme) drv_state" by (cases n) simp_all
  with assms show ?thesis by (simp add: interrupt_timer_handler_def usb_uhci_poll_def Let_def case_prod_beta)
qed

lemma ack_start:
  "\<exists>s. interrupts_hardware_start ack_ports (\<lambda>t. snd (interrupt_timer_handler ack_ports 0 t)) (drv_static () k) = (True, s) \<and>
    pointer_x s = 319 \<and> pointer_y s = 239"
proof -
  let ?halt = "\<lambda>t. snd (interrupt_timer_handler ack_ports 0 t)"
  have tick: "await_tick ?halt (dv_timer_ticks t) 8 t =
      t\<lparr>dv_timer_ticks := dv_timer_ticks t + 1, dv_kernel := snd (scheduler_on_timer_tick 0 (dv_kernel t))\<rparr>"
    if "\<not> us_present t" for t :: "(unit, 'a input_state_scheme) drv_state"
    using ack_tick [OF that] by (simp add: eval_nat_numeral)
  let ?s = "(drv_static () (input_init k))\<lparr>kb_ready := True, ms_ready := True, pointer_x := 319, pointer_y := 239\<rparr>"
  have "interrupts_hardware_start ack_ports ?halt (drv_static () k) =
    (0 < dv_timer_ticks (await_tick ?halt 0 8 ?s), await_tick ?halt 0 8 ?s)"
    by (simp add: interrupts_hardware_start_def ps2_keyboard_start_def ps2_mouse_start_def mouse_negotiate_def pic_remap_def
        pit_start_100hz_def ps2_flush_output_def ack_flush drv_static_def Let_def)
  with tick [of ?s] show ?thesis by (simp add: drv_static_def)
qed

theorem drivers_safe_witness:
  "\<exists>s. drv_reachable ack_ports s \<and> pointer_x s = 319 \<and> pointer_y s = 239 \<and> sys_reachable (dv_kernel s)"
proof -
  obtain s where s: "interrupts_hardware_start ack_ports (\<lambda>t. snd (interrupt_timer_handler ack_ports 0 t)) (drv_static () sys_static) = (True, s)"
    "pointer_x s = 319" "pointer_y s = 239"
    using ack_start by blast
  obtain k where k: "sys_boot 0x1000 0x400000 0x1000000 sys_static = Some k"
    by (auto simp: sys_boot_def boot_surfaces_def boot_tables_def surfaces_init_def Let_def)
  have "sys_reachable k" by (rule sys_reachable.boot [OF sys_static_facts _ k]) simp
  then have "drv_reachable ack_ports (s\<lparr>dv_kernel := k\<rparr>)"
    by (intro drv_reachable.start [OF _ s(1)]) (auto simp: interrupt_step_def)
  with drivers_safe [OF this] s show ?thesis by (intro exI [of _ "s\<lparr>dv_kernel := k\<rparr>"]) simp
qed

end
